(* ===== verification/Prelude.thy ===== *)
theory Prelude
  imports Main "HOL-Library.Word" "HOL-Library.AList" "HOL-Library.List_Lexorder"
begin

text \<open>
  Shared types and helpers of the development.

  Machine integers are words of the source's width. Byte strings, 32 byte keys and
  event ids are lists of bytes; where the source's type fixes a length, the length is
  a well-formedness condition of the model. Rust's \<open>Result\<close> is the sum type with the
  error on the left, and \<open>and_then\<close> is its \<open>?\<close> operator. A \<open>HashMap\<close> is an
  association list with distinct keys, in the (arbitrary) iteration order of the map.
  A \<open>Duration\<close> is a number of nanoseconds that saturates at \<open>Duration::MAX\<close>, and an
  \<open>Instant\<close> is a number of nanoseconds since some fixed point; \<open>duration_since\<close> is
  subtraction that stops at zero, as the standard library documents it.
\<close>

section \<open>Machine types\<close>

type_synonym u8 = "8 word"
type_synonym u16 = "16 word"
type_synonym u32 = "32 word"
type_synonym u64 = "64 word"
type_synonym bytes = "u8 list"

abbreviation zero32 :: bytes where
  "zero32 \<equiv> replicate 32 0"

lemma replicate_numeral: "replicate (numeral k) x = x # replicate (pred_numeral k) x"
  by (simp add: numeral_eq_Suc)

definition ascii :: "string \<Rightarrow> bytes" where
  "ascii s = map of_char s"

lemma unat_u8: "unat (a :: u8) < 2 ^ 8"
  and unat_u16: "unat (b :: u16) < 2 ^ 16"
  and unat_u32: "unat (c :: u32) < 2 ^ 32"
  and unat_u64: "unat (d :: u64) < 2 ^ 64"
  using unsigned_less [of a] unsigned_less [of b] unsigned_less [of c] unsigned_less [of d]
  by simp_all

section \<open>Results\<close>

fun and_then :: "'e + 'a \<Rightarrow> ('a \<Rightarrow> 'e + 'b) \<Rightarrow> 'e + 'b" where
  "and_then (Inl e) f = Inl e"
| "and_then (Inr x) f = f x"

lemma and_then_eq_Inr:
  "and_then m f = Inr y \<longleftrightarrow> (\<exists>x. m = Inr x \<and> f x = Inr y)"
  by (cases m) auto

lemma and_then_eq_Inl:
  "and_then m f = Inl e \<longleftrightarrow> m = Inl e \<or> (\<exists>x. m = Inr x \<and> f x = Inl e)"
  by (cases m) auto

lemma and_then_InrE [elim!]:
  assumes "and_then m f = Inr y"
  obtains x where "m = Inr x" and "f x = Inr y"
  using assms by (auto simp: and_then_eq_Inr)

definition ok_or :: "'a option \<Rightarrow> 'e \<Rightarrow> 'e + 'a" where
  "ok_or x e = (case x of None \<Rightarrow> Inl e | Some v \<Rightarrow> Inr v)"

lemma ok_or_simps [simp]: "ok_or None e = Inl e" "ok_or (Some v) e = Inr v"
  by (simp_all add: ok_or_def)

lemma ok_or_eq_Inr [simp]: "ok_or x e = Inr v \<longleftrightarrow> x = Some v"
  by (auto simp: ok_or_def split: option.splits)

section \<open>Hash maps\<close>

type_synonym ('k, 'v) hashmap = "('k \<times> 'v) list"

definition hm_wf :: "('k, 'v) hashmap \<Rightarrow> bool" where
  "hm_wf m \<longleftrightarrow> distinct (map fst m)"

abbreviation hm_get :: "('k, 'v) hashmap \<Rightarrow> 'k \<Rightarrow> 'v option" where
  "hm_get \<equiv> map_of"

abbreviation hm_insert :: "'k \<Rightarrow> 'v \<Rightarrow> ('k, 'v) hashmap \<Rightarrow> ('k, 'v) hashmap" where
  "hm_insert \<equiv> AList.update"

abbreviation hm_remove :: "'k \<Rightarrow> ('k, 'v) hashmap \<Rightarrow> ('k, 'v) hashmap" where
  "hm_remove \<equiv> AList.delete"

text \<open>\<open>entry(k).or_insert(v)\<close>: an occupied entry is left as it is.\<close>

definition hm_or_insert :: "'k \<Rightarrow> 'v \<Rightarrow> ('k, 'v) hashmap \<Rightarrow> ('k, 'v) hashmap" where
  "hm_or_insert k v m = (case hm_get m k of None \<Rightarrow> hm_insert k v m | Some _ \<Rightarrow> m)"

lemma hm_wf_Nil [simp]: "hm_wf []"
  by (simp add: hm_wf_def)

lemma hm_wf_insert [simp]: "hm_wf m \<Longrightarrow> hm_wf (hm_insert k v m)"
  unfolding hm_wf_def by (rule distinct_update)

lemma hm_wf_remove [simp]: "hm_wf m \<Longrightarrow> hm_wf (hm_remove k m)"
  unfolding hm_wf_def by (rule distinct_delete)

lemma hm_wf_or_insert [simp]: "hm_wf m \<Longrightarrow> hm_wf (hm_or_insert k v m)"
  by (simp add: hm_or_insert_def split: option.splits)

lemma hm_get_insert: "hm_get (hm_insert k v m) k' = (if k' = k then Some v else hm_get m k')"
  by (simp add: update_conv')

lemma hm_get_remove: "hm_get (hm_remove k m) k' = (if k' = k then None else hm_get m k')"
  by (simp add: delete_conv')

lemma hm_get_or_insert:
  "hm_get (hm_or_insert k v m) k' =
     (if k' = k \<and> hm_get m k = None then Some v else hm_get m k')"
  by (simp add: hm_or_insert_def hm_get_insert split: option.splits)

lemma insert_fresh: "map_of m k = None \<Longrightarrow> AList.update k v m = m @ [(k, v)]"
  by (induction m) auto

lemma hm_get_iff_mem: "hm_wf m \<Longrightarrow> hm_get m k = Some v \<longleftrightarrow> (k, v) \<in> set m"
  by (simp add: hm_wf_def)

lemma hm_same_set:
  assumes "hm_wf m" and "hm_wf m'" and "hm_get m = hm_get m'"
  shows "set m = set m'"
proof -
  have "x \<in> set m \<longleftrightarrow> x \<in> set m'" for x
    using assms hm_get_iff_mem [of m "fst x" "snd x"] hm_get_iff_mem [of m' "fst x" "snd x"]
    by simp
  then show ?thesis by blast
qed

text \<open>The contract of a map that the clients of this development rely on.\<close>

locale map_contract =
  fixes get :: "'m \<Rightarrow> 'k \<Rightarrow> 'v option"
    and ins :: "'k \<Rightarrow> 'v \<Rightarrow> 'm \<Rightarrow> 'm"
    and del :: "'k \<Rightarrow> 'm \<Rightarrow> 'm"
    and wf :: "'m \<Rightarrow> bool"
  assumes get_ins: "get (ins k v m) k' = (if k' = k then Some v else get m k')"
    and get_del: "get (del k m) k' = (if k' = k then None else get m k')"
    and wf_ins: "wf m \<Longrightarrow> wf (ins k v m)"
    and wf_del: "wf m \<Longrightarrow> wf (del k m)"
begin

lemma get_ins_same: "get (ins k v m) k = Some v"
  by (simp add: get_ins)

lemma ins_twice: "get (ins k v (ins k w m)) = get (ins k v m)"
  by (rule ext) (simp add: get_ins)

lemma ins_ins_commute: "k \<noteq> l \<Longrightarrow> get (ins k v (ins l w m)) = get (ins l w (ins k v m))"
  by (rule ext) (simp add: get_ins)

lemma del_ins: "get m k = None \<Longrightarrow> get (del k (ins k v m)) = get m"
  by (rule ext) (simp add: get_ins get_del)

lemma get_del_Some: "get (del k m) k' = Some v \<Longrightarrow> get m k' = Some v"
  by (simp add: get_del split: if_splits)

end

interpretation hm: map_contract map_of AList.update AList.delete hm_wf
  by unfold_locales (simp_all add: hm_get_insert hm_get_remove)

section \<open>Durations and instants\<close>

type_synonym duration = nat
type_synonym instant = nat

definition duration_max :: duration where
  "duration_max = (2 ^ 64 - 1) * 1000000000 + 999999999"

definition from_secs :: "nat \<Rightarrow> duration" where
  "from_secs s = s * 1000000000"

definition from_millis :: "nat \<Rightarrow> duration" where
  "from_millis ms = ms * 1000000"

text \<open>The arithmetic that panics when the result is no \<open>Duration\<close>.\<close>

definition checked :: "duration \<Rightarrow> duration option" where
  "checked d = (if d \<le> duration_max then Some d else None)"

definition sat_mul :: "duration \<Rightarrow> nat \<Rightarrow> duration" where
  "sat_mul d k = min (d * k) duration_max"

definition sat_add :: "duration \<Rightarrow> duration \<Rightarrow> duration" where
  "sat_add d e = min (d + e) duration_max"

definition duration_since :: "instant \<Rightarrow> instant \<Rightarrow> duration" where
  "duration_since now earlier = now - earlier"

text \<open>\<open>u64::abs_diff\<close>.\<close>

definition abs_diff :: "nat \<Rightarrow> nat \<Rightarrow> nat" where
  "abs_diff a b = (if a < b then b - a else a - b)"

text \<open>\<open>u32::saturating_add(1)\<close> and \<open>u64::saturating_add(1)\<close>.\<close>

definition sat_inc32 :: "u32 \<Rightarrow> u32" where
  "sat_inc32 w = (if w = - 1 then w else w + 1)"

definition sat_inc64 :: "u64 \<Rightarrow> u64" where
  "sat_inc64 w = (if w = - 1 then w else w + 1)"

lemma unat_sat_inc32: "w \<noteq> - 1 \<Longrightarrow> unat (sat_inc32 w) = Suc (unat w)"
  by (metis add.commute add.inverse_inverse add_eq_0_iff sat_inc32_def unatSuc)

lemma unat_sat_inc32_le: "unat (sat_inc32 w) \<le> Suc (unat w)"
  by (cases "w = - 1") (simp add: sat_inc32_def, simp add: unat_sat_inc32)

lemma unat_sat_inc32_below: "w < k \<Longrightarrow> unat (sat_inc32 w) = Suc (unat w)"
  using unat_u32 [of k]
  by (intro unat_sat_inc32) (auto simp: word_less_nat_alt unsigned_minus_1_eq_mask mask_eq_exp_minus_1)

section \<open>Big-endian integers\<close>

fun nat_be :: "nat \<Rightarrow> nat \<Rightarrow> bytes" where
  "nat_be 0 n = []"
| "nat_be (Suc k) n = nat_be k (n div 256) @ [of_nat n]"

fun be_nat :: "bytes \<Rightarrow> nat \<Rightarrow> nat" where
  "be_nat [] a = a"
| "be_nat (b # bs) a = be_nat bs (a * 256 + unat b)"

lemma length_nat_be [simp]: "length (nat_be k n) = k"
  by (induction k arbitrary: n) auto

lemma be_nat_append: "be_nat (xs @ ys) a = be_nat ys (be_nat xs a)"
  by (induction xs arbitrary: a) auto

lemma be_nat_nat_be_aux: "n < 256 ^ k \<Longrightarrow> be_nat (nat_be k n) 0 = n"
proof (induction k arbitrary: n)
  case 0
  then show ?case by simp
next
  case (Suc k)
  have "n div 256 < 256 ^ k"
    using Suc.prems by (simp add: less_mult_imp_div_less mult.commute)
  then have "be_nat (nat_be k (n div 256)) 0 = n div 256"
    by (rule Suc.IH)
  then show ?case
    by (simp add: be_nat_append unat_of_nat)
qed

text \<open>\<open>to_be_bytes\<close> and \<open>from_be_bytes\<close>.\<close>

definition to_be :: "nat \<Rightarrow> 'a::len word \<Rightarrow> bytes" where
  "to_be k w = nat_be k (unat w)"

definition from_be :: "bytes \<Rightarrow> 'a::len word" where
  "from_be bs = of_nat (be_nat bs 0)"

lemma length_to_be [simp]: "length (to_be k w) = k"
  by (simp add: to_be_def)

lemma from_be_to_be:
  fixes w :: "'a::len word"
  assumes "LENGTH('a) \<le> 8 * k"
  shows "from_be (to_be k w) = w"
proof -
  have "unat w < 2 ^ LENGTH('a)" by (rule unsigned_less)
  also have "(2::nat) ^ LENGTH('a) \<le> 2 ^ (8 * k)"
    using assms by (rule power_increasing) simp
  also have "(2::nat) ^ (8 * k) = 256 ^ k"
    by (simp add: power_mult)
  finally have "be_nat (nat_be k (unat w)) 0 = unat w"
    by (rule be_nat_nat_be_aux)
  then show ?thesis
    by (simp add: from_be_def to_be_def)
qed

lemma from_be_to_be16 [simp]: "from_be (to_be 2 (w :: u16)) = w"
  and from_be_to_be32 [simp]: "from_be (to_be 4 (v :: u32)) = v"
  and from_be_to_be64 [simp]: "from_be (to_be 8 (x :: u64)) = x"
  by (simp_all add: from_be_to_be)

lemma be_nat_bound: "a < 256 ^ k \<Longrightarrow> be_nat bs a < 256 ^ (k + length bs)"
proof (induction bs arbitrary: a k)
  case (Cons b bs)
  have "a * 256 + unat b < 256 ^ Suc k"
  proof -
    have "Suc a \<le> 256 ^ k" using Cons.prems by simp
    then have "Suc a * 256 \<le> 256 ^ k * 256" by (rule mult_le_mono1)
    then show ?thesis using unat_u8 [of b] by simp
  qed
  from Cons.IH [OF this] show ?case by simp
qed simp

lemma nat_be_be_nat: "nat_be (k + length bs) (be_nat bs a) = nat_be k a @ bs"
proof (induction bs arbitrary: a k)
  case (Cons b bs)
  have b: "(a * 256 + unat b) div 256 = a" using unat_u8 [of b] by simp
  have "of_nat (a * 256 + unat b) = b"
    by (rule word_unat_eq_iff [THEN iffD2])
      (use unat_u8 [of b] in \<open>simp add: unat_of_nat del: of_nat_add of_nat_mult\<close>)
  then have "nat_be (Suc k) (a * 256 + unat b) = nat_be k a @ [b]"
    by (simp add: b del: of_nat_add of_nat_mult)
  then show ?case using Cons.IH [of "Suc k" "a * 256 + unat b"] by simp
qed simp

text \<open>The other direction: the bytes of an integer that was read are the bytes read.\<close>

lemma to_be_from_be:
  assumes "length bs = k" and "8 * k = LENGTH('a::len)"
  shows "to_be k (from_be bs :: 'a word) = bs"
proof -
  have "be_nat bs 0 < 256 ^ (0 + length bs)" by (rule be_nat_bound) simp
  also have "(256::nat) ^ (0 + length bs) = 2 ^ (8 * k)"
    unfolding power_mult using assms(1) by simp
  also have "8 * k = LENGTH('a)" by (rule assms(2))
  finally have "unat (from_be bs :: 'a word) = be_nat bs 0"
    by (simp add: from_be_def unat_of_nat)
  then show ?thesis using nat_be_be_nat [of 0 bs 0] assms(1) by (simp add: to_be_def)
qed

end
