(* ===== verification/Cbor.thy ===== *)
theory Cbor
  imports Prelude
begin

text \<open>
  The interface of the \<open>minicbor\<close> crate that the event format is written against.

  The crate is not part of the repository, so its encoder and decoder are a parameter of
  every definition that calls them: a record of functions. An encoder function gives the
  bytes that the call appends to the buffer. A decoder function reads the bytes from the
  decoder's position to the end of its buffer and returns the value read and the bytes
  after it, so that \<open>dec.position()\<close> is the length of the buffer minus the length of the
  bytes that remain. What the code relies on is the locale \<open>minicbor_contract\<close>. The
  last section interprets it on a codec for the subset of RFC 8949 that the code uses.
\<close>

section \<open>UTF-8\<close>

text \<open>
  \<open>Decoder::str\<close> returns a \<open>&str\<close>, which is well-formed UTF-8 (Unicode Standard,
  table 3-7). A string is modelled by its bytes.
\<close>

definition utf8_cont :: "u8 \<Rightarrow> bool" where
  "utf8_cont b \<longleftrightarrow> 0x80 \<le> b \<and> b \<le> 0xBF"

fun utf8_valid :: "bytes \<Rightarrow> bool" where
  "utf8_valid [] = True"
| "utf8_valid (a # s) =
     (if a \<le> 0x7F then utf8_valid s
      else case s of
        [] \<Rightarrow> False
      | b # s2 \<Rightarrow>
          (if 0xC2 \<le> a \<and> a \<le> 0xDF then utf8_cont b \<and> utf8_valid s2
           else case s2 of
             [] \<Rightarrow> False
           | c # s3 \<Rightarrow>
               (if 0xE0 \<le> a \<and> a \<le> 0xEF then
                  (if a = 0xE0 then 0xA0 \<le> b \<and> b \<le> 0xBF
                   else if a = 0xED then 0x80 \<le> b \<and> b \<le> 0x9F
                   else utf8_cont b) \<and> utf8_cont c \<and> utf8_valid s3
                else case s3 of
                  [] \<Rightarrow> False
                | d # s4 \<Rightarrow>
                    0xF0 \<le> a \<and> a \<le> 0xF4 \<and>
                    (if a = 0xF0 then 0x90 \<le> b \<and> b \<le> 0xBF
                     else if a = 0xF4 then 0x80 \<le> b \<and> b \<le> 0x8F
                     else utf8_cont b) \<and> utf8_cont c \<and> utf8_cont d \<and> utf8_valid s4)))"

section \<open>The interface\<close>

text \<open>
  A decode error is the crate's own (end of input, type mismatch, overflow) or one made
  with \<open>DecodeError::message\<close> by the code under verification: a fixed text, or the one that
  \<open>missing_key\<close> formats from a body type and a key.
\<close>

datatype decode_error = LibError | DecodeMessage string | MissingKey u64 u64

record minicbor =
  enc_array :: "u64 \<Rightarrow> bytes"
  enc_map :: "u64 \<Rightarrow> bytes"
  enc_u8 :: "u8 \<Rightarrow> bytes"
  enc_u16 :: "u16 \<Rightarrow> bytes"
  enc_u32 :: "u32 \<Rightarrow> bytes"
  enc_u64 :: "u64 \<Rightarrow> bytes"
  enc_bytes :: "bytes \<Rightarrow> bytes"
  enc_str :: "bytes \<Rightarrow> bytes"
  enc_bool :: "bool \<Rightarrow> bytes"
  dec_array :: "bytes \<Rightarrow> decode_error + u64 option \<times> bytes"
  dec_map :: "bytes \<Rightarrow> decode_error + u64 option \<times> bytes"
  dec_u8 :: "bytes \<Rightarrow> decode_error + u8 \<times> bytes"
  dec_u16 :: "bytes \<Rightarrow> decode_error + u16 \<times> bytes"
  dec_u32 :: "bytes \<Rightarrow> decode_error + u32 \<times> bytes"
  dec_u64 :: "bytes \<Rightarrow> decode_error + u64 \<times> bytes"
  dec_bytes :: "bytes \<Rightarrow> decode_error + bytes \<times> bytes"
  dec_str :: "bytes \<Rightarrow> decode_error + bytes \<times> bytes"
  dec_bool :: "bytes \<Rightarrow> decode_error + bool \<times> bytes"
  dec_skip :: "bytes \<Rightarrow> decode_error + unit \<times> bytes"

text \<open>
  The contract: a value that was encoded is read back and leaves the bytes after it, a
  definite header of a collection is read with its length, \<open>u8\<close>, \<open>u16\<close>, \<open>u32\<close> and
  \<open>u64\<close> encode an integer the same way (shortest form), and a string read is UTF-8.
\<close>

locale minicbor_contract =
  fixes C :: minicbor
  assumes dec_enc_array: "dec_array C (enc_array C n @ r) = Inr (Some n, r)"
    and dec_enc_map: "dec_map C (enc_map C n @ r) = Inr (Some n, r)"
    and dec_enc_u8: "dec_u8 C (enc_u8 C a @ r) = Inr (a, r)"
    and dec_enc_u16: "dec_u16 C (enc_u16 C b @ r) = Inr (b, r)"
    and dec_enc_u32: "dec_u32 C (enc_u32 C c @ r) = Inr (c, r)"
    and dec_enc_u64: "dec_u64 C (enc_u64 C d @ r) = Inr (d, r)"
    and enc_u8_u64: "enc_u8 C a = enc_u64 C (ucast a)"
    and dec_enc_bytes: "length s < 2 ^ 64 \<Longrightarrow> dec_bytes C (enc_bytes C s @ r) = Inr (s, r)"
    and dec_enc_str:
      "length s < 2 ^ 64 \<Longrightarrow> utf8_valid s \<Longrightarrow> dec_str C (enc_str C s @ r) = Inr (s, r)"
    and dec_enc_bool: "dec_bool C (enc_bool C t @ r) = Inr (t, r)"
    and dec_str_utf8: "dec_str C x = Inr (s, r) \<Longrightarrow> utf8_valid s"
begin

lemma dec_u64_enc_u8: "dec_u64 C (enc_u8 C a @ r) = Inr (ucast a, r)"
  by (simp add: enc_u8_u64 dec_enc_u64)

lemmas dec_enc [simp] =
  dec_enc_array dec_enc_map dec_enc_u8 dec_enc_u16 dec_enc_u32 dec_enc_u64
  dec_u64_enc_u8 dec_enc_bytes dec_enc_str dec_enc_bool

text \<open>The same laws at the end of the buffer.\<close>

lemma dec_enc_u32_end [simp]: "dec_u32 C (enc_u32 C c) = Inr (c, [])"
  using dec_enc_u32 [of c "[]"] by simp

lemma dec_enc_u64_end [simp]: "dec_u64 C (enc_u64 C d) = Inr (d, [])"
  using dec_enc_u64 [of d "[]"] by simp

lemma dec_enc_bytes_end [simp]: "length s < 2 ^ 64 \<Longrightarrow> dec_bytes C (enc_bytes C s) = Inr (s, [])"
  using dec_enc_bytes [of s "[]"] by simp

lemma dec_enc_str_end [simp]:
  "length s < 2 ^ 64 \<Longrightarrow> utf8_valid s \<Longrightarrow> dec_str C (enc_str C s) = Inr (s, [])"
  using dec_enc_str [of s "[]"] by simp

lemma dec_enc_bool_end [simp]: "dec_bool C (enc_bool C t) = Inr (t, [])"
  using dec_enc_bool [of t "[]"] by simp

end

section \<open>Reading a 32 byte string\<close>

definition read_32 :: "minicbor \<Rightarrow> bytes \<Rightarrow> decode_error + bytes \<times> bytes" where
  "read_32 C d =
     and_then (dec_bytes C d) (\<lambda>(s, d).
       if length s = 32 then Inr (s, d) else Inl (DecodeMessage ''expected a 32 byte string''))"

lemma read_32_length: "read_32 C d = Inr (s, d') \<Longrightarrow> length s = 32"
  by (auto simp: read_32_def split: if_splits)

context minicbor_contract
begin

lemma read_32_enc [simp]: "length s = 32 \<Longrightarrow> read_32 C (enc_bytes C s @ r) = Inr (s, r)"
  by (simp add: read_32_def)

lemma read_32_enc_end [simp]: "length s = 32 \<Longrightarrow> read_32 C (enc_bytes C s) = Inr (s, [])"
  by (simp add: read_32_def)

end

section \<open>A codec for RFC 8949\<close>

text \<open>
  The item heads of RFC 8949, section 3: the major type in the three high bits of the
  first byte, the argument in the low five bits or in the 1, 2, 4 or 8 bytes that follow.
  The encoder always takes the shortest form (section 4.2.1); the decoder takes every
  well-formed one. \<open>None\<close> is the indefinite length of additional information 31.
\<close>

definition rfc_head :: "nat \<Rightarrow> nat \<Rightarrow> bytes" where
  "rfc_head m n =
     (if n < 24 then [of_nat (m * 32 + n)]
      else if n < 2 ^ 8 then of_nat (m * 32 + 24) # nat_be 1 n
      else if n < 2 ^ 16 then of_nat (m * 32 + 25) # nat_be 2 n
      else if n < 2 ^ 32 then of_nat (m * 32 + 26) # nat_be 4 n
      else of_nat (m * 32 + 27) # nat_be 8 n)"

definition rfc_arg :: "nat \<Rightarrow> bytes \<Rightarrow> decode_error + nat option \<times> bytes" where
  "rfc_arg k d =
     (if length d < k then Inl LibError else Inr (Some (be_nat (take k d) 0), drop k d))"

definition rfc_unhead :: "bytes \<Rightarrow> decode_error + nat \<times> nat option \<times> bytes" where
  "rfc_unhead d =
     (case d of
        [] \<Rightarrow> Inl LibError
      | b # d \<Rightarrow>
          (let m = unat b div 32; i = unat b mod 32 in
           and_then
             (if i < 24 then Inr (Some i, d)
              else if i = 24 then rfc_arg 1 d
              else if i = 25 then rfc_arg 2 d
              else if i = 26 then rfc_arg 4 d
              else if i = 27 then rfc_arg 8 d
              else if i = 31 then Inr (None, d)
              else Inl LibError)
             (\<lambda>(n, d). Inr (m, n, d))))"

definition rfc_uint :: "nat \<Rightarrow> bytes \<Rightarrow> decode_error + nat \<times> bytes" where
  "rfc_uint bound d =
     and_then (rfc_unhead d) (\<lambda>(m, n, d).
       case n of
         None \<Rightarrow> Inl LibError
       | Some n \<Rightarrow> if m = 0 \<and> n < bound then Inr (n, d) else Inl LibError)"

definition rfc_len :: "nat \<Rightarrow> bytes \<Rightarrow> decode_error + u64 option \<times> bytes" where
  "rfc_len major d =
     and_then (rfc_unhead d) (\<lambda>(m, n, d).
       if m = major then Inr (map_option of_nat n, d) else Inl LibError)"

definition rfc_string :: "nat \<Rightarrow> bytes \<Rightarrow> decode_error + bytes \<times> bytes" where
  "rfc_string major d =
     and_then (rfc_unhead d) (\<lambda>(m, n, d).
       case n of
         None \<Rightarrow> Inl LibError
       | Some n \<Rightarrow> if m = major \<and> n \<le> length d then Inr (take n d, drop n d) else Inl LibError)"

lemma rfc_arg_shorter: "rfc_arg k d = Inr (n, d') \<Longrightarrow> length d' \<le> length d"
  by (auto simp: rfc_arg_def split: if_splits)

lemma rfc_unhead_shorter: "rfc_unhead d = Inr (m, n, d') \<Longrightarrow> length d' < length d"
  by (auto simp: rfc_unhead_def Let_def less_Suc_eq_le
      split: list.splits if_splits dest!: rfc_arg_shorter)

text \<open>Skipping \<open>c\<close> items: a collection adds its elements to the count.\<close>

function rfc_skip :: "nat \<Rightarrow> bytes \<Rightarrow> decode_error + unit \<times> bytes" where
  "rfc_skip 0 d = Inr ((), d)"
| "rfc_skip (Suc c) d =
     (case rfc_unhead d of
        Inl e \<Rightarrow> Inl e
      | Inr (m, n, d') \<Rightarrow>
          (case n of
             None \<Rightarrow> Inl LibError
           | Some n \<Rightarrow>
               if m \<le> 1 \<or> m = 7 then rfc_skip c d'
               else if m \<le> 3 then
                 (if n \<le> length d' then rfc_skip c (drop n d') else Inl LibError)
               else if m = 4 then rfc_skip (c + n) d'
               else if m = 5 then rfc_skip (c + 2 * n) d'
               else rfc_skip (Suc c) d'))"
  by pat_completeness auto
termination
  by (relation "measure (\<lambda>(c, d). length d)") (auto dest!: rfc_unhead_shorter)

definition rfc8949 :: minicbor where
  "rfc8949 = \<lparr>
     enc_array = (\<lambda>n. rfc_head 4 (unat n)),
     enc_map = (\<lambda>n. rfc_head 5 (unat n)),
     enc_u8 = (\<lambda>n. rfc_head 0 (unat n)),
     enc_u16 = (\<lambda>n. rfc_head 0 (unat n)),
     enc_u32 = (\<lambda>n. rfc_head 0 (unat n)),
     enc_u64 = (\<lambda>n. rfc_head 0 (unat n)),
     enc_bytes = (\<lambda>s. rfc_head 2 (length s) @ s),
     enc_str = (\<lambda>s. rfc_head 3 (length s) @ s),
     enc_bool = (\<lambda>t. [if t then 0xF5 else 0xF4]),
     dec_array = rfc_len 4,
     dec_map = rfc_len 5,
     dec_u8 = (\<lambda>d. and_then (rfc_uint (2 ^ 8) d) (\<lambda>(n, d). Inr (of_nat n, d))),
     dec_u16 = (\<lambda>d. and_then (rfc_uint (2 ^ 16) d) (\<lambda>(n, d). Inr (of_nat n, d))),
     dec_u32 = (\<lambda>d. and_then (rfc_uint (2 ^ 32) d) (\<lambda>(n, d). Inr (of_nat n, d))),
     dec_u64 = (\<lambda>d. and_then (rfc_uint (2 ^ 64) d) (\<lambda>(n, d). Inr (of_nat n, d))),
     dec_bytes = rfc_string 2,
     dec_str = (\<lambda>d. and_then (rfc_string 3 d) (\<lambda>(s, d).
       if utf8_valid s then Inr (s, d) else Inl LibError)),
     dec_bool = (\<lambda>d. case d of
         [] \<Rightarrow> Inl LibError
       | b # d \<Rightarrow> if b = 0xF5 then Inr (True, d) else if b = 0xF4 then Inr (False, d)
                  else Inl LibError),
     dec_skip = rfc_skip 1 \<rparr>"

lemma rfc_arg_nat_be: "n < 256 ^ k \<Longrightarrow> rfc_arg k (nat_be k n @ r) = Inr (Some n, r)"
  by (simp add: rfc_arg_def be_nat_nat_be_aux)

lemma unat_head_byte: "m \<le> 7 \<Longrightarrow> i < 32 \<Longrightarrow> unat (of_nat (m * 32 + i) :: u8) = m * 32 + i"
  by (simp add: unat_of_nat del: of_nat_add of_nat_mult)

lemma rfc_unhead_byte:
  assumes "m \<le> 7" and "i < 32"
  shows "rfc_unhead (of_nat (m * 32 + i) # d) =
     and_then
       (if i < 24 then Inr (Some i, d) else if i = 24 then rfc_arg 1 d
        else if i = 25 then rfc_arg 2 d else if i = 26 then rfc_arg 4 d
        else if i = 27 then rfc_arg 8 d else if i = 31 then Inr (None, d) else Inl LibError)
       (\<lambda>(n, d). Inr (m, n, d))"
  using assms by (simp add: rfc_unhead_def unat_head_byte Let_def del: of_nat_add of_nat_mult)

lemma rfc_unhead_head:
  assumes "m \<le> 7" and "n < 2 ^ 64"
  shows "rfc_unhead (rfc_head m n @ r) = Inr (m, Some n, r)"
proof -
  have p: "(256::nat) ^ 1 = 2 ^ 8" "(256::nat) ^ 2 = 2 ^ 16" "(256::nat) ^ 4 = 2 ^ 32"
    "(256::nat) ^ 8 = 2 ^ 64"
    by simp_all
  show ?thesis
    unfolding rfc_head_def
    using assms p rfc_arg_nat_be [of n 1 r] rfc_arg_nat_be [of n 2 r]
      rfc_arg_nat_be [of n 4 r] rfc_arg_nat_be [of n 8 r]
    by (simp only: split: if_split)
       (auto simp: rfc_unhead_byte simp del: of_nat_add of_nat_mult)
qed

lemma rfc_uint_head: "n < bound \<Longrightarrow> bound \<le> 2 ^ 64 \<Longrightarrow> rfc_uint bound (rfc_head 0 n @ r) = Inr (n, r)"
  by (simp add: rfc_uint_def rfc_unhead_head)

lemma rfc_len_head: "m \<le> 7 \<Longrightarrow> rfc_len m (rfc_head m (unat (n :: u64)) @ r) = Inr (Some n, r)"
  using unat_u64 [of n] by (simp add: rfc_len_def rfc_unhead_head)

lemma rfc_string_head:
  "m \<le> 7 \<Longrightarrow> length s < 2 ^ 64 \<Longrightarrow> rfc_string m (rfc_head m (length s) @ s @ r) = Inr (s, r)"
  by (simp add: rfc_string_def rfc_unhead_head)

interpretation rfc: minicbor_contract rfc8949
proof unfold_locales
  fix n a b c d s r t x
  show "dec_array rfc8949 (enc_array rfc8949 n @ r) = Inr (Some n, r)"
    by (simp add: rfc8949_def rfc_len_head)
  show "dec_map rfc8949 (enc_map rfc8949 n @ r) = Inr (Some n, r)"
    by (simp add: rfc8949_def rfc_len_head)
  show "dec_u8 rfc8949 (enc_u8 rfc8949 a @ r) = Inr (a, r)"
    using unat_u8 [of a] by (simp add: rfc8949_def rfc_uint_head)
  show "dec_u16 rfc8949 (enc_u16 rfc8949 b @ r) = Inr (b, r)"
    using unat_u16 [of b] by (simp add: rfc8949_def rfc_uint_head)
  show "dec_u32 rfc8949 (enc_u32 rfc8949 c @ r) = Inr (c, r)"
    using unat_u32 [of c] by (simp add: rfc8949_def rfc_uint_head)
  show "dec_u64 rfc8949 (enc_u64 rfc8949 d @ r) = Inr (d, r)"
    using unat_u64 [of d] by (simp add: rfc8949_def rfc_uint_head)
  show "enc_u8 rfc8949 a = enc_u64 rfc8949 (ucast a)"
    using unat_u8 [of a] by (simp add: rfc8949_def unsigned_ucast_eq take_bit_nat_eq_self)
  show "dec_bytes rfc8949 (enc_bytes rfc8949 s @ r) = Inr (s, r)" if "length s < 2 ^ 64"
    using that by (simp add: rfc8949_def rfc_string_head)
  show "dec_str rfc8949 (enc_str rfc8949 s @ r) = Inr (s, r)"
    if "length s < 2 ^ 64" and "utf8_valid s"
    using that by (simp add: rfc8949_def rfc_string_head)
  show "dec_bool rfc8949 (enc_bool rfc8949 t @ r) = Inr (t, r)"
    by (simp add: rfc8949_def)
  show "utf8_valid s" if "dec_str rfc8949 x = Inr (s, r)"
    using that by (auto simp: rfc8949_def split: if_splits)
qed

end
