(* ===== verification/Envelope.thy ===== *)
theory Envelope
  imports Cbor
begin

text \<open>
  The version 1 envelope (\<open>event/envelope.rs\<close>): its eight fields, its deterministic
  encoding, the decoder with its canonical re-encoding check, and \<open>envelope_prefix_len\<close>
  of \<open>event/signed.rs\<close>, which finds where the envelope ends inside a longer buffer.
\<close>

record envelope =
  env_v :: u8
  env_visit :: bytes
  env_author :: bytes
  env_seq :: u64
  env_prev :: bytes
  env_ts_ms :: u64
  env_body_hash :: bytes
  env_body_len :: u32

text \<open>The array types of the source: four fields of exactly 32 bytes.\<close>

definition envelope_wf :: "envelope \<Rightarrow> bool" where
  "envelope_wf e \<longleftrightarrow>
     length (env_visit e) = 32 \<and> length (env_author e) = 32 \<and>
     length (env_prev e) = 32 \<and> length (env_body_hash e) = 32"

definition envelope_to_cbor :: "minicbor \<Rightarrow> envelope \<Rightarrow> bytes" where
  "envelope_to_cbor C e =
     enc_array C 8 @ enc_u8 C (env_v e) @ enc_bytes C (env_visit e) @
     enc_bytes C (env_author e) @ enc_u64 C (env_seq e) @ enc_bytes C (env_prev e) @
     enc_u64 C (env_ts_ms e) @ enc_bytes C (env_body_hash e) @ enc_u32 C (env_body_len e)"

definition envelope_fields :: "minicbor \<Rightarrow> bytes \<Rightarrow> decode_error + envelope \<times> bytes" where
  "envelope_fields C d =
     and_then (dec_u8 C d) (\<lambda>(v, d).
     and_then (read_32 C d) (\<lambda>(visit, d).
     and_then (read_32 C d) (\<lambda>(author, d).
     and_then (dec_u64 C d) (\<lambda>(seq, d).
     and_then (read_32 C d) (\<lambda>(prev, d).
     and_then (dec_u64 C d) (\<lambda>(ts_ms, d).
     and_then (read_32 C d) (\<lambda>(body_hash, d).
     and_then (dec_u32 C d) (\<lambda>(body_len, d).
       Inr (\<lparr>env_v = v, env_visit = visit, env_author = author, env_seq = seq,
             env_prev = prev, env_ts_ms = ts_ms, env_body_hash = body_hash,
             env_body_len = body_len\<rparr>, d)))))))))"

definition envelope_from_cbor :: "minicbor \<Rightarrow> bytes \<Rightarrow> decode_error + envelope" where
  "envelope_from_cbor C bs =
     and_then (dec_array C bs) (\<lambda>(len, d).
     if len \<noteq> Some 8 then
       Inl (DecodeMessage ''envelope must be a definite-length array of 8 elements'')
     else
     and_then (envelope_fields C d) (\<lambda>(e, d).
     if d \<noteq> [] then
       Inl (DecodeMessage ''envelope must not carry trailing bytes after its 8 fields'')
     else if envelope_to_cbor C e \<noteq> bs then
       Inl (DecodeMessage ''envelope is not the canonical shortest-form CBOR encoding'')
     else Inr e))"

text \<open>
  \<open>envelope_prefix_len\<close>: the position of the decoder after the eight fields. Its byte
  strings are read with \<open>bytes()\<close>, whatever their length.
\<close>

definition envelope_skip_fields :: "minicbor \<Rightarrow> bytes \<Rightarrow> decode_error + bytes" where
  "envelope_skip_fields C d =
     and_then (dec_u8 C d) (\<lambda>(_, d).
     and_then (dec_bytes C d) (\<lambda>(_, d).
     and_then (dec_bytes C d) (\<lambda>(_, d).
     and_then (dec_u64 C d) (\<lambda>(_, d).
     and_then (dec_bytes C d) (\<lambda>(_, d).
     and_then (dec_u64 C d) (\<lambda>(_, d).
     and_then (dec_bytes C d) (\<lambda>(_, d).
     and_then (dec_u32 C d) (\<lambda>(_, d). Inr d))))))))"

definition envelope_prefix_len :: "minicbor \<Rightarrow> bytes \<Rightarrow> decode_error + nat" where
  "envelope_prefix_len C bs =
     and_then (dec_array C bs) (\<lambda>(len, d).
     if len \<noteq> Some 8 then
       Inl (DecodeMessage ''envelope must be a definite-length array of 8 elements'')
     else and_then (envelope_skip_fields C d) (\<lambda>d. Inr (length bs - length d)))"

section \<open>The decoder accepts only the canonical encoding\<close>

lemma envelope_fields_wf: "envelope_fields C d = Inr (e, d') \<Longrightarrow> envelope_wf e"
  by (auto simp: envelope_fields_def envelope_wf_def dest!: read_32_length)

lemma envelope_from_cbor_canonical:
  "envelope_from_cbor C bs = Inr e \<Longrightarrow> envelope_to_cbor C e = bs"
  by (auto simp: envelope_from_cbor_def split: if_splits)

lemma envelope_from_cbor_wf:
  assumes "envelope_from_cbor C bs = Inr e"
  shows "envelope_wf e"
proof -
  from assms obtain d d' where "envelope_fields C d = Inr (e, d')"
    by (auto simp: envelope_from_cbor_def split: if_splits)
  then show ?thesis by (rule envelope_fields_wf)
qed

context minicbor_contract
begin

lemma envelope_fields_enc:
  assumes "envelope_wf e"
  shows "envelope_fields C (enc_u8 C (env_v e) @ enc_bytes C (env_visit e) @
     enc_bytes C (env_author e) @ enc_u64 C (env_seq e) @ enc_bytes C (env_prev e) @
     enc_u64 C (env_ts_ms e) @ enc_bytes C (env_body_hash e) @ enc_u32 C (env_body_len e) @ r)
     = Inr (e, r)"
  using assms by (simp add: envelope_fields_def envelope_wf_def)

lemma envelope_round_trip:
  assumes "envelope_wf e"
  shows "envelope_from_cbor C (envelope_to_cbor C e) = Inr e"
  using envelope_fields_enc [OF assms, of "[]"]
  by (simp add: envelope_from_cbor_def envelope_to_cbor_def)

lemma envelope_skip_fields_enc:
  assumes "envelope_wf e"
  shows "envelope_skip_fields C (enc_u8 C (env_v e) @ enc_bytes C (env_visit e) @
     enc_bytes C (env_author e) @ enc_u64 C (env_seq e) @ enc_bytes C (env_prev e) @
     enc_u64 C (env_ts_ms e) @ enc_bytes C (env_body_hash e) @ enc_u32 C (env_body_len e) @ r)
     = Inr r"
  using assms by (simp add: envelope_skip_fields_def envelope_wf_def)

lemma envelope_prefix_len_enc:
  assumes "envelope_wf e"
  shows "envelope_prefix_len C (envelope_to_cbor C e @ r) = Inr (length (envelope_to_cbor C e))"
proof -
  have "envelope_prefix_len C (envelope_to_cbor C e @ r)
      = Inr (length (envelope_to_cbor C e @ r) - length r)"
    unfolding envelope_prefix_len_def envelope_to_cbor_def append_assoc
    by (simp only: dec_enc_array and_then.simps prod.case not_True_eq_False if_False
        envelope_skip_fields_enc [OF assms] option.inject simp_thms)
  then show ?thesis by simp
qed

lemma envelope_to_cbor_inj:
  assumes "envelope_wf e" and "envelope_wf f"
    and "envelope_to_cbor C e = envelope_to_cbor C f"
  shows "e = f"
proof -
  have "Inr e = (Inr f :: decode_error + envelope)"
    using envelope_round_trip [OF assms(1)] envelope_round_trip [OF assms(2)]
    unfolding assms(3) by (rule trans [OF sym])
  then show ?thesis by (rule Inr_inject)
qed

end

end
