(* ===== verification/Body.thy ===== *)
theory Body
  imports Cbor
begin

text \<open>
  Event bodies (\<open>event/body.rs\<close>): the eight known body types and the carrier for an
  unknown one, the deterministic encoder, one decoder per type over a shared loop on the
  entries of the CBOR map, and \<open>Body::from_cbor\<close> with its re-encoding check (R-10).
  Text is modelled by its UTF-8 bytes, so \<open>utf8_len\<close> is the length of the list. Error
  messages are the source's, without their quotation marks and apostrophes.
\<close>

section \<open>Constants and data\<close>

definition MESSAGE_TEXT_MAX :: nat where "MESSAGE_TEXT_MAX = 65536"
definition REACTION_SYMBOL_MAX :: nat where "REACTION_SYMBOL_MAX = 32"
definition ATTACHMENT_NAME_MAX :: nat where "ATTACHMENT_NAME_MAX = 128"
definition ATTACHMENT_MEDIA_TYPE_MAX :: nat where "ATTACHMENT_MEDIA_TYPE_MAX = 128"
definition ATTACHMENT_SIZE_MAX :: u64 where "ATTACHMENT_SIZE_MAX = push_bit 40 1"
definition JOIN_NAME_MAX :: nat where "JOIN_NAME_MAX = 128"
definition JOIN_DEVICES_MAX :: nat where "JOIN_DEVICES_MAX = 8"
definition DEVICE_ADD_LABEL_MAX :: nat where "DEVICE_ADD_LABEL_MAX = 128"
definition DROP_REQUEST_TARGETS_MAX :: nat where "DROP_REQUEST_TARGETS_MAX = 64"
definition DROP_REQUEST_NOTE_MAX :: nat where "DROP_REQUEST_NOTE_MAX = 256"

lemmas body_limits =
  MESSAGE_TEXT_MAX_def REACTION_SYMBOL_MAX_def ATTACHMENT_NAME_MAX_def
  ATTACHMENT_MEDIA_TYPE_MAX_def ATTACHMENT_SIZE_MAX_def JOIN_NAME_MAX_def
  JOIN_DEVICES_MAX_def DEVICE_ADD_LABEL_MAX_def DROP_REQUEST_TARGETS_MAX_def
  DROP_REQUEST_NOTE_MAX_def

definition TV_MESSAGE :: u64 where "TV_MESSAGE = 1"
definition TV_REACTION :: u64 where "TV_REACTION = 2"
definition TV_ATTACHMENT :: u64 where "TV_ATTACHMENT = 3"
definition TV_JOIN :: u64 where "TV_JOIN = 4"
definition TV_LEAVE :: u64 where "TV_LEAVE = 5"
definition TV_DEVICE_ADD :: u64 where "TV_DEVICE_ADD = 6"
definition TV_DEVICE_REVOKE :: u64 where "TV_DEVICE_REVOKE = 7"
definition TV_DROP_REQUEST :: u64 where "TV_DROP_REQUEST = 8"

lemmas type_values =
  TV_MESSAGE_def TV_REACTION_def TV_ATTACHMENT_def TV_JOIN_def TV_LEAVE_def
  TV_DEVICE_ADD_def TV_DEVICE_REVOKE_def TV_DROP_REQUEST_def

record message =
  msg_text :: bytes
  msg_reply_to :: "bytes option"

record reaction =
  react_target :: bytes
  react_symbol :: bytes
  react_remove :: bool

record attachment =
  att_hash :: bytes
  att_size :: u64
  att_name :: bytes
  att_media_type :: "bytes option"

record join_body =
  join_person :: bytes
  join_devices :: "bytes list"
  join_name :: "bytes option"

record leave_body =
  leave_person :: bytes
  leave_reason :: u64

record device_add =
  da_device :: bytes
  da_not_before_ms :: u64
  da_not_after_ms :: u64
  da_label :: "bytes option"

record device_revoke =
  dr_device :: bytes
  dr_at_ms :: u64

record drop_request =
  drop_scope :: u64
  drop_targets :: "bytes list option"
  drop_note :: "bytes option"

datatype body =
    Message message
  | Reaction reaction
  | Attachment attachment
  | Join join_body
  | Leave leave_body
  | DeviceAdd device_add
  | DeviceRevoke device_revoke
  | DropRequest drop_request
  | Unknown u64 bytes

fun type_value :: "body \<Rightarrow> u64" where
  "type_value (Message _) = TV_MESSAGE"
| "type_value (Reaction _) = TV_REACTION"
| "type_value (Attachment _) = TV_ATTACHMENT"
| "type_value (Join _) = TV_JOIN"
| "type_value (Leave _) = TV_LEAVE"
| "type_value (DeviceAdd _) = TV_DEVICE_ADD"
| "type_value (DeviceRevoke _) = TV_DEVICE_REVOKE"
| "type_value (DropRequest _) = TV_DROP_REQUEST"
| "type_value (Unknown tv _) = tv"

section \<open>The encoder\<close>

definition enc_key_opt :: "minicbor \<Rightarrow> u8 \<Rightarrow> ('a \<Rightarrow> bytes) \<Rightarrow> 'a option \<Rightarrow> bytes" where
  "enc_key_opt C k enc x = (case x of None \<Rightarrow> [] | Some v \<Rightarrow> enc_u8 C k @ enc v)"

definition enc_keys :: "minicbor \<Rightarrow> bytes list \<Rightarrow> bytes" where
  "enc_keys C ks = enc_array C (of_nat (length ks)) @ concat (map (enc_bytes C) ks)"

fun encode_known :: "minicbor \<Rightarrow> body \<Rightarrow> bytes" where
  "encode_known C (Message m) =
     enc_map C (if msg_reply_to m \<noteq> None then 3 else 2) @
     enc_u8 C 0 @ enc_u64 C TV_MESSAGE @
     enc_u8 C 1 @ enc_str C (msg_text m) @
     enc_key_opt C 2 (enc_bytes C) (msg_reply_to m)"
| "encode_known C (Reaction r) =
     enc_map C (if react_remove r then 4 else 3) @
     enc_u8 C 0 @ enc_u64 C TV_REACTION @
     enc_u8 C 1 @ enc_bytes C (react_target r) @
     enc_u8 C 2 @ enc_str C (react_symbol r) @
     (if react_remove r then enc_u8 C 3 @ enc_bool C True else [])"
| "encode_known C (Attachment a) =
     enc_map C (if att_media_type a \<noteq> None then 5 else 4) @
     enc_u8 C 0 @ enc_u64 C TV_ATTACHMENT @
     enc_u8 C 1 @ enc_bytes C (att_hash a) @
     enc_u8 C 2 @ enc_u64 C (att_size a) @
     enc_u8 C 3 @ enc_str C (att_name a) @
     enc_key_opt C 4 (enc_str C) (att_media_type a)"
| "encode_known C (Join j) =
     enc_map C (if join_name j \<noteq> None then 4 else 3) @
     enc_u8 C 0 @ enc_u64 C TV_JOIN @
     enc_u8 C 1 @ enc_bytes C (join_person j) @
     enc_u8 C 2 @ enc_keys C (join_devices j) @
     enc_key_opt C 3 (enc_str C) (join_name j)"
| "encode_known C (Leave l) =
     enc_map C 3 @
     enc_u8 C 0 @ enc_u64 C TV_LEAVE @
     enc_u8 C 1 @ enc_bytes C (leave_person l) @
     enc_u8 C 2 @ enc_u64 C (leave_reason l)"
| "encode_known C (DeviceAdd d) =
     enc_map C (if da_label d \<noteq> None then 5 else 4) @
     enc_u8 C 0 @ enc_u64 C TV_DEVICE_ADD @
     enc_u8 C 1 @ enc_bytes C (da_device d) @
     enc_u8 C 2 @ enc_u64 C (da_not_before_ms d) @
     enc_u8 C 3 @ enc_u64 C (da_not_after_ms d) @
     enc_key_opt C 4 (enc_str C) (da_label d)"
| "encode_known C (DeviceRevoke d) =
     enc_map C 3 @
     enc_u8 C 0 @ enc_u64 C TV_DEVICE_REVOKE @
     enc_u8 C 1 @ enc_bytes C (dr_device d) @
     enc_u8 C 2 @ enc_u64 C (dr_at_ms d)"
| "encode_known C (DropRequest r) =
     enc_map C (2 + (if drop_targets r \<noteq> None then 1 else 0)
                  + (if drop_note r \<noteq> None then 1 else 0)) @
     enc_u8 C 0 @ enc_u64 C TV_DROP_REQUEST @
     enc_u8 C 1 @ enc_u64 C (drop_scope r) @
     enc_key_opt C 2 (enc_keys C) (drop_targets r) @
     enc_key_opt C 3 (enc_str C) (drop_note r)"
| "encode_known C (Unknown _ raw) = raw"

text \<open>\<open>encode_known\<close> is never called on an unknown body: \<open>to_cbor\<close> returns its bytes.\<close>

fun body_to_cbor :: "minicbor \<Rightarrow> body \<Rightarrow> bytes" where
  "body_to_cbor C (Unknown _ raw) = raw"
| "body_to_cbor C known = encode_known C known"

section \<open>The decoders\<close>

abbreviation malformed :: "string \<Rightarrow> decode_error + 'a" where
  "malformed m \<equiv> Inl (DecodeMessage m)"

definition missing_key :: "u64 \<Rightarrow> u64 \<Rightarrow> 'a option \<Rightarrow> decode_error + 'a" where
  "missing_key tv key x = ok_or x (MissingKey tv key)"

definition next_key :: "minicbor \<Rightarrow> bytes \<Rightarrow> u64 option \<Rightarrow> decode_error + u64 \<times> bytes" where
  "next_key C d last_key =
     and_then (dec_u64 C d) (\<lambda>(key, d).
       case last_key of
         Some prev_key \<Rightarrow>
           if key \<le> prev_key then malformed ''body map keys must be strictly ascending (R-10)''
           else Inr (key, d)
       | None \<Rightarrow> Inr (key, d))"

text \<open>
  The loop \<open>for _ in 0..map_len\<close> that every decoder runs: read a key, then run the arm of
  the \<open>match key\<close> for it. The fields read so far are the accumulator.
\<close>

type_synonym 'a arm = "u64 \<Rightarrow> 'a \<Rightarrow> bytes \<Rightarrow> decode_error + 'a \<times> bytes"

fun decode_entries ::
  "minicbor \<Rightarrow> 'a arm \<Rightarrow> nat \<Rightarrow> u64 option \<Rightarrow> 'a \<Rightarrow> bytes \<Rightarrow> decode_error + 'a \<times> bytes" where
  "decode_entries C arm 0 last_key acc d = Inr (acc, d)"
| "decode_entries C arm (Suc n) last_key acc d =
     and_then (next_key C d last_key) (\<lambda>(key, d).
     and_then (arm key acc d) (\<lambda>(acc, d).
       decode_entries C arm n (Some key) acc d))"

text \<open>The map header, which must be definite, then the loop over its entries.\<close>

definition decode_map ::
  "minicbor \<Rightarrow> string \<Rightarrow> 'a arm \<Rightarrow> 'a \<Rightarrow> bytes \<Rightarrow> decode_error + 'a \<times> bytes" where
  "decode_map C m arm acc bs =
     and_then (dec_map C bs) (\<lambda>(map_len, d).
       case map_len of
         None \<Rightarrow> malformed m
       | Some n \<Rightarrow> decode_entries C arm (unat n) None acc d)"

text \<open>Arms that several decoders share: key 0, an unknown key, a capped text, a uint.\<close>

definition type_arm ::
  "minicbor \<Rightarrow> u64 \<Rightarrow> string \<Rightarrow> 'a \<Rightarrow> bytes \<Rightarrow> decode_error + 'a \<times> bytes" where
  "type_arm C tv m acc d =
     and_then (dec_u64 C d) (\<lambda>(t, d). if t \<noteq> tv then malformed m else Inr (acc, d))"

definition skip_arm :: "minicbor \<Rightarrow> 'a \<Rightarrow> bytes \<Rightarrow> decode_error + 'a \<times> bytes" where
  "skip_arm C acc d = and_then (dec_skip C d) (\<lambda>(_, d). Inr (acc, d))"

definition text_arm ::
  "minicbor \<Rightarrow> nat \<Rightarrow> nat \<Rightarrow> string \<Rightarrow> (bytes \<Rightarrow> 'a) \<Rightarrow> bytes \<Rightarrow> decode_error + 'a \<times> bytes" where
  "text_arm C lo hi m put d =
     and_then (dec_str C d) (\<lambda>(s, d).
       if length s < lo \<or> length s > hi then malformed m else Inr (put s, d))"

definition key_arm :: "minicbor \<Rightarrow> (bytes \<Rightarrow> 'a) \<Rightarrow> bytes \<Rightarrow> decode_error + 'a \<times> bytes" where
  "key_arm C put d = and_then (read_32 C d) (\<lambda>(k, d). Inr (put k, d))"

definition uint_arm ::
  "minicbor \<Rightarrow> u64 \<Rightarrow> string \<Rightarrow> (u64 \<Rightarrow> 'a) \<Rightarrow> bytes \<Rightarrow> decode_error + 'a \<times> bytes" where
  "uint_arm C hi m put d =
     and_then (dec_u64 C d) (\<lambda>(n, d). if n > hi then malformed m else Inr (put n, d))"

fun read_keys :: "minicbor \<Rightarrow> nat \<Rightarrow> bytes \<Rightarrow> decode_error + bytes list \<times> bytes" where
  "read_keys C 0 d = Inr ([], d)"
| "read_keys C (Suc n) d =
     and_then (read_32 C d) (\<lambda>(k, d).
     and_then (read_keys C n d) (\<lambda>(ks, d). Inr (k # ks, d)))"

definition keys_arm ::
  "minicbor \<Rightarrow> nat \<Rightarrow> string \<Rightarrow> string \<Rightarrow> (bytes list \<Rightarrow> 'a) \<Rightarrow> bytes \<Rightarrow> decode_error + 'a \<times> bytes"
where
  "keys_arm C hi m_def m_len put d =
     and_then (dec_array C d) (\<lambda>(len, d).
     and_then (ok_or len (DecodeMessage m_def)) (\<lambda>len.
       if len = 0 \<or> len > of_nat hi then malformed m_len
       else and_then (read_keys C (unat len) d) (\<lambda>(ks, d). Inr (put ks, d))))"

subsection \<open>Message, reaction and attachment\<close>

definition message_arm :: "minicbor \<Rightarrow> (bytes option \<times> bytes option) arm" where
  "message_arm C key acc d =
     (case acc of (text, reply_to) \<Rightarrow>
        if key = 0 then type_arm C TV_MESSAGE ''message body's key 0 must be 1'' acc d
        else if key = 1 then
          text_arm C 1 MESSAGE_TEXT_MAX ''message.text must be 1 to 65_536 UTF-8 bytes (R-17)''
            (\<lambda>s. (Some s, reply_to)) d
        else if key = 2 then key_arm C (\<lambda>k. (text, Some k)) d
        else skip_arm C acc d)"

definition decode_message :: "minicbor \<Rightarrow> bytes \<Rightarrow> decode_error + message" where
  "decode_message C bs =
     and_then (decode_map C ''message body must be a definite-length map''
       (message_arm C) (None, None) bs) (\<lambda>((text, reply_to), _).
     and_then (missing_key TV_MESSAGE 1 text) (\<lambda>text.
       Inr \<lparr>msg_text = text, msg_reply_to = reply_to\<rparr>))"

definition reaction_arm :: "minicbor \<Rightarrow> (bytes option \<times> bytes option \<times> bool) arm" where
  "reaction_arm C key acc d =
     (case acc of (target, symbol, remove) \<Rightarrow>
        if key = 0 then type_arm C TV_REACTION ''reaction body's key 0 must be 2'' acc d
        else if key = 1 then key_arm C (\<lambda>k. (Some k, symbol, remove)) d
        else if key = 2 then
          text_arm C 1 REACTION_SYMBOL_MAX ''reaction.symbol must be 1 to 32 UTF-8 bytes (R-20)''
            (\<lambda>s. (target, Some s, remove)) d
        else if key = 3 then
          and_then (dec_bool C d) (\<lambda>(b, d).
            if \<not> b then
              malformed ''reaction.remove, when present, must be true (absent means add)''
            else Inr ((target, symbol, True), d))
        else skip_arm C acc d)"

definition decode_reaction :: "minicbor \<Rightarrow> bytes \<Rightarrow> decode_error + reaction" where
  "decode_reaction C bs =
     and_then (decode_map C ''reaction body must be a definite-length map''
       (reaction_arm C) (None, None, False) bs) (\<lambda>((target, symbol, remove), _).
     and_then (missing_key TV_REACTION 1 target) (\<lambda>target.
     and_then (missing_key TV_REACTION 2 symbol) (\<lambda>symbol.
       Inr \<lparr>react_target = target, react_symbol = symbol, react_remove = remove\<rparr>)))"

definition validate_attachment_name :: "bytes \<Rightarrow> decode_error + unit" where
  "validate_attachment_name name =
     (if length name = 0 \<or> length name > ATTACHMENT_NAME_MAX then
        malformed ''attachment.name must be 1 to 128 bytes (R-22)''
      else if 0 \<in> set name \<or> of_char CHR ''/'' \<in> set name \<or> of_char (CHR 0x5C) \<in> set name then
        malformed (''attachment.name must not contain NUL, '/' or ''
          @ [CHR 0x27, CHR 0x5C, CHR 0x27] @ '' (R-22)'')
      else if name = ascii ''.'' \<or> name = ascii ''..'' then
        malformed ''attachment.name must not be '.' or '..' (R-22)''
      else Inr ())"

definition attachment_arm ::
  "minicbor \<Rightarrow> (bytes option \<times> u64 option \<times> bytes option \<times> bytes option) arm" where
  "attachment_arm C key acc d =
     (case acc of (hash, fsize, name, media_type) \<Rightarrow>
        if key = 0 then type_arm C TV_ATTACHMENT ''attachment body's key 0 must be 3'' acc d
        else if key = 1 then key_arm C (\<lambda>k. (Some k, fsize, name, media_type)) d
        else if key = 2 then
          uint_arm C ATTACHMENT_SIZE_MAX ''attachment.size must be at most 2^40''
            (\<lambda>s. (hash, Some s, name, media_type)) d
        else if key = 3 then
          and_then (dec_str C d) (\<lambda>(s, d).
          and_then (validate_attachment_name s) (\<lambda>_.
            Inr ((hash, fsize, Some s, media_type), d)))
        else if key = 4 then
          text_arm C 0 ATTACHMENT_MEDIA_TYPE_MAX
            ''attachment.media_type must be at most 128 bytes''
            (\<lambda>s. (hash, fsize, name, Some s)) d
        else skip_arm C acc d)"

definition decode_attachment :: "minicbor \<Rightarrow> bytes \<Rightarrow> decode_error + attachment" where
  "decode_attachment C bs =
     and_then (decode_map C ''attachment body must be a definite-length map''
       (attachment_arm C) (None, None, None, None) bs) (\<lambda>((hash, fsize, name, media_type), _).
     and_then (missing_key TV_ATTACHMENT 1 hash) (\<lambda>hash.
     and_then (missing_key TV_ATTACHMENT 2 fsize) (\<lambda>fsize.
     and_then (missing_key TV_ATTACHMENT 3 name) (\<lambda>name.
       Inr \<lparr>att_hash = hash, att_size = fsize, att_name = name, att_media_type = media_type\<rparr>))))"

subsection \<open>Join and leave\<close>

definition join_arm :: "minicbor \<Rightarrow> (bytes option \<times> bytes list option \<times> bytes option) arm" where
  "join_arm C key acc d =
     (case acc of (person, devices, name) \<Rightarrow>
        if key = 0 then type_arm C TV_JOIN ''join body's key 0 must be 4'' acc d
        else if key = 1 then key_arm C (\<lambda>k. (Some k, devices, name)) d
        else if key = 2 then
          keys_arm C JOIN_DEVICES_MAX ''join.devices must be a definite-length array''
            ''join.devices must have 1 to 8 entries (R-26)'' (\<lambda>ks. (person, Some ks, name)) d
        else if key = 3 then
          text_arm C 0 JOIN_NAME_MAX ''join.name must be at most 128 bytes''
            (\<lambda>s. (person, devices, Some s)) d
        else skip_arm C acc d)"

definition decode_join :: "minicbor \<Rightarrow> bytes \<Rightarrow> decode_error + join_body" where
  "decode_join C bs =
     and_then (decode_map C ''join body must be a definite-length map''
       (join_arm C) (None, None, None) bs) (\<lambda>((person, devices, name), _).
     and_then (missing_key TV_JOIN 1 person) (\<lambda>person.
     and_then (missing_key TV_JOIN 2 devices) (\<lambda>devices.
       if \<not> distinct devices then malformed ''join.devices must hold no duplicate (R-26)''
       else if person \<notin> set devices then malformed ''join.devices must contain person (R-26)''
       else Inr \<lparr>join_person = person, join_devices = devices, join_name = name\<rparr>)))"

definition leave_arm :: "minicbor \<Rightarrow> (bytes option \<times> u64 option) arm" where
  "leave_arm C key acc d =
     (case acc of (person, reason) \<Rightarrow>
        if key = 0 then type_arm C TV_LEAVE ''leave body's key 0 must be 5'' acc d
        else if key = 1 then key_arm C (\<lambda>k. (Some k, reason)) d
        else if key = 2 then
          uint_arm C 3 ''leave.reason must be 0 to 3'' (\<lambda>r. (person, Some r)) d
        else skip_arm C acc d)"

definition decode_leave :: "minicbor \<Rightarrow> bytes \<Rightarrow> decode_error + leave_body" where
  "decode_leave C bs =
     and_then (decode_map C ''leave body must be a definite-length map''
       (leave_arm C) (None, None) bs) (\<lambda>((person, reason), _).
     and_then (missing_key TV_LEAVE 1 person) (\<lambda>person.
     and_then (missing_key TV_LEAVE 2 reason) (\<lambda>reason.
       Inr \<lparr>leave_person = person, leave_reason = reason\<rparr>)))"

subsection \<open>Device-add, device-revoke and drop-request\<close>

definition device_add_arm ::
  "minicbor \<Rightarrow> (bytes option \<times> u64 option \<times> u64 option \<times> bytes option) arm" where
  "device_add_arm C key acc d =
     (case acc of (device, not_before, not_after, label) \<Rightarrow>
        if key = 0 then type_arm C TV_DEVICE_ADD ''device-add body's key 0 must be 6'' acc d
        else if key = 1 then key_arm C (\<lambda>k. (Some k, not_before, not_after, label)) d
        else if key = 2 then
          and_then (dec_u64 C d) (\<lambda>(n, d). Inr ((device, Some n, not_after, label), d))
        else if key = 3 then
          and_then (dec_u64 C d) (\<lambda>(n, d). Inr ((device, not_before, Some n, label), d))
        else if key = 4 then
          text_arm C 0 DEVICE_ADD_LABEL_MAX ''device-add.label must be at most 128 bytes''
            (\<lambda>s. (device, not_before, not_after, Some s)) d
        else skip_arm C acc d)"

definition decode_device_add :: "minicbor \<Rightarrow> bytes \<Rightarrow> decode_error + device_add" where
  "decode_device_add C bs =
     and_then (decode_map C ''device-add body must be a definite-length map''
       (device_add_arm C) (None, None, None, None) bs)
       (\<lambda>((device, not_before, not_after, label), _).
     and_then (missing_key TV_DEVICE_ADD 2 not_before) (\<lambda>not_before.
     and_then (missing_key TV_DEVICE_ADD 3 not_after) (\<lambda>not_after.
       if not_before \<ge> not_after then
         malformed ''device-add.not_before_ms must be strictly less than not_after_ms (R-31)''
       else
     and_then (missing_key TV_DEVICE_ADD 1 device) (\<lambda>device.
       Inr \<lparr>da_device = device, da_not_before_ms = not_before,
            da_not_after_ms = not_after, da_label = label\<rparr>))))"

definition device_revoke_arm :: "minicbor \<Rightarrow> (bytes option \<times> u64 option) arm" where
  "device_revoke_arm C key acc d =
     (case acc of (device, at_ms) \<Rightarrow>
        if key = 0 then type_arm C TV_DEVICE_REVOKE ''device-revoke body's key 0 must be 7'' acc d
        else if key = 1 then key_arm C (\<lambda>k. (Some k, at_ms)) d
        else if key = 2 then
          and_then (dec_u64 C d) (\<lambda>(n, d). Inr ((device, Some n), d))
        else skip_arm C acc d)"

definition decode_device_revoke :: "minicbor \<Rightarrow> bytes \<Rightarrow> decode_error + device_revoke" where
  "decode_device_revoke C bs =
     and_then (decode_map C ''device-revoke body must be a definite-length map''
       (device_revoke_arm C) (None, None) bs) (\<lambda>((device, at_ms), _).
     and_then (missing_key TV_DEVICE_REVOKE 1 device) (\<lambda>device.
     and_then (missing_key TV_DEVICE_REVOKE 2 at_ms) (\<lambda>at_ms.
       Inr \<lparr>dr_device = device, dr_at_ms = at_ms\<rparr>)))"

definition drop_request_arm ::
  "minicbor \<Rightarrow> (u64 option \<times> bytes list option \<times> bytes option) arm" where
  "drop_request_arm C key acc d =
     (case acc of (scope, targets, note) \<Rightarrow>
        if key = 0 then type_arm C TV_DROP_REQUEST ''drop-request body's key 0 must be 8'' acc d
        else if key = 1 then
          uint_arm C 1 ''drop-request.scope must be 0 or 1'' (\<lambda>s. (Some s, targets, note)) d
        else if key = 2 then
          keys_arm C DROP_REQUEST_TARGETS_MAX
            ''drop-request.targets must be a definite-length array''
            ''drop-request.targets must have 1 to 64 entries (R-39)''
            (\<lambda>ks. (scope, Some ks, note)) d
        else if key = 3 then
          text_arm C 0 DROP_REQUEST_NOTE_MAX ''drop-request.note must be at most 256 bytes''
            (\<lambda>s. (scope, targets, Some s)) d
        else skip_arm C acc d)"

definition decode_drop_request :: "minicbor \<Rightarrow> bytes \<Rightarrow> decode_error + drop_request" where
  "decode_drop_request C bs =
     and_then (decode_map C ''drop-request body must be a definite-length map''
       (drop_request_arm C) (None, None, None) bs) (\<lambda>((scope, targets, note), _).
     and_then (missing_key TV_DROP_REQUEST 1 scope) (\<lambda>scope.
       if scope = 1 \<and> targets = None then
         malformed ''drop-request.targets is required when scope == 1 (R-39)''
       else if scope = 0 \<and> targets \<noteq> None then
         malformed ''drop-request.targets must be absent when scope == 0 (R-39)''
       else Inr \<lparr>drop_scope = scope, drop_targets = targets, drop_note = note\<rparr>))"

section \<open>\<open>Body::from_cbor\<close>\<close>

definition decode_known :: "minicbor \<Rightarrow> u64 \<Rightarrow> bytes \<Rightarrow> (decode_error + body) option" where
  "decode_known C tv bs =
     (if tv = TV_MESSAGE then Some (map_sum id Message (decode_message C bs))
      else if tv = TV_REACTION then Some (map_sum id Reaction (decode_reaction C bs))
      else if tv = TV_ATTACHMENT then Some (map_sum id Attachment (decode_attachment C bs))
      else if tv = TV_JOIN then Some (map_sum id Join (decode_join C bs))
      else if tv = TV_LEAVE then Some (map_sum id Leave (decode_leave C bs))
      else if tv = TV_DEVICE_ADD then Some (map_sum id DeviceAdd (decode_device_add C bs))
      else if tv = TV_DEVICE_REVOKE then
        Some (map_sum id DeviceRevoke (decode_device_revoke C bs))
      else if tv = TV_DROP_REQUEST then
        Some (map_sum id DropRequest (decode_drop_request C bs))
      else None)"

definition body_from_cbor :: "minicbor \<Rightarrow> bytes \<Rightarrow> decode_error + body" where
  "body_from_cbor C bs =
     and_then (dec_map C bs) (\<lambda>(len, d).
     if len = None then malformed ''body must be a definite-length CBOR map''
     else
     and_then (dec_u64 C d) (\<lambda>(key0, d).
     if key0 \<noteq> 0 then malformed ''body map's first key must be 0 (the type)''
     else
     and_then (dec_u64 C d) (\<lambda>(tv, d).
       case decode_known C tv bs of
         None \<Rightarrow> Inr (Unknown tv bs)
       | Some res \<Rightarrow>
           and_then res (\<lambda>b.
             if body_to_cbor C b \<noteq> bs then
               malformed ''known body type is not the canonical deterministic CBOR encoding (R-10)''
             else Inr b))))"

end
