(* ===== verification/Body_Laws.thy ===== *)
theory Body_Laws
  imports Body
begin

text \<open>
  The body codec is a bijection between the valid bodies and the byte strings that the
  decoder accepts: a valid known body is read back from its encoding, and what the
  decoder accepts is valid and is the encoding of the body it returns.
\<close>

section \<open>Valid bodies (R-15 to R-39)\<close>

definition key_ok :: "bytes \<Rightarrow> bool" where
  "key_ok k \<longleftrightarrow> length k = 32"

definition text_ok :: "nat \<Rightarrow> nat \<Rightarrow> bytes \<Rightarrow> bool" where
  "text_ok lo hi s \<longleftrightarrow> utf8_valid s \<and> lo \<le> length s \<and> length s \<le> hi"

definition opt_ok :: "('a \<Rightarrow> bool) \<Rightarrow> 'a option \<Rightarrow> bool" where
  "opt_ok P x = (case x of None \<Rightarrow> True | Some v \<Rightarrow> P v)"

lemma opt_ok_simps [simp]: "opt_ok P None" "opt_ok P (Some v) = P v"
  by (simp_all add: opt_ok_def)

definition keys_ok :: "nat \<Rightarrow> bytes list \<Rightarrow> bool" where
  "keys_ok hi ks \<longleftrightarrow> ks \<noteq> [] \<and> length ks \<le> hi \<and> list_all key_ok ks"

fun body_ok :: "body \<Rightarrow> bool" where
  "body_ok (Message m) =
     (text_ok 1 MESSAGE_TEXT_MAX (msg_text m) \<and> opt_ok key_ok (msg_reply_to m))"
| "body_ok (Reaction r) =
     (key_ok (react_target r) \<and> text_ok 1 REACTION_SYMBOL_MAX (react_symbol r))"
| "body_ok (Attachment a) =
     (key_ok (att_hash a) \<and> att_size a \<le> ATTACHMENT_SIZE_MAX \<and> utf8_valid (att_name a) \<and>
      validate_attachment_name (att_name a) = Inr () \<and>
      opt_ok (text_ok 0 ATTACHMENT_MEDIA_TYPE_MAX) (att_media_type a))"
| "body_ok (Join j) =
     (key_ok (join_person j) \<and> keys_ok JOIN_DEVICES_MAX (join_devices j) \<and>
      distinct (join_devices j) \<and> join_person j \<in> set (join_devices j) \<and>
      opt_ok (text_ok 0 JOIN_NAME_MAX) (join_name j))"
| "body_ok (Leave l) = (key_ok (leave_person l) \<and> leave_reason l \<le> 3)"
| "body_ok (DeviceAdd d) =
     (key_ok (da_device d) \<and> da_not_before_ms d < da_not_after_ms d \<and>
      opt_ok (text_ok 0 DEVICE_ADD_LABEL_MAX) (da_label d))"
| "body_ok (DeviceRevoke d) = key_ok (dr_device d)"
| "body_ok (DropRequest r) =
     (drop_scope r \<le> 1 \<and> (drop_targets r = None \<longleftrightarrow> drop_scope r = 0) \<and>
      opt_ok (keys_ok DROP_REQUEST_TARGETS_MAX) (drop_targets r) \<and>
      opt_ok (text_ok 0 DROP_REQUEST_NOTE_MAX) (drop_note r))"
| "body_ok (Unknown tv raw) = True"

fun is_known :: "body \<Rightarrow> bool" where
  "is_known (Unknown _ _) = False"
| "is_known _ = True"

section \<open>Encoding then decoding\<close>

lemma decode_entries_numeral [simp]:
  "decode_entries C arm (numeral k) last_key acc d =
     and_then (next_key C d last_key) (\<lambda>(key, d).
     and_then (arm key acc d) (\<lambda>(acc, d).
       decode_entries C arm (pred_numeral k) (Some key) acc d))"
  by (simp add: numeral_eq_Suc)

context minicbor_contract
begin

lemma next_key_enc [simp]:
  "next_key C (enc_u8 C k @ r) last_key =
     (case last_key of
        Some prev_key \<Rightarrow>
          if ucast k \<le> prev_key then malformed ''body map keys must be strictly ascending (R-10)''
          else Inr (ucast k, r)
      | None \<Rightarrow> Inr (ucast k, r))"
  by (simp add: next_key_def split: option.splits)

lemma type_arm_enc [simp]: "type_arm C tv m acc (enc_u64 C tv @ r) = Inr (acc, r)"
  by (simp add: type_arm_def)

lemma key_arm_enc [simp]: "key_ok k \<Longrightarrow> key_arm C put (enc_bytes C k @ r) = Inr (put k, r)"
  by (simp add: key_arm_def key_ok_def)

lemma text_arm_enc [simp]:
  "text_ok lo hi s \<Longrightarrow> hi < 2 ^ 64 \<Longrightarrow> text_arm C lo hi m put (enc_str C s @ r) = Inr (put s, r)"
  by (auto simp: text_arm_def text_ok_def)

lemma uint_arm_enc [simp]:
  "n \<le> hi \<Longrightarrow> uint_arm C hi m put (enc_u64 C n @ r) = Inr (put n, r)"
  by (simp add: uint_arm_def)

lemma read_keys_enc:
  "list_all key_ok ks \<Longrightarrow> read_keys C (length ks) (concat (map (enc_bytes C) ks) @ r) = Inr (ks, r)"
  by (induction ks) (simp_all add: key_ok_def)

lemma keys_arm_enc [simp]:
  assumes "keys_ok hi ks" and "hi < 2 ^ 64"
  shows "keys_arm C hi m1 m2 put (enc_keys C ks @ r) = Inr (put ks, r)"
proof -
  have len: "length ks < 2 ^ 64" "length ks \<le> hi" "ks \<noteq> []" "list_all key_ok ks"
    using assms by (auto simp: keys_ok_def)
  then have n: "unat (of_nat (length ks) :: u64) = length ks"
    by (simp add: unat_of_nat)
  have "(of_nat (length ks) :: u64) \<noteq> 0"
    using n len(3) by (metis length_0_conv unat_0)
  moreover have "\<not> (of_nat (length ks) :: u64) > of_nat hi"
    using len(2) assms(2) by (simp add: word_less_nat_alt unat_of_nat)
  ultimately show ?thesis
    using n by (simp add: keys_arm_def enc_keys_def read_keys_enc [OF len(4)])
qed

text \<open>The optional last fields, at the end of the buffer and before more bytes.\<close>

lemmas arm_simps = message_arm_def reaction_arm_def attachment_arm_def join_arm_def
  leave_arm_def device_add_arm_def device_revoke_arm_def drop_request_arm_def

lemma at_end:
  "key_ok k \<Longrightarrow> key_arm C put (enc_bytes C k) = Inr (put k, [])"
  "text_ok lo hi s \<Longrightarrow> hi < 2 ^ 64 \<Longrightarrow> text_arm C lo hi m put' (enc_str C s) = Inr (put' s, [])"
  "n \<le> u \<Longrightarrow> uint_arm C u m putu (enc_u64 C n) = Inr (putu n, [])"
  "keys_ok hi ks \<Longrightarrow> hi < 2 ^ 64 \<Longrightarrow> keys_arm C hi m1 m2 putk (enc_keys C ks) = Inr (putk ks, [])"
  using key_arm_enc [of k put "[]"] text_arm_enc [of lo hi s m put' "[]"]
    uint_arm_enc [of n u m putu "[]"] keys_arm_enc [of hi ks m1 m2 putk "[]"]
  by simp_all

lemmas decode_simps =
  decode_map_def enc_key_opt_def missing_key_def at_end body_limits word_le_nat_alt

lemma decode_message_enc:
  "body_ok (Message m) \<Longrightarrow> decode_message C (encode_known C (Message m)) = Inr m"
  by (cases "msg_reply_to m")
     (simp_all add: decode_message_def message_arm_def decode_simps)

lemma decode_reaction_enc:
  "body_ok (Reaction r) \<Longrightarrow> decode_reaction C (encode_known C (Reaction r)) = Inr r"
  by (cases "react_remove r")
     (simp_all add: decode_reaction_def reaction_arm_def decode_simps)

lemma utf8_short:
  "validate_attachment_name s = Inr () \<Longrightarrow> length s < 2 ^ 64"
  by (auto simp: validate_attachment_name_def ATTACHMENT_NAME_MAX_def split: if_splits)

lemma decode_attachment_enc:
  "body_ok (Attachment a) \<Longrightarrow> decode_attachment C (encode_known C (Attachment a)) = Inr a"
  using utf8_short [of "att_name a"]
  by (cases "att_media_type a")
     (simp_all add: decode_attachment_def attachment_arm_def decode_simps)

lemma decode_join_enc:
  "body_ok (Join j) \<Longrightarrow> decode_join C (encode_known C (Join j)) = Inr j"
  by (cases "join_name j") (simp_all add: decode_join_def join_arm_def decode_simps)

lemma decode_leave_enc:
  "body_ok (Leave l) \<Longrightarrow> decode_leave C (encode_known C (Leave l)) = Inr l"
  by (simp add: decode_leave_def leave_arm_def decode_simps)

lemma decode_device_add_enc:
  "body_ok (DeviceAdd d) \<Longrightarrow> decode_device_add C (encode_known C (DeviceAdd d)) = Inr d"
  by (cases "da_label d")
     (simp_all add: decode_device_add_def device_add_arm_def decode_simps word_less_nat_alt)

lemma decode_device_revoke_enc:
  "body_ok (DeviceRevoke d) \<Longrightarrow> decode_device_revoke C (encode_known C (DeviceRevoke d)) = Inr d"
  by (simp add: decode_device_revoke_def device_revoke_arm_def decode_simps)

lemma scope_cases: "(w :: u64) \<le> 1 \<Longrightarrow> w = 0 \<or> w = 1"
  by (auto simp: word_le_nat_alt word_unat_eq_iff)

lemma small_u64:
  "(w :: u64) \<le> 8 \<Longrightarrow>
     w = 0 \<or> w = 1 \<or> w = 2 \<or> w = 3 \<or> w = 4 \<or> w = 5 \<or> w = 6 \<or> w = 7 \<or> w = 8"
  by (auto simp: word_le_nat_alt word_unat_eq_iff)

lemma decode_drop_request_enc:
  "body_ok (DropRequest r) \<Longrightarrow> decode_drop_request C (encode_known C (DropRequest r)) = Inr r"
  using scope_cases [of "drop_scope r"]
  by (cases "drop_targets r"; cases "drop_note r")
     (auto simp: decode_drop_request_def drop_request_arm_def decode_simps)

lemma decode_known_enc:
  assumes "body_ok b" and "is_known b"
  shows "decode_known C (type_value b) (encode_known C b) = Some (Inr b)"
  using assms
  by (cases b)
     (simp_all add: decode_known_def type_values decode_message_enc decode_reaction_enc
       decode_attachment_enc decode_join_enc decode_leave_enc decode_device_add_enc
       decode_device_revoke_enc decode_drop_request_enc
       del: encode_known.simps body_ok.simps)

text \<open>Every known body starts with a definite map header, key 0 and its type.\<close>

lemma encode_known_head:
  assumes "is_known b"
  obtains n r where "encode_known C b = enc_map C n @ enc_u8 C 0 @ enc_u64 C (type_value b) @ r"
  using assms by (cases b) auto

lemma body_to_cbor_known [simp]: "is_known b \<Longrightarrow> body_to_cbor C b = encode_known C b"
  by (cases b) simp_all

lemma body_round_trip:
  assumes "body_ok b" and "is_known b"
  shows "body_from_cbor C (body_to_cbor C b) = Inr b"
proof -
  obtain n r where
    enc: "encode_known C b = enc_map C n @ enc_u8 C 0 @ enc_u64 C (type_value b) @ r"
    using assms(2) by (rule encode_known_head)
  have "body_from_cbor C (encode_known C b) =
      (case decode_known C (type_value b) (encode_known C b) of
         None \<Rightarrow> Inr (Unknown (type_value b) (encode_known C b))
       | Some res \<Rightarrow> and_then res (\<lambda>b'.
           if body_to_cbor C b' \<noteq> encode_known C b then
             malformed ''known body type is not the canonical deterministic CBOR encoding (R-10)''
           else Inr b'))"
    by (subst (1) body_from_cbor_def) (subst (1) enc, simp)
  then show ?thesis
    using assms by (simp add: decode_known_enc)
qed

end

section \<open>The decoder accepts valid bodies only\<close>

lemma decode_entries_inv:
  assumes "decode_entries C arm n last_key acc d = Inr (acc', d')"
    and "P acc"
    and "\<And>key acc d acc' d'. P acc \<Longrightarrow> arm key acc d = Inr (acc', d') \<Longrightarrow> P acc'"
  shows "P acc'"
  using assms(1,2)
proof (induction n arbitrary: last_key acc d)
  case 0
  then show ?case by simp
next
  case (Suc n)
  from Suc.prems(1) obtain key e acc2 e2 where
    arm: "arm key acc e = Inr (acc2, e2)" and
    rest: "decode_entries C arm n (Some key) acc2 e2 = Inr (acc', d')"
    by auto
  have "P acc2" using Suc.prems(2) arm by (rule assms(3))
  with rest show ?case by (rule Suc.IH)
qed

lemma decode_map_inv:
  assumes "decode_map C m arm acc bs = Inr (acc', d')"
    and "P acc"
    and "\<And>key acc d acc' d'. P acc \<Longrightarrow> arm key acc d = Inr (acc', d') \<Longrightarrow> P acc'"
  shows "P acc'"
proof -
  from assms(1) obtain n d where "decode_entries C arm n None acc d = Inr (acc', d')"
    by (auto simp: decode_map_def split: option.splits)
  then show ?thesis using assms(2,3) by (rule decode_entries_inv)
qed

lemma type_arm_sound: "type_arm C tv m acc d = Inr (acc', d') \<Longrightarrow> acc' = acc"
  by (auto simp: type_arm_def split: if_splits)

lemma skip_arm_sound: "skip_arm C acc d = Inr (acc', d') \<Longrightarrow> acc' = acc"
  by (auto simp: skip_arm_def)

lemma key_arm_sound:
  assumes "key_arm C put d = Inr (acc', d')"
  obtains k where "key_ok k" and "acc' = put k"
  using assms by (auto simp: key_arm_def key_ok_def dest: read_32_length)

lemma uint_arm_sound:
  assumes "uint_arm C hi m put d = Inr (acc', d')"
  obtains n where "n \<le> hi" and "acc' = put n"
proof -
  from assms obtain n where "\<not> n > hi" and "acc' = put n"
    by (auto simp: uint_arm_def split: if_splits)
  then show ?thesis using that by (simp add: not_less)
qed

lemma read_keys_sound: "read_keys C n d = Inr (ks, d') \<Longrightarrow> length ks = n \<and> list_all key_ok ks"
  by (induction n arbitrary: d ks d') (auto simp: key_ok_def dest: read_32_length)

lemma keys_arm_sound:
  assumes "keys_arm C hi m1 m2 put d = Inr (acc', d')"
  obtains ks where "keys_ok hi ks" and "acc' = put ks"
proof -
  from assms obtain len e ks where
    len: "len \<noteq> 0" "\<not> len > (of_nat hi :: u64)" and
    ks: "read_keys C (unat len) e = Inr (ks, d')" "acc' = put ks"
    by (auto simp: keys_arm_def split: if_splits)
  have "unat len \<le> unat (of_nat hi :: u64)"
    using len(2) by (simp add: word_le_nat_alt not_less)
  also have "unat (of_nat hi :: u64) \<le> hi"
    by (simp add: unat_of_nat)
  finally have "unat len \<le> hi" .
  moreover have "unat len \<noteq> 0"
    using len(1) by (simp add: unat_eq_zero)
  ultimately have "keys_ok hi ks"
    using read_keys_sound [OF ks(1)] by (auto simp: keys_ok_def)
  then show ?thesis using ks(2) that by blast
qed

context minicbor_contract
begin

lemma text_arm_sound:
  assumes "text_arm C lo hi m put d = Inr (acc', d')"
  obtains s where "text_ok lo hi s" and "acc' = put s"
proof -
  from assms obtain s where s: "dec_str C d = Inr (s, d')" and
    bounds: "\<not> length s < lo" "\<not> length s > hi" and put: "acc' = put s"
    by (auto simp: text_arm_def split: if_splits)
  have "text_ok lo hi s"
    using dec_str_utf8 [OF s] bounds by (simp add: text_ok_def)
  then show ?thesis using put that by blast
qed

lemmas arm_sound = key_arm_sound uint_arm_sound keys_arm_sound text_arm_sound

lemma decode_message_sound:
  assumes "decode_message C bs = Inr m"
  shows "body_ok (Message m)"
proof -
  from assms obtain t r d where
    dec: "decode_map C ''message body must be a definite-length map'' (message_arm C)
       (None, None) bs = Inr ((Some t, r), d)"
    and m: "m = \<lparr>msg_text = t, msg_reply_to = r\<rparr>"
    by (auto simp: decode_message_def missing_key_def)
  have "case (Some t, r) of (text, reply_to) \<Rightarrow>
      opt_ok (text_ok 1 MESSAGE_TEXT_MAX) text \<and> opt_ok key_ok reply_to"
    using dec by (rule decode_map_inv)
      (auto simp: message_arm_def split: if_splits dest!: type_arm_sound skip_arm_sound
        elim!: arm_sound)
  then show ?thesis by (simp add: m)
qed


lemma decode_reaction_sound:
  assumes "decode_reaction C bs = Inr r"
  shows "body_ok (Reaction r)"
proof -
  from assms obtain t s rm d where
    dec: "decode_map C ''reaction body must be a definite-length map'' (reaction_arm C)
       (None, None, False) bs = Inr ((Some t, Some s, rm), d)"
    and r: "r = \<lparr>react_target = t, react_symbol = s, react_remove = rm\<rparr>"
    by (auto simp: decode_reaction_def missing_key_def)
  have "case (Some t, Some s, rm) of (target, symbol, remove) \<Rightarrow>
      opt_ok key_ok target \<and> opt_ok (text_ok 1 REACTION_SYMBOL_MAX) symbol"
    using dec by (rule decode_map_inv)
      (auto simp: reaction_arm_def split: if_splits dest!: type_arm_sound skip_arm_sound
        elim!: arm_sound)
  then show ?thesis by (simp add: r)
qed

lemma decode_attachment_sound:
  assumes "decode_attachment C bs = Inr a"
  shows "body_ok (Attachment a)"
proof -
  from assms obtain h s n mt d where
    dec: "decode_map C ''attachment body must be a definite-length map'' (attachment_arm C)
       (None, None, None, None) bs = Inr ((Some h, Some s, Some n, mt), d)"
    and a: "a = \<lparr>att_hash = h, att_size = s, att_name = n, att_media_type = mt\<rparr>"
    by (auto simp: decode_attachment_def missing_key_def)
  have "case (Some h, Some s, Some n, mt) of (hash, fsize, name, media) \<Rightarrow>
      opt_ok key_ok hash \<and> opt_ok (\<lambda>z. z \<le> ATTACHMENT_SIZE_MAX) fsize \<and>
      opt_ok (\<lambda>n. utf8_valid n \<and> validate_attachment_name n = Inr ()) name \<and>
      opt_ok (text_ok 0 ATTACHMENT_MEDIA_TYPE_MAX) media"
    using dec by (rule decode_map_inv)
      (auto simp: attachment_arm_def split: if_splits
        dest!: type_arm_sound skip_arm_sound elim!: arm_sound, erule dec_str_utf8)
  then show ?thesis by (simp add: a)
qed

lemma decode_join_sound:
  assumes "decode_join C bs = Inr j"
  shows "body_ok (Join j)"
proof -
  from assms obtain p ks n d where
    dec: "decode_map C ''join body must be a definite-length map'' (join_arm C)
       (None, None, None) bs = Inr ((Some p, Some ks, n), d)"
    and j: "j = \<lparr>join_person = p, join_devices = ks, join_name = n\<rparr>"
    and ks: "distinct ks" "p \<in> set ks"
    by (auto simp: decode_join_def missing_key_def split: if_splits)
  have "case (Some p, Some ks, n) of (person, devices, name) \<Rightarrow>
      opt_ok key_ok person \<and> opt_ok (keys_ok JOIN_DEVICES_MAX) devices \<and>
      opt_ok (text_ok 0 JOIN_NAME_MAX) name"
    using dec by (rule decode_map_inv)
      (auto simp: join_arm_def split: if_splits dest!: type_arm_sound skip_arm_sound
        elim!: arm_sound)
  then show ?thesis using ks by (simp add: j)
qed

lemma decode_leave_sound:
  assumes "decode_leave C bs = Inr l"
  shows "body_ok (Leave l)"
proof -
  from assms obtain p r d where
    dec: "decode_map C ''leave body must be a definite-length map'' (leave_arm C)
       (None, None) bs = Inr ((Some p, Some r), d)"
    and l: "l = \<lparr>leave_person = p, leave_reason = r\<rparr>"
    by (auto simp: decode_leave_def missing_key_def)
  have "case (Some p, Some r) of (person, reason) \<Rightarrow>
      opt_ok key_ok person \<and> opt_ok (\<lambda>r. r \<le> 3) reason"
    using dec by (rule decode_map_inv)
      (auto simp: leave_arm_def split: if_splits dest!: type_arm_sound skip_arm_sound
        elim!: arm_sound)
  then show ?thesis by (simp add: l)
qed

lemma decode_device_add_sound:
  assumes "decode_device_add C bs = Inr a"
  shows "body_ok (DeviceAdd a)"
proof -
  from assms obtain k nb na l d where
    dec: "decode_map C ''device-add body must be a definite-length map'' (device_add_arm C)
       (None, None, None, None) bs = Inr ((Some k, Some nb, Some na, l), d)"
    and a: "a = \<lparr>da_device = k, da_not_before_ms = nb, da_not_after_ms = na, da_label = l\<rparr>"
    and w: "nb < na"
    by (auto simp: decode_device_add_def missing_key_def split: if_splits)
  have "case (Some k, Some nb, Some na, l) of (device, nb, na, label) \<Rightarrow>
      opt_ok key_ok device \<and> opt_ok (text_ok 0 DEVICE_ADD_LABEL_MAX) label"
    using dec by (rule decode_map_inv)
      (auto simp: device_add_arm_def split: if_splits dest!: type_arm_sound skip_arm_sound
        elim!: arm_sound)
  then show ?thesis using w by (simp add: a)
qed

lemma decode_device_revoke_sound:
  assumes "decode_device_revoke C bs = Inr a"
  shows "body_ok (DeviceRevoke a)"
proof -
  from assms obtain k t d where
    dec: "decode_map C ''device-revoke body must be a definite-length map''
       (device_revoke_arm C) (None, None) bs = Inr ((Some k, Some t), d)"
    and a: "a = \<lparr>dr_device = k, dr_at_ms = t\<rparr>"
    by (auto simp: decode_device_revoke_def missing_key_def)
  have "case (Some k, Some t) of (device, at_ms) \<Rightarrow> opt_ok key_ok device"
    using dec by (rule decode_map_inv)
      (auto simp: device_revoke_arm_def split: if_splits dest!: type_arm_sound skip_arm_sound
        elim!: arm_sound)
  then show ?thesis by (simp add: a)
qed

lemma decode_drop_request_sound:
  assumes "decode_drop_request C bs = Inr a"
  shows "body_ok (DropRequest a)"
proof -
  from assms obtain s t n d where
    dec: "decode_map C ''drop-request body must be a definite-length map''
       (drop_request_arm C) (None, None, None) bs = Inr ((Some s, t, n), d)"
    and a: "a = \<lparr>drop_scope = s, drop_targets = t, drop_note = n\<rparr>"
    and w: "\<not> (s = 1 \<and> t = None)" "\<not> (s = 0 \<and> t \<noteq> None)"
    by (auto simp: decode_drop_request_def missing_key_def split: if_splits)
  have "case (Some s, t, n) of (scope, targets, note) \<Rightarrow>
      opt_ok (\<lambda>s. s \<le> 1) scope \<and> opt_ok (keys_ok DROP_REQUEST_TARGETS_MAX) targets \<and>
      opt_ok (text_ok 0 DROP_REQUEST_NOTE_MAX) note"
    using dec by (rule decode_map_inv)
      (auto simp: drop_request_arm_def split: if_splits dest!: type_arm_sound skip_arm_sound
        elim!: arm_sound)
  then show ?thesis using w scope_cases [of s] by (auto simp: a)
qed

lemma decode_known_sound:
  assumes "decode_known C tv bs = Some (Inr b)"
  shows "body_ok b \<and> is_known b \<and> type_value b = tv"
  using assms unfolding decode_known_def
  by (auto simp: map_sum_def type_values split: if_splits sum.splits
      dest!: decode_message_sound decode_reaction_sound decode_attachment_sound
        decode_join_sound decode_leave_sound decode_device_add_sound
        decode_device_revoke_sound decode_drop_request_sound)

lemma body_from_cbor_known:
  assumes "body_from_cbor C bs = Inr b" and "is_known b"
  shows "body_ok b \<and> body_to_cbor C b = bs"
proof -
  from assms obtain tv where "decode_known C tv bs = Some (Inr b)" and "body_to_cbor C b = bs"
    by (auto simp: body_from_cbor_def split: if_splits option.splits)
  then show ?thesis using decode_known_sound by blast
qed

lemma body_from_cbor_unknown:
  assumes "body_from_cbor C bs = Inr (Unknown tv raw)"
  shows "raw = bs \<and> \<not> (1 \<le> tv \<and> tv \<le> 8)"
proof -
  have sound: "decode_known C t x = Some (Inr (Unknown tv raw)) \<Longrightarrow> False" for t x
    using decode_known_sound by fastforce
  from assms have "raw = bs \<and> decode_known C tv bs = None \<or>
      (\<exists>t. decode_known C t bs = Some (Inr (Unknown tv raw)))"
    by (auto simp: body_from_cbor_def split: if_splits option.splits)
  then have "raw = bs" and none: "decode_known C tv bs = None"
    using sound by blast+
  moreover have "\<not> (1 \<le> tv \<and> tv \<le> 8)"
    using none small_u64 [of tv] by (auto simp: decode_known_def type_values split: if_splits)
  ultimately show ?thesis by simp
qed

lemma body_from_cbor_bytes: "body_from_cbor C bs = Inr b \<Longrightarrow> body_to_cbor C b = bs"
  using body_from_cbor_known [of bs b] body_from_cbor_unknown [of bs]
  by (cases b) auto

lemma body_from_cbor_ok: "body_from_cbor C bs = Inr b \<Longrightarrow> body_ok b"
  using body_from_cbor_known [of bs b] by (cases b) auto

end

end
