(* ===== verification/Identity.thy ===== *)
theory Identity
  imports Prelude
begin

text \<open>
  Signatures and hashes (\<open>identity.rs\<close>, \<open>event/id.rs\<close>, \<open>error.rs\<close>).

  BLAKE3 and ed25519 come from the crates \<open>blake3\<close> and \<open>ed25519-dalek\<close>, so they are
  a parameter: a record with the hash, the keyed hash, the test that
  \<open>VerifyingKey::from_bytes\<close> makes of a public key, and \<open>verify_strict\<close>. A \<open>Signer\<close> is
  its one method, a function from the message to the signature.
\<close>

record crypto =
  blake3 :: "bytes \<Rightarrow> bytes"
  blake3_keyed :: "bytes \<Rightarrow> bytes \<Rightarrow> bytes"
  vk_well_formed :: "bytes \<Rightarrow> bool"
  vk_verify_strict :: "bytes \<Rightarrow> bytes \<Rightarrow> bytes \<Rightarrow> bool"

datatype core_error = InvalidSignature | MalformedKeyOrSignature

definition verify :: "crypto \<Rightarrow> bytes \<Rightarrow> bytes \<Rightarrow> bytes \<Rightarrow> core_error + unit" where
  "verify K public msg sig =
     (if \<not> vk_well_formed K public then Inl MalformedKeyOrSignature
      else if vk_verify_strict K public msg sig then Inr ()
      else Inl InvalidSignature)"

type_synonym signer = "bytes \<Rightarrow> bytes"

definition of_envelope :: "crypto \<Rightarrow> bytes \<Rightarrow> bytes" where
  "of_envelope K envelope_bytes = blake3 K envelope_bytes"

text \<open>
  What the proofs need of the crates, as hypotheses: a hash has 32 bytes, and a signer
  for a public key makes 64 byte signatures that verify under it.
\<close>

definition hash_lengths :: "crypto \<Rightarrow> bool" where
  "hash_lengths K \<longleftrightarrow> (\<forall>b. length (blake3 K b) = 32) \<and> (\<forall>k b. length (blake3_keyed K k b) = 32)"

definition signs_for :: "crypto \<Rightarrow> bytes \<Rightarrow> signer \<Rightarrow> bool" where
  "signs_for K public sign \<longleftrightarrow>
     (\<forall>m. length (sign m) = 64 \<and> verify K public m (sign m) = Inr ())"

lemma verify_ok_iff:
  "verify K p m s = Inr () \<longleftrightarrow> vk_well_formed K p \<and> vk_verify_strict K p m s"
  by (simp add: verify_def)

text \<open>
  An instance for the examples that show the hypotheses can hold together: the hash is the
  last 32 bytes in reverse, and a signature is the key followed by the hash of the message.
\<close>

definition demo_hash :: "bytes \<Rightarrow> bytes" where
  "demo_hash bs = take 32 (rev bs @ zero32)"

lemma length_demo_hash [simp]: "length (demo_hash bs) = 32"
  by (simp add: demo_hash_def del: take_append)

definition demo_sign :: "bytes \<Rightarrow> signer" where
  "demo_sign k m = take 32 (k @ zero32) @ demo_hash m"

definition demo_crypto :: crypto where
  "demo_crypto = \<lparr>
     blake3 = demo_hash,
     blake3_keyed = (\<lambda>k bs. demo_hash (k @ bs)),
     vk_well_formed = (\<lambda>p. length p = 32),
     vk_verify_strict = (\<lambda>p m s. s = demo_sign p m) \<rparr>"

lemma hash_lengths_demo: "hash_lengths demo_crypto"
  by (simp add: hash_lengths_def demo_crypto_def)

lemma signs_for_demo: "length k = 32 \<Longrightarrow> signs_for demo_crypto k (demo_sign k)"
  by (simp add: signs_for_def verify_def demo_crypto_def demo_sign_def)

end
