(* ===== verification/Signed.thy ===== *)
theory Signed
  imports Envelope Body_Laws Identity
begin

text \<open>
  The signed event (\<open>event/signed.rs\<close>): \<open>envelope_bytes || sig[64] || body_bytes\<close>, the
  signer and the parser with every check that the bytes of one event decide.
\<close>

definition BODY_LEN_MAX :: nat where "BODY_LEN_MAX = 130847"
definition EVENT_TOTAL_MAX :: nat where "EVENT_TOTAL_MAX = 131072"

definition SIGNING_PREFIX :: bytes where
  "SIGNING_PREFIX = ascii ''mosschat-event-v1'' @ [0]"

record signed_event =
  se_envelope_bytes :: bytes
  se_envelope :: envelope
  se_sig :: bytes
  se_body_bytes :: bytes
  se_body :: body
  se_event_id :: bytes

datatype signed_event_error =
    TooShort
  | EnvelopeError decode_error
  | UnsupportedVersion u8
  | BodyLenMismatch u32 nat
  | BodyLenOverCap u32
  | TotalSizeOverCap nat
  | BodyHashMismatch
  | BodyError decode_error
  | InvalidEventSignature core_error

definition map_err :: "('e \<Rightarrow> 'f) \<Rightarrow> 'e + 'a \<Rightarrow> 'f + 'a" where
  "map_err f m = (case m of Inl e \<Rightarrow> Inl (f e) | Inr x \<Rightarrow> Inr x)"

lemma map_err_simps [simp]: "map_err f (Inl e) = Inl (f e)" "map_err f (Inr x) = Inr x"
  by (simp_all add: map_err_def)

lemma map_err_eq_Inr [simp]: "map_err f m = Inr x \<longleftrightarrow> m = Inr x"
  by (cases m) simp_all

text \<open>\<open>SignedEvent::sign\<close>; \<open>None\<close> is its panic on a body longer than a \<open>u32\<close> can say.\<close>

definition sign_event ::
  "minicbor \<Rightarrow> crypto \<Rightarrow> envelope \<Rightarrow> body \<Rightarrow> signer \<Rightarrow> signed_event option" where
  "sign_event C K e b signer =
     (let body_bytes = body_to_cbor C b in
      if length body_bytes < 2 ^ 32 then
        (let e = e\<lparr>env_body_hash := blake3 K body_bytes,
                   env_body_len := of_nat (length body_bytes)\<rparr>;
             envelope_bytes = envelope_to_cbor C e in
         Some \<lparr>se_envelope_bytes = envelope_bytes, se_envelope = e,
               se_sig = signer (SIGNING_PREFIX @ envelope_bytes),
               se_body_bytes = body_bytes, se_body = b,
               se_event_id = of_envelope K envelope_bytes\<rparr>)
      else None)"

definition event_to_bytes :: "signed_event \<Rightarrow> bytes" where
  "event_to_bytes ev = se_envelope_bytes ev @ se_sig ev @ se_body_bytes ev"

text \<open>\<open>bytes.get(..n)\<close>, \<open>bytes.get(a..b)\<close> and \<open>bytes.get(a..)\<close>, with their bound checks.\<close>

definition get_slice :: "bytes \<Rightarrow> nat \<Rightarrow> nat \<Rightarrow> signed_event_error + bytes" where
  "get_slice bs a b = (if b \<le> length bs then Inr (take (b - a) (drop a bs)) else Inl TooShort)"

definition get_from :: "bytes \<Rightarrow> nat \<Rightarrow> signed_event_error + bytes" where
  "get_from bs a = (if a \<le> length bs then Inr (drop a bs) else Inl TooShort)"

definition parse_event :: "minicbor \<Rightarrow> crypto \<Rightarrow> bytes \<Rightarrow> signed_event_error + signed_event" where
  "parse_event C K bs =
     and_then (map_err EnvelopeError (envelope_prefix_len C bs)) (\<lambda>envelope_len.
     and_then (get_slice bs 0 envelope_len) (\<lambda>envelope_prefix.
     and_then (map_err EnvelopeError (envelope_from_cbor C envelope_prefix)) (\<lambda>e.
     if env_v e \<noteq> 1 then Inl (UnsupportedVersion (env_v e))
     else if unat (env_body_len e) > BODY_LEN_MAX then Inl (BodyLenOverCap (env_body_len e))
     else
      (let claimed_total = envelope_len + 64 + unat (env_body_len e) in
       if claimed_total > EVENT_TOTAL_MAX then Inl (TotalSizeOverCap claimed_total)
       else if length bs < envelope_len + 64 then Inl TooShort
       else
     and_then (get_slice bs envelope_len (envelope_len + 64)) (\<lambda>sig.
     and_then (get_from bs (envelope_len + 64)) (\<lambda>body_bytes.
     if length body_bytes \<noteq> unat (env_body_len e) then
       Inl (BodyLenMismatch (env_body_len e) (length body_bytes))
     else if blake3 K body_bytes \<noteq> env_body_hash e then Inl BodyHashMismatch
     else
     and_then (map_err InvalidEventSignature
       (verify K (env_author e) (SIGNING_PREFIX @ envelope_prefix) sig)) (\<lambda>_.
     and_then (map_err BodyError (body_from_cbor C body_bytes)) (\<lambda>b.
       Inr \<lparr>se_envelope_bytes = envelope_prefix, se_envelope = e, se_sig = sig,
            se_body_bytes = body_bytes, se_body = b,
            se_event_id = of_envelope K envelope_prefix\<rparr>))))))))"

section \<open>What an accepted event satisfies\<close>

definition event_ok :: "minicbor \<Rightarrow> crypto \<Rightarrow> signed_event \<Rightarrow> bool" where
  "event_ok C K ev \<longleftrightarrow>
     envelope_wf (se_envelope ev) \<and> env_v (se_envelope ev) = 1 \<and>
     se_envelope_bytes ev = envelope_to_cbor C (se_envelope ev) \<and>
     body_ok (se_body ev) \<and> se_body_bytes ev = body_to_cbor C (se_body ev) \<and>
     length (se_sig ev) = 64 \<and>
     length (se_body_bytes ev) = unat (env_body_len (se_envelope ev)) \<and>
     length (se_body_bytes ev) \<le> BODY_LEN_MAX \<and>
     length (event_to_bytes ev) \<le> EVENT_TOTAL_MAX \<and>
     env_body_hash (se_envelope ev) = blake3 K (se_body_bytes ev) \<and>
     verify K (env_author (se_envelope ev)) (SIGNING_PREFIX @ se_envelope_bytes ev) (se_sig ev)
       = Inr () \<and>
     se_event_id ev = blake3 K (se_envelope_bytes ev)"

lemma parse_event_fields:
  assumes "parse_event C K bs = Inr ev"
  obtains n where
    "n + 64 \<le> length bs" "se_envelope_bytes ev = take n bs"
    "se_sig ev = take 64 (drop n bs)" "se_body_bytes ev = drop (n + 64) bs"
    "envelope_from_cbor C (take n bs) = Inr (se_envelope ev)"
    "env_v (se_envelope ev) = 1"
    "unat (env_body_len (se_envelope ev)) \<le> BODY_LEN_MAX"
    "n + 64 + unat (env_body_len (se_envelope ev)) \<le> EVENT_TOTAL_MAX"
    "length (drop (n + 64) bs) = unat (env_body_len (se_envelope ev))"
    "blake3 K (drop (n + 64) bs) = env_body_hash (se_envelope ev)"
    "verify K (env_author (se_envelope ev)) (SIGNING_PREFIX @ take n bs) (take 64 (drop n bs)) = Inr ()"
    "body_from_cbor C (drop (n + 64) bs) = Inr (se_body ev)"
    "se_event_id ev = blake3 K (take n bs)"
  using assms
  by (auto simp: parse_event_def get_slice_def get_from_def Let_def of_envelope_def not_less
      split: if_splits)

lemma parse_event_bytes:
  assumes "parse_event C K bs = Inr ev"
  shows "event_to_bytes ev = bs"
  using assms
proof (rule parse_event_fields)
  fix n
  assume "se_envelope_bytes ev = take n bs" "se_sig ev = take 64 (drop n bs)"
    "se_body_bytes ev = drop (n + 64) bs"
  moreover have "drop (n + 64) bs = drop 64 (drop n bs)"
    by (simp add: add.commute)
  ultimately show "event_to_bytes ev = bs"
    by (simp only: event_to_bytes_def append_take_drop_id)
qed

context minicbor_contract
begin

lemma parse_event_ok:
  assumes "parse_event C K bs = Inr ev"
  shows "event_ok C K ev"
  using assms
proof (rule parse_event_fields)
  fix n
  assume *: "n + 64 \<le> length bs" "se_envelope_bytes ev = take n bs"
    "se_sig ev = take 64 (drop n bs)" "se_body_bytes ev = drop (n + 64) bs"
    "envelope_from_cbor C (take n bs) = Inr (se_envelope ev)"
    "env_v (se_envelope ev) = 1"
    "unat (env_body_len (se_envelope ev)) \<le> BODY_LEN_MAX"
    "n + 64 + unat (env_body_len (se_envelope ev)) \<le> EVENT_TOTAL_MAX"
    "length (drop (n + 64) bs) = unat (env_body_len (se_envelope ev))"
    "blake3 K (drop (n + 64) bs) = env_body_hash (se_envelope ev)"
    "verify K (env_author (se_envelope ev)) (SIGNING_PREFIX @ take n bs) (take 64 (drop n bs)) = Inr ()"
    "body_from_cbor C (drop (n + 64) bs) = Inr (se_body ev)"
    "se_event_id ev = blake3 K (take n bs)"
  have total: "length (event_to_bytes ev) \<le> EVENT_TOTAL_MAX"
    using *(1,8,9) by (simp add: parse_event_bytes [OF assms])
  show ?thesis
    unfolding event_ok_def
    using * total envelope_from_cbor_wf [OF *(5)] envelope_from_cbor_canonical [OF *(5)]
      body_from_cbor_bytes [OF *(12)] body_from_cbor_ok [OF *(12)]
    by simp
qed

lemma sign_event_round_trip:
  assumes ev: "sign_event C K e b signer = Some ev"
    and e: "envelope_wf e" "env_v e = 1"
    and b: "body_ok b" "is_known b"
    and size: "length (body_to_cbor C b) \<le> BODY_LEN_MAX"
      "length (event_to_bytes ev) \<le> EVENT_TOTAL_MAX"
    and K: "hash_lengths K" "signs_for K (env_author e) signer"
  shows "parse_event C K (event_to_bytes ev) = Inr ev"
proof -
  let ?body = "body_to_cbor C b"
  define e' where "e' = e\<lparr>env_body_hash := blake3 K ?body, env_body_len := of_nat (length ?body)\<rparr>"
  let ?env = "envelope_to_cbor C e'"
  let ?sig = "signer (SIGNING_PREFIX @ ?env)"
  have wf: "envelope_wf e'"
    using e(1) K(1) by (simp add: e'_def envelope_wf_def hash_lengths_def)
  have ev_eq: "ev = \<lparr>se_envelope_bytes = ?env, se_envelope = e', se_sig = ?sig,
      se_body_bytes = ?body, se_body = b, se_event_id = of_envelope K ?env\<rparr>"
    using ev by (simp add: sign_event_def Let_def e'_def split: if_splits)
  have bytes: "event_to_bytes ev = ?env @ ?sig @ ?body"
    by (simp add: ev_eq event_to_bytes_def)
  have sig: "length ?sig = 64" "verify K (env_author e') (SIGNING_PREFIX @ ?env) ?sig = Inr ()"
    using K(2) by (simp_all add: signs_for_def e'_def)
  have len: "unat (env_body_len e') = length ?body"
    using size(1) by (simp add: e'_def unat_of_nat BODY_LEN_MAX_def)
  have pre: "envelope_prefix_len C (?env @ ?sig @ ?body) = Inr (length ?env)"
    using wf by (rule envelope_prefix_len_enc)
  have slices: "get_slice (?env @ ?sig @ ?body) 0 (length ?env) = Inr ?env"
    "get_slice (?env @ ?sig @ ?body) (length ?env) (length ?env + 64) = Inr ?sig"
    "get_from (?env @ ?sig @ ?body) (length ?env + 64) = Inr ?body"
    using sig(1) by (simp_all add: get_slice_def get_from_def)
  have total: "length ?env + 64 + length ?body \<le> EVENT_TOTAL_MAX"
    using size(2) sig(1) by (simp add: bytes)
  show ?thesis
    unfolding parse_event_def bytes pre slices map_err_simps and_then.simps
      envelope_round_trip [OF wf] Let_def len
    using size(1) total sig e(2)
    by (simp add: slices body_round_trip [OF b] e'_def [symmetric] ev_eq)
       (simp add: e'_def)
qed

end

end
