(* ===== verification/Recording.thy ===== *)
theory Recording
  imports Signed
begin

text \<open>
  The ingest state machine of one visit (\<open>event/ingest.rs\<close>): the host's sequence of
  slots, the participants, the revoked and admitted devices, and every rule that needs
  prior state. Each handler is one definition; a rejected event is a value of
  \<open>ingest_error\<close>, returned with the state it leaves behind.
\<close>

section \<open>State\<close>

record tombstone =
  tomb_seq :: u64
  tomb_event_id :: bytes

datatype slot = EventSlot signed_event | TombSlot tombstone

fun slot_event_id :: "slot \<Rightarrow> bytes" where
  "slot_event_id (EventSlot ev) = se_event_id ev"
| "slot_event_id (TombSlot t) = tomb_event_id t"

record join_record =
  jr_seq :: u64
  jr_devices :: "bytes list"
  jr_left_at :: "u64 option"

datatype ingest_error =
    ZeroVisit
  | Malformed signed_event_error
  | WrongVisit
  | UnknownAuthor
  | RevokedAuthor
  | DeviceAddGrantNotInForce
  | AuthorHasLeft
  | Broken
  | PredecessorMissing u64
  | InvalidBody
  | ReplyTargetNotFound
  | ReactionTargetNotFound
  | JoinNotByHost
  | LeaveNotByHost
  | LeaveWithoutActiveJoin
  | DeviceInForceForDifferentPerson
  | InvalidRevokeTarget
  | DeviceAddOfRevokedKey
  | DropRequestTargetNotOwnPerson
  | AlreadyBroken
  | DropRequestNotFound

record recording =
  rec_visit :: bytes
  rec_host :: bytes
  rec_slots :: "(u64, slot) hashmap"
  rec_participants :: "(bytes, join_record list) hashmap"
  rec_revoked :: "(bytes, bytes) hashmap"
  rec_devices_in_force :: "(bytes, bytes) hashmap"
  rec_device_add_windows :: "(bytes, u64 \<times> u64) hashmap"
  rec_reactions_added :: "(bytes \<times> bytes \<times> bytes) list"
  rec_broken :: bool

datatype author_status = UnknownStatus | LeftStatus | ActiveStatus

definition recording_new :: "bytes \<Rightarrow> bytes \<Rightarrow> ingest_error + recording" where
  "recording_new visit host =
     (if visit = zero32 then Inl ZeroVisit
      else Inr \<lparr>rec_visit = visit, rec_host = host, rec_slots = [], rec_participants = [],
                rec_revoked = [], rec_devices_in_force = [], rec_device_add_windows = [],
                rec_reactions_added = [], rec_broken = False\<rparr>)"

section \<open>Readers\<close>

text \<open>A \<open>HashMap\<close> has distinct keys, so \<open>dedup\<close> after the sort finds nothing to remove.\<close>

definition participant_keys :: "recording \<Rightarrow> bytes list" where
  "participant_keys r = remdups_adj (sort (map fst (rec_participants r)))"

definition seq_range :: "recording \<Rightarrow> (u64 \<times> u64) option" where
  "seq_range r =
     (case map fst (rec_slots r) of
        [] \<Rightarrow> None
      | k # ks \<Rightarrow> Some (fold min ks k, fold max ks k))"

definition get_event :: "recording \<Rightarrow> u64 \<Rightarrow> signed_event option" where
  "get_event r seq =
     (case hm_get (rec_slots r) seq of Some (EventSlot ev) \<Rightarrow> Some ev | _ \<Rightarrow> None)"

definition tombstone_at :: "recording \<Rightarrow> u64 \<Rightarrow> tombstone option" where
  "tombstone_at r seq =
     (case hm_get (rec_slots r) seq of Some (TombSlot t) \<Rightarrow> Some t | _ \<Rightarrow> None)"

definition seq_of :: "recording \<Rightarrow> bytes \<Rightarrow> u64 option" where
  "seq_of r eid = map_option fst (find (\<lambda>(_, slot). slot_event_id slot = eid) (rec_slots r))"

definition stored_at_lower_seq :: "recording \<Rightarrow> bytes \<Rightarrow> u64 \<Rightarrow> bool" where
  "stored_at_lower_seq r eid at_seq =
     (case seq_of r eid of Some found_seq \<Rightarrow> found_seq < at_seq | None \<Rightarrow> False)"

definition person_of :: "recording \<Rightarrow> bytes \<Rightarrow> bytes option" where
  "person_of r device = hm_get (rec_devices_in_force r) device"

definition person_or_self :: "recording \<Rightarrow> bytes \<Rightarrow> bytes" where
  "person_or_self r device = (case person_of r device of Some p \<Rightarrow> p | None \<Rightarrow> device)"

section \<open>Admission (R-7, R-27, R-30, R-32)\<close>

definition still_open :: "u64 \<Rightarrow> join_record \<Rightarrow> bool" where
  "still_open at_seq j =
     (case jr_left_at j of None \<Rightarrow> True | Some left_seq \<Rightarrow> left_seq > at_seq)"

text \<open>
  The loop that \<open>join_device_status\<close> and \<open>author_status\<close> run over join records, with its
  flag \<open>found_ever\<close> and its early return; \<open>names\<close> is the membership test of the first.
\<close>

fun scan_joins :: "(join_record \<Rightarrow> bool) \<Rightarrow> u64 \<Rightarrow> bool \<Rightarrow> join_record list \<Rightarrow> author_status option"
where
  "scan_joins names at_seq found_ever [] = (if found_ever then Some LeftStatus else None)"
| "scan_joins names at_seq found_ever (j # js) =
     (if jr_seq j > at_seq \<or> \<not> names j then scan_joins names at_seq found_ever js
      else if still_open at_seq j then Some ActiveStatus
      else scan_joins names at_seq True js)"

definition join_device_status :: "recording \<Rightarrow> bytes \<Rightarrow> u64 \<Rightarrow> author_status option" where
  "join_device_status r author at_seq =
     scan_joins (\<lambda>j. author \<in> set (jr_devices j)) at_seq False
       (concat (map snd (rec_participants r)))"

definition author_status :: "recording \<Rightarrow> bytes \<Rightarrow> u64 \<Rightarrow> author_status" where
  "author_status r author at_seq =
     (case join_device_status r author at_seq of
        Some status \<Rightarrow> status
      | None \<Rightarrow>
          (case hm_get (rec_devices_in_force r) author of
             None \<Rightarrow> UnknownStatus
           | Some person \<Rightarrow>
               (case hm_get (rec_participants r) person of
                  None \<Rightarrow> UnknownStatus
                | Some joins \<Rightarrow>
                    (case scan_joins (\<lambda>_. True) at_seq False joins of
                       Some status \<Rightarrow> status
                     | None \<Rightarrow> UnknownStatus))))"

definition device_add_grant_in_force :: "u64 \<Rightarrow> u64 \<Rightarrow> u64 \<Rightarrow> bool" where
  "device_add_grant_in_force not_before_ms not_after_ms instant_ms \<longleftrightarrow>
     not_before_ms \<le> instant_ms \<and> instant_ms < not_after_ms"

fun is_membership :: "body \<Rightarrow> bool" where
  "is_membership (Join _) = True"
| "is_membership (Leave _) = True"
| "is_membership _ = False"

definition admit_author :: "recording \<Rightarrow> bytes \<Rightarrow> u64 \<Rightarrow> u64 \<Rightarrow> body \<Rightarrow> ingest_error + unit" where
  "admit_author r author seq now_ms b =
     (if hm_get (rec_revoked r) author \<noteq> None then Inl RevokedAuthor
      else if is_membership b then Inr ()
      else
        (case author_status r author seq of
           UnknownStatus \<Rightarrow> Inl UnknownAuthor
         | LeftStatus \<Rightarrow> Inl AuthorHasLeft
         | ActiveStatus \<Rightarrow>
             (case hm_get (rec_device_add_windows r) author of
                None \<Rightarrow> Inr ()
              | Some (not_before_ms, not_after_ms) \<Rightarrow>
                  if device_add_grant_in_force not_before_ms not_after_ms now_ms then Inr ()
                  else Inl DeviceAddGrantNotInForce)))"

section \<open>Rules of the body types\<close>

definition apply_join :: "recording \<Rightarrow> join_body \<Rightarrow> u64 \<Rightarrow> recording" where
  "apply_join r j seq =
     (let in_force = fold (\<lambda>device. hm_or_insert device (join_person j)) (join_devices j)
                       (rec_devices_in_force r);
          joins = (case hm_get (rec_participants r) (join_person j) of
                     None \<Rightarrow> [] | Some js \<Rightarrow> js);
          joined = \<lparr>jr_seq = seq, jr_devices = join_devices j, jr_left_at = None\<rparr> in
      r\<lparr>rec_devices_in_force := in_force,
        rec_participants := hm_insert (join_person j) (joins @ [joined]) (rec_participants r)\<rparr>)"

definition closes :: "u64 \<Rightarrow> join_record \<Rightarrow> bool" where
  "closes seq j \<longleftrightarrow> jr_seq j < seq \<and> jr_left_at j = None"

text \<open>
  The loop of \<open>apply_leave\<close> over \<open>iter_mut\<close>: each open join is closed where it stands, and
  \<open>closed_any\<close> tells whether one was. The check of the flag comes after the loop, and an error
  is returned together with what the loop has left of the recording.
\<close>

fun close_joins :: "u64 \<Rightarrow> join_record list \<Rightarrow> bool \<Rightarrow> join_record list \<times> bool" where
  "close_joins seq [] closed_any = ([], closed_any)"
| "close_joins seq (j # js) closed_any =
     (if closes seq j then
        (let (js, closed_any) = close_joins seq js True in (j\<lparr>jr_left_at := Some seq\<rparr> # js, closed_any))
      else
        (let (js, closed_any) = close_joins seq js closed_any in (j # js, closed_any)))"

definition apply_leave :: "recording \<Rightarrow> leave_body \<Rightarrow> u64 \<Rightarrow> recording \<times> (ingest_error + unit)" where
  "apply_leave r l seq =
     (case hm_get (rec_participants r) (leave_person l) of
        None \<Rightarrow> (r, Inl LeaveWithoutActiveJoin)
      | Some joins \<Rightarrow>
          (let (joins, closed_any) = close_joins seq joins False;
               r = r\<lparr>rec_participants := hm_insert (leave_person l) joins (rec_participants r)\<rparr> in
           if closed_any then (r, Inr ()) else (r, Inl LeaveWithoutActiveJoin)))"

definition check_device_add :: "recording \<Rightarrow> bytes \<Rightarrow> device_add \<Rightarrow> ingest_error + unit" where
  "check_device_add r author d =
     (if hm_get (rec_revoked r) (da_device d) \<noteq> None then Inl DeviceAddOfRevokedKey
      else
        (case hm_get (rec_devices_in_force r) (da_device d) of
           Some existing_person \<Rightarrow>
             if existing_person \<noteq> person_or_self r author
             then Inl DeviceInForceForDifferentPerson else Inr ()
         | None \<Rightarrow> Inr ()))"

definition check_device_revoke :: "recording \<Rightarrow> bytes \<Rightarrow> device_revoke \<Rightarrow> ingest_error + unit" where
  "check_device_revoke r author d =
     (if dr_device d = author then Inl InvalidRevokeTarget
      else if person_of r (dr_device d) \<noteq> Some (person_or_self r author)
      then Inl InvalidRevokeTarget
      else Inr ())"

fun check_targets :: "recording \<Rightarrow> bytes \<Rightarrow> bytes list \<Rightarrow> ingest_error + unit" where
  "check_targets r requester_person [] = Inr ()"
| "check_targets r requester_person (target # targets) =
     (case seq_of r target of
        None \<Rightarrow> Inl DropRequestTargetNotOwnPerson
      | Some target_seq \<Rightarrow>
          (case hm_get (rec_slots r) target_seq of
             Some (EventSlot ev) \<Rightarrow>
               if person_or_self r (env_author (se_envelope ev)) \<noteq> requester_person
               then Inl DropRequestTargetNotOwnPerson
               else check_targets r requester_person targets
           | _ \<Rightarrow> Inl DropRequestTargetNotOwnPerson))"

definition check_drop_request :: "recording \<Rightarrow> bytes \<Rightarrow> drop_request \<Rightarrow> ingest_error + unit" where
  "check_drop_request r author d =
     (case drop_targets d of
        None \<Rightarrow> Inr ()
      | Some targets \<Rightarrow> check_targets r (person_or_self r author) targets)"

text \<open>
  The \<open>match &event.body\<close> of \<open>ingest\<close>, which works on the recording in place: every branch
  returns the recording as it is by then, whether it ends well or with an error. That an error
  comes before the first change is a property (\<open>apply_body_rejected\<close>), not a matter of the type.
\<close>

fun apply_body :: "recording \<Rightarrow> bytes \<Rightarrow> u64 \<Rightarrow> body \<Rightarrow> recording \<times> (ingest_error + unit)" where
  "apply_body r author seq (Message m) =
     (case msg_reply_to m of
        Some reply_to \<Rightarrow>
          if stored_at_lower_seq r reply_to seq then (r, Inr ()) else (r, Inl ReplyTargetNotFound)
      | None \<Rightarrow> (r, Inr ()))"
| "apply_body r author seq (Reaction x) =
     (if stored_at_lower_seq r (react_target x) seq then (r, Inr ()) else (r, Inl ReactionTargetNotFound))"
| "apply_body r author seq (Attachment _) = (r, Inr ())"
| "apply_body r author seq (Join j) =
     (if author \<noteq> rec_host r then (r, Inl JoinNotByHost)
      else (let r = apply_join r j seq in (r, Inr ())))"
| "apply_body r author seq (Leave l) =
     (if author \<noteq> rec_host r then (r, Inl LeaveNotByHost) else apply_leave r l seq)"
| "apply_body r author seq (DeviceAdd d) =
     (case check_device_add r author d of
        Inl err \<Rightarrow> (r, Inl err)
      | Inr _ \<Rightarrow>
          (let adder_person = person_or_self r author;
               r = r\<lparr>rec_devices_in_force :=
                       hm_or_insert (da_device d) adder_person (rec_devices_in_force r)\<rparr>;
               r = r\<lparr>rec_device_add_windows :=
                       hm_insert (da_device d) (da_not_before_ms d, da_not_after_ms d)
                         (rec_device_add_windows r)\<rparr> in
           (r, Inr ())))"
| "apply_body r author seq (DeviceRevoke d) =
     (case check_device_revoke r author d of
        Inl err \<Rightarrow> (r, Inl err)
      | Inr _ \<Rightarrow>
          (let r = r\<lparr>rec_revoked := hm_insert (dr_device d) author (rec_revoked r)\<rparr>;
               r = r\<lparr>rec_devices_in_force := hm_remove (dr_device d) (rec_devices_in_force r)\<rparr> in
           (r, Inr ())))"
| "apply_body r author seq (DropRequest d) =
     (case check_drop_request r author d of Inl err \<Rightarrow> (r, Inl err) | Inr _ \<Rightarrow> (r, Inr ()))"
| "apply_body r author seq (Unknown _ _) = (r, Inr ())"

section \<open>Ingest\<close>

definition expected_prev :: "recording \<Rightarrow> u64 \<Rightarrow> ingest_error + bytes" where
  "expected_prev r seq =
     (if seq = 0 then Inr zero32
      else
        (case hm_get (rec_slots r) (seq - 1) of
           Some slot \<Rightarrow> Inr (slot_event_id slot)
         | None \<Rightarrow> Inl (PredecessorMissing (seq - 1))))"

definition seq_collision :: "recording \<Rightarrow> u64 \<Rightarrow> bytes \<Rightarrow> bool" where
  "seq_collision r seq eid =
     (case hm_get (rec_slots r) seq of
        Some existing \<Rightarrow> slot_event_id existing \<noteq> eid
      | None \<Rightarrow> False)"

definition note_reaction :: "recording \<Rightarrow> bytes \<Rightarrow> body \<Rightarrow> recording" where
  "note_reaction r author b =
     (case b of
        Reaction x \<Rightarrow>
          if \<not> react_remove x
          then r\<lparr>rec_reactions_added :=
                  List.insert (author, react_target x, react_symbol x) (rec_reactions_added r)\<rparr>
          else r
      | _ \<Rightarrow> r)"

text \<open>\<open>ingest\<close> after the event has been parsed.\<close>

definition ingest_event ::
  "recording \<Rightarrow> signed_event \<Rightarrow> u64 \<Rightarrow> recording \<times> (ingest_error + bytes)" where
  "ingest_event r ev now_ms =
     (let e = se_envelope ev; seq = env_seq e; author = env_author e; b = se_body ev in
      if env_visit e = zero32 then (r, Inl ZeroVisit)
      else if env_visit e \<noteq> rec_visit r then (r, Inl WrongVisit)
      else if seq_collision r seq (se_event_id ev) then (r\<lparr>rec_broken := True\<rparr>, Inl Broken)
      else
        (case expected_prev r seq of
           Inl err \<Rightarrow> (r, Inl err)
         | Inr prev \<Rightarrow>
             if env_prev e \<noteq> prev then (r\<lparr>rec_broken := True\<rparr>, Inl Broken)
             else
               (case admit_author r author seq now_ms b of
                  Inl err \<Rightarrow> (r, Inl err)
                | Inr _ \<Rightarrow>
                    (case apply_body r author seq b of
                       (r, Inl err) \<Rightarrow> (r, Inl err)
                     | (r, Inr _) \<Rightarrow>
                         (note_reaction
                           (r\<lparr>rec_slots := hm_insert seq (EventSlot ev) (rec_slots r)\<rparr>)
                           author b,
                          Inr (se_event_id ev))))))"

definition ingest ::
  "minicbor \<Rightarrow> crypto \<Rightarrow> recording \<Rightarrow> bytes \<Rightarrow> u64 \<Rightarrow> recording \<times> (ingest_error + bytes)" where
  "ingest C K r bs now_ms =
     (if rec_broken r then (r, Inl AlreadyBroken)
      else
        (case parse_event C K bs of
           Inl e \<Rightarrow> (r, Inl (Malformed e))
         | Inr ev \<Rightarrow> ingest_event r ev now_ms))"

section \<open>Drop requests (R-41, R-50)\<close>

definition insert_tombstone :: "recording \<Rightarrow> u64 \<Rightarrow> bytes \<Rightarrow> recording" where
  "insert_tombstone r seq eid =
     r\<lparr>rec_slots :=
        hm_insert seq (TombSlot \<lparr>tomb_seq = seq, tomb_event_id = eid\<rparr>) (rec_slots r)\<rparr>"

definition is_event_at :: "recording \<Rightarrow> u64 \<Rightarrow> bool" where
  "is_event_at r seq \<longleftrightarrow> get_event r seq \<noteq> None"

definition drop_seqs :: "recording \<Rightarrow> u64 \<Rightarrow> drop_request \<Rightarrow> u64 list" where
  "drop_seqs r request_seq d =
     (if drop_scope d = 0 then
        filter (is_event_at r) (filter (\<lambda>seq. seq \<noteq> request_seq) (map fst (rec_slots r)))
      else
        List.map_filter (seq_of r) (case drop_targets d of None \<Rightarrow> [] | Some ids \<Rightarrow> ids))"

fun tombstone_slots :: "recording \<Rightarrow> u64 list \<Rightarrow> nat \<Rightarrow> recording \<times> nat" where
  "tombstone_slots r [] count = (r, count)"
| "tombstone_slots r (seq # seqs) count =
     (case get_event r seq of
        Some ev \<Rightarrow> tombstone_slots (insert_tombstone r seq (se_event_id ev)) seqs (Suc count)
      | None \<Rightarrow> tombstone_slots r seqs count)"

definition honour_drop_request :: "recording \<Rightarrow> bytes \<Rightarrow> recording \<times> (ingest_error + nat)" where
  "honour_drop_request r request =
     (case seq_of r request of
        None \<Rightarrow> (r, Inl DropRequestNotFound)
      | Some request_seq \<Rightarrow>
          (case get_event r request_seq of
             None \<Rightarrow> (r, Inl DropRequestNotFound)
           | Some ev \<Rightarrow>
               (case se_body ev of
                  DropRequest d \<Rightarrow>
                    (let (r', count) = tombstone_slots r (drop_seqs r request_seq d) 0
                     in (r', Inr count))
                | _ \<Rightarrow> (r, Inl DropRequestNotFound))))"

end
