(* ===== verification/Recording_Laws.thy ===== *)
theory Recording_Laws
  imports Recording
begin

text \<open>
  Laws of the ingest state machine: what acceptance and rejection mean, what every
  operation leaves alone, the invariant of a recording, and the states a recording can
  reach from \<open>Recording::new\<close> by ingesting bytes and honouring drop requests.
\<close>

section \<open>Acceptance and rejection\<close>

lemma ingest_event_accepted:
  assumes "ingest_event r ev now_ms = (r', Inr eid)"
  obtains r1 where
    "eid = se_event_id ev"
    "env_visit (se_envelope ev) = rec_visit r" "rec_visit r \<noteq> zero32"
    "\<not> seq_collision r (env_seq (se_envelope ev)) (se_event_id ev)"
    "expected_prev r (env_seq (se_envelope ev)) = Inr (env_prev (se_envelope ev))"
    "admit_author r (env_author (se_envelope ev)) (env_seq (se_envelope ev)) now_ms (se_body ev)
       = Inr ()"
    "apply_body r (env_author (se_envelope ev)) (env_seq (se_envelope ev)) (se_body ev) = (r1, Inr ())"
    "r' = note_reaction
       (r1\<lparr>rec_slots := hm_insert (env_seq (se_envelope ev)) (EventSlot ev) (rec_slots r1)\<rparr>)
       (env_author (se_envelope ev)) (se_body ev)"
  using assms by (auto simp: ingest_event_def Let_def split: if_splits sum.splits prod.splits)

lemma ingest_accepted:
  assumes "ingest C K r bs now_ms = (r', Inr eid)"
  obtains ev where "\<not> rec_broken r" "parse_event C K bs = Inr ev"
    "ingest_event r ev now_ms = (r', Inr eid)"
  using assms by (auto simp: ingest_def split: if_splits sum.splits)

lemma check_targets_not_broken: "check_targets r p ts \<noteq> Inl Broken"
  by (induction ts) (auto split: option.splits slot.splits)

lemma close_joins_eq:
  "close_joins seq js closed_any =
     (map (\<lambda>j. if closes seq j then j\<lparr>jr_left_at := Some seq\<rparr> else j) js,
      closed_any \<or> list_ex (closes seq) js)"
  by (induction js arbitrary: closed_any) auto

text \<open>
  The error branch of \<open>apply_leave\<close> comes after the loop has run: it is reached exactly when no
  join was open, and then every join was written back as it was.
\<close>

lemma apply_leave_eq:
  "apply_leave r l seq =
     (case hm_get (rec_participants r) (leave_person l) of
        None \<Rightarrow> (r, Inl LeaveWithoutActiveJoin)
      | Some joins \<Rightarrow>
          if list_ex (closes seq) joins then
            (r\<lparr>rec_participants := hm_insert (leave_person l)
               (map (\<lambda>j. if closes seq j then j\<lparr>jr_left_at := Some seq\<rparr> else j) joins)
               (rec_participants r)\<rparr>, Inr ())
          else (r, Inl LeaveWithoutActiveJoin))"
proof -
  have same: "map (\<lambda>j. if closes seq j then j\<lparr>jr_left_at := Some seq\<rparr> else j) js = js"
    if "\<not> list_ex (closes seq) js" for js
    using that by (induction js) simp_all
  show ?thesis
    by (auto simp: apply_leave_def close_joins_eq same update_triv split: option.split)
qed

lemma apply_leave_rejected: "apply_leave r l seq = (r1, Inl e) \<Longrightarrow> r1 = r \<and> e \<noteq> Broken"
  by (auto simp: apply_leave_eq split: option.splits if_splits)

text \<open>Every rule of a body type that fails does so before its branch has changed anything.\<close>

lemma apply_body_rejected:
  assumes "apply_body r author seq b = (r1, Inl e)"
  shows "r1 = r" "e \<noteq> Broken"
  using assms apply_leave_rejected check_targets_not_broken
  by (cases b; auto simp: check_device_add_def check_device_revoke_def check_drop_request_def Let_def
      split: option.splits if_splits sum.splits)+

text \<open>What a success of each rule means, one equivalence for each body type.\<close>

lemma apply_body_ok [simp]:
  "apply_body r author seq (Message m) = (r1, Inr ()) \<longleftrightarrow>
     r1 = r \<and> (case msg_reply_to m of None \<Rightarrow> True | Some t \<Rightarrow> stored_at_lower_seq r t seq)"
  "apply_body r author seq (Reaction x) = (r1, Inr ()) \<longleftrightarrow>
     r1 = r \<and> stored_at_lower_seq r (react_target x) seq"
  "apply_body r author seq (Attachment t) = (r1, Inr ()) \<longleftrightarrow> r1 = r"
  "apply_body r author seq (Join j) = (r1, Inr ()) \<longleftrightarrow>
     author = rec_host r \<and> r1 = apply_join r j seq"
  "apply_body r author seq (Leave l) = (r1, Inr ()) \<longleftrightarrow>
     author = rec_host r \<and> apply_leave r l seq = (r1, Inr ())"
  "apply_body r author seq (DeviceAdd d) = (r1, Inr ()) \<longleftrightarrow>
     check_device_add r author d = Inr () \<and>
     r1 = r\<lparr>rec_devices_in_force :=
              hm_or_insert (da_device d) (person_or_self r author) (rec_devices_in_force r),
            rec_device_add_windows :=
              hm_insert (da_device d) (da_not_before_ms d, da_not_after_ms d) (rec_device_add_windows r)\<rparr>"
  "apply_body r author seq (DeviceRevoke v) = (r1, Inr ()) \<longleftrightarrow>
     check_device_revoke r author v = Inr () \<and>
     r1 = r\<lparr>rec_revoked := hm_insert (dr_device v) author (rec_revoked r),
            rec_devices_in_force := hm_remove (dr_device v) (rec_devices_in_force r)\<rparr>"
  "apply_body r author seq (DropRequest q) = (r1, Inr ()) \<longleftrightarrow>
     r1 = r \<and> check_drop_request r author q = Inr ()"
  "apply_body r author seq (Unknown n u) = (r1, Inr ()) \<longleftrightarrow> r1 = r"
  by (auto simp: Let_def split: option.split sum.split)

declare apply_body.simps [simp del]

lemma ingest_event_rejected:
  assumes "ingest_event r ev now_ms = (r', Inl e)"
  shows "r' = (if e = Broken then r\<lparr>rec_broken := True\<rparr> else r)"
  using assms
  by (auto simp: ingest_event_def Let_def admit_author_def expected_prev_def
      dest: apply_body_rejected split: if_splits sum.splits option.splits author_status.splits prod.splits)

lemma ingest_rejected:
  assumes "ingest C K r bs now_ms = (r', Inl e)"
  shows "r' = (if e = Broken then r\<lparr>rec_broken := True\<rparr> else r)"
proof (cases "rec_broken r")
  case True
  then show ?thesis using assms by (auto simp: ingest_def)
next
  case False
  show ?thesis
  proof (cases "parse_event C K bs")
    case (Inl x)
    then show ?thesis using False assms by (auto simp: ingest_def)
  next
    case (Inr ev)
    then have "ingest_event r ev now_ms = (r', Inl e)" using False assms by (simp add: ingest_def)
    then show ?thesis by (rule ingest_event_rejected)
  qed
qed

section \<open>What an operation leaves alone\<close>

lemma apply_body_frame:
  assumes "apply_body r author seq b = (r1, Inr ())"
  shows "rec_visit r1 = rec_visit r" "rec_host r1 = rec_host r" "rec_slots r1 = rec_slots r"
    "rec_broken r1 = rec_broken r" "rec_reactions_added r1 = rec_reactions_added r"
  using assms
  by (cases b; auto simp: apply_join_def apply_leave_eq Let_def split: option.splits if_splits)+

lemma note_reaction_frame [simp]:
  "rec_visit (note_reaction r a b) = rec_visit r"
  "rec_host (note_reaction r a b) = rec_host r"
  "rec_slots (note_reaction r a b) = rec_slots r"
  "rec_participants (note_reaction r a b) = rec_participants r"
  "rec_revoked (note_reaction r a b) = rec_revoked r"
  "rec_devices_in_force (note_reaction r a b) = rec_devices_in_force r"
  "rec_device_add_windows (note_reaction r a b) = rec_device_add_windows r"
  "rec_broken (note_reaction r a b) = rec_broken r"
  by (simp_all add: note_reaction_def split: body.splits)

lemma tombstone_slots_frame:
  assumes "tombstone_slots r seqs n = (r', m)"
  shows "rec_visit r' = rec_visit r" "rec_host r' = rec_host r"
    "rec_participants r' = rec_participants r" "rec_revoked r' = rec_revoked r"
    "rec_devices_in_force r' = rec_devices_in_force r"
    "rec_device_add_windows r' = rec_device_add_windows r"
    "rec_reactions_added r' = rec_reactions_added r" "rec_broken r' = rec_broken r"
  using assms
  by (induction r seqs n rule: tombstone_slots.induct)
     (auto simp: insert_tombstone_def split: option.splits)

lemma honour_cases:
  assumes "honour_drop_request r request = (r', res)"
  obtains "r' = r" "res = Inl DropRequestNotFound"
  | request_seq ev d n where "seq_of r request = Some request_seq"
      "get_event r request_seq = Some ev" "se_body ev = DropRequest d"
      "tombstone_slots r (drop_seqs r request_seq d) 0 = (r', n)" "res = Inr n"
  using assms
  by (auto simp: honour_drop_request_def split: option.splits body.splits prod.splits)

section \<open>Event ids of the slots\<close>

definition slot_id :: "recording \<Rightarrow> u64 \<Rightarrow> bytes option" where
  "slot_id r seq = map_option slot_event_id (hm_get (rec_slots r) seq)"

lemma get_event_slot: "get_event r seq = Some ev \<longleftrightarrow> hm_get (rec_slots r) seq = Some (EventSlot ev)"
  by (auto simp: get_event_def split: option.splits slot.splits)

lemma get_event_slot_id: "get_event r seq = Some ev \<Longrightarrow> slot_id r seq = Some (se_event_id ev)"
  by (simp add: get_event_slot slot_id_def)

lemma seq_collision_iff:
  "seq_collision r seq eid \<longleftrightarrow> slot_id r seq \<noteq> None \<and> slot_id r seq \<noteq> Some eid"
  by (auto simp: seq_collision_def slot_id_def split: option.splits)

lemma slot_id_store:
  assumes "\<not> seq_collision r seq (se_event_id ev)"
    and "rec_slots r' = hm_insert seq (EventSlot ev) (rec_slots r)"
  shows "slot_id r' = (slot_id r)(seq \<mapsto> se_event_id ev)"
  using assms by (auto simp: slot_id_def hm_get_insert)

lemma slot_id_insert_tombstone:
  assumes "slot_id r seq = Some eid"
  shows "slot_id (insert_tombstone r seq eid) = slot_id r"
  using assms by (auto simp: slot_id_def insert_tombstone_def hm_get_insert)

lemma tombstone_slots_ids:
  "tombstone_slots r seqs n = (r', m) \<Longrightarrow> slot_id r' = slot_id r"
proof (induction r seqs n rule: tombstone_slots.induct)
  case (2 r seq seqs count)
  then show ?case
    using slot_id_insert_tombstone [OF get_event_slot_id]
    by (auto split: option.splits)
qed simp

lemma honour_ids: "honour_drop_request r request = (r', res) \<Longrightarrow> slot_id r' = slot_id r"
  by (erule honour_cases) (auto dest: tombstone_slots_ids)

lemma ingest_event_slots:
  assumes "ingest_event r ev now_ms = (r', Inr eid)"
  shows "rec_slots r' = hm_insert (env_seq (se_envelope ev)) (EventSlot ev) (rec_slots r)"
    and "\<not> seq_collision r (env_seq (se_envelope ev)) (se_event_id ev)"
  using assms by (rule ingest_event_accepted, simp add: apply_body_frame)+

lemma ingest_event_ids:
  assumes "ingest_event r ev now_ms = (r', Inr eid)"
  shows "slot_id r' = (slot_id r)(env_seq (se_envelope ev) \<mapsto> se_event_id ev)"
    and "slot_id r (env_seq (se_envelope ev)) \<in> {None, Some (se_event_id ev)}"
  using slot_id_store [OF ingest_event_slots(2) [OF assms] ingest_event_slots(1) [OF assms]]
    ingest_event_slots(2) [OF assms]
  by (simp, auto simp: seq_collision_iff)

lemma ingest_ids_le:
  assumes "ingest C K r bs now_ms = (r', res)"
  shows "slot_id r \<subseteq>\<^sub>m slot_id r'"
proof (cases res)
  case (Inl e)
  have "r' = (if e = Broken then r\<lparr>rec_broken := True\<rparr> else r)"
    using assms unfolding Inl by (rule ingest_rejected)
  then show ?thesis by (auto simp: slot_id_def map_le_def)
next
  case (Inr eid)
  then obtain ev where ev: "ingest_event r ev now_ms = (r', Inr eid)"
    using assms by (auto elim: ingest_accepted)
  show ?thesis
    using ingest_event_ids [OF ev] by (auto simp: map_le_def)
qed


section \<open>The invariant\<close>

text \<open>
  The maps have distinct keys; every slot is keyed by its own seq and every event is a
  verified event of this visit; slots are dense and every event names the id in the slot
  below it (R-13); replies and reactions name an id of a lower slot (R-18, R-19); joins and
  leaves are by the host (R-25, R-28); and a device in force has a participant, while a
  device that a join names is in force or revoked.
\<close>

definition maps_ok :: "recording \<Rightarrow> bool" where
  "maps_ok r \<longleftrightarrow>
     hm_wf (rec_slots r) \<and> hm_wf (rec_participants r) \<and> hm_wf (rec_revoked r) \<and>
     hm_wf (rec_devices_in_force r) \<and> hm_wf (rec_device_add_windows r) \<and>
     distinct (rec_reactions_added r)"

fun refers_to :: "body \<Rightarrow> bytes option" where
  "refers_to (Message m) = msg_reply_to m"
| "refers_to (Reaction x) = Some (react_target x)"
| "refers_to _ = None"

definition event_stored_ok ::
  "minicbor \<Rightarrow> crypto \<Rightarrow> recording \<Rightarrow> u64 \<Rightarrow> signed_event \<Rightarrow> bool" where
  "event_stored_ok C K r seq ev \<longleftrightarrow>
     event_ok C K ev \<and> env_seq (se_envelope ev) = seq \<and>
     env_visit (se_envelope ev) = rec_visit r \<and>
     (is_membership (se_body ev) \<longrightarrow> env_author (se_envelope ev) = rec_host r)"

definition links_ok :: "(u64 \<Rightarrow> bytes option) \<Rightarrow> u64 \<Rightarrow> signed_event \<Rightarrow> bool" where
  "links_ok ids seq ev \<longleftrightarrow>
     (if seq = 0 then env_prev (se_envelope ev) = zero32
      else ids (seq - 1) = Some (env_prev (se_envelope ev))) \<and>
     (\<forall>t. refers_to (se_body ev) = Some t \<longrightarrow> (\<exists>s < seq. ids s = Some t))"

definition slots_ok :: "minicbor \<Rightarrow> crypto \<Rightarrow> recording \<Rightarrow> bool" where
  "slots_ok C K r \<longleftrightarrow>
     (\<forall>seq ev. get_event r seq = Some ev \<longrightarrow>
        event_stored_ok C K r seq ev \<and> links_ok (slot_id r) seq ev) \<and>
     (\<forall>seq t. tombstone_at r seq = Some t \<longrightarrow> tomb_seq t = seq) \<and>
     (\<forall>seq. slot_id r seq \<noteq> None \<longrightarrow> seq \<noteq> 0 \<longrightarrow> slot_id r (seq - 1) \<noteq> None)"

text \<open>A join record of the person \<open>p\<close>, and a device that is in force or revoked.\<close>

definition joined :: "recording \<Rightarrow> bytes \<Rightarrow> join_record \<Rightarrow> bool" where
  "joined r p j \<longleftrightarrow> (\<exists>js. hm_get (rec_participants r) p = Some js \<and> j \<in> set js)"

definition settled :: "recording \<Rightarrow> bytes \<Rightarrow> bool" where
  "settled r d \<longleftrightarrow> hm_get (rec_devices_in_force r) d \<noteq> None \<or> hm_get (rec_revoked r) d \<noteq> None"

definition members_ok :: "recording \<Rightarrow> bool" where
  "members_ok r \<longleftrightarrow>
     (\<forall>d p. hm_get (rec_devices_in_force r) d = Some p \<longrightarrow>
        hm_get (rec_participants r) p \<noteq> None) \<and>
     (\<forall>p j d. joined r p j \<longrightarrow> d \<in> set (jr_devices j) \<longrightarrow> settled r d)"

definition recording_ok :: "minicbor \<Rightarrow> crypto \<Rightarrow> recording \<Rightarrow> bool" where
  "recording_ok C K r \<longleftrightarrow>
     rec_visit r \<noteq> zero32 \<and> maps_ok r \<and> slots_ok C K r \<and> members_ok r"

lemma recording_new_ok: "recording_new visit host = Inr r \<Longrightarrow> recording_ok C K r"
  by (auto simp: recording_new_def recording_ok_def maps_ok_def slots_ok_def members_ok_def
      get_event_def tombstone_at_def slot_id_def joined_def split: if_splits)

lemma links_ok_mono: "links_ok ids seq ev \<Longrightarrow> ids \<subseteq>\<^sub>m ids' \<Longrightarrow> links_ok ids' seq ev"
  by (fastforce simp: links_ok_def map_le_def dom_def)

subsection \<open>Membership\<close>

lemma fold_or_insert_get:
  "hm_get (fold (\<lambda>d. hm_or_insert d p) ds m) x =
     (if x \<in> set ds \<and> hm_get m x = None then Some p else hm_get m x)"
  by (induction ds arbitrary: m) (auto simp: hm_get_or_insert)

lemma hm_wf_fold_or_insert [simp]: "hm_wf m \<Longrightarrow> hm_wf (fold (\<lambda>d. hm_or_insert d p) ds m)"
  by (induction ds arbitrary: m) auto

lemma scan_joins_active:
  "scan_joins names seq f js = Some ActiveStatus \<longleftrightarrow>
     (\<exists>j \<in> set js. jr_seq j \<le> seq \<and> names j \<and> still_open seq j)"
  by (induction js arbitrary: f) (auto simp: not_less)

lemma scan_joins_none:
  "scan_joins names seq f js = None \<longleftrightarrow> \<not> f \<and> (\<forall>j \<in> set js. seq < jr_seq j \<or> \<not> names j)"
proof (induction js arbitrary: f)
  case (Cons j js)
  then show ?case by (cases "seq < jr_seq j \<or> \<not> names j") (simp_all del: not_None_eq)
qed simp

lemma scan_joins_known: "scan_joins names seq f js \<noteq> Some UnknownStatus"
  by (induction js arbitrary: f) auto

lemma all_joins:
  "hm_wf (rec_participants r) \<Longrightarrow>
     j \<in> set (concat (map snd (rec_participants r))) \<longleftrightarrow> (\<exists>p. joined r p j)"
  by (force simp: joined_def hm_get_iff_mem)

definition open_join :: "recording \<Rightarrow> u64 \<Rightarrow> bytes \<Rightarrow> join_record \<Rightarrow> bool" where
  "open_join r seq p j \<longleftrightarrow> joined r p j \<and> jr_seq j \<le> seq \<and> still_open seq j"

text \<open>An active author has an open join that names it, or one of the person it is in force for.\<close>

lemma author_active:
  assumes "hm_wf (rec_participants r)" and "author_status r author seq = ActiveStatus"
  obtains p j where "open_join r seq p j"
    "author \<in> set (jr_devices j) \<or> hm_get (rec_devices_in_force r) author = Some p"
proof (cases "join_device_status r author seq")
  case (Some st)
  then have "join_device_status r author seq = Some ActiveStatus"
    using assms(2) by (simp add: author_status_def)
  then obtain j where "j \<in> set (concat (map snd (rec_participants r)))"
    "jr_seq j \<le> seq" "author \<in> set (jr_devices j)" "still_open seq j"
    unfolding join_device_status_def scan_joins_active by blast
  then show ?thesis
    using that all_joins [OF assms(1)] unfolding open_join_def by blast
next
  case None
  with assms(2) obtain p js where
    "hm_get (rec_devices_in_force r) author = Some p" "hm_get (rec_participants r) p = Some js"
    "scan_joins (\<lambda>_. True) seq False js = Some ActiveStatus"
    by (auto simp: author_status_def split: option.splits author_status.splits)
  then show ?thesis
    using that unfolding scan_joins_active open_join_def joined_def by blast
qed

lemma admitted:
  assumes "admit_author r author seq now_ms b = Inr ()" and "\<not> is_membership b"
  shows "author_status r author seq = ActiveStatus" "hm_get (rec_revoked r) author = None"
    "\<And>nb na. hm_get (rec_device_add_windows r) author = Some (nb, na) \<Longrightarrow>
       device_add_grant_in_force nb na now_ms"
  using assms by (auto simp: admit_author_def split: if_splits author_status.splits option.splits)

lemma admitted_not_revoked:
  "admit_author r author seq now_ms b = Inr () \<Longrightarrow> hm_get (rec_revoked r) author = None"
  by (auto simp: admit_author_def split: if_splits)

lemma admitted_in_force:
  assumes "maps_ok r" and "members_ok r"
    and "admit_author r author seq now_ms b = Inr ()" and "\<not> is_membership b"
  obtains p where "hm_get (rec_devices_in_force r) author = Some p"
    "hm_get (rec_participants r) p \<noteq> None"
proof -
  have wf: "hm_wf (rec_participants r)" using assms(1) by (simp add: maps_ok_def)
  obtain p j where "open_join r seq p j"
    "author \<in> set (jr_devices j) \<or> hm_get (rec_devices_in_force r) author = Some p"
    using author_active [OF wf admitted(1) [OF assms(3,4)]] by blast
  then have "hm_get (rec_devices_in_force r) author \<noteq> None"
    using assms(2) admitted(2) [OF assms(3,4)]
    unfolding members_ok_def open_join_def settled_def by (metis option.distinct(1))
  then show ?thesis
    using that assms(2) unfolding members_ok_def by (metis option.collapse)
qed

lemma joined_apply_join:
  "joined (apply_join r j seq) p x \<longleftrightarrow>
     joined r p x \<or>
     p = join_person j \<and> x = \<lparr>jr_seq = seq, jr_devices = join_devices j, jr_left_at = None\<rparr>"
  by (cases "hm_get (rec_participants r) (join_person j)")
     (auto simp: joined_def apply_join_def Let_def hm_get_insert)

lemma settled_apply_join:
  "settled (apply_join r j seq) d \<longleftrightarrow> settled r d \<or> d \<in> set (join_devices j)"
  by (auto simp: settled_def apply_join_def Let_def fold_or_insert_get)

lemma joined_apply_leave:
  assumes "apply_leave r l seq = (r1, Inr ())" and "joined r1 p x"
  obtains y where "joined r p y" "jr_devices x = jr_devices y" "jr_seq x = jr_seq y"
  using assms
  by (auto simp: joined_def apply_leave_eq hm_get_insert split: option.splits if_splits)

lemma apply_join_members:
  assumes "members_ok r"
  shows "members_ok (apply_join r j seq)"
  using assms unfolding members_ok_def joined_apply_join settled_apply_join
  by (auto simp: apply_join_def Let_def hm_get_insert fold_or_insert_get split: if_splits)

lemma apply_leave_members:
  assumes r: "members_ok r" and r1: "apply_leave r l seq = (r1, Inr ())"
  shows "members_ok r1"
proof -
  have "settled r1 d = settled r d" for d
    using r1 by (auto simp: settled_def apply_leave_eq split: option.splits if_splits)
  moreover have "hm_get (rec_devices_in_force r1) d = Some p \<Longrightarrow>
      hm_get (rec_participants r1) p \<noteq> None" for d p
    using r r1 by (auto simp: members_ok_def apply_leave_eq hm_get_insert
        split: option.splits if_splits)
  ultimately show ?thesis
    using r joined_apply_leave [OF r1] unfolding members_ok_def by metis
qed

lemma apply_body_members:
  assumes "maps_ok r" and "members_ok r"
    and "admit_author r author seq now_ms b = Inr ()"
    and "apply_body r author seq b = (r1, Inr ())"
  shows "members_ok r1"
proof (cases b)
  case (DeviceAdd d)
  obtain p where "hm_get (rec_devices_in_force r) author = Some p"
    "hm_get (rec_participants r) p \<noteq> None"
    using admitted_in_force [OF assms(1-3)] DeviceAdd by auto
  moreover have "joined r1 = joined r" "settled r x \<Longrightarrow> settled r1 x" for x
    using assms(4) unfolding DeviceAdd
    by (auto simp: joined_def settled_def hm_get_or_insert fun_eq_iff)
  ultimately show ?thesis
    using assms(2,4) unfolding DeviceAdd members_ok_def
    by (auto simp: person_or_self_def person_of_def hm_get_or_insert split: if_splits)
next
  case (DeviceRevoke d)
  moreover have "joined r1 = joined r" "settled r x \<Longrightarrow> settled r1 x" for x
    using assms(4) unfolding DeviceRevoke
    by (auto simp: joined_def settled_def hm_get_insert hm_get_remove fun_eq_iff)
  ultimately show ?thesis
    using assms(2,4) unfolding DeviceRevoke members_ok_def
    by (auto simp: hm_get_insert hm_get_remove split: if_splits)
qed (use assms in \<open>auto simp: apply_join_members apply_leave_members split: if_splits option.splits\<close>)

lemma members_ok_cong:
  "members_ok r \<Longrightarrow> rec_devices_in_force r' = rec_devices_in_force r \<Longrightarrow>
     rec_participants r' = rec_participants r \<Longrightarrow> rec_revoked r' = rec_revoked r \<Longrightarrow> members_ok r'"
  by (simp add: members_ok_def joined_def settled_def)

subsection \<open>Slots\<close>

text \<open>The reference a body makes was checked against a lower slot before the body was applied.\<close>

lemma seq_of_slot: "hm_wf (rec_slots r) \<Longrightarrow> seq_of r eid = Some s \<Longrightarrow> slot_id r s = Some eid"
  by (auto simp: seq_of_def find_Some_iff slot_id_def hm_get_iff_mem split: prod.splits)
     (metis nth_mem prod.collapse)

lemma apply_body_refers:
  assumes "apply_body r author seq b = (r1, Inr ())" and "hm_wf (rec_slots r)" and "refers_to b = Some t"
  shows "\<exists>s < seq. slot_id r s = Some t"
proof -
  have "stored_at_lower_seq r t seq"
    using assms(1,3) by (cases b) (auto split: if_splits option.splits)
  then show ?thesis
    using seq_of_slot [OF assms(2)] by (auto simp: stored_at_lower_seq_def split: option.splits)
qed

lemma apply_body_membership:
  "apply_body r author seq b = (r1, Inr ()) \<Longrightarrow> is_membership b \<Longrightarrow> author = rec_host r"
  by (cases b) (auto split: if_splits)

lemma expected_prev_links:
  "expected_prev r seq = Inr prev \<longleftrightarrow>
     (if seq = 0 then prev = zero32 else slot_id r (seq - 1) = Some prev)"
  by (auto simp: expected_prev_def slot_id_def split: option.splits)

lemma ingest_event_slots_ok:
  assumes r: "slots_ok C K r" "hm_wf (rec_slots r)" and ev: "event_ok C K ev"
    and step: "ingest_event r ev now_ms = (r', Inr eid)"
  shows "slots_ok C K r'"
proof -
  let ?e = "se_envelope ev"
  let ?seq = "env_seq ?e"
  obtain r1 where visit: "env_visit ?e = rec_visit r"
    and prev: "expected_prev r ?seq = Inr (env_prev ?e)"
    and body: "apply_body r (env_author ?e) ?seq (se_body ev) = (r1, Inr ())"
    and r': "r' = note_reaction (r1\<lparr>rec_slots := hm_insert ?seq (EventSlot ev) (rec_slots r1)\<rparr>)
       (env_author ?e) (se_body ev)"
    using step by (rule ingest_event_accepted)
  note ids = ingest_event_ids [OF step] and slots = ingest_event_slots [OF step]
  have le: "slot_id r \<subseteq>\<^sub>m slot_id r'"
    using ids by (auto simp: map_le_def)
  have same: "rec_visit r' = rec_visit r" "rec_host r' = rec_host r"
    by (simp_all add: r' apply_body_frame [OF body])
  have new: "links_ok (slot_id r) ?seq ev" "event_stored_ok C K r ?seq ev"
    using prev apply_body_refers [OF body r(2)] apply_body_membership [OF body] visit ev
    by (auto simp: links_ok_def expected_prev_links event_stored_ok_def split: if_splits)
  have "event_stored_ok C K r' s x \<and> links_ok (slot_id r') s x" if "get_event r' s = Some x" for s x
  proof (cases "s = ?seq")
    case True
    then show ?thesis
      using that new same links_ok_mono [OF _ le]
      by (auto simp: get_event_slot slots(1) hm_get_insert event_stored_ok_def)
  next
    case False
    then have "get_event r s = Some x"
      using that by (simp add: get_event_slot slots(1) hm_get_insert)
    then show ?thesis
      using r(1) same links_ok_mono [OF _ le] by (simp add: slots_ok_def event_stored_ok_def)
  qed
  moreover have "tomb_seq t = s" if "tombstone_at r' s = Some t" for s t
    using that r(1)
    by (auto simp: slots_ok_def tombstone_at_def slots(1) hm_get_insert split: if_splits)
  moreover have "slot_id r' (s - 1) \<noteq> None" if "slot_id r' s \<noteq> None" "s \<noteq> 0" for s
    using that r(1) new(1) ids(1) by (auto simp: slots_ok_def links_ok_def split: if_splits)
  ultimately show ?thesis
    by (simp add: slots_ok_def)
qed

lemma insert_tombstone_slots_ok:
  assumes "slots_ok C K r" and "slot_id r seq = Some eid"
  shows "slots_ok C K (insert_tombstone r seq eid)"
proof -
  have "get_event (insert_tombstone r seq eid) s = Some x \<Longrightarrow> get_event r s = Some x" for s x
    by (auto simp: get_event_slot insert_tombstone_def hm_get_insert split: if_splits)
  moreover have "tombstone_at (insert_tombstone r seq eid) s = Some t \<Longrightarrow>
      tombstone_at r s = Some t \<or> tomb_seq t = s" for s t
    by (auto simp: tombstone_at_def insert_tombstone_def hm_get_insert split: if_splits)
  moreover have "event_stored_ok C K (insert_tombstone r seq eid) = event_stored_ok C K r"
    by (simp add: fun_eq_iff event_stored_ok_def insert_tombstone_def)
  ultimately show ?thesis
    using assms by (simp add: slots_ok_def slot_id_insert_tombstone) blast
qed

lemma tombstone_slots_ok:
  "tombstone_slots r seqs n = (r', m) \<Longrightarrow> slots_ok C K r \<and> hm_wf (rec_slots r) \<Longrightarrow>
     slots_ok C K r' \<and> hm_wf (rec_slots r')"
proof (induction r seqs n rule: tombstone_slots.induct)
  case (2 r seq seqs count)
  then show ?case
    using insert_tombstone_slots_ok [OF _ get_event_slot_id]
    by (auto simp: insert_tombstone_def split: option.splits)
qed simp

subsection \<open>Every operation keeps the invariant\<close>

lemma apply_body_maps:
  assumes "maps_ok r" and "apply_body r author seq b = (r1, Inr ())"
  shows "maps_ok r1"
  using assms
  by (cases b; auto simp: maps_ok_def apply_join_def apply_leave_eq Let_def
      split: option.splits if_splits)

lemma note_reaction_maps: "maps_ok r \<Longrightarrow> maps_ok (note_reaction r a b)"
  by (auto simp: maps_ok_def note_reaction_def split: body.splits)

lemma ingest_event_recording_ok:
  assumes r: "recording_ok C K r" and ev: "event_ok C K ev"
    and step: "ingest_event r ev now_ms = (r', Inr eid)"
  shows "recording_ok C K r'"
proof -
  let ?e = "se_envelope ev"
  obtain r1 where
    admit: "admit_author r (env_author ?e) (env_seq ?e) now_ms (se_body ev) = Inr ()"
    and body: "apply_body r (env_author ?e) (env_seq ?e) (se_body ev) = (r1, Inr ())"
    and r': "r' = note_reaction
       (r1\<lparr>rec_slots := hm_insert (env_seq ?e) (EventSlot ev) (rec_slots r1)\<rparr>)
       (env_author ?e) (se_body ev)"
    using step by (rule ingest_event_accepted)
  have "maps_ok r1" "members_ok r1"
    using r apply_body_maps [OF _ body] apply_body_members [OF _ _ admit body]
    by (simp_all add: recording_ok_def)
  moreover from this have
    "maps_ok (r1\<lparr>rec_slots := hm_insert (env_seq ?e) (EventSlot ev) (rec_slots r1)\<rparr>)"
    by (simp add: maps_ok_def)
  ultimately have "maps_ok r'" "members_ok r'"
    unfolding r' using members_ok_cong [of r1] by (auto intro: note_reaction_maps)
  moreover have "slots_ok C K r'"
    using r ev step by (auto simp: recording_ok_def maps_ok_def intro: ingest_event_slots_ok)
  ultimately show ?thesis
    using r by (simp add: recording_ok_def r' apply_body_frame [OF body])
qed

lemma recording_ok_broken: "recording_ok C K r \<Longrightarrow> recording_ok C K (r\<lparr>rec_broken := True\<rparr>)"
  by (simp add: slot_id_def [abs_def] recording_ok_def maps_ok_def slots_ok_def members_ok_def joined_def settled_def
      get_event_def tombstone_at_def slot_id_def event_stored_ok_def)

lemma honour_recording_ok:
  assumes "recording_ok C K r" and "honour_drop_request r request = (r', res)"
  shows "recording_ok C K r'"
  using assms(2)
proof (cases rule: honour_cases)
  case 1
  then show ?thesis using assms(1) by simp
next
  case (2 request_seq ev d n)
  note frame = tombstone_slots_frame [OF 2(4)]
  have "slots_ok C K r' \<and> hm_wf (rec_slots r')"
    by (rule tombstone_slots_ok [OF 2(4)]) (use assms(1) in \<open>simp add: recording_ok_def maps_ok_def\<close>)
  then show ?thesis
    using assms(1) frame
    by (simp add: recording_ok_def maps_ok_def members_ok_def joined_def settled_def)
qed

section \<open>Reachable recordings\<close>

inductive rec_step :: "minicbor \<Rightarrow> crypto \<Rightarrow> recording \<Rightarrow> recording \<Rightarrow> bool" for C K where
  step_ingest: "ingest C K r bs now_ms = (r', res) \<Longrightarrow> rec_step C K r r'"
| step_honour: "honour_drop_request r request = (r', res) \<Longrightarrow> rec_step C K r r'"

inductive_cases rec_stepE: "rec_step C K r r'"

inductive recording_reachable ::
  "minicbor \<Rightarrow> crypto \<Rightarrow> bytes \<Rightarrow> bytes \<Rightarrow> recording \<Rightarrow> bool" for C K visit host where
  reach_new: "recording_new visit host = Inr r \<Longrightarrow> recording_reachable C K visit host r"
| reach_step: "recording_reachable C K visit host r \<Longrightarrow> rec_step C K r r' \<Longrightarrow>
    recording_reachable C K visit host r'"

lemma step_cases:
  assumes "rec_step C K r r'"
  obtains "r' = r" | "r' = r\<lparr>rec_broken := True\<rparr>"
  | bs now_ms eid ev where "ingest C K r bs now_ms = (r', Inr eid)" "\<not> rec_broken r"
      "parse_event C K bs = Inr ev" "ingest_event r ev now_ms = (r', Inr eid)"
  | request res where "honour_drop_request r request = (r', res)"
proof -
  consider bs now_ms res where "ingest C K r bs now_ms = (r', res)"
    | request res where "honour_drop_request r request = (r', res)"
    using assms by (cases rule: rec_stepE)
  then show ?thesis
  proof cases
    case (1 bs now_ms res)
    show ?thesis
    proof (cases res)
      case (Inl e)
      then show ?thesis
        using ingest_rejected [of C K r bs now_ms r' e] 1 that(1,2) by (cases "e = Broken") auto
    next
      case (Inr eid)
      then have "ingest C K r bs now_ms = (r', Inr eid)" using 1 by simp
      then show ?thesis by (metis that(3) ingest_accepted)
    qed
  qed (use that(4) in blast)
qed

lemma step_ids: "rec_step C K r r' \<Longrightarrow> slot_id r \<subseteq>\<^sub>m slot_id r'"
  by (erule rec_stepE) (auto dest: ingest_ids_le honour_ids)

lemma apply_body_revoked:
  assumes "apply_body r author seq b = (r1, Inr ())" and "hm_get (rec_revoked r) d \<noteq> None"
  shows "hm_get (rec_revoked r1) d \<noteq> None"
  using assms
  by (cases b) (auto simp: apply_join_def apply_leave_eq Let_def hm_get_insert
      split: option.splits if_splits)

lemma step_frame:
  assumes "rec_step C K r r'"
  shows "rec_visit r' = rec_visit r" "rec_host r' = rec_host r"
    "rec_broken r \<Longrightarrow> rec_broken r'"
    "hm_get (rec_revoked r) d \<noteq> None \<Longrightarrow> hm_get (rec_revoked r') d \<noteq> None"
proof -
  have "rec_visit r' = rec_visit r \<and> rec_host r' = rec_host r \<and> (rec_broken r \<longrightarrow> rec_broken r') \<and>
    (hm_get (rec_revoked r) d \<noteq> None \<longrightarrow> hm_get (rec_revoked r') d \<noteq> None)"
    using assms
  proof (cases rule: step_cases)
    case (3 bs now_ms eid ev)
    from 3(4) show ?thesis
      by (rule ingest_event_accepted) (auto simp: apply_body_frame dest: apply_body_revoked)
  next
    case (4 request res)
    then show ?thesis
      by (cases rule: honour_cases) (auto dest: tombstone_slots_frame)
  qed simp_all
  then show "rec_visit r' = rec_visit r" "rec_host r' = rec_host r"
    "rec_broken r \<Longrightarrow> rec_broken r'"
    "hm_get (rec_revoked r) d \<noteq> None \<Longrightarrow> hm_get (rec_revoked r') d \<noteq> None"
    by blast+
qed

lemma steps_frame:
  assumes "(rec_step C K)\<^sup>*\<^sup>* r r'"
  shows "slot_id r \<subseteq>\<^sub>m slot_id r'" "rec_broken r \<longrightarrow> rec_broken r'"
    "hm_get (rec_revoked r) d \<noteq> None \<longrightarrow> hm_get (rec_revoked r') d \<noteq> None"
proof -
  have "slot_id r \<subseteq>\<^sub>m slot_id r' \<and> (rec_broken r \<longrightarrow> rec_broken r') \<and>
    (hm_get (rec_revoked r) d \<noteq> None \<longrightarrow> hm_get (rec_revoked r') d \<noteq> None)"
    using assms
  proof (induction rule: rtranclp_induct)
    case (step y z)
    then show ?case
      using step_ids [OF step(2)] step_frame [OF step(2)] map_le_trans by blast
  qed simp
  then show "slot_id r \<subseteq>\<^sub>m slot_id r'" "rec_broken r \<longrightarrow> rec_broken r'"
    "hm_get (rec_revoked r) d \<noteq> None \<longrightarrow> hm_get (rec_revoked r') d \<noteq> None"
    by blast+
qed

context minicbor_contract
begin

lemma step_recording_ok:
  assumes "recording_ok C K r" and "rec_step C K r r'"
  shows "recording_ok C K r'"
  using assms(2)
proof (cases rule: step_cases)
  case (3 bs now_ms eid ev)
  then show ?thesis
    using ingest_event_recording_ok [OF assms(1) parse_event_ok] by blast
next
  case (4 request res)
  then show ?thesis using honour_recording_ok [OF assms(1)] by blast
qed (use assms(1) recording_ok_broken in auto)

lemma reachable_recording_ok: "recording_reachable C K visit host r \<Longrightarrow> recording_ok C K r"
proof (induction rule: recording_reachable.induct)
  case (reach_new r)
  then show ?case by (rule recording_new_ok)
next
  case (reach_step r r')
  then show ?case using step_recording_ok by blast
qed

end

end
