(* ===== verification/Demo.thy ===== *)
theory Demo
  imports Recording_Laws
begin

text \<open>
  Concrete events for the examples of this development: they are signed with the codec
  \<open>rfc8949\<close> and the instance \<open>demo_crypto\<close>, in a visit of \<open>demo_host\<close>.
\<close>

definition demo_visit :: bytes where "demo_visit = replicate 32 1"
definition demo_host :: bytes where "demo_host = replicate 32 2"
definition demo_guest :: bytes where "demo_guest = replicate 32 3"

lemma demo_keys [simp]:
  "length demo_visit = 32" "length demo_host = 32" "length demo_guest = 32"
  "demo_visit \<noteq> zero32" "demo_host \<noteq> demo_guest" "demo_guest \<noteq> demo_host"
  by (simp_all add: demo_visit_def demo_host_def demo_guest_def replicate_numeral)

definition demo_envelope :: "bytes \<Rightarrow> u64 \<Rightarrow> bytes \<Rightarrow> envelope" where
  "demo_envelope author seq prev =
     \<lparr>env_v = 1, env_visit = demo_visit, env_author = author, env_seq = seq, env_prev = prev,
      env_ts_ms = 5, env_body_hash = zero32, env_body_len = 0\<rparr>"

definition demo_event :: "bytes \<Rightarrow> u64 \<Rightarrow> bytes \<Rightarrow> body \<Rightarrow> signed_event" where
  "demo_event author seq prev b =
     the (sign_event rfc8949 demo_crypto (demo_envelope author seq prev) b (demo_sign author))"

definition demo_id :: "bytes \<Rightarrow> u64 \<Rightarrow> bytes \<Rightarrow> body \<Rightarrow> bytes" where
  "demo_id author seq prev b = se_event_id (demo_event author seq prev b)"

lemma rfc_head_length: "length (rfc_head m n) \<le> 9"
  by (simp add: rfc_head_def)

lemma rfc_lengths:
  "length (enc_array rfc8949 n) \<le> 9" "length (enc_map rfc8949 n) \<le> 9"
  "length (enc_u8 rfc8949 a) \<le> 9" "length (enc_u32 rfc8949 c) \<le> 9"
  "length (enc_u64 rfc8949 n) \<le> 9" "length (enc_bytes rfc8949 s) \<le> 9 + length s"
  "length (enc_str rfc8949 s) \<le> 9 + length s"
  by (simp_all add: rfc8949_def rfc_head_length)

lemma rfc_envelope_length: "envelope_wf e \<Longrightarrow> length (envelope_to_cbor rfc8949 e) \<le> 250"
  using rfc_lengths(1) [of 8] rfc_lengths(3) [of "env_v e"] rfc_lengths(4) [of "env_body_len e"]
    rfc_lengths(5) [of "env_seq e"] rfc_lengths(5) [of "env_ts_ms e"]
    rfc_lengths(6) [of "env_visit e"] rfc_lengths(6) [of "env_author e"]
    rfc_lengths(6) [of "env_prev e"] rfc_lengths(6) [of "env_body_hash e"]
  by (simp add: envelope_to_cbor_def envelope_wf_def)

definition demo_body :: "body \<Rightarrow> bool" where
  "demo_body b \<longleftrightarrow> body_ok b \<and> is_known b \<and> length (encode_known rfc8949 b) \<le> 1000"

lemma demo_event_signed:
  "demo_body b \<Longrightarrow>
     sign_event rfc8949 demo_crypto (demo_envelope author seq prev) b (demo_sign author) =
       Some (demo_event author seq prev b)"
  by (simp add: demo_event_def sign_event_def Let_def demo_body_def)

lemma demo_event_fields [simp]:
  assumes "demo_body b"
  shows "env_visit (se_envelope (demo_event author seq prev b)) = demo_visit"
    "env_author (se_envelope (demo_event author seq prev b)) = author"
    "env_seq (se_envelope (demo_event author seq prev b)) = seq"
    "env_prev (se_envelope (demo_event author seq prev b)) = prev"
    "se_body (demo_event author seq prev b) = b"
    "se_event_id (demo_event author seq prev b) = demo_id author seq prev b"
  using assms
  by (simp_all add: demo_event_def sign_event_def Let_def demo_body_def demo_envelope_def demo_id_def)

lemma length_demo_id [simp]: "demo_body b \<Longrightarrow> length (demo_id author seq prev b) = 32"
  by (simp add: demo_id_def demo_event_def sign_event_def Let_def demo_body_def of_envelope_def
      demo_crypto_def)

lemma demo_event_length:
  assumes "length author = 32" "length prev = 32" "demo_body b"
  shows "length (event_to_bytes (demo_event author seq prev b)) \<le> 2000"
proof -
  let ?e = "(demo_envelope author seq prev)\<lparr>env_body_hash := demo_hash (body_to_cbor rfc8949 b),
    env_body_len := of_nat (length (body_to_cbor rfc8949 b))\<rparr>"
  have "length (envelope_to_cbor rfc8949 ?e) \<le> 250"
    using assms by (intro rfc_envelope_length) (simp add: envelope_wf_def demo_envelope_def)
  then show ?thesis
    using assms
    by (simp add: event_to_bytes_def demo_event_def sign_event_def Let_def demo_body_def
        demo_crypto_def demo_sign_def)
qed

lemma demo_parse:
  assumes "length author = 32" "length prev = 32" "demo_body b"
  shows "parse_event rfc8949 demo_crypto (event_to_bytes (demo_event author seq prev b)) =
    Inr (demo_event author seq prev b)"
proof (rule rfc.sign_event_round_trip)
  show "sign_event rfc8949 demo_crypto (demo_envelope author seq prev) b (demo_sign author) =
      Some (demo_event author seq prev b)"
    using assms(3) by (rule demo_event_signed)
  show "envelope_wf (demo_envelope author seq prev)" "env_v (demo_envelope author seq prev) = 1"
    using assms by (simp_all add: demo_envelope_def envelope_wf_def)
  show "length (event_to_bytes (demo_event author seq prev b)) \<le> EVENT_TOTAL_MAX"
    using demo_event_length [OF assms, of seq] by (simp add: EVENT_TOTAL_MAX_def)
  show "signs_for demo_crypto (env_author (demo_envelope author seq prev)) (demo_sign author)"
    using assms(1) by (simp add: demo_envelope_def signs_for_demo)
qed (use assms in \<open>auto simp: demo_body_def BODY_LEN_MAX_def intro: hash_lengths_demo\<close>)

lemma demo_ingest:
  assumes "length author = 32" "length prev = 32" "demo_body b" "\<not> rec_broken r"
  shows "ingest rfc8949 demo_crypto r (event_to_bytes (demo_event author seq prev b)) now_ms =
    ingest_event r (demo_event author seq prev b) now_ms"
  using assms by (simp add: ingest_def demo_parse)

section \<open>A visit in which the host admits itself and a guest\<close>

definition demo_join :: "bytes \<Rightarrow> body" where
  "demo_join person = Join \<lparr>join_person = person, join_devices = [person], join_name = None\<rparr>"

definition demo_message :: body where
  "demo_message = Message \<lparr>msg_text = ascii ''hi'', msg_reply_to = None\<rparr>"

definition demo_leave :: "bytes \<Rightarrow> body" where
  "demo_leave person = Leave \<lparr>leave_person = person, leave_reason = 0\<rparr>"

definition demo_drop_all :: body where
  "demo_drop_all = DropRequest \<lparr>drop_scope = 0, drop_targets = None, drop_note = None\<rparr>"

definition demo_revoke :: "bytes \<Rightarrow> body" where
  "demo_revoke d = DeviceRevoke \<lparr>dr_device = d, dr_at_ms = 0\<rparr>"

lemma demo_bodies [simp]:
  "demo_body (demo_join demo_host)" "demo_body (demo_join demo_guest)" "demo_body demo_message"
  "demo_body (demo_leave demo_guest)" "demo_body demo_drop_all"
  by (simp_all add: demo_body_def demo_join_def demo_message_def demo_leave_def demo_drop_all_def
      key_ok_def keys_ok_def text_ok_def type_values body_limits ascii_def rfc8949_def
      enc_key_opt_def enc_keys_def rfc_head_def)

definition demo_new :: recording where
  "demo_new = (case recording_new demo_visit demo_host of Inr r \<Rightarrow> r)"

end
