(* ===== verification/Event_Props.thy ===== *)
theory Event_Props
  imports Demo
begin

text \<open>
  The properties of one event: the codecs of the envelope and of the eight bodies accept
  exactly the canonical encodings, and a signed event is its bytes.
\<close>

section \<open>Envelope and body\<close>

text \<open>C25: the envelope decoder accepts exactly the bytes that the encoder makes of an
  envelope whose four byte arrays have 32 bytes, and returns that envelope (R-2, R-3).\<close>

theorem envelope_codec:
  assumes "minicbor_contract C"
  shows "envelope_from_cbor C bs = Inr e \<longleftrightarrow> envelope_wf e \<and> bs = envelope_to_cbor C e"
proof
  assume "envelope_from_cbor C bs = Inr e"
  then show "envelope_wf e \<and> bs = envelope_to_cbor C e"
    using envelope_from_cbor_wf envelope_from_cbor_canonical by metis
qed (use minicbor_contract.envelope_round_trip [OF assms] in simp)

theorem envelope_codec_witness:
  "envelope_from_cbor rfc8949 (envelope_to_cbor rfc8949 (demo_envelope demo_host 7 zero32)) =
     Inr (demo_envelope demo_host 7 zero32)"
  using envelope_codec [OF rfc.minicbor_contract_axioms,
      of "envelope_to_cbor rfc8949 (demo_envelope demo_host 7 zero32)" "demo_envelope demo_host 7 zero32"]
  by (simp add: envelope_wf_def demo_envelope_def)



text \<open>a body whose type value this version does not know is carried with exactly the
  bytes that arrived, and those are the bytes that it is written out as (R-14).\<close>

theorem unknown_body_carried:
  assumes "minicbor_contract C" and "body_from_cbor C bs = Inr (Unknown tv raw)"
  shows "raw = bs \<and> body_to_cbor C (Unknown tv raw) = bs \<and> tv \<notin> {1..8}"
  using minicbor_contract.body_from_cbor_unknown [OF assms] by simp

theorem unknown_body_carried_witness:
  "body_from_cbor rfc8949 [0xA1, 0, 9] = Inr (Unknown 9 [0xA1, 0, 9]) \<and> (9::u64) \<notin> {1..8}"
proof -
  have "body_from_cbor rfc8949 [0xA1, 0, 9] = Inr (Unknown 9 [0xA1, 0, 9])"
    by (simp add: body_from_cbor_def rfc8949_def rfc_len_def rfc_unhead_def rfc_uint_def
        decode_known_def type_values Let_def)
  with unknown_body_carried [OF rfc.minicbor_contract_axioms this] show ?thesis by simp
qed

section \<open>Signed events\<close>

text \<open>an event that \<open>SignedEvent::sign\<close> makes within the size caps, from a known body
  within its limits and with a signer for the author's key, is accepted by
  \<open>SignedEvent::parse\<close>, which returns it unchanged.\<close>

theorem signed_event_round_trip:
  assumes "minicbor_contract C" and "hash_lengths K" and "signs_for K (env_author e) signer"
    and "sign_event C K e b signer = Some ev"
    and "envelope_wf e" and "env_v e = 1" and "body_ok b" and "is_known b"
    and "length (se_body_bytes ev) \<le> BODY_LEN_MAX"
    and "length (event_to_bytes ev) \<le> EVENT_TOTAL_MAX"
  shows "parse_event C K (event_to_bytes ev) = Inr ev"
proof (rule minicbor_contract.sign_event_round_trip [OF assms(1,4-8) _ assms(10,2,3)])
  show "length (body_to_cbor C b) \<le> BODY_LEN_MAX"
    using assms(4,9) by (auto simp: sign_event_def Let_def split: if_splits)
qed

theorem signed_event_round_trip_witness:
  "parse_event rfc8949 demo_crypto (event_to_bytes (demo_event demo_host 0 zero32 demo_message)) =
     Inr (demo_event demo_host 0 zero32 demo_message)"
proof (rule signed_event_round_trip [OF rfc.minicbor_contract_axioms hash_lengths_demo])
  show "sign_event rfc8949 demo_crypto (demo_envelope demo_host 0 zero32) demo_message
      (demo_sign demo_host) = Some (demo_event demo_host 0 zero32 demo_message)"
    by (rule demo_event_signed) simp
  show "length (event_to_bytes (demo_event demo_host 0 zero32 demo_message)) \<le> EVENT_TOTAL_MAX"
    using demo_event_length [of demo_host zero32 demo_message 0] by (simp add: EVENT_TOTAL_MAX_def)
  then show "length (se_body_bytes (demo_event demo_host 0 zero32 demo_message)) \<le> BODY_LEN_MAX"
    using demo_event_length [of demo_host zero32 demo_message 0]
    by (simp add: event_to_bytes_def BODY_LEN_MAX_def)
qed (use demo_bodies(3) in \<open>auto simp: demo_envelope_def envelope_wf_def demo_body_def signs_for_demo\<close>)

text \<open>C27: whatever \<open>SignedEvent::parse\<close> accepts satisfies every rule that the bytes decide:
  the event writes out as the same bytes, envelope and body are canonical, the sizes are
  within the caps, the hash and the length of the body are the envelope's, the author's
  signature verifies over the prefixed envelope, and the id is the hash of the envelope.\<close>

theorem parse_event_sound:
  assumes "minicbor_contract C" and "parse_event C K bs = Inr ev"
  shows "event_to_bytes ev = bs \<and> event_ok C K ev"
  using parse_event_bytes [OF assms(2)] minicbor_contract.parse_event_ok [OF assms] by simp

theorem parse_event_sound_witness:
  "event_ok rfc8949 demo_crypto (demo_event demo_host 0 zero32 demo_message)"
  using parse_event_sound [OF rfc.minicbor_contract_axioms
      demo_parse [of demo_host zero32 demo_message 0]]
  by simp

text \<open>two accepted events with the same id agree on the envelope and on the body, as
  long as the hash does not collide on the envelopes and bodies at hand: the id commits to
  everything but the signature.\<close>

theorem event_id_commits:
  assumes "minicbor_contract C"
    and "parse_event C K bs = Inr ev" and "parse_event C K bs' = Inr ev'"
    and "se_event_id ev = se_event_id ev'"
    and "inj_on (blake3 K) {se_envelope_bytes ev, se_envelope_bytes ev',
      se_body_bytes ev, se_body_bytes ev'}"
  shows "se_envelope ev = se_envelope ev' \<and> se_body_bytes ev = se_body_bytes ev' \<and>
    (se_sig ev = se_sig ev' \<longrightarrow> bs = bs')"
proof -
  have ok: "event_ok C K ev" "event_ok C K ev'"
    using assms(1-3) minicbor_contract.parse_event_ok by blast+
  note hash_eq = inj_onD [OF assms(5)]
  have bytes: "se_envelope_bytes ev = se_envelope_bytes ev'"
    by (rule hash_eq) (use ok assms(4) in \<open>simp_all add: event_ok_def\<close>)
  have envelope: "se_envelope ev = se_envelope ev'"
    by (rule minicbor_contract.envelope_to_cbor_inj [OF assms(1)])
       (use ok bytes in \<open>simp_all add: event_ok_def\<close>)
  have body: "se_body_bytes ev = se_body_bytes ev'"
  proof (rule hash_eq)
    have "blake3 K (se_body_bytes ev) = env_body_hash (se_envelope ev)"
      "blake3 K (se_body_bytes ev') = env_body_hash (se_envelope ev')"
      using ok by (simp_all add: event_ok_def)
    then show "blake3 K (se_body_bytes ev) = blake3 K (se_body_bytes ev')"
      by (simp add: envelope)
  qed simp_all
  show ?thesis
    using parse_event_bytes [OF assms(2)] parse_event_bytes [OF assms(3)]
    by (auto simp: event_to_bytes_def envelope bytes body)
qed

theorem event_id_commits_witness:
  "se_envelope (demo_event demo_host 0 zero32 demo_message) =
   se_envelope (demo_event demo_host 0 zero32 demo_message)"
proof -
  let ?ev = "demo_event demo_host 0 zero32 demo_message"
  have "inj_on (blake3 demo_crypto) {se_envelope_bytes ?ev, se_body_bytes ?ev}"
    by (simp add: demo_event_def sign_event_def Let_def demo_message_def envelope_to_cbor_def
        rfc8949_def rfc_head_def enc_key_opt_def type_values ascii_def demo_crypto_def demo_hash_def)
  then show ?thesis
    using event_id_commits [OF rfc.minicbor_contract_axioms
      demo_parse [of demo_host zero32 demo_message 0] demo_parse [of demo_host zero32 demo_message 0]]
    by simp
qed
end
