(* ===== verification/Recording_Admission.thy ===== *)
theory Recording_Admission
  imports Recording_Laws
begin

text \<open>
  Who may author (R-7, R-27, R-30, R-37), what a repeated ingest does, and what honouring a
  drop request leaves (R-41, R-50): the facts behind the properties of the recording.
\<close>

section \<open>Joins and leaves lie within the recorded slots\<close>

lemma dense_below:
  assumes dense: "\<And>s :: u64. ids s \<noteq> None \<Longrightarrow> s \<noteq> 0 \<Longrightarrow> ids (s - 1) \<noteq> None"
    and "ids t \<noteq> None" and "s \<le> t"
  shows "ids s \<noteq> None"
  using assms(2,3)
proof (induction "unat t - unat s" arbitrary: t)
  case 0
  then have "s = t" by (simp add: word_le_nat_alt word_unat_eq_iff)
  then show ?case using 0 by simp
next
  case (Suc n)
  then have "t \<noteq> 0" and less: "unat s < unat t" by (auto simp: word_le_nat_alt)
  then have "unat (t - 1) = unat t - 1" by (simp add: unat_minus_one)
  with Suc less have "n = unat (t - 1) - unat s" "s \<le> t - 1" "ids (t - 1) \<noteq> None"
    using dense \<open>t \<noteq> 0\<close> by (auto simp: word_le_nat_alt)
  then show ?case using Suc.hyps(1) by blast
qed

lemma slots_dense: "slots_ok C K r \<Longrightarrow> slot_id r t \<noteq> None \<Longrightarrow> s \<le> t \<Longrightarrow> slot_id r s \<noteq> None"
  by (rule dense_below [where ids = "slot_id r"]) (simp_all add: slots_ok_def)

text \<open>A join record opens at a recorded seq, and closes at a later recorded one.\<close>

definition join_within :: "(u64 \<Rightarrow> bytes option) \<Rightarrow> join_record \<Rightarrow> bool" where
  "join_within ids j \<longleftrightarrow>
     ids (jr_seq j) \<noteq> None \<and>
     (\<forall>l. jr_left_at j = Some l \<longrightarrow> ids l \<noteq> None \<and> jr_seq j < l)"

definition joins_ok :: "recording \<Rightarrow> bool" where
  "joins_ok r \<longleftrightarrow> (\<forall>p j. joined r p j \<longrightarrow> join_within (slot_id r) j)"

lemma join_within_mono: "join_within ids j \<Longrightarrow> ids \<subseteq>\<^sub>m ids' \<Longrightarrow> join_within ids' j"
  by (fastforce simp: join_within_def map_le_def dom_def)

lemma joined_leave:
  assumes "apply_leave r l seq = (r1, Inr ())"
  shows "joined r1 p x \<longleftrightarrow>
    (if p = leave_person l
     then \<exists>y. joined r p y \<and> x = (if closes seq y then y\<lparr>jr_left_at := Some seq\<rparr> else y)
     else joined r p x)"
proof -
  obtain js where js: "hm_get (rec_participants r) (leave_person l) = Some js"
    and "r1 = r\<lparr>rec_participants := hm_insert (leave_person l)
       (map (\<lambda>j. if closes seq j then j\<lparr>jr_left_at := Some seq\<rparr> else j) js) (rec_participants r)\<rparr>"
    using assms by (auto simp: apply_leave_eq split: option.splits if_splits)
  then have "joined r1 p x \<longleftrightarrow> (if p = leave_person l
      then x \<in> set (map (\<lambda>j. if closes seq j then j\<lparr>jr_left_at := Some seq\<rparr> else j) js)
      else joined r p x)"
    by (simp add: joined_def hm_get_insert)
  moreover have "joined r (leave_person l) y \<longleftrightarrow> y \<in> set js" for y
    by (simp add: joined_def js)
  ultimately show ?thesis by (auto simp only: set_map image_iff Bex_def split: if_split)
qed

lemma apply_body_joined:
  assumes "apply_body r author seq b = (r1, Inr ())" and "joined r1 p x"
  shows "joined r p x \<or> jr_seq x = seq \<and> jr_left_at x = None \<or>
    (\<exists>y. joined r p y \<and> closes seq y \<and> x = y\<lparr>jr_left_at := Some seq\<rparr>)"
proof (cases b)
  case (Join j)
  then show ?thesis using assms by (auto simp: joined_apply_join split: if_splits)
next
  case (Leave l)
  then have "apply_leave r l seq = (r1, Inr ())" using assms(1) by (auto split: if_splits)
  then show ?thesis using assms(2) by (auto simp: joined_leave split: if_splits)
qed (use assms in \<open>auto simp: joined_def split: option.splits if_splits\<close>)

lemma ingest_event_joins_ok:
  assumes r: "joins_ok r" and step: "ingest_event r ev now_ms = (r', Inr eid)"
  shows "joins_ok r'"
proof -
  let ?seq = "env_seq (se_envelope ev)"
  obtain r1 where
    body: "apply_body r (env_author (se_envelope ev)) ?seq (se_body ev) = (r1, Inr ())"
    and r': "rec_participants r' = rec_participants r1"
    using step by (rule ingest_event_accepted) simp
  note ids = ingest_event_ids [OF step]
  have le: "slot_id r \<subseteq>\<^sub>m slot_id r'" using ids by (auto simp: map_le_def)
  have "join_within (slot_id r') x" if "joined r' p x" for p x
  proof -
    have "joined r1 p x" using that r' by (simp add: joined_def)
    from apply_body_joined [OF body this] show ?thesis
    proof (elim disjE exE conjE)
      assume "joined r p x"
      then show ?thesis using r join_within_mono [OF _ le] by (simp add: joins_ok_def)
    next
      assume "jr_seq x = ?seq" "jr_left_at x = None"
      then show ?thesis using ids(1) by (simp add: join_within_def)
    next
      fix y
      assume "joined r p y" "closes ?seq y" "x = y\<lparr>jr_left_at := Some ?seq\<rparr>"
      moreover from this have "join_within (slot_id r') y"
        using r join_within_mono [OF _ le] by (simp add: joins_ok_def)
      ultimately show ?thesis using ids(1) by (simp add: join_within_def closes_def)
    qed
  qed
  then show ?thesis by (simp add: joins_ok_def)
qed

lemma step_joins_ok:
  assumes "joins_ok r" and "rec_step C K r r'"
  shows "joins_ok r'"
  using assms(2)
proof (cases rule: step_cases)
  case (3 bs now_ms eid ev)
  then show ?thesis using assms(1) ingest_event_joins_ok by blast
next
  case (4 request res)
  then have "slot_id r' = slot_id r" by (rule honour_ids)
  moreover have "rec_participants r' = rec_participants r"
    using 4 by (cases rule: honour_cases) (auto dest: tombstone_slots_frame)
  ultimately show ?thesis using assms(1) by (simp add: joins_ok_def joined_def)
qed (use assms(1) in \<open>simp_all add: joins_ok_def joined_def slot_id_def [abs_def]\<close>)

lemma reachable_joins_ok: "recording_reachable C K visit host r \<Longrightarrow> joins_ok r"
proof (induction rule: recording_reachable.induct)
  case (reach_new r)
  then show ?case by (auto simp: recording_new_def joins_ok_def joined_def split: if_splits)
next
  case (reach_step r r')
  then show ?case using step_joins_ok by blast
qed

section \<open>A leave locks the person out (R-30)\<close>

text \<open>The devices that only the person \<open>p\<close> brought: no other person's join names them, and
  they are in force for no other person.\<close>

definition only_device_of :: "recording \<Rightarrow> bytes \<Rightarrow> bytes \<Rightarrow> bool" where
  "only_device_of r p d \<longleftrightarrow>
     (\<forall>q j. joined r q j \<longrightarrow> d \<in> set (jr_devices j) \<longrightarrow> q = p) \<and>
     hm_get (rec_devices_in_force r) d \<in> {None, Some p}"

lemma closed_person_inactive:
  assumes "hm_wf (rec_participants r)" and "only_device_of r p d"
    and "\<And>j. joined r p j \<Longrightarrow> \<not> still_open seq j"
  shows "author_status r d seq \<noteq> ActiveStatus"
proof
  assume "author_status r d seq = ActiveStatus"
  then obtain q j where "open_join r seq q j"
    "d \<in> set (jr_devices j) \<or> hm_get (rec_devices_in_force r) d = Some q"
    by (rule author_active [OF assms(1)])
  then show False
    using assms(2,3) unfolding open_join_def only_device_of_def by auto
qed

lemma leave_closes:
  assumes ok: "joins_ok r" "slots_ok C K r" and new: "slot_id r seq = None"
    and leave: "apply_leave r l seq = (r1, Inr ())" and j: "joined r1 (leave_person l) j" and "seq \<le> at_seq"
  shows "\<not> still_open at_seq j"
proof -
  obtain y where y: "joined r (leave_person l) y"
    "j = (if closes seq y then y\<lparr>jr_left_at := Some seq\<rparr> else y)"
    using j joined_leave [OF leave] by auto
  have below: "s < seq" if "slot_id r s \<noteq> None" for s
    using slots_dense [OF ok(2) that, of seq] new by (meson linorder_not_less)
  have within: "join_within (slot_id r) y" using ok(1) y(1) by (simp add: joins_ok_def)
  show ?thesis
  proof (cases "jr_left_at y")
    case None
    then show ?thesis
      using y(2) below within assms(6) by (simp add: closes_def join_within_def still_open_def)
  next
    case (Some s)
    then have "s < seq" using below within by (simp add: join_within_def)
    then show ?thesis using Some y(2) assms(6) by (simp add: closes_def still_open_def)
  qed
qed

section \<open>Content bodies ingest idempotently\<close>

text \<open>A body that changes neither membership nor devices.\<close>

fun is_content :: "body \<Rightarrow> bool" where
  "is_content (Message _) = True"
| "is_content (Reaction _) = True"
| "is_content (Attachment _) = True"
| "is_content (DropRequest _) = True"
| "is_content (Unknown _ _) = True"
| "is_content _ = False"

lemma content_not_membership: "is_content b \<Longrightarrow> \<not> is_membership b"
  by (cases b) auto

lemma apply_content: "is_content b \<Longrightarrow> apply_body r author seq b = (r1, Inr ()) \<Longrightarrow> r1 = r"
  by (cases b) (auto split: if_splits option.splits)

text \<open>The search for an id finds the same slot after an event is stored at a fresh seq, or
  at the seq that already has its id.\<close>

lemma find_update:
  assumes "map_of xs k \<in> {None, Some w}" and "P (k, v) = P (k, w)"
    and "find P xs = Some (s, u)"
  shows "map_option fst (find P (AList.update k v xs)) = Some s"
  using assms
proof (induction xs)
  case (Cons x xs)
  then show ?case by (cases x) (auto split: if_splits)
qed simp

lemma seq_of_store:
  assumes "\<not> seq_collision r seq (se_event_id ev)" and "seq_of r x = Some s"
    and "rec_slots r' = hm_insert seq (EventSlot ev) (rec_slots r)"
  shows "seq_of r' x = Some s"
proof -
  let ?P = "\<lambda>(_ :: u64, slot). slot_event_id slot = x"
  define w where "w = (case hm_get (rec_slots r) seq of None \<Rightarrow> EventSlot ev | Some w \<Rightarrow> w)"
  obtain u where find: "find ?P (rec_slots r) = Some (s, u)"
    using assms(2) by (auto simp: seq_of_def)
  have "hm_get (rec_slots r) seq \<in> {None, Some w}" "?P (seq, EventSlot ev) = ?P (seq, w)"
    using assms(1) by (auto simp: w_def seq_collision_def split: option.splits)
  then show ?thesis
    unfolding seq_of_def assms(3) using find by (rule find_update)
qed

text \<open>Admission does not read the slots, so storing an event does not change it.\<close>

lemma admit_author_cong:
  assumes "rec_participants r' = rec_participants r" "rec_revoked r' = rec_revoked r"
    "rec_devices_in_force r' = rec_devices_in_force r"
    "rec_device_add_windows r' = rec_device_add_windows r"
  shows "admit_author r' author seq now_ms b = admit_author r author seq now_ms b"
  unfolding admit_author_def author_status_def join_device_status_def assms by (rule refl)

lemma check_targets_store:
  assumes "\<not> seq_collision r seq (se_event_id ev)"
    and "rec_slots r' = hm_insert seq (EventSlot ev) (rec_slots r)"
    and "rec_devices_in_force r' = rec_devices_in_force r"
    and "person_or_self r (env_author (se_envelope ev)) = p"
  shows "check_targets r p ts = Inr () \<Longrightarrow> check_targets r' p ts = Inr ()"
proof (induction ts)
  case (Cons t ts)
  then obtain s x where s: "seq_of r t = Some s" "hm_get (rec_slots r) s = Some (EventSlot x)"
    "person_or_self r (env_author (se_envelope x)) = p" "check_targets r p ts = Inr ()"
    by (auto split: option.splits slot.splits if_splits)
  have "person_or_self r' = person_or_self r"
    using assms(3) by (simp add: fun_eq_iff person_or_self_def person_of_def)
  then show ?case
    using s Cons.IH seq_of_store [OF assms(1) s(1) assms(2)] assms(2,4)
    by (auto simp: hm_get_insert)
qed simp

lemma apply_content_again:
  assumes "is_content b" and "apply_body r author seq b = (r, Inr ())"
    and "\<not> seq_collision r seq (se_event_id ev)" and "env_author (se_envelope ev) = author"
    and "rec_slots r' = hm_insert seq (EventSlot ev) (rec_slots r)"
    and "rec_devices_in_force r' = rec_devices_in_force r"
  shows "apply_body r' author seq b = (r', Inr ())"
proof -
  have lower: "stored_at_lower_seq r x seq \<Longrightarrow> stored_at_lower_seq r' x seq" for x
    using seq_of_store [OF assms(3) _ assms(5)]
    by (auto simp: stored_at_lower_seq_def split: option.splits)
  have person: "person_or_self r' author = person_or_self r author"
    using assms(6) by (simp add: person_or_self_def person_of_def)
  show ?thesis
    using assms(1,2) lower check_targets_store [OF assms(3,5,6)] assms(4)
    by (cases b) (auto simp: check_drop_request_def person split: option.splits if_splits)
qed

lemma expected_prev_store:
  assumes "slot_id r' = (slot_id r)(seq \<mapsto> eid)"
    and "slot_id r seq \<in> {None, Some eid}" and "expected_prev r seq = Inr prev"
  shows "expected_prev r' seq = Inr prev"
  using assms by (auto simp: expected_prev_links split: if_splits)

lemma note_reaction_twice:
  "note_reaction (note_reaction r a b) a b = note_reaction r a b"
  by (auto simp: note_reaction_def split: body.splits)

lemma content_idempotent:
  assumes "is_content (se_body ev)" and step: "ingest_event r ev now_ms = (r', Inr eid)"
  shows "ingest_event r' ev now_ms = (r', Inr eid)"
proof -
  let ?e = "se_envelope ev"
  obtain r1 where eid: "eid = se_event_id ev"
    and visit: "env_visit ?e = rec_visit r" "rec_visit r \<noteq> zero32"
    and no: "\<not> seq_collision r (env_seq ?e) (se_event_id ev)"
    and prev: "expected_prev r (env_seq ?e) = Inr (env_prev ?e)"
    and admit: "admit_author r (env_author ?e) (env_seq ?e) now_ms (se_body ev) = Inr ()"
    and body: "apply_body r (env_author ?e) (env_seq ?e) (se_body ev) = (r1, Inr ())"
    and r': "r' = note_reaction
      (r1\<lparr>rec_slots := hm_insert (env_seq ?e) (EventSlot ev) (rec_slots r1)\<rparr>)
      (env_author ?e) (se_body ev)"
    using step by (rule ingest_event_accepted)
  have r1: "r1 = r" using apply_content [OF assms(1) body] .
  note ids = ingest_event_ids [OF step]
  have slots: "rec_slots r' = hm_insert (env_seq ?e) (EventSlot ev) (rec_slots r)"
    using ingest_event_slots [OF step] by simp
  have no': "\<not> seq_collision r' (env_seq ?e) (se_event_id ev)"
    using ids(1) by (simp add: seq_collision_iff)
  have prev': "expected_prev r' (env_seq ?e) = Inr (env_prev ?e)"
    using expected_prev_store [OF ids prev] .
  have admit': "admit_author r' (env_author ?e) (env_seq ?e) now_ms (se_body ev) = Inr ()"
    using admit by (subst admit_author_cong [of r' r]) (simp_all add: r' r1)
  have body': "apply_body r' (env_author ?e) (env_seq ?e) (se_body ev) = (r', Inr ())"
    using apply_content_again [OF assms(1) _ no _ slots] body by (simp add: r' r1)
  have "rec_slots r' = hm_insert (env_seq ?e) (EventSlot ev) (rec_slots r')"
    by (simp add: slots)
  then have same: "r'\<lparr>rec_slots := hm_insert (env_seq ?e) (EventSlot ev) (rec_slots r')\<rparr> = r'"
    by simp
  have "note_reaction r' (env_author ?e) (se_body ev) = r'"
    unfolding r' by (rule note_reaction_twice)
  then show ?thesis
    using visit no' prev' admit' body'
    by (simp add: ingest_event_def Let_def same r' [symmetric] eid) (simp add: r' r1)
qed

section \<open>What honouring a drop request leaves\<close>

definition tombstone_of :: "u64 \<Rightarrow> signed_event \<Rightarrow> slot" where
  "tombstone_of seq ev = TombSlot \<lparr>tomb_seq = seq, tomb_event_id = se_event_id ev\<rparr>"

definition dropped :: "recording \<Rightarrow> u64 set \<Rightarrow> u64 \<Rightarrow> slot option" where
  "dropped r S s =
     (case hm_get (rec_slots r) s of
        Some (EventSlot ev) \<Rightarrow> Some (if s \<in> S then tombstone_of s ev else EventSlot ev)
      | slot \<Rightarrow> slot)"

definition event_seqs :: "recording \<Rightarrow> u64 set" where
  "event_seqs r = {s. get_event r s \<noteq> None}"

lemma insert_tombstone_get:
  "get_event r s = Some ev \<Longrightarrow>
     hm_get (rec_slots (insert_tombstone r s (se_event_id ev))) x =
       (if x = s then Some (tombstone_of s ev) else hm_get (rec_slots r) x)"
  by (simp add: insert_tombstone_def tombstone_of_def hm_get_insert)

lemma event_seqs_tombstone:
  assumes "get_event r s = Some ev"
  shows "event_seqs (insert_tombstone r s (se_event_id ev)) = event_seqs r - {s}"
  by (auto simp: event_seqs_def get_event_slot insert_tombstone_get [OF assms] tombstone_of_def
      split: if_splits)

lemma finite_event_seqs [simp]: "finite (event_seqs r)"
proof (rule finite_subset)
  show "event_seqs r \<subseteq> dom (hm_get (rec_slots r))"
    by (auto simp: event_seqs_def get_event_slot)
qed (simp add: finite_dom_map_of)

lemma tombstone_slots_result:
  assumes "tombstone_slots r seqs n = (r', m)"
  shows "hm_get (rec_slots r') = dropped r (set seqs) \<and> m = n + card (set seqs \<inter> event_seqs r)"
  using assms
proof (induction r seqs n rule: tombstone_slots.induct)
  case (1 r count)
  then show ?case by (auto simp: dropped_def fun_eq_iff split: option.splits slot.splits)
next
  case (2 r s seqs count)
  show ?case
  proof (cases "get_event r s")
    case None
    then have "set (s # seqs) \<inter> event_seqs r = set seqs \<inter> event_seqs r"
      by (auto simp: event_seqs_def)
    moreover have "dropped r (set (s # seqs)) = dropped r (set seqs)"
      using None by (auto simp: dropped_def fun_eq_iff get_event_def split: option.splits slot.splits)
    ultimately show ?thesis using 2 None by simp
  next
    case (Some ev)
    let ?r = "insert_tombstone r s (se_event_id ev)"
    have IH: "hm_get (rec_slots r') = dropped ?r (set seqs)"
      "m = Suc count + card (set seqs \<inter> event_seqs ?r)"
      using 2 Some by auto
    have "dropped ?r (set seqs) = dropped r (set (s # seqs))"
      using Some
      by (auto simp: dropped_def fun_eq_iff insert_tombstone_get [OF Some] get_event_slot
          tombstone_of_def split: option.splits slot.splits)
    moreover have "set (s # seqs) \<inter> event_seqs r = insert s (set seqs \<inter> event_seqs ?r)"
      using Some by (auto simp: event_seqs_tombstone [OF Some]) (simp add: event_seqs_def)
    moreover have "s \<notin> set seqs \<inter> event_seqs ?r" by (simp add: event_seqs_tombstone [OF Some])
    ultimately show ?thesis using IH by simp
  qed
qed

lemma drop_seqs_visit:
  assumes "hm_wf (rec_slots r)" and "drop_scope d = 0"
  shows "set (drop_seqs r request_seq d) = event_seqs r - {request_seq}"
  using assms
  by (auto simp: drop_seqs_def event_seqs_def is_event_at_def get_event_slot
      dest: map_of_SomeD intro: rev_image_eqI)

lemma drop_seqs_targets:
  assumes "drop_scope d \<noteq> 0" and "drop_targets d = Some ids"
  shows "set (drop_seqs r request_seq d) = {s. \<exists>t \<in> set ids. seq_of r t = Some s}"
  using assms by (force simp: drop_seqs_def List.map_filter_def)

end
