(* ===== verification/Demo_Visit.thy ===== *)
theory Demo_Visit
  imports Demo Recording_Admission
begin

text \<open>
  A short visit, step by step: the host admits itself and a guest, the guest writes a
  message and asks for the visit to be dropped, and the host records that the guest left.
\<close>

definition demo_new :: recording where
  "demo_new = \<lparr>rec_visit = demo_visit, rec_host = demo_host, rec_slots = [], rec_participants = [],
     rec_revoked = [], rec_devices_in_force = [], rec_device_add_windows = [],
     rec_reactions_added = [], rec_broken = False\<rparr>"

lemma demo_new: "recording_new demo_visit demo_host = Inr demo_new"
  by (simp add: recording_new_def demo_new_def)

definition demo_e0 :: signed_event where
  "demo_e0 = demo_event demo_host 0 zero32 (demo_join demo_host)"

definition demo_e1 :: signed_event where
  "demo_e1 = demo_event demo_host 1 (se_event_id demo_e0) (demo_join demo_guest)"

definition demo_e2 :: signed_event where
  "demo_e2 = demo_event demo_guest 2 (se_event_id demo_e1) demo_message"

definition demo_e3 :: signed_event where
  "demo_e3 = demo_event demo_guest 3 (se_event_id demo_e2) demo_drop_all"

definition demo_e4 :: signed_event where
  "demo_e4 = demo_event demo_host 4 (se_event_id demo_e3) (demo_leave demo_guest)"

lemmas demo_events = demo_e0_def demo_e1_def demo_e2_def demo_e3_def demo_e4_def

lemma demo_id_length [simp]:
  "length (se_event_id demo_e0) = 32" "length (se_event_id demo_e1) = 32"
  "length (se_event_id demo_e2) = 32" "length (se_event_id demo_e3) = 32"
  "length (se_event_id demo_e4) = 32"
  by (simp_all add: demo_events)

lemma demo_fields [simp]:
  "env_visit (se_envelope demo_e0) = demo_visit" "env_visit (se_envelope demo_e1) = demo_visit"
  "env_visit (se_envelope demo_e2) = demo_visit" "env_visit (se_envelope demo_e3) = demo_visit"
  "env_visit (se_envelope demo_e4) = demo_visit"
  "env_author (se_envelope demo_e0) = demo_host" "env_author (se_envelope demo_e1) = demo_host"
  "env_author (se_envelope demo_e2) = demo_guest" "env_author (se_envelope demo_e3) = demo_guest"
  "env_author (se_envelope demo_e4) = demo_host"
  "env_seq (se_envelope demo_e0) = 0" "env_seq (se_envelope demo_e1) = 1"
  "env_seq (se_envelope demo_e2) = 2" "env_seq (se_envelope demo_e3) = 3"
  "env_seq (se_envelope demo_e4) = 4"
  "env_prev (se_envelope demo_e0) = zero32"
  "env_prev (se_envelope demo_e1) = se_event_id demo_e0"
  "env_prev (se_envelope demo_e2) = se_event_id demo_e1"
  "env_prev (se_envelope demo_e3) = se_event_id demo_e2"
  "env_prev (se_envelope demo_e4) = se_event_id demo_e3"
  "se_body demo_e0 = demo_join demo_host" "se_body demo_e1 = demo_join demo_guest"
  "se_body demo_e2 = demo_message" "se_body demo_e3 = demo_drop_all"
  "se_body demo_e4 = demo_leave demo_guest"
  by (simp_all add: demo_events)

lemma demo_parses [simp]:
  "parse_event rfc8949 demo_crypto (event_to_bytes demo_e0) = Inr demo_e0"
  "parse_event rfc8949 demo_crypto (event_to_bytes demo_e1) = Inr demo_e1"
  "parse_event rfc8949 demo_crypto (event_to_bytes demo_e2) = Inr demo_e2"
  "parse_event rfc8949 demo_crypto (event_to_bytes demo_e3) = Inr demo_e3"
  "parse_event rfc8949 demo_crypto (event_to_bytes demo_e4) = Inr demo_e4"
  using demo_id_length unfolding demo_events by (simp_all add: demo_parse)

abbreviation demo_ingest :: "recording \<Rightarrow> signed_event \<Rightarrow> recording \<times> (ingest_error + bytes)" where
  "demo_ingest r ev \<equiv> ingest rfc8949 demo_crypto r (event_to_bytes ev) 9"

definition demo_r1 :: recording where "demo_r1 = fst (demo_ingest demo_new demo_e0)"
definition demo_r2 :: recording where "demo_r2 = fst (demo_ingest demo_r1 demo_e1)"
definition demo_r3 :: recording where "demo_r3 = fst (demo_ingest demo_r2 demo_e2)"
definition demo_r4 :: recording where "demo_r4 = fst (demo_ingest demo_r3 demo_e3)"
definition demo_r5 :: recording where "demo_r5 = fst (demo_ingest demo_r4 demo_e4)"

lemmas demo_eval = ingest_def ingest_event_def Let_def seq_collision_def expected_prev_def
  admit_author_def demo_join_def demo_message_def demo_leave_def demo_drop_all_def
  note_reaction_def apply_join_def hm_or_insert_def author_status_def join_device_status_def
  still_open_def check_drop_request_def apply_leave_eq closes_def apply_body.simps

lemma demo_r1:
  "demo_r1 = demo_new\<lparr>rec_slots := [(0, EventSlot demo_e0)],
     rec_participants := [(demo_host, [\<lparr>jr_seq = 0, jr_devices = [demo_host], jr_left_at = None\<rparr>])],
     rec_devices_in_force := [(demo_host, demo_host)]\<rparr>"
  by (simp add: demo_r1_def demo_new_def demo_eval)

lemma demo_r2:
  "demo_r2 = demo_r1\<lparr>rec_slots := [(0, EventSlot demo_e0), (1, EventSlot demo_e1)],
     rec_participants :=
       [(demo_host, [\<lparr>jr_seq = 0, jr_devices = [demo_host], jr_left_at = None\<rparr>]),
        (demo_guest, [\<lparr>jr_seq = 1, jr_devices = [demo_guest], jr_left_at = None\<rparr>])],
     rec_devices_in_force := [(demo_host, demo_host), (demo_guest, demo_guest)]\<rparr>"
  by (simp add: demo_r2_def demo_r1 demo_new_def demo_eval)

lemma demo_r3:
  "demo_r3 = demo_r2\<lparr>rec_slots :=
     [(0, EventSlot demo_e0), (1, EventSlot demo_e1), (2, EventSlot demo_e2)]\<rparr>"
  by (simp add: demo_r3_def demo_r2 demo_r1 demo_new_def demo_eval)

lemma demo_r4:
  "demo_r4 = demo_r3\<lparr>rec_slots :=
     [(0, EventSlot demo_e0), (1, EventSlot demo_e1), (2, EventSlot demo_e2), (3, EventSlot demo_e3)]\<rparr>"
  by (simp add: demo_r4_def demo_r3 demo_r2 demo_r1 demo_new_def demo_eval)

lemma demo_r5:
  "demo_r5 = demo_r4\<lparr>rec_slots := rec_slots demo_r4 @ [(4, EventSlot demo_e4)],
     rec_participants :=
       [(demo_host, [\<lparr>jr_seq = 0, jr_devices = [demo_host], jr_left_at = None\<rparr>]),
        (demo_guest, [\<lparr>jr_seq = 1, jr_devices = [demo_guest], jr_left_at = Some 4\<rparr>])]\<rparr>"
  by (simp add: demo_r5_def demo_r4 demo_r3 demo_r2 demo_r1 demo_new_def demo_eval)

lemmas demo_states = demo_r1 demo_r2 demo_r3 demo_r4 demo_r5 demo_new_def

lemma demo_ingest0: "demo_ingest demo_new demo_e0 = (demo_r1, Inr (se_event_id demo_e0))"
  by (simp add: demo_r1_def prod_eq_iff) (simp add: demo_new_def demo_eval)

lemma demo_ingest1: "demo_ingest demo_r1 demo_e1 = (demo_r2, Inr (se_event_id demo_e1))"
  by (simp add: demo_r2_def prod_eq_iff) (simp add: demo_r1 demo_new_def demo_eval)

lemma demo_ingest2: "demo_ingest demo_r2 demo_e2 = (demo_r3, Inr (se_event_id demo_e2))"
  by (simp add: demo_r3_def prod_eq_iff) (simp add: demo_r2 demo_r1 demo_new_def demo_eval)

lemma demo_ingest3: "demo_ingest demo_r3 demo_e3 = (demo_r4, Inr (se_event_id demo_e3))"
  by (simp add: demo_r4_def prod_eq_iff) (simp add: demo_r3 demo_r2 demo_r1 demo_new_def demo_eval)

lemma demo_ingest4: "demo_ingest demo_r4 demo_e4 = (demo_r5, Inr (se_event_id demo_e4))"
  by (simp add: demo_r5_def prod_eq_iff) (simp add: demo_r4 demo_r3 demo_r2 demo_r1 demo_new_def demo_eval)

lemmas demo_ingests = demo_ingest0 demo_ingest1 demo_ingest2 demo_ingest3 demo_ingest4

lemmas demo_steps =
  step_ingest [OF demo_ingest0] step_ingest [OF demo_ingest1] step_ingest [OF demo_ingest2]
  step_ingest [OF demo_ingest3] step_ingest [OF demo_ingest4]

lemmas demo_reachable1 = reach_step [OF reach_new [OF demo_new] demo_steps(1)]
lemmas demo_reachable2 = reach_step [OF demo_reachable1 demo_steps(2)]
lemmas demo_reachable3 = reach_step [OF demo_reachable2 demo_steps(3)]
lemmas demo_reachable4 = reach_step [OF demo_reachable3 demo_steps(4)]
lemmas demo_reachable5 = reach_step [OF demo_reachable4 demo_steps(5)]

end
