(* ===== verification/Recording_Props.thy ===== *)
theory Recording_Props
  imports Demo_Visit
begin

text \<open>
  The properties of a visit's recording: its invariant, what rejection leaves, the
  append-only chain of event ids, and who may author.
\<close>

section \<open>Invariant and rejection\<close>

text \<open>C1: in every state that a recording reaches from \<open>Recording::new\<close> by ingesting any
  bytes at any clock and honouring any drop requests, every stored event is a verified event
  of this visit stored under its own seq, the slots are dense, every event names the id of
  the slot below it (R-13), every reply and reaction names the id of a lower slot (R-18,
  R-19), joins and leaves are by the host (R-25, R-28), every device in force belongs to a
  participant, and every device that a join names is in force or revoked.\<close>

theorem recording_invariant:
  assumes "minicbor_contract C" and "recording_reachable C K visit host r"
  shows "recording_ok C K r"
  using minicbor_contract.reachable_recording_ok [OF assms] .

theorem recording_invariant_witness: "recording_ok rfc8949 demo_crypto demo_r5"
  by (rule recording_invariant [OF rfc.minicbor_contract_axioms demo_reachable5])

text \<open>C28: a rejected event leaves the recording exactly as it was, whatever rule rejects it,
  except that \<open>Broken\<close> sets the broken flag and nothing else. The model works in place, so this
  says that every check, those of the body types and the flag that \<open>apply_leave\<close> reads after its
  loop included, fails before the recording differs from what it was.\<close>

theorem ingest_rejection_atomic:
  assumes "ingest C K r bs now_ms = (r', Inl e)"
  shows "r' = (if e = Broken then r\<lparr>rec_broken := True\<rparr> else r)"
  using assms by (rule ingest_rejected)

text \<open>The guest, who is not the host, records a join of its own: the branch of the body type fails.\<close>

definition demo_own_join :: signed_event where
  "demo_own_join = demo_event demo_guest 2 (se_event_id demo_e1) (demo_join demo_guest)"

lemma demo_own_join_fields:
  "env_visit (se_envelope demo_own_join) = demo_visit" "env_author (se_envelope demo_own_join) = demo_guest"
  "env_seq (se_envelope demo_own_join) = 2" "env_prev (se_envelope demo_own_join) = se_event_id demo_e1"
  "se_body demo_own_join = demo_join demo_guest"
  "parse_event rfc8949 demo_crypto (event_to_bytes demo_own_join) = Inr demo_own_join"
  using demo_id_length by (simp_all add: demo_own_join_def demo_parse)

lemma demo_wrong_author: "demo_ingest demo_r2 demo_own_join = (demo_r2, Inl JoinNotByHost)"
  by (simp add: demo_own_join_fields demo_r2 demo_r1 demo_new_def demo_eval)

theorem ingest_rejection_atomic_witness: "fst (demo_ingest demo_r2 demo_own_join) = demo_r2"
  using ingest_rejection_atomic [OF demo_wrong_author] demo_wrong_author by simp

text \<open>equivocation is detected and is terminal. An event of the visit whose seq already
  holds another id, or whose predecessor has another id than its \<open>prev\<close>, breaks the
  recording, and after that no bytes are accepted, whatever steps follow (R-13).\<close>

theorem equivocation_breaks:
  assumes "\<not> rec_broken r" and "parse_event C K bs = Inr ev"
    and "rec_visit r \<noteq> zero32" and "env_visit (se_envelope ev) = rec_visit r"
    and "slot_id r (env_seq (se_envelope ev)) = Some x \<and> x \<noteq> se_event_id ev \<or>
      env_seq (se_envelope ev) \<noteq> 0 \<and>
      slot_id r (env_seq (se_envelope ev) - 1) = Some y \<and> y \<noteq> env_prev (se_envelope ev)"
    and "(rec_step C K)\<^sup>*\<^sup>* (fst (ingest C K r bs now_ms)) r'"
  shows "ingest C K r bs now_ms = (r\<lparr>rec_broken := True\<rparr>, Inl Broken) \<and>
    ingest C K r' bs' now_ms' = (r', Inl AlreadyBroken)"
proof -
  have "ingest_event r ev now_ms = (r\<lparr>rec_broken := True\<rparr>, Inl Broken)"
    using assms(3-5)
    by (auto simp: ingest_event_def Let_def seq_collision_iff expected_prev_def slot_id_def
        split: option.splits)
  then have first: "ingest C K r bs now_ms = (r\<lparr>rec_broken := True\<rparr>, Inl Broken)"
    using assms(1,2) by (simp add: ingest_def)
  have "rec_broken r'"
    using steps_frame(2) [OF assms(6)] by (simp add: first)
  then show ?thesis
    using first by (simp add: ingest_def)
qed

lemma hd_demo_hash: "xs \<noteq> [] \<Longrightarrow> hd (demo_hash xs) = last xs"
  by (cases xs rule: rev_cases) (simp_all add: demo_hash_def)

lemma rfc_u32_nonempty [simp]: "enc_u32 rfc8949 c \<noteq> []"
  by (simp add: rfc8949_def rfc_head_def)

lemma hd_demo_id:
  "demo_body b \<Longrightarrow> hd (demo_id author seq prev b) =
     last (enc_u32 rfc8949 (of_nat (length (encode_known rfc8949 b))))"
  by (simp add: demo_id_def demo_event_def sign_event_def Let_def of_envelope_def demo_crypto_def
      demo_body_def hd_demo_hash envelope_to_cbor_def)

lemma demo_id_heads:
  "hd (se_event_id demo_e0) = 74" "hd (se_event_id demo_e1) = 74"
  "hd (se_event_id demo_e2) = 7" "hd (se_event_id demo_e3) = 5"
  by (simp_all add: demo_events hd_demo_id)
     (simp_all add: demo_join_def demo_message_def demo_drop_all_def rfc8949_def rfc_head_def
        enc_keys_def enc_key_opt_def type_values ascii_def)

lemma demo_e0_id: "se_event_id demo_e0 \<noteq> zero32"
  using demo_id_heads(1) by (auto simp: replicate_numeral)

theorem equivocation_breaks_witness:
  "ingest rfc8949 demo_crypto demo_r1
     (event_to_bytes (demo_event demo_host 1 zero32 demo_message)) 9 =
   (demo_r1\<lparr>rec_broken := True\<rparr>, Inl Broken)"
proof -
  let ?ev = "demo_event demo_host 1 zero32 demo_message"
  have parse: "parse_event rfc8949 demo_crypto (event_to_bytes ?ev) = Inr ?ev"
    by (rule demo_parse) simp_all
  have state: "\<not> rec_broken demo_r1" "rec_visit demo_r1 \<noteq> zero32"
    "env_visit (se_envelope ?ev) = rec_visit demo_r1"
    by (simp_all add: demo_r1 demo_new_def)
  have "env_seq (se_envelope ?ev) \<noteq> 0 \<and>
      slot_id demo_r1 (env_seq (se_envelope ?ev) - 1) = Some (se_event_id demo_e0) \<and>
      se_event_id demo_e0 \<noteq> env_prev (se_envelope ?ev)"
    using demo_e0_id by (simp add: demo_r1 slot_id_def)
  then show ?thesis
    using equivocation_breaks [OF state(1) parse state(2,3) disjI2 rtranclp.rtrancl_refl] by blast
qed

text \<open>the chain is append-only. No step changes or removes the id of a slot: an
  accepted event adds its own id at its own seq, and a drop request leaves every id in
  place.\<close>

theorem slot_ids_append_only:
  assumes "(rec_step C K)\<^sup>*\<^sup>* r r'"
  shows "slot_id r \<subseteq>\<^sub>m slot_id r'"
  using assms by (rule steps_frame(1))

theorem slot_ids_append_only_witness: "slot_id demo_r1 \<subseteq>\<^sub>m slot_id demo_r3"
  using slot_ids_append_only [OF converse_rtranclp_into_rtranclp [OF demo_steps(2) r_into_rtranclp
        [where r = "rec_step rfc8949 demo_crypto", OF demo_steps(3)]]] .

section \<open>Who may author\<close>

text \<open>C2: in a reachable recording an event other than a join or a leave is accepted only
  if its author is not revoked, is in force for a participant, holds a join that is still
  open at the event's seq (its own or the one of the person it is in force for), and, if a
  device-add granted it, is within the grant's window at the ingest clock (R-7, R-27, R-30,
  R-32, R-37).\<close>

theorem accepted_author_admitted:
  assumes "minicbor_contract C" and "recording_reachable C K visit host r"
    and "ingest C K r bs now_ms = (r', Inr eid)" and "parse_event C K bs = Inr ev"
    and "\<not> is_membership (se_body ev)" and "author = env_author (se_envelope ev)"
  shows "hm_get (rec_revoked r) author = None \<and>
    (\<exists>p. hm_get (rec_devices_in_force r) author = Some p \<and> hm_get (rec_participants r) p \<noteq> None) \<and>
    (\<exists>p j. open_join r (env_seq (se_envelope ev)) p j \<and>
      (author \<in> set (jr_devices j) \<or> hm_get (rec_devices_in_force r) author = Some p)) \<and>
    (case hm_get (rec_device_add_windows r) author of
       None \<Rightarrow> True | Some (nb, na) \<Rightarrow> device_add_grant_in_force nb na now_ms)"
proof -
  have ok: "maps_ok r" "members_ok r"
    using minicbor_contract.reachable_recording_ok [OF assms(1,2)] by (simp_all add: recording_ok_def)
  have "ingest_event r ev now_ms = (r', Inr eid)"
    using assms(3,4) by (auto elim: ingest_accepted)
  then have admit: "admit_author r author (env_seq (se_envelope ev)) now_ms (se_body ev) = Inr ()"
    unfolding assms(6) by (rule ingest_event_accepted)
  note adm = admitted [OF admit assms(5)]
  have "\<exists>p. hm_get (rec_devices_in_force r) author = Some p \<and> hm_get (rec_participants r) p \<noteq> None"
    using admitted_in_force [OF ok admit assms(5)] by blast
  moreover have "\<exists>p j. open_join r (env_seq (se_envelope ev)) p j \<and>
      (author \<in> set (jr_devices j) \<or> hm_get (rec_devices_in_force r) author = Some p)"
    using author_active [OF _ adm(1)] ok(1) unfolding maps_ok_def by metis
  ultimately show ?thesis
    using adm(2,3) by (auto split: option.splits)
qed

theorem accepted_author_admitted_witness: "\<exists>p j. open_join demo_r2 2 p j"
  using accepted_author_admitted [OF rfc.minicbor_contract_axioms demo_reachable2 demo_ingest2
      demo_parses(3) _ refl]
  by (simp add: demo_message_def) blast

text \<open>C3: a revocation is permanent. Once a device is revoked, no later state of the
  recording accepts an event that it authors, nor a device-add of it (R-36, R-37).\<close>

theorem revocation_permanent:
  assumes "hm_get (rec_revoked r) d \<noteq> None" and "(rec_step C K)\<^sup>*\<^sup>* r r'"
    and "ingest C K r' bs now_ms = (r'', Inr eid)" and "parse_event C K bs = Inr ev"
  shows "env_author (se_envelope ev) \<noteq> d \<and>
    (\<forall>a. se_body ev = DeviceAdd a \<longrightarrow> da_device a \<noteq> d)"
proof -
  have revoked: "hm_get (rec_revoked r') d \<noteq> None"
    using steps_frame(3) [OF assms(2)] assms(1) by blast
  have "ingest_event r' ev now_ms = (r'', Inr eid)"
    using assms(3,4) by (auto elim: ingest_accepted)
  then obtain r1 where
    admit: "admit_author r' (env_author (se_envelope ev)) (env_seq (se_envelope ev)) now_ms
      (se_body ev) = Inr ()"
    and body: "apply_body r' (env_author (se_envelope ev)) (env_seq (se_envelope ev)) (se_body ev) =
      (r1, Inr ())"
    by (rule ingest_event_accepted)
  then show ?thesis
    using admitted_not_revoked [OF admit] revoked by (auto simp: check_device_add_def)
qed

theorem revocation_permanent_witness: "env_author (se_envelope demo_e2) \<noteq> demo_host"
proof -
  let ?r = "demo_r2\<lparr>rec_revoked := [(demo_host, demo_guest)]\<rparr>"
  have "demo_ingest ?r demo_e2 =
      (demo_r3\<lparr>rec_revoked := [(demo_host, demo_guest)]\<rparr>, Inr (se_event_id demo_e2))"
    by (simp add: demo_r3 demo_r2 demo_r1 demo_new_def demo_eval)
  from revocation_permanent [OF _ rtranclp.rtrancl_refl this demo_parses(3), of demo_host]
  show ?thesis by simp
qed

text \<open>C29: once the host records that a person left, at a seq that was not recorded before,
  no device that only this person brought can author a message, reaction, attachment,
  device or drop-request event at that seq or any later one, in the state that the leave
  produced (R-30).\<close>

theorem leave_locks_out:
  assumes "minicbor_contract C" and "recording_reachable C K visit host r"
    and "ingest C K r bs now_ms = (r', Inr eid)" and "parse_event C K bs = Inr ev"
    and "se_body ev = Leave l" and "slot_id r (env_seq (se_envelope ev)) = None"
    and "only_device_of r' (leave_person l) d" and "env_seq (se_envelope ev) \<le> seq"
    and "\<not> is_membership b"
  shows "admit_author r' d seq now_ms' b \<noteq> Inr ()"
proof
  assume admit: "admit_author r' d seq now_ms' b = Inr ()"
  have slots: "slots_ok C K r"
    using minicbor_contract.reachable_recording_ok [OF assms(1,2)] by (simp add: recording_ok_def)
  have r': "recording_ok C K r'"
    using minicbor_contract.reachable_recording_ok [OF assms(1) reach_step [OF assms(2)
          step_ingest [OF assms(3)]]] .
  have "ingest_event r ev now_ms = (r', Inr eid)"
    using assms(3,4) by (auto elim: ingest_accepted)
  then obtain r1 where leave: "apply_leave r l (env_seq (se_envelope ev)) = (r1, Inr ())"
    and parts: "rec_participants r' = rec_participants r1"
    using assms(5) by (elim ingest_event_accepted) (auto split: if_splits)
  have "\<not> still_open seq j" if "joined r' (leave_person l) j" for j
    using leave_closes [OF reachable_joins_ok [OF assms(2)] slots assms(6) leave _ assms(8)] that
    by (simp add: joined_def parts)
  then have "author_status r' d seq \<noteq> ActiveStatus"
    using r' assms(7) by (intro closed_person_inactive) (auto simp: recording_ok_def maps_ok_def)
  then show False
    using admitted(1) [OF admit assms(9)] by simp
qed

theorem leave_locks_out_witness:
  "admit_author demo_r5 demo_guest 5 9 demo_message \<noteq> Inr ()"
  by (rule leave_locks_out [OF rfc.minicbor_contract_axioms demo_reachable4 demo_ingest4
        demo_parses(5), where l = "\<lparr>leave_person = demo_guest, leave_reason = 0\<rparr>"])
     (auto simp: demo_leave_def demo_message_def slot_id_def only_device_of_def joined_def demo_states
       split: if_splits)

section \<open>Repeated bytes and drop requests\<close>

text \<open>ingesting the bytes of a message, reaction, attachment, drop request or unknown
  body a second time is accepted with the same id and changes nothing at all.\<close>

theorem content_ingest_idempotent:
  assumes "ingest C K r bs now_ms = (r', Inr eid)" and "parse_event C K bs = Inr ev"
    and "is_content (se_body ev)"
  shows "ingest C K r' bs now_ms = (r', Inr eid)"
proof -
  have "\<not> rec_broken r" and step: "ingest_event r ev now_ms = (r', Inr eid)"
    using assms(1,2) by (auto elim: ingest_accepted)
  then obtain r1 where "apply_body r (env_author (se_envelope ev)) (env_seq (se_envelope ev))
      (se_body ev) = (r1, Inr ())" "rec_broken r' = rec_broken r1"
    by (elim ingest_event_accepted) simp
  with \<open>\<not> rec_broken r\<close> have "\<not> rec_broken r'" by (simp add: apply_body_frame)
  then show ?thesis
    using content_idempotent [OF assms(3) step] assms(2) by (simp add: ingest_def)
qed

theorem content_ingest_idempotent_witness:
  "demo_ingest demo_r3 demo_e2 = (demo_r3, Inr (se_event_id demo_e2))"
  by (rule content_ingest_idempotent [OF demo_ingest2 demo_parses(3)])
     (simp add: demo_message_def)

text \<open>honouring a stored drop request replaces exactly the dropped events by tombstones
  that hold only seq and id: for scope 0 every event but the request itself, otherwise the
  events that its targets name. Every other slot and every id stays, and the result is the
  number of slots that were replaced (R-41, R-50).\<close>

theorem honour_drop_request_result:
  assumes "minicbor_contract C" and "recording_reachable C K visit host r"
    and "honour_drop_request r request = (r', Inr n)"
  shows "slot_id r' = slot_id r \<and>
    (\<exists>rs ev d S. seq_of r request = Some rs \<and> get_event r rs = Some ev \<and>
       se_body ev = DropRequest d \<and>
       S = (if drop_scope d = 0 then event_seqs r - {rs}
            else {s. \<exists>t \<in> set (the (drop_targets d)). seq_of r t = Some s}) \<and>
       hm_get (rec_slots r') = dropped r S \<and> n = card (S \<inter> event_seqs r))"
proof -
  have ok: "slots_ok C K r" "hm_wf (rec_slots r)"
    using minicbor_contract.reachable_recording_ok [OF assms(1,2)]
    by (simp_all add: recording_ok_def maps_ok_def)
  obtain rs ev d where request: "seq_of r request = Some rs" "get_event r rs = Some ev"
    "se_body ev = DropRequest d" "tombstone_slots r (drop_seqs r rs d) 0 = (r', n)"
    using assms(3) by (rule honour_cases) auto
  have targets: "drop_targets d \<noteq> None \<or> drop_scope d = 0"
  proof -
    have "body_ok (se_body ev)"
      using ok(1) request(2) by (simp add: slots_ok_def event_stored_ok_def event_ok_def)
    then show ?thesis by (auto simp: request(3))
  qed
  have "set (drop_seqs r rs d) = (if drop_scope d = 0 then event_seqs r - {rs}
      else {s. \<exists>t \<in> set (the (drop_targets d)). seq_of r t = Some s})"
    using drop_seqs_visit [OF ok(2)] drop_seqs_targets targets by auto
  then show ?thesis
    using request tombstone_slots_result [OF request(4)] honour_ids [OF assms(3)] by auto
qed

text \<open>a join whose bytes arrive again is accepted again and opens a second join record,
  so every device it names is an active author from the join's seq on, also after the host
  recorded that the person left: a repeated ingest undoes a leave (R-30).\<close>

theorem replayed_join_readmits:
  assumes "minicbor_contract C" and "recording_reachable C K visit host r"
    and "\<not> rec_broken r" and "parse_event C K bs = Inr ev"
    and "get_event r (env_seq (se_envelope ev)) = Some ev"
    and "se_body ev = Join j" and "d \<in> set (join_devices j)"
    and "hm_get (rec_revoked r) (rec_host r) = None"
    and "env_seq (se_envelope ev) \<le> seq"
  shows "\<exists>r'. ingest C K r bs now_ms = (r', Inr (se_event_id ev)) \<and>
    author_status r' d seq = ActiveStatus"
proof -
  let ?e = "se_envelope ev"
  have ok: "recording_ok C K r"
    using minicbor_contract.reachable_recording_ok [OF assms(1,2)] .
  then have stored: "event_stored_ok C K r (env_seq ?e) ev" "links_ok (slot_id r) (env_seq ?e) ev"
    using assms(5) by (auto simp: recording_ok_def slots_ok_def)
  then have e: "env_visit ?e = rec_visit r" "rec_visit r \<noteq> zero32" "env_author ?e = rec_host r"
    using ok assms(6) by (auto simp: event_stored_ok_def recording_ok_def)
  have "expected_prev r (env_seq ?e) = Inr (env_prev ?e)"
    using stored(2) by (auto simp: links_ok_def expected_prev_links)
  moreover have "\<not> seq_collision r (env_seq ?e) (se_event_id ev)"
    using get_event_slot_id [OF assms(5)] by (simp add: seq_collision_iff)
  ultimately obtain r' where r': "ingest C K r bs now_ms = (r', Inr (se_event_id ev))"
    "rec_participants r' = rec_participants (apply_join r j (env_seq ?e))"
    using assms(3,4,6,8) e
    by (auto simp: ingest_def ingest_event_def Let_def admit_author_def apply_body.simps)
  then have joined: "joined r' (join_person j)
      \<lparr>jr_seq = env_seq ?e, jr_devices = join_devices j, jr_left_at = None\<rparr>"
    using joined_apply_join [of r j "env_seq ?e"] by (simp add: joined_def)
  have "hm_wf (rec_participants r')"
    using r'(2) ok by (simp add: apply_join_def Let_def recording_ok_def maps_ok_def)
  then have "join_device_status r' d seq = Some ActiveStatus"
    unfolding join_device_status_def scan_joins_active
    unfolding Bex_def all_joins [OF \<open>hm_wf (rec_participants r')\<close>]
    using joined assms(7,9)
    by (intro exI [of _ "\<lparr>jr_seq = env_seq ?e, jr_devices = join_devices j, jr_left_at = None\<rparr>"])
       (auto simp: still_open_def)
  then show ?thesis using r'(1) by (simp add: author_status_def)
qed

theorem replayed_join_readmits_witness:
  "author_status demo_r5 demo_guest 5 = LeftStatus \<and>
   (\<exists>r'. demo_ingest demo_r5 demo_e1 = (r', Inr (se_event_id demo_e1)) \<and>
     author_status r' demo_guest 5 = ActiveStatus)"
proof
  show "author_status demo_r5 demo_guest 5 = LeftStatus"
    by (simp add: author_status_def join_device_status_def still_open_def demo_states)
  show "\<exists>r'. demo_ingest demo_r5 demo_e1 = (r', Inr (se_event_id demo_e1)) \<and>
     author_status r' demo_guest 5 = ActiveStatus"
    by (rule replayed_join_readmits [OF rfc.minicbor_contract_axioms demo_reachable5 _ demo_parses(2),
          where j = "\<lparr>join_person = demo_guest, join_devices = [demo_guest], join_name = None\<rparr>"])
       (simp_all add: demo_states get_event_def demo_join_def)
qed

text \<open>an accepted event is what its slot holds afterwards, also where the slot held the
  tombstone of the same id: bytes that arrive again after a drop request was honoured bring
  the dropped event back (R-41, R-50).\<close>

theorem accepted_event_stored:
  assumes "ingest C K r bs now_ms = (r', Inr eid)" and "parse_event C K bs = Inr ev"
  shows "eid = se_event_id ev \<and> get_event r' (env_seq (se_envelope ev)) = Some ev \<and>
    (\<forall>s. s \<noteq> env_seq (se_envelope ev) \<longrightarrow> hm_get (rec_slots r') s = hm_get (rec_slots r) s)"
proof -
  have step: "ingest_event r ev now_ms = (r', Inr eid)"
    using assms by (auto elim: ingest_accepted)
  then have "eid = se_event_id ev" by (rule ingest_event_accepted)
  then show ?thesis
    using ingest_event_slots(1) [OF step] by (simp add: get_event_slot hm_get_insert)
qed

definition demo_r4_honoured :: recording where
  "demo_r4_honoured = demo_r4\<lparr>rec_slots :=
     [(0, tombstone_of 0 demo_e0), (1, tombstone_of 1 demo_e1), (2, tombstone_of 2 demo_e2),
      (3, EventSlot demo_e3)]\<rparr>"

lemma demo_reingest:
  "demo_ingest demo_r4_honoured demo_e2 =
     (demo_r4_honoured\<lparr>rec_slots :=
       [(0, tombstone_of 0 demo_e0), (1, tombstone_of 1 demo_e1), (2, EventSlot demo_e2),
        (3, EventSlot demo_e3)]\<rparr>, Inr (se_event_id demo_e2))"
  by (simp add: demo_r4_honoured_def tombstone_of_def demo_states demo_eval)

theorem accepted_event_stored_witness:
  "get_event demo_r4_honoured 2 = None \<and>
   get_event (fst (demo_ingest demo_r4_honoured demo_e2)) 2 = Some demo_e2"
  using accepted_event_stored [OF demo_reingest demo_parses(3)]
  by (simp add: demo_reingest) (simp add: demo_r4_honoured_def get_event_def tombstone_of_def)

lemma demo_seq_of: "seq_of demo_r4 (se_event_id demo_e3) = Some 3"
proof -
  have "se_event_id demo_e0 \<noteq> se_event_id demo_e3" "se_event_id demo_e1 \<noteq> se_event_id demo_e3"
    "se_event_id demo_e2 \<noteq> se_event_id demo_e3"
    using demo_id_heads by auto
  then show ?thesis by (simp add: seq_of_def demo_states)
qed

lemma demo_honour:
  "honour_drop_request demo_r4 (se_event_id demo_e3) = (demo_r4_honoured, Inr 3)"
  unfolding honour_drop_request_def demo_seq_of
  by (simp add: get_event_def demo_states demo_drop_all_def drop_seqs_def is_event_at_def
      insert_tombstone_def demo_r4_honoured_def tombstone_of_def)

theorem honour_drop_request_result_witness:
  "slot_id demo_r4_honoured = slot_id demo_r4"
  using honour_drop_request_result [OF rfc.minicbor_contract_axioms demo_reachable4 demo_honour]
  by blast

end
