(* ===== verification/View.thy ===== *)
theory View
  imports Recording_Admission "HOL-Library.Product_Lexorder" "HOL-Library.Multiset"
begin

text \<open>
  Views (\<open>view/mod.rs\<close>): a visit's section, the page of a contact and the pages of the
  participant sets, computed from recordings alone. Keys compare as byte strings and pairs
  lexicographically, as the derived \<open>Ord\<close> of arrays, vectors and tuples does.
\<close>

section \<open>Data\<close>

definition DROPPED_MARKER :: string where
  "DROPPED_MARKER = ''dropped at their request''"

datatype rendered_body = Readable body | Unreadable u64 bytes

datatype view_entry =
    EventEntry u64 bytes u64 bytes rendered_body
  | DroppedEntry u64 bytes

fun entry_seq :: "view_entry \<Rightarrow> u64" where
  "entry_seq (EventEntry seq _ _ _ _) = seq"
| "entry_seq (DroppedEntry seq _) = seq"

fun dropped_marker :: "view_entry \<Rightarrow> string option" where
  "dropped_marker (DroppedEntry _ _) = Some DROPPED_MARKER"
| "dropped_marker (EventEntry _ _ _ _ _) = None"

record visit_section_view =
  vs_visit :: bytes
  vs_host :: bytes
  vs_opened_ms :: u64
  vs_participants :: "bytes list"
  vs_entries :: "view_entry list"

record contact_page =
  cv_person :: bytes
  cv_sections :: "visit_section_view list"

record group_page =
  gv_participants :: "bytes list"
  gv_sections :: "visit_section_view list"

section \<open>One visit\<close>

fun render_body :: "body \<Rightarrow> rendered_body" where
  "render_body (Unknown tv raw) = Unreadable tv raw"
| "render_body known = Readable known"

text \<open>The range \<open>min..=max\<close>.\<close>

definition seqs_between :: "u64 \<Rightarrow> u64 \<Rightarrow> u64 list" where
  "seqs_between lo hi = map of_nat [unat lo ..< Suc (unat hi)]"

definition view_entry_at :: "recording \<Rightarrow> u64 \<Rightarrow> view_entry list" where
  "view_entry_at r seq =
     (case get_event r seq of
        Some ev \<Rightarrow>
          [EventEntry seq (env_author (se_envelope ev)) (env_ts_ms (se_envelope ev))
            (se_event_id ev) (render_body (se_body ev))]
      | None \<Rightarrow>
          (case tombstone_at r seq of
             Some t \<Rightarrow> [DroppedEntry seq (tomb_event_id t)]
           | None \<Rightarrow> []))"

definition opened_at :: "recording \<Rightarrow> u64" where
  "opened_at r = (case get_event r 0 of Some ev \<Rightarrow> env_ts_ms (se_envelope ev) | None \<Rightarrow> 0)"

definition visit_section :: "recording \<Rightarrow> visit_section_view" where
  "visit_section r =
     \<lparr>vs_visit = rec_visit r, vs_host = rec_host r, vs_opened_ms = opened_at r,
      vs_participants = participant_keys r,
      vs_entries =
        (case seq_range r of
           None \<Rightarrow> []
         | Some (lo, hi) \<Rightarrow> concat (map (view_entry_at r) (seqs_between lo hi)))\<rparr>"

section \<open>Pages\<close>

definition section_order_key :: "visit_section_view \<Rightarrow> u64 \<times> bytes" where
  "section_order_key s = (vs_opened_ms s, vs_visit s)"

definition contact_view :: "recording list \<Rightarrow> bytes \<Rightarrow> contact_page" where
  "contact_view recordings person =
     \<lparr>cv_person = person,
      cv_sections = sort_key section_order_key
        (map visit_section (filter (\<lambda>r. person \<in> set (participant_keys r)) recordings))\<rparr>"

text \<open>\<open>BTreeMap\<close>: \<open>entry(key).or_default().push(section)\<close> on an ordered association list.\<close>

fun bt_push :: "'k::linorder \<Rightarrow> 'a \<Rightarrow> ('k \<times> 'a list) list \<Rightarrow> ('k \<times> 'a list) list" where
  "bt_push k x [] = [(k, [x])]"
| "bt_push k x ((k', xs) # m) =
     (if k < k' then (k, [x]) # (k', xs) # m
      else if k = k' then (k, xs @ [x]) # m
      else (k', xs) # bt_push k x m)"

fun group_map :: "recording list \<Rightarrow> (bytes list \<times> visit_section_view list) list \<Rightarrow>
    (bytes list \<times> visit_section_view list) list" where
  "group_map [] groups = groups"
| "group_map (r # rs) groups =
     group_map rs (bt_push (participant_keys r) (visit_section r) groups)"

definition group_views :: "recording list \<Rightarrow> group_page list" where
  "group_views recordings =
     map (\<lambda>(participants, sections).
            \<lparr>gv_participants = participants,
             gv_sections = sort_key section_order_key sections\<rparr>)
       (group_map recordings [])"

section \<open>The order of a hash map does not show (R-48)\<close>

text \<open>Recordings that differ only in the order of their maps.\<close>

definition rec_equiv :: "recording \<Rightarrow> recording \<Rightarrow> bool" where
  "rec_equiv r r' \<longleftrightarrow>
     maps_ok r \<and> maps_ok r' \<and> rec_visit r = rec_visit r' \<and> rec_host r = rec_host r' \<and>
     hm_get (rec_slots r) = hm_get (rec_slots r') \<and>
     hm_get (rec_participants r) = hm_get (rec_participants r')"

lemma sorted_keys:
  assumes "hm_wf m"
  shows "sort (map fst m) = sorted_list_of_set (dom (hm_get m))"
  using assms by (simp add: hm_wf_def sorted_list_of_set_sort_remdups dom_map_of_conv_image_fst
      distinct_remdups_id flip: set_map)

lemma remdups_adj_distinct: "distinct xs \<Longrightarrow> remdups_adj xs = xs"
  by (induction xs rule: remdups_adj.induct) auto

lemma participant_keys_sorted:
  assumes "maps_ok r"
  shows "participant_keys r = sorted_list_of_set (dom (hm_get (rec_participants r)))"
proof -
  have wf: "hm_wf (rec_participants r)" using assms by (simp add: maps_ok_def)
  then have "distinct (sort (map fst (rec_participants r)))" by (simp add: hm_wf_def)
  then show ?thesis
    by (simp add: participant_keys_def remdups_adj_distinct sorted_keys [OF wf])
qed

lemma fold_min: "fold min xs (x :: 'a::linorder) = Min (set (x # xs))"
  by (simp only: Min.set_eq_fold)

lemma fold_max: "fold max xs (x :: 'a::linorder) = Max (set (x # xs))"
  by (simp only: Max.set_eq_fold)

lemma seq_range_dom:
  "seq_range r =
     (let D = dom (hm_get (rec_slots r)) in if D = {} then None else Some (Min D, Max D))"
  by (cases "rec_slots r")
     (simp_all add: seq_range_def Let_def fold_min fold_max dom_map_of_conv_image_fst del: fun_upd_apply)

lemma visit_section_equiv:
  assumes "rec_equiv r r'"
  shows "visit_section r = visit_section r'"
proof -
  have "get_event r = get_event r'" "tombstone_at r = tombstone_at r'"
    using assms by (simp_all add: rec_equiv_def fun_eq_iff get_event_def tombstone_at_def)
  note eq = this
  have "view_entry_at r = view_entry_at r'" "opened_at r = opened_at r'"
    unfolding view_entry_at_def [abs_def] opened_at_def eq by (rule refl)+
  moreover have "seq_range r = seq_range r'"
    using assms by (simp add: seq_range_dom rec_equiv_def)
  moreover have "participant_keys r = participant_keys r'"
    using assms by (simp add: participant_keys_sorted rec_equiv_def)
  ultimately have same: "view_entry_at r = view_entry_at r'" "opened_at r = opened_at r'"
    "seq_range r = seq_range r'" "participant_keys r = participant_keys r'"
    "rec_visit r = rec_visit r'" "rec_host r = rec_host r'"
    using assms by (simp_all add: rec_equiv_def)
  show ?thesis unfolding visit_section_def same by (rule refl)
qed

section \<open>The entries of a section\<close>

lemma seqs_between_set: "set (seqs_between lo hi) = {lo..hi}"
proof -
  have "x \<in> {lo..hi} \<Longrightarrow> x \<in> of_nat ` {unat lo..<Suc (unat hi)}" for x
    by (rule image_eqI [of _ _ "unat x"]) (auto simp: word_le_nat_alt)
  moreover have "n \<le> unat hi \<Longrightarrow> unat (of_nat n :: u64) = n" for n
    using unat_u64 [of hi] by (simp add: unat_of_nat)
  then have "of_nat ` {unat lo..<Suc (unat hi)} \<subseteq> {lo..hi}"
    by (auto simp: word_le_nat_alt)
  ultimately have "{lo..hi} = of_nat ` {unat lo..<Suc (unat hi)}" by blast
  then show ?thesis
    by (simp only: seqs_between_def set_map set_upt)
qed

lemma seqs_between_sorted: "sorted_wrt (<) (seqs_between lo hi)"
proof -
  have "m < n \<Longrightarrow> n \<le> unat hi \<Longrightarrow> (of_nat m :: u64) < of_nat n" for m n
    using unat_u64 [of hi] by (simp add: word_less_nat_alt unat_of_nat)
  then show ?thesis
    unfolding seqs_between_def sorted_wrt_map
    by (intro sorted_wrt_mono_rel [OF _ sorted_wrt_upt]) auto
qed

lemma view_entry_at_empty: "view_entry_at r s = [] \<longleftrightarrow> s \<notin> dom (hm_get (rec_slots r))"
  by (auto simp: view_entry_at_def get_event_def tombstone_at_def split: option.splits slot.splits)

lemma view_entry_at_seqs:
  "map entry_seq (view_entry_at r s) = (if s \<in> dom (hm_get (rec_slots r)) then [s] else [])"
  by (auto simp: view_entry_at_def get_event_def tombstone_at_def split: option.splits slot.splits)

lemma entries_seqs:
  "map entry_seq (concat (map (view_entry_at r) ss)) =
     filter (\<lambda>s. s \<in> dom (hm_get (rec_slots r))) ss"
  by (induction ss) (simp_all add: view_entry_at_seqs)

lemma finite_slots [simp]: "finite (dom (hm_get (rec_slots r)))"
  by (rule finite_dom_map_of)

lemma sorted_list_unique:
  "sorted_wrt (<) xs \<Longrightarrow> set xs = A \<Longrightarrow> xs = sorted_list_of_set (A :: 'a::linorder set)"
  by (metis sorted_list_of_set.idem_if_sorted_distinct strict_sorted_iff)

lemma visit_section_seqs:
  "map entry_seq (vs_entries (visit_section r)) = sorted_list_of_set (dom (hm_get (rec_slots r)))"
proof -
  define D where "D = dom (hm_get (rec_slots r))"
  have fin: "finite D" by (simp add: D_def)
  show ?thesis
  proof (cases "D = {}")
    case True
    then show ?thesis by (simp add: visit_section_def seq_range_dom flip: D_def)
  next
    case False
    let ?ss = "filter (\<lambda>s. s \<in> D) (seqs_between (Min D) (Max D))"
    have "sorted_wrt (<) ?ss"
      using seqs_between_sorted by (rule sorted_wrt_filter)
    moreover have "set ?ss = D"
      using fin by (auto simp: seqs_between_set)
    ultimately have "?ss = sorted_list_of_set D" by (rule sorted_list_unique)
    then show ?thesis
      using False by (simp add: visit_section_def seq_range_dom Let_def entries_seqs flip: D_def)
  qed
qed

lemma visit_section_entries:
  "set (vs_entries (visit_section r)) = (\<Union>s. set (view_entry_at r s))"
proof -
  define D where "D = dom (hm_get (rec_slots r))"
  have fin: "finite D" by (simp add: D_def)
  have out: "s \<notin> D \<Longrightarrow> view_entry_at r s = []" for s
    by (simp add: view_entry_at_empty D_def)
  show ?thesis
  proof (cases "D = {}")
    case True
    then show ?thesis by (simp add: visit_section_def seq_range_dom out flip: D_def)
  next
    case False
    have range: "x \<in> set (view_entry_at r s) \<Longrightarrow> s \<in> {Min D..Max D}" for x s
      using out [of s] fin by (cases "s \<in> D") auto
    have "vs_entries (visit_section r) = concat (map (view_entry_at r) (seqs_between (Min D) (Max D)))"
      using False by (simp add: visit_section_def seq_range_dom Let_def flip: D_def)
    then show ?thesis using range by (force simp: seqs_between_set)
  qed
qed

section \<open>Pages do not depend on the order of recordings\<close>

definition house_equiv :: "recording list \<Rightarrow> recording list \<Rightarrow> bool" where
  "house_equiv rs rs' \<longleftrightarrow>
     distinct (map rec_visit rs) \<and> (\<exists>rs''. mset rs'' = mset rs' \<and> list_all2 rec_equiv rs rs'')"

lemma equiv_sections:
  assumes "house_equiv rs rs'"
  shows "mset (map (\<lambda>r. (participant_keys r, visit_section r)) rs) =
    mset (map (\<lambda>r. (participant_keys r, visit_section r)) rs')"
proof -
  obtain rs'' where perm: "mset rs'' = mset rs'" and equiv: "list_all2 rec_equiv rs rs''"
    using assms by (auto simp: house_equiv_def)
  have "map (\<lambda>r. (participant_keys r, visit_section r)) rs =
      map (\<lambda>r. (participant_keys r, visit_section r)) rs''"
    using equiv
  proof (induction rule: list_all2_induct)
    case (Cons x xs y ys)
    moreover from Cons(1) have "participant_keys x = participant_keys y"
      by (simp add: participant_keys_sorted rec_equiv_def)
    ultimately show ?case using visit_section_equiv by simp
  qed simp
  then have "mset (map (\<lambda>r. (participant_keys r, visit_section r)) rs) =
      image_mset (\<lambda>r. (participant_keys r, visit_section r)) (mset rs'')"
    by (simp only: mset_map)
  then show ?thesis by (simp add: perm)
qed

lemma sections_unique:
  assumes "distinct (map rec_visit rs)"
  shows "inj_on section_order_key (visit_section ` set rs)"
  using assms
  by (auto simp: inj_on_def section_order_key_def visit_section_def distinct_map)

lemma sort_sections_perm:
  assumes "mset xs = mset ys" and "inj_on section_order_key (set xs)"
  shows "sort_key section_order_key xs = sort_key section_order_key ys"
proof (rule sort_key_inj_key_eq)
  show "mset xs = mset (sort_key section_order_key ys)" using assms(1) by simp
qed (use assms(2) in simp_all)

definition pages :: "recording list \<Rightarrow> (bytes list \<times> visit_section_view) list" where
  "pages rs = map (\<lambda>r. (participant_keys r, visit_section r)) rs"

definition page_sections ::
  "(bytes list \<Rightarrow> bool) \<Rightarrow> (bytes list \<times> visit_section_view) list \<Rightarrow> visit_section_view list" where
  "page_sections P ps = map snd (filter (\<lambda>p. P (fst p)) ps)"

lemma contact_pages:
  "cv_sections (contact_view rs person) =
     sort_key section_order_key (page_sections (\<lambda>k. person \<in> set k) (pages rs))"
  by (simp add: contact_view_def pages_def page_sections_def filter_map comp_def)

lemma page_sections_perm:
  assumes "house_equiv rs rs'"
  shows "sort_key section_order_key (page_sections P (pages rs)) =
    sort_key section_order_key (page_sections P (pages rs'))"
proof (rule sort_sections_perm)
  show "mset (page_sections P (pages rs)) = mset (page_sections P (pages rs'))"
    using equiv_sections [OF assms] by (simp add: page_sections_def pages_def mset_filter)
  have "set (page_sections P (pages rs)) \<subseteq> visit_section ` set rs"
    by (auto simp: page_sections_def pages_def)
  then show "inj_on section_order_key (set (page_sections P (pages rs)))"
    using sections_unique assms by (metis house_equiv_def inj_on_subset)
qed

section \<open>The ordered map of groups\<close>

lemma bt_push_keys: "set (map fst (bt_push k x m)) = insert k (set (map fst m))"
  by (induction k x m rule: bt_push.induct) auto

lemma bt_push_sorted: "sorted_wrt (<) (map fst m) \<Longrightarrow> sorted_wrt (<) (map fst (bt_push k x m))"
proof (induction k x m rule: bt_push.induct)
  case (2 k x k' xs m)
  consider "k < k'" | "k = k'" | "k' < k" by (rule linorder_cases)
  then show ?case
  proof cases
    case 3
    then have "sorted_wrt (<) (map fst (bt_push k x m))" using 2 by simp
    moreover have "\<forall>y \<in> set (map fst (bt_push k x m)). k' < y"
      unfolding bt_push_keys using 2(2) 3 by auto
    moreover have "\<not> k < k'" "k \<noteq> k'" using 3 by auto
    ultimately show ?thesis by simp
  qed (use 2(2) in auto)
qed simp

lemma bt_push_get:
  "sorted_wrt (<) (map fst m) \<Longrightarrow>
     map_of (bt_push k x m) k' =
       (if k' = k then Some ((case map_of m k of None \<Rightarrow> [] | Some xs \<Rightarrow> xs) @ [x]) else map_of m k')"
proof (induction k x m rule: bt_push.induct)
  case (2 k x k1 xs m)
  have "k < k1 \<Longrightarrow> map_of m k = None"
    using 2(2) by (fastforce simp: map_of_eq_None_iff)
  then show ?case using 2 by auto
qed simp

definition group_of :: "(bytes list \<times> visit_section_view list) list \<Rightarrow> bytes list \<Rightarrow>
    visit_section_view list" where
  "group_of m k = (case map_of m k of None \<Rightarrow> [] | Some xs \<Rightarrow> xs)"

lemma group_map_result:
  assumes "sorted_wrt (<) (map fst m)"
  shows "sorted_wrt (<) (map fst (group_map rs m)) \<and>
    set (map fst (group_map rs m)) = set (map fst m) \<union> participant_keys ` set rs \<and>
    (\<forall>k. group_of (group_map rs m) k = group_of m k @ page_sections (\<lambda>k'. k' = k) (pages rs))"
  using assms
proof (induction rs m rule: group_map.induct)
  case (1 m)
  then show ?case by (simp add: page_sections_def pages_def)
next
  case (2 r rs m)
  let ?m = "bt_push (participant_keys r) (visit_section r) m"
  have "group_of ?m k = group_of m k @ (if participant_keys r = k then [visit_section r] else [])" for k
    using bt_push_get [OF 2(2)] by (simp add: group_of_def)
  then show ?case
    using 2(1) [OF bt_push_sorted [OF 2(2)]] bt_push_keys [of "participant_keys r" _ m]
    by (simp add: page_sections_def pages_def Un_assoc)
qed

lemma group_views_keys:
  "map gv_participants (group_views rs) = sorted_list_of_set (participant_keys ` set rs)"
proof -
  have "map gv_participants (group_views rs) = map fst (group_map rs [])"
    by (auto simp: group_views_def)
  moreover have "map fst (group_map rs []) = sorted_list_of_set (participant_keys ` set rs)"
    by (rule sorted_list_unique) (use group_map_result [of "[]" rs] in simp_all)
  ultimately show ?thesis by simp
qed

lemma group_views_pages:
  "group_views rs =
     map (\<lambda>k. \<lparr>gv_participants = k,
       gv_sections = sort_key section_order_key (page_sections (\<lambda>k'. k' = k) (pages rs))\<rparr>)
       (sorted_list_of_set (participant_keys ` set rs))"
proof -
  let ?m = "group_map rs []"
  have res: "sorted_wrt (<) (map fst ?m)"
    "group_of ?m k = page_sections (\<lambda>k'. k' = k) (pages rs)" for k
    using group_map_result [of "[]" rs] by (simp_all add: group_of_def)
  have "distinct (map fst ?m)" using res(1) strict_sorted_iff by blast
  then have "(k, xs) \<in> set ?m \<Longrightarrow> xs = page_sections (\<lambda>k'. k' = k) (pages rs)" for k xs
    using res(2) [of k] by (simp add: group_of_def)
  then have "group_views rs = map (\<lambda>k. \<lparr>gv_participants = k,
       gv_sections = sort_key section_order_key (page_sections (\<lambda>k'. k' = k) (pages rs))\<rparr>) (map fst ?m)"
    by (auto simp: group_views_def)
  moreover have "map fst ?m = map gv_participants (group_views rs)"
    by (auto simp: group_views_def)
  ultimately show ?thesis by (simp add: group_views_keys)
qed

lemma equiv_keys:
  assumes "house_equiv rs rs'"
  shows "participant_keys ` set rs = participant_keys ` set rs'"
proof -
  have "set (pages rs) = set (pages rs')"
    using equiv_sections [OF assms] unfolding pages_def by (rule mset_eq_setD)
  then have "fst ` set (pages rs) = fst ` set (pages rs')" by simp
  then show ?thesis by (simp add: pages_def image_image)
qed

end
