(* ===== verification/Store.thy ===== *)
theory Store
  imports Prelude
begin

text \<open>
  The store (\<open>store.rs\<close>): the tables of one house's database with the statements that the
  code runs on them. A table is a map from its primary key to the other columns, in row
  order. A \<open>u64\<close> is written \<open>as i64\<close>, so a column holds the same 64 bits and
  \<open>ORDER BY\<close> compares them as signed integers. The engine (SQLCipher), the files, the lock
  and the derivation of keys are not under verification: \<open>store_open\<close> takes what they
  report as arguments.
\<close>

section \<open>Tables\<close>

record visit_cols =
  vc_opened_ms :: u64
  vc_closed_ms :: "u64 option"
  vc_private :: bool
  vc_host :: bytes
  vc_close_reason :: "u64 option"

record participant_cols =
  pc_joined_seq :: u64
  pc_left_seq :: "u64 option"

record message_cols =
  mc_event_id :: bytes
  mc_event_bytes :: "bytes option"
  mc_tombstone :: bool

record attachment_cols =
  ac_hash :: bytes
  ac_size :: u64
  ac_name :: bytes
  ac_media_type :: "bytes option"
  ac_local_path :: "bytes option"

record database =
  db_user_version :: int
  db_visit :: "(bytes, visit_cols) hashmap"
  db_participant :: "(bytes \<times> bytes, participant_cols) hashmap"
  db_device :: "(bytes \<times> bytes, bytes) hashmap"
  db_message :: "(bytes \<times> u64, message_cols) hashmap"
  db_attachment :: "(bytes \<times> bytes, attachment_cols) hashmap"

datatype store_error =
    AlreadyOpen
  | SchemaTooNew int int
  | SqliteBadKey
  | SqliteConstraint
  | SqliteNoRows
  | SqliteInvalidQuery

record new_event =
  ne_seq :: u64
  ne_event_id :: bytes
  ne_event_bytes :: bytes

record stored_row =
  sr_event_bytes :: "bytes option"
  sr_event_id :: bytes

record visit_row =
  vw_host :: bytes
  vw_opened_ms :: u64

record store_tombstone =
  sto_seq :: u64
  sto_event_id :: bytes

text \<open>\<open>UPDATE .. WHERE\<close> and \<open>DELETE .. WHERE\<close> with a condition on the key.\<close>

definition update_rows :: "('k \<Rightarrow> bool) \<Rightarrow> ('c \<Rightarrow> 'c) \<Rightarrow> ('k, 'c) hashmap \<Rightarrow> ('k, 'c) hashmap" where
  "update_rows P f m = map (\<lambda>(k, c). (k, if P k then f c else c)) m"

definition delete_rows :: "('k \<Rightarrow> bool) \<Rightarrow> ('k, 'c) hashmap \<Rightarrow> ('k, 'c) hashmap" where
  "delete_rows P m = filter (\<lambda>(k, _). \<not> P k) m"

section \<open>Opening\<close>

definition SCHEMA_VERSION :: int where "SCHEMA_VERSION = 1"

definition hex_digit :: "u8 \<Rightarrow> u8" where
  "hex_digit n = (if n < 10 then 48 + n else 87 + n)"

text \<open>\<open>x'..'\<close> with two lower case digits for each byte of the key.\<close>

definition to_sqlcipher_hex_literal :: "bytes \<Rightarrow> bytes" where
  "to_sqlcipher_hex_literal key =
     ascii ''x'' @ [39] @ concat (map (\<lambda>b. [hex_digit (b div 16), hex_digit (b mod 16)]) key) @ [39]"

definition create_schema :: "database \<Rightarrow> database" where
  "create_schema db =
     db\<lparr>db_visit := [], db_participant := [], db_device := [], db_message := [], db_attachment := []\<rparr>"

text \<open>
  \<open>Store::open\<close>: \<open>lock_free\<close> is what \<open>try_write\<close> on the lock file says and \<open>key_ok\<close> whether
  the first read of the file with the key succeeds.
\<close>

definition store_open :: "bool \<Rightarrow> bool \<Rightarrow> database \<Rightarrow> store_error + database" where
  "store_open lock_free key_ok db =
     (if \<not> lock_free then Inl AlreadyOpen
      else if \<not> key_ok then Inl SqliteBadKey
      else if db_user_version db > SCHEMA_VERSION then
        Inl (SchemaTooNew (db_user_version db) SCHEMA_VERSION)
      else if db_user_version db = 0 then
        Inr ((create_schema db)\<lparr>db_user_version := SCHEMA_VERSION\<rparr>)
      else Inr db)"

section \<open>Operations\<close>

definition open_visit :: "database \<Rightarrow> bytes \<Rightarrow> bytes \<Rightarrow> u64 \<Rightarrow> store_error + database" where
  "open_visit db visit_id host opened_ms =
     (if hm_get (db_visit db) visit_id \<noteq> None then Inl SqliteConstraint
      else Inr (db\<lparr>db_visit := hm_insert visit_id
        \<lparr>vc_opened_ms = opened_ms, vc_closed_ms = None, vc_private = False, vc_host = host,
         vc_close_reason = None\<rparr> (db_visit db)\<rparr>))"

definition close_visit :: "database \<Rightarrow> bytes \<Rightarrow> u64 \<Rightarrow> database" where
  "close_visit db visit_id closed_ms =
     db\<lparr>db_visit := update_rows (\<lambda>k. k = visit_id) (\<lambda>c. c\<lparr>vc_closed_ms := Some closed_ms\<rparr>)
       (db_visit db)\<rparr>"

text \<open>The primary key \<open>(visit_id, seq)\<close> and the foreign key to \<open>visit\<close> are checked.\<close>

definition append_event :: "database \<Rightarrow> bytes \<Rightarrow> new_event \<Rightarrow> store_error + database" where
  "append_event db visit_id event =
     (if hm_get (db_message db) (visit_id, ne_seq event) \<noteq> None
         \<or> hm_get (db_visit db) visit_id = None
      then Inl SqliteConstraint
      else Inr (db\<lparr>db_message := hm_insert (visit_id, ne_seq event)
        \<lparr>mc_event_id = ne_event_id event, mc_event_bytes = Some (ne_event_bytes event),
         mc_tombstone = False\<rparr> (db_message db)\<rparr>))"

text \<open>\<open>try_into\<close> an array of 32 bytes.\<close>

definition as_key :: "bytes \<Rightarrow> store_error + bytes" where
  "as_key bs = (if length bs = 32 then Inr bs else Inl SqliteInvalidQuery)"

definition store_get_event :: "database \<Rightarrow> bytes \<Rightarrow> u64 \<Rightarrow> store_error + stored_row option" where
  "store_get_event db visit_id seq =
     (case hm_get (db_message db) (visit_id, seq) of
        None \<Rightarrow> Inr None
      | Some c \<Rightarrow>
          and_then (as_key (mc_event_id c)) (\<lambda>event_id.
            Inr (Some \<lparr>sr_event_bytes = mc_event_bytes c, sr_event_id = event_id\<rparr>)))"

definition tombstone_event ::
  "database \<Rightarrow> bytes \<Rightarrow> u64 \<Rightarrow> database \<times> (store_error + store_tombstone)" where
  "tombstone_event db visit_id seq =
     (case hm_get (db_message db) (visit_id, seq) of
        None \<Rightarrow> (db, Inl SqliteNoRows)
      | Some c \<Rightarrow>
          (db\<lparr>db_message := update_rows (\<lambda>k. k = (visit_id, seq))
               (\<lambda>c. c\<lparr>mc_event_bytes := None, mc_tombstone := True\<rparr>) (db_message db)\<rparr>,
           and_then (as_key (mc_event_id c)) (\<lambda>event_id.
             Inr \<lparr>sto_seq = seq, sto_event_id = event_id\<rparr>)))"

text \<open>
  The transaction of \<open>delete_visit\<close>; the \<open>VACUUM\<close> after it changes no row. The rows that the
  foreign keys would cascade to are gone by the time the visit's row is deleted.
\<close>

definition delete_visit :: "database \<Rightarrow> bytes \<Rightarrow> database" where
  "delete_visit db visit_id =
     db\<lparr>db_message := delete_rows (\<lambda>k. fst k = visit_id) (db_message db),
        db_participant := delete_rows (\<lambda>k. fst k = visit_id) (db_participant db),
        db_device := delete_rows (\<lambda>k. fst k = visit_id) (db_device db),
        db_attachment := delete_rows (\<lambda>k. fst k = visit_id) (db_attachment db),
        db_visit := delete_rows (\<lambda>k. k = visit_id) (db_visit db)\<rparr>"

text \<open>The rows of one visit, \<open>ORDER BY seq\<close>, and the loop that converts them.\<close>

definition visit_rows :: "database \<Rightarrow> bytes \<Rightarrow> (u64 \<times> message_cols) list" where
  "visit_rows db visit_id =
     sort_key (\<lambda>(seq, _). sint seq)
       (map (\<lambda>((_, seq), c). (seq, c)) (filter (\<lambda>((v, _), _). v = visit_id) (db_message db)))"

fun convert_rows :: "(u64 \<times> message_cols) list \<Rightarrow> store_error + (u64 \<times> stored_row) list" where
  "convert_rows [] = Inr []"
| "convert_rows ((seq, c) # rows) =
     and_then (as_key (mc_event_id c)) (\<lambda>event_id.
     and_then (convert_rows rows) (\<lambda>out.
       Inr ((seq, \<lparr>sr_event_bytes = mc_event_bytes c, sr_event_id = event_id\<rparr>) # out)))"

definition events_for_visit :: "database \<Rightarrow> bytes \<Rightarrow> store_error + (u64 \<times> stored_row) list" where
  "events_for_visit db visit_id = convert_rows (visit_rows db visit_id)"

definition visit_row_of :: "database \<Rightarrow> bytes \<Rightarrow> store_error + visit_row option" where
  "visit_row_of db visit_id =
     (case hm_get (db_visit db) visit_id of
        None \<Rightarrow> Inr None
      | Some c \<Rightarrow>
          and_then (as_key (vc_host c)) (\<lambda>host.
            Inr (Some \<lparr>vw_host = host, vw_opened_ms = vc_opened_ms c\<rparr>)))"

fun convert_ids :: "bytes list \<Rightarrow> store_error + bytes list" where
  "convert_ids [] = Inr []"
| "convert_ids (v # vs) =
     and_then (as_key v) (\<lambda>k. and_then (convert_ids vs) (\<lambda>ks. Inr (k # ks)))"

text \<open>\<open>ORDER BY opened_ms\<close>; visits of the same instant stay in row order.\<close>

definition list_visits :: "database \<Rightarrow> store_error + bytes list" where
  "list_visits db =
     convert_ids (map fst (sort_key (\<lambda>(_, c). sint (vc_opened_ms c)) (db_visit db)))"

section \<open>Integrity\<close>

text \<open>
  The keys are unique, every row of a visit has its visit's row, no visit is private, ids
  have 32 bytes, and a message row is a tombstone exactly when it holds no bytes.
\<close>

definition message_ok :: "message_cols \<Rightarrow> bool" where
  "message_ok c \<longleftrightarrow> length (mc_event_id c) = 32 \<and> (mc_tombstone c \<longleftrightarrow> mc_event_bytes c = None)"

definition visit_ok :: "visit_cols \<Rightarrow> bool" where
  "visit_ok c \<longleftrightarrow> length (vc_host c) = 32 \<and> \<not> vc_private c"

definition owners :: "((bytes \<times> 'k) \<times> 'c) list \<Rightarrow> bytes set" where
  "owners m = fst ` fst ` set m"

definition visits :: "database \<Rightarrow> bytes set" where
  "visits db = fst ` set (db_visit db)"

definition keys_unique :: "database \<Rightarrow> bool" where
  "keys_unique db \<longleftrightarrow>
     hm_wf (db_visit db) \<and> hm_wf (db_participant db) \<and> hm_wf (db_device db) \<and>
     hm_wf (db_message db) \<and> hm_wf (db_attachment db)"

definition no_orphans :: "database \<Rightarrow> bool" where
  "no_orphans db \<longleftrightarrow>
     owners (db_message db) \<subseteq> visits db \<and> owners (db_participant db) \<subseteq> visits db \<and>
     owners (db_device db) \<subseteq> visits db \<and> owners (db_attachment db) \<subseteq> visits db"

definition values_ok :: "('c \<Rightarrow> bool) \<Rightarrow> ('k, 'c) hashmap \<Rightarrow> bool" where
  "values_ok P m \<longleftrightarrow> (\<forall>c \<in> snd ` set m. P c)"

definition store_ok :: "database \<Rightarrow> bool" where
  "store_ok db \<longleftrightarrow>
     keys_unique db \<and> no_orphans db \<and> (\<forall>v \<in> visits db. length v = 32) \<and>
     values_ok visit_ok (db_visit db) \<and> values_ok message_ok (db_message db)"

subsection \<open>Laws of the statements\<close>

lemma fst_update_rows: "map fst (update_rows P f m) = map fst m"
  by (induction m) (auto simp: update_rows_def)

lemma hm_wf_rows [simp]:
  "hm_wf m \<Longrightarrow> hm_wf (update_rows P f m)" "hm_wf m \<Longrightarrow> hm_wf (delete_rows P m)"
  by (simp_all add: hm_wf_def fst_update_rows delete_rows_def distinct_map_filter)

lemma update_rows_get: "map_of (update_rows P f m) k = map_option (if P k then f else id) (map_of m k)"
  by (induction m) (auto simp: update_rows_def option.map_ident)

lemma delete_rows_get: "map_of (delete_rows P m) k = (if P k then None else map_of m k)"
  by (induction m) (auto simp: delete_rows_def)

lemma keys_rows [simp]:
  "fst ` set (update_rows P f m) = fst ` set m"
  "fst ` set (delete_rows P m) = {k \<in> fst ` set m. \<not> P k}"
  "map_of m k = None \<Longrightarrow> fst ` set (AList.update k v m) = insert k (fst ` set m)"
  using arg_cong [OF fst_update_rows [of P f m], of set]
  by (auto simp: delete_rows_def insert_fresh image_iff)

lemma values_ok_rows:
  "values_ok Q m \<Longrightarrow> (\<And>c. Q c \<Longrightarrow> Q (f c)) \<Longrightarrow> values_ok Q (update_rows P f m)"
  "values_ok Q m \<Longrightarrow> values_ok Q (delete_rows P m)"
  "values_ok Q m \<Longrightarrow> map_of m k = None \<Longrightarrow> Q v \<Longrightarrow> values_ok Q (AList.update k v m)"
  by (auto simp: values_ok_def update_rows_def delete_rows_def insert_fresh)

lemma owners_rows [simp]:
  "owners (update_rows P f m) = owners m"
  "owners (delete_rows (\<lambda>k. fst k = v) m) = owners m - {v}"
  "map_of m k = None \<Longrightarrow> owners (AList.update k c m) = insert (fst k) (owners m)"
  by (auto simp: owners_def)

lemma visits_mem: "v \<in> visits db \<longleftrightarrow> hm_get (db_visit db) v \<noteq> None"
  by (auto simp: visits_def map_of_eq_None_iff)

lemmas store_ok_defs = store_ok_def keys_unique_def no_orphans_def

subsection \<open>Every operation keeps the integrity\<close>

lemma open_visit_ok:
  assumes "store_ok db" and "open_visit db v host t = Inr db'" and "length v = 32" "length host = 32"
  shows "store_ok db'"
proof -
  from assms(2) have fresh: "hm_get (db_visit db) v = None"
    by (auto simp: open_visit_def split: if_splits)
  moreover from assms(2) fresh have "db_visit db' = hm_insert v \<lparr>vc_opened_ms = t, vc_closed_ms = None,
      vc_private = False, vc_host = host, vc_close_reason = None\<rparr> (db_visit db)"
    by (auto simp: open_visit_def)
  ultimately have "visits db' = insert v (visits db)"
    by (simp add: visits_def)
  then show ?thesis
    using assms fresh
    by (auto simp: store_ok_defs open_visit_def visit_ok_def intro!: values_ok_rows)
qed

lemma close_visit_ok: "store_ok db \<Longrightarrow> store_ok (close_visit db v t)"
  by (auto simp: store_ok_defs close_visit_def visits_def visit_ok_def intro!: values_ok_rows)

lemma append_event_ok:
  assumes "store_ok db" and "append_event db v e = Inr db'" and "length (ne_event_id e) = 32"
  shows "store_ok db'"
proof -
  from assms(2) have fresh: "hm_get (db_message db) (v, ne_seq e) = None" "v \<in> visits db"
    by (auto simp: append_event_def visits_mem split: if_splits)
  moreover have "visits db' = visits db"
    using assms(2) by (auto simp: visits_def append_event_def split: if_splits)
  ultimately show ?thesis
    using assms
    by (auto simp: store_ok_defs append_event_def message_ok_def intro!: values_ok_rows
        split: if_splits)
qed

lemma tombstone_event_ok:
  assumes "store_ok db" and "tombstone_event db v seq = (db', res)"
  shows "store_ok db'"
  using assms
  by (auto simp: store_ok_defs tombstone_event_def message_ok_def visits_def intro!: values_ok_rows
      split: option.splits)

lemma visits_delete: "visits (delete_visit db v) = visits db - {v}"
  by (auto simp: visits_def delete_visit_def)

lemma delete_visit_ok:
  assumes "store_ok db"
  shows "store_ok (delete_visit db v)"
proof -
  have "keys_unique (delete_visit db v)" "no_orphans (delete_visit db v)"
    using assms by (auto simp: store_ok_defs visits_delete) (auto simp: delete_visit_def)
  moreover have "values_ok visit_ok (db_visit (delete_visit db v))"
    "values_ok message_ok (db_message (delete_visit db v))"
    using assms by (simp_all add: store_ok_def delete_visit_def values_ok_rows)
  ultimately show ?thesis
    using assms by (simp add: store_ok_def visits_delete)
qed

inductive store_step :: "database \<Rightarrow> database \<Rightarrow> bool" where
  store_open_visit: "open_visit db v host t = Inr db' \<Longrightarrow> length v = 32 \<Longrightarrow> length host = 32 \<Longrightarrow>
    store_step db db'"
| store_close_visit: "store_step db (close_visit db v t)"
| store_append: "append_event db v e = Inr db' \<Longrightarrow> length (ne_event_id e) = 32 \<Longrightarrow>
    store_step db db'"
| store_tombstone: "tombstone_event db v seq = (db', res) \<Longrightarrow> store_step db db'"
| store_delete: "store_step db (delete_visit db v)"

lemma store_step_ok: "store_step db db' \<Longrightarrow> store_ok db \<Longrightarrow> store_ok db'"
  by (erule store_step.cases)
     (auto intro: open_visit_ok close_visit_ok append_event_ok tombstone_event_ok delete_visit_ok)

lemma store_open_ok: "store_open l k db = Inr db' \<Longrightarrow> store_ok db \<Longrightarrow> store_ok db'"
  by (auto simp: store_open_def store_ok_defs create_schema_def owners_def values_ok_def visits_def
      split: if_splits)

lemma store_steps_ok: "store_step\<^sup>*\<^sup>* db db' \<Longrightarrow> store_ok db \<Longrightarrow> store_ok db'"
  by (induction rule: rtranclp_induct) (auto intro: store_step_ok)

section \<open>Reading back\<close>

lemma convert_rows_ok:
  "(\<forall>(_, c) \<in> set rows. length (mc_event_id c) = 32) \<Longrightarrow>
     convert_rows rows = Inr (map (\<lambda>(seq, c).
       (seq, \<lparr>sr_event_bytes = mc_event_bytes c, sr_event_id = mc_event_id c\<rparr>)) rows)"
  by (induction rows) (auto simp: as_key_def)

lemma convert_ids_ok: "\<forall>v \<in> set vs. length v = 32 \<Longrightarrow> convert_ids vs = Inr vs"
  by (induction vs) (auto simp: as_key_def)

lemma visit_rows_set:
  "set (visit_rows db v) = {(seq, c). ((v, seq), c) \<in> set (db_message db)}"
  by (auto simp: visit_rows_def image_iff)

lemma list_visits_ok:
  assumes "store_ok db"
  obtains vs where "list_visits db = Inr vs" "set vs = visits db" "distinct vs"
proof -
  let ?vs = "map fst (sort_key (\<lambda>(_, c). sint (vc_opened_ms c)) (db_visit db))"
  have "set ?vs = visits db" by (simp add: visits_def)
  moreover have "distinct ?vs"
    using assms by (simp add: store_ok_defs hm_wf_def distinct_map)
  moreover have "list_visits db = Inr ?vs"
    unfolding list_visits_def
    using assms calculation(1) by (intro convert_ids_ok) (simp add: store_ok_def)
  ultimately show ?thesis using that by blast
qed

lemma store_get_event_rows:
  assumes "store_ok db"
  shows "store_get_event db v seq =
    Inr (map_option (\<lambda>c. \<lparr>sr_event_bytes = mc_event_bytes c, sr_event_id = mc_event_id c\<rparr>)
      (hm_get (db_message db) (v, seq)))"
proof (cases "hm_get (db_message db) (v, seq)")
  case (Some c)
  then have "c \<in> snd ` set (db_message db)" by (force dest: map_of_SomeD)
  then have "length (mc_event_id c) = 32"
    using assms by (auto simp: store_ok_def values_ok_def message_ok_def)
  then show ?thesis using Some by (simp add: store_get_event_def as_key_def)
qed (simp add: store_get_event_def)

lemma events_for_visit_rows:
  assumes "store_ok db"
  shows "events_for_visit db v = Inr (map (\<lambda>(seq, c).
    (seq, \<lparr>sr_event_bytes = mc_event_bytes c, sr_event_id = mc_event_id c\<rparr>)) (visit_rows db v))"
  unfolding events_for_visit_def
proof (rule convert_rows_ok)
  show "\<forall>(_, c) \<in> set (visit_rows db v). length (mc_event_id c) = 32"
    using assms unfolding visit_rows_set
    by (force simp: store_ok_def values_ok_def message_ok_def)
qed

end
