(* ===== verification/Replay.thy ===== *)
theory Replay
  imports View Store
begin

text \<open>
  Where the view layer meets the store (\<open>view/mod.rs\<close>): a visit's recording is rebuilt by
  ingesting its stored bytes again, a visit is deleted for real, and a drop request is
  honoured in the recording and in the store.
\<close>

datatype view_error =
    StoreFailed store_error
  | IngestFailed ingest_error
  | NoSuchVisit
  | RecordingOpenFailed ingest_error

section \<open>Replay\<close>

text \<open>The loop of \<open>recording_from_store\<close>.\<close>

fun replay_rows ::
  "minicbor \<Rightarrow> crypto \<Rightarrow> recording \<Rightarrow> u64 \<Rightarrow> (u64 \<times> stored_row) list \<Rightarrow> view_error + recording" where
  "replay_rows C K r now_ms [] = Inr r"
| "replay_rows C K r now_ms ((seq, row) # rows) =
     (case sr_event_bytes row of
        Some bs \<Rightarrow>
          (case ingest C K r bs now_ms of
             (_, Inl e) \<Rightarrow> Inl (IngestFailed e)
           | (r', Inr _) \<Rightarrow> replay_rows C K r' now_ms rows)
      | None \<Rightarrow> replay_rows C K (insert_tombstone r seq (sr_event_id row)) now_ms rows)"

definition recording_from_store ::
  "minicbor \<Rightarrow> crypto \<Rightarrow> database \<Rightarrow> bytes \<Rightarrow> bytes \<Rightarrow> u64 \<Rightarrow> view_error + recording" where
  "recording_from_store C K db visit host now_ms =
     and_then (map_err RecordingOpenFailed (recording_new visit host)) (\<lambda>r.
     and_then (map_err StoreFailed (events_for_visit db visit)) (\<lambda>rows.
       replay_rows C K r now_ms rows))"

fun replay_visits ::
  "minicbor \<Rightarrow> crypto \<Rightarrow> database \<Rightarrow> u64 \<Rightarrow> bytes list \<Rightarrow> view_error + recording list" where
  "replay_visits C K db now_ms [] = Inr []"
| "replay_visits C K db now_ms (visit # vs) =
     and_then (map_err StoreFailed (visit_row_of db visit)) (\<lambda>row.
     and_then (ok_or row NoSuchVisit) (\<lambda>row.
     and_then (recording_from_store C K db visit (vw_host row) now_ms) (\<lambda>r.
     and_then (replay_visits C K db now_ms vs) (\<lambda>rs. Inr (r # rs)))))"

definition recordings_from_store ::
  "minicbor \<Rightarrow> crypto \<Rightarrow> database \<Rightarrow> u64 \<Rightarrow> view_error + recording list" where
  "recordings_from_store C K db now_ms =
     and_then (map_err StoreFailed (list_visits db)) (replay_visits C K db now_ms)"

definition delete_visit_for_real :: "database \<Rightarrow> bytes \<Rightarrow> database" where
  "delete_visit_for_real db visit = delete_visit db visit"

section \<open>Honouring a drop request in both halves (R-41)\<close>

fun tombstone_all :: "database \<Rightarrow> bytes \<Rightarrow> u64 list \<Rightarrow> database \<times> (view_error + unit)" where
  "tombstone_all db visit [] = (db, Inr ())"
| "tombstone_all db visit (seq # seqs) =
     (case tombstone_event db visit seq of
        (db', Inl e) \<Rightarrow> (db', Inl (StoreFailed e))
      | (db', Inr _) \<Rightarrow> tombstone_all db' visit seqs)"

definition live_seqs :: "recording \<Rightarrow> u64 list" where
  "live_seqs r =
     (case seq_range r of
        None \<Rightarrow> []
      | Some (lo, hi) \<Rightarrow> filter (is_event_at r) (seqs_between lo hi))"

definition view_honour_drop_request ::
  "database \<Rightarrow> bytes \<Rightarrow> recording \<Rightarrow> bytes \<Rightarrow> database \<times> recording \<times> (view_error + u64 list)" where
  "view_honour_drop_request db visit r request =
     (let before = live_seqs r in
      case honour_drop_request r request of
        (r', Inl e) \<Rightarrow> (db, r', Inl (IngestFailed e))
      | (r', Inr _) \<Rightarrow>
          (let tombstoned = sort (filter (\<lambda>seq. tombstone_at r' seq \<noteq> None) before) in
           case tombstone_all db visit tombstoned of
             (db', Inl e) \<Rightarrow> (db', r', Inl e)
           | (db', Inr _) \<Rightarrow> (db', r', Inr tombstoned)))"

section \<open>Deleted and private visits have no recording (R-45, R-46)\<close>

lemma replay_rows_visit:
  "replay_rows C K r now_ms rows = Inr r' \<Longrightarrow> rec_visit r' = rec_visit r"
proof (induction rows arbitrary: r)
  case (Cons row rows)
  obtain seq s where row: "row = (seq, s)" by (cases row)
  show ?case
  proof (cases "sr_event_bytes s")
    case None
    then show ?thesis using Cons by (force simp: row insert_tombstone_def)
  next
    case (Some bs)
    then obtain r1 eid where step: "ingest C K r bs now_ms = (r1, Inr eid)"
      and rest: "replay_rows C K r1 now_ms rows = Inr r'"
      using Cons(2) by (auto simp: row split: prod.splits sum.splits)
    have "rec_visit r1 = rec_visit r"
      using step_frame(1) [OF step_ingest [OF step]] .
    then show ?thesis using Cons(1) [OF rest] by simp
  qed
qed simp

lemma recording_from_store_visit:
  "recording_from_store C K db visit host now_ms = Inr r \<Longrightarrow> rec_visit r = visit"
  by (auto simp: recording_from_store_def recording_new_def dest: replay_rows_visit split: if_splits)

lemma replay_visits_visit:
  "replay_visits C K db now_ms vs = Inr rs \<Longrightarrow> map rec_visit rs = vs"
  by (induction vs arbitrary: rs) (auto dest: recording_from_store_visit)

section \<open>Replaying what was ingested\<close>

text \<open>
  A live visit: each message is ingested and, once accepted, appended to the store at the
  seq of its envelope. \<open>None\<close> when a message is rejected or the store refuses it.
\<close>

fun live_visit ::
  "minicbor \<Rightarrow> crypto \<Rightarrow> u64 \<Rightarrow> recording \<times> database \<Rightarrow> bytes list \<Rightarrow> (recording \<times> database) option"
where
  "live_visit C K now_ms state [] = Some state"
| "live_visit C K now_ms (r, db) (bs # bss) =
     (case (ingest C K r bs now_ms, parse_event C K bs) of
        ((r', Inr eid), Inr ev) \<Rightarrow>
          (case append_event db (rec_visit r)
              \<lparr>ne_seq = env_seq (se_envelope ev), ne_event_id = eid, ne_event_bytes = bs\<rparr> of
             Inr db' \<Rightarrow> live_visit C K now_ms (r', db') bss
           | Inl _ \<Rightarrow> None)
      | _ \<Rightarrow> None)"

lemma replay_rows_append:
  "replay_rows C K r now_ms rows = Inr r' \<Longrightarrow>
     replay_rows C K r now_ms (rows @ rows') = replay_rows C K r' now_ms rows'"
  by (induction C K r now_ms rows rule: replay_rows.induct)
     (auto split: option.splits prod.splits sum.splits)

definition table_rows :: "database \<Rightarrow> bytes \<Rightarrow> (u64 \<times> message_cols) list" where
  "table_rows db v = map (\<lambda>((_, seq), c). (seq, c)) (filter (\<lambda>((w, _), _). w = v) (db_message db))"

definition as_stored :: "u64 \<times> message_cols \<Rightarrow> u64 \<times> stored_row" where
  "as_stored = (\<lambda>(seq, c). (seq, \<lparr>sr_event_bytes = mc_event_bytes c, sr_event_id = mc_event_id c\<rparr>))"

text \<open>The state of a live visit: row \<open>i\<close> has seq \<open>i\<close>, and replaying the rows gives the recording.\<close>

definition mirrored ::
  "minicbor \<Rightarrow> crypto \<Rightarrow> u64 \<Rightarrow> recording \<Rightarrow> nat \<Rightarrow> recording \<Rightarrow> database \<Rightarrow> bool" where
  "mirrored C K now_ms r0 n r db \<longleftrightarrow>
     map fst (table_rows db (rec_visit r)) = map of_nat [0..<n] \<and>
     dom (slot_id r) = of_nat ` {0..<n} \<and>
     replay_rows C K r0 now_ms (map as_stored (table_rows db (rec_visit r))) = Inr r"

lemma next_seq_fresh:
  assumes "expected_prev r seq = Inr prev" and "dom (slot_id r) = of_nat ` {0..<n}"
    and "seq \<notin> dom (slot_id r)"
  shows "seq = of_nat n"
proof (cases "seq = 0")
  case True
  have "n = 0"
  proof (rule ccontr)
    assume "n \<noteq> 0"
    then have "(0 :: u64) \<in> of_nat ` {0..<n}" by (intro image_eqI [of _ _ 0]) auto
    then show False using assms(2,3) True by simp
  qed
  then show ?thesis using True by simp
next
  case False
  then have "seq - 1 \<in> dom (slot_id r)"
    using assms(1) by (auto simp: expected_prev_links)
  then obtain i where i: "seq - 1 = of_nat i" "i < n" using assms(2) by auto
  have "seq = of_nat (Suc i)" using i(1) by (simp add: algebra_simps flip: i(1))
  moreover have "\<not> Suc i < n"
  proof
    assume "Suc i < n"
    then have "seq \<in> of_nat ` {0..<n}"
      unfolding calculation by (intro imageI) simp
    then show False using assms(2,3) by simp
  qed
  then have "n = Suc i" using i(2) by simp
  ultimately show ?thesis by simp
qed

lemma table_rows_append:
  assumes "append_event db v e = Inr db'"
  shows "table_rows db' v = table_rows db v @ [(ne_seq e,
      \<lparr>mc_event_id = ne_event_id e, mc_event_bytes = Some (ne_event_bytes e), mc_tombstone = False\<rparr>)]"
    and "ne_seq e \<notin> set (map fst (table_rows db v))"
  using assms
  by (auto simp: append_event_def table_rows_def insert_fresh map_of_eq_None_iff split: if_splits)
     (force simp: image_iff)

lemma sint_of_nat: "n < 2 ^ 63 \<Longrightarrow> sint (of_nat n :: u64) = int n"
  by (simp add: signed_of_nat signed_take_bit_int_eq_self)

lemma sort_small_seqs:
  assumes "map fst rows = map of_nat [0..<n]" and "n \<le> 2 ^ 63"
  shows "sort_key (\<lambda>(seq :: u64, _). sint seq) rows = rows"
proof (rule sort_key_id_if_sorted)
  have "map (\<lambda>(seq, _). sint seq) rows = map (sint \<circ> fst) rows"
    by (simp add: case_prod_beta comp_def)
  also have "\<dots> = map (\<lambda>i. sint (of_nat i :: u64)) [0..<n]"
    using arg_cong [OF assms(1), of "map sint"] by (simp add: comp_def)
  also have "\<dots> = map int [0..<n]"
    using assms(2) by (intro map_cong) (auto simp: sint_of_nat)
  also have "sorted \<dots>"
    by (simp add: sorted_map sorted_wrt_iff_nth_less)
  finally show "sorted (map (\<lambda>(seq, _). sint seq) rows)" .
qed

lemma ingest_slot_dom:
  assumes "ingest C K r bs now_ms = (r', Inr eid)" and "parse_event C K bs = Inr ev"
  shows "dom (slot_id r') = insert (env_seq (se_envelope ev)) (dom (slot_id r))"
    and "\<exists>prev. expected_prev r (env_seq (se_envelope ev)) = Inr prev"
proof -
  have step: "ingest_event r ev now_ms = (r', Inr eid)"
    using assms by (auto elim: ingest_accepted)
  show "dom (slot_id r') = insert (env_seq (se_envelope ev)) (dom (slot_id r))"
    using ingest_event_ids(1) [OF step] by simp
  show "\<exists>prev. expected_prev r (env_seq (se_envelope ev)) = Inr prev"
    using step by (rule ingest_event_accepted) blast
qed

lemma mirrored_step:
  assumes m: "mirrored C K now_ms r0 n r db"
    and step: "ingest C K r bs now_ms = (r', Inr eid)" and ev: "parse_event C K bs = Inr ev"
    and app: "append_event db (rec_visit r)
      \<lparr>ne_seq = env_seq (se_envelope ev), ne_event_id = eid, ne_event_bytes = bs\<rparr> = Inr db'"
  shows "mirrored C K now_ms r0 (Suc n) r' db'"
proof -
  let ?seq = "env_seq (se_envelope ev)"
  let ?row = "(?seq, \<lparr>mc_event_id = eid, mc_event_bytes = Some bs, mc_tombstone = False\<rparr>)"
  have rows: "table_rows db' (rec_visit r) = table_rows db (rec_visit r) @ [?row]"
    and "?seq \<notin> set (map fst (table_rows db (rec_visit r)))"
    using table_rows_append [OF app] by simp_all
  moreover have "set (map fst (table_rows db (rec_visit r))) = dom (slot_id r)"
    using m by (metis (no_types) mirrored_def set_map set_upt)
  ultimately have fresh: "?seq \<notin> dom (slot_id r)" by simp
  have visit: "rec_visit r' = rec_visit r"
    using step_frame(1) [OF step_ingest [OF step]] .
  obtain prev where "expected_prev r ?seq = Inr prev"
    using ingest_slot_dom(2) [OF step ev] by blast
  then have seq: "?seq = of_nat n"
    using next_seq_fresh fresh m unfolding mirrored_def by blast
  have "replay_rows C K r0 now_ms (map as_stored (table_rows db (rec_visit r) @ [?row])) =
      replay_rows C K r now_ms [as_stored ?row]"
    unfolding map_append list.map using m by (intro replay_rows_append) (simp add: mirrored_def)
  also have "\<dots> = Inr r'"
    by (simp add: as_stored_def step)
  finally have "replay_rows C K r0 now_ms (map as_stored (table_rows db' (rec_visit r'))) = Inr r'"
    by (simp add: rows visit)
  moreover have "dom (slot_id r') = of_nat ` {0..<Suc n}"
    using ingest_slot_dom(1) [OF step ev] m seq
    by (auto simp: mirrored_def atLeast0_lessThan_Suc)
  ultimately show ?thesis
    using m seq by (simp add: mirrored_def rows visit)
qed

lemma live_visit_mirrored:
  "live_visit C K now_ms (r, db) bss = Some (r', db') \<Longrightarrow> mirrored C K now_ms r0 n r db \<Longrightarrow>
     store_ok db \<Longrightarrow> (\<And>b. length (blake3 K b) = 32) \<Longrightarrow>
     mirrored C K now_ms r0 (n + length bss) r' db' \<and> store_ok db' \<and> rec_visit r' = rec_visit r"
proof (induction bss arbitrary: r db n)
  case (Cons bs bss)
  from Cons(2) obtain r1 eid ev db1 where step: "ingest C K r bs now_ms = (r1, Inr eid)"
    and ev: "parse_event C K bs = Inr ev"
    and app: "append_event db (rec_visit r)
      \<lparr>ne_seq = env_seq (se_envelope ev), ne_event_id = eid, ne_event_bytes = bs\<rparr> = Inr db1"
    and rest: "live_visit C K now_ms (r1, db1) bss = Some (r', db')"
    by (auto split: prod.splits sum.splits)
  have "ingest_event r ev now_ms = (r1, Inr eid)"
    using step ev by (auto elim: ingest_accepted)
  then have "eid = se_event_id ev" by (rule ingest_event_accepted)
  moreover have "length (se_event_id ev) = 32"
    using ev Cons(5) by (auto elim: parse_event_fields)
  ultimately have "store_ok db1"
    using append_event_ok [OF Cons(4) app] by simp
  then have "mirrored C K now_ms r0 (Suc n + length bss) r' db' \<and> store_ok db' \<and>
      rec_visit r' = rec_visit r1"
    using Cons.IH [OF rest mirrored_step [OF Cons(3) step ev app]] Cons(5) by blast
  then show ?case using step_frame(1) [OF step_ingest [OF step]] by simp
qed simp

lemma replay_mirrored:
  assumes "mirrored C K now_ms r0 n r db" and "store_ok db" and "n \<le> 2 ^ 63"
    and "recording_new visit host = Inr r0" and "rec_visit r = visit"
  shows "recording_from_store C K db visit host now_ms = Inr r"
proof -
  have "visit_rows db visit = table_rows db visit"
    unfolding visit_rows_def table_rows_def [symmetric]
    by (rule sort_small_seqs [OF _ assms(3)]) (use assms(1,5) in \<open>simp add: mirrored_def\<close>)
  then show ?thesis
    using assms
    by (simp add: recording_from_store_def events_for_visit_rows mirrored_def as_stored_def)
qed

lemma mirrored_start:
  assumes "recording_new visit host = Inr r0" and "open_visit db visit host t = Inr db0"
    and "store_ok db"
  shows "mirrored C K now_ms r0 0 r0 db0" "rec_visit r0 = visit"
proof -
  have r0: "rec_visit r0 = visit" "rec_slots r0 = []"
    using assms(1) by (auto simp: recording_new_def split: if_splits)
  have "visit \<notin> visits db"
    using assms(2) by (auto simp: open_visit_def visits_mem split: if_splits)
  then have "visit \<notin> owners (db_message db)"
    using assms(3) by (auto simp: store_ok_def no_orphans_def)
  then have "table_rows db visit = []"
    by (auto simp: table_rows_def owners_def filter_empty_conv image_iff)
  then have "table_rows db0 visit = []"
    using assms(2) by (auto simp: open_visit_def table_rows_def split: if_splits)
  then show "mirrored C K now_ms r0 0 r0 db0"
    by (simp add: mirrored_def r0 slot_id_def dom_def)
  show "rec_visit r0 = visit" by (rule r0(1))
qed

end
