(* ===== verification/View_Props.thy ===== *)
theory View_Props
  imports Recording_Props Replay
begin

text \<open>
  The properties of the views, of the store, and of the two together.
\<close>

section \<open>Views\<close>

text \<open>C21: views are a function of what the recordings hold: two houses whose recordings agree
  slot by slot and participant by participant, in whatever order the hash maps iterate and
  whatever order the recordings come in, have the same contact pages and the same group
  pages, as long as no two recordings are of one visit (R-48).\<close>

theorem views_order_independent:
  assumes "house_equiv rs rs'"
  shows "contact_view rs person = contact_view rs' person \<and> group_views rs = group_views rs'"
proof -
  have "cv_sections (contact_view rs person) = cv_sections (contact_view rs' person)"
    unfolding contact_pages by (rule page_sections_perm [OF assms])
  moreover have "group_views rs = group_views rs'"
    unfolding group_views_pages equiv_keys [OF assms] page_sections_perm [OF assms] by (rule refl)
  ultimately show ?thesis by (simp add: contact_view_def)
qed

definition demo_r3_other_order :: recording where
  "demo_r3_other_order = demo_r3\<lparr>rec_slots := rev (rec_slots demo_r3),
     rec_participants := rev (rec_participants demo_r3)\<rparr>"

lemma demo_house_equiv: "house_equiv [demo_r3] [demo_r3_other_order]"
proof -
  have "hm_get (rec_slots demo_r3_other_order) = hm_get (rec_slots demo_r3)"
    "hm_get (rec_participants demo_r3_other_order) = hm_get (rec_participants demo_r3)"
    by (auto simp: demo_r3_other_order_def demo_states fun_eq_iff)
  moreover have "maps_ok demo_r3" "maps_ok demo_r3_other_order"
    by (auto simp: maps_ok_def demo_r3_other_order_def demo_states hm_wf_def)
  ultimately have "rec_equiv demo_r3 demo_r3_other_order"
    by (simp add: rec_equiv_def demo_r3_other_order_def)
  then show ?thesis by (simp add: house_equiv_def)
qed

theorem views_order_independent_witness:
  "group_views [demo_r3] = group_views [demo_r3_other_order]"
  using views_order_independent [OF demo_house_equiv] by simp

text \<open>a visit's section has one entry for every occupied seq and for nothing else, in
  strictly ascending order: the rendered event where the recording holds an event, the
  dropped marker with the id where it holds a tombstone, never a gap (R-41, R-48, R-49).\<close>

theorem section_entries_exact:
  "map entry_seq (vs_entries (visit_section r)) = sorted_list_of_set (dom (hm_get (rec_slots r))) \<and>
   sorted_wrt (<) (map entry_seq (vs_entries (visit_section r))) \<and>
   (\<forall>seq ev. get_event r seq = Some ev \<longrightarrow>
      EventEntry seq (env_author (se_envelope ev)) (env_ts_ms (se_envelope ev)) (se_event_id ev)
        (render_body (se_body ev)) \<in> set (vs_entries (visit_section r))) \<and>
   (\<forall>seq t. tombstone_at r seq = Some t \<longrightarrow>
      DroppedEntry seq (tomb_event_id t) \<in> set (vs_entries (visit_section r)))"
proof -
  have event: "EventEntry seq (env_author (se_envelope ev)) (env_ts_ms (se_envelope ev))
      (se_event_id ev) (render_body (se_body ev)) \<in> set (view_entry_at r seq)"
    if "get_event r seq = Some ev" for seq ev
    using that by (simp add: view_entry_at_def)
  have dropped: "DroppedEntry seq (tomb_event_id t) \<in> set (view_entry_at r seq)"
    if "tombstone_at r seq = Some t" for seq t
    using that
    by (auto simp: view_entry_at_def tombstone_at_def get_event_def split: option.splits slot.splits)
  have "sorted_wrt (<) (sorted_list_of_set (dom (hm_get (rec_slots r))))" by simp
  then show ?thesis
    unfolding visit_section_seqs visit_section_entries using event dropped by blast
qed

theorem section_entries_exact_witness:
  "DroppedEntry 2 (se_event_id demo_e2) \<in> set (vs_entries (visit_section demo_r4_honoured))"
proof -
  have "tombstone_at demo_r4_honoured 2 = Some \<lparr>tomb_seq = 2, tomb_event_id = se_event_id demo_e2\<rparr>"
    by (simp add: tombstone_at_def demo_r4_honoured_def tombstone_of_def)
  then show ?thesis using section_entries_exact [of demo_r4_honoured] by fastforce
qed

text \<open>the group pages partition the visits by participant set: one page for every set
  that occurs, in strictly ascending order, holding exactly the sections of the recordings
  with that set, ordered by opening and visit id.\<close>

theorem group_views_partition:
  "map gv_participants (group_views rs) = sorted_list_of_set (participant_keys ` set rs) \<and>
   (\<forall>g \<in> set (group_views rs).
      set (gv_sections g) = visit_section ` {r \<in> set rs. participant_keys r = gv_participants g} \<and>
      sorted (map section_order_key (gv_sections g)))"
proof -
  have "set (page_sections (\<lambda>k'. k' = k) (pages rs)) =
      visit_section ` {r \<in> set rs. participant_keys r = k}" for k
    by (auto simp: page_sections_def pages_def image_iff)
  then show ?thesis
    unfolding group_views_keys by (auto simp: group_views_pages)
qed

theorem group_views_partition_witness:
  "\<exists>g. group_views [demo_r3] = [g] \<and> set (gv_sections g) = {visit_section demo_r3}"
proof -
  have keys: "map gv_participants (group_views [demo_r3]) = [participant_keys demo_r3]"
    using group_views_partition [of "[demo_r3]"] by simp
  then obtain g where g: "group_views [demo_r3] = [g]" "gv_participants g = participant_keys demo_r3"
    by auto
  have "set (gv_sections g) = visit_section ` {r \<in> set [demo_r3]. participant_keys r = gv_participants g}"
    using group_views_partition [of "[demo_r3]"] g(1) by auto
  then show ?thesis using g by auto
qed

section \<open>The store\<close>

text \<open>C19: from a database with unique keys, no row without its visit, no private visit, and
  bytes exactly in the rows that are no tombstones, every sequence of store operations leads
  to such a database again (R-45, R-46, R-50).\<close>

theorem store_integrity:
  assumes "store_step\<^sup>*\<^sup>* db db'" and "store_ok db"
  shows "store_ok db'"
  using assms by (rule store_steps_ok)

definition empty_db :: database where
  "empty_db = \<lparr>db_user_version = 1, db_visit = [], db_participant = [], db_device = [],
     db_message = [], db_attachment = []\<rparr>"

lemma empty_db_ok: "store_ok empty_db"
  by (simp add: empty_db_def store_ok_defs owners_def values_ok_def visits_def)

theorem store_integrity_witness: "store_ok (delete_visit (close_visit empty_db demo_visit 7) demo_visit)"
proof (rule store_integrity [OF _ empty_db_ok])
  let ?closed = "close_visit empty_db demo_visit 7"
  have "store_step empty_db ?closed" "store_step ?closed (delete_visit ?closed demo_visit)"
    by (rule store_close_visit, rule store_delete)
  then show "store_step\<^sup>*\<^sup>* empty_db (delete_visit ?closed demo_visit)" by simp
qed

text \<open>an appended event reads back with its bytes and id, a second event at its seq is
  refused, and every other row of every visit reads as before (R-13).\<close>

theorem append_then_get:
  assumes "store_ok db" and "append_event db v e = Inr db'" and "length (ne_event_id e) = 32"
  shows "store_get_event db' v (ne_seq e) =
      Inr (Some \<lparr>sr_event_bytes = Some (ne_event_bytes e), sr_event_id = ne_event_id e\<rparr>) \<and>
    append_event db' v (e\<lparr>ne_event_id := i, ne_event_bytes := b\<rparr>) = Inl SqliteConstraint \<and>
    ((w, s) \<noteq> (v, ne_seq e) \<longrightarrow> store_get_event db' w s = store_get_event db w s)"
proof -
  have db': "hm_get (db_message db') = (hm_get (db_message db))((v, ne_seq e) \<mapsto>
      \<lparr>mc_event_id = ne_event_id e, mc_event_bytes = Some (ne_event_bytes e), mc_tombstone = False\<rparr>)"
    using assms(2) by (auto simp: append_event_def update_conv' split: if_splits)
  have "store_get_event db' v (ne_seq e) =
      Inr (Some \<lparr>sr_event_bytes = Some (ne_event_bytes e), sr_event_id = ne_event_id e\<rparr>)"
    using assms(3) by (simp add: store_get_event_def db' as_key_def)
  moreover have "append_event db' v (e\<lparr>ne_event_id := i, ne_event_bytes := b\<rparr>) = Inl SqliteConstraint"
    by (simp add: append_event_def db')
  moreover have "(w, s) \<noteq> (v, ne_seq e) \<longrightarrow> store_get_event db' w s = store_get_event db w s"
    by (simp add: store_get_event_def db')
  ultimately show ?thesis by blast
qed

definition demo_db :: database where
  "demo_db = empty_db\<lparr>db_visit := [(demo_visit, \<lparr>vc_opened_ms = 5, vc_closed_ms = None,
     vc_private = False, vc_host = demo_host, vc_close_reason = None\<rparr>)]\<rparr>"

lemma demo_db: "open_visit empty_db demo_visit demo_host 5 = Inr demo_db"
  by (simp add: open_visit_def demo_db_def empty_db_def)

lemma demo_db_ok: "store_ok demo_db"
  by (rule open_visit_ok [OF empty_db_ok demo_db]) simp_all

definition demo_new_event :: new_event where
  "demo_new_event = \<lparr>ne_seq = 0, ne_event_id = se_event_id demo_e0,
     ne_event_bytes = event_to_bytes demo_e0\<rparr>"

theorem append_then_get_witness:
  "\<exists>db'. append_event demo_db demo_visit demo_new_event = Inr db' \<and>
     store_get_event db' demo_visit 0 =
       Inr (Some \<lparr>sr_event_bytes = Some (event_to_bytes demo_e0), sr_event_id = se_event_id demo_e0\<rparr>)"
proof -
  obtain db' where db': "append_event demo_db demo_visit demo_new_event = Inr db'"
    by (simp add: append_event_def demo_db_def empty_db_def)
  then show ?thesis
    using append_then_get [OF demo_db_ok db'] by (simp add: demo_new_event_def)
qed

lemma delete_visit_other:
  assumes "w \<noteq> v"
  shows "visit_row_of (delete_visit db v) w = visit_row_of db w"
    and "events_for_visit (delete_visit db v) w = events_for_visit db w"
proof -
  show "visit_row_of (delete_visit db v) w = visit_row_of db w"
    using assms by (simp add: visit_row_of_def delete_visit_def delete_rows_get)
  have "filter (\<lambda>((x, _), _). x = w) (delete_rows (\<lambda>k. fst k = v) m) =
      filter (\<lambda>((x, _), _). x = w) m" for m :: "((bytes \<times> u64) \<times> message_cols) list"
    using assms by (induction m) (auto simp: delete_rows_def)
  then show "events_for_visit (delete_visit db v) w = events_for_visit db w"
    by (simp add: events_for_visit_def visit_rows_def delete_visit_def)
qed

text \<open>deleting a visit for real leaves no row of any table with its id, changes no row of
  another visit, and no view computed from the store afterwards names it (R-45, R-49).\<close>

theorem delete_visit_complete:
  assumes "store_ok db" and "db' = delete_visit_for_real db v"
    and "recordings_from_store C K db' now_ms = Inr rs"
  shows "v \<notin> visits db' \<union> owners (db_message db') \<union> owners (db_participant db') \<union>
      owners (db_device db') \<union> owners (db_attachment db') \<and>
    (w \<noteq> v \<longrightarrow> visit_row_of db' w = visit_row_of db w \<and>
      events_for_visit db' w = events_for_visit db w) \<and>
    v \<notin> rec_visit ` set rs \<and> rec_visit ` set rs = visits db - {v}"
proof -
  have ok: "store_ok db'"
    using assms(1,2) delete_visit_ok by (simp add: delete_visit_for_real_def)
  obtain vs where vs: "list_visits db' = Inr vs" "set vs = visits db'"
    by (rule list_visits_ok [OF ok])
  then have "replay_visits C K db' now_ms vs = Inr rs"
    using assms(3) by (simp add: recordings_from_store_def)
  then have "map rec_visit rs = vs" by (rule replay_visits_visit)
  then have names: "rec_visit ` set rs = visits db - {v}"
    using vs(2) arg_cong [of _ _ set] by (simp add: assms(2) delete_visit_for_real_def visits_delete flip: set_map)
  have "w \<noteq> v \<longrightarrow> visit_row_of db' w = visit_row_of db w \<and>
      events_for_visit db' w = events_for_visit db w"
    using delete_visit_other by (simp add: assms(2) delete_visit_for_real_def)
  moreover have "v \<notin> visits db' \<union> owners (db_message db') \<union> owners (db_participant db') \<union>
      owners (db_device db') \<union> owners (db_attachment db')"
    using visits_delete [of db v]
    unfolding assms(2) delete_visit_for_real_def by simp (simp add: delete_visit_def)
  ultimately show ?thesis using names by simp
qed

theorem delete_visit_complete_witness:
  "demo_visit \<notin> visits (delete_visit_for_real demo_db demo_visit)"
proof -
  have "recordings_from_store rfc8949 demo_crypto (delete_visit_for_real demo_db demo_visit) 9 = Inr []"
    by (simp add: recordings_from_store_def delete_visit_for_real_def delete_visit_def demo_db_def
        empty_db_def delete_rows_def list_visits_def)
  from delete_visit_complete [OF demo_db_ok refl this] show ?thesis by simp
qed

section \<open>The recording and the store together\<close>

text \<open>C20: a visit that was opened in the store and whose events were stored as they were
  accepted is rebuilt exactly: replaying the store at the same clock gives the very recording
  that the live visit had, for any number of events up to \<open>2 ^ 63\<close> (R-48).\<close>

theorem replay_round_trip:
  assumes "store_ok db" and "hash_lengths K"
    and "recording_new visit host = Inr r0" and "open_visit db visit host t = Inr db0"
    and "length visit = 32" and "length host = 32"
    and "live_visit C K now_ms (r0, db0) bss = Some (r, db')" and "length bss \<le> 2 ^ 63"
  shows "recording_from_store C K db' visit host now_ms = Inr r"
proof -
  note start = mirrored_start [OF assms(3,4,1)]
  have "store_ok db0" by (rule open_visit_ok [OF assms(1,4,5,6)])
  then have "mirrored C K now_ms r0 (0 + length bss) r db' \<and> store_ok db' \<and>
      rec_visit r = rec_visit r0"
    using live_visit_mirrored [OF assms(7) start(1)] assms(2) by (simp add: hash_lengths_def)
  then show ?thesis
    using replay_mirrored [OF _ _ assms(8,3)] start(2) by simp
qed

lemma demo_live:
  "\<exists>db. live_visit rfc8949 demo_crypto 9 (demo_new, demo_db)
     [event_to_bytes demo_e0, event_to_bytes demo_e1, event_to_bytes demo_e2] = Some (demo_r3, db)"
proof -
  have visit: "rec_visit demo_new = demo_visit" "rec_visit demo_r1 = demo_visit"
    "rec_visit demo_r2 = demo_visit"
    by (simp_all add: demo_states)
  show ?thesis
    by (simp add: demo_ingest0 demo_ingest1 demo_ingest2 visit append_event_def demo_db_def
        empty_db_def)
qed

theorem replay_round_trip_witness:
  "\<exists>db. recording_from_store rfc8949 demo_crypto db demo_visit demo_host 9 = Inr demo_r3"
proof -
  obtain db where "live_visit rfc8949 demo_crypto 9 (demo_new, demo_db)
      [event_to_bytes demo_e0, event_to_bytes demo_e1, event_to_bytes demo_e2] = Some (demo_r3, db)"
    using demo_live by blast
  from replay_round_trip [OF empty_db_ok hash_lengths_demo demo_new demo_db _ _ this] show ?thesis
    by auto
qed

lemma tombstone_all_result:
  "tombstone_all db v seqs = (db', Inr ()) \<Longrightarrow> store_ok db \<Longrightarrow>
     store_ok db' \<and>
     (\<forall>w s. store_get_event db' w s =
       (if w = v \<and> s \<in> set seqs
        then map_sum id (map_option (\<lambda>row. row\<lparr>sr_event_bytes := None\<rparr>)) (store_get_event db w s)
        else store_get_event db w s))"
proof (induction seqs arbitrary: db)
  case Nil
  then show ?case by simp
next
  case (Cons s seqs)
  obtain db1 t where step: "tombstone_event db v s = (db1, Inr t)"
    and rest: "tombstone_all db1 v seqs = (db', Inr ())"
    using Cons(2) by (auto split: prod.splits sum.splits)
  have ok: "store_ok db1" by (rule tombstone_event_ok [OF Cons(3) step])
  have "store_get_event db1 w x =
      (if w = v \<and> x = s
       then map_sum id (map_option (\<lambda>row. row\<lparr>sr_event_bytes := None\<rparr>)) (store_get_event db w x)
       else store_get_event db w x)" for w x
    using step
    by (auto simp: tombstone_event_def store_get_event_rows [OF ok] store_get_event_rows [OF Cons(3)]
        update_rows_get option.map_comp comp_def split: option.splits)
  then show ?case
    using Cons.IH [OF rest ok]
    by (auto simp: store_get_event_rows [OF Cons(3)] option.map_comp comp_def)
qed

lemma live_seqs_set: "set (live_seqs r) = event_seqs r"
proof -
  define D where "D = dom (hm_get (rec_slots r))"
  have sub: "event_seqs r \<subseteq> D" and fin: "finite D"
    by (auto simp: D_def event_seqs_def get_event_slot)
  have live: "set (live_seqs r) = (if D = {} then {} else {Min D..Max D} \<inter> event_seqs r)"
    by (auto simp: live_seqs_def seq_range_dom seqs_between_set is_event_at_def event_seqs_def Let_def
        simp flip: D_def)
  show ?thesis
  proof (cases "D = {}")
    case False
    have "s \<in> event_seqs r \<Longrightarrow> s \<in> {Min D..Max D}" for s using sub fin by auto
    then show ?thesis using live False by auto
  qed (use live sub in auto)
qed

text \<open>honouring a drop request in the recording and in the store: when it succeeds, the
  result lists in ascending order exactly the seqs that held an event before and hold a
  tombstone now; each of their rows keeps its id and has lost its bytes; and every other
  row of the store reads as before (R-41, R-50).\<close>

theorem honour_both_halves:
  assumes "store_ok db" and "view_honour_drop_request db v r request = (db', r', Inr seqs)"
  shows "sorted seqs \<and>
    set seqs = {s. get_event r s \<noteq> None \<and> tombstone_at r' s \<noteq> None} \<and>
    (\<forall>w s. store_get_event db' w s =
       (if w = v \<and> s \<in> set seqs
        then map_sum id (map_option (\<lambda>row. row\<lparr>sr_event_bytes := None\<rparr>)) (store_get_event db w s)
        else store_get_event db w s))"
proof -
  have
    seqs: "seqs = sort (filter (\<lambda>seq. tombstone_at r' seq \<noteq> None) (live_seqs r))"
    and all: "tombstone_all db v seqs = (db', Inr ())"
    using assms(2) by (auto simp: view_honour_drop_request_def Let_def split: prod.splits sum.splits)
  have "set seqs = {s. get_event r s \<noteq> None \<and> tombstone_at r' s \<noteq> None}"
    by (auto simp: seqs live_seqs_set event_seqs_def)
  then show ?thesis
    using tombstone_all_result [OF all assms(1)] by (simp add: seqs)
qed

definition demo_row :: "signed_event \<Rightarrow> message_cols" where
  "demo_row ev = \<lparr>mc_event_id = se_event_id ev, mc_event_bytes = Some (event_to_bytes ev),
     mc_tombstone = False\<rparr>"

definition demo_dropped_row :: "signed_event \<Rightarrow> message_cols" where
  "demo_dropped_row ev = \<lparr>mc_event_id = se_event_id ev, mc_event_bytes = None, mc_tombstone = True\<rparr>"

definition demo_db4 :: database where
  "demo_db4 = demo_db\<lparr>db_message := [((demo_visit, 0), demo_row demo_e0),
     ((demo_visit, 1), demo_row demo_e1), ((demo_visit, 2), demo_row demo_e2),
     ((demo_visit, 3), demo_row demo_e3)]\<rparr>"

definition demo_db5 :: database where
  "demo_db5 = demo_db\<lparr>db_message := [((demo_visit, 0), demo_dropped_row demo_e0),
     ((demo_visit, 1), demo_dropped_row demo_e1), ((demo_visit, 2), demo_dropped_row demo_e2),
     ((demo_visit, 3), demo_row demo_e3)]\<rparr>"

lemma demo_db_rows_ok: "store_ok demo_db4" "store_ok demo_db5"
  by (simp_all add: demo_db4_def demo_db5_def demo_db_def empty_db_def store_ok_defs owners_def
      visits_def values_ok_def visit_ok_def message_ok_def demo_row_def demo_dropped_row_def hm_wf_def)

lemma demo_view_honour:
  "view_honour_drop_request demo_db4 demo_visit demo_r4 (se_event_id demo_e3) =
     (demo_db5, demo_r4_honoured, Inr [0, 1, 2])"
proof -
  have "seq_range demo_r4 = Some (0, 3)"
    by (simp add: seq_range_def demo_states)
  moreover have "seqs_between 0 3 = [0, 1, 2, 3]"
    by (simp add: seqs_between_def upt_conv_Cons)
  moreover have "is_event_at demo_r4 s = (s \<in> {0, 1, 2, 3})" for s
    by (simp add: is_event_at_def get_event_def demo_states)
  ultimately have live: "live_seqs demo_r4 = [0, 1, 2, 3]"
    by (simp add: live_seqs_def)
  have tombs: "tombstone_at demo_r4_honoured s =
      (if s = 0 then Some \<lparr>tomb_seq = 0, tomb_event_id = se_event_id demo_e0\<rparr>
       else if s = 1 then Some \<lparr>tomb_seq = 1, tomb_event_id = se_event_id demo_e1\<rparr>
       else if s = 2 then Some \<lparr>tomb_seq = 2, tomb_event_id = se_event_id demo_e2\<rparr> else None)" for s
    by (simp add: tombstone_at_def demo_r4_honoured_def tombstone_of_def)
  have "tombstone_all demo_db4 demo_visit [0, 1, 2] = (demo_db5, Inr ())"
    by (simp add: tombstone_event_def demo_db4_def demo_db5_def demo_db_def empty_db_def
        update_rows_def demo_row_def demo_dropped_row_def as_key_def)
  then show ?thesis
    by (simp add: view_honour_drop_request_def demo_honour Let_def live tombs)
qed

theorem honour_both_halves_witness:
  "store_get_event demo_db5 demo_visit 2 =
     Inr (Some \<lparr>sr_event_bytes = None, sr_event_id = se_event_id demo_e2\<rparr>)"
  using honour_both_halves [OF demo_db_rows_ok(1) demo_view_honour]
  by (simp add: store_get_event_def demo_db4_def demo_row_def as_key_def)

lemma replay_tombstones:
  "\<forall>(s, x) \<in> set rows. sr_event_bytes x = None \<Longrightarrow>
     \<exists>r'. replay_rows C K r now_ms rows = Inr r' \<and>
       rec_participants r' = rec_participants r \<and>
       rec_devices_in_force r' = rec_devices_in_force r"
proof (induction rows arbitrary: r)
  case (Cons row rows)
  then show ?case by (cases row) (fastforce simp: insert_tombstone_def)
qed simp

text \<open>a visit whose stored rows are tombstones up to an event that is no join or leave
  cannot be replayed: the tombstones carry no joins, so that event has no admitted author.
  This is the state of the store after a drop request for the whole visit was honoured, so
  the views of the whole house can no longer be computed from it.\<close>

theorem replay_fails_after_full_drop:
  assumes "events_for_visit db visit = Inr (rows @ (n, row) # rest)"
    and "\<forall>(s, x) \<in> set rows. sr_event_bytes x = None"
    and "sr_event_bytes row = Some bs" and "parse_event C K bs = Inr ev"
    and "\<not> is_membership (se_body ev)"
  shows "\<exists>e. recording_from_store C K db visit host now_ms = Inl e"
proof (cases "recording_new visit host")
  case (Inr r0)
  then have r0: "rec_participants r0 = []" "rec_devices_in_force r0 = []"
    by (auto simp: recording_new_def split: if_splits)
  obtain r1 where replay: "replay_rows C K r0 now_ms rows = Inr r1"
    and r1: "rec_participants r1 = []" "rec_devices_in_force r1 = []"
    using replay_tombstones [OF assms(2), of C K r0 now_ms] r0 by auto
  have "\<exists>r2 e. ingest C K r1 bs now_ms = (r2, Inl e)"
  proof (rule ccontr)
    assume "\<not> ?thesis"
    then obtain r2 eid where "ingest C K r1 bs now_ms = (r2, Inr eid)"
      by (metis old.prod.exhaust sum.exhaust)
    then have "ingest_event r1 ev now_ms = (r2, Inr eid)"
      using assms(4) by (auto elim: ingest_accepted)
    then have "admit_author r1 (env_author (se_envelope ev)) (env_seq (se_envelope ev)) now_ms
        (se_body ev) = Inr ()"
      by (rule ingest_event_accepted)
    from admitted(1) [OF this assms(5)] show False
      by (simp add: author_status_def join_device_status_def r1)
  qed
  then obtain r2 e where "ingest C K r1 bs now_ms = (r2, Inl e)" by blast
  then have "replay_rows C K r0 now_ms (rows @ (n, row) # rest) = Inl (IngestFailed e)"
    unfolding replay_rows_append [OF replay] by (simp add: assms(3))
  then show ?thesis
    by (simp add: recording_from_store_def Inr assms(1))
qed (simp add: recording_from_store_def)

theorem replay_fails_after_full_drop_witness:
  "\<exists>e. recording_from_store rfc8949 demo_crypto demo_db5 demo_visit demo_host 9 = Inl e"
proof (rule replay_fails_after_full_drop [OF _ _ _ demo_parses(4)])
  let ?dropped = "\<lambda>ev. \<lparr>sr_event_bytes = None, sr_event_id = se_event_id ev\<rparr>"
  have "visit_rows demo_db5 demo_visit = [(0, demo_dropped_row demo_e0), (1, demo_dropped_row demo_e1),
      (2, demo_dropped_row demo_e2), (3, demo_row demo_e3)]"
    by (simp add: visit_rows_def demo_db5_def)
  then show "events_for_visit demo_db5 demo_visit =
      Inr ([(0, ?dropped demo_e0), (1, ?dropped demo_e1), (2, ?dropped demo_e2)] @
        (3, \<lparr>sr_event_bytes = Some (event_to_bytes demo_e3), sr_event_id = se_event_id demo_e3\<rparr>) # [])"
    by (simp add: events_for_visit_def demo_row_def demo_dropped_row_def as_key_def)
qed (simp_all add: demo_drop_all_def)

end
