(* ===== verification/NetAddr.thy ===== *)
theory NetAddr
  imports Cbor
begin

text \<open>
  Socket addresses of the network crate: \<open>std::net::SocketAddr\<close>, \<open>unmap_v4\<close> of
  \<open>sock.rs\<close>, and the fixed 19 byte \<open>Addr\<close> of \<open>gate/wire.rs\<close> with its two byte encodings
  (the one of the control frames and the one of the probes) and its CBOR form.
\<close>

section \<open>Socket addresses\<close>

text \<open>
  The octets of an IPv4 and an IPv6 address; a \<open>SocketAddrV6\<close> also carries a flow label
  and a scope id, which its equality compares.
\<close>

datatype socket_addr =
    V4 (sa_octets: bytes) (sa_port: u16)
  | V6 (sa_octets: bytes) (sa_port: u16) (sa_flowinfo: u32) (sa_scope_id: u32)

definition socket_addr_wf :: "socket_addr \<Rightarrow> bool" where
  "socket_addr_wf a \<longleftrightarrow>
     (case a of V4 ip _ \<Rightarrow> length ip = 4 | V6 ip _ _ _ \<Rightarrow> length ip = 16)"

text \<open>\<open>Ipv6Addr::to_ipv4_mapped\<close>: the last four octets of \<open>::ffff:a.b.c.d\<close>.\<close>

definition to_ipv4_mapped :: "bytes \<Rightarrow> bytes option" where
  "to_ipv4_mapped ip =
     (if take 12 ip = replicate 10 0 @ [0xFF, 0xFF] then Some (drop 12 ip) else None)"

definition unmap_v4 :: "socket_addr \<Rightarrow> socket_addr" where
  "unmap_v4 addr =
     (case addr of
        V6 ip port flow scope \<Rightarrow>
          (case to_ipv4_mapped ip of
             Some v4 \<Rightarrow> V4 v4 port
           | None \<Rightarrow> addr)
      | V4 _ _ \<Rightarrow> addr)"

lemma unmap_v4_V4 [simp]: "unmap_v4 (V4 ip port) = V4 ip port"
  by (simp add: unmap_v4_def)

lemma unmap_v4_idem [simp]: "unmap_v4 (unmap_v4 a) = unmap_v4 a"
  by (simp add: unmap_v4_def split: socket_addr.splits option.splits)

lemma unmap_v4_wf: "socket_addr_wf a \<Longrightarrow> socket_addr_wf (unmap_v4 a)"
  by (auto simp: unmap_v4_def socket_addr_wf_def to_ipv4_mapped_def
      split: socket_addr.splits option.splits if_splits)

lemma unmap_v4_port [simp]: "sa_port (unmap_v4 a) = sa_port a"
  by (cases a) (simp_all add: unmap_v4_def split: option.splits)

text \<open>An address in normal form: \<open>unmap_v4\<close> leaves it alone.\<close>

definition unmapped :: "socket_addr \<Rightarrow> bool" where
  "unmapped a \<longleftrightarrow> unmap_v4 a = a"

lemma unmapped_unmap [simp]: "unmapped (unmap_v4 a)"
  by (simp add: unmapped_def)

section \<open>The fixed address encoding\<close>

record addr =
  addr_family :: u8
  addr_bytes :: bytes
  addr_port :: u16

definition addr_wf :: "addr \<Rightarrow> bool" where
  "addr_wf a \<longleftrightarrow> length (addr_bytes a) = 16"

definition from_socket_addr :: "socket_addr \<Rightarrow> addr" where
  "from_socket_addr a =
     (case a of
        V4 ip port \<Rightarrow>
          \<lparr>addr_family = 4, addr_bytes = ip @ replicate 12 0, addr_port = port\<rparr>
      | V6 ip port _ _ \<Rightarrow>
          \<lparr>addr_family = 6, addr_bytes = ip, addr_port = port\<rparr>)"

definition to_socket_addr :: "addr \<Rightarrow> socket_addr option" where
  "to_socket_addr a =
     (if addr_family a = 4 then Some (V4 (take 4 (addr_bytes a)) (addr_port a))
      else if addr_family a = 6 then Some (V6 (addr_bytes a) (addr_port a) 0 0)
      else None)"

definition addr_to_raw :: "addr \<Rightarrow> bytes" where
  "addr_to_raw a = addr_family a # addr_bytes a @ to_be 2 (addr_port a)"

text \<open>The fields of a 19 byte string, as both decoders read them.\<close>

definition addr_of_raw :: "bytes \<Rightarrow> addr" where
  "addr_of_raw raw =
     \<lparr>addr_family = raw ! 0, addr_bytes = take 16 (drop 1 raw),
      addr_port = from_be [raw ! 17, raw ! 18]\<rparr>"

definition wire_from_raw :: "bytes \<Rightarrow> decode_error + addr" where
  "wire_from_raw raw =
     (if length raw \<noteq> 19 then Inl (DecodeMessage ''Addr must be exactly 19 bytes'')
      else Inr (addr_of_raw raw))"

definition addr_from_raw :: "bytes \<Rightarrow> addr option" where
  "addr_from_raw raw = (if length raw \<noteq> 19 then None else Some (addr_of_raw raw))"

definition wire_addr_encode :: "minicbor \<Rightarrow> addr \<Rightarrow> bytes" where
  "wire_addr_encode C a = enc_bytes C (addr_to_raw a)"

definition wire_addr_decode :: "minicbor \<Rightarrow> bytes \<Rightarrow> decode_error + addr \<times> bytes" where
  "wire_addr_decode C d =
     and_then (dec_bytes C d) (\<lambda>(raw, d). and_then (wire_from_raw raw) (\<lambda>a. Inr (a, d)))"

definition read_addr :: "minicbor \<Rightarrow> bytes \<Rightarrow> decode_error + addr \<times> bytes" where
  "read_addr C d =
     and_then (dec_bytes C d) (\<lambda>(raw, d).
     and_then (ok_or (addr_from_raw raw) (DecodeMessage ''Addr must be exactly 19 bytes''))
       (\<lambda>a. Inr (a, d)))"

lemma length_addr_to_raw: "addr_wf a \<Longrightarrow> length (addr_to_raw a) = 19"
  by (simp add: addr_to_raw_def addr_wf_def)

lemma addr_of_raw_wf: "length raw = 19 \<Longrightarrow> addr_wf (addr_of_raw raw)"
  by (simp add: addr_of_raw_def addr_wf_def)

lemma addr_from_raw_wf: "addr_from_raw raw = Some a \<Longrightarrow> addr_wf a"
  by (auto simp: addr_from_raw_def addr_of_raw_wf split: if_splits)

lemma from_be_16: "from_be [hi, lo] = (of_nat (unat hi * 256 + unat lo) :: u16)"
  by (simp add: from_be_def)

lemma to_be_from_be16 [simp]: "to_be 2 (from_be [hi, lo] :: u16) = [hi, lo]"
proof -
  have "unat hi * 256 + unat lo < 2 ^ 16"
    using unat_u8 [of hi] unat_u8 [of lo] by simp
  then have "unat (from_be [hi, lo] :: u16) = unat hi * 256 + unat lo"
    by (simp add: from_be_16 unat_of_nat del: of_nat_add of_nat_mult)
  moreover have "nat_be 2 n = [of_nat (n div 256), of_nat n]" for n
    by (simp add: numeral_2_eq_2)
  moreover have "(unat hi * 256 + unat lo) div 256 = unat hi"
    using unat_u8 [of lo] by simp
  moreover have "of_nat (unat hi * 256 + unat lo) = lo"
    by (rule word_unat_eq_iff [THEN iffD2])
      (use unat_u8 [of lo] in \<open>simp add: unat_of_nat del: of_nat_add of_nat_mult\<close>)
  ultimately show ?thesis
    by (simp add: to_be_def del: of_nat_add of_nat_mult)
qed

lemma addr_of_raw_to_raw: "addr_wf a \<Longrightarrow> addr_of_raw (addr_to_raw a) = a"
proof -
  assume wf: "addr_wf a"
  obtain hi lo where p: "to_be 2 (addr_port a) = [hi, lo]"
    using length_to_be [of 2 "addr_port a"]
    by (metis (no_types, opaque_lifting) One_nat_def Suc_1 length_0_conv length_Suc_conv)
  then have "from_be [hi, lo] = addr_port a"
    by (metis from_be_to_be16)
  with wf p show ?thesis
    by (simp add: addr_of_raw_def addr_to_raw_def addr_wf_def nth_append)
qed

lemma addr_to_raw_of_raw:
  assumes "length raw = 19"
  shows "addr_to_raw (addr_of_raw raw) = raw"
proof -
  have "drop 17 raw = [raw ! 17, raw ! 18]"
    using assms by (simp flip: Cons_nth_drop_Suc)
  moreover have "drop 1 raw = take 16 (drop 1 raw) @ drop 17 raw"
    using append_take_drop_id [of 16 "drop 1 raw"] by simp
  moreover have "raw = raw ! 0 # drop 1 raw"
    using assms Cons_nth_drop_Suc [of 0 raw] by simp
  ultimately have "raw = raw ! 0 # take 16 (drop 1 raw) @ [raw ! 17, raw ! 18]"
    by metis
  then show ?thesis
    by (simp add: addr_of_raw_def addr_to_raw_def)
qed

lemma addr_from_raw_iff: "addr_from_raw raw = Some a \<longleftrightarrow> addr_wf a \<and> raw = addr_to_raw a"
  by (auto simp: addr_from_raw_def length_addr_to_raw addr_of_raw_to_raw addr_to_raw_of_raw
      addr_of_raw_wf split: if_splits)

lemma wire_from_raw_iff: "wire_from_raw raw = Inr a \<longleftrightarrow> addr_wf a \<and> raw = addr_to_raw a"
  by (auto simp: wire_from_raw_def length_addr_to_raw addr_of_raw_to_raw addr_to_raw_of_raw
      addr_of_raw_wf split: if_splits)

lemma from_socket_addr_wf: "socket_addr_wf a \<Longrightarrow> addr_wf (from_socket_addr a)"
  by (auto simp: socket_addr_wf_def addr_wf_def from_socket_addr_def split: socket_addr.splits)

lemma to_socket_addr_wf: "addr_wf a \<Longrightarrow> to_socket_addr a = Some s \<Longrightarrow> socket_addr_wf s"
  by (auto simp: socket_addr_wf_def addr_wf_def to_socket_addr_def split: if_splits)

text \<open>What the encoding forgets: the flow label and the scope of an IPv6 address.\<close>

definition without_scope :: "socket_addr \<Rightarrow> socket_addr" where
  "without_scope a = (case a of V4 ip p \<Rightarrow> V4 ip p | V6 ip p _ _ \<Rightarrow> V6 ip p 0 0)"

lemma to_from_socket_addr:
  "socket_addr_wf a \<Longrightarrow> to_socket_addr (from_socket_addr a) = Some (without_scope a)"
  by (auto simp: socket_addr_wf_def to_socket_addr_def from_socket_addr_def without_scope_def
      split: socket_addr.splits)

context minicbor_contract
begin

lemma wire_addr_round_trip [simp]:
  "addr_wf a \<Longrightarrow> wire_addr_decode C (wire_addr_encode C a @ r) = Inr (a, r)"
  by (simp add: wire_addr_decode_def wire_addr_encode_def length_addr_to_raw
      wire_from_raw_def addr_of_raw_to_raw)

lemma read_addr_round_trip [simp]:
  "addr_wf a \<Longrightarrow> read_addr C (enc_bytes C (addr_to_raw a) @ r) = Inr (a, r)"
  by (simp add: read_addr_def length_addr_to_raw addr_from_raw_def addr_of_raw_to_raw)

end

end
