(* ===== verification/Probe.thy ===== *)
theory Probe
  imports Identity NetAddr
begin

text \<open>
  The probe packet and the porch stream frames of \<open>punch.rs\<close>: \<open>probe_key\<close>, the fixed 81
  byte probe with its keyed hash, and frames 16 to 19 as CBOR. \<open>blake3\<close> and \<open>minicbor\<close>
  are the parameters of \<open>Identity\<close> and \<open>Cbor\<close>. Reading and writing the frames on a QUIC
  stream, with their length prefix and deadline, is input and output and is not modelled.
\<close>

section \<open>Probes\<close>

definition PROBE_DISCRIMINATOR :: u8 where "PROBE_DISCRIMINATOR = 0x2A"
definition PROBE_LEN :: nat where "PROBE_LEN = 81"
definition PROBE_PING :: u8 where "PROBE_PING = 0x01"
definition PROBE_PONG :: u8 where "PROBE_PONG = 0x02"

definition probe_key :: "crypto \<Rightarrow> bytes \<Rightarrow> bytes \<Rightarrow> bytes \<Rightarrow> bytes" where
  "probe_key K attempt half_initiator half_responder =
     blake3 K (ascii ''mosschat-probe-v1'' @ attempt @ half_initiator @ half_responder)"

record probe =
  pr_kind :: u8
  pr_attempt :: bytes
  pr_tx :: bytes
  pr_observed :: addr

definition probe_wf :: "probe \<Rightarrow> bool" where
  "probe_wf p \<longleftrightarrow> length (pr_attempt p) = 16 \<and> length (pr_tx p) = 8 \<and> addr_wf (pr_observed p)"

text \<open>Bytes 0 to 48, which the keyed hash covers.\<close>

definition probe_plain :: "probe \<Rightarrow> bytes" where
  "probe_plain p =
     PROBE_DISCRIMINATOR # ascii ''MSP'' @ [0x01, pr_kind p] @ pr_attempt p @ pr_tx p @
     addr_to_raw (pr_observed p)"

definition probe_encode :: "crypto \<Rightarrow> bytes \<Rightarrow> probe \<Rightarrow> bytes" where
  "probe_encode K key p = probe_plain p @ blake3_keyed K key (probe_plain p)"

definition probe_decode :: "crypto \<Rightarrow> bytes \<Rightarrow> bytes \<Rightarrow> probe option" where
  "probe_decode K key bs =
     (if length bs \<noteq> PROBE_LEN then None
      else if bs ! 0 \<noteq> PROBE_DISCRIMINATOR \<or> take 3 (drop 1 bs) \<noteq> ascii ''MSP'' \<or> bs ! 4 \<noteq> 0x01
      then None
      else if bs ! 5 \<noteq> PROBE_PING \<and> bs ! 5 \<noteq> PROBE_PONG then None
      else if blake3_keyed K key (take 49 bs) \<noteq> take 32 (drop 49 bs) then None
      else (case addr_from_raw (take 19 (drop 30 bs)) of
              None \<Rightarrow> None
            | Some observed \<Rightarrow>
                Some \<lparr>pr_kind = bs ! 5, pr_attempt = take 16 (drop 6 bs),
                      pr_tx = take 8 (drop 22 bs), pr_observed = observed\<rparr>))"

definition is_probe :: "bytes \<Rightarrow> bool" where
  "is_probe segment \<longleftrightarrow>
     (segment \<noteq> [] \<and> segment ! 0 = PROBE_DISCRIMINATOR) \<and> length segment = PROBE_LEN"

lemma ascii_MSP [simp]: "ascii ''MSP'' = [0x4D, 0x53, 0x50]"
  by (simp add: ascii_def)

lemma length_probe_plain: "probe_wf p \<Longrightarrow> length (probe_plain p) = 49"
  by (simp add: probe_plain_def probe_wf_def length_addr_to_raw)

lemma length_probe_encode:
  "hash_lengths K \<Longrightarrow> probe_wf p \<Longrightarrow> length (probe_encode K key p) = PROBE_LEN"
  by (simp add: probe_encode_def length_probe_plain hash_lengths_def PROBE_LEN_def)

text \<open>The slices of a packet whose first 49 bytes are \<open>probe_plain p\<close>.\<close>

lemma probe_plain_slices:
  assumes "probe_wf p"
  shows "(probe_plain p @ r) ! 0 = PROBE_DISCRIMINATOR"
    and "take 3 (drop 1 (probe_plain p @ r)) = ascii ''MSP''"
    and "(probe_plain p @ r) ! 4 = 0x01"
    and "(probe_plain p @ r) ! 5 = pr_kind p"
    and "take 16 (drop 6 (probe_plain p @ r)) = pr_attempt p"
    and "take 8 (drop 22 (probe_plain p @ r)) = pr_tx p"
    and "take 19 (drop 30 (probe_plain p @ r)) = addr_to_raw (pr_observed p)"
    and "take 49 (probe_plain p @ r) = probe_plain p"
    and "drop 49 (probe_plain p @ r) = r"
  using assms length_probe_plain [OF assms]
  by (simp_all add: probe_plain_def probe_wf_def length_addr_to_raw)

lemma probe_decode_encode:
  assumes "hash_lengths K" and wf: "probe_wf p"
    and "pr_kind p = PROBE_PING \<or> pr_kind p = PROBE_PONG"
  shows "probe_decode K key (probe_encode K key p) = Some p"
proof -
  let ?r = "blake3_keyed K key (probe_plain p)"
  have "length (probe_plain p @ ?r) = PROBE_LEN" and r: "take 32 ?r = ?r"
    using length_probe_encode [OF assms(1,2)] assms(1)
    by (simp_all add: probe_encode_def hash_lengths_def)
  moreover have "addr_from_raw (addr_to_raw (pr_observed p)) = Some (pr_observed p)"
    using wf by (simp add: addr_from_raw_iff probe_wf_def)
  ultimately show ?thesis
    unfolding probe_decode_def probe_encode_def probe_plain_slices [OF wf] using assms(3) by auto
qed

text \<open>Cutting a packet of 81 bytes at the offsets the decoder uses.\<close>

lemma probe_cut:
  assumes "length bs = 81"
  shows "bs = bs ! 0 # take 3 (drop 1 bs) @ [bs ! 4, bs ! 5] @ take 16 (drop 6 bs) @
    take 8 (drop 22 bs) @ take 19 (drop 30 bs) @ take 32 (drop 49 bs)"
proof -
  have cut: "drop i bs = take k (drop i bs) @ drop (i + k) bs" for i k
    by (metis add.commute append_take_drop_id drop_drop)
  have "bs = bs ! 0 # drop 1 bs"
    using assms Cons_nth_drop_Suc [of 0 bs] by simp
  moreover have "drop 4 bs = [bs ! 4, bs ! 5] @ drop 6 bs"
    using assms Cons_nth_drop_Suc [of 4 bs] Cons_nth_drop_Suc [of 5 bs] by simp
  moreover have "drop 49 bs = take 32 (drop 49 bs)"
    using assms by simp
  ultimately show ?thesis
    using cut [of 1 3] cut [of 6 16] cut [of 22 8] cut [of 30 19] by simp
qed

lemma probe_encode_decode:
  assumes "probe_decode K key bs = Some p"
  shows "probe_wf p \<and> (pr_kind p = PROBE_PING \<or> pr_kind p = PROBE_PONG) \<and>
    bs = probe_encode K key p"
proof -
  have len: "length bs = 81" using assms by (auto simp: probe_decode_def PROBE_LEN_def split: if_splits)
  obtain observed where o: "addr_from_raw (take 19 (drop 30 bs)) = Some observed"
    and p: "p = \<lparr>pr_kind = bs ! 5, pr_attempt = take 16 (drop 6 bs), pr_tx = take 8 (drop 22 bs),
      pr_observed = observed\<rparr>"
    using assms by (auto simp: probe_decode_def split: if_splits option.splits)
  have head: "bs ! 0 = PROBE_DISCRIMINATOR" "take 3 (drop 1 bs) = ascii ''MSP''" "bs ! 4 = 0x01"
    and kind: "bs ! 5 = PROBE_PING \<or> bs ! 5 = PROBE_PONG"
    and mac: "blake3_keyed K key (take 49 bs) = take 32 (drop 49 bs)"
    using assms unfolding probe_decode_def by (auto split: if_splits)
  have raw: "addr_wf observed" "take 19 (drop 30 bs) = addr_to_raw observed"
    using o by (simp_all add: addr_from_raw_iff)
  have wf: "probe_wf p" using len raw(1) by (simp add: probe_wf_def p)
  have bs: "bs = probe_plain p @ take 32 (drop 49 bs)"
    using probe_cut [OF len] unfolding head raw(2) by (simp add: probe_plain_def p)
  then have "take 49 bs = probe_plain p"
    by (metis probe_plain_slices(8) wf)
  with bs mac wf kind show ?thesis by (simp add: probe_encode_def p)
qed

section \<open>The porch stream frames\<close>

definition MAX_CANDIDATES :: nat where "MAX_CANDIDATES = 16"

definition T_CANDIDATES :: u8 where "T_CANDIDATES = 16"
definition T_PATH_UP :: u8 where "T_PATH_UP = 17"
definition T_PATH_DOWN :: u8 where "T_PATH_DOWN = 18"
definition T_PORCH_GOODBYE :: u8 where "T_PORCH_GOODBYE = 19"

lemmas porch_types = T_CANDIDATES_def T_PATH_UP_def T_PATH_DOWN_def T_PORCH_GOODBYE_def

text \<open>
  The fields in the order of the source: \<open>v\<close>, then \<open>attempt\<close>, \<open>addrs\<close>, \<open>probe_half\<close> and
  \<open>no_upgrade\<close> of \<open>Candidates\<close>; \<open>attempt\<close>, \<open>addr\<close> and \<open>rtt_us\<close> of \<open>PathUp\<close>; \<open>attempt\<close>,
  \<open>addr\<close> and \<open>reason\<close> of \<open>PathDown\<close>; \<open>reason\<close> of \<open>Goodbye\<close>.
\<close>

datatype porch_frame =
    Candidates u8 bytes "addr list" bytes bool
  | PathUp u8 bytes addr u32
  | PathDown u8 bytes addr u8
  | PorchGoodbye u8 u8

fun porch_wf :: "porch_frame \<Rightarrow> bool" where
  "porch_wf (Candidates v attempt addrs probe_half no_upgrade) \<longleftrightarrow>
     length attempt = 16 \<and> list_all addr_wf addrs \<and> length addrs < 2 ^ 64 \<and>
     length probe_half = 32"
| "porch_wf (PathUp v attempt addr rtt_us) \<longleftrightarrow> length attempt = 16 \<and> addr_wf addr"
| "porch_wf (PathDown v attempt addr reason) \<longleftrightarrow> length attempt = 16 \<and> addr_wf addr"
| "porch_wf (PorchGoodbye v reason) \<longleftrightarrow> True"

fun porch_to_cbor :: "minicbor \<Rightarrow> porch_frame \<Rightarrow> bytes" where
  "porch_to_cbor C (Candidates v attempt addrs probe_half no_upgrade) =
     enc_array C 6 @ enc_u8 C T_CANDIDATES @ enc_u8 C v @ enc_bytes C attempt @
     enc_array C (of_nat (length addrs)) @
     concat (map (\<lambda>addr. enc_bytes C (addr_to_raw addr)) addrs) @
     enc_bytes C probe_half @ enc_bool C no_upgrade"
| "porch_to_cbor C (PathUp v attempt addr rtt_us) =
     enc_array C 5 @ enc_u8 C T_PATH_UP @ enc_u8 C v @ enc_bytes C attempt @
     enc_bytes C (addr_to_raw addr) @ enc_u32 C rtt_us"
| "porch_to_cbor C (PathDown v attempt addr reason) =
     enc_array C 5 @ enc_u8 C T_PATH_DOWN @ enc_u8 C v @ enc_bytes C attempt @
     enc_bytes C (addr_to_raw addr) @ enc_u8 C reason"
| "porch_to_cbor C (PorchGoodbye v reason) =
     enc_array C 3 @ enc_u8 C T_PORCH_GOODBYE @ enc_u8 C v @ enc_u8 C reason"

definition read_16 :: "minicbor \<Rightarrow> bytes \<Rightarrow> decode_error + bytes \<times> bytes" where
  "read_16 C d =
     and_then (dec_bytes C d) (\<lambda>(s, d).
       if length s = 16 then Inr (s, d) else Inl (DecodeMessage ''expected a 16 byte string''))"

fun read_addrs :: "minicbor \<Rightarrow> nat \<Rightarrow> bytes \<Rightarrow> decode_error + addr list \<times> bytes" where
  "read_addrs C 0 d = Inr ([], d)"
| "read_addrs C (Suc n) d =
     and_then (read_addr C d) (\<lambda>(a, d). and_then (read_addrs C n d) (\<lambda>(as, d). Inr (a # as, d)))"

definition porch_candidates :: "minicbor \<Rightarrow> bytes \<Rightarrow> decode_error + porch_frame" where
  "porch_candidates C d =
     and_then (dec_u8 C d) (\<lambda>(v, d).
     and_then (read_16 C d) (\<lambda>(attempt, d).
     and_then (dec_array C d) (\<lambda>(count, d).
     and_then (ok_or count
       (DecodeMessage ''Candidates.addrs must be a definite-length array'')) (\<lambda>count.
     if unat count > MAX_CANDIDATES then
       Inl (DecodeMessage ''Candidates.addrs exceeds its cap'')
     else
     and_then (read_addrs C (unat count) d) (\<lambda>(addrs, d).
     and_then (read_32 C d) (\<lambda>(probe_half, d).
     and_then (dec_bool C d) (\<lambda>(no_upgrade, d).
       Inr (Candidates v attempt addrs probe_half no_upgrade))))))))"

definition porch_from_cbor :: "minicbor \<Rightarrow> bytes \<Rightarrow> decode_error + porch_frame" where
  "porch_from_cbor C bs =
     and_then (dec_array C bs) (\<lambda>(len, d).
     and_then (ok_or len
       (DecodeMessage ''porch frame must be a definite-length array'')) (\<lambda>len.
     and_then (dec_u8 C d) (\<lambda>(frame_type, d).
     if frame_type = T_CANDIDATES \<and> len = 6 then porch_candidates C d
     else if frame_type = T_PATH_UP \<and> len = 5 then
       and_then (dec_u8 C d) (\<lambda>(v, d).
       and_then (read_16 C d) (\<lambda>(attempt, d).
       and_then (read_addr C d) (\<lambda>(addr, d).
       and_then (dec_u32 C d) (\<lambda>(rtt_us, d). Inr (PathUp v attempt addr rtt_us)))))
     else if frame_type = T_PATH_DOWN \<and> len = 5 then
       and_then (dec_u8 C d) (\<lambda>(v, d).
       and_then (read_16 C d) (\<lambda>(attempt, d).
       and_then (read_addr C d) (\<lambda>(addr, d).
       and_then (dec_u8 C d) (\<lambda>(reason, d). Inr (PathDown v attempt addr reason)))))
     else if frame_type = T_PORCH_GOODBYE \<and> len = 3 then
       and_then (dec_u8 C d) (\<lambda>(v, d).
       and_then (dec_u8 C d) (\<lambda>(reason, d). Inr (PorchGoodbye v reason)))
     else Inl (DecodeMessage ''unknown or mis-sized porch frame''))))"

lemma read_16_length: "read_16 C d = Inr (s, d') \<Longrightarrow> length s = 16"
  by (auto simp: read_16_def split: if_splits)

lemma read_addr_wf: "read_addr C d = Inr (a, d') \<Longrightarrow> addr_wf a"
  by (auto simp: read_addr_def dest: addr_from_raw_wf)

lemma read_addrs_wf:
  "read_addrs C n d = Inr (as, d') \<Longrightarrow> length as = n \<and> list_all addr_wf as"
  by (induction n arbitrary: d as d') (auto dest: read_addr_wf)

text \<open>Whatever the bytes, a frame that is accepted is well formed and within the cap.\<close>

fun porch_capped :: "porch_frame \<Rightarrow> bool" where
  "porch_capped (Candidates v attempt addrs probe_half no_upgrade) \<longleftrightarrow>
     length addrs \<le> MAX_CANDIDATES"
| "porch_capped _ \<longleftrightarrow> True"

lemma porch_candidates_sound:
  assumes "porch_candidates C d = Inr f"
  shows "porch_wf f \<and> porch_capped f"
proof -
  obtain v d1 attempt d2 count d3 addrs d4 half d5 no_upgrade d6 where
    "read_16 C d1 = Inr (attempt, d2)" "unat (count :: u64) \<le> MAX_CANDIDATES"
    "read_addrs C (unat count) d3 = Inr (addrs, d4)" "read_32 C d4 = Inr (half, d5)"
    "f = Candidates v attempt addrs half no_upgrade"
    using assms by (auto simp: porch_candidates_def not_less split: if_splits)
  then show ?thesis
    by (auto simp: MAX_CANDIDATES_def dest!: read_16_length read_32_length read_addrs_wf)
qed

lemma porch_from_cbor_sound:
  "porch_from_cbor C bs = Inr f \<Longrightarrow> porch_wf f \<and> porch_capped f"
  by (auto simp: porch_from_cbor_def split: if_splits
      dest!: porch_candidates_sound read_16_length read_addr_wf)

context minicbor_contract
begin

lemma read_16_enc [simp]: "length s = 16 \<Longrightarrow> read_16 C (enc_bytes C s @ r) = Inr (s, r)"
  by (simp add: read_16_def)

lemma read_addrs_enc [simp]:
  "list_all addr_wf as \<Longrightarrow>
   read_addrs C (length as) (concat (map (\<lambda>a. enc_bytes C (addr_to_raw a)) as) @ r) = Inr (as, r)"
  by (induction as) simp_all

lemma porch_round_trip:
  assumes "porch_wf f"
  shows "porch_from_cbor C (porch_to_cbor C f @ r) =
     (if porch_capped f then Inr f else Inl (DecodeMessage ''Candidates.addrs exceeds its cap''))"
proof (cases f)
  case (Candidates v attempt addrs half no_upgrade)
  then have "unat (of_nat (length addrs) :: u64) = length addrs"
    using assms by (simp add: unat_of_nat)
  with Candidates assms show ?thesis
    by (simp add: porch_from_cbor_def porch_candidates_def porch_types)
qed (use assms in \<open>simp_all add: porch_from_cbor_def porch_types\<close>)

end

end
