(* ===== verification/Candidate.thy ===== *)
theory Candidate
  imports Probe
begin

text \<open>
  Candidate addresses (\<open>punch.rs\<close>): where one came from, which addresses a house offers,
  probes and accepts from a peer, and the gathering of its own candidates. Finding the
  local addresses asks the operating system for its routes and is a parameter of
  \<open>gather\<close>. The predicates on \<open>Ipv4Addr\<close> and \<open>Ipv6Addr\<close> are those of the standard library.
\<close>

section \<open>Addresses\<close>

datatype candidate_source = Local | GateReflected | PeerReported | Discovery

fun ip_is_loopback :: "socket_addr \<Rightarrow> bool" where
  "ip_is_loopback (V4 ip _) \<longleftrightarrow> ip ! 0 = 127"
| "ip_is_loopback (V6 ip _ _ _) \<longleftrightarrow> ip = replicate 15 0 @ [1]"

fun ip_is_unspecified :: "socket_addr \<Rightarrow> bool" where
  "ip_is_unspecified (V4 ip _) \<longleftrightarrow> ip = replicate 4 0"
| "ip_is_unspecified (V6 ip _ _ _) \<longleftrightarrow> ip = replicate 16 0"

fun ip_is_multicast :: "socket_addr \<Rightarrow> bool" where
  "ip_is_multicast (V4 ip _) \<longleftrightarrow> 224 \<le> ip ! 0 \<and> ip ! 0 \<le> 239"
| "ip_is_multicast (V6 ip _ _ _) \<longleftrightarrow> ip ! 0 = 0xFF"

definition v4_is_broadcast :: "bytes \<Rightarrow> bool" where
  "v4_is_broadcast ip \<longleftrightarrow> ip = replicate 4 255"

definition v4_is_link_local :: "bytes \<Rightarrow> bool" where
  "v4_is_link_local ip \<longleftrightarrow> ip ! 0 = 169 \<and> ip ! 1 = 254"

definition v4_is_private :: "bytes \<Rightarrow> bool" where
  "v4_is_private ip \<longleftrightarrow>
     ip ! 0 = 10 \<or> ip ! 0 = 172 \<and> 16 \<le> ip ! 1 \<and> ip ! 1 \<le> 31 \<or> ip ! 0 = 192 \<and> ip ! 1 = 168"

text \<open>\<open>fe80::/10\<close> on the first segment, and \<open>fc00::/7\<close> on the first octet.\<close>

definition is_link_local_v6 :: "bytes \<Rightarrow> bool" where
  "is_link_local_v6 ip \<longleftrightarrow> and (from_be (take 2 ip) :: u16) 0xFFC0 = 0xFE80"

definition is_unique_local_v6 :: "bytes \<Rightarrow> bool" where
  "is_unique_local_v6 ip \<longleftrightarrow> and (ip ! 0) 0xFE = 0xFC"

definition is_probeable :: "socket_addr \<Rightarrow> bool" where
  "is_probeable addr \<longleftrightarrow>
     \<not> (sa_port addr = 0 \<or> sa_port addr = 1) \<and>
     (case addr of
        V4 v4 _ \<Rightarrow> \<not> ip_is_unspecified addr \<and> \<not> v4_is_broadcast v4 \<and> \<not> ip_is_multicast addr
      | V6 v6 _ _ _ \<Rightarrow> \<not> ip_is_unspecified addr \<and> \<not> ip_is_multicast addr)"

definition is_gatherable :: "socket_addr \<Rightarrow> bool" where
  "is_gatherable addr \<longleftrightarrow> \<not> ip_is_loopback addr \<and> is_probeable addr"

definition is_globally_routable :: "socket_addr \<Rightarrow> bool" where
  "is_globally_routable addr \<longleftrightarrow>
     (case addr of
        V4 v4 _ \<Rightarrow>
          \<not> ip_is_loopback addr \<and> \<not> v4_is_link_local v4 \<and> \<not> v4_is_private v4 \<and>
          \<not> ip_is_unspecified addr \<and> \<not> v4_is_broadcast v4 \<and> \<not> ip_is_multicast addr
      | V6 v6 _ _ _ \<Rightarrow>
          \<not> ip_is_loopback addr \<and> \<not> ip_is_unspecified addr \<and> \<not> ip_is_multicast addr \<and>
          \<not> is_link_local_v6 v6 \<and> \<not> is_unique_local_v6 v6)"

lemma routable_not_local:
  "is_globally_routable a \<Longrightarrow> \<not> ip_is_loopback a \<and> \<not> ip_is_unspecified a \<and> \<not> ip_is_multicast a"
  by (auto simp: is_globally_routable_def split: socket_addr.splits)

section \<open>Gathering\<close>

type_synonym gathered = "(socket_addr \<times> candidate_source) list"

text \<open>The inner loop; the left side is the early return with the table.\<close>

fun gather_group :: "candidate_source \<Rightarrow> socket_addr list \<Rightarrow> gathered \<Rightarrow> gathered + gathered" where
  "gather_group source [] out = Inr out"
| "gather_group source (addr # addrs) out =
     (if length out \<ge> MAX_CANDIDATES then Inl out
      else if \<not> is_gatherable addr then gather_group source addrs out
      else if addr \<in> fst ` set out then gather_group source addrs out
      else gather_group source addrs (out @ [(addr, source)]))"

definition gather ::
    "socket_addr list \<Rightarrow> socket_addr list \<Rightarrow> socket_addr list \<Rightarrow> gathered" where
  "gather local reflections discovered =
     (case
        and_then (gather_group Local local []) (\<lambda>out.
        and_then (gather_group GateReflected reflections out) (\<lambda>out.
          gather_group Discovery discovered out))
      of Inl out \<Rightarrow> out | Inr out \<Rightarrow> out)"

text \<open>
  A reference for \<open>gather\<close>: tag the three lists, keep what may be offered, keep the first
  of each address and cut the list at the cap.
\<close>

fun first_of_each :: "socket_addr set \<Rightarrow> gathered \<Rightarrow> gathered" where
  "first_of_each seen [] = []"
| "first_of_each seen ((a, s) # xs) =
     (if a \<in> seen then first_of_each seen xs else (a, s) # first_of_each (insert a seen) xs)"

definition offered ::
    "socket_addr list \<Rightarrow> socket_addr list \<Rightarrow> socket_addr list \<Rightarrow> gathered" where
  "offered local reflections discovered =
     filter (\<lambda>(a, _). is_gatherable a)
       (map (\<lambda>a. (a, Local)) local @ map (\<lambda>a. (a, GateReflected)) reflections @
        map (\<lambda>a. (a, Discovery)) discovered)"

definition gather_reference ::
    "socket_addr list \<Rightarrow> socket_addr list \<Rightarrow> socket_addr list \<Rightarrow> gathered" where
  "gather_reference local reflections discovered =
     take MAX_CANDIDATES (first_of_each {} (offered local reflections discovered))"

lemma first_of_each_append:
  "first_of_each seen (xs @ ys) =
     first_of_each seen xs @ first_of_each (seen \<union> fst ` set xs) ys"
  by (induction seen xs rule: first_of_each.induct) (auto simp: insert_absorb Un_assoc)

lemma first_of_each_keys: "fst ` set (first_of_each seen xs) = fst ` set xs - seen"
  by (induction seen xs rule: first_of_each.induct) auto

lemma first_of_each_distinct:
  "distinct (map fst (first_of_each seen xs))"
  by (induction seen xs rule: first_of_each.induct)
     (auto simp: first_of_each_keys simp del: map_map)

lemma first_of_each_subset: "set (first_of_each seen xs) \<subseteq> set xs"
  by (induction seen xs rule: first_of_each.induct) auto

abbreviation tagged :: "candidate_source \<Rightarrow> socket_addr list \<Rightarrow> gathered" where
  "tagged s as \<equiv> filter (\<lambda>(a, _). is_gatherable a) (map (\<lambda>a. (a, s)) as)"


text \<open>The outcome of a loop that would make the table \<open>all\<close> without a cap.\<close>

definition gathers :: "gathered \<Rightarrow> gathered + gathered \<Rightarrow> bool" where
  "gathers all res \<longleftrightarrow>
     (case res of
        Inr out \<Rightarrow> out = all \<and> length out \<le> MAX_CANDIDATES
      | Inl out \<Rightarrow> length out = MAX_CANDIDATES \<and> (\<exists>more. all = out @ more))"

lemma gathers_result:
  assumes "gathers all res"
  shows "(case res of Inl out \<Rightarrow> out | Inr out \<Rightarrow> out) = take MAX_CANDIDATES all"
proof (cases res)
  case (Inl out)
  then show ?thesis using assms by (auto simp: gathers_def)
qed (use assms in \<open>simp add: gathers_def\<close>)

lemma gather_group_step:
  "length out \<le> MAX_CANDIDATES \<Longrightarrow>
   gathers (out @ first_of_each (fst ` set out) (tagged s as)) (gather_group s as out)"
proof (induction s as out rule: gather_group.induct)
  case (1 s out)
  then show ?case by (simp add: gathers_def)
next
  case (2 s a as out)
  show ?case
  proof (cases "length out \<ge> MAX_CANDIDATES")
    case True
    then show ?thesis using "2.prems" by (simp add: gathers_def)
  next
    case room: False
    show ?thesis
    proof (cases "is_gatherable a \<and> a \<notin> fst ` set out")
      case True
      then have "gather_group s (a # as) out = gather_group s as (out @ [(a, s)])"
        using room by auto
      then show ?thesis using "2.IH"(3) [OF room] True room by simp
    next
      case False
      then have "gather_group s (a # as) out = gather_group s as out"
        and "first_of_each (fst ` set out) (tagged s (a # as))
          = first_of_each (fst ` set out) (tagged s as)"
        using room by auto
      moreover have "gathers (out @ first_of_each (fst ` set out) (tagged s as)) (gather_group s as out)"
        using "2.IH"(1,2) room False "2.prems" by blast
      ultimately show ?thesis by (simp only:)
    qed
  qed
qed

lemma first_of_each_three:
  fixes A B D
  defines "L \<equiv> first_of_each {} A"
  defines "R \<equiv> first_of_each (fst ` set L) B"
  shows "first_of_each {} (A @ B @ D) = L @ R @ first_of_each (fst ` set (L @ R)) D"
  unfolding R_def L_def by (simp add: first_of_each_append first_of_each_keys image_Un)

lemma gathers_and_then:
  assumes "gathers all res"
    and "length all \<le> MAX_CANDIDATES \<Longrightarrow> gathers (all @ new) (f all)"
  shows "gathers (all @ new) (and_then res f)"
proof (cases res)
  case (Inl out)
  then show ?thesis using assms(1) by (auto simp: gathers_def)
next
  case (Inr out)
  then have "out = all" and "length all \<le> MAX_CANDIDATES"
    using assms(1) by (auto simp: gathers_def)
  then show ?thesis using assms(2) Inr by simp
qed

lemma gather_eq_reference: "gather l r d = gather_reference l r d"
proof -
  let ?L = "first_of_each {} (tagged Local l)"
  let ?R = "first_of_each (fst ` set ?L) (tagged GateReflected r)"
  let ?D = "first_of_each (fst ` set (?L @ ?R)) (tagged Discovery d)"
  have "gathers ?L (gather_group Local l [])"
    using gather_group_step [of "[]" Local l] by simp
  then have "gathers (?L @ ?R @ ?D)
      (and_then (gather_group Local l []) (\<lambda>out.
       and_then (gather_group GateReflected r out) (gather_group Discovery d)))"
  proof (rule gathers_and_then)
    assume "length ?L \<le> MAX_CANDIDATES"
    then have "gathers (?L @ ?R) (gather_group GateReflected r ?L)" by (rule gather_group_step)
    then have "gathers ((?L @ ?R) @ ?D)
        (and_then (gather_group GateReflected r ?L) (gather_group Discovery d))"
      by (rule gathers_and_then) (rule gather_group_step)
    then show "gathers (?L @ ?R @ ?D)
        (and_then (gather_group GateReflected r ?L) (gather_group Discovery d))"
      unfolding append_assoc .
  qed
  moreover have "first_of_each {} (offered l r d) = ?L @ ?R @ ?D"
    unfolding offered_def filter_append by (rule first_of_each_three)
  ultimately show ?thesis
    unfolding gather_def gather_reference_def by (simp only: gathers_result)
qed

end
