(* ===== verification/Liveness.thy ===== *)
theory Liveness
  imports Probe
begin

text \<open>
  Liveness (\<open>live.rs\<close>): the intervals as functions of the smoothed round trip time, the
  live, stale, dead state machine of one peer and the frame that ends it. The recorder of
  the diagnostics writes a log entry at each transition and is not modelled; nothing reads
  it back.
\<close>

section \<open>The intervals\<close>

definition FIREWALL_ASSUMPTION :: duration where "FIREWALL_ASSUMPTION = from_secs 30"
definition KEEPALIVE_SRTT_MULTIPLIER :: nat where "KEEPALIVE_SRTT_MULTIPLIER = 8"
definition KEEPALIVE_FLOOR :: duration where "KEEPALIVE_FLOOR = from_secs 5"
definition KEEPALIVE_CEILING :: duration where "KEEPALIVE_CEILING = from_secs 15"
definition VISIT_PROBE_INTERVAL :: duration where "VISIT_PROBE_INTERVAL = from_millis 500"
definition PROBES_TO_STALE :: u32 where "PROBES_TO_STALE = 3"
definition PROBE_LOSS_FLOOR :: duration where "PROBE_LOSS_FLOOR = from_millis 500"
definition LOSS_SRTT_MULTIPLIER :: nat where "LOSS_SRTT_MULTIPLIER = 4"
definition DEAD_GRACE_BASE :: duration where "DEAD_GRACE_BASE = from_secs 5"
definition DEAD_PROBE_INTERVAL :: duration where "DEAD_PROBE_INTERVAL = from_secs 1"
definition CACHED_ADDRESS_TTL :: duration where "CACHED_ADDRESS_TTL = from_secs 600"
definition DISCOVERED_ADDRESS_TTL :: duration where "DISCOVERED_ADDRESS_TTL = from_secs 300"
definition MAX_IDLE_TIMEOUT :: duration where "MAX_IDLE_TIMEOUT = FIREWALL_ASSUMPTION"
definition KEEP_ALIVE_INTERVAL :: duration where "KEEP_ALIVE_INTERVAL = from_secs 15"

lemmas live_consts =
  FIREWALL_ASSUMPTION_def KEEPALIVE_SRTT_MULTIPLIER_def KEEPALIVE_FLOOR_def KEEPALIVE_CEILING_def
  VISIT_PROBE_INTERVAL_def PROBE_LOSS_FLOOR_def LOSS_SRTT_MULTIPLIER_def DEAD_GRACE_BASE_def
  DEAD_PROBE_INTERVAL_def CACHED_ADDRESS_TTL_def DISCOVERED_ADDRESS_TTL_def MAX_IDLE_TIMEOUT_def
  KEEP_ALIVE_INTERVAL_def from_secs_def from_millis_def

text \<open>\<open>Ord::clamp\<close>.\<close>

definition clamp :: "duration \<Rightarrow> duration \<Rightarrow> duration \<Rightarrow> duration" where
  "clamp d lo hi = (if d < lo then lo else if d > hi then hi else d)"

definition keepalive_interval :: "duration option \<Rightarrow> duration" where
  "keepalive_interval srtt =
     (case srtt of
        None \<Rightarrow> KEEPALIVE_FLOOR
      | Some srtt \<Rightarrow> clamp (sat_mul srtt KEEPALIVE_SRTT_MULTIPLIER) KEEPALIVE_FLOOR KEEPALIVE_CEILING)"

definition probe_loss_deadline :: "duration option \<Rightarrow> duration" where
  "probe_loss_deadline srtt =
     (case srtt of
        None \<Rightarrow> PROBE_LOSS_FLOOR
      | Some srtt \<Rightarrow> max (sat_mul srtt LOSS_SRTT_MULTIPLIER) PROBE_LOSS_FLOOR)"

definition dead_grace :: "duration option \<Rightarrow> duration" where
  "dead_grace srtt =
     (case srtt of
        None \<Rightarrow> DEAD_GRACE_BASE
      | Some srtt \<Rightarrow> sat_add (sat_mul srtt LOSS_SRTT_MULTIPLIER) DEAD_GRACE_BASE)"

lemma keepalive_bounds:
  "KEEPALIVE_FLOOR \<le> keepalive_interval s" "keepalive_interval s \<le> KEEPALIVE_CEILING"
  "2 * keepalive_interval s \<le> FIREWALL_ASSUMPTION"
  by (auto simp: keepalive_interval_def clamp_def live_consts split: option.splits)

lemma probe_loss_floor: "PROBE_LOSS_FLOOR \<le> probe_loss_deadline s"
  by (simp add: probe_loss_deadline_def split: option.splits)

lemma dead_grace_base: "DEAD_GRACE_BASE \<le> dead_grace s"
  by (auto simp: dead_grace_def sat_add_def live_consts duration_max_def split: option.splits)

section \<open>The state machine\<close>

datatype activity = Idle | Visit
datatype liveness = Live | Stale | Dead
datatype last_seen_reason = SeenGoodbye | SeenTimeout
datatype liveness_change = WentStale | WentDead

text \<open>A path only ever moves down this order.\<close>

instantiation liveness :: linorder
begin

fun liveness_rank :: "liveness \<Rightarrow> nat" where
  "liveness_rank Live = 0" | "liveness_rank Stale = 1" | "liveness_rank Dead = 2"

definition less_eq_liveness :: "liveness \<Rightarrow> liveness \<Rightarrow> bool" where
  "less_eq_liveness a b \<longleftrightarrow> liveness_rank a \<le> liveness_rank b"

definition less_liveness :: "liveness \<Rightarrow> liveness \<Rightarrow> bool" where
  "less_liveness a b \<longleftrightarrow> liveness_rank a < liveness_rank b"

instance
proof
  fix x y z :: liveness
  show "x < y \<longleftrightarrow> x \<le> y \<and> \<not> y \<le> x" by (auto simp: less_eq_liveness_def less_liveness_def)
  show "x \<le> x" by (simp add: less_eq_liveness_def)
  show "x \<le> y \<Longrightarrow> y \<le> z \<Longrightarrow> x \<le> z" by (simp add: less_eq_liveness_def)
  show "x \<le> y \<Longrightarrow> y \<le> x \<Longrightarrow> x = y" by (cases x; cases y) (simp_all add: less_eq_liveness_def)
  show "x \<le> y \<or> y \<le> x" by (auto simp: less_eq_liveness_def)
qed

end

record last_seen =
  ls_at :: instant
  ls_reason :: last_seen_reason

record peer_liveness =
  pl_activity :: activity
  pl_state :: liveness
  pl_srtt :: "duration option"
  pl_outstanding :: "instant option"
  pl_misses :: u32
  pl_last_sent :: "instant option"
  pl_last_answer :: instant
  pl_stale_since :: "instant option"
  pl_last_seen :: "last_seen option"

definition liveness_new :: "instant \<Rightarrow> peer_liveness" where
  "liveness_new now = \<lparr>
     pl_activity = Idle, pl_state = Live, pl_srtt = None, pl_outstanding = None,
     pl_misses = 0, pl_last_sent = None, pl_last_answer = now, pl_stale_since = None,
     pl_last_seen = None \<rparr>"

definition with_srtt :: "duration \<Rightarrow> peer_liveness \<Rightarrow> peer_liveness" where
  "with_srtt srtt p = p\<lparr>pl_srtt := Some srtt\<rparr>"

definition set_activity :: "activity \<Rightarrow> peer_liveness \<Rightarrow> peer_liveness" where
  "set_activity a p = p\<lparr>pl_activity := a\<rparr>"

definition probe_interval :: "peer_liveness \<Rightarrow> duration" where
  "probe_interval p =
     (case (pl_state p, pl_activity p) of
        (Stale, _) \<Rightarrow> DEAD_PROBE_INTERVAL
      | (_, Visit) \<Rightarrow> VISIT_PROBE_INTERVAL
      | (_, Idle) \<Rightarrow> keepalive_interval (pl_srtt p))"

definition due_probe :: "instant \<Rightarrow> peer_liveness \<Rightarrow> peer_liveness \<times> bool" where
  "due_probe now p =
     (if pl_state p = Dead then (p, False)
      else if (case pl_last_sent p of None \<Rightarrow> False
               | Some l \<Rightarrow> duration_since now l < probe_interval p) then (p, False)
      else
        (let p = p\<lparr>pl_last_sent := Some now\<rparr>;
             p = (if pl_outstanding p = None then p\<lparr>pl_outstanding := Some now\<rparr> else p)
         in (p, True)))"

definition probe_not_sent :: "instant \<Rightarrow> peer_liveness \<Rightarrow> peer_liveness" where
  "probe_not_sent sent_at p =
     (if pl_outstanding p = Some sent_at then p\<lparr>pl_outstanding := None\<rparr> else p)"

text \<open>\<open>checked_div(8)\<close> never fails, so its \<open>unwrap_or\<close> has no effect.\<close>

definition on_pong :: "instant \<Rightarrow> duration \<Rightarrow> peer_liveness \<Rightarrow> peer_liveness \<times> bool" where
  "on_pong now rtt p =
     (if pl_state p = Dead then (p, False)
      else
        (p\<lparr>pl_srtt := Some (case pl_srtt p of
              None \<Rightarrow> rtt
            | Some previous \<Rightarrow> sat_add (sat_mul previous 7) rtt div 8),
          pl_outstanding := None, pl_misses := 0, pl_last_answer := now\<rparr>, True))"

definition count_miss :: "instant \<Rightarrow> peer_liveness \<Rightarrow> peer_liveness" where
  "count_miss now p =
     (case pl_outstanding p of
        None \<Rightarrow> p
      | Some sent \<Rightarrow>
          if probe_loss_deadline (pl_srtt p) \<le> duration_since now sent
          then p\<lparr>pl_misses := sat_inc32 (pl_misses p), pl_outstanding := None\<rparr>
          else p)"

definition poll :: "instant \<Rightarrow> peer_liveness \<Rightarrow> peer_liveness \<times> liveness_change option" where
  "poll now p =
     (if pl_state p = Dead then (p, None)
      else
        (let p = count_miss now p in
         case pl_state p of
           Live \<Rightarrow>
             if PROBES_TO_STALE \<le> pl_misses p
             then (p\<lparr>pl_state := Stale, pl_stale_since := Some now\<rparr>, Some WentStale)
             else (p, None)
         | Stale \<Rightarrow>
             (case pl_stale_since p of
                None \<Rightarrow> (p, None)
              | Some since \<Rightarrow>
                  if dead_grace (pl_srtt p) \<le> duration_since now since
                  then (p\<lparr>pl_state := Dead,
                          pl_last_seen := Some \<lparr>ls_at = pl_last_answer p, ls_reason = SeenTimeout\<rparr>\<rparr>,
                        Some WentDead)
                  else (p, None))
         | Dead \<Rightarrow> (p, None)))"

definition on_goodbye :: "instant \<Rightarrow> peer_liveness \<Rightarrow> peer_liveness \<times> liveness_change option" where
  "on_goodbye now p =
     (if pl_state p = Dead then (p, None)
      else (p\<lparr>pl_state := Dead,
              pl_last_seen := Some \<lparr>ls_at = now, ls_reason = SeenGoodbye\<rparr>\<rparr>, Some WentDead))"

fun apply_porch_frame ::
    "porch_frame \<Rightarrow> instant \<Rightarrow> peer_liveness \<Rightarrow> peer_liveness \<times> liveness_change option" where
  "apply_porch_frame (PorchGoodbye _ _) now p = on_goodbye now p"
| "apply_porch_frame (Candidates _ _ _ _ _) now p = (p, None)"
| "apply_porch_frame (PathUp _ _ _ _) now p = (p, None)"
| "apply_porch_frame (PathDown _ _ _ _) now p = (p, None)"

text \<open>The calls that the owner of a peer makes, each at the time it reads.\<close>

datatype live_call =
    SetActivity activity
  | DueProbe
  | ProbeNotSent instant
  | Pong duration
  | Poll
  | Porch porch_frame

fun live_apply :: "live_call \<Rightarrow> instant \<Rightarrow> peer_liveness \<Rightarrow> peer_liveness \<times> liveness_change option" where
  "live_apply (SetActivity a) now p = (set_activity a p, None)"
| "live_apply DueProbe now p = (fst (due_probe now p), None)"
| "live_apply (ProbeNotSent sent_at) now p = (probe_not_sent sent_at p, None)"
| "live_apply (Pong rtt) now p = (fst (on_pong now rtt p), None)"
| "live_apply Poll now p = poll now p"
| "live_apply (Porch f) now p = apply_porch_frame f now p"

fun live_calls :: "(instant \<times> live_call) list \<Rightarrow> peer_liveness \<Rightarrow> peer_liveness \<times> liveness_change list" where
  "live_calls [] p = (p, [])"
| "live_calls ((now, c) # cs) p =
     (case live_apply c now p of
        (p, change) \<Rightarrow>
          (case live_calls cs p of
             (p, changes) \<Rightarrow> (p, (case change of None \<Rightarrow> changes | Some x \<Rightarrow> x # changes))))"

section \<open>One call\<close>

text \<open>
  The shape of a peer: \<open>last_seen\<close> is written exactly when it dies and \<open>stale_since\<close> when
  it goes stale.
\<close>

definition live_shape :: "peer_liveness \<Rightarrow> bool" where
  "live_shape p \<longleftrightarrow>
     (pl_last_seen p \<noteq> None \<longleftrightarrow> pl_state p = Dead) \<and>
     (pl_state p = Live \<longrightarrow> pl_stale_since p = None) \<and>
     (pl_state p = Stale \<longrightarrow> pl_stale_since p \<noteq> None)"

lemma live_shape_new: "live_shape (liveness_new now)"
  by (simp add: live_shape_def liveness_new_def)

lemma count_miss_frame [simp]:
  "pl_state (count_miss now p) = pl_state p" "pl_stale_since (count_miss now p) = pl_stale_since p"
  "pl_last_seen (count_miss now p) = pl_last_seen p" "pl_srtt (count_miss now p) = pl_srtt p"
  "pl_activity (count_miss now p) = pl_activity p"
  "pl_last_answer (count_miss now p) = pl_last_answer p"
  "pl_last_sent (count_miss now p) = pl_last_sent p"
  by (simp_all add: count_miss_def split: option.splits)

lemma due_probe_frame [simp]:
  "pl_state (fst (due_probe now p)) = pl_state p"
  "pl_stale_since (fst (due_probe now p)) = pl_stale_since p"
  "pl_last_seen (fst (due_probe now p)) = pl_last_seen p"
  "pl_srtt (fst (due_probe now p)) = pl_srtt p"
  "pl_activity (fst (due_probe now p)) = pl_activity p"
  "pl_last_answer (fst (due_probe now p)) = pl_last_answer p"
  "pl_misses (fst (due_probe now p)) = pl_misses p"
  by (simp_all add: due_probe_def Let_def)

lemma probe_not_sent_frame [simp]:
  "pl_state (probe_not_sent t p) = pl_state p" "pl_stale_since (probe_not_sent t p) = pl_stale_since p"
  "pl_last_seen (probe_not_sent t p) = pl_last_seen p"
  "pl_last_answer (probe_not_sent t p) = pl_last_answer p"
  "pl_misses (probe_not_sent t p) = pl_misses p"
  by (simp_all add: probe_not_sent_def)

lemma live_shape_poll: "live_shape p \<Longrightarrow> live_shape (fst (poll now p))"
  by (cases "pl_state p") (auto simp: live_shape_def poll_def Let_def split: option.splits)

lemma live_shape_goodbye: "live_shape p \<Longrightarrow> live_shape (fst (on_goodbye now p))"
  by (auto simp: live_shape_def on_goodbye_def)

lemma live_shape_apply: "live_shape p \<Longrightarrow> live_shape (fst (live_apply c now p))"
proof (cases c)
  case (Porch f)
  then show "live_shape p \<Longrightarrow> ?thesis" by (cases f) (simp_all add: live_shape_goodbye)
qed (auto simp: live_shape_poll, auto simp: live_shape_def set_activity_def on_pong_def)

text \<open>What a call reports is exactly how it moved the state, and it only moves down.\<close>

definition change_of :: "liveness \<Rightarrow> liveness \<Rightarrow> liveness_change option" where
  "change_of a b = (if a = b then None else if b = Stale then Some WentStale else Some WentDead)"

lemma poll_moves:
  "pl_state p \<le> pl_state (fst (poll now p)) \<and>
   snd (poll now p) = change_of (pl_state p) (pl_state (fst (poll now p)))"
  by (cases "pl_state p")
     (auto simp: poll_def Let_def change_of_def less_eq_liveness_def split: option.splits)

lemma goodbye_moves:
  "pl_state p \<le> pl_state (fst (on_goodbye now p)) \<and>
   snd (on_goodbye now p) = change_of (pl_state p) (pl_state (fst (on_goodbye now p)))"
  by (cases "pl_state p") (auto simp: on_goodbye_def change_of_def less_eq_liveness_def)

lemma live_apply_moves:
  "pl_state p \<le> pl_state (fst (live_apply c now p)) \<and>
   snd (live_apply c now p) = change_of (pl_state p) (pl_state (fst (live_apply c now p)))"
proof (cases c)
  case (Porch f)
  then show ?thesis using goodbye_moves [of p now] by (cases f) (simp_all add: change_of_def)
qed (simp_all add: poll_moves, simp_all add: change_of_def set_activity_def on_pong_def)

text \<open>The reports of a run that starts in one state and ends in another.\<close>

fun reports :: "liveness \<Rightarrow> liveness \<Rightarrow> liveness_change list \<Rightarrow> bool" where
  "reports Live Live l = (l = [])"
| "reports Live Stale l = (l = [WentStale])"
| "reports Live Dead l = (l = [WentDead] \<or> l = [WentStale, WentDead])"
| "reports Stale Stale l = (l = [])"
| "reports Stale Dead l = (l = [WentDead])"
| "reports Dead Dead l = (l = [])"
| "reports _ _ l = False"

lemma reports_step:
  assumes "a \<le> b" and "reports b c l"
  shows "reports a c (case change_of a b of None \<Rightarrow> l | Some x \<Rightarrow> x # l)"
  using assms by (cases a; cases b; cases c) (auto simp: change_of_def less_eq_liveness_def)

lemma live_calls_reports:
  "live_calls cs p = (q, l) \<Longrightarrow> reports (pl_state p) (pl_state q) l"
proof (induction cs arbitrary: p l)
  case Nil
  then show ?case by (cases "pl_state p") auto
next
  case (Cons c cs)
  obtain now k where c: "c = (now, k)" by (cases c)
  obtain l' where l': "live_calls cs (fst (live_apply k now p)) = (q, l')"
    and l: "l = (case snd (live_apply k now p) of None \<Rightarrow> l' | Some x \<Rightarrow> x # l')"
    using Cons.prems by (auto simp: c split: prod.splits)
  show ?case
    using reports_step [OF _ Cons.IH [OF l']] live_apply_moves [of p k now] by (simp add: l)
qed

lemma live_calls_shape: "live_shape p \<Longrightarrow> live_shape (fst (live_calls cs p))"
  by (induction cs p rule: live_calls.induct)
     (auto split: prod.splits dest: live_shape_apply, metis fst_conv live_shape_apply)

section \<open>The clock of a peer\<close>

text \<open>
  A peer whose calls are made at times that never go back: \<open>live_run t p\<close> says that \<open>p\<close>
  was built by calls whose latest time is \<open>t\<close>.
\<close>

inductive live_run :: "instant \<Rightarrow> peer_liveness \<Rightarrow> bool" where
  live_run_new: "live_run now (liveness_new now)"
| live_run_srtt: "live_run now (with_srtt srtt (liveness_new now))"
| live_run_call:
    "live_run t p \<Longrightarrow> t \<le> now \<Longrightarrow> live_run now (fst (live_apply c now p))"

text \<open>
  Every miss took at least the floor of the loss deadline, counted from the last answer,
  and the outstanding probe went out after the misses so far.
\<close>

definition miss_clock :: "instant \<Rightarrow> peer_liveness \<Rightarrow> bool" where
  "miss_clock t p \<longleftrightarrow>
     pl_last_answer p + unat (pl_misses p) * PROBE_LOSS_FLOOR \<le> t \<and>
     (\<forall>s. pl_outstanding p = Some s \<longrightarrow>
        s \<le> t \<and> pl_last_answer p + unat (pl_misses p) * PROBE_LOSS_FLOOR \<le> s)"

lemma miss_clock_later: "miss_clock t p \<Longrightarrow> t \<le> now \<Longrightarrow> miss_clock now p"
  unfolding miss_clock_def by (metis le_trans)

lemma miss_clock_count:
  assumes "miss_clock t p" and "t \<le> now"
  shows "miss_clock now (count_miss now p)"
proof (cases "count_miss now p = p")
  case True
  then show ?thesis using assms by (simp add: miss_clock_later)
next
  case False
  then obtain s where s: "pl_outstanding p = Some s"
    and lost: "probe_loss_deadline (pl_srtt p) \<le> now - s"
    and p: "count_miss now p = p\<lparr>pl_misses := sat_inc32 (pl_misses p), pl_outstanding := None\<rparr>"
    by (auto simp: count_miss_def duration_since_def split: option.splits if_splits)
  have "PROBE_LOSS_FLOOR \<le> now - s" "0 < PROBE_LOSS_FLOOR"
    using lost probe_loss_floor [of "pl_srtt p"] by (simp, simp add: live_consts)
  moreover have "pl_last_answer p + unat (pl_misses p) * PROBE_LOSS_FLOOR \<le> s"
    using assms s by (simp add: miss_clock_def)
  moreover have "unat (sat_inc32 (pl_misses p)) * PROBE_LOSS_FLOOR
      \<le> Suc (unat (pl_misses p)) * PROBE_LOSS_FLOOR"
    by (rule mult_le_mono1 [OF unat_sat_inc32_le])
  ultimately show ?thesis by (simp add: miss_clock_def p)
qed

lemma miss_clock_cong:
  "pl_last_answer q = pl_last_answer p \<Longrightarrow> pl_misses q = pl_misses p \<Longrightarrow>
   pl_outstanding q = pl_outstanding p \<Longrightarrow> miss_clock t p \<Longrightarrow> miss_clock t q"
  by (simp add: miss_clock_def)

lemma poll_clock_frame:
  "pl_last_answer (fst (poll now p)) = pl_last_answer (if pl_state p = Dead then p else count_miss now p)"
  "pl_misses (fst (poll now p)) = pl_misses (if pl_state p = Dead then p else count_miss now p)"
  "pl_outstanding (fst (poll now p)) = pl_outstanding (if pl_state p = Dead then p else count_miss now p)"
  by (simp_all add: poll_def Let_def split: liveness.splits option.splits)

lemma miss_clock_poll: "miss_clock t p \<Longrightarrow> t \<le> now \<Longrightarrow> miss_clock now (fst (poll now p))"
  by (rule miss_clock_cong [OF poll_clock_frame])
     (simp add: miss_clock_count miss_clock_later)

lemma miss_clock_goodbye: "miss_clock t p \<Longrightarrow> miss_clock t (fst (on_goodbye now p))"
  by (rule miss_clock_cong [of _ p]) (simp_all add: on_goodbye_def)

lemma miss_clock_due:
  assumes "miss_clock t p" and "t \<le> now"
  shows "miss_clock now (fst (due_probe now p))"
  using assms unfolding miss_clock_def by (auto simp: due_probe_def Let_def)

lemma miss_clock_apply:
  assumes "miss_clock t p" and "t \<le> now"
  shows "miss_clock now (fst (live_apply c now p))"
proof (cases c)
  case (Porch f)
  then show ?thesis
    using assms by (cases f) (auto intro: miss_clock_goodbye miss_clock_later)
next
  case (ProbeNotSent s)
  then show ?thesis using assms by (auto simp: miss_clock_def probe_not_sent_def)
next
  case (Pong rtt)
  then show ?thesis using assms by (auto simp: on_pong_def miss_clock_later) (simp add: miss_clock_def)
next
  case (SetActivity a)
  then show ?thesis using assms by (auto simp: miss_clock_def set_activity_def)
qed (use assms in \<open>simp_all add: miss_clock_poll miss_clock_due\<close>)

lemma live_run_clock: "live_run t p \<Longrightarrow> miss_clock t p"
proof (induction rule: live_run.induct)
  case (live_run_call t p now c)
  then show ?case by (simp add: miss_clock_apply)
qed (simp_all add: miss_clock_def liveness_new_def with_srtt_def)

lemma live_run_shape: "live_run t p \<Longrightarrow> live_shape p"
proof (induction rule: live_run.induct)
  case (live_run_call t p now c)
  then show ?case by (simp add: live_shape_apply)
qed (simp_all add: live_shape_def liveness_new_def with_srtt_def)

definition live_sane :: "instant \<Rightarrow> peer_liveness \<Rightarrow> bool" where
  "live_sane t p \<longleftrightarrow>
     (\<forall>s. pl_last_sent p = Some s \<longrightarrow> s \<le> t) \<and> (\<forall>s. pl_outstanding p = Some s \<longrightarrow> s \<le> t) \<and>
     (\<forall>s. pl_stale_since p = Some s \<longrightarrow> s \<le> t) \<and>
     (pl_state p = Live \<longrightarrow> unat (pl_misses p) < 3)"

lemma live_sane_later: "live_sane t p \<Longrightarrow> t \<le> now \<Longrightarrow> live_sane now p"
  by (fastforce simp: live_sane_def)

lemma count_miss_outstanding: "pl_outstanding (count_miss now p) = Some s \<Longrightarrow> pl_outstanding p = Some s"
  by (auto simp: count_miss_def split: option.splits if_splits)

lemma stale_threshold: "PROBES_TO_STALE \<le> w \<longleftrightarrow> 3 \<le> unat w"
  by (simp add: PROBES_TO_STALE_def word_le_nat_alt)

lemma live_sane_poll:
  assumes "live_sane t p" and "t \<le> now"
  shows "live_sane now (fst (poll now p))"
proof -
  let ?p = "count_miss now p"
  have p: "live_sane now p" by (rule live_sane_later [OF assms])
  have out: "s \<le> now" if "pl_outstanding ?p = Some s" for s
    using count_miss_outstanding [OF that] p by (simp add: live_sane_def)
  show ?thesis
  proof (cases "pl_state p")
    case Live
    then show ?thesis using p out
      by (simp add: poll_def Let_def live_sane_def stale_threshold)
  next
    case Stale
    then show ?thesis using p out
      by (simp add: poll_def Let_def live_sane_def split: option.splits)
  next
    case Dead
    then show ?thesis using p by (simp add: poll_def)
  qed
qed

lemma live_sane_due:
  assumes "live_sane t p" and "t \<le> now"
  shows "live_sane now (fst (due_probe now p))"
  using live_sane_later [OF assms] by (auto simp: due_probe_def Let_def live_sane_def)

lemma live_sane_apply:
  assumes "live_sane t p" and "t \<le> now"
  shows "live_sane now (fst (live_apply c now p))"
proof (cases c)
  case (Porch f)
  then show ?thesis
    using live_sane_later [OF assms] by (cases f) (auto simp: on_goodbye_def live_sane_def)
qed (use live_sane_later [OF assms] in
    \<open>auto simp: live_sane_poll [OF assms] live_sane_due [OF assms]\<close>,
  auto simp: live_sane_def set_activity_def probe_not_sent_def on_pong_def)

lemma live_run_sane: "live_run t p \<Longrightarrow> live_sane t p"
proof (induction rule: live_run.induct)
  case (live_run_call t p now c)
  then show ?case by (simp add: live_sane_apply)
qed (simp_all add: live_sane_def liveness_new_def with_srtt_def)

section \<open>A peer that stopped answering\<close>

text \<open>
  A caller's loop while nothing arrives: at each tick it polls and then asks whether a probe
  is due. \<open>paced\<close> says that no two ticks are further apart than \<open>d\<close>.
\<close>

definition silent_tick :: "instant \<Rightarrow> peer_liveness \<Rightarrow> peer_liveness" where
  "silent_tick now p = fst (due_probe now (fst (poll now p)))"

fun paced :: "duration \<Rightarrow> instant \<Rightarrow> instant list \<Rightarrow> bool" where
  "paced d t [] \<longleftrightarrow> True"
| "paced d t (u # us) \<longleftrightarrow> t \<le> u \<and> u \<le> t + d \<and> paced d u us"

text \<open>
  How far a silent peer can be: with \<open>n\<close> misses the clock has used at most \<open>n\<close> rounds of
  a probe interval \<open>i\<close>, a loss deadline \<open>l\<close> and twice the tick \<open>d\<close>.
\<close>

definition silent_bound ::
    "instant \<Rightarrow> duration \<Rightarrow> duration \<Rightarrow> duration \<Rightarrow> instant \<Rightarrow> peer_liveness \<Rightarrow> bool" where
  "silent_bound t0 i l d t p \<longleftrightarrow>
     (let b = t0 + unat (pl_misses p) * (i + l + 2 * d) in
      (case pl_state p of
         Live \<Rightarrow>
           (case pl_outstanding p of
              Some s \<Rightarrow> s \<le> b + i + d \<and> t \<le> b + i + d + l
            | None \<Rightarrow> t \<le> b + i \<and> (\<forall>s. pl_last_sent p = Some s \<longrightarrow> s \<le> b))
       | Stale \<Rightarrow>
           (\<exists>s. pl_stale_since p = Some s \<and> s \<le> t0 + 3 * (i + l + 2 * d) \<and>
              (t = t0 \<or> t = s \<or> t < s + dead_grace (pl_srtt p)))
       | Dead \<Rightarrow> True))"

lemma count_miss_inc:
  assumes "live_sane t p" and "pl_state p = Live"
  shows "unat (sat_inc32 (pl_misses p)) = Suc (unat (pl_misses p))"
  using assms by (intro unat_sat_inc32_below [where k = 3]) (simp add: live_sane_def word_less_nat_alt)

text \<open>The end of a round: the poll that counts a miss comes before the round is over.\<close>

lemma silent_round_miss:
  assumes b: "silent_bound t0 i l d t p" and sane: "live_sane t p"
    and live: "pl_state p = Live" and l: "probe_loss_deadline (pl_srtt p) = l"
    and "t \<le> now" "now \<le> t + d"
    and p: "pl_outstanding p = Some s" "l \<le> now - s"
  shows "unat (pl_misses (count_miss now p)) = Suc (unat (pl_misses p))"
    and "pl_outstanding (count_miss now p) = None"
    and "now \<le> t0 + Suc (unat (pl_misses p)) * (i + l + 2 * d)"
proof -
  have "count_miss now p = p\<lparr>pl_misses := sat_inc32 (pl_misses p), pl_outstanding := None\<rparr>"
    using p l by (simp add: count_miss_def duration_since_def)
  then show "unat (pl_misses (count_miss now p)) = Suc (unat (pl_misses p))"
    and "pl_outstanding (count_miss now p) = None"
    using count_miss_inc [OF sane live] by simp_all
  have "t \<le> t0 + unat (pl_misses p) * (i + l + 2 * d) + i + d + l"
    using b p(1) live by (simp add: silent_bound_def Let_def)
  then show "now \<le> t0 + Suc (unat (pl_misses p)) * (i + l + 2 * d)"
    using assms(6) by simp
qed

text \<open>The probe of a live tick, given how the poll left the peer.\<close>

lemma silent_bound_due:
  fixes p i l d t0
  defines "c \<equiv> t0 + unat (pl_misses p) * (i + l + 2 * d)"
  assumes live: "pl_state p = Live" and i: "probe_interval p = i"
    and none: "pl_outstanding p = None \<Longrightarrow>
      now \<le> c + i + d \<and> (\<forall>r. pl_last_sent p = Some r \<longrightarrow> r \<le> c)"
    and some: "\<And>s. pl_outstanding p = Some s \<Longrightarrow> s \<le> c + i + d \<and> now \<le> s + l"
  shows "silent_bound t0 i l d now (fst (due_probe now p))"
proof (cases "snd (due_probe now p)")
  case True
  have sent: "fst (due_probe now p) =
     (if pl_outstanding p = None then p\<lparr>pl_last_sent := Some now, pl_outstanding := Some now\<rparr>
      else p\<lparr>pl_last_sent := Some now\<rparr>)"
    using True by (auto simp: due_probe_def Let_def split: if_splits)
  show ?thesis
  proof (cases "pl_outstanding p")
    case None
    then show ?thesis using none live by (simp add: silent_bound_def Let_def sent c_def)
  next
    case (Some s)
    then show ?thesis using some [OF Some] live by (simp add: silent_bound_def Let_def sent c_def)
  qed
next
  case False
  then obtain r where r: "pl_last_sent p = Some r" "now - r < i" and p: "fst (due_probe now p) = p"
    using live i by (auto simp: due_probe_def Let_def duration_since_def split: if_splits option.splits)
  show ?thesis
  proof (cases "pl_outstanding p")
    case None
    have "now \<le> r + i" using r(2) by linarith
    moreover have "r \<le> c" using none [OF None] r(1) by simp
    ultimately show ?thesis using None r(1) live by (simp add: silent_bound_def Let_def p c_def)
  next
    case (Some s)
    then show ?thesis using some [OF Some] live by (simp add: silent_bound_def Let_def p c_def)
  qed
qed

lemma probe_interval_live:
  "pl_state q = pl_state p \<Longrightarrow> pl_activity q = pl_activity p \<Longrightarrow> pl_srtt q = pl_srtt p \<Longrightarrow>
   probe_interval q = probe_interval p"
  by (cases "pl_state p"; cases "pl_activity p") (simp_all add: probe_interval_def)

lemma silent_bound_live:
  assumes b: "silent_bound t0 i l d t p" and sane: "live_sane t p"
    and live: "pl_state p = Live" and l: "probe_loss_deadline (pl_srtt p) = l"
    and i: "probe_interval p = i" and t: "t \<le> now" "now \<le> t + d"
  shows "silent_bound t0 i l d now (silent_tick now p)"
proof -
  let ?q = "count_miss now p" and ?P = "i + l + 2 * d"
  have frame: "pl_state ?q = Live" "probe_interval ?q = i"
    using live i probe_interval_live [of ?q p] by simp_all
  have m: "unat (pl_misses p) < 3" using sane live by (simp add: live_sane_def)
  have none: "now \<le> t0 + unat (pl_misses ?q) * ?P \<or>
      ?q = p \<and> now \<le> t0 + unat (pl_misses p) * ?P + i + d \<and>
      (\<forall>r. pl_last_sent p = Some r \<longrightarrow> r \<le> t0 + unat (pl_misses p) * ?P)"
    if "pl_outstanding ?q = None"
  proof (cases "pl_outstanding p")
    case None
    then have "?q = p" by (simp add: count_miss_def)
    then show ?thesis using b None live t by (simp add: silent_bound_def Let_def)
  next
    case (Some s)
    then have "l \<le> now - s" using that by (auto simp: count_miss_def l duration_since_def split: if_splits)
    with silent_round_miss [OF b sane live l t Some] show ?thesis by simp
  qed
  have some: "?q = p \<and> s \<le> t0 + unat (pl_misses p) * ?P + i + d \<and> now \<le> s + l"
    if "pl_outstanding ?q = Some s" for s
  proof -
    have s: "pl_outstanding p = Some s" by (rule count_miss_outstanding [OF that])
    moreover have "\<not> l \<le> now - s"
      using that s by (auto simp: count_miss_def l duration_since_def split: if_splits)
    ultimately show ?thesis
      using b live by (auto simp: silent_bound_def Let_def count_miss_def l duration_since_def)
  qed
  have le: "unat (pl_misses ?q) \<le> 3"
    using m count_miss_inc [OF sane live] by (simp add: count_miss_def split: option.splits)
  show ?thesis
  proof (cases "PROBES_TO_STALE \<le> pl_misses ?q")
    case True
    then have three: "unat (pl_misses ?q) = 3" using le by (simp add: stale_threshold)
    then have "?q \<noteq> p" using m by auto
    then have "now \<le> t0 + 3 * ?P" using none some three by (cases "pl_outstanding ?q") auto
    moreover have "poll now p = (?q\<lparr>pl_state := Stale, pl_stale_since := Some now\<rparr>, Some WentStale)"
      using True live by (simp add: poll_def Let_def)
    ultimately show ?thesis by (simp add: silent_bound_def Let_def silent_tick_def)
  next
    case False
    have "poll now p = (?q, None)" using False live by (simp add: poll_def Let_def)
    moreover have "silent_bound t0 i l d now (fst (due_probe now ?q))"
    proof (rule silent_bound_due [OF frame])
      assume "pl_outstanding ?q = None"
      moreover have "r \<le> now" if "pl_last_sent p = Some r" for r
        using that sane t by (meson le_trans live_sane_def)
      ultimately show "now \<le> t0 + unat (pl_misses ?q) * ?P + i + d \<and>
          (\<forall>r. pl_last_sent ?q = Some r \<longrightarrow> r \<le> t0 + unat (pl_misses ?q) * ?P)"
        using none by (fastforce intro: le_trans)
    qed (use some in auto)
    ultimately show ?thesis by (simp add: silent_tick_def)
  qed
qed

lemma silent_bound_stale:
  assumes b: "silent_bound t0 i l d t p" and stale: "pl_state p = Stale" and "t \<le> now"
  shows "silent_bound t0 i l d now (silent_tick now p)"
proof -
  obtain s where s: "pl_stale_since p = Some s" "s \<le> t0 + 3 * (i + l + 2 * d)"
    using b stale by (auto simp: silent_bound_def Let_def)
  show ?thesis
  proof (cases "dead_grace (pl_srtt p) \<le> now - s")
    case True
    then have "pl_state (fst (poll now p)) = Dead"
      using s stale by (simp add: poll_def Let_def duration_since_def)
    then show ?thesis by (simp add: silent_bound_def silent_tick_def Let_def)
  next
    case False
    then have "poll now p = (count_miss now p, None)" and "now < s + dead_grace (pl_srtt p)"
      using s stale by (auto simp: poll_def Let_def duration_since_def)
    then show ?thesis using s stale by (simp add: silent_bound_def silent_tick_def Let_def)
  qed
qed

text \<open>What a silent tick keeps.\<close>

lemma silent_tick_frame [simp]:
  "pl_srtt (silent_tick now p) = pl_srtt p" "pl_activity (silent_tick now p) = pl_activity p"
  "pl_last_answer (silent_tick now p) = pl_last_answer p"
  by (simp_all add: silent_tick_def poll_def Let_def split: liveness.splits option.splits)

lemma silent_tick_sane: "live_sane t p \<Longrightarrow> t \<le> now \<Longrightarrow> live_sane now (silent_tick now p)"
  by (simp add: silent_tick_def live_sane_due [OF live_sane_poll])

lemma silent_tick_moves: "pl_state p \<le> pl_state (silent_tick now p)"
  using poll_moves [of p now] by (simp add: silent_tick_def)

lemma silent_bound_tick:
  assumes "silent_bound t0 i l d t p" and "live_sane t p"
    and "probe_loss_deadline (pl_srtt p) = l"
    and "pl_state p = Live \<Longrightarrow> probe_interval p = i" and "t \<le> now" "now \<le> t + d"
  shows "silent_bound t0 i l d now (silent_tick now p)"
proof (cases "pl_state p")
  case Live
  then show ?thesis using silent_bound_live assms by blast
next
  case Stale
  then show ?thesis using silent_bound_stale assms by blast
next
  case Dead
  then have "silent_tick now p = p" by (simp add: silent_tick_def poll_def due_probe_def)
  then show ?thesis using Dead by (simp add: silent_bound_def Let_def)
qed

lemma silent_bound_ticks:
  assumes "paced d t ts" and "silent_bound t0 i l d t p" and "live_sane t p"
    and "probe_loss_deadline (pl_srtt p) = l"
    and "pl_state p = Live \<Longrightarrow> probe_interval p = i"
  shows "silent_bound t0 i l d (last (t # ts)) (fold silent_tick ts p)"
  using assms
proof (induction ts arbitrary: t p)
  case (Cons u us)
  have u: "t \<le> u" "u \<le> t + d" "paced d u us" using Cons.prems(1) by auto
  have "probe_interval (silent_tick u p) = i" if "pl_state (silent_tick u p) = Live"
    using that Cons.prems(5) silent_tick_moves [of p u] probe_interval_live [of "silent_tick u p" p]
    by (cases "pl_state p") (simp_all add: less_eq_liveness_def)
  then have "silent_bound t0 i l d (last (u # us)) (fold silent_tick us (silent_tick u p))"
    using Cons.prems silent_bound_tick [of t0 i l d t p u] u
    by (intro Cons.IH) (auto simp: silent_tick_sane)
  then show ?case by simp
qed simp

lemma fold_silent_srtt [simp]: "pl_srtt (fold silent_tick ts p) = pl_srtt p"
  by (induction ts arbitrary: p) simp_all

lemma live_sane_ticks:
  "paced d t ts \<Longrightarrow> live_sane t p \<Longrightarrow> live_sane (last (t # ts)) (fold silent_tick ts p)"
proof (induction ts arbitrary: t p)
  case (Cons u us)
  then have "live_sane (last (u # us)) (fold silent_tick us (silent_tick u p))"
    by (intro Cons.IH) (auto simp: silent_tick_sane)
  then show ?case by simp
qed simp

end
