(* ===== verification/Address_Cache.thy ===== *)
theory Address_Cache
  imports Candidate Liveness
begin

text \<open>
  The cached addresses of a house's friends (\<open>live.rs\<close>, \<open>AddressCache\<close>): a hash map from
  a peer's key to at most eight addresses, each with the time it last answered. The entry
  that a failed dial writes to the diagnostics record is not modelled.
\<close>

section \<open>The cache\<close>

datatype after_dial_failure = Rediscover

record cached_address =
  ca_addr :: socket_addr
  ca_source :: candidate_source
  ca_last_answer :: instant

definition ca_ttl :: "cached_address \<Rightarrow> duration" where
  "ca_ttl e =
     (case ca_source e of
        Discovery \<Rightarrow> DISCOVERED_ADDRESS_TTL
      | Local \<Rightarrow> CACHED_ADDRESS_TTL
      | GateReflected \<Rightarrow> CACHED_ADDRESS_TTL
      | PeerReported \<Rightarrow> CACHED_ADDRESS_TTL)"

definition CACHED_ADDRESSES_PER_PEER :: nat where "CACHED_ADDRESSES_PER_PEER = 8"

type_synonym address_cache = "(bytes, cached_address list) hashmap"

text \<open>\<open>iter_mut().find(..)\<close> and the update of what it finds.\<close>

fun update_first :: "('a \<Rightarrow> bool) \<Rightarrow> ('a \<Rightarrow> 'a) \<Rightarrow> 'a list \<Rightarrow> 'a list" where
  "update_first P f [] = []"
| "update_first P f (x # xs) = (if P x then f x # xs else x # update_first P f xs)"

text \<open>\<open>enumerate().min_by_key(last_answer)\<close> gives the first of the smallest.\<close>

fun oldest_index :: "cached_address list \<Rightarrow> nat option" where
  "oldest_index [] = None"
| "oldest_index (x # xs) =
     (case oldest_index xs of
        None \<Rightarrow> Some 0
      | Some i \<Rightarrow> if ca_last_answer x \<le> ca_last_answer (xs ! i) then Some 0 else Some (Suc i))"

definition remove_at :: "nat \<Rightarrow> 'a list \<Rightarrow> 'a list" where
  "remove_at i xs = take i xs @ drop (Suc i) xs"

lemma length_remove_at: "i < length xs \<Longrightarrow> length (remove_at i xs) = length xs - 1"
  by (simp add: remove_at_def)

function evict_oldest :: "cached_address list \<Rightarrow> cached_address list" where
  "evict_oldest held =
     (if length held > CACHED_ADDRESSES_PER_PEER then
        (case oldest_index held of
           Some i \<Rightarrow> if i < length held then evict_oldest (remove_at i held) else held
         | None \<Rightarrow> held)
      else held)"
  by pat_completeness auto
termination
  by (relation "measure length") (auto simp: remove_at_def)

declare evict_oldest.simps [simp del]

definition remember_in ::
    "socket_addr \<Rightarrow> candidate_source \<Rightarrow> instant \<Rightarrow> cached_address list \<Rightarrow> cached_address list" where
  "remember_in addr source now held =
     (if \<exists>e \<in> set held. ca_addr e = addr then
        update_first (\<lambda>e. ca_addr e = addr)
          (\<lambda>e. e\<lparr>ca_last_answer := now, ca_source := source\<rparr>) held
      else evict_oldest
        (held @ [\<lparr>ca_addr = addr, ca_source = source, ca_last_answer = now\<rparr>]))"

definition cache_held :: "address_cache \<Rightarrow> bytes \<Rightarrow> cached_address list" where
  "cache_held c peer = (case hm_get c peer of None \<Rightarrow> [] | Some held \<Rightarrow> held)"

definition remember ::
    "bytes \<Rightarrow> socket_addr \<Rightarrow> candidate_source \<Rightarrow> instant \<Rightarrow> address_cache \<Rightarrow> address_cache" where
  "remember peer addr source now c =
     hm_insert peer (remember_in (unmap_v4 addr) source now (cache_held c peer)) c"

definition answered :: "bytes \<Rightarrow> socket_addr \<Rightarrow> instant \<Rightarrow> address_cache \<Rightarrow> address_cache" where
  "answered peer addr now c =
     (let addr = unmap_v4 addr in
      case hm_get c peer of
        None \<Rightarrow> c
      | Some held \<Rightarrow>
          hm_insert peer
            (update_first (\<lambda>e. ca_addr e = addr) (\<lambda>e. e\<lparr>ca_last_answer := now\<rparr>) held) c)"

definition cache_addresses :: "address_cache \<Rightarrow> bytes \<Rightarrow> socket_addr list" where
  "cache_addresses c peer = map ca_addr (cache_held c peer)"

definition cache_discovered :: "address_cache \<Rightarrow> bytes \<Rightarrow> socket_addr list" where
  "cache_discovered c peer =
     map ca_addr (filter (\<lambda>e. ca_source e = Discovery) (cache_held c peer))"

definition cache_holds :: "address_cache \<Rightarrow> bytes \<Rightarrow> socket_addr \<Rightarrow> bool" where
  "cache_holds c peer addr \<longleftrightarrow> unmap_v4 addr \<in> ca_addr ` set (cache_held c peer)"

definition ca_alive :: "instant \<Rightarrow> cached_address \<Rightarrow> bool" where
  "ca_alive now e \<longleftrightarrow> duration_since now (ca_last_answer e) < ca_ttl e"

text \<open>\<open>retain\<close> on the map and inside each list, with the number of addresses dropped.\<close>

definition expire :: "instant \<Rightarrow> address_cache \<Rightarrow> address_cache \<times> nat" where
  "expire now c =
     (filter (\<lambda>(_, held). held \<noteq> []) (map (\<lambda>(peer, held). (peer, filter (ca_alive now) held)) c),
      sum_list (map (\<lambda>(_, held). length (filter (\<lambda>e. \<not> ca_alive now e) held)) c))"

definition on_dial_failed ::
    "bytes \<Rightarrow> socket_addr \<Rightarrow> address_cache \<Rightarrow> address_cache \<times> after_dial_failure" where
  "on_dial_failed peer addr c =
     (let addr = unmap_v4 addr in
      (case hm_get c peer of
         None \<Rightarrow> c
       | Some held \<Rightarrow>
           (let held = filter (\<lambda>e. ca_addr e \<noteq> addr) held in
            if held = [] then hm_remove peer c else hm_insert peer held c),
       Rediscover))"

section \<open>The lists\<close>

lemma update_first_map:
  assumes "\<And>x. g (f x) = g x"
  shows "map g (update_first P f xs) = map g xs"
  using assms by (induction xs) auto

lemma length_update_first [simp]: "length (update_first P f xs) = length xs"
  by (induction xs) auto

lemma oldest_index_some: "xs \<noteq> [] \<Longrightarrow> \<exists>i. oldest_index xs = Some i"
  by (cases xs) (auto split: option.splits)

lemma oldest_index_least:
  "oldest_index xs = Some i \<Longrightarrow>
   i < length xs \<and> (\<forall>y \<in> set xs. ca_last_answer (xs ! i) \<le> ca_last_answer y) \<and>
   (\<forall>j < i. ca_last_answer (xs ! i) < ca_last_answer (xs ! j))"
proof (induction xs arbitrary: i)
  case (Cons x xs)
  show ?case
  proof (cases "oldest_index xs")
    case None
    then have "xs = []" using oldest_index_some by fastforce
    then show ?thesis using Cons.prems by simp
  next
    case (Some j)
    then have j: "j < length xs" "\<forall>y \<in> set xs. ca_last_answer (xs ! j) \<le> ca_last_answer y"
      "\<forall>k < j. ca_last_answer (xs ! j) < ca_last_answer (xs ! k)"
      using Cons.IH by auto
    show ?thesis
    proof (cases "ca_last_answer x \<le> ca_last_answer (xs ! j)")
      case True
      then have "i = 0" using Cons.prems Some by simp
      then show ?thesis using j True by (auto intro: order_trans)
    next
      case False
      then have "i = Suc j" using Cons.prems Some by simp
      then show ?thesis using j False by (auto simp: less_Suc_eq_0_disj)
    qed
  qed
qed simp

lemma remove_at_split:
  assumes "i < length xs"
  obtains ys zs where "xs = ys @ xs ! i # zs" and "remove_at i xs = ys @ zs"
  using id_take_nth_drop [OF assms] by (auto simp: remove_at_def)

lemma set_remove_at:
  assumes "i < length xs" and "distinct (map f xs)"
  shows "set (remove_at i xs) = set xs - {xs ! i}" and "distinct (map f (remove_at i xs))"
proof -
  obtain ys zs where x: "xs = ys @ xs ! i # zs" and r: "remove_at i xs = ys @ zs"
    by (rule remove_at_split [OF assms(1)])
  have d: "distinct (map f (ys @ xs ! i # zs))" using assms(2) x by simp
  have "set (ys @ zs) = set (ys @ xs ! i # zs) - {xs ! i}" using d by auto
  then show "set (remove_at i xs) = set xs - {xs ! i}" using x r by simp
  show "distinct (map f (remove_at i xs))" unfolding r using d by auto
qed

lemma evict_none: "length held \<le> CACHED_ADDRESSES_PER_PEER \<Longrightarrow> evict_oldest held = held"
  by (simp add: evict_oldest.simps)

text \<open>One address too many: the first of the oldest goes, and never the newest.\<close>

lemma evict_push:
  assumes len: "length xs = CACHED_ADDRESSES_PER_PEER" and d: "distinct (map ca_addr (xs @ [e]))"
  obtains old where "old \<in> set (xs @ [e])"
    and "\<forall>x \<in> set (xs @ [e]). ca_last_answer old \<le> ca_last_answer x"
    and "set (evict_oldest (xs @ [e])) = set (xs @ [e]) - {old}"
    and "length (evict_oldest (xs @ [e])) = CACHED_ADDRESSES_PER_PEER"
    and "distinct (map ca_addr (evict_oldest (xs @ [e])))"
    and "(\<exists>x \<in> set xs. ca_last_answer x \<le> ca_last_answer e) \<longrightarrow> old \<in> set xs"
proof -
  let ?held = "xs @ [e]"
  obtain i where i: "oldest_index ?held = Some i"
    using oldest_index_some [of ?held] by auto
  note least = oldest_index_least [OF i]
  then have small: "i < length ?held" by simp
  have len': "length (remove_at i ?held) = CACHED_ADDRESSES_PER_PEER"
    using length_remove_at [OF small] len by simp
  have "evict_oldest ?held = evict_oldest (remove_at i ?held)"
    using len i small by (simp add: evict_oldest.simps)
  then have ev: "evict_oldest ?held = remove_at i ?held"
    using evict_none len' by simp
  have older: "?held ! i \<in> set xs" if some: "\<exists>x \<in> set xs. ca_last_answer x \<le> ca_last_answer e"
  proof (cases "i < length xs")
    case True
    then show ?thesis by (simp add: nth_append)
  next
    case False
    then have "?held ! i = e" and "i = length xs" using small by (simp_all add: nth_append)
    moreover obtain x where "x \<in> set xs" and le: "ca_last_answer x \<le> ca_last_answer e"
      using some by blast
    moreover obtain j where j: "j < length xs" "xs ! j = x"
      using \<open>x \<in> set xs\<close> by (auto simp: in_set_conv_nth)
    moreover have "ca_last_answer (?held ! i) < ca_last_answer (?held ! j)"
      using least j(1) \<open>i = length xs\<close> by blast
    ultimately show ?thesis by (simp add: nth_append)
  qed
  show thesis
  proof (rule that [OF nth_mem [OF small] _ _ _ _ impI [OF older]])
    show "\<forall>x \<in> set ?held. ca_last_answer (?held ! i) \<le> ca_last_answer x"
      using least by blast
    show "set (evict_oldest ?held) = set ?held - {?held ! i}"
      unfolding ev by (rule set_remove_at [OF small d])
    show "length (evict_oldest ?held) = CACHED_ADDRESSES_PER_PEER"
      unfolding ev by (rule len')
    show "distinct (map ca_addr (evict_oldest ?held))"
      unfolding ev by (rule set_remove_at [OF small d])
  qed
qed

section \<open>The invariant\<close>

definition cache_list_ok :: "cached_address list \<Rightarrow> bool" where
  "cache_list_ok held \<longleftrightarrow>
     held \<noteq> [] \<and> length held \<le> CACHED_ADDRESSES_PER_PEER \<and> distinct (map ca_addr held) \<and>
     list_all (\<lambda>e. unmapped (ca_addr e)) held"

definition cache_ok :: "address_cache \<Rightarrow> bool" where
  "cache_ok c \<longleftrightarrow> hm_wf c \<and> (\<forall>peer held. hm_get c peer = Some held \<longrightarrow> cache_list_ok held)"

lemma cache_ok_Nil: "cache_ok []"
  by (simp add: cache_ok_def)

lemma cache_ok_insert: "cache_ok c \<Longrightarrow> cache_list_ok held \<Longrightarrow> cache_ok (hm_insert peer held c)"
  by (simp add: cache_ok_def hm_get_insert)

lemma cache_ok_remove: "cache_ok c \<Longrightarrow> cache_ok (hm_remove peer c)"
  by (simp add: cache_ok_def hm_get_remove)

lemma list_all_map_eq: "list_all (\<lambda>e. P (f e)) xs \<longleftrightarrow> list_all P (map f xs)"
  by (simp add: list_all_iff)

lemma cache_list_update:
  assumes "cache_list_ok held" and "\<And>e. ca_addr (f e) = ca_addr e"
  shows "cache_list_ok (update_first P f held)"
proof -
  have "update_first P f held \<noteq> []"
    using assms(1) by (cases held) (auto simp: cache_list_ok_def)
  then show ?thesis
    using assms unfolding cache_list_ok_def list_all_map_eq by (simp add: update_first_map)
qed

lemma cache_list_filter:
  "cache_list_ok held \<Longrightarrow> filter P held \<noteq> [] \<Longrightarrow> cache_list_ok (filter P held)"
  by (auto simp: cache_list_ok_def list_all_iff distinct_map_filter intro: le_trans [OF length_filter_le])

lemma cache_list_remember:
  assumes "held = [] \<or> cache_list_ok held" and "unmapped addr"
  shows "cache_list_ok (remember_in addr source now held)"
proof (cases "\<exists>e \<in> set held. ca_addr e = addr")
  case True
  then have "cache_list_ok held" using assms(1) by auto
  then show ?thesis using True by (simp add: remember_in_def cache_list_update)
next
  case False
  let ?e = "\<lparr>ca_addr = addr, ca_source = source, ca_last_answer = now\<rparr>"
  have d: "distinct (map ca_addr (held @ [?e]))" and un: "\<forall>e \<in> set (held @ [?e]). unmapped (ca_addr e)"
    using assms False by (auto simp: cache_list_ok_def list_all_iff)
  have r: "remember_in addr source now held = evict_oldest (held @ [?e])"
    using False by (simp add: remember_in_def)
  show ?thesis
  proof (cases "length held < CACHED_ADDRESSES_PER_PEER")
    case True
    then show ?thesis using r d un by (simp add: evict_none cache_list_ok_def list_all_iff)
  next
    case full: False
    then have len: "length held = CACHED_ADDRESSES_PER_PEER"
      using assms(1) by (auto simp: cache_list_ok_def)
    obtain old where "set (evict_oldest (held @ [?e])) = set (held @ [?e]) - {old}"
      and "length (evict_oldest (held @ [?e])) = CACHED_ADDRESSES_PER_PEER"
      and "distinct (map ca_addr (evict_oldest (held @ [?e])))"
      by (rule evict_push [OF len d])
    then show ?thesis using r un
      by (auto simp: cache_list_ok_def list_all_iff CACHED_ADDRESSES_PER_PEER_def simp flip: length_0_conv)
  qed
qed

lemma cache_held_ok: "cache_ok c \<Longrightarrow> cache_held c peer = [] \<or> cache_list_ok (cache_held c peer)"
  by (auto simp: cache_ok_def cache_held_def split: option.splits)

lemma remember_ok: "cache_ok c \<Longrightarrow> cache_ok (remember peer addr source now c)"
  unfolding remember_def
  by (intro cache_ok_insert cache_list_remember cache_held_ok) simp_all

lemma answered_ok: "cache_ok c \<Longrightarrow> cache_ok (answered peer addr now c)"
  by (auto simp: answered_def Let_def split: option.splits
      intro!: cache_ok_insert cache_list_update) (simp add: cache_ok_def)

lemma dial_failed_ok: "cache_ok c \<Longrightarrow> cache_ok (fst (on_dial_failed peer addr c))"
  by (auto simp: on_dial_failed_def Let_def split: option.splits
      intro!: cache_ok_insert cache_ok_remove cache_list_filter) (auto simp: cache_ok_def filter_empty_conv)

lemma expire_get:
  assumes "hm_wf c"
  shows "hm_get (fst (expire now c)) peer =
     (case hm_get c peer of
        None \<Rightarrow> None
      | Some held \<Rightarrow>
          if filter (ca_alive now) held = [] then None else Some (filter (ca_alive now) held))"
  using assms unfolding expire_def fst_conv
proof (induction c)
  case (Cons x c)
  have wf: "hm_wf c" and new: "fst x \<notin> fst ` set c" using Cons.prems by (simp_all add: hm_wf_def)
  have none: "hm_get c peer = None" if "peer = fst x"
    using new that by (simp add: map_of_eq_None_iff)
  show ?case
  proof (cases "peer = fst x")
    case True
    then show ?thesis using Cons.IH [OF wf] none [OF True] by (cases x) simp
  next
    case False
    then show ?thesis using Cons.IH [OF wf] by (cases x) simp
  qed
qed simp

lemma expire_wf: "hm_wf c \<Longrightarrow> hm_wf (fst (expire now c))"
proof -
  have "map fst (map (\<lambda>(peer, held). (peer, filter (ca_alive now) held)) c) = map fst c"
    by (simp add: case_prod_unfold o_def)
  then show "hm_wf c \<Longrightarrow> ?thesis"
    unfolding hm_wf_def expire_def fst_conv by (metis distinct_map_filter)
qed

lemma expire_ok: "cache_ok c \<Longrightarrow> cache_ok (fst (expire now c))"
  unfolding cache_ok_def
  by (auto simp: expire_wf expire_get intro: cache_list_filter split: option.splits if_splits)

section \<open>The calls\<close>

datatype cache_call =
    Remember bytes socket_addr candidate_source instant
  | Answered bytes socket_addr instant
  | Expire instant
  | DialFailed bytes socket_addr

fun cache_apply :: "cache_call \<Rightarrow> address_cache \<Rightarrow> address_cache" where
  "cache_apply (Remember peer addr source now) c = remember peer addr source now c"
| "cache_apply (Answered peer addr now) c = answered peer addr now c"
| "cache_apply (Expire now) c = fst (expire now c)"
| "cache_apply (DialFailed peer addr) c = fst (on_dial_failed peer addr c)"

definition cache_run :: "cache_call list \<Rightarrow> address_cache" where
  "cache_run calls = fold cache_apply calls []"

lemma cache_run_ok: "cache_ok (cache_run calls)"
proof -
  have "cache_ok c \<Longrightarrow> cache_ok (fold cache_apply calls c)" for c
  proof (induction calls arbitrary: c)
    case (Cons a calls)
    have "cache_ok (cache_apply a c)"
      using Cons.prems by (cases a) (simp_all add: remember_ok answered_ok expire_ok dial_failed_ok)
    then show ?case using Cons.IH by simp
  qed simp
  then show ?thesis by (simp add: cache_run_def cache_ok_Nil)
qed

section \<open>What each call does to one peer's list\<close>

lemma expire_held: "hm_wf c \<Longrightarrow> cache_held (fst (expire now c)) peer = filter (ca_alive now) (cache_held c peer)"
  by (simp add: cache_held_def expire_get split: option.splits)

lemma expire_count:
  assumes "hm_wf c"
  shows "snd (expire now c) =
    (\<Sum>peer \<in> dom (hm_get c). length (cache_held c peer) - length (cache_held (fst (expire now c)) peer))"
proof -
  have split: "length (filter (\<lambda>e. \<not> P e) xs) = length xs - length (filter P xs)" for P and xs :: "cached_address list"
    using sum_length_filter_compl [of P xs] by simp
  have "snd (expire now c) = (\<Sum>(peer, held) \<leftarrow> c. length (filter (\<lambda>e. \<not> ca_alive now e) held))"
    by (simp add: expire_def)
  also have "\<dots> = (\<Sum>x \<in> set c. length (filter (\<lambda>e. \<not> ca_alive now e) (snd x)))"
    using assms by (subst sum_list_distinct_conv_sum_set)
      (auto simp: hm_wf_def case_prod_unfold distinct_map)
  also have "\<dots> = (\<Sum>x \<in> set c. length (filter (\<lambda>e. \<not> ca_alive now e) (cache_held c (fst x))))"
    using assms by (intro sum.cong) (auto simp: cache_held_def hm_get_iff_mem [symmetric])
  also have "\<dots> = (\<Sum>peer \<in> fst ` set c. length (filter (\<lambda>e. \<not> ca_alive now e) (cache_held c peer)))"
    using assms by (subst sum.reindex) (auto simp: hm_wf_def distinct_map)
  finally show ?thesis
    by (simp add: dom_map_of_conv_image_fst split expire_held [OF assms])
qed

lemma dial_failed_held:
  "cache_held (fst (on_dial_failed peer addr c)) p =
     (if p = peer then filter (\<lambda>e. ca_addr e \<noteq> unmap_v4 addr) (cache_held c peer) else cache_held c p)"
  by (auto simp: on_dial_failed_def cache_held_def Let_def hm_get_insert hm_get_remove split: option.splits)

lemma remember_held:
  "cache_held (remember peer addr source now c) p =
     (if p = peer then remember_in (unmap_v4 addr) source now (cache_held c peer) else cache_held c p)"
  by (simp add: remember_def cache_held_def hm_get_insert)

lemma update_first_set:
  assumes "distinct (map g xs)"
  shows "set (update_first (\<lambda>x. g x = k) f xs) =
     f ` {x \<in> set xs. g x = k} \<union> {x \<in> set xs. g x \<noteq> k}"
  using assms
proof (induction xs)
  case (Cons x xs)
  show ?case
  proof (cases "g x = k")
    case True
    have "g y \<noteq> k" if "y \<in> set xs" for y
      using Cons.prems True imageI [OF that, of g] by auto
    then show ?thesis using True by auto
  next
    case False
    then show ?thesis using Cons by auto
  qed
qed simp

lemma remember_in_spec:
  fixes addr source now held
  defines "e \<equiv> \<lparr>ca_addr = addr, ca_source = source, ca_last_answer = now\<rparr>"
    and "new \<equiv> remember_in addr source now held"
  assumes ok: "held = [] \<or> cache_list_ok held" and clock: "\<forall>x \<in> set held. ca_last_answer x \<le> now"
  shows "e \<in> set new \<and> set new \<subseteq> insert e (set held) \<and>
    (\<forall>x \<in> set held. ca_addr x \<noteq> addr \<longrightarrow> x \<in> set new \<or>
       length held = CACHED_ADDRESSES_PER_PEER \<and> set new = insert e (set held) - {x} \<and>
       (\<forall>y \<in> set held. ca_last_answer x \<le> ca_last_answer y))"
proof (cases "\<exists>x \<in> set held. ca_addr x = addr")
  case True
  then have d: "distinct (map ca_addr held)" using ok by (auto simp: cache_list_ok_def)
  have e: "x\<lparr>ca_last_answer := now, ca_source := source\<rparr> = e" if "ca_addr x = addr" for x
    using that by (cases x) (simp add: e_def)
  have "set new = insert e {x \<in> set held. ca_addr x \<noteq> addr}"
    using True e by (auto simp: new_def remember_in_def update_first_set [OF d])
  then show ?thesis by auto
next
  case False
  then have new: "new = evict_oldest (held @ [e])" by (simp add: new_def remember_in_def e_def)
  show ?thesis
  proof (cases "length held < CACHED_ADDRESSES_PER_PEER")
    case True
    then have "new = held @ [e]" using new by (simp add: evict_none)
    then show ?thesis by auto
  next
    case full: False
    then have len: "length held = CACHED_ADDRESSES_PER_PEER" and "held \<noteq> []"
      using ok by (auto simp: cache_list_ok_def CACHED_ADDRESSES_PER_PEER_def)
    have d: "distinct (map ca_addr (held @ [e]))"
      using ok False \<open>held \<noteq> []\<close> by (auto simp: cache_list_ok_def e_def)
    obtain old where "old \<in> set (held @ [e])"
      and old: "\<forall>x \<in> set (held @ [e]). ca_last_answer old \<le> ca_last_answer x"
      "set (evict_oldest (held @ [e])) = set (held @ [e]) - {old}"
      and "length (evict_oldest (held @ [e])) = CACHED_ADDRESSES_PER_PEER"
      and "distinct (map ca_addr (evict_oldest (held @ [e])))"
      and older: "(\<exists>x \<in> set held. ca_last_answer x \<le> ca_last_answer e) \<longrightarrow> old \<in> set held"
      by (rule evict_push [OF len d])
    have "old \<in> set held" using older clock \<open>held \<noteq> []\<close> by (cases held) (auto simp: e_def)
    moreover have "e \<notin> set held" using False by (auto simp: e_def)
    ultimately show ?thesis using old(1,2) len by (auto simp: new)
  qed
qed

end
