(* ===== verification/Live_Props.thy ===== *)
theory Live_Props
  imports Address_Cache
begin

text \<open>
  The properties of liveness and of the address cache, with the runs that show their
  hypotheses can hold.
\<close>

section \<open>The state machine\<close>

text \<open>C30: A peer only moves down from live to stale to dead, whatever calls its owner makes
  and in whatever order. Every move is reported exactly once, so the reports of a run are one
  of four lists and say which state the peer is in, and when it was last seen is recorded
  exactly when it is dead.\<close>

theorem liveness_one_way:
  "case live_calls calls (liveness_new t0) of (q, changes) \<Rightarrow>
     (changes = [] \<and> pl_state q = Live \<and> pl_last_seen q = None) \<or>
     (changes = [WentStale] \<and> pl_state q = Stale \<and> pl_last_seen q = None) \<or>
     (changes \<in> {[WentDead], [WentStale, WentDead]} \<and> pl_state q = Dead \<and>
        (\<exists>seen. pl_last_seen q = Some seen))"
proof -
  obtain q changes where run: "live_calls calls (liveness_new t0) = (q, changes)"
    by (cases "live_calls calls (liveness_new t0)")
  have "reports Live (pl_state q) changes"
    using live_calls_reports [OF run] by (simp add: liveness_new_def)
  moreover have "live_shape q"
    using live_calls_shape [OF live_shape_new, of calls t0] by (simp add: run)
  ultimately show ?thesis
    unfolding run by (cases "pl_state q") (auto simp: live_shape_def)
qed

text \<open>No false alarm before its time. If the calls on a peer are made at times that never
  go back, a poll reports stale only when at least three loss deadlines of 500 ms have passed
  since the last answer, and it reports dead only from stale, at least the 5 s grace after
  the peer went stale; the last seen it then records is the last answer, as a timeout.\<close>

theorem stale_never_early:
  assumes "live_run t p" and "t \<le> now" and "poll now p = (q, Some change)"
  shows "(change = WentStale \<longrightarrow>
       pl_state p = Live \<and> pl_state q = Stale \<and>
       pl_last_answer p + 3 * PROBE_LOSS_FLOOR \<le> now) \<and>
     (change = WentDead \<longrightarrow>
       (\<exists>s. pl_stale_since p = Some s \<and> s + DEAD_GRACE_BASE \<le> now) \<and> pl_state p = Stale \<and>
       pl_last_seen q = Some \<lparr>ls_at = pl_last_answer p, ls_reason = SeenTimeout\<rparr>)"
proof (cases "pl_state p")
  case Live
  then have q: "q = (count_miss now p)\<lparr>pl_state := Stale, pl_stale_since := Some now\<rparr>"
    and "change = WentStale" and "PROBES_TO_STALE \<le> pl_misses (count_miss now p)"
    using assms(3) by (auto simp: poll_def Let_def split: if_splits)
  then have three: "3 * PROBE_LOSS_FLOOR \<le> unat (pl_misses (count_miss now p)) * PROBE_LOSS_FLOOR"
    by (intro mult_le_mono1) (simp add: stale_threshold)
  have "miss_clock now (count_miss now p)"
    by (rule miss_clock_count [OF live_run_clock [OF assms(1)] assms(2)])
  then have "pl_last_answer p + unat (pl_misses (count_miss now p)) * PROBE_LOSS_FLOOR \<le> now"
    by (simp add: miss_clock_def)
  with three have "pl_last_answer p + 3 * PROBE_LOSS_FLOOR \<le> now" by linarith
  then show ?thesis
    using Live \<open>change = WentStale\<close> by (simp add: q)
next
  case Stale
  then obtain s where "pl_stale_since p = Some s" "dead_grace (pl_srtt p) \<le> now - s"
    and "change = WentDead"
    and "pl_last_seen q = Some \<lparr>ls_at = pl_last_answer p, ls_reason = SeenTimeout\<rparr>"
    using assms(3) by (auto simp: poll_def Let_def duration_since_def split: if_splits option.splits)
  moreover have "0 < DEAD_GRACE_BASE" by (simp add: live_consts)
  ultimately show ?thesis
    using Stale dead_grace_base [of "pl_srtt p"] by auto
next
  case Dead
  then show ?thesis using assms(3) by (simp add: poll_def)
qed

text \<open>C31: A peer that stopped answering is found out. Let the owner poll and probe at ticks
  that are never more than \<open>d\<close> apart. A round is one probe interval, one loss deadline and two
  ticks. Three rounds after the silence began the peer is no longer live, and after the dead
  grace on top of that it is dead.\<close>

theorem silence_detected:
  assumes "live_run t0 p" and "paced d t0 ts"
  shows "let round = probe_interval (p\<lparr>pl_state := Live\<rparr>) + probe_loss_deadline (pl_srtt p) + 2 * d;
      q = fold silent_tick ts p; now = last (t0 # ts) in
    (t0 + 3 * round < now \<longrightarrow> pl_state q \<noteq> Live) \<and>
    (t0 + 3 * round + dead_grace (pl_srtt p) \<le> now \<longrightarrow> pl_state q = Dead)"
proof -
  define i l where "i = probe_interval (p\<lparr>pl_state := Live\<rparr>)" and "l = probe_loss_deadline (pl_srtt p)"
  define q now where "q = fold silent_tick ts p" and "now = last (t0 # ts)"
  have sane: "live_sane t0 p" and shape: "live_shape p"
    using assms(1) live_run_sane live_run_shape by blast+
  have "silent_bound t0 i l d t0 p"
    using sane shape
    by (cases "pl_state p")
      (auto simp: silent_bound_def Let_def live_sane_def live_shape_def trans_le_add1 split: option.splits)
  moreover have "probe_interval p = i" if "pl_state p = Live"
    using that probe_interval_live [of p "p\<lparr>pl_state := Live\<rparr>"] by (simp add: i_def)
  ultimately have bound: "silent_bound t0 i l d now q"
    unfolding q_def now_def using assms(2) sane
    by (intro silent_bound_ticks) (simp_all add: l_def)
  have "live_sane now q"
    unfolding q_def now_def using assms(2) sane by (rule live_sane_ticks)
  then have "unat (pl_misses q) \<le> 2" if "pl_state q = Live"
    using that by (simp add: live_sane_def)
  then have "unat (pl_misses q) * (i + l + 2 * d) \<le> 2 * (i + l + 2 * d)" if "pl_state q = Live"
    using that by (intro mult_le_mono1) simp
  then have live: "now \<le> t0 + 3 * (i + l + 2 * d)" if "pl_state q = Live"
    using that bound by (fastforce simp: silent_bound_def Let_def split: option.splits)
  have "0 < dead_grace (pl_srtt p)"
    using dead_grace_base [of "pl_srtt p"] by (simp add: live_consts)
  then have stale: "now < t0 + 3 * (i + l + 2 * d) + dead_grace (pl_srtt p)" if "pl_state q = Stale"
    using that bound by (auto simp: silent_bound_def Let_def q_def)
  have "0 < dead_grace (pl_srtt p)" by fact
  then show ?thesis
    unfolding Let_def using live stale
    by (cases "pl_state q") (fold i_def l_def q_def now_def, auto)
qed

section \<open>The cache\<close>

text \<open>Whatever sequence of calls built the cache, no peer has more than eight addresses,
  no address twice, none in the IPv4-mapped form, and no peer an empty list; an address is
  held in either spelling or in neither.\<close>

theorem cache_invariant:
  "let held = cache_held (cache_run calls) peer in
     length held \<le> CACHED_ADDRESSES_PER_PEER \<and> distinct (map ca_addr held) \<and>
     list_all (\<lambda>e. unmapped (ca_addr e)) held \<and>
     hm_get (cache_run calls) peer \<noteq> Some [] \<and>
     cache_holds (cache_run calls) peer (unmap_v4 addr) = cache_holds (cache_run calls) peer addr"
proof -
  have ok: "cache_ok (cache_run calls)" by (rule cache_run_ok)
  then have "hm_get (cache_run calls) peer \<noteq> Some []"
    by (auto simp: cache_ok_def cache_list_ok_def)
  with cache_held_ok [OF ok, of peer] show ?thesis
    by (auto simp: Let_def cache_list_ok_def cache_holds_def)
qed

text \<open>What keeps an address. Expiry keeps exactly the addresses that answered within their
  lifetime, 5 minutes for a discovered one and 10 for any other, and counts the ones it drops.
  A failed dial removes exactly that address of that peer. Remembering, at a time no earlier
  than the times held, keeps the new address and every other one, except that a ninth address
  takes the place of the one that has gone longest without an answer.\<close>

theorem cache_lifetime:
  assumes "c = cache_run calls"
  shows "cache_held (fst (expire now c)) peer =
      filter (\<lambda>e. now - ca_last_answer e <
        from_secs (if ca_source e = Discovery then 300 else 600)) (cache_held c peer) \<and>
    snd (expire now c) =
      (\<Sum>k \<in> dom (hm_get c). length (cache_held c k) - length (cache_held (fst (expire now c)) k)) \<and>
    cache_held (fst (on_dial_failed peer addr c)) p =
      (if p = peer then filter (\<lambda>e. ca_addr e \<noteq> unmap_v4 addr) (cache_held c peer)
       else cache_held c p) \<and>
    (p \<noteq> peer \<longrightarrow> cache_held (remember peer addr source now c) p = cache_held c p) \<and>
    ((\<forall>x \<in> set (cache_held c peer). ca_last_answer x \<le> now) \<longrightarrow>
      (let e = \<lparr>ca_addr = unmap_v4 addr, ca_source = source, ca_last_answer = now\<rparr>;
           old = set (cache_held c peer);
           new = set (cache_held (remember peer addr source now c) peer) in
        e \<in> new \<and> new \<subseteq> insert e old \<and>
        (\<forall>x \<in> old. ca_addr x \<noteq> unmap_v4 addr \<longrightarrow>
           x \<in> new \<or> card old = 8 \<and> new = insert e old - {x} \<and>
             (\<forall>y \<in> old. ca_last_answer x \<le> ca_last_answer y))))"
proof (intro conjI impI)
  have ok: "cache_ok c" and wf: "hm_wf c"
    using cache_run_ok [of calls] by (simp_all add: assms cache_ok_def)
  have "ca_ttl e = from_secs (if ca_source e = Discovery then 300 else 600)" for e
    by (simp add: ca_ttl_def DISCOVERED_ADDRESS_TTL_def CACHED_ADDRESS_TTL_def
        split: candidate_source.split)
  then have "ca_alive now = (\<lambda>e. now - ca_last_answer e <
      from_secs (if ca_source e = Discovery then 300 else 600))"
    by (simp add: fun_eq_iff ca_alive_def duration_since_def)
  then show "cache_held (fst (expire now c)) peer = filter (\<lambda>e. now - ca_last_answer e <
      from_secs (if ca_source e = Discovery then 300 else 600)) (cache_held c peer)"
    by (simp only: expire_held [OF wf])
  show "snd (expire now c) =
      (\<Sum>k \<in> dom (hm_get c). length (cache_held c k) - length (cache_held (fst (expire now c)) k))"
    by (rule expire_count [OF wf])
  show "cache_held (fst (on_dial_failed peer addr c)) p =
      (if p = peer then filter (\<lambda>e. ca_addr e \<noteq> unmap_v4 addr) (cache_held c peer)
       else cache_held c p)"
    by (rule dial_failed_held)
  show "p \<noteq> peer \<Longrightarrow> cache_held (remember peer addr source now c) p = cache_held c p"
    by (simp add: remember_held)
  assume clock: "\<forall>x \<in> set (cache_held c peer). ca_last_answer x \<le> now"
  have "card (set (cache_held c peer)) = length (cache_held c peer)"
    using cache_held_ok [OF ok, of peer]
    by (auto simp: cache_list_ok_def distinct_card dest: distinct_map [THEN iffD1])
  then show "let e = \<lparr>ca_addr = unmap_v4 addr, ca_source = source, ca_last_answer = now\<rparr>;
           old = set (cache_held c peer);
           new = set (cache_held (remember peer addr source now c) peer) in
        e \<in> new \<and> new \<subseteq> insert e old \<and>
        (\<forall>x \<in> old. ca_addr x \<noteq> unmap_v4 addr \<longrightarrow>
           x \<in> new \<or> card old = 8 \<and> new = insert e old - {x} \<and>
             (\<forall>y \<in> old. ca_last_answer x \<le> ca_last_answer y))"
    using remember_in_spec [OF cache_held_ok [OF ok, of peer] clock, of "unmap_v4 addr" source]
    unfolding Let_def remember_held CACHED_ADDRESSES_PER_PEER_def by simp
qed

section \<open>Runs at which the hypotheses hold\<close>

definition demo_silence :: "instant list" where
  "demo_silence = map from_secs [20, 40, 60, 80, 100, 120, 140, 160]"

theorem silence_detected_witness:
  "live_run 0 (liveness_new 0) \<and> paced (from_secs 20) 0 demo_silence \<and>
   pl_state (fold silent_tick demo_silence (liveness_new 0)) = Dead"
proof -
  have run: "live_run 0 (liveness_new 0)" by (rule live_run_new)
  have paced: "paced (from_secs 20) 0 demo_silence" by (simp add: demo_silence_def from_secs_def)
  have "last (0 # demo_silence) = from_secs 160" by (simp add: demo_silence_def)
  moreover have "0 + 3 * (probe_interval ((liveness_new 0)\<lparr>pl_state := Live\<rparr>) +
      probe_loss_deadline (pl_srtt (liveness_new 0)) + 2 * from_secs 20) +
      dead_grace (pl_srtt (liveness_new 0)) \<le> from_secs 160"
    by (simp add: liveness_new_def probe_interval_def keepalive_interval_def
        probe_loss_deadline_def dead_grace_def live_consts)
  ultimately show ?thesis
    using silence_detected [OF run paced] run paced by (simp add: Let_def)
qed

text \<open>A visit in which three probes, half a second apart, go unanswered.\<close>

definition demo_unanswered :: peer_liveness where
  "demo_unanswered = (liveness_new 0)\<lparr>pl_activity := Visit, pl_misses := 2,
     pl_outstanding := Some (from_millis 1000), pl_last_sent := Some (from_millis 1000)\<rparr>"

lemma live_run_applied:
  "live_run t p \<Longrightarrow> t \<le> now \<Longrightarrow> fst (live_apply c now p) = q \<Longrightarrow> live_run now q"
  using live_run_call by blast

lemma demo_unanswered_run: "live_run (from_millis 1000) demo_unanswered"
proof -
  let ?p = "\<lambda>m t. (liveness_new 0)\<lparr>pl_activity := Visit, pl_misses := m,
     pl_outstanding := Some t, pl_last_sent := Some t\<rparr>"
  let ?q = "\<lambda>m t. (liveness_new 0)\<lparr>pl_activity := Visit, pl_misses := m,
     pl_outstanding := None, pl_last_sent := Some t\<rparr>"
  note calc = liveness_new_def set_activity_def due_probe_def poll_def count_miss_def Let_def
    probe_interval_def probe_loss_deadline_def duration_since_def live_consts sat_inc32_def
    stale_threshold
  have "live_run 0 (set_activity Visit (liveness_new 0))"
    by (rule live_run_applied [OF live_run_new, where c = "SetActivity Visit"]) simp_all
  then have "live_run 0 (?p 0 0)"
    by (rule live_run_applied [of _ _ _ DueProbe]) (simp_all add: calc)
  then have "live_run (from_millis 500) (?q 1 0)"
    by (rule live_run_applied [of _ _ _ Poll]) (simp_all add: calc)
  then have "live_run (from_millis 500) (?p 1 (from_millis 500))"
    by (rule live_run_applied [of _ _ _ DueProbe]) (simp_all add: calc)
  then have "live_run (from_millis 1000) (?q 2 (from_millis 500))"
    by (rule live_run_applied [of _ _ _ Poll]) (simp_all add: calc)
  then show ?thesis
    by (rule live_run_applied [of _ _ _ DueProbe]) (simp_all add: calc demo_unanswered_def)
qed

theorem stale_never_early_witness:
  "\<exists>q. live_run (from_millis 1000) demo_unanswered \<and>
     poll (from_millis 1500) demo_unanswered = (q, Some WentStale) \<and> pl_state q = Stale \<and>
     pl_last_answer demo_unanswered + 3 * PROBE_LOSS_FLOOR \<le> from_millis 1500"
proof -
  have "snd (poll (from_millis 1500) demo_unanswered) = Some WentStale"
    by (simp add: demo_unanswered_def liveness_new_def poll_def count_miss_def Let_def
        probe_loss_deadline_def duration_since_def live_consts sat_inc32_def stale_threshold)
  then have poll: "poll (from_millis 1500) demo_unanswered =
      (fst (poll (from_millis 1500) demo_unanswered), Some WentStale)"
    by (metis prod.collapse)
  then show ?thesis
    using stale_never_early [OF demo_unanswered_run _ poll] demo_unanswered_run
    by (auto simp: from_millis_def)
qed

theorem cache_lifetime_witness:
  "let a = V4 [192, 168, 1, 7] 4000; c = cache_run [Remember zero32 a Discovery 0] in
     \<lparr>ca_addr = a, ca_source = Local, ca_last_answer = 1\<rparr>
       \<in> set (cache_held (remember zero32 a Local 1 c) zero32)"
proof -
  let ?a = "V4 [192, 168, 1, 7] 4000"
  let ?c = "cache_run [Remember zero32 ?a Discovery 0]"
  have "\<forall>x \<in> set (cache_held ?c zero32). ca_last_answer x \<le> 1"
    by (simp add: cache_run_def remember_held remember_in_def evict_none
        CACHED_ADDRESSES_PER_PEER_def cache_held_def [of "[]"])
  then show ?thesis
    using cache_lifetime [OF refl, where calls = "[Remember zero32 ?a Discovery 0]" and now = 1
      and peer = zero32 and addr = ?a and source = Local]
    by (simp only: Let_def unmap_v4_V4 simp_thms)
qed

end
