(* ===== verification/Window_Limits.thy ===== *)
theory Window_Limits
  imports Prelude
begin

text \<open>
  Two interfaces that several components share. A bounded memory accepts an item once and
  forgets the oldest past its cap: \<open>ReplayGuard\<close> and the answered ids of \<open>PongLimiter\<close>.
  A fixed window counts what it admits from the start of the current second:
  \<open>ReceiveLimiter\<close> and \<open>PongLimiter\<close>.
\<close>

section \<open>A memory with a cap\<close>

text \<open>The eviction loop: pop from the front until the queue is within the cap.\<close>

fun evict_front :: "nat \<Rightarrow> 'a set \<Rightarrow> 'a list \<Rightarrow> 'a set \<times> 'a list" where
  "evict_front cap seen [] = (seen, [])"
| "evict_front cap seen (x # order) =
     (if length (x # order) > cap then evict_front cap (seen - {x}) order
      else (seen, x # order))"

lemma evict_front_set:
  assumes "distinct order" and "seen = set order"
  shows "evict_front cap seen order =
     (set (drop (length order - cap) order), drop (length order - cap) order)"
  using assms
proof (induction cap seen order rule: evict_front.induct)
  case (2 cap seen x order)
  then show ?case by (cases "length (x # order) > cap") (auto simp: Suc_diff_le)
qed simp

text \<open>
  A set for the question and a queue for the order: an item that is in the set is refused,
  any other is remembered, and the loop evicts.
\<close>

definition remember_once :: "nat \<Rightarrow> 'a \<Rightarrow> 'a set \<times> 'a list \<Rightarrow> ('a set \<times> 'a list) \<times> bool" where
  "remember_once cap x m =
     (case m of (seen, order) \<Rightarrow>
        if x \<in> seen then ((seen, order), False)
        else (evict_front cap (insert x seen) (order @ [x]), True))"

definition memory_wf :: "nat \<Rightarrow> 'a set \<times> 'a list \<Rightarrow> bool" where
  "memory_wf cap m \<longleftrightarrow> distinct (snd m) \<and> fst m = set (snd m) \<and> length (snd m) \<le> cap"

lemma memory_wf_empty: "memory_wf cap ({}, [])"
  by (simp add: memory_wf_def)

lemma remember_once_known:
  "memory_wf cap m \<Longrightarrow> x \<in> set (snd m) \<Longrightarrow> remember_once cap x m = (m, False)"
  by (cases m) (simp add: memory_wf_def remember_once_def)

lemma remember_once_new:
  assumes "memory_wf cap m" and "x \<notin> set (snd m)"
  shows "remember_once cap x m =
    ((set (drop (Suc (length (snd m)) - cap) (snd m @ [x])), drop (Suc (length (snd m)) - cap) (snd m @ [x])),
     True)"
proof -
  obtain seen order where m: "m = (seen, order)" by (cases m)
  have "evict_front cap (insert x seen) (order @ [x]) =
      (set (drop (length (order @ [x]) - cap) (order @ [x])), drop (length (order @ [x]) - cap) (order @ [x]))"
    using assms m by (intro evict_front_set) (auto simp: memory_wf_def)
  then show ?thesis using assms by (simp add: m remember_once_def memory_wf_def del: drop_append)
qed

lemma remember_once_wf: "memory_wf cap m \<Longrightarrow> memory_wf cap (fst (remember_once cap x m))"
proof (cases "x \<in> set (snd m)")
  case False
  moreover assume "memory_wf cap m"
  ultimately show ?thesis
    by (simp add: remember_once_new memory_wf_def del: drop_append)
qed (simp add: remember_once_known)

locale bounded_memory =
  fixes items :: "'s \<Rightarrow> 'a list" and push :: "'a \<Rightarrow> 's \<Rightarrow> 's \<times> bool"
    and wf :: "'s \<Rightarrow> bool" and cap :: nat
  assumes push_known: "wf s \<Longrightarrow> x \<in> set (items s) \<Longrightarrow> push x s = (s, False)"
    and push_new: "wf s \<Longrightarrow> x \<notin> set (items s) \<Longrightarrow>
      snd (push x s) \<and> items (fst (push x s)) = drop (Suc (length (items s)) - cap) (items s @ [x])"
    and wf_push: "wf s \<Longrightarrow> wf (fst (push x s))"
    and wf_items: "wf s \<Longrightarrow> distinct (items s) \<and> length (items s) \<le> cap"
begin

text \<open>What is remembered is the end of what was accepted.\<close>

definition remembers :: "'a list \<Rightarrow> 's \<Rightarrow> bool" where
  "remembers log s \<longleftrightarrow> items s = drop (length log - cap) log"

lemma push_remembers:
  assumes "wf s" and "remembers log s"
  shows "remembers (if snd (push x s) then log @ [x] else log) (fst (push x s))"
proof (cases "x \<in> set (items s)")
  case True
  then show ?thesis using assms push_known by simp
next
  case False
  have "drop (Suc (length (items s)) - cap) (items s @ [x]) = drop (length (log @ [x]) - cap) (log @ [x])"
  proof (cases "length log < cap")
    case True
    then have "items s = log" using assms(2) by (simp add: remembers_def)
    then show ?thesis by simp
  next
    case full: False
    then have "length (items s) = cap" using assms(2) by (simp add: remembers_def)
    then show ?thesis
      using full assms(2) by (simp add: remembers_def Suc_diff_le del: drop_append)
        (simp add: Suc_diff_le drop_Suc tl_drop)
  qed
  then show ?thesis using push_new [OF assms(1) False] by (simp add: remembers_def)
qed

text \<open>An item accepted a second time was forgotten in between.\<close>

definition spaced :: "'a list \<Rightarrow> bool" where
  "spaced log \<longleftrightarrow> (\<forall>i j. i < j \<and> j < length log \<and> log ! i = log ! j \<longrightarrow> cap < j - i)"

lemma spaced_snoc:
  assumes "spaced log" and "x \<notin> set (drop (length log - cap) log)"
  shows "spaced (log @ [x])"
  unfolding spaced_def
proof (intro allI impI)
  fix i j
  assume ij: "i < j \<and> j < length (log @ [x]) \<and> (log @ [x]) ! i = (log @ [x]) ! j"
  show "cap < j - i"
  proof (cases "j = length log")
    case True
    then have "log ! i = x" "i < length log" using ij by (auto simp: nth_append)
    moreover have "\<not> length log - cap \<le> i"
    proof
      assume "length log - cap \<le> i"
      then have "drop (length log - cap) log ! (i - (length log - cap)) = log ! i"
        using \<open>i < length log\<close> by simp
      moreover have "i - (length log - cap) < length (drop (length log - cap) log)"
        using \<open>i < length log\<close> \<open>length log - cap \<le> i\<close> by simp
      ultimately show False using assms(2) \<open>log ! i = x\<close> by (metis nth_mem)
    qed
    ultimately show ?thesis using True by simp
  next
    case False
    then show ?thesis using ij assms(1) by (auto simp: spaced_def nth_append)
  qed
qed

lemma push_iff: "wf s \<Longrightarrow> snd (push x s) \<longleftrightarrow> x \<notin> set (items s)"
  using push_known push_new by fastforce

text \<open>
  One call, whatever was accepted before: an item is accepted exactly when it is not among
  the last \<open>cap\<close> accepted ones, and then the log stays spaced.
\<close>

lemma accept_step:
  assumes "wf s" and "remembers log s" and "spaced log" and "snd (push x s)"
  shows "wf (fst (push x s))" and "remembers (log @ [x]) (fst (push x s))" and "spaced (log @ [x])"
proof -
  show "wf (fst (push x s))" by (rule wf_push [OF assms(1)])
  show "remembers (log @ [x]) (fst (push x s))"
    using push_remembers [OF assms(1,2), of x] assms(4) by simp
  have "x \<notin> set (drop (length log - cap) log)"
    using push_iff [OF assms(1)] assms(2,4) by (simp add: remembers_def)
  then show "spaced (log @ [x])" by (rule spaced_snoc [OF assms(3)])
qed

lemma accept_iff:
  "wf s \<Longrightarrow> remembers log s \<Longrightarrow> snd (push x s) \<longleftrightarrow> x \<notin> set (drop (length log - cap) log)"
  by (simp add: push_iff remembers_def)

end

lemma bounded_memory_once: "bounded_memory snd (remember_once cap) (memory_wf cap) cap"
proof
  fix m :: "'a set \<times> 'a list" and x
  assume wf: "memory_wf cap m"
  show "x \<in> set (snd m) \<Longrightarrow> remember_once cap x m = (m, False)"
    by (rule remember_once_known [OF wf])
  show "x \<notin> set (snd m) \<Longrightarrow> snd (remember_once cap x m) \<and>
      snd (fst (remember_once cap x m)) = drop (Suc (length (snd m)) - cap) (snd m @ [x])"
    by (simp add: remember_once_new [OF wf] del: drop_append)
  show "memory_wf cap (fst (remember_once cap x m))"
    by (rule remember_once_wf [OF wf])
  show "distinct (snd m) \<and> length (snd m) \<le> cap"
    using wf by (simp add: memory_wf_def)
qed

section \<open>A fixed window\<close>

definition one_second :: duration where
  "one_second = from_secs 1"

lemma one_second_pos: "0 < one_second"
  by (simp add: one_second_def from_secs_def)

text \<open>Starts of windows inside one second: there is room for two.\<close>

lemma windows_in_a_second:
  assumes "finite S" and "\<forall>v \<in> S. \<forall>w \<in> S. v = w \<or> v + d \<le> w \<or> w + d \<le> v"
    and "\<forall>w \<in> S. a < w + d \<and> w < a + (d :: nat)"
  shows "card S \<le> 2"
proof (rule ccontr)
  assume "\<not> card S \<le> 2"
  then obtain T where "T \<subseteq> S" "card T = 3"
    by (metis not_less_eq_eq numeral_2_eq_2 numeral_3_eq_3 obtain_subset_with_card_n)
  then obtain x y z where "x \<in> S" "y \<in> S" "z \<in> S" "x \<noteq> y" "y \<noteq> z" "x \<noteq> z"
    by (auto simp: card_3_iff)
  with assms(2,3) have "x + d \<le> y \<or> y + d \<le> x" "y + d \<le> z \<or> z + d \<le> y" "x + d \<le> z \<or> z + d \<le> x"
    "a < x + d" "x < a + d" "a < y + d" "y < a + d" "a < z + d" "z < a + d"
    by blast+
  then show False by linarith
qed

lemma count_list_filter: "count_list (filter P xs) x \<le> count_list xs x"
  by (induction xs) auto

lemma count_list_map_filter: "count_list (map f (filter P xs)) x \<le> count_list (map f xs) x"
  by (induction xs) auto

locale fixed_window =
  fixes start :: "'s \<Rightarrow> instant" and count :: "'s \<Rightarrow> nat"
    and admit :: "instant \<Rightarrow> 'x \<Rightarrow> 's \<Rightarrow> 's \<times> bool" and limit :: nat
  assumes admit_next: "one_second \<le> now - start s \<Longrightarrow>
      start (fst (admit now x s)) = now \<and> count (fst (admit now x s)) = of_bool (snd (admit now x s))"
    and admit_same: "now - start s < one_second \<Longrightarrow>
      start (fst (admit now x s)) = start s \<and>
      count (fst (admit now x s)) = count s + of_bool (snd (admit now x s))"
    and admit_limit: "snd (admit now x s) \<Longrightarrow> count (fst (admit now x s)) \<le> limit"
begin

text \<open>Each call that was admitted: its time and the start of its window.\<close>

fun admitted :: "(instant \<times> 'x) list \<Rightarrow> 's \<Rightarrow> (instant \<times> instant) list" where
  "admitted [] s = []"
| "admitted ((now, x) # calls) s =
     (let r = admit now x s; rest = admitted calls (fst r) in
      if snd r then (now, start (fst r)) # rest else rest)"

definition window_log :: "instant \<Rightarrow> (instant \<times> instant) list \<Rightarrow> 's \<Rightarrow> bool" where
  "window_log t log s \<longleftrightarrow>
     start s \<le> t \<and>
     (\<forall>(u, w) \<in> set log. w \<le> u \<and> u < w + one_second \<and> (w = start s \<or> w + one_second \<le> start s)) \<and>
     (\<forall>v \<in> snd ` set log. \<forall>w \<in> snd ` set log. v = w \<or> v + one_second \<le> w \<or> w + one_second \<le> v) \<and>
     (\<forall>w. count_list (map snd log) w \<le> limit) \<and>
     count_list (map snd log) (start s) \<le> count s"

lemma window_log_step:
  assumes log: "window_log t log s" and "t \<le> now"
  shows "window_log now
     (if snd (admit now x s) then log @ [(now, start (fst (admit now x s)))] else log)
     (fst (admit now x s))"
proof (cases "one_second \<le> now - start s")
  case True
  then have st: "start (fst (admit now x s)) = now"
    and c: "count (fst (admit now x s)) = of_bool (snd (admit now x s))"
    using admit_next by auto
  have old: "w + one_second \<le> now" if "(u, w) \<in> set log" for u w
    using that log True one_second_pos by (fastforce simp: window_log_def)
  then have fresh: "now \<notin> snd ` set log" using one_second_pos by fastforce
  then have "count_list (map snd log) now = 0" by (simp add: count_list_0_iff)
  then show ?thesis
    using log old admit_limit [of now x s] st c one_second_pos
    unfolding window_log_def by (auto simp: le_Suc_eq)
next
  case False
  then have st: "start (fst (admit now x s)) = start s"
    and c: "count (fst (admit now x s)) = count s + of_bool (snd (admit now x s))"
    using admit_same by auto
  have "start s \<le> t" using log by (simp add: window_log_def)
  then have "start s \<le> now" "now < start s + one_second" using assms(2) False one_second_pos by auto
  then show ?thesis
    using log admit_limit [of now x s] st c
    unfolding window_log_def by (auto simp: image_iff)
qed

fun in_order :: "instant \<Rightarrow> (instant \<times> 'x) list \<Rightarrow> bool" where
  "in_order t [] \<longleftrightarrow> True"
| "in_order t ((now, x) # calls) \<longleftrightarrow> t \<le> now \<and> in_order now calls"

lemma window_log_run:
  assumes "window_log t log s" and "in_order t calls"
  shows "\<exists>u s'. window_log u (log @ admitted calls s) s'"
  using assms
proof (induction calls arbitrary: t log s)
  case (Cons call calls)
  obtain now x where call: "call = (now, x)" by (cases call)
  let ?r = "admit now x s"
  let ?log = "if snd ?r then log @ [(now, start (fst ?r))] else log"
  have "window_log now ?log (fst ?r)"
    using window_log_step [OF Cons.prems(1)] Cons.prems(2) call by simp
  then obtain u s' where "window_log u (?log @ admitted calls (fst ?r)) s'"
    using Cons.IH Cons.prems(2) call by fastforce
  then have "window_log u (log @ admitted (call # calls) s) s'"
    by (cases "snd ?r") (simp_all add: call Let_def)
  then show ?case by blast
qed auto

text \<open>The contract: at most twice the limit in any second, wherever it starts.\<close>

lemma admitted_in_a_second:
  assumes "start s \<le> t" and "in_order t calls"
  shows "length (filter (\<lambda>(u, _). a \<le> u \<and> u < a + one_second) (admitted calls s)) \<le> 2 * limit"
proof -
  let ?F = "filter (\<lambda>(u, _). a \<le> u \<and> u < a + one_second) (admitted calls s)"
  let ?S = "snd ` set ?F"
  have "window_log t [] s" using assms(1) by (simp add: window_log_def)
  from window_log_run [OF this assms(2)]
  obtain u s' where log: "window_log u (admitted calls s) s'" by auto
  have sub: "?S \<subseteq> snd ` set (admitted calls s)" by auto
  have "\<forall>v \<in> snd ` set (admitted calls s). \<forall>w \<in> snd ` set (admitted calls s).
      v = w \<or> v + one_second \<le> w \<or> w + one_second \<le> v"
    using log unfolding window_log_def by blast
  with sub have "\<forall>v \<in> ?S. \<forall>w \<in> ?S. v = w \<or> v + one_second \<le> w \<or> w + one_second \<le> v"
    by blast
  moreover have "\<forall>w \<in> ?S. a < w + one_second \<and> w < a + one_second"
  proof
    fix w
    assume "w \<in> ?S"
    then obtain u where u: "(u, w) \<in> set (admitted calls s)" "a \<le> u" "u < a + one_second"
      by auto
    moreover have "\<forall>(u, w) \<in> set (admitted calls s). w \<le> u \<and> u < w + one_second"
      using log unfolding window_log_def by auto
    ultimately have "w \<le> u \<and> u < w + one_second" by auto
    with u(2,3) show "a < w + one_second \<and> w < a + one_second" by linarith
  qed
  ultimately have two: "card ?S \<le> 2"
    by (rule windows_in_a_second [OF finite_imageI [OF finite_set]])
  have whole: "count_list (map snd (admitted calls s)) w \<le> limit" for w
    using log by (simp add: window_log_def)
  have "count_list (map snd ?F) w \<le> limit" for w
    by (rule order_trans [OF count_list_map_filter whole])
  then have "(\<Sum>w \<in> ?S. count_list (map snd ?F) w) \<le> card ?S * limit"
    using sum_bounded_above [of ?S "count_list (map snd ?F)" limit] by simp
  moreover have "(\<Sum>w \<in> ?S. count_list (map snd ?F) w) = length (map snd ?F)"
    by (rule sum_count_set) simp_all
  ultimately have "length ?F \<le> card ?S * limit" by (simp only: length_map)
  then show ?thesis using mult_le_mono1 [OF two, of limit] by (rule order_trans)
qed

end

end
