(* ===== verification/Announce.thy ===== *)
theory Announce
  imports Identity Window_Limits
begin

text \<open>
  The announce of same-network discovery (\<open>discovery.rs\<close>): the fixed 144 byte frame with
  its signature, and the guard against replays. A house's set of friends is a parameter, as
  in the code; ed25519 is the parameter of \<open>Identity\<close>.
\<close>

section \<open>The frame\<close>

definition ANNOUNCE_DISCRIMINATOR :: u8 where "ANNOUNCE_DISCRIMINATOR = 0x2B"
definition ANNOUNCE_LEN :: nat where "ANNOUNCE_LEN = 144"
definition ANNOUNCE_TYPE :: u8 where "ANNOUNCE_TYPE = 0x01"
definition ANNOUNCE_SIGNING_CONTEXT :: bytes where
  "ANNOUNCE_SIGNING_CONTEXT = ascii ''mosschat-discovery-v1''"
definition ANNOUNCE_REPLAY_WINDOW_S :: nat where "ANNOUNCE_REPLAY_WINDOW_S = 60"
definition ANNOUNCE_SEEN_REMEMBERED :: nat where "ANNOUNCE_SEEN_REMEMBERED = 4096"

datatype announce_error =
    Malformed | OtherCommunity | NotAFriend | BadSignature | Ourselves | RateLimited
  | OutsideWindow | Replayed | SourceNotLocal

record announce =
  an_community :: bytes
  an_key :: bytes
  an_port :: u16
  an_sent_unix :: u32
  an_nonce :: bytes

definition announce_wf :: "announce \<Rightarrow> bool" where
  "announce_wf a \<longleftrightarrow>
     length (an_community a) = 32 \<and> length (an_key a) = 32 \<and> length (an_nonce a) = 4"

text \<open>Bytes 0 to 79, which the signature covers after its context.\<close>

definition announce_plain :: "announce \<Rightarrow> bytes" where
  "announce_plain a =
     ANNOUNCE_DISCRIMINATOR # ascii ''MSD'' @ [0x01, ANNOUNCE_TYPE] @ an_community a @ an_key a @
     to_be 2 (an_port a) @ to_be 4 (an_sent_unix a) @ an_nonce a"

definition announce_encode :: "signer \<Rightarrow> announce \<Rightarrow> bytes" where
  "announce_encode sign a =
     announce_plain a @ sign (ANNOUNCE_SIGNING_CONTEXT @ announce_plain a)"

definition parse_unverified ::
    "bytes \<Rightarrow> bytes \<Rightarrow> (bytes \<Rightarrow> bool) \<Rightarrow> announce_error + announce" where
  "parse_unverified bs community is_friend =
     (if length bs \<noteq> ANNOUNCE_LEN then Inl Malformed
      else if bs ! 0 \<noteq> ANNOUNCE_DISCRIMINATOR \<or> take 3 (drop 1 bs) \<noteq> ascii ''MSD'' \<or>
        bs ! 4 \<noteq> 0x01 \<or> bs ! 5 \<noteq> ANNOUNCE_TYPE then Inl Malformed
      else if take 32 (drop 6 bs) \<noteq> community then Inl OtherCommunity
      else if \<not> is_friend (take 32 (drop 38 bs)) then Inl NotAFriend
      else Inr \<lparr>an_community = take 32 (drop 6 bs), an_key = take 32 (drop 38 bs),
                an_port = from_be [bs ! 70, bs ! 71],
                an_sent_unix = from_be [bs ! 72, bs ! 73, bs ! 74, bs ! 75],
                an_nonce = take 4 (drop 76 bs)\<rparr>)"

definition verify_signature :: "crypto \<Rightarrow> announce \<Rightarrow> bytes \<Rightarrow> announce_error + unit" where
  "verify_signature K a bs =
     (if length bs \<noteq> ANNOUNCE_LEN then Inl Malformed
      else
        (case verify K (an_key a) (ANNOUNCE_SIGNING_CONTEXT @ take 80 bs) (take 64 (drop 80 bs)) of
           Inl _ \<Rightarrow> Inl BadSignature
         | Inr u \<Rightarrow> Inr u))"

definition announce_decode ::
    "crypto \<Rightarrow> bytes \<Rightarrow> bytes \<Rightarrow> (bytes \<Rightarrow> bool) \<Rightarrow> announce_error + announce" where
  "announce_decode K bs community is_friend =
     and_then (parse_unverified bs community is_friend) (\<lambda>a.
     and_then (verify_signature K a bs) (\<lambda>_. Inr a))"

lemma ascii_MSD [simp]: "ascii ''MSD'' = [0x4D, 0x53, 0x44]"
  by (simp add: ascii_def)

lemma length_announce_plain: "announce_wf a \<Longrightarrow> length (announce_plain a) = 80"
  by (simp add: announce_plain_def announce_wf_def)

lemma length_two: "length xs = 2 \<Longrightarrow> \<exists>a b. xs = [a, b]"
  by (auto simp: length_Suc_conv numeral_2_eq_2)

lemma length_four: "length xs = 4 \<Longrightarrow> \<exists>a b c d. xs = [a, b, c, d]"
  by (auto simp: length_Suc_conv eval_nat_numeral)

text \<open>Cutting a frame of 144 bytes at the offsets the decoder uses.\<close>

lemma announce_plain_slices:
  assumes "announce_wf a"
  shows "(announce_plain a @ r) ! 0 = ANNOUNCE_DISCRIMINATOR"
    and "take 3 (drop 1 (announce_plain a @ r)) = ascii ''MSD''"
    and "(announce_plain a @ r) ! 4 = 0x01"
    and "(announce_plain a @ r) ! 5 = ANNOUNCE_TYPE"
    and "take 32 (drop 6 (announce_plain a @ r)) = an_community a"
    and "take 32 (drop 38 (announce_plain a @ r)) = an_key a"
    and "[(announce_plain a @ r) ! 70, (announce_plain a @ r) ! 71] = to_be 2 (an_port a)"
    and "[(announce_plain a @ r) ! 72, (announce_plain a @ r) ! 73,
          (announce_plain a @ r) ! 74, (announce_plain a @ r) ! 75] = to_be 4 (an_sent_unix a)"
    and "take 4 (drop 76 (announce_plain a @ r)) = an_nonce a"
    and "take 80 (announce_plain a @ r) = announce_plain a"
    and "drop 80 (announce_plain a @ r) = r"
proof -
  obtain p0 p1 where p: "to_be 2 (an_port a) = [p0, p1]"
    using length_two [OF length_to_be] by metis
  obtain s0 s1 s2 s3 where s: "to_be 4 (an_sent_unix a) = [s0, s1, s2, s3]"
    using length_four [OF length_to_be] by metis
  show "(announce_plain a @ r) ! 0 = ANNOUNCE_DISCRIMINATOR"
    "take 3 (drop 1 (announce_plain a @ r)) = ascii ''MSD''"
    "(announce_plain a @ r) ! 4 = 0x01" "(announce_plain a @ r) ! 5 = ANNOUNCE_TYPE"
    "take 32 (drop 6 (announce_plain a @ r)) = an_community a"
    "take 32 (drop 38 (announce_plain a @ r)) = an_key a"
    "[(announce_plain a @ r) ! 70, (announce_plain a @ r) ! 71] = to_be 2 (an_port a)"
    "[(announce_plain a @ r) ! 72, (announce_plain a @ r) ! 73,
      (announce_plain a @ r) ! 74, (announce_plain a @ r) ! 75] = to_be 4 (an_sent_unix a)"
    "take 4 (drop 76 (announce_plain a @ r)) = an_nonce a"
    "take 80 (announce_plain a @ r) = announce_plain a" "drop 80 (announce_plain a @ r) = r"
    using assms unfolding announce_plain_def p s
    by (simp_all add: announce_wf_def nth_append)
qed

lemma announce_cut:
  assumes "length bs = 144"
  shows "bs = bs ! 0 # take 3 (drop 1 bs) @ [bs ! 4, bs ! 5] @ take 32 (drop 6 bs) @
    take 32 (drop 38 bs) @ [bs ! 70, bs ! 71] @ [bs ! 72, bs ! 73, bs ! 74, bs ! 75] @
    take 4 (drop 76 bs) @ take 64 (drop 80 bs)"
proof -
  have cut: "drop i bs = take k (drop i bs) @ drop (i + k) bs" for i k
    by (metis add.commute append_take_drop_id drop_drop)
  have "bs = bs ! 0 # drop 1 bs"
    using assms Cons_nth_drop_Suc [of 0 bs] by simp
  moreover have "drop 4 bs = [bs ! 4, bs ! 5] @ drop 6 bs"
    using assms Cons_nth_drop_Suc [of 4 bs] Cons_nth_drop_Suc [of 5 bs] by simp
  moreover have "drop 70 bs = [bs ! 70, bs ! 71] @ drop 72 bs"
    using assms Cons_nth_drop_Suc [of 70 bs] Cons_nth_drop_Suc [of 71 bs] by simp
  moreover have "drop 72 bs = [bs ! 72, bs ! 73, bs ! 74, bs ! 75] @ drop 76 bs"
    using assms Cons_nth_drop_Suc [of 72 bs] Cons_nth_drop_Suc [of 73 bs]
      Cons_nth_drop_Suc [of 74 bs] Cons_nth_drop_Suc [of 75 bs] by simp
  moreover have "drop 80 bs = take 64 (drop 80 bs)"
    using assms by simp
  ultimately show ?thesis
    using cut [of 1 3] cut [of 6 32] cut [of 38 32] cut [of 76 4] by simp
qed

text \<open>What the decoder accepts, exactly.\<close>

lemma parse_unverified_iff:
  "parse_unverified bs community is_friend = Inr a \<longleftrightarrow>
     announce_wf a \<and> an_community a = community \<and> is_friend (an_key a) \<and>
     (\<exists>sig. length sig = 64 \<and> bs = announce_plain a @ sig)"
  (is "?L \<longleftrightarrow> ?R")
proof
  assume ?L
  then have len: "length bs = 144" and head: "bs ! 0 = ANNOUNCE_DISCRIMINATOR"
    "take 3 (drop 1 bs) = ascii ''MSD''" "bs ! 4 = 0x01" "bs ! 5 = ANNOUNCE_TYPE"
    and friend: "take 32 (drop 6 bs) = community" "is_friend (take 32 (drop 38 bs))"
    and a: "a = \<lparr>an_community = take 32 (drop 6 bs), an_key = take 32 (drop 38 bs),
      an_port = from_be [bs ! 70, bs ! 71],
      an_sent_unix = from_be [bs ! 72, bs ! 73, bs ! 74, bs ! 75], an_nonce = take 4 (drop 76 bs)\<rparr>"
    unfolding parse_unverified_def by (simp_all add: ANNOUNCE_LEN_def split: if_split_asm)
  have "announce_wf a" using len by (simp add: announce_wf_def a)
  moreover have "to_be 4 (an_sent_unix a) = [bs ! 72, bs ! 73, bs ! 74, bs ! 75]"
    by (simp add: a to_be_from_be)
  moreover have "to_be 2 (an_port a) = [bs ! 70, bs ! 71]" by (simp add: a to_be_from_be)
  ultimately have "bs = announce_plain a @ take 64 (drop 80 bs)"
    using announce_cut [OF len] unfolding announce_plain_def head by (simp add: a)
  moreover have "length (take 64 (drop 80 bs)) = 64" using len by simp
  ultimately have "\<exists>sig. length sig = 64 \<and> bs = announce_plain a @ sig" by blast
  moreover have "an_community a = community" "is_friend (an_key a)" using friend by (simp_all add: a)
  ultimately show ?R using \<open>announce_wf a\<close> by blast
next
  assume ?R
  then obtain sig where sig: "length sig = 64" "bs = announce_plain a @ sig" and wf: "announce_wf a"
    and rest: "an_community a = community" "is_friend (an_key a)"
    by blast
  have "length bs = ANNOUNCE_LEN" using sig length_announce_plain [OF wf] by (simp add: ANNOUNCE_LEN_def)
  moreover have "from_be (to_be 2 (an_port a)) = an_port a" "from_be (to_be 4 (an_sent_unix a)) = an_sent_unix a"
    by simp_all
  ultimately show ?L
    unfolding parse_unverified_def sig(2) announce_plain_slices [OF wf] using rest by simp
qed

lemma announce_decode_iff:
  "announce_decode K bs community is_friend = Inr a \<longleftrightarrow>
     announce_wf a \<and> an_community a = community \<and> is_friend (an_key a) \<and>
     (\<exists>sig. length sig = 64 \<and> bs = announce_plain a @ sig \<and>
        verify K (an_key a) (ANNOUNCE_SIGNING_CONTEXT @ announce_plain a) sig = Inr ())"
proof -
  have v: "verify_signature K a (announce_plain a @ sig) = Inr () \<longleftrightarrow>
      verify K (an_key a) (ANNOUNCE_SIGNING_CONTEXT @ announce_plain a) sig = Inr ()"
    if "announce_wf a" "length sig = 64" for sig
    using that length_announce_plain [OF that(1)]
    by (simp add: verify_signature_def ANNOUNCE_LEN_def split: sum.split)
  have "announce_decode K bs community is_friend = Inr a \<longleftrightarrow>
      parse_unverified bs community is_friend = Inr a \<and> verify_signature K a bs = Inr ()"
    by (auto simp: announce_decode_def and_then_eq_Inr)
  then show ?thesis
    unfolding parse_unverified_iff using v by blast
qed

section \<open>The guard against replays\<close>

type_synonym announce_triple = "bytes \<times> u32 \<times> bytes"

record replay_guard =
  rg_seen :: "announce_triple set"
  rg_order :: "announce_triple list"

definition replay_guard_new :: replay_guard where
  "replay_guard_new = \<lparr>rg_seen = {}, rg_order = []\<rparr>"

definition announce_triple :: "announce \<Rightarrow> announce_triple" where
  "announce_triple a = (an_key a, an_sent_unix a, an_nonce a)"

definition guard_remember ::
    "announce_triple \<Rightarrow> announce_triple set \<times> announce_triple list \<Rightarrow>
     (announce_triple set \<times> announce_triple list) \<times> bool" where
  "guard_remember = remember_once ANNOUNCE_SEEN_REMEMBERED"

definition replay_admit :: "announce \<Rightarrow> u64 \<Rightarrow> replay_guard \<Rightarrow> replay_guard \<times> (announce_error + unit)" where
  "replay_admit a now_unix g =
     (if abs_diff (unat now_unix) (unat (an_sent_unix a)) > ANNOUNCE_REPLAY_WINDOW_S
      then (g, Inl OutsideWindow)
      else
        (case guard_remember (announce_triple a) (rg_seen g, rg_order g) of
           (_, False) \<Rightarrow> (g, Inl Replayed)
         | ((seen, order), True) \<Rightarrow> (\<lparr>rg_seen = seen, rg_order = order\<rparr>, Inr ())))"

interpretation guard_memory:
  bounded_memory snd guard_remember "memory_wf ANNOUNCE_SEEN_REMEMBERED" ANNOUNCE_SEEN_REMEMBERED
  unfolding guard_remember_def by (rule bounded_memory_once)

end
