(* ===== verification/Discovery.thy ===== *)
theory Discovery
  imports Announce Address_Cache
begin

text \<open>
  Same-network discovery (\<open>discovery.rs\<close>): the send schedule, the receive limits, the
  counters, and the handling of one received datagram up to the address it leaves in the
  cache. The multicast socket moves bytes and is not modelled; the switch that admits a
  loopback source exists in tests only and is a field of the state, as in the code.
\<close>

section \<open>The schedule and the limits\<close>

definition ANNOUNCE_INTERVAL :: duration where "ANNOUNCE_INTERVAL = from_secs 30"
definition ANNOUNCE_PER_KEY_GAP :: duration where "ANNOUNCE_PER_KEY_GAP = from_secs 10"
definition ANNOUNCE_PACKETS_PER_SECOND :: u32 where "ANNOUNCE_PACKETS_PER_SECOND = 50"
definition DEDUPE_KEYS_REMEMBERED :: nat where "DEDUPE_KEYS_REMEMBERED = 512"

text \<open>The announcer is the time of its next announce.\<close>

definition announcer_due :: "instant \<Rightarrow> instant \<Rightarrow> instant \<times> bool" where
  "announcer_due now next_at =
     (if now < next_at then (next_at, False) else (now + ANNOUNCE_INTERVAL, True))"

record receive_limiter =
  rl_window_start :: instant
  rl_in_window :: u32
  rl_last_from :: "(bytes, instant) hashmap"
  rl_order :: "bytes list"

definition receive_limiter_new :: "instant \<Rightarrow> receive_limiter" where
  "receive_limiter_new now =
     \<lparr>rl_window_start = now, rl_in_window = 0, rl_last_from = [], rl_order = []\<rparr>"

definition admit_packet :: "instant \<Rightarrow> receive_limiter \<Rightarrow> receive_limiter \<times> bool" where
  "admit_packet now l =
     (let l = (if from_secs 1 \<le> duration_since now (rl_window_start l)
               then l\<lparr>rl_window_start := now, rl_in_window := 0\<rparr> else l) in
      if ANNOUNCE_PACKETS_PER_SECOND \<le> rl_in_window l then (l, False)
      else (l\<lparr>rl_in_window := sat_inc32 (rl_in_window l)\<rparr>, True))"

fun evict_keys ::
    "(bytes, instant) hashmap \<Rightarrow> bytes list \<Rightarrow> (bytes, instant) hashmap \<times> bytes list" where
  "evict_keys last_from [] = (last_from, [])"
| "evict_keys last_from (k # order) =
     (if length (k # order) > DEDUPE_KEYS_REMEMBERED then evict_keys (hm_remove k last_from) order
      else (last_from, k # order))"

definition admit_key :: "bytes \<Rightarrow> instant \<Rightarrow> receive_limiter \<Rightarrow> receive_limiter \<times> bool" where
  "admit_key key now l =
     (let quiet = (case hm_get (rl_last_from l) key of
                     None \<Rightarrow> True
                   | Some t \<Rightarrow> \<not> duration_since now t < ANNOUNCE_PER_KEY_GAP) in
      if \<not> quiet then (l, False)
      else
        (let last_from = hm_insert key now (rl_last_from l) in
         if hm_get (rl_last_from l) key = None then
           (case evict_keys last_from (rl_order l @ [key]) of
              (last_from, order) \<Rightarrow> (l\<lparr>rl_last_from := last_from, rl_order := order\<rparr>, True))
         else (l\<lparr>rl_last_from := last_from\<rparr>, True)))"

section \<open>One datagram\<close>

record discovery_counters =
  dc_accepted :: u64
  dc_malformed :: u64
  dc_other_community :: u64
  dc_not_a_friend :: u64
  dc_bad_signature :: u64
  dc_rate_limited :: u64
  dc_ourselves :: u64
  dc_outside_window :: u64
  dc_replayed :: u64
  dc_source_not_local :: u64

definition counters_zero :: discovery_counters where
  "counters_zero =
     \<lparr>dc_accepted = 0, dc_malformed = 0, dc_other_community = 0, dc_not_a_friend = 0,
      dc_bad_signature = 0, dc_rate_limited = 0, dc_ourselves = 0, dc_outside_window = 0,
      dc_replayed = 0, dc_source_not_local = 0\<rparr>"

datatype reply = NoReply | Unicast socket_addr

record discovered =
  dd_key :: bytes
  dd_addr :: socket_addr

datatype heard = Discovered discovered reply | Dropped announce_error

record discovery =
  ds_community :: bytes
  ds_own_key :: bytes
  ds_quic_port :: u16
  ds_announcer :: instant
  ds_limiter :: receive_limiter
  ds_replay :: replay_guard
  ds_cache :: address_cache
  ds_counters :: discovery_counters
  ds_allow_loopback_source :: bool

definition discovery_new :: "bytes \<Rightarrow> bytes \<Rightarrow> u16 \<Rightarrow> instant \<Rightarrow> discovery" where
  "discovery_new community own_key quic_port now =
     \<lparr>ds_community = community, ds_own_key = own_key, ds_quic_port = quic_port,
      ds_announcer = now, ds_limiter = receive_limiter_new now, ds_replay = replay_guard_new,
      ds_cache = [], ds_counters = counters_zero, ds_allow_loopback_source = False\<rparr>"

definition due_announce :: "instant \<Rightarrow> discovery \<Rightarrow> discovery \<times> bool" where
  "due_announce now d =
     (case announcer_due now (ds_announcer d) of (n, due) \<Rightarrow> (d\<lparr>ds_announcer := n\<rparr>, due))"

definition own_announce :: "signer \<Rightarrow> u32 \<Rightarrow> bytes \<Rightarrow> discovery \<Rightarrow> bytes" where
  "own_announce sign sent_unix nonce d =
     announce_encode sign
       \<lparr>an_community = ds_community d, an_key = ds_own_key d, an_port = ds_quic_port d,
        an_sent_unix = sent_unix, an_nonce = nonce\<rparr>"

fun count_drop :: "announce_error \<Rightarrow> discovery_counters \<Rightarrow> discovery_counters" where
  "count_drop Malformed c = c\<lparr>dc_malformed := sat_inc64 (dc_malformed c)\<rparr>"
| "count_drop OtherCommunity c = c\<lparr>dc_other_community := sat_inc64 (dc_other_community c)\<rparr>"
| "count_drop NotAFriend c = c\<lparr>dc_not_a_friend := sat_inc64 (dc_not_a_friend c)\<rparr>"
| "count_drop BadSignature c = c\<lparr>dc_bad_signature := sat_inc64 (dc_bad_signature c)\<rparr>"
| "count_drop Ourselves c = c\<lparr>dc_ourselves := sat_inc64 (dc_ourselves c)\<rparr>"
| "count_drop RateLimited c = c\<lparr>dc_rate_limited := sat_inc64 (dc_rate_limited c)\<rparr>"
| "count_drop OutsideWindow c = c\<lparr>dc_outside_window := sat_inc64 (dc_outside_window c)\<rparr>"
| "count_drop Replayed c = c\<lparr>dc_replayed := sat_inc64 (dc_replayed c)\<rparr>"
| "count_drop SourceNotLocal c = c\<lparr>dc_source_not_local := sat_inc64 (dc_source_not_local c)\<rparr>"

definition drop_with :: "announce_error \<Rightarrow> discovery \<Rightarrow> discovery \<times> heard" where
  "drop_with error d = (d\<lparr>ds_counters := count_drop error (ds_counters d)\<rparr>, Dropped error)"

text \<open>\<open>SocketAddr::new(from.ip(), port)\<close>: a new V6 address has no flow label and no scope.\<close>

fun with_port :: "socket_addr \<Rightarrow> u16 \<Rightarrow> socket_addr" where
  "with_port (V4 ip _) port = V4 ip port"
| "with_port (V6 ip _ _ _) port = V6 ip port 0 0"

definition source_is_local :: "discovery \<Rightarrow> socket_addr \<Rightarrow> bool" where
  "source_is_local d addr =
     (if ip_is_loopback addr then ds_allow_loopback_source d
      else
        (case addr of
           V4 v4 _ \<Rightarrow> v4_is_private v4 \<or> v4_is_link_local v4
         | V6 v6 _ _ _ \<Rightarrow> is_link_local_v6 v6 \<or> is_unique_local_v6 v6))"

text \<open>The tail of the handler: what happens once the signature has verified.\<close>

definition on_verified ::
    "announce \<Rightarrow> socket_addr \<Rightarrow> instant \<Rightarrow> u64 \<Rightarrow> discovery \<Rightarrow> discovery \<times> heard" where
  "on_verified announce from now now_unix d =
     (case admit_key (an_key announce) now (ds_limiter d) of (limiter, quiet) \<Rightarrow>
      let d = d\<lparr>ds_limiter := limiter\<rparr> in
      if \<not> quiet then drop_with RateLimited d
      else case replay_admit announce now_unix (ds_replay d) of (guard, fresh) \<Rightarrow>
      let d = d\<lparr>ds_replay := guard\<rparr> in
      case fresh of
        Inl error \<Rightarrow> drop_with error d
      | Inr _ \<Rightarrow>
      let addr = unmap_v4 (with_port from (an_port announce)) in
      if \<not> source_is_local d addr then drop_with SourceNotLocal d
      else
        let held_before = cache_addresses (ds_cache d) (an_key announce) \<noteq> [];
            d = d\<lparr>ds_cache := remember (an_key announce) addr candidate_source.Discovery now (ds_cache d),
                  ds_counters := (ds_counters d)\<lparr>dc_accepted := sat_inc64 (dc_accepted (ds_counters d))\<rparr>\<rparr>
        in (d, Discovered \<lparr>dd_key = an_key announce, dd_addr = addr\<rparr>
                 (if held_before then NoReply else Unicast from)))"

definition on_datagram ::
    "crypto \<Rightarrow> bytes \<Rightarrow> socket_addr \<Rightarrow> instant \<Rightarrow> u64 \<Rightarrow> (bytes \<Rightarrow> bool) \<Rightarrow> discovery \<Rightarrow>
     discovery \<times> heard" where
  "on_datagram K bs from now now_unix is_friend d =
     (case admit_packet now (ds_limiter d) of (limiter, admitted) \<Rightarrow>
      let d = d\<lparr>ds_limiter := limiter\<rparr> in
      if \<not> admitted then drop_with RateLimited d
      else case parse_unverified bs (ds_community d) (\<lambda>key. key = ds_own_key d \<or> is_friend key) of
        Inl error \<Rightarrow> drop_with error d
      | Inr announce \<Rightarrow>
      if an_key announce = ds_own_key d then drop_with Ourselves d
      else case verify_signature K announce bs of
        Inl error \<Rightarrow> drop_with error d
      | Inr _ \<Rightarrow> on_verified announce from now now_unix d)"

definition discovered_for :: "discovery \<Rightarrow> bytes \<Rightarrow> socket_addr list" where
  "discovered_for d peer = cache_discovered (ds_cache d) peer"

definition discovery_expire :: "instant \<Rightarrow> discovery \<Rightarrow> discovery \<times> nat" where
  "discovery_expire now d =
     (case expire now (ds_cache d) of (c, n) \<Rightarrow> (d\<lparr>ds_cache := c\<rparr>, n))"

section \<open>The limits keep their contracts\<close>

lemma admit_packet_window:
  fixes now l
  defines "m \<equiv> (if from_secs 1 \<le> duration_since now (rl_window_start l)
               then l\<lparr>rl_window_start := now, rl_in_window := 0\<rparr> else l)"
  shows "rl_window_start (fst (admit_packet now l)) = rl_window_start m"
    and "unat (rl_in_window (fst (admit_packet now l))) =
      unat (rl_in_window m) + of_bool (snd (admit_packet now l))"
    and "snd (admit_packet now l) \<Longrightarrow> unat (rl_in_window m) < 50"
  unfolding admit_packet_def m_def [symmetric] Let_def
  by (auto simp: ANNOUNCE_PACKETS_PER_SECOND_def unat_sat_inc32_below [where k = 50] not_le word_less_nat_alt
      split: if_split_asm)

interpretation packet_window:
  fixed_window rl_window_start "\<lambda>l. unat (rl_in_window l)" "\<lambda>now (_ :: unit) l. admit_packet now l" 50
proof unfold_locales
  fix now :: instant and x :: unit and s
  note w = admit_packet_window [where now = now and l = s]
  show "rl_window_start (fst (admit_packet now s)) = now \<and>
      unat (rl_in_window (fst (admit_packet now s))) = of_bool (snd (admit_packet now s))"
    if "one_second \<le> now - rl_window_start s"
    using w(1,2) that by (simp add: one_second_def duration_since_def)
  show "rl_window_start (fst (admit_packet now s)) = rl_window_start s \<and>
      unat (rl_in_window (fst (admit_packet now s))) =
        unat (rl_in_window s) + of_bool (snd (admit_packet now s))"
    if "now - rl_window_start s < one_second"
    using w(1,2) that by (simp add: one_second_def duration_since_def)
  show "unat (rl_in_window (fst (admit_packet now s))) \<le> 50"
    if "snd (admit_packet now s)"
    using w(2) w(3) [OF that] that by simp
qed

text \<open>The keys heard from: the queue holds each key of the map once, and at most 512.\<close>

definition keys_wf :: "receive_limiter \<Rightarrow> bool" where
  "keys_wf l \<longleftrightarrow>
     hm_wf (rl_last_from l) \<and> distinct (rl_order l) \<and>
     set (rl_order l) = fst ` set (rl_last_from l) \<and> length (rl_order l) \<le> DEDUPE_KEYS_REMEMBERED"

lemma evict_keys_spec:
  "evict_keys m order =
     (fold hm_remove (take (length order - DEDUPE_KEYS_REMEMBERED) order) m,
      drop (length order - DEDUPE_KEYS_REMEMBERED) order)"
proof (induction m order rule: evict_keys.induct)
  case (2 m k order)
  then show ?case
    by (cases "length (k # order) > DEDUPE_KEYS_REMEMBERED") (auto simp: Suc_diff_le not_less)
qed simp

lemma admit_packet_frame [simp]:
  "rl_last_from (fst (admit_packet now l)) = rl_last_from l"
  "rl_order (fst (admit_packet now l)) = rl_order l"
  by (simp_all add: admit_packet_def Let_def)

section \<open>What one datagram can do\<close>

lemma replay_admit_Inr:
  "replay_admit a t g = (g', Inr u) \<Longrightarrow>
   abs_diff (unat t) (unat (an_sent_unix a)) \<le> 60 \<and> announce_triple a \<notin> rg_seen g"
  by (auto simp: replay_admit_def guard_remember_def remember_once_def ANNOUNCE_REPLAY_WINDOW_S_def
      split: if_split_asm prod.split_asm bool.split_asm)

lemma replay_admit_Inl: "replay_admit a t g = (g', Inl e) \<Longrightarrow> g' = g \<and> e \<in> {OutsideWindow, Replayed}"
  by (auto simp: replay_admit_def split: if_split_asm prod.split_asm bool.split_asm)

lemma parse_unverified_Inl:
  "parse_unverified bs c f = Inl e \<Longrightarrow> e \<in> {Malformed, OtherCommunity, NotAFriend}"
  by (auto simp: parse_unverified_def split: if_split_asm)

lemma verify_signature_Inl: "verify_signature K a bs = Inl e \<Longrightarrow> e \<in> {Malformed, BadSignature}"
  by (auto simp: verify_signature_def split: if_split_asm sum.split_asm)

lemma with_port_no_scope:
  "case unmap_v4 (with_port a p) of V4 _ _ \<Rightarrow> True | V6 _ _ flow scope \<Rightarrow> flow = 0 \<and> scope = 0"
  by (cases a) (simp_all add: unmap_v4_def split: option.split)

lemma local_not_routable:
  "source_is_local d a \<Longrightarrow> \<not> ds_allow_loopback_source d \<Longrightarrow>
   \<not> ip_is_loopback a \<and> \<not> is_globally_routable a"
  by (auto simp: source_is_local_def is_globally_routable_def split: socket_addr.splits if_split_asm)

text \<open>An address that is discovered, and what the call leaves behind.\<close>

lemma on_verified_discovered:
  assumes "on_verified a from now now_unix d = (d', Discovered x r)"
  shows "abs_diff (unat now_unix) (unat (an_sent_unix a)) \<le> 60"
    and "announce_triple a \<notin> rg_seen (ds_replay d)"
    and "x = \<lparr>dd_key = an_key a, dd_addr = unmap_v4 (with_port from (an_port a))\<rparr>"
    and "source_is_local d (dd_addr x)"
    and "r = (if cache_addresses (ds_cache d) (an_key a) = [] then Unicast from else NoReply)"
    and "ds_cache d' = remember (an_key a) (dd_addr x) candidate_source.Discovery now (ds_cache d)"
    and "ds_counters d' = (ds_counters d)\<lparr>dc_accepted := sat_inc64 (dc_accepted (ds_counters d))\<rparr>"
proof -
  obtain limiter quiet where k: "admit_key (an_key a) now (ds_limiter d) = (limiter, quiet)"
    by (cases "admit_key (an_key a) now (ds_limiter d)")
  obtain guard fresh where g: "replay_admit a now_unix (ds_replay d) = (guard, fresh)"
    by (cases "replay_admit a now_unix (ds_replay d)")
  have q: "quiet" using assms by (cases quiet) (simp_all add: on_verified_def k drop_with_def)
  obtain u where f: "fresh = Inr u"
    using assms q by (cases fresh) (simp_all add: on_verified_def k g drop_with_def)
  let ?addr = "unmap_v4 (with_port from (an_port a))"
  have l: "source_is_local d ?addr"
    using assms q f by (auto simp: on_verified_def k g drop_with_def Let_def source_is_local_def
        split: if_split_asm)
  have "source_is_local (d\<lparr>ds_limiter := limiter, ds_replay := guard\<rparr>) ?addr"
    using l by (simp add: source_is_local_def)
  then have eq: "d' = d\<lparr>ds_limiter := limiter, ds_replay := guard,
        ds_cache := remember (an_key a) ?addr candidate_source.Discovery now (ds_cache d),
        ds_counters := (ds_counters d)\<lparr>dc_accepted := sat_inc64 (dc_accepted (ds_counters d))\<rparr>\<rparr>"
    and x: "x = \<lparr>dd_key = an_key a, dd_addr = ?addr\<rparr>"
    and r: "r = (if cache_addresses (ds_cache d) (an_key a) = [] then Unicast from else NoReply)"
    using assms q f by (auto simp: on_verified_def k g Let_def)
  show "abs_diff (unat now_unix) (unat (an_sent_unix a)) \<le> 60"
    "announce_triple a \<notin> rg_seen (ds_replay d)"
    using replay_admit_Inr g f by blast+
  show "x = \<lparr>dd_key = an_key a, dd_addr = ?addr\<rparr>" by (rule x)
  show "source_is_local d (dd_addr x)" using l x by simp
  show "r = (if cache_addresses (ds_cache d) (an_key a) = [] then Unicast from else NoReply)" by (rule r)
  show "ds_cache d' = remember (an_key a) (dd_addr x) candidate_source.Discovery now (ds_cache d)"
    "ds_counters d' = (ds_counters d)\<lparr>dc_accepted := sat_inc64 (dc_accepted (ds_counters d))\<rparr>"
    by (simp_all add: eq x)
qed

text \<open>A datagram that is dropped after its signature verified.\<close>

lemma on_verified_dropped:
  assumes "on_verified a from now now_unix d = (d', Dropped e)"
  shows "ds_cache d' = ds_cache d" and "ds_counters d' = count_drop e (ds_counters d)"
    and "e \<in> {RateLimited, OutsideWindow, Replayed, SourceNotLocal}"
proof -
  obtain limiter quiet where k: "admit_key (an_key a) now (ds_limiter d) = (limiter, quiet)"
    by (cases "admit_key (an_key a) now (ds_limiter d)")
  obtain guard fresh where g: "replay_admit a now_unix (ds_replay d) = (guard, fresh)"
    by (cases "replay_admit a now_unix (ds_replay d)")
  have "ds_cache d' = ds_cache d \<and> ds_counters d' = count_drop e (ds_counters d) \<and>
      e \<in> {RateLimited, OutsideWindow, Replayed, SourceNotLocal}"
  proof (cases quiet)
    case False
    then show ?thesis using assms by (auto simp: on_verified_def k drop_with_def)
  next
    case True
    show ?thesis
    proof (cases fresh)
      case (Inl err)
      then have "err \<in> {OutsideWindow, Replayed}" using replay_admit_Inl g by blast
      then show ?thesis using assms True Inl by (auto simp: on_verified_def k g drop_with_def)
    next
      case (Inr u)
      then show ?thesis
        using assms True by (auto simp: on_verified_def k g drop_with_def Let_def split: if_split_asm)
    qed
  qed
  then show "ds_cache d' = ds_cache d" "ds_counters d' = count_drop e (ds_counters d)"
    "e \<in> {RateLimited, OutsideWindow, Replayed, SourceNotLocal}"
    by blast+
qed

text \<open>The whole handler, from the packet ceiling on.\<close>

lemma on_datagram_cases:
  assumes "on_datagram K bs from now now_unix is_friend d = (d', h)"
  obtains (dropped) e limiter where "h = Dropped e" and "admit_packet now (ds_limiter d) = (limiter, e \<noteq> RateLimited)"
      and "d' = d\<lparr>ds_limiter := limiter, ds_counters := count_drop e (ds_counters d)\<rparr>"
      and "e \<in> {RateLimited, Malformed, OtherCommunity, NotAFriend, Ourselves, BadSignature}"
  | (verified) a limiter where "admit_packet now (ds_limiter d) = (limiter, True)"
      and "parse_unverified bs (ds_community d) (\<lambda>key. key = ds_own_key d \<or> is_friend key) = Inr a"
      and "an_key a \<noteq> ds_own_key d" and "verify_signature K a bs = Inr ()"
      and "on_verified a from now now_unix (d\<lparr>ds_limiter := limiter\<rparr>) = (d', h)"
proof -
  obtain limiter admitted where l: "admit_packet now (ds_limiter d) = (limiter, admitted)"
    by (cases "admit_packet now (ds_limiter d)")
  let ?parse = "parse_unverified bs (ds_community d) (\<lambda>key. key = ds_own_key d \<or> is_friend key)"
  show thesis
  proof (cases admitted)
    case False
    then show thesis
      using assms l by (intro dropped [of RateLimited limiter]) (auto simp: on_datagram_def drop_with_def)
  next
    case True
    show thesis
    proof (cases ?parse)
      case (Inl e)
      then have "e \<in> {Malformed, OtherCommunity, NotAFriend}" by (rule parse_unverified_Inl)
      then show thesis
        using assms l True Inl
        by (intro dropped [of e limiter]) (auto simp: on_datagram_def drop_with_def)
    next
      case (Inr a)
      show thesis
      proof (cases "an_key a = ds_own_key d")
        case True
        then show thesis
          using assms l \<open>admitted\<close> Inr
          by (intro dropped [of Ourselves limiter]) (auto simp: on_datagram_def drop_with_def)
      next
        case other: False
        show thesis
        proof (cases "verify_signature K a bs")
          case (Inl e)
          then have "e \<in> {Malformed, BadSignature}" by (rule verify_signature_Inl)
          then show thesis
            using assms l \<open>admitted\<close> Inr other Inl
            by (intro dropped [of e limiter]) (auto simp: on_datagram_def drop_with_def)
        next
          case ok: (Inr u)
          then show thesis
            using assms l \<open>admitted\<close> Inr other
            by (intro verified [of limiter a]) (simp_all add: on_datagram_def)
        qed
      qed
    qed
  qed
qed

section \<open>Runs\<close>

text \<open>The times at which a datagram was let through, and the announces a guard admitted.\<close>

fun packets_admitted :: "instant list \<Rightarrow> receive_limiter \<Rightarrow> instant list" where
  "packets_admitted [] l = []"
| "packets_admitted (now # ts) l =
     (case admit_packet now l of
        (l, ok) \<Rightarrow> if ok then now # packets_admitted ts l else packets_admitted ts l)"

lemma packets_admitted_times:
  "packets_admitted ts l = map fst (packet_window.admitted (map (\<lambda>t. (t, ())) ts) l)"
proof (induction ts arbitrary: l)
  case (Cons now ts)
  show ?case using Cons.IH [of "fst (admit_packet now l)"] by (simp add: Let_def split_beta)
qed simp

fun announces_admitted ::
    "(announce \<times> u64) list \<Rightarrow> replay_guard \<Rightarrow> announce_triple list \<times> replay_guard" where
  "announces_admitted [] g = ([], g)"
| "announces_admitted ((a, now_unix) # xs) g =
     (case replay_admit a now_unix g of (g, r) \<Rightarrow>
      case announces_admitted xs g of (log, g) \<Rightarrow>
        (if r = Inr () then announce_triple a # log else log, g))"

definition guard_ok :: "announce_triple list \<Rightarrow> replay_guard \<Rightarrow> bool" where
  "guard_ok log g \<longleftrightarrow>
     memory_wf ANNOUNCE_SEEN_REMEMBERED (rg_seen g, rg_order g) \<and>
     guard_memory.remembers log (rg_seen g, rg_order g) \<and> guard_memory.spaced log"

lemma guard_ok_new: "guard_ok [] replay_guard_new"
  by (simp add: guard_ok_def replay_guard_new_def memory_wf_empty guard_memory.remembers_def
      guard_memory.spaced_def)

lemma replay_admit_step:
  assumes "guard_ok log g"
  shows "(snd (replay_admit a t g) = Inr () \<longleftrightarrow>
       abs_diff (unat t) (unat (an_sent_unix a)) \<le> 60 \<and>
       announce_triple a \<notin> set (drop (length log - 4096) log)) \<and>
     guard_ok (if snd (replay_admit a t g) = Inr () then log @ [announce_triple a] else log)
       (fst (replay_admit a t g))"
proof -
  let ?m = "(rg_seen g, rg_order g)"
  obtain seen order ok where m: "guard_remember (announce_triple a) ?m = ((seen, order), ok)"
    by (metis surj_pair)
  have ok: "ok \<longleftrightarrow> announce_triple a \<notin> set (drop (length log - 4096) log)"
    using guard_memory.accept_iff [of ?m log "announce_triple a"] assms m
    by (simp add: guard_ok_def ANNOUNCE_SEEN_REMEMBERED_def)
  have admit: "replay_admit a t g =
     (if abs_diff (unat t) (unat (an_sent_unix a)) > 60 then (g, Inl OutsideWindow)
      else if ok then (\<lparr>rg_seen = seen, rg_order = order\<rparr>, Inr ()) else (g, Inl Replayed))"
    by (cases ok) (simp_all add: replay_admit_def m ANNOUNCE_REPLAY_WINDOW_S_def)
  have "guard_ok (log @ [announce_triple a]) \<lparr>rg_seen = seen, rg_order = order\<rparr>" if ok
    using guard_memory.accept_step [of ?m log "announce_triple a"] assms m that
    by (simp add: guard_ok_def)
  then show ?thesis using assms ok by (auto simp: admit)
qed

lemma announces_admitted_ok:
  "guard_ok log g \<Longrightarrow> announces_admitted xs g = (new, g') \<Longrightarrow> guard_ok (log @ new) g'"
proof (induction xs arbitrary: log g new)
  case (Cons x xs)
  obtain a t where x: "x = (a, t)" by (cases x)
  let ?r = "replay_admit a t g"
  let ?log = "if snd ?r = Inr () then log @ [announce_triple a] else log"
  obtain rest where rest: "announces_admitted xs (fst ?r) = (rest, g')"
    using Cons.prems(2) by (auto simp: x split_beta) (metis prod.collapse)
  have "new = (if snd ?r = Inr () then announce_triple a # rest else rest)"
    using Cons.prems(2) rest by (auto simp: x split_beta)
  then have log: "log @ new = ?log @ rest" by simp
  have "guard_ok ?log (fst ?r)" using replay_admit_step [OF Cons.prems(1), of a t] by (rule conjunct2)
  then have "guard_ok (?log @ rest) g'" by (rule Cons.IH [OF _ rest])
  then show ?case by (simp only: log)
qed simp

end
