(* ===== verification/Format_Text.thy ===== *)
theory Format_Text
  imports Prelude
begin

text \<open>
  Numbers as text, as \<open>Display\<close> and \<open>LowerHex\<close> of the standard library write them: the
  addresses of \<open>punch.rs\<close> that break a tie, and the messages of the gate's decoders.
\<close>

fun digits_in :: "nat \<Rightarrow> nat \<Rightarrow> nat \<Rightarrow> nat list" where
  "digits_in 0 b n = []"
| "digits_in (Suc k) b n = (if n < b then [n] else digits_in k b (n div b) @ [n mod b])"

definition digit_char :: "nat \<Rightarrow> char" where
  "digit_char d = char_of (if d < 10 then 48 + d else 87 + d)"

text \<open>A segment and a port have at most five digits in either base, a scope id at most ten.\<close>

definition decimal :: "nat \<Rightarrow> string" where
  "decimal n = map digit_char (digits_in 10 10 n)"

definition hex_str :: "nat \<Rightarrow> string" where
  "hex_str n = map digit_char (digits_in 10 16 n)"

fun join_with :: "string \<Rightarrow> string list \<Rightarrow> string" where
  "join_with sep [] = []"
| "join_with sep [x] = x"
| "join_with sep (x # y # xs) = x @ sep @ join_with sep (y # xs)"

end
