(* ===== verification/Attempt.thy ===== *)
theory Attempt
  imports Candidate Format_Text
begin

text \<open>
  One doorbell attempt (\<open>punch.rs\<close>, \<open>Attempt\<close>): its candidate table, its probe schedule
  and the upgrade rule. It owns no clock and no socket: the caller passes the time it read,
  and the closure \<open>tx_ids\<close> is the sequence of the values it returns in one call.
  \<open>Duration\<close> arithmetic that overflows is a panic, and a panic is \<open>None\<close>.
\<close>

section \<open>Addresses as text\<close>

text \<open>
  \<open>SocketAddr::to_string\<close>, which breaks a tie between two candidates: \<open>Display\<close> of the
  standard library, with the longest run of two or more zero segments of an IPv6 address
  written as a double colon, and a mapped address in its dotted form.
\<close>

definition v4_string :: "bytes \<Rightarrow> string" where
  "v4_string ip = join_with ''.'' (map (\<lambda>b. decimal (unat b)) ip)"

fun v6_segments :: "bytes \<Rightarrow> nat list" where
  "v6_segments (hi # lo # bs) = (unat hi * 256 + unat lo) # v6_segments bs"
| "v6_segments _ = []"

text \<open>The loop over the segments: index, the current span and the longest so far.\<close>

fun zero_span ::
    "nat list \<Rightarrow> nat \<Rightarrow> nat \<times> nat \<Rightarrow> nat \<times> nat \<Rightarrow> nat \<times> nat" where
  "zero_span [] i current longest = longest"
| "zero_span (s # ss) i (start, len) longest =
     (if s = 0 then
        (let current = (if len = 0 then i else start, len + 1) in
         zero_span ss (i + 1) current (if snd current > snd longest then current else longest))
      else zero_span ss (i + 1) (0, 0) longest)"

definition v6_string :: "bytes \<Rightarrow> string" where
  "v6_string ip =
     (case to_ipv4_mapped ip of
        Some v4 \<Rightarrow> ''::ffff:'' @ v4_string v4
      | None \<Rightarrow>
          (let segments = v6_segments ip;
               (start, len) = zero_span segments 0 (0, 0) (0, 0);
               show_part = (\<lambda>ss. join_with '':'' (map hex_str ss)) in
           if len > 1 then show_part (take start segments) @ ''::'' @
             show_part (drop (start + len) segments)
           else show_part segments))"

fun socket_addr_string :: "socket_addr \<Rightarrow> string" where
  "socket_addr_string (V4 ip port) = v4_string ip @ '':'' @ decimal (unat port)"
| "socket_addr_string (V6 ip port flow scope) =
     ''['' @ v6_string ip @ (if scope = 0 then [] else CHR ''%'' # decimal (unat scope)) @
     '']:'' @ decimal (unat port)"

text \<open>Strings compare by their bytes.\<close>

definition str_less :: "string \<Rightarrow> string \<Rightarrow> bool" where
  "str_less s t \<longleftrightarrow> (map of_char s :: nat list) < map of_char t"

section \<open>The candidate table\<close>

definition PROBE_FAST_INTERVAL :: duration where "PROBE_FAST_INTERVAL = from_millis 100"
definition PROBE_FAST_WINDOW :: duration where "PROBE_FAST_WINDOW = from_secs 3"
definition PROBE_SLOW_INTERVAL :: duration where "PROBE_SLOW_INTERVAL = from_secs 1"
definition PROBE_GIVE_UP :: duration where "PROBE_GIVE_UP = from_secs 10"
definition DISCOVERY_CANDIDATE_SLOTS :: nat where "DISCOVERY_CANDIDATE_SLOTS = 4"
definition CONSECUTIVE_PONGS_TO_WIN :: u32 where "CONSECUTIVE_PONGS_TO_WIN = 3"
definition FIRE_IN_MS :: nat where "FIRE_IN_MS = 200"

record candidate =
  cd_addr :: socket_addr
  cd_source :: candidate_source
  cd_consecutive :: u32
  cd_recent :: "duration list"
  cd_srtt :: "duration option"
  cd_outstanding :: "(bytes, instant) hashmap"
  cd_last_sent :: "instant option"
  cd_given_up :: bool

text \<open>The loop that removes the first until three are left.\<close>

definition keep_recent :: "duration list \<Rightarrow> duration list" where
  "keep_recent ds = drop (length ds - unat CONSECUTIVE_PONGS_TO_WIN) ds"

definition record_rtt :: "duration \<Rightarrow> candidate \<Rightarrow> candidate option" where
  "record_rtt rtt c =
     (let c = c\<lparr>cd_recent := keep_recent (cd_recent c @ [rtt])\<rparr> in
      case cd_srtt c of
        None \<Rightarrow> Some (c\<lparr>cd_srtt := Some rtt\<rparr>)
      | Some previous \<Rightarrow>
          Option.bind (checked (previous * 7)) (\<lambda>d.
          Option.bind (checked (d + rtt)) (\<lambda>d.
            Some (c\<lparr>cd_srtt := Some (d div 8)\<rparr>))))"

fun sum_durations :: "duration \<Rightarrow> duration list \<Rightarrow> duration option" where
  "sum_durations acc [] = Some acc"
| "sum_durations acc (d # ds) = Option.bind (checked (acc + d)) (\<lambda>acc. sum_durations acc ds)"

definition winning_rtt :: "candidate \<Rightarrow> duration option option" where
  "winning_rtt c =
     (if cd_recent c = [] then Some None
      else Option.bind (sum_durations 0 (cd_recent c)) (\<lambda>total.
        Some (if length (cd_recent c) < 2 ^ 32 then Some (total div length (cd_recent c))
              else None)))"

record winner =
  wn_addr :: socket_addr
  wn_rtt :: duration

record attempt =
  at_id :: bytes
  at_key :: bytes
  at_vouched :: "socket_addr list"
  at_fire_at :: "instant option"
  at_candidates :: "candidate list"
  at_discovery_candidates :: nat
  at_winner :: "winner option"

definition attempt_new :: "bytes \<Rightarrow> bytes \<Rightarrow> socket_addr option \<Rightarrow> attempt" where
  "attempt_new attempt_id key gate_reflected_peer = \<lparr>
     at_id = attempt_id, at_key = key,
     at_vouched = (case gate_reflected_peer of None \<Rightarrow> [] | Some a \<Rightarrow> [unmap_v4 a]),
     at_fire_at = None, at_candidates = [], at_discovery_candidates = 0, at_winner = None \<rparr>"

definition candidate_new :: "socket_addr \<Rightarrow> candidate_source \<Rightarrow> candidate" where
  "candidate_new addr source =
     \<lparr>cd_addr = addr, cd_source = source, cd_consecutive = 0, cd_recent = [],
      cd_srtt = None, cd_outstanding = [], cd_last_sent = None, cd_given_up = False\<rparr>"

definition add_candidate :: "socket_addr \<Rightarrow> candidate_source \<Rightarrow> attempt \<Rightarrow> attempt \<times> bool" where
  "add_candidate addr source a =
     (let addr = unmap_v4 addr in
      if length (at_candidates a) \<ge> MAX_CANDIDATES \<or> \<not> is_probeable addr \<or>
         addr \<in> cd_addr ` set (at_candidates a) then (a, False)
      else if source = PeerReported \<and> \<not> is_globally_routable addr \<and>
         addr \<notin> set (at_vouched a) then (a, False)
      else
        (a\<lparr>at_candidates := at_candidates a @ [candidate_new addr source]\<rparr>, True))"

definition vouch :: "socket_addr \<Rightarrow> attempt \<Rightarrow> attempt" where
  "vouch addr a =
     (let addr = unmap_v4 addr in
      if addr \<in> set (at_vouched a) then a else a\<lparr>at_vouched := at_vouched a @ [addr]\<rparr>)"

definition add_discovered :: "socket_addr \<Rightarrow> attempt \<Rightarrow> attempt \<times> bool" where
  "add_discovered addr a =
     (let a = vouch addr a in
      if at_discovery_candidates a \<ge> DISCOVERY_CANDIDATE_SLOTS then (a, False)
      else
        (case add_candidate addr Discovery a of
           (a, True) \<Rightarrow> (a\<lparr>at_discovery_candidates := at_discovery_candidates a + 1\<rparr>, True)
         | (a, False) \<Rightarrow> (a, False)))"

fun add_peer_candidates :: "addr list \<Rightarrow> attempt \<Rightarrow> attempt \<times> nat" where
  "add_peer_candidates [] a = (a, 0)"
| "add_peer_candidates (addr # addrs) a =
     (case to_socket_addr addr of
        None \<Rightarrow> add_peer_candidates addrs a
      | Some addr \<Rightarrow>
          (case add_candidate addr PeerReported a of
             (a, taken) \<Rightarrow>
               (case add_peer_candidates addrs a of
                  (a, n) \<Rightarrow> (a, if taken then Suc n else n))))"

definition candidate_count :: "attempt \<Rightarrow> nat" where
  "candidate_count a = length (at_candidates a)"

definition vouched_for :: "attempt \<Rightarrow> socket_addr \<Rightarrow> bool" where
  "vouched_for a addr \<longleftrightarrow> unmap_v4 addr \<in> set (at_vouched a)"

definition source_of :: "attempt \<Rightarrow> socket_addr \<Rightarrow> candidate_source option" where
  "source_of a addr = map_option cd_source (List.find (\<lambda>c. cd_addr c = addr) (at_candidates a))"

definition start_signal_received :: "instant \<Rightarrow> attempt \<Rightarrow> attempt" where
  "start_signal_received received_at a =
     a\<lparr>at_fire_at := Some (received_at + from_millis FIRE_IN_MS)\<rparr>"

definition given_up :: "attempt \<Rightarrow> instant \<Rightarrow> bool" where
  "given_up a now \<longleftrightarrow>
     at_winner a = None \<and>
     (case at_fire_at a of None \<Rightarrow> False | Some fire_at \<Rightarrow> fire_at + PROBE_GIVE_UP \<le> now)"

section \<open>Probes and answers\<close>

definition ADDR_DEFAULT :: addr where
  "ADDR_DEFAULT = \<lparr>addr_family = 0, addr_bytes = replicate 16 0, addr_port = 0\<rparr>"

definition ping_of :: "attempt \<Rightarrow> bytes \<Rightarrow> probe" where
  "ping_of a tx =
     \<lparr>pr_kind = PROBE_PING, pr_attempt = at_id a, pr_tx = tx, pr_observed = ADDR_DEFAULT\<rparr>"

definition ping_due :: "instant \<Rightarrow> duration \<Rightarrow> candidate \<Rightarrow> bool" where
  "ping_due now interval c \<longleftrightarrow>
     \<not> cd_given_up c \<and>
     (case cd_last_sent c of None \<Rightarrow> True | Some l \<Rightarrow> \<not> duration_since now l < interval)"

text \<open>Sending one ping: an unanswered one before it ends the streak.\<close>

definition ping_candidate :: "instant \<Rightarrow> bytes \<Rightarrow> candidate \<Rightarrow> candidate" where
  "ping_candidate now tx c =
     (let c = (if cd_outstanding c = [] then c
               else c\<lparr>cd_consecutive := 0, cd_recent := [], cd_outstanding := []\<rparr>) in
      c\<lparr>cd_outstanding := hm_insert tx now (cd_outstanding c), cd_last_sent := Some now\<rparr>)"

fun ping_candidates ::
    "crypto \<Rightarrow> attempt \<Rightarrow> instant \<Rightarrow> duration \<Rightarrow> (nat \<Rightarrow> bytes) \<Rightarrow> nat \<Rightarrow> candidate list \<Rightarrow>
     candidate list \<times> (socket_addr \<times> bytes) list" where
  "ping_candidates K a now interval tx_ids n [] = ([], [])"
| "ping_candidates K a now interval tx_ids n (c # cs) =
     (if ping_due now interval c then
        (case ping_candidates K a now interval tx_ids (Suc n) cs of
           (cs, out) \<Rightarrow>
             (ping_candidate now (tx_ids n) c # cs,
              (cd_addr c, probe_encode K (at_key a) (ping_of a (tx_ids n))) # out))
      else
        (case ping_candidates K a now interval tx_ids n cs of (cs, out) \<Rightarrow> (c # cs, out)))"

definition due_probes ::
    "crypto \<Rightarrow> instant \<Rightarrow> (nat \<Rightarrow> bytes) \<Rightarrow> attempt \<Rightarrow> attempt \<times> (socket_addr \<times> bytes) list" where
  "due_probes K now tx_ids a =
     (case at_fire_at a of
        None \<Rightarrow> (a, [])
      | Some fire_at \<Rightarrow>
          if now < fire_at \<or> at_winner a \<noteq> None then (a, [])
          else
            (let elapsed = duration_since now fire_at in
             if elapsed \<ge> PROBE_GIVE_UP then
               (a\<lparr>at_candidates := map (\<lambda>c. c\<lparr>cd_given_up := True\<rparr>) (at_candidates a)\<rparr>, [])
             else
               (let interval = (if elapsed < PROBE_FAST_WINDOW then PROBE_FAST_INTERVAL
                                else PROBE_SLOW_INTERVAL) in
                case ping_candidates K a now interval tx_ids 0 (at_candidates a) of
                  (cs, out) \<Rightarrow> (a\<lparr>at_candidates := cs\<rparr>, out))))"

definition pong_with_observed :: "crypto \<Rightarrow> attempt \<Rightarrow> probe \<Rightarrow> addr \<Rightarrow> bytes" where
  "pong_with_observed K a ping observed =
     probe_encode K (at_key a)
       \<lparr>pr_kind = PROBE_PONG, pr_attempt = pr_attempt ping, pr_tx = pr_tx ping,
        pr_observed = observed\<rparr>"

definition pong_for :: "crypto \<Rightarrow> attempt \<Rightarrow> probe \<Rightarrow> socket_addr \<Rightarrow> bytes" where
  "pong_for K a ping from = pong_with_observed K a ping (from_socket_addr from)"

definition pong_for_relayed :: "crypto \<Rightarrow> attempt \<Rightarrow> probe \<Rightarrow> bytes" where
  "pong_for_relayed K a ping = pong_with_observed K a ping ADDR_DEFAULT"

text \<open>One candidate of the loop of \<open>on_pong\<close>, and whether it counted.\<close>

definition pong_candidate ::
    "socket_addr \<Rightarrow> bytes \<Rightarrow> instant \<Rightarrow> candidate \<Rightarrow> (candidate \<times> bool) option" where
  "pong_candidate from tx now c =
     (if cd_addr c \<noteq> from then Some (c, False)
      else
        (case hm_get (cd_outstanding c) tx of
           None \<Rightarrow> Some (c, False)
         | Some sent \<Rightarrow>
             Option.bind
               (record_rtt (duration_since now sent)
                 (c\<lparr>cd_outstanding := hm_remove tx (cd_outstanding c)\<rparr>))
               (\<lambda>c. Some (c\<lparr>cd_consecutive := sat_inc32 (cd_consecutive c)\<rparr>, True))))"

fun pong_candidates ::
    "socket_addr \<Rightarrow> bytes \<Rightarrow> instant \<Rightarrow> candidate list \<Rightarrow> (candidate list \<times> bool) option" where
  "pong_candidates from tx now [] = Some ([], False)"
| "pong_candidates from tx now (c # cs) =
     Option.bind (pong_candidate from tx now c) (\<lambda>(c, counted).
     Option.bind (pong_candidates from tx now cs) (\<lambda>(cs, counted').
       Some (c # cs, counted \<or> counted')))"

definition attempt_on_pong ::
    "socket_addr \<Rightarrow> probe \<Rightarrow> instant \<Rightarrow> attempt \<Rightarrow> (attempt \<times> bool) option" where
  "attempt_on_pong from pong now a =
     (if at_winner a \<noteq> None \<or> pr_kind pong \<noteq> PROBE_PONG \<or> pr_attempt pong \<noteq> at_id a
      then Some (a, False)
      else
        Option.bind (pong_candidates from (pr_tx pong) now (at_candidates a))
          (\<lambda>(cs, counted). Some (a\<lparr>at_candidates := cs\<rparr>, counted)))"

section \<open>The upgrade rule\<close>

text \<open>\<open>Iterator::min_by\<close> keeps the first of equal elements.\<close>

definition min_by :: "('a \<Rightarrow> 'a \<Rightarrow> bool) \<Rightarrow> 'a list \<Rightarrow> 'a option" where
  "min_by lt xs =
     (case xs of [] \<Rightarrow> None
      | x # xs \<Rightarrow> Some (fold (\<lambda>y m. if lt y m then y else m) xs x))"

definition path_less :: "duration \<times> socket_addr \<Rightarrow> duration \<times> socket_addr \<Rightarrow> bool" where
  "path_less x y \<longleftrightarrow>
     fst x < fst y \<or>
     fst x = fst y \<and> str_less (socket_addr_string (snd x)) (socket_addr_string (snd y))"

fun proved_paths :: "candidate list \<Rightarrow> (duration \<times> socket_addr) list option" where
  "proved_paths [] = Some []"
| "proved_paths (c # cs) =
     (if CONSECUTIVE_PONGS_TO_WIN \<le> cd_consecutive c then
        Option.bind (winning_rtt c) (\<lambda>rtt.
        Option.bind (proved_paths cs) (\<lambda>ps.
          Some (case rtt of None \<Rightarrow> ps | Some rtt \<Rightarrow> (rtt, cd_addr c) # ps)))
      else proved_paths cs)"

definition decide :: "attempt \<Rightarrow> (attempt \<times> winner option) option" where
  "decide a =
     (if at_winner a \<noteq> None then Some (a, None)
      else
        Option.bind (proved_paths (at_candidates a)) (\<lambda>ps.
          case min_by path_less ps of
            None \<Rightarrow> Some (a, None)
          | Some (rtt, addr) \<Rightarrow>
              (let winner = \<lparr>wn_addr = addr, wn_rtt = rtt\<rparr> in
               Some (a\<lparr>at_winner := Some winner\<rparr>, Some winner))))"

definition attempt_srtt :: "attempt \<Rightarrow> socket_addr \<Rightarrow> duration option" where
  "attempt_srtt a addr =
     Option.bind (List.find (\<lambda>c. cd_addr c = addr) (at_candidates a)) cd_srtt"

definition path_failed :: "attempt \<Rightarrow> attempt \<times> winner option" where
  "path_failed a = (a\<lparr>at_winner := None\<rparr>, at_winner a)"

section \<open>The calls on an attempt\<close>

datatype attempt_call =
    AddCandidate socket_addr candidate_source
  | AddDiscovered socket_addr
  | VouchFor socket_addr
  | AddPeerCandidates "addr list"
  | StartSignal instant
  | DueProbes instant "nat \<Rightarrow> bytes"
  | PongFrom socket_addr probe instant
  | Decide
  | PathFailed

fun attempt_apply :: "crypto \<Rightarrow> attempt_call \<Rightarrow> attempt \<Rightarrow> attempt option" where
  "attempt_apply K (AddCandidate addr source) a = Some (fst (add_candidate addr source a))"
| "attempt_apply K (AddDiscovered addr) a = Some (fst (add_discovered addr a))"
| "attempt_apply K (VouchFor addr) a = Some (vouch addr a)"
| "attempt_apply K (AddPeerCandidates addrs) a = Some (fst (add_peer_candidates addrs a))"
| "attempt_apply K (StartSignal t) a = Some (start_signal_received t a)"
| "attempt_apply K (DueProbes now tx_ids) a = Some (fst (due_probes K now tx_ids a))"
| "attempt_apply K (PongFrom addr pong now) a = map_option fst (attempt_on_pong addr pong now a)"
| "attempt_apply K Decide a = map_option fst (decide a)"
| "attempt_apply K PathFailed a = Some (fst (path_failed a))"

fun attempt_run :: "crypto \<Rightarrow> attempt_call list \<Rightarrow> attempt \<Rightarrow> attempt option" where
  "attempt_run K [] a = Some a"
| "attempt_run K (call # calls) a = Option.bind (attempt_apply K call a) (attempt_run K calls)"

text \<open>The addresses that a call stands behind, and a pong read at most at time \<open>b\<close>.\<close>

fun call_vouches :: "attempt_call \<Rightarrow> socket_addr set" where
  "call_vouches (AddDiscovered addr) = {unmap_v4 addr}"
| "call_vouches (VouchFor addr) = {unmap_v4 addr}"
| "call_vouches _ = {}"

fun call_within :: "instant \<Rightarrow> attempt_call \<Rightarrow> bool" where
  "call_within b (PongFrom _ _ now) \<longleftrightarrow> now \<le> b"
| "call_within b _ \<longleftrightarrow> True"

fun call_not_discovery :: "attempt_call \<Rightarrow> bool" where
  "call_not_discovery (AddCandidate _ source) \<longleftrightarrow> source \<noteq> Discovery"
| "call_not_discovery _ \<longleftrightarrow> True"

end
