(* ===== verification/Attempt_Laws.thy ===== *)
theory Attempt_Laws
  imports Attempt
begin

text \<open>
  What every call keeps of an attempt: the bounds and the admission rule of its table, the
  answers behind a streak, and that no call panics while the times read are bounded.
\<close>

section \<open>One candidate\<close>

text \<open>
  \<open>streak_ok\<close>: the answers kept are the last three of the streak, so three in a row are
  three answers. \<open>rtts_within b\<close>: every time measured is at most \<open>b\<close>.
\<close>

definition streak_ok :: "candidate \<Rightarrow> bool" where
  "streak_ok c \<longleftrightarrow> length (cd_recent c) = min 3 (unat (cd_consecutive c))"

definition rtts_within :: "duration \<Rightarrow> candidate \<Rightarrow> bool" where
  "rtts_within b c \<longleftrightarrow>
     (\<forall>d \<in> set (cd_recent c). d \<le> b) \<and> (\<forall>d. cd_srtt c = Some d \<longrightarrow> d \<le> b)"

lemma unat_sat_inc32_min: "min 3 (unat (sat_inc32 w)) = min 3 (Suc (unat w))"
proof (cases "w = - 1")
  case True
  then show ?thesis by (simp add: sat_inc32_def unsigned_minus_1_eq_mask mask_eq_exp_minus_1)
qed (simp add: unat_sat_inc32)

lemma keep_recent_length: "length (keep_recent ds) = min 3 (length ds)"
  by (simp add: keep_recent_def CONSECUTIVE_PONGS_TO_WIN_def)

lemma keep_recent_subset: "set (keep_recent ds) \<subseteq> set ds"
  by (simp add: keep_recent_def set_drop_subset)

lemma record_rtt_some:
  assumes "rtts_within b c" and "rtt \<le> b" and "8 * b \<le> duration_max"
  obtains c' where "record_rtt rtt c = Some c'" and "rtts_within b c'"
    and "cd_recent c' = keep_recent (cd_recent c @ [rtt])"
    and "cd_addr c' = cd_addr c" and "cd_source c' = cd_source c"
    and "cd_consecutive c' = cd_consecutive c"
proof -
  have recent: "\<forall>d \<in> set (keep_recent (cd_recent c @ [rtt])). d \<le> b"
    using assms(1,2) keep_recent_subset [of "cd_recent c @ [rtt]"] by (auto simp: rtts_within_def)
  show thesis
  proof (cases "cd_srtt c")
    case None
    then show thesis using that recent assms(2) by (simp add: record_rtt_def Let_def rtts_within_def)
  next
    case (Some p)
    have "p \<le> b" using assms(1) Some by (simp add: rtts_within_def)
    then have "p * 7 \<le> duration_max" "p * 7 + rtt \<le> duration_max" "(p * 7 + rtt) div 8 \<le> b"
      using assms(2,3) by linarith+
    then show thesis
      using that recent Some by (simp add: record_rtt_def Let_def rtts_within_def checked_def)
  qed
qed

text \<open>What one answer does to one candidate.\<close>

lemma pong_candidate_some:
  assumes ok: "streak_ok c" "rtts_within b c" and b: "now \<le> b" "8 * b \<le> duration_max"
  obtains c' counted where "pong_candidate from tx now c = Some (c', counted)"
    and "streak_ok c'" and "rtts_within b c'" and "cd_addr c' = cd_addr c"
    and "cd_source c' = cd_source c"
proof (cases "cd_addr c \<noteq> from \<or> hm_get (cd_outstanding c) tx = None")
  case True
  then have "pong_candidate from tx now c = Some (c, False)" by (auto simp: pong_candidate_def)
  then show thesis using ok by (rule that) simp_all
next
  case False
  then obtain sent where sent: "hm_get (cd_outstanding c) tx = Some sent" and addr: "cd_addr c = from"
    by auto
  let ?d = "c\<lparr>cd_outstanding := hm_remove tx (cd_outstanding c)\<rparr>"
  have "rtts_within b ?d" using ok(2) by (simp add: rtts_within_def)
  moreover have "duration_since now sent \<le> b" using b by (simp add: duration_since_def)
  ultimately obtain c' where c': "record_rtt (duration_since now sent) ?d = Some c'"
    "rtts_within b c'" "cd_recent c' = keep_recent (cd_recent c @ [duration_since now sent])"
    "cd_addr c' = cd_addr c" "cd_source c' = cd_source c" "cd_consecutive c' = cd_consecutive c"
    by (rule record_rtt_some [OF _ _ b(2)]) simp
  let ?e = "c'\<lparr>cd_consecutive := sat_inc32 (cd_consecutive c')\<rparr>"
  have "streak_ok ?e"
    using ok(1) c'(3,6) by (simp add: streak_ok_def keep_recent_length unat_sat_inc32_min)
  moreover have "rtts_within b ?e" using c'(2) by (simp add: rtts_within_def)
  ultimately show thesis
    using that [of ?e True] c' sent addr by (simp add: pong_candidate_def)
qed

lemma ping_candidate_frame [simp]:
  "cd_addr (ping_candidate now tx c) = cd_addr c" "cd_source (ping_candidate now tx c) = cd_source c"
  by (simp_all add: ping_candidate_def Let_def)

lemma ping_candidate_ok:
  "streak_ok c \<Longrightarrow> streak_ok (ping_candidate now tx c)"
  "rtts_within b c \<Longrightarrow> rtts_within b (ping_candidate now tx c)"
  by (simp_all add: ping_candidate_def Let_def streak_ok_def rtts_within_def)

text \<open>A streak of three or more has three answers to average.\<close>

lemma winning_rtt_some:
  assumes "streak_ok c" and "rtts_within b c" and "8 * b \<le> duration_max"
    and "CONSECUTIVE_PONGS_TO_WIN \<le> cd_consecutive c"
  shows "winning_rtt c = Some (Some (sum_list (cd_recent c) div 3))"
    and "length (cd_recent c) = 3"
proof -
  have "3 \<le> unat (cd_consecutive c)"
    using assms(4) by (simp add: CONSECUTIVE_PONGS_TO_WIN_def word_le_nat_alt)
  then show len: "length (cd_recent c) = 3" using assms(1) by (simp add: streak_ok_def)
  then obtain x y z where r: "cd_recent c = [x, y, z]"
    by (auto simp: length_Suc_conv numeral_3_eq_3)
  then have "x \<le> b" "y \<le> b" "z \<le> b" using assms(2) by (auto simp: rtts_within_def)
  then have "x \<le> duration_max" "x + y \<le> duration_max" "x + y + z \<le> duration_max"
    using assms(3) by linarith+
  then show "winning_rtt c = Some (Some (sum_list (cd_recent c) div 3))"
    by (simp add: winning_rtt_def r checked_def add.assoc)
qed

section \<open>The invariant of an attempt\<close>

text \<open>
  \<open>V\<close> is the set of addresses that something other than the peer's word stands behind, and
  \<open>b\<close> bounds every time that was read. The winner is one of the candidates.
\<close>

definition attempt_ok :: "socket_addr set \<Rightarrow> instant \<Rightarrow> attempt \<Rightarrow> bool" where
  "attempt_ok V b a \<longleftrightarrow>
     length (at_candidates a) \<le> MAX_CANDIDATES \<and> distinct (map cd_addr (at_candidates a)) \<and>
     set (at_vouched a) \<subseteq> V \<and>
     (\<forall>c \<in> set (at_candidates a).
        unmapped (cd_addr c) \<and> is_probeable (cd_addr c) \<and>
        (cd_source c = PeerReported \<longrightarrow> is_globally_routable (cd_addr c) \<or> cd_addr c \<in> V) \<and>
        streak_ok c \<and> rtts_within b c)"

definition discovery_slots_ok :: "attempt \<Rightarrow> bool" where
  "discovery_slots_ok a \<longleftrightarrow>
     length (filter (\<lambda>c. cd_source c = Discovery) (at_candidates a)) = at_discovery_candidates a \<and>
     at_discovery_candidates a \<le> DISCOVERY_CANDIDATE_SLOTS"

text \<open>A new table whose candidates keep their addresses, sources, streaks and times.\<close>

definition table_kept :: "instant \<Rightarrow> candidate list \<Rightarrow> candidate list \<Rightarrow> bool" where
  "table_kept b cs cs' \<longleftrightarrow>
     map cd_addr cs' = map cd_addr cs \<and> map cd_source cs' = map cd_source cs \<and>
     (list_all (\<lambda>c. streak_ok c \<and> rtts_within b c) cs \<longrightarrow>
      list_all (\<lambda>c. streak_ok c \<and> rtts_within b c) cs')"

lemma table_kept_at:
  assumes "map cd_addr cs' = map cd_addr cs" and "map cd_source cs' = map cd_source cs" and "c' \<in> set cs'"
  obtains c where "c \<in> set cs" and "cd_addr c' = cd_addr c" and "cd_source c' = cd_source c"
proof -
  obtain i where i: "i < length cs'" "cs' ! i = c'" using assms(3) by (auto simp: in_set_conv_nth)
  have "length cs' = length cs" using assms(1) by (rule map_eq_imp_length_eq)
  then have "cs ! i \<in> set cs" using i by simp
  moreover have "cd_addr c' = cd_addr (cs ! i)" "cd_source c' = cd_source (cs ! i)"
    using arg_cong [OF assms(1), of "\<lambda>xs. xs ! i"] arg_cong [OF assms(2), of "\<lambda>xs. xs ! i"]
      i \<open>length cs' = length cs\<close> by simp_all
  ultimately show thesis by (rule that)
qed

lemma attempt_ok_table:
  assumes ok: "attempt_ok V b a" and kept: "table_kept b (at_candidates a) cs'"
  shows "attempt_ok V b (a\<lparr>at_candidates := cs'\<rparr>)"
proof -
  have maps: "map cd_addr cs' = map cd_addr (at_candidates a)"
    "map cd_source cs' = map cd_source (at_candidates a)"
    and step: "list_all (\<lambda>c. streak_ok c \<and> rtts_within b c) (at_candidates a) \<longrightarrow>
      list_all (\<lambda>c. streak_ok c \<and> rtts_within b c) cs'"
    using kept unfolding table_kept_def by blast+
  have "list_all (\<lambda>c. streak_ok c \<and> rtts_within b c) (at_candidates a)"
    using ok by (simp add: attempt_ok_def list_all_iff)
  with step have all: "list_all (\<lambda>c. streak_ok c \<and> rtts_within b c) cs'" by blast
  have "unmapped (cd_addr c) \<and> is_probeable (cd_addr c) \<and>
      (cd_source c = PeerReported \<longrightarrow> is_globally_routable (cd_addr c) \<or> cd_addr c \<in> V)"
    if c: "c \<in> set cs'" for c
  proof -
    obtain d where "d \<in> set (at_candidates a)" "cd_addr c = cd_addr d" "cd_source c = cd_source d"
      by (rule table_kept_at [OF maps c])
    then show ?thesis using ok by (simp add: attempt_ok_def)
  qed
  moreover have "length cs' = length (at_candidates a)" using maps(1) by (rule map_eq_imp_length_eq)
  ultimately show ?thesis
    using ok maps(1) all by (simp add: attempt_ok_def list_all_iff)
qed

lemma filter_source_length:
  assumes "map cd_source cs' = map cd_source cs"
  shows "length (filter (\<lambda>c. cd_source c = s) cs') = length (filter (\<lambda>c. cd_source c = s) cs)"
proof -
  have filtered: "length (filter (\<lambda>c. cd_source c = s) xs) =
      length (filter (\<lambda>x. x = s) (map cd_source xs))" for xs
    by (simp add: filter_map o_def)
  show ?thesis by (simp only: filtered [of cs'] filtered [of cs] assms)
qed

lemma discovery_slots_table:
  assumes "discovery_slots_ok a" and "table_kept b (at_candidates a) cs'"
  shows "discovery_slots_ok (a\<lparr>at_candidates := cs'\<rparr>)"
proof -
  have "map cd_source cs' = map cd_source (at_candidates a)"
    using assms(2) by (simp add: table_kept_def)
  from filter_source_length [OF this] show ?thesis
    using assms(1) by (simp add: discovery_slots_ok_def)
qed

lemma ping_candidates_kept:
  "table_kept b cs (fst (ping_candidates K a now interval tx_ids n cs))"
  by (induction K a now interval tx_ids n cs rule: ping_candidates.induct)
     (auto simp: table_kept_def ping_candidate_ok split: prod.splits)

lemma pong_candidates_some:
  assumes "now \<le> b" "8 * b \<le> duration_max"
    and "list_all (\<lambda>c. streak_ok c \<and> rtts_within b c) cs"
  shows "\<exists>cs' counted. pong_candidates from tx now cs = Some (cs', counted) \<and> table_kept b cs cs'"
  using assms(3)
proof (induction cs)
  case (Cons c cs)
  obtain cs' counted where cs: "pong_candidates from tx now cs = Some (cs', counted)"
    "table_kept b cs cs'"
    using Cons by auto
  have "streak_ok c" "rtts_within b c" using Cons.prems by simp_all
  then obtain c' counted' where c: "pong_candidate from tx now c = Some (c', counted')"
    "streak_ok c'" "rtts_within b c'" "cd_addr c' = cd_addr c" "cd_source c' = cd_source c"
    by (rule pong_candidate_some [OF _ _ assms(1,2)])
  have "table_kept b (c # cs) (c' # cs')" using c cs(2) by (simp add: table_kept_def)
  then show ?case using c(1) cs(1) by simp
qed (simp add: table_kept_def, blast)

lemma add_candidate_cases:
  obtains "add_candidate addr source a = (a, False)"
  | "add_candidate addr source a =
       (a\<lparr>at_candidates := at_candidates a @ [candidate_new (unmap_v4 addr) source]\<rparr>, True)"
    and "length (at_candidates a) < MAX_CANDIDATES" and "is_probeable (unmap_v4 addr)"
    and "unmap_v4 addr \<notin> cd_addr ` set (at_candidates a)"
    and "source = PeerReported \<Longrightarrow>
      is_globally_routable (unmap_v4 addr) \<or> unmap_v4 addr \<in> set (at_vouched a)"
proof (cases "snd (add_candidate addr source a)")
  case True
  then have room: "length (at_candidates a) < MAX_CANDIDATES" "is_probeable (unmap_v4 addr)"
    "unmap_v4 addr \<notin> cd_addr ` set (at_candidates a)"
    and "\<not> (source = PeerReported \<and> \<not> is_globally_routable (unmap_v4 addr) \<and>
      unmap_v4 addr \<notin> set (at_vouched a))"
    by (simp_all add: add_candidate_def Let_def not_le split: if_split_asm)
  then show thesis by (intro that(2)) (auto simp: add_candidate_def Let_def)
next
  case False
  then have "add_candidate addr source a = (a, False)"
    by (simp add: add_candidate_def Let_def split: if_split_asm)
  then show thesis by (rule that(1))
qed

lemma candidate_new_simps [simp]:
  "cd_addr (candidate_new addr source) = addr" "cd_source (candidate_new addr source) = source"
  "streak_ok (candidate_new addr source)" "rtts_within b (candidate_new addr source)"
  by (simp_all add: candidate_new_def streak_ok_def rtts_within_def)

lemma attempt_ok_add:
  assumes ok: "attempt_ok V b a"
  shows "attempt_ok V b (fst (add_candidate addr source a))"
proof (rule add_candidate_cases [of addr source a])
  assume new: "add_candidate addr source a =
       (a\<lparr>at_candidates := at_candidates a @ [candidate_new (unmap_v4 addr) source]\<rparr>, True)"
    "length (at_candidates a) < MAX_CANDIDATES" "is_probeable (unmap_v4 addr)"
    "unmap_v4 addr \<notin> cd_addr ` set (at_candidates a)"
    and routable: "source = PeerReported \<Longrightarrow>
      is_globally_routable (unmap_v4 addr) \<or> unmap_v4 addr \<in> set (at_vouched a)"
  have "source = PeerReported \<longrightarrow> is_globally_routable (unmap_v4 addr) \<or> unmap_v4 addr \<in> V"
    using routable ok by (auto simp: attempt_ok_def)
  then show ?thesis using ok new by (simp add: attempt_ok_def)
qed (use ok in simp)

lemma add_candidate_frame [simp]:
  "at_discovery_candidates (fst (add_candidate addr source a)) = at_discovery_candidates a"
  "at_vouched (fst (add_candidate addr source a)) = at_vouched a"
  "at_winner (fst (add_candidate addr source a)) = at_winner a"
  by (simp_all add: add_candidate_def Let_def)

lemma add_candidate_discoveries:
  "length (filter (\<lambda>c. cd_source c = Discovery) (at_candidates (fst (add_candidate addr source a)))) =
   length (filter (\<lambda>c. cd_source c = Discovery) (at_candidates a)) +
     (if snd (add_candidate addr source a) \<and> source = Discovery then 1 else 0)"
  by (simp add: add_candidate_def Let_def)

section \<open>Every call keeps the invariant\<close>

lemma attempt_ok_vouch: "attempt_ok V b a \<Longrightarrow> unmap_v4 addr \<in> V \<Longrightarrow> attempt_ok V b (vouch addr a)"
  by (auto simp: attempt_ok_def vouch_def Let_def)

lemma vouch_frame [simp]:
  "at_candidates (vouch addr a) = at_candidates a"
  "at_discovery_candidates (vouch addr a) = at_discovery_candidates a"
  by (simp_all add: vouch_def Let_def)

lemma attempt_ok_cong:
  "attempt_ok V b a \<Longrightarrow> at_candidates a' = at_candidates a \<Longrightarrow> at_vouched a' = at_vouched a \<Longrightarrow>
   attempt_ok V b a'"
  by (simp add: attempt_ok_def)

lemma discovery_slots_cong:
  "discovery_slots_ok a \<Longrightarrow> at_candidates a' = at_candidates a \<Longrightarrow>
   at_discovery_candidates a' = at_discovery_candidates a \<Longrightarrow> discovery_slots_ok a'"
  by (simp add: discovery_slots_ok_def)

lemma add_discovered_cases:
  obtains "fst (add_discovered addr a) = vouch addr a"
  | "fst (add_discovered addr a) = fst (add_candidate addr Discovery (vouch addr a))"
    and "\<not> snd (add_candidate addr Discovery (vouch addr a))"
  | "fst (add_discovered addr a) = (fst (add_candidate addr Discovery (vouch addr a)))
       \<lparr>at_discovery_candidates := at_discovery_candidates a + 1\<rparr>"
    and "snd (add_candidate addr Discovery (vouch addr a))"
    and "at_discovery_candidates a < DISCOVERY_CANDIDATE_SLOTS"
proof -
  obtain x taken where r: "add_candidate addr Discovery (vouch addr a) = (x, taken)"
    by (cases "add_candidate addr Discovery (vouch addr a)")
  have "at_discovery_candidates x = at_discovery_candidates a"
    using add_candidate_frame(1) [of addr Discovery "vouch addr a"] unfolding r by simp
  then have "fst (add_discovered addr a) = vouch addr a \<or>
      \<not> taken \<and> fst (add_discovered addr a) = x \<or>
      taken \<and> at_discovery_candidates a < DISCOVERY_CANDIDATE_SLOTS \<and>
        fst (add_discovered addr a) = x\<lparr>at_discovery_candidates := at_discovery_candidates a + 1\<rparr>"
    by (auto simp: add_discovered_def Let_def r split: bool.split)
  then show thesis using that unfolding r fst_conv snd_conv by blast
qed

lemma attempt_ok_discovered:
  assumes "attempt_ok V b a" and "unmap_v4 addr \<in> V"
  shows "attempt_ok V b (fst (add_discovered addr a))"
proof -
  have ok: "attempt_ok V b (vouch addr a)" by (rule attempt_ok_vouch [OF assms])
  note add = attempt_ok_add [OF ok, of addr Discovery]
  show ?thesis
    by (rule add_discovered_cases [of addr a])
      (use ok add in \<open>auto intro: attempt_ok_cong [OF add]\<close>)
qed

lemma discovery_slots_add:
  "discovery_slots_ok a \<Longrightarrow> source \<noteq> Discovery \<Longrightarrow> discovery_slots_ok (fst (add_candidate addr source a))"
  using add_candidate_discoveries [of addr source a] by (simp add: discovery_slots_ok_def)

lemma discovery_slots_discovered:
  assumes "discovery_slots_ok a"
  shows "discovery_slots_ok (fst (add_discovered addr a))"
proof -
  have ok: "discovery_slots_ok (vouch addr a)" by (rule discovery_slots_cong [OF assms]) simp_all
  note count = add_candidate_discoveries [of addr Discovery "vouch addr a"]
  show ?thesis
    by (rule add_discovered_cases [of addr a])
      (use ok assms count in \<open>auto simp: discovery_slots_ok_def\<close>)
qed

lemma peer_candidates_kept:
  assumes "\<And>addr a. P a \<Longrightarrow> P (fst (add_candidate addr PeerReported a))" and "P a"
  shows "P (fst (add_peer_candidates addrs a))"
  using assms(2)
proof (induction addrs arbitrary: a)
  case (Cons addr addrs)
  show ?case
  proof (cases "to_socket_addr addr")
    case None
    then show ?thesis using Cons by simp
  next
    case (Some sa)
    have "P (fst (add_peer_candidates addrs (fst (add_candidate sa PeerReported a))))"
      using Cons.IH assms(1) Cons.prems by blast
    then show ?thesis using Some by (simp add: split_beta)
  qed
qed simp

lemma due_probes_cases:
  "fst (due_probes K now tx_ids a) = a \<or>
   fst (due_probes K now tx_ids a) =
     a\<lparr>at_candidates := map (\<lambda>c. c\<lparr>cd_given_up := True\<rparr>) (at_candidates a)\<rparr> \<or>
   (\<exists>interval. fst (due_probes K now tx_ids a) =
     a\<lparr>at_candidates := fst (ping_candidates K a now interval tx_ids 0 (at_candidates a))\<rparr>)"
  by (auto simp: due_probes_def Let_def split_beta split: option.split)

lemma given_up_kept: "table_kept b cs (map (\<lambda>c. c\<lparr>cd_given_up := True\<rparr>) cs)"
  by (simp add: table_kept_def list_all_iff streak_ok_def rtts_within_def)

lemma due_probes_kept:
  obtains cs where "fst (due_probes K now tx_ids a) = a\<lparr>at_candidates := cs\<rparr>"
    and "table_kept b (at_candidates a) cs"
proof -
  have "a = a\<lparr>at_candidates := at_candidates a\<rparr>" by simp
  moreover have "table_kept b (at_candidates a) (at_candidates a)" by (simp add: table_kept_def)
  ultimately show thesis
    using that due_probes_cases [of K now tx_ids a] given_up_kept ping_candidates_kept by metis
qed

lemma proved_paths_some:
  assumes "list_all (\<lambda>c. streak_ok c \<and> rtts_within b c) cs" and "8 * b \<le> duration_max"
  shows "proved_paths cs =
     Some (map (\<lambda>c. (sum_list (cd_recent c) div 3, cd_addr c))
       (filter (\<lambda>c. CONSECUTIVE_PONGS_TO_WIN \<le> cd_consecutive c) cs))"
  using assms(1)
proof (induction cs)
  case (Cons c cs)
  then show ?case using winning_rtt_some(1) [of c b] assms(2) by auto
qed simp

lemma attempt_ok_all:
  "attempt_ok V b a \<Longrightarrow> list_all (\<lambda>c. streak_ok c \<and> rtts_within b c) (at_candidates a)"
  by (simp add: attempt_ok_def list_all_iff)

lemma decide_some:
  assumes "attempt_ok V b a" and "8 * b \<le> duration_max"
  shows "decide a = Some (if at_winner a \<noteq> None then (a, None) else
     (case min_by path_less
        (map (\<lambda>c. (sum_list (cd_recent c) div 3, cd_addr c))
          (filter (\<lambda>c. CONSECUTIVE_PONGS_TO_WIN \<le> cd_consecutive c) (at_candidates a))) of
        None \<Rightarrow> (a, None)
      | Some (rtt, addr) \<Rightarrow>
          (a\<lparr>at_winner := Some \<lparr>wn_addr = addr, wn_rtt = rtt\<rparr>\<rparr>,
           Some \<lparr>wn_addr = addr, wn_rtt = rtt\<rparr>)))"
  using proved_paths_some [OF attempt_ok_all [OF assms(1)] assms(2)]
  by (simp add: decide_def Let_def split: option.split prod.split)

lemma decide_frame:
  "decide a = Some (a', w) \<Longrightarrow>
   at_candidates a' = at_candidates a \<and> at_vouched a' = at_vouched a \<and>
   at_discovery_candidates a' = at_discovery_candidates a"
  by (auto simp: decide_def Let_def split: if_splits bind_splits option.splits prod.splits)

lemma on_pong_some:
  assumes "attempt_ok V b a" and "now \<le> b" and "8 * b \<le> duration_max"
  obtains cs counted where "attempt_on_pong addr pong now a = Some (a\<lparr>at_candidates := cs\<rparr>, counted)"
    and "table_kept b (at_candidates a) cs"
proof (cases "at_winner a \<noteq> None \<or> pr_kind pong \<noteq> PROBE_PONG \<or> pr_attempt pong \<noteq> at_id a")
  case True
  then have "attempt_on_pong addr pong now a = Some (a\<lparr>at_candidates := at_candidates a\<rparr>, False)"
    unfolding attempt_on_pong_def by simp
  then show thesis by (rule that) (simp add: table_kept_def)
next
  case False
  obtain cs counted where "pong_candidates addr (pr_tx pong) now (at_candidates a) = Some (cs, counted)"
    and kept: "table_kept b (at_candidates a) cs"
    using pong_candidates_some [OF assms(2,3) attempt_ok_all [OF assms(1)]] by blast
  then have "attempt_on_pong addr pong now a = Some (a\<lparr>at_candidates := cs\<rparr>, counted)"
    using False by (simp add: attempt_on_pong_def)
  then show thesis using kept by (rule that)
qed

lemma attempt_apply_ok:
  assumes ok: "attempt_ok V b a" and b: "8 * b \<le> duration_max"
    and call: "call_within b call" "call_vouches call \<subseteq> V"
  obtains a' where "attempt_apply K call a = Some a'" and "attempt_ok V b a'"
    and "call_not_discovery call \<Longrightarrow> discovery_slots_ok a \<Longrightarrow> discovery_slots_ok a'"
proof (cases call)
  case (AddCandidate addr source)
  then show thesis using that ok attempt_ok_add discovery_slots_add by simp
next
  case (AddDiscovered addr)
  then show thesis using that ok call attempt_ok_discovered discovery_slots_discovered by simp
next
  case (VouchFor addr)
  have "discovery_slots_ok a \<Longrightarrow> discovery_slots_ok (vouch addr a)"
    by (erule discovery_slots_cong) simp_all
  then show thesis using that ok call VouchFor attempt_ok_vouch by simp
next
  case (AddPeerCandidates addrs)
  have "attempt_ok V b (fst (add_peer_candidates addrs a))"
    by (rule peer_candidates_kept [where P = "attempt_ok V b"]) (use ok attempt_ok_add in simp_all)
  moreover have "discovery_slots_ok a \<Longrightarrow> discovery_slots_ok (fst (add_peer_candidates addrs a))"
    by (rule peer_candidates_kept [where P = discovery_slots_ok]) (simp_all add: discovery_slots_add)
  ultimately show thesis using that AddPeerCandidates by simp
next
  case (StartSignal t)
  have "attempt_ok V b (start_signal_received t a)"
    by (rule attempt_ok_cong [OF ok]) (simp_all add: start_signal_received_def)
  moreover have "discovery_slots_ok a \<Longrightarrow> discovery_slots_ok (start_signal_received t a)"
    by (erule discovery_slots_cong) (simp_all add: start_signal_received_def)
  ultimately show thesis using that StartSignal by simp
next
  case (DueProbes now tx_ids)
  obtain cs where "fst (due_probes K now tx_ids a) = a\<lparr>at_candidates := cs\<rparr>"
    and kept: "table_kept b (at_candidates a) cs"
    by (rule due_probes_kept)
  then show thesis
    using that DueProbes attempt_ok_table [OF ok kept] discovery_slots_table [OF _ kept] by simp
next
  case (PongFrom addr pong now)
  then have "now \<le> b" using call by simp
  then obtain cs counted where
    "attempt_on_pong addr pong now a = Some (a\<lparr>at_candidates := cs\<rparr>, counted)"
    and kept: "table_kept b (at_candidates a) cs"
    by (rule on_pong_some [OF ok _ b])
  then show thesis
    using that PongFrom attempt_ok_table [OF ok kept] discovery_slots_table [OF _ kept] by simp
next
  case Decide
  obtain r where "decide a = Some r" using decide_some [OF ok b] by simp
  then obtain a' w where d: "decide a = Some (a', w)" by (cases r) simp
  note frame = decide_frame [OF d]
  have "attempt_ok V b a'" using attempt_ok_cong [OF ok] frame by blast
  moreover have "discovery_slots_ok a \<Longrightarrow> discovery_slots_ok a'"
    using discovery_slots_cong frame by blast
  ultimately show thesis using that Decide d by simp
next
  case PathFailed
  have "attempt_ok V b (fst (path_failed a))"
    by (rule attempt_ok_cong [OF ok]) (simp_all add: path_failed_def)
  moreover have "discovery_slots_ok a \<Longrightarrow> discovery_slots_ok (fst (path_failed a))"
    by (erule discovery_slots_cong) (simp_all add: path_failed_def)
  ultimately show thesis using that PathFailed by simp
qed

lemma attempt_run_ok:
  assumes "attempt_ok V b a" and "8 * b \<le> duration_max"
    and "list_all (call_within b) calls" and "\<Union> (call_vouches ` set calls) \<subseteq> V"
  shows "\<exists>a'. attempt_run K calls a = Some a' \<and> attempt_ok V b a' \<and>
    (list_all call_not_discovery calls \<and> discovery_slots_ok a \<longrightarrow> discovery_slots_ok a')"
  using assms(1,3,4)
proof (induction calls arbitrary: a)
  case (Cons call calls)
  have "call_within b call" "call_vouches call \<subseteq> V" using Cons.prems by auto
  then obtain a1 where a1: "attempt_apply K call a = Some a1" "attempt_ok V b a1"
    "call_not_discovery call \<Longrightarrow> discovery_slots_ok a \<Longrightarrow> discovery_slots_ok a1"
    using attempt_apply_ok [OF Cons.prems(1) assms(2)] by metis
  moreover obtain a2 where "attempt_run K calls a1 = Some a2" "attempt_ok V b a2"
    "list_all call_not_discovery calls \<and> discovery_slots_ok a1 \<longrightarrow> discovery_slots_ok a2"
    using Cons.IH [OF a1(2)] Cons.prems by auto
  ultimately show ?case by auto
qed simp

lemma attempt_new_ok:
  "(case reflected of None \<Rightarrow> {} | Some r \<Rightarrow> {unmap_v4 r}) \<subseteq> V \<Longrightarrow>
   attempt_ok V b (attempt_new i key reflected) \<and> discovery_slots_ok (attempt_new i key reflected)"
  by (auto simp: attempt_ok_def attempt_new_def discovery_slots_ok_def split: option.splits)

text \<open>\<open>min_by\<close> with a strict order on the first component.\<close>

lemma min_by_member: "min_by lt xs = Some m \<Longrightarrow> m \<in> set xs"
proof -
  have "fold (\<lambda>y m. if lt y m then y else m) ys x \<in> set (x # ys)" for x ys
    by (induction ys arbitrary: x) auto
  then show "min_by lt xs = Some m \<Longrightarrow> m \<in> set xs"
    by (cases xs) (auto simp: min_by_def)
qed

lemma min_by_path_least:
  assumes "min_by path_less xs = Some m" and "y \<in> set xs"
  shows "fst m \<le> fst y"
proof -
  have "\<forall>y \<in> set (x # ys). fst (fold (\<lambda>y m. if path_less y m then y else m) ys x) \<le> fst y" for x ys
  proof (induction ys arbitrary: x)
    case (Cons z ys)
    show ?case
      using Cons.IH [of x] Cons.IH [of z] by (fastforce simp: path_less_def)
  qed simp
  then show ?thesis using assms by (cases xs) (auto simp: min_by_def)
qed

lemma min_by_none: "min_by lt xs = None \<longleftrightarrow> xs = []"
  by (simp add: min_by_def split: list.split)

end
