(* ===== verification/Pong_Limiter.thy ===== *)
theory Pong_Limiter
  imports Window_Limits
begin

text \<open>
  The ceiling on the pongs of one attempt (\<open>punch.rs\<close>, \<open>PongLimiter\<close>): a token bucket over
  one second windows and the memory of the ids already answered. It provides both interfaces
  of \<open>Window_Limits\<close>.
\<close>

definition PONG_ANSWERS_PER_SECOND :: u32 where "PONG_ANSWERS_PER_SECOND = 64"
definition ANSWERED_TX_MEMORY :: nat where "ANSWERED_TX_MEMORY = 4096"

record pong_limiter =
  pn_window_start :: instant
  pn_answered_in_window :: u32
  pn_seen :: "bytes set"
  pn_order :: "bytes list"

definition pong_limiter_new :: "instant \<Rightarrow> pong_limiter" where
  "pong_limiter_new now =
     \<lparr>pn_window_start = now, pn_answered_in_window = 0, pn_seen = {}, pn_order = []\<rparr>"

definition pong_remember :: "bytes \<Rightarrow> bytes set \<times> bytes list \<Rightarrow> (bytes set \<times> bytes list) \<times> bool" where
  "pong_remember = remember_once ANSWERED_TX_MEMORY"

definition may_answer :: "instant \<Rightarrow> bytes \<Rightarrow> pong_limiter \<Rightarrow> pong_limiter \<times> bool" where
  "may_answer now tx l =
     (let l = (if from_secs 1 \<le> duration_since now (pn_window_start l)
               then l\<lparr>pn_window_start := now, pn_answered_in_window := 0\<rparr> else l) in
      if PONG_ANSWERS_PER_SECOND \<le> pn_answered_in_window l then (l, False)
      else
        (case pong_remember tx (pn_seen l, pn_order l) of
           (_, False) \<Rightarrow> (l, False)
         | ((seen, order), True) \<Rightarrow>
             (l\<lparr>pn_seen := seen, pn_order := order,
                pn_answered_in_window := sat_inc32 (pn_answered_in_window l)\<rparr>, True)))"

interpretation pong_memory: bounded_memory snd pong_remember "memory_wf ANSWERED_TX_MEMORY" ANSWERED_TX_MEMORY
  unfolding pong_remember_def by (rule bounded_memory_once)

lemma may_answer_window:
  fixes now l
  defines "m \<equiv> (if from_secs 1 \<le> duration_since now (pn_window_start l)
               then l\<lparr>pn_window_start := now, pn_answered_in_window := 0\<rparr> else l)"
  shows "pn_window_start (fst (may_answer now tx l)) = pn_window_start m"
    and "unat (pn_answered_in_window (fst (may_answer now tx l))) =
      unat (pn_answered_in_window m) + of_bool (snd (may_answer now tx l))"
    and "snd (may_answer now tx l) \<Longrightarrow> unat (pn_answered_in_window m) < 64"
proof -
  obtain seen order ok where r: "pong_remember tx (pn_seen m, pn_order m) = ((seen, order), ok)"
    by (metis surj_pair)
  have answer: "may_answer now tx l =
     (if PONG_ANSWERS_PER_SECOND \<le> pn_answered_in_window m \<or> \<not> ok then (m, False)
      else (m\<lparr>pn_seen := seen, pn_order := order,
              pn_answered_in_window := sat_inc32 (pn_answered_in_window m)\<rparr>, True))"
    unfolding may_answer_def m_def [symmetric] Let_def r by (cases ok) simp_all
  show "pn_window_start (fst (may_answer now tx l)) = pn_window_start m"
    unfolding answer by simp
  show "unat (pn_answered_in_window (fst (may_answer now tx l))) =
      unat (pn_answered_in_window m) + of_bool (snd (may_answer now tx l))"
    unfolding answer by (simp add: PONG_ANSWERS_PER_SECOND_def unat_sat_inc32_below [where k = 64] not_le)
  show "unat (pn_answered_in_window m) < 64" if "snd (may_answer now tx l)"
    using that unfolding answer
    by (simp add: PONG_ANSWERS_PER_SECOND_def not_le word_less_nat_alt split: if_split_asm)
qed

interpretation pong_window: fixed_window pn_window_start "\<lambda>l. unat (pn_answered_in_window l)" may_answer 64
proof unfold_locales
  fix now :: instant and tx s
  note w = may_answer_window [where now = now and l = s and tx = tx]
  show "pn_window_start (fst (may_answer now tx s)) = now \<and>
      unat (pn_answered_in_window (fst (may_answer now tx s))) = of_bool (snd (may_answer now tx s))"
    if "one_second \<le> now - pn_window_start s"
    using w(1,2) that by (simp add: one_second_def duration_since_def)
  show "pn_window_start (fst (may_answer now tx s)) = pn_window_start s \<and>
      unat (pn_answered_in_window (fst (may_answer now tx s))) =
        unat (pn_answered_in_window s) + of_bool (snd (may_answer now tx s))"
    if "now - pn_window_start s < one_second"
    using w that by (simp add: one_second_def duration_since_def)
  show "unat (pn_answered_in_window (fst (may_answer now tx s))) \<le> 64"
    if "snd (may_answer now tx s)"
    using w(2) w(3) [OF that] that by simp
qed

section \<open>Runs\<close>

text \<open>The pings that were answered, each with its time, and the limiter after the run.\<close>

fun pong_answers ::
    "(instant \<times> bytes) list \<Rightarrow> pong_limiter \<Rightarrow> (instant \<times> bytes) list \<times> pong_limiter" where
  "pong_answers [] l = ([], l)"
| "pong_answers ((now, tx) # pings) l =
     (case may_answer now tx l of (l, ok) \<Rightarrow>
      case pong_answers pings l of (log, l) \<Rightarrow> (if ok then (now, tx) # log else log, l))"

lemma pong_answers_times:
  "map fst (fst (pong_answers pings l)) = map fst (pong_window.admitted pings l)"
proof (induction pings arbitrary: l)
  case (Cons ping pings)
  obtain now tx where ping: "ping = (now, tx)" by (cases ping)
  then show ?case
    using Cons.IH [of "fst (may_answer now tx l)"] by (simp add: Let_def split_beta)
qed simp

lemma may_answer_memory:
  assumes "may_answer now tx l = (l', ok)"
  shows "if ok then snd (pong_remember tx (pn_seen l, pn_order l)) \<and>
       (pn_seen l', pn_order l') = fst (pong_remember tx (pn_seen l, pn_order l))
     else (pn_seen l', pn_order l') = (pn_seen l, pn_order l)"
  using assms by (auto simp: may_answer_def Let_def split: if_split_asm prod.split_asm bool.split_asm)

lemma pong_answers_memory:
  assumes "memory_wf ANSWERED_TX_MEMORY (pn_seen l, pn_order l)"
    and "pong_memory.remembers log (pn_seen l, pn_order l)" and "pong_memory.spaced log"
    and "pong_answers pings l = (new, l')"
  shows "pong_memory.spaced (log @ map snd new) \<and>
    memory_wf ANSWERED_TX_MEMORY (pn_seen l', pn_order l') \<and>
    pong_memory.remembers (log @ map snd new) (pn_seen l', pn_order l')"
  using assms
proof (induction pings arbitrary: log l new)
  case (Cons ping pings)
  obtain now tx where ping: "ping = (now, tx)" by (cases ping)
  obtain l1 ok where m: "may_answer now tx l = (l1, ok)" by (cases "may_answer now tx l")
  obtain rest where rest: "pong_answers pings l1 = (rest, l')"
    using Cons.prems(4) by (auto simp: ping m split: prod.splits)
  have new: "new = (if ok then (now, tx) # rest else rest)"
    using Cons.prems(4) by (simp add: ping m rest)
  let ?log = "if ok then log @ [tx] else log"
  have step: "memory_wf ANSWERED_TX_MEMORY (pn_seen l1, pn_order l1) \<and>
      pong_memory.remembers ?log (pn_seen l1, pn_order l1) \<and> pong_memory.spaced ?log"
    using may_answer_memory [OF m] pong_memory.accept_step [OF Cons.prems(1-3), of tx] Cons.prems(1-3)
    by (cases ok) simp_all
  have "log @ map snd new = ?log @ map snd rest" by (simp add: new)
  then show ?case
    using Cons.IH [OF _ _ _ rest, of ?log] step by auto
qed auto

end
