(* ===== verification/Net_Props.thy ===== *)
theory Net_Props
  imports Discovery Attempt_Laws Pong_Limiter
begin

text \<open>
  The properties of the doorbell and of same-network discovery: the packets, the candidate
  table and the upgrade rule, the limits, and what one announce can do.
\<close>

section \<open>Packets\<close>

text \<open>C32: A probe is accepted under a key exactly when it is the encoding, under that key, of
  a well-formed ping or pong: the decoder is the inverse of the encoder, accepts no other
  bytes, and everything it accepts passes the test that tells a probe from a QUIC packet.\<close>

theorem probe_codec:
  assumes "hash_lengths K"
  shows "(probe_decode K key bs = Some p \<longleftrightarrow>
       probe_wf p \<and> pr_kind p \<in> {PROBE_PING, PROBE_PONG} \<and> bs = probe_encode K key p) \<and>
    (probe_wf p \<longrightarrow> is_probe (probe_encode K key p))"
proof (intro conjI impI)
  show "probe_decode K key bs = Some p \<longleftrightarrow>
      probe_wf p \<and> pr_kind p \<in> {PROBE_PING, PROBE_PONG} \<and> bs = probe_encode K key p"
    unfolding insert_iff empty_iff using probe_decode_encode [OF assms] probe_encode_decode by blast
  assume "probe_wf p"
  then show "is_probe (probe_encode K key p)"
    using length_probe_encode [OF assms] by (simp add: is_probe_def probe_encode_def probe_plain_def)
qed

definition demo_ping :: probe where
  "demo_ping = \<lparr>pr_kind = PROBE_PING, pr_attempt = replicate 16 1, pr_tx = replicate 8 2,
     pr_observed = ADDR_DEFAULT\<rparr>"

theorem probe_codec_witness:
  "probe_decode demo_crypto zero32 (probe_encode demo_crypto zero32 demo_ping) = Some demo_ping \<and>
   is_probe (probe_encode demo_crypto zero32 demo_ping)"
proof -
  have "probe_wf demo_ping" by (simp add: demo_ping_def probe_wf_def addr_wf_def ADDR_DEFAULT_def)
  moreover have "pr_kind demo_ping \<in> {PROBE_PING, PROBE_PONG}" by (simp add: demo_ping_def)
  ultimately show ?thesis using probe_codec [OF hash_lengths_demo] by blast
qed

text \<open>A porch frame that is encoded is read back, whatever bytes follow it, unless it
  lists more than 16 addresses, which is refused with its own error; and whatever bytes
  arrive, a frame that is accepted has fields of the right lengths and at most 16 addresses.\<close>

theorem porch_codec:
  assumes "minicbor_contract C"
  shows "(porch_wf f \<longrightarrow>
       porch_from_cbor C (porch_to_cbor C f @ rest) =
         (if porch_capped f then Inr f
          else Inl (DecodeMessage ''Candidates.addrs exceeds its cap''))) \<and>
    (porch_from_cbor C bs = Inr f \<longrightarrow> porch_wf f \<and> porch_capped f)"
  using minicbor_contract.porch_round_trip [OF assms] porch_from_cbor_sound by blast

theorem porch_codec_witness:
  "porch_from_cbor rfc8949 (porch_to_cbor rfc8949
     (Candidates 1 (replicate 16 7) [ADDR_DEFAULT] zero32 True) @ [0]) =
   Inr (Candidates 1 (replicate 16 7) [ADDR_DEFAULT] zero32 True)"
proof -
  let ?f = "Candidates 1 (replicate 16 7) [ADDR_DEFAULT] zero32 True"
  have "porch_wf ?f" "porch_capped ?f"
    by (simp_all add: addr_wf_def ADDR_DEFAULT_def MAX_CANDIDATES_def)
  then show ?thesis using porch_codec [OF rfc.minicbor_contract_axioms, of ?f "[0]"] by simp
qed

text \<open>C33: An announce is accepted exactly when it is the frame of a well-formed announce for
  this community, from a friend, with a signature that verifies under the announced key over
  the context and the first 80 bytes.\<close>

theorem announce_accepted_iff:
  "announce_decode K bs community is_friend = Inr a \<longleftrightarrow>
     announce_wf a \<and> an_community a = community \<and> is_friend (an_key a) \<and>
     (\<exists>sig. length sig = 64 \<and> bs = announce_plain a @ sig \<and>
        verify K (an_key a) (ANNOUNCE_SIGNING_CONTEXT @ announce_plain a) sig = Inr ())"
  by (rule announce_decode_iff)

section \<open>The candidate table\<close>

text \<open>\<open>gather\<close> is the first 16 of the addresses that may be offered, local ones before
  reflections before discovered ones, each address once and with the source it was first met
  under.\<close>

theorem gather_reference_equiv:
  "gather local reflections discovered = gather_reference local reflections discovered \<and>
   distinct (map fst (gather local reflections discovered)) \<and>
   length (gather local reflections discovered) \<le> 16 \<and>
   list_all (\<lambda>(a, _). is_gatherable a) (gather local reflections discovered)"
proof (intro conjI)
  show eq: "gather local reflections discovered = gather_reference local reflections discovered"
    by (rule gather_eq_reference)
  show "distinct (map fst (gather local reflections discovered))"
    unfolding eq gather_reference_def take_map [symmetric]
    by (rule distinct_take [OF first_of_each_distinct])
  show "length (gather local reflections discovered) \<le> 16"
    unfolding eq by (simp add: gather_reference_def MAX_CANDIDATES_def)
  have "set (gather local reflections discovered) \<subseteq> set (offered local reflections discovered)"
    unfolding eq gather_reference_def
    using set_take_subset first_of_each_subset by (rule subset_trans)
  then show "list_all (\<lambda>(a, _). is_gatherable a) (gather local reflections discovered)"
    by (auto simp: list_all_iff offered_def)
qed

text \<open>The addresses that the gate's reflection and the calls stand behind.\<close>

definition stood_behind :: "socket_addr option \<Rightarrow> attempt_call list \<Rightarrow> socket_addr set" where
  "stood_behind reflected calls =
     (case reflected of None \<Rightarrow> {} | Some r \<Rightarrow> {unmap_v4 r}) \<union> \<Union> (call_vouches ` set calls)"

text \<open>C34: Whatever calls are made on an attempt, none of them panics while the times of the
  pongs leave room for the estimator, and the table keeps its rules: at most 16 candidates,
  no address twice, each in unmapped form and worth probing; an address that the peer named
  is globally routable, or the gate's reflection, the vouching or a discovery of this attempt
  stands behind it; and discovery never holds more than its 4 slots.\<close>

theorem attempt_admission:
  assumes "8 * b \<le> duration_max" and "list_all (call_within b) calls"
  shows "\<exists>a. attempt_run K calls (attempt_new i key reflected) = Some a \<and>
    length (at_candidates a) \<le> 16 \<and> distinct (map cd_addr (at_candidates a)) \<and>
    (\<forall>c \<in> set (at_candidates a).
       unmapped (cd_addr c) \<and> is_probeable (cd_addr c) \<and>
       (cd_source c = PeerReported \<longrightarrow>
          is_globally_routable (cd_addr c) \<or> cd_addr c \<in> stood_behind reflected calls)) \<and>
    (list_all call_not_discovery calls \<longrightarrow>
       length (filter (\<lambda>c. cd_source c = Discovery) (at_candidates a)) \<le> 4)"
proof -
  let ?V = "stood_behind reflected calls"
  have new: "attempt_ok ?V b (attempt_new i key reflected)"
    "discovery_slots_ok (attempt_new i key reflected)"
    using attempt_new_ok [of reflected ?V b i key] by (auto simp: stood_behind_def)
  obtain a where run: "attempt_run K calls (attempt_new i key reflected) = Some a"
    and ok: "attempt_ok ?V b a" and slots: "list_all call_not_discovery calls \<longrightarrow> discovery_slots_ok a"
    using attempt_run_ok [OF new(1) assms(1,2), of K] new(2) by (auto simp: stood_behind_def)
  show ?thesis
  proof (intro exI conjI)
    show "attempt_run K calls (attempt_new i key reflected) = Some a" by (rule run)
    show "length (at_candidates a) \<le> 16" "distinct (map cd_addr (at_candidates a))"
      using ok by (simp_all add: attempt_ok_def MAX_CANDIDATES_def)
    show "\<forall>c \<in> set (at_candidates a).
       unmapped (cd_addr c) \<and> is_probeable (cd_addr c) \<and>
       (cd_source c = PeerReported \<longrightarrow> is_globally_routable (cd_addr c) \<or> cd_addr c \<in> ?V)"
      using ok by (simp add: attempt_ok_def)
    show "list_all call_not_discovery calls \<longrightarrow>
       length (filter (\<lambda>c. cd_source c = Discovery) (at_candidates a)) \<le> 4"
      using slots by (simp add: discovery_slots_ok_def DISCOVERY_CANDIDATE_SLOTS_def)
  qed
qed

text \<open>A path wins only by three answers in a row. In any attempt that calls have built,
  \<open>decide\<close> names a winner exactly when there is none yet and some candidate has answered
  three consecutive probes; the winner is such a candidate, its round trip is the mean of the
  last three answers of its streak, and no other such candidate has a lower one.\<close>

theorem winner_earned:
  assumes "8 * b \<le> duration_max" and "list_all (call_within b) calls"
    and "attempt_run K calls (attempt_new i key reflected) = Some a"
  shows "\<exists>a' w. decide a = Some (a', w) \<and>
    (w = None \<longleftrightarrow> at_winner a \<noteq> None \<or> (\<forall>c \<in> set (at_candidates a). unat (cd_consecutive c) < 3)) \<and>
    (\<forall>win. w = Some win \<longrightarrow> at_winner a' = Some win \<and>
       (\<exists>c \<in> set (at_candidates a). cd_addr c = wn_addr win \<and> 3 \<le> unat (cd_consecutive c) \<and>
          length (cd_recent c) = 3 \<and> wn_rtt win = sum_list (cd_recent c) div 3) \<and>
       (\<forall>c \<in> set (at_candidates a). 3 \<le> unat (cd_consecutive c) \<longrightarrow>
          wn_rtt win \<le> sum_list (cd_recent c) div 3))"
proof -
  let ?V = "stood_behind reflected calls"
  have new: "attempt_ok ?V b (attempt_new i key reflected)"
    using attempt_new_ok [of reflected ?V b i key] by (auto simp: stood_behind_def)
  have ok: "attempt_ok ?V b a"
    using attempt_run_ok [OF new assms(1,2), of K] assms(3) by (auto simp: stood_behind_def)
  have proved: "CONSECUTIVE_PONGS_TO_WIN \<le> cd_consecutive c \<longleftrightarrow> 3 \<le> unat (cd_consecutive c)" for c
    by (simp add: CONSECUTIVE_PONGS_TO_WIN_def word_le_nat_alt)
  let ?paths = "map (\<lambda>c. (sum_list (cd_recent c) div 3, cd_addr c))
    (filter (\<lambda>c. 3 \<le> unat (cd_consecutive c)) (at_candidates a))"
  note decide = decide_some [OF ok assms(1), unfolded proved]
  show ?thesis
  proof (cases "at_winner a \<noteq> None \<or> min_by path_less ?paths = None")
    case True
    then have "decide a = Some (a, None)" using decide by auto
    moreover have "at_winner a \<noteq> None \<or> (\<forall>c \<in> set (at_candidates a). unat (cd_consecutive c) < 3)"
      using True by (auto simp: min_by_none filter_empty_conv not_le)
    ultimately show ?thesis by simp
  next
    case False
    then obtain rtt addr where m: "min_by path_less ?paths = Some (rtt, addr)" by auto
    let ?w = "\<lparr>wn_addr = addr, wn_rtt = rtt\<rparr>"
    have d: "decide a = Some (a\<lparr>at_winner := Some ?w\<rparr>, Some ?w)" using decide m False by simp
    obtain c where c: "c \<in> set (at_candidates a)" "3 \<le> unat (cd_consecutive c)"
      "rtt = sum_list (cd_recent c) div 3" "addr = cd_addr c"
      using min_by_member [OF m] by auto
    have "length (cd_recent c) = 3"
      using ok c(1,2) by (auto simp: attempt_ok_def streak_ok_def)
    moreover have "rtt \<le> sum_list (cd_recent e) div 3"
      if "e \<in> set (at_candidates a)" "3 \<le> unat (cd_consecutive e)" for e
      using min_by_path_least [OF m, of "(sum_list (cd_recent e) div 3, cd_addr e)"] that by auto
    moreover have "\<not> (at_winner a \<noteq> None \<or> (\<forall>c \<in> set (at_candidates a). unat (cd_consecutive c) < 3))"
      using False c(1,2) by (auto simp: not_le [symmetric])
    ultimately show ?thesis using d c by auto
  qed
qed

text \<open>A peer on the same network: it names its private address, which is vouched for, and
  answers three probes, 100 ms apart, each after 10 ms.\<close>

definition demo_lan :: socket_addr where "demo_lan = V4 [192, 168, 1, 7] 4000"

definition demo_pong :: "nat \<Rightarrow> probe" where
  "demo_pong n = \<lparr>pr_kind = PROBE_PONG, pr_attempt = replicate 16 0, pr_tx = replicate 8 (of_nat n),
     pr_observed = ADDR_DEFAULT\<rparr>"

definition demo_calls :: "attempt_call list" where
  "demo_calls = [VouchFor demo_lan, AddPeerCandidates [from_socket_addr demo_lan], StartSignal 0,
     DueProbes (from_millis 200) (\<lambda>_. replicate 8 0), PongFrom demo_lan (demo_pong 0) (from_millis 210),
     DueProbes (from_millis 300) (\<lambda>_. replicate 8 1), PongFrom demo_lan (demo_pong 1) (from_millis 310),
     DueProbes (from_millis 400) (\<lambda>_. replicate 8 2), PongFrom demo_lan (demo_pong 2) (from_millis 410)]"

definition demo_won :: attempt where
  "demo_won = \<lparr>at_id = replicate 16 0, at_key = zero32, at_vouched = [demo_lan],
     at_fire_at = Some (from_millis 200),
     at_candidates = [\<lparr>cd_addr = demo_lan, cd_source = PeerReported, cd_consecutive = 3,
       cd_recent = [from_millis 10, from_millis 10, from_millis 10],
       cd_srtt = Some (from_millis 10), cd_outstanding = [], cd_last_sent = Some (from_millis 400),
       cd_given_up = False\<rparr>],
     at_discovery_candidates = 0, at_winner = None\<rparr>"

lemma demo_calls_within: "list_all (call_within (from_secs 1)) demo_calls" "8 * from_secs 1 \<le> duration_max"
  by (simp_all add: demo_calls_def from_millis_def from_secs_def duration_max_def)

text \<open>One ping to the only candidate, and its answer.\<close>

lemma one_ping:
  assumes "at_candidates a = [c]" and "at_fire_at a = Some fire" and "at_winner a = None"
    and "fire \<le> now" and "now - fire < PROBE_FAST_WINDOW" and "\<not> cd_given_up c"
    and "cd_outstanding c = []"
    and "case cd_last_sent c of None \<Rightarrow> True | Some l \<Rightarrow> PROBE_FAST_INTERVAL \<le> now - l"
  shows "attempt_apply K (DueProbes now tx_ids) a =
     Some (a\<lparr>at_candidates := [c\<lparr>cd_outstanding := [(tx_ids 0, now)], cd_last_sent := Some now\<rparr>]\<rparr>)"
proof -
  have "\<not> PROBE_GIVE_UP \<le> now - fire"
    using assms(5) by (simp add: PROBE_GIVE_UP_def PROBE_FAST_WINDOW_def from_secs_def)
  moreover have "ping_due now PROBE_FAST_INTERVAL c"
    using assms(6,8) by (auto simp: ping_due_def duration_since_def split: option.splits)
  ultimately show ?thesis
    using assms(1-5,7)
    by (simp add: due_probes_def duration_since_def ping_candidate_def)
qed

lemma one_pong:
  assumes "at_candidates a = [c]" and "at_winner a = None" and "pr_kind p = PROBE_PONG"
    and "pr_attempt p = at_id a" and "cd_outstanding c = [(pr_tx p, sent)]"
    and "record_rtt (now - sent) (c\<lparr>cd_outstanding := []\<rparr>) = Some c'"
  shows "attempt_apply K (PongFrom (cd_addr c) p now) a =
     Some (a\<lparr>at_candidates := [c'\<lparr>cd_consecutive := sat_inc32 (cd_consecutive c')\<rparr>]\<rparr>)"
  using assms by (simp add: attempt_on_pong_def pong_candidate_def duration_since_def)

definition demo_stage :: "nat \<Rightarrow> (bytes, instant) hashmap \<Rightarrow> instant option \<Rightarrow> attempt" where
  "demo_stage n out sent = \<lparr>at_id = replicate 16 0, at_key = zero32, at_vouched = [demo_lan],
     at_fire_at = Some (from_millis 200),
     at_candidates = [\<lparr>cd_addr = demo_lan, cd_source = PeerReported, cd_consecutive = of_nat n,
       cd_recent = replicate n (from_millis 10),
       cd_srtt = (if n = 0 then None else Some (from_millis 10)), cd_outstanding = out,
       cd_last_sent = sent, cd_given_up = False\<rparr>],
     at_discovery_candidates = 0, at_winner = None\<rparr>"

lemma demo_lan_facts: "unmap_v4 demo_lan = demo_lan" "is_probeable demo_lan"
  "to_socket_addr (from_socket_addr demo_lan) = Some demo_lan"
  by (simp_all add: demo_lan_def is_probeable_def v4_is_broadcast_def from_socket_addr_def
      to_socket_addr_def replicate_numeral)

lemma demo_ping_stage:
  assumes "200 \<le> t" "t < 3000" "case sent of None \<Rightarrow> True | Some l \<Rightarrow> l + 100000000 \<le> from_millis t"
  shows "attempt_apply K (DueProbes (from_millis t) (\<lambda>_. tx)) (demo_stage n [] sent) =
     Some (demo_stage n [(tx, from_millis t)] (Some (from_millis t)))"
  by (subst one_ping)
    (use assms in \<open>auto simp: demo_stage_def PROBE_FAST_WINDOW_def PROBE_FAST_INTERVAL_def
      from_secs_def from_millis_def split: option.splits\<close>)

lemma demo_pong_stage:
  assumes "n = 0 \<or> n = 1 \<or> n = 2"
  shows "attempt_apply K (PongFrom demo_lan (demo_pong k) (from_millis (t + 10)))
      (demo_stage n [(replicate 8 (of_nat k), from_millis t)] sent) = Some (demo_stage (n + 1) [] sent)"
proof -
  let ?c = "hd (at_candidates (demo_stage n [(replicate 8 (of_nat k), from_millis t)] sent))"
  have rtt: "from_millis (t + 10) - from_millis t = from_millis 10" by (simp add: from_millis_def)
  have "record_rtt (from_millis 10) (?c\<lparr>cd_outstanding := []\<rparr>) =
      Some (?c\<lparr>cd_outstanding := [], cd_recent := replicate (n + 1) (from_millis 10),
        cd_srtt := Some (from_millis 10)\<rparr>)"
    using assms by (elim disjE)
      (simp_all add: demo_stage_def record_rtt_def keep_recent_def CONSECUTIVE_PONGS_TO_WIN_def
        checked_def duration_max_def from_millis_def replicate_numeral Let_def)
  moreover have "sat_inc32 (of_nat n) = of_nat (n + 1)" using assms by (auto simp: sat_inc32_def)
  ultimately show ?thesis
    using one_pong [of "demo_stage n [(replicate 8 (of_nat k), from_millis t)] sent" ?c "demo_pong k"
        "from_millis t" "from_millis (t + 10)" _ K] rtt assms
    by (simp add: demo_stage_def demo_pong_def)
qed

lemma demo_calls_run:
  "attempt_run demo_crypto demo_calls (attempt_new (replicate 16 0) zero32 None) = Some demo_won"
proof -
  have start: "start_signal_received 0 (fst (add_peer_candidates [from_socket_addr demo_lan]
      (vouch demo_lan (attempt_new (replicate 16 0) zero32 None)))) = demo_stage 0 [] None"
    by (simp add: attempt_new_def vouch_def Let_def demo_lan_facts add_candidate_def candidate_new_def
        MAX_CANDIDATES_def start_signal_received_def FIRE_IN_MS_def demo_stage_def)
  have "demo_won = demo_stage 3 [] (Some (from_millis 400))"
    by (simp add: demo_won_def demo_stage_def replicate_numeral)
  moreover have "attempt_apply K (DueProbes (from_millis 200) (\<lambda>_. replicate 8 0)) (demo_stage 0 [] None) =
      Some (demo_stage 0 [(replicate 8 (of_nat 0), from_millis 200)] (Some (from_millis 200)))" for K
    using demo_ping_stage [of 200 None] by simp
  moreover have "attempt_apply K (DueProbes (from_millis 300) (\<lambda>_. replicate 8 1))
      (demo_stage 1 [] (Some (from_millis 200))) =
      Some (demo_stage 1 [(replicate 8 (of_nat 1), from_millis 300)] (Some (from_millis 300)))" for K
    using demo_ping_stage [of 300 "Some (from_millis 200)"] by (simp add: from_millis_def)
  moreover have "attempt_apply K (DueProbes (from_millis 400) (\<lambda>_. replicate 8 2))
      (demo_stage 2 [] (Some (from_millis 300))) =
      Some (demo_stage 2 [(replicate 8 (of_nat 2), from_millis 400)] (Some (from_millis 400)))" for K
    using demo_ping_stage [of 400 "Some (from_millis 300)"] by (simp add: from_millis_def)
  moreover have "attempt_apply K (PongFrom demo_lan (demo_pong 0) (from_millis 210))
      (demo_stage 0 [(replicate 8 (of_nat 0), from_millis 200)] s) = Some (demo_stage 1 [] s)" for K s
    using demo_pong_stage [of 0 K 0 200] by simp
  moreover have "attempt_apply K (PongFrom demo_lan (demo_pong 1) (from_millis 310))
      (demo_stage 1 [(replicate 8 (of_nat 1), from_millis 300)] s) = Some (demo_stage 2 [] s)" for K s
    using demo_pong_stage [of 1 K 1 300] by (simp add: numeral_2_eq_2)
  moreover have "attempt_apply K (PongFrom demo_lan (demo_pong 2) (from_millis 410))
      (demo_stage 2 [(replicate 8 (of_nat 2), from_millis 400)] s) = Some (demo_stage 3 [] s)" for K s
    using demo_pong_stage [of 2 K 2 400] by (simp add: numeral_3_eq_3)
  ultimately show ?thesis
    by (simp add: demo_calls_def start del: attempt_apply.simps(6,7) add_peer_candidates.simps
        of_nat_0 of_nat_1 of_nat_numeral One_nat_def)
qed

theorem attempt_admission_witness:
  "\<exists>a. attempt_run demo_crypto demo_calls (attempt_new (replicate 16 0) zero32 None) = Some a \<and>
     length (at_candidates a) \<le> 16 \<and> distinct (map cd_addr (at_candidates a))"
  using attempt_admission [OF demo_calls_within(2,1), of demo_crypto "replicate 16 0" zero32 None]
  by blast

theorem winner_earned_witness:
  "\<exists>a' w. decide demo_won = Some (a', w) \<and> w \<noteq> None \<and>
     (\<exists>win. w = Some win \<and> wn_addr win = demo_lan \<and> wn_rtt win = from_millis 10)"
proof -
  obtain a' w where d: "decide demo_won = Some (a', w)"
    and w: "w = None \<longleftrightarrow> at_winner demo_won \<noteq> None \<or>
      (\<forall>c \<in> set (at_candidates demo_won). unat (cd_consecutive c) < 3)"
    and win: "\<forall>win. w = Some win \<longrightarrow> at_winner a' = Some win \<and>
       (\<exists>c \<in> set (at_candidates demo_won). cd_addr c = wn_addr win \<and> 3 \<le> unat (cd_consecutive c) \<and>
          length (cd_recent c) = 3 \<and> wn_rtt win = sum_list (cd_recent c) div 3) \<and>
       (\<forall>c \<in> set (at_candidates demo_won). 3 \<le> unat (cd_consecutive c) \<longrightarrow>
          wn_rtt win \<le> sum_list (cd_recent c) div 3)"
    using winner_earned [OF demo_calls_within(2,1) demo_calls_run] by blast
  have "w \<noteq> None" using w by (simp add: demo_won_def)
  then obtain v where v: "w = Some v" by auto
  then have "wn_addr v = demo_lan" "wn_rtt v = from_millis 10"
    using win by (auto simp: demo_won_def from_millis_def)
  then show ?thesis using d v by blast
qed

section \<open>Discovery and the limits\<close>

fun in_order_times :: "instant \<Rightarrow> instant list \<Rightarrow> bool" where
  "in_order_times t [] \<longleftrightarrow> True"
| "in_order_times t (now # ts) \<longleftrightarrow> t \<le> now \<and> in_order_times now ts"

lemma in_order_times_sorted: "sorted (t # ts) \<Longrightarrow> in_order_times t ts"
  by (induction ts arbitrary: t) auto

lemma pong_in_order: "pong_window.in_order t calls = in_order_times t (map fst calls)"
proof (induction calls arbitrary: t)
  case (Cons c calls)
  then show ?case by (cases c) (simp only: pong_window.in_order.simps list.map fst_conv in_order_times.simps)
qed (simp only: pong_window.in_order.simps list.map in_order_times.simps)

lemma packet_in_order: "packet_window.in_order t calls = in_order_times t (map fst calls)"
proof (induction calls arbitrary: t)
  case (Cons c calls)
  then show ?case by (cases c) (simp only: packet_window.in_order.simps list.map fst_conv in_order_times.simps)
qed (simp only: packet_window.in_order.simps list.map in_order_times.simps)

lemma filter_times_length:
  "length (filter (\<lambda>(t, _). P t) xs) = length (filter P (map fst xs))"
  by (induction xs) auto

text \<open>One datagram. An address enters the cache only from a datagram that is the signed
  announce of a friend, for this community and not by this device, stamped within 60 seconds
  of the clock and not among the announces remembered; the address is the source of the
  datagram with the announced port, and it is a local one. The answer is a unicast to the
  source exactly when nothing was known about the friend. A datagram that is dropped leaves
  the cache as it is and is counted once; one that is dropped before its signature verified
  leaves the replay guard and the keys heard from as they are.\<close>

theorem datagram_outcome:
  "case on_datagram K bs src now now_unix is_friend d of
     (d', Discovered x r) \<Rightarrow>
       (\<exists>a sig. announce_wf a \<and> length sig = 64 \<and> bs = announce_plain a @ sig \<and>
          verify K (an_key a) (ANNOUNCE_SIGNING_CONTEXT @ announce_plain a) sig = Inr () \<and>
          an_community a = ds_community d \<and> is_friend (an_key a) \<and> an_key a \<noteq> ds_own_key d \<and>
          abs_diff (unat now_unix) (unat (an_sent_unix a)) \<le> 60 \<and>
          announce_triple a \<notin> rg_seen (ds_replay d) \<and>
          x = \<lparr>dd_key = an_key a, dd_addr = unmap_v4 (with_port src (an_port a))\<rparr> \<and>
          source_is_local d (dd_addr x) \<and>
          r = (if cache_addresses (ds_cache d) (an_key a) = [] then Unicast src else NoReply) \<and>
          ds_cache d' = remember (an_key a) (dd_addr x) candidate_source.Discovery now (ds_cache d) \<and>
          ds_counters d' = (ds_counters d)\<lparr>dc_accepted := sat_inc64 (dc_accepted (ds_counters d))\<rparr>)
   | (d', Dropped e) \<Rightarrow>
       ds_cache d' = ds_cache d \<and> ds_counters d' = count_drop e (ds_counters d) \<and>
       (e \<in> {RateLimited, OutsideWindow, Replayed, SourceNotLocal} \<or>
        ds_replay d' = ds_replay d \<and> rl_last_from (ds_limiter d') = rl_last_from (ds_limiter d) \<and>
        rl_order (ds_limiter d') = rl_order (ds_limiter d))"
proof -
  obtain d' h where run: "on_datagram K bs src now now_unix is_friend d = (d', h)"
    by (cases "on_datagram K bs src now now_unix is_friend d")
  from run show ?thesis
  proof (cases rule: on_datagram_cases)
    case (dropped e limiter)
    have "limiter = fst (admit_packet now (ds_limiter d))" using dropped(2) by simp
    then show ?thesis using run dropped(1,3) by simp
  next
    case (verified a limiter)
    obtain sig where sig: "announce_wf a" "length sig = 64" "bs = announce_plain a @ sig"
      "an_community a = ds_community d" "is_friend (an_key a)"
      using verified(2,3) by (auto simp: parse_unverified_iff)
    have v: "verify K (an_key a) (ANNOUNCE_SIGNING_CONTEXT @ announce_plain a) sig = Inr ()"
      using verified(4) sig(1-3) length_announce_plain [OF sig(1)]
      by (simp add: verify_signature_def ANNOUNCE_LEN_def split: sum.split_asm)
    show ?thesis
    proof (cases h)
      case (Discovered x r)
      note out = on_verified_discovered [OF verified(5) [unfolded Discovered]]
      have "source_is_local d (dd_addr x)" using out(4) by (simp add: source_is_local_def split: if_splits)
      then show ?thesis
        unfolding run Discovered prod.case heard.case
        using sig v verified(3) out(1-3,5-7) by (intro exI [of _ a] exI [of _ sig]) simp
    next
      case (Dropped e)
      show ?thesis
        unfolding run Dropped prod.case heard.case
        using on_verified_dropped [OF verified(5) [unfolded Dropped]] by simp
    qed
  qed
qed

text \<open>Whatever pings arrive, in the order of time, an attempt answers at most 128 of them in
  any second, wherever it starts, and a probe id is answered a second time only after more
  than 4096 other answers.\<close>

theorem pong_answers_bounded:
  assumes "sorted (now # map fst pings)"
  shows "length (filter (\<lambda>(t, _). a \<le> t \<and> t < a + from_secs 1)
      (fst (pong_answers pings (pong_limiter_new now)))) \<le> 128 \<and>
    (\<forall>i j. i < j \<and> j < length (fst (pong_answers pings (pong_limiter_new now))) \<and>
       snd (fst (pong_answers pings (pong_limiter_new now)) ! i) =
       snd (fst (pong_answers pings (pong_limiter_new now)) ! j) \<longrightarrow> 4096 < j - i)"
proof -
  let ?l = "pong_limiter_new now"
  let ?new = "fst (pong_answers pings ?l)"
  have "in_order_times now (map fst pings)" using assms by (rule in_order_times_sorted)
  then have order: "pong_window.in_order now pings" by (simp add: pong_in_order)
  have "pn_window_start ?l \<le> now" by (simp add: pong_limiter_new_def)
  then have "length (filter (\<lambda>(t, _). a \<le> t \<and> t < a + one_second) (pong_window.admitted pings ?l)) \<le> 128"
    using pong_window.admitted_in_a_second [OF _ order, of ?l a] by simp
  then have rate: "length (filter (\<lambda>(t, _). a \<le> t \<and> t < a + from_secs 1) ?new) \<le> 128"
    unfolding one_second_def filter_times_length [of _ "pong_window.admitted pings ?l"]
      filter_times_length [of _ ?new] pong_answers_times .
  obtain l' where run: "pong_answers pings ?l = (?new, l')" by (metis prod.collapse)
  have "pong_memory.spaced ([] @ map snd ?new)"
    by (rule pong_answers_memory [OF _ _ _ run, THEN conjunct1])
      (simp_all add: pong_limiter_new_def memory_wf_empty pong_memory.remembers_def pong_memory.spaced_def)
  then have "\<forall>i j. i < j \<and> j < length ?new \<and> snd (?new ! i) = snd (?new ! j) \<longrightarrow> 4096 < j - i"
    unfolding pong_memory.spaced_def by (simp add: ANSWERED_TX_MEMORY_def)
  then show ?thesis using rate by blast
qed

theorem pong_answers_bounded_witness:
  "length (filter (\<lambda>(t, _). 0 \<le> t \<and> t < 0 + from_secs 1)
      (fst (pong_answers (replicate 200 (5, replicate 8 1)) (pong_limiter_new 5)))) \<le> 128"
  using pong_answers_bounded [of 5 "replicate 200 (5, replicate 8 1)" 0] by (simp add: sorted_replicate)

text \<open>Whatever arrives, in the order of time, a house lets at most 100 datagrams of any
  second reach the parser. An announce passes the replay guard exactly when it is stamped
  within 60 seconds of the clock and is not among the last 4096 that passed, so that it
  passes again only after 4096 others.\<close>

theorem discovery_bounds:
  assumes "sorted (now # arrivals)"
  shows "length (filter (\<lambda>t. b \<le> t \<and> t < b + from_secs 1)
      (packets_admitted arrivals (receive_limiter_new now))) \<le> 100 \<and>
    (case announces_admitted announces replay_guard_new of (log, g) \<Rightarrow>
       (snd (replay_admit a now_unix g) = Inr () \<longleftrightarrow>
          abs_diff (unat now_unix) (unat (an_sent_unix a)) \<le> 60 \<and>
          announce_triple a \<notin> set (drop (length log - 4096) log)) \<and>
       (\<forall>i j. i < j \<and> j < length log \<and> log ! i = log ! j \<longrightarrow> 4096 < j - i) \<and>
       length (rg_order g) \<le> 4096)"
proof -
  let ?l = "receive_limiter_new now" and ?calls = "map (\<lambda>t. (t, ())) arrivals"
  have "in_order_times now arrivals" using assms by (rule in_order_times_sorted)
  then have order: "packet_window.in_order now ?calls" by (simp add: packet_in_order comp_def)
  have "rl_window_start ?l \<le> now" by (simp add: receive_limiter_new_def)
  then have "length (filter (\<lambda>(t, _). b \<le> t \<and> t < b + one_second) (packet_window.admitted ?calls ?l)) \<le> 100"
    using packet_window.admitted_in_a_second [OF _ order, of ?l b] by simp
  then have rate: "length (filter (\<lambda>t. b \<le> t \<and> t < b + from_secs 1) (packets_admitted arrivals ?l)) \<le> 100"
    unfolding one_second_def filter_times_length packets_admitted_times .
  obtain log g where run: "announces_admitted announces replay_guard_new = (log, g)"
    by (cases "announces_admitted announces replay_guard_new")
  have ok: "guard_ok log g" using announces_admitted_ok [OF guard_ok_new run] by simp
  then have "\<forall>i j. i < j \<and> j < length log \<and> log ! i = log ! j \<longrightarrow> 4096 < j - i" "length (rg_order g) \<le> 4096"
    unfolding guard_ok_def guard_memory.spaced_def memory_wf_def
    by (simp_all add: ANNOUNCE_SEEN_REMEMBERED_def)
  then show ?thesis using rate replay_admit_step [OF ok, of a now_unix] by (simp add: run)
qed

theorem discovery_bounds_witness:
  "length (filter (\<lambda>t. 0 \<le> t \<and> t < 0 + from_secs 1)
      (packets_admitted (replicate 200 7) (receive_limiter_new 7))) \<le> 100"
  using discovery_bounds [of 7 "replicate 200 7" 0] by (simp add: sorted_replicate)

end
