(* ===== verification/F64.thy ===== *)
theory F64
  imports Prelude Complex_Main "HOL-Library.Log_Nat"
begin

text \<open>
  The \<open>f64\<close> arithmetic of the rate limiters and shapers. An operation of IEEE 754 is the exact
  one followed by \<open>f64_round\<close>, round to nearest with ties to even and 53 significant bits
  (subnormal numbers included). A value is the rational number it stands for; the code keeps
  every value finite and far below the largest \<open>f64\<close>, so infinities do not occur.
\<close>

section \<open>Rounding\<close>

text \<open>The exponent of the leading bit: \<open>2^e \<le> x < 2^(e+1)\<close>.\<close>

definition exponent :: "rat \<Rightarrow> int" where
  "exponent x =
     (case quotient_of x of (a, b) \<Rightarrow>
        (let e = int (floorlog 2 (nat a)) - int (floorlog 2 (nat b)) in
         if 2 powi e \<le> x then e else e - 1))"

definition f64_ulp :: "rat \<Rightarrow> rat" where
  "f64_ulp x = 2 powi max (exponent x - 52) (- 1074)"

definition round_even :: "rat \<Rightarrow> int" where
  "round_even y =
     (let n = \<lfloor>y\<rfloor>; f = y - of_int n in
      if f < 1 / 2 \<or> f = 1 / 2 \<and> even n then n else n + 1)"

definition f64_round :: "rat \<Rightarrow> rat" where
  "f64_round x = sgn x * (of_int (round_even (\<bar>x\<bar> / f64_ulp \<bar>x\<bar>)) * f64_ulp \<bar>x\<bar>)"

lemma powi_2_less: "(2::rat) powi m < 2 powi n \<longleftrightarrow> m < n"
proof
  show "m < n" if "(2::rat) powi m < 2 powi n"
  proof (rule ccontr)
    assume "\<not> m < n"
    then have "(2::rat) powi n \<le> 2 powi m" by (intro power_int_increasing) simp_all
    then show False using that by simp
  qed
qed (auto intro: power_int_strict_increasing)

lemma floorlog_2_bounds:
  "0 < n \<Longrightarrow> 2 ^ floorlog 2 n \<le> 2 * n \<and> n < 2 ^ floorlog 2 n"
proof -
  assume "0 < n"
  then have "2 ^ (floorlog 2 n - 1) \<le> n \<and> n < 2 ^ floorlog 2 n" by (intro floorlog_bounds) simp_all
  moreover have "floorlog 2 n \<noteq> 0" using \<open>0 < n\<close> by (simp add: floorlog_eq_zero_iff)
  then have "(2::nat) ^ floorlog 2 n = 2 * 2 ^ (floorlog 2 n - 1)" by (cases "floorlog 2 n") simp_all
  ultimately show ?thesis by simp
qed

lemma exponent_bounds:
  assumes "0 < x"
  shows "2 powi exponent x \<le> x" and "x < 2 powi (exponent x + 1)"
proof -
  obtain a b where q: "quotient_of x = (a, b)" by (cases "quotient_of x")
  have b: "0 < b" using quotient_of_denom_pos [OF q] .
  have x: "x = of_int a / of_int b" using quotient_of_div [OF q] .
  have a: "0 < a" using assms b by (simp add: x zero_less_divide_iff)
  define la lb where "la = floorlog 2 (nat a)" and "lb = floorlog 2 (nat b)"
  have "2 ^ la \<le> 2 * nat a \<and> nat a < 2 ^ la" "2 ^ lb \<le> 2 * nat b \<and> nat b < 2 ^ lb"
    unfolding la_def lb_def using a b by (intro floorlog_2_bounds; simp)+
  then have "(of_nat (2 ^ la) :: rat) \<le> of_nat (2 * nat a)" "(of_nat (nat a) :: rat) < of_nat (2 ^ la)"
    "(of_nat (2 ^ lb) :: rat) \<le> of_nat (2 * nat b)" "(of_nat (nat b) :: rat) < of_nat (2 ^ lb)"
    unfolding of_nat_le_iff of_nat_less_iff by blast+
  moreover have "(of_nat (nat a) :: rat) = of_int a" "(of_nat (nat b) :: rat) = of_int b"
    using a b by (simp_all add: of_nat_nat)
  ultimately have i: "(2::rat) ^ la \<le> 2 * of_int a" "(of_int a :: rat) < 2 ^ la"
    "(2::rat) ^ lb \<le> 2 * of_int b" "(of_int b :: rat) < 2 ^ lb"
    unfolding of_nat_power of_nat_mult of_nat_numeral by simp_all
  have pos: "(0::rat) < of_int a" "(0::rat) < of_int b" using a b by simp_all
  have up: "x < 2 powi (int la - int lb + 1)"
  proof -
    have "x * 2 ^ lb \<le> 2 * of_int a" using i(3) pos by (simp add: x field_simps)
    also have "\<dots> < 2 * 2 ^ la" using i(2) by simp
    finally show ?thesis by (simp add: power_int_add power_int_diff field_simps)
  qed
  have low: "2 powi (int la - int lb - 1) \<le> x"
  proof -
    have "2 ^ la * of_int b \<le> 2 * (of_int a :: rat) * 2 ^ lb"
      using mult_mono [OF i(1) less_imp_le [OF i(4)]] pos by simp
    then show ?thesis using pos by (simp add: x power_int_diff power_int_add field_simps)
  qed
  show "2 powi exponent x \<le> x" "x < 2 powi (exponent x + 1)"
    using up low by (simp_all add: exponent_def q Let_def not_le flip: la_def lb_def)
qed

lemma exponent_unique:
  assumes "2 powi e \<le> x" and "x < 2 powi (e + 1)"
  shows "exponent x = e"
proof -
  have "0 < x" using assms(1) zero_less_power_int [of 2 e] by (rule order_less_le_trans [rotated]) simp
  note b = exponent_bounds [OF this]
  have "(2::rat) powi e < 2 powi (exponent x + 1)" using assms(1) b(2) by (rule order_le_less_trans)
  moreover have "(2::rat) powi exponent x < 2 powi (e + 1)" using b(1) assms(2) by (rule order_le_less_trans)
  ultimately have "e < exponent x + 1" "exponent x < e + 1"
    by (simp_all add: powi_2_less)
  then show ?thesis by simp
qed

lemma exponent_mono: "0 < x \<Longrightarrow> x \<le> y \<Longrightarrow> exponent x \<le> exponent y"
proof -
  assume x: "0 < x" "x \<le> y"
  have "(2::rat) powi exponent x < 2 powi (exponent y + 1)"
    using exponent_bounds(1) [OF x(1)] exponent_bounds(2) [of y] x by linarith
  then show ?thesis by (simp add: powi_2_less)
qed

lemma f64_ulp_pos [simp]: "0 < f64_ulp x"
  by (simp add: f64_ulp_def)

lemma round_even_int [simp]: "round_even (of_int n) = n"
  by (simp add: round_even_def)

lemma round_even_error: "\<bar>of_int (round_even y) - y\<bar> \<le> 1 / 2"
proof -
  have "of_int \<lfloor>y\<rfloor> \<le> y" "y < of_int \<lfloor>y\<rfloor> + 1" by linarith+
  then show ?thesis by (auto simp: round_even_def Let_def abs_le_iff)
qed

lemma round_even_mono:
  assumes "x \<le> y"
  shows "round_even x \<le> round_even y"
proof (cases "\<lfloor>x\<rfloor> = \<lfloor>y\<rfloor>")
  case True
  then show ?thesis using assms by (auto simp: round_even_def Let_def)
next
  case False
  then have "\<lfloor>x\<rfloor> + 1 \<le> \<lfloor>y\<rfloor>" using floor_mono [OF assms] by simp
  then show ?thesis by (auto simp: round_even_def Let_def)
qed

lemma round_even_le_int: "y \<le> of_int n \<Longrightarrow> round_even y \<le> n"
  using round_even_mono [of y "of_int n"] by simp

lemma round_even_ge_int: "of_int n \<le> y \<Longrightarrow> n \<le> round_even y"
  using round_even_mono [of "of_int n" y] by simp

section \<open>The laws of rounding\<close>

lemma f64_round_pos: "0 \<le> x \<Longrightarrow> f64_round x = of_int (round_even (x / f64_ulp x)) * f64_ulp x"
  by (cases "x = 0") (simp_all add: f64_round_def round_even_def)

text \<open>A multiple of the spacing above a number is not passed, nor one below it.\<close>

lemma f64_round_le: "0 \<le> x \<Longrightarrow> x \<le> of_int n * f64_ulp x \<Longrightarrow> f64_round x \<le> of_int n * f64_ulp x"
  unfolding f64_round_pos
  by (intro mult_right_mono) (simp_all add: round_even_le_int pos_divide_le_eq less_imp_le)

lemma f64_round_ge: "0 \<le> x \<Longrightarrow> of_int n * f64_ulp x \<le> x \<Longrightarrow> of_int n * f64_ulp x \<le> f64_round x"
  unfolding f64_round_pos
  by (intro mult_right_mono) (simp_all add: round_even_ge_int pos_le_divide_eq less_imp_le)

text \<open>Powers of two from the smallest on are multiples of the spacing below and at them.\<close>

lemma powi_multiple:
  assumes "k \<le> e"
  shows "\<exists>n. (2::rat) powi e = of_int n * 2 powi k"
proof -
  have "(2::rat) powi e = 2 powi (e - k) * 2 powi k"
    by (subst power_int_add [symmetric]) simp_all
  also have "(2::rat) powi (e - k) = of_int (2 ^ nat (e - k))"
    using assms by (simp add: power_int_nonneg_exp)
  finally show ?thesis by blast
qed

lemma ulp_multiple:
  assumes "0 < x" and "exponent x \<le> e" and "- 1074 \<le> e"
  shows "\<exists>n. (2::rat) powi e = of_int n * f64_ulp x"
  unfolding f64_ulp_def using assms by (intro powi_multiple) simp

lemma f64_ulp_half:
  assumes "0 < x"
  shows "f64_ulp x / 2 \<le> x / 2 ^ 53 + 1 / 2 ^ 1075"
proof (cases "- 1074 \<le> exponent x - 52")
  case True
  have "f64_ulp x / 2 = 2 powi exponent x / 2 ^ 53"
    using True by (simp add: f64_ulp_def max_absorb1 power_int_diff)
  also have "\<dots> \<le> x / 2 ^ 53"
    using exponent_bounds(1) [OF assms] by (intro divide_right_mono) simp_all
  finally show ?thesis by (rule order_trans) simp
next
  case False
  then have "f64_ulp x / 2 = 2 powi (- 1074) / 2"
    by (simp add: f64_ulp_def max_absorb2)
  also have "\<dots> = (1::rat) / 2 ^ 1075"
    by (simp add: power_int_minus field_simps)
  finally show ?thesis using assms by simp
qed

lemma f64_round_error:
  assumes "0 \<le> x"
  shows "\<bar>f64_round x - x\<bar> \<le> x / 2 ^ 53 + 1 / 2 ^ 1075"
proof (cases "x = 0")
  case False
  with assms have x: "0 < x" by simp
  define u where "u = f64_ulp x"
  have u: "0 < u" by (simp add: u_def)
  have "f64_round x - x = (of_int (round_even (x / u)) - x / u) * u"
    using u assms by (simp add: f64_round_pos u_def [symmetric] field_simps)
  then have "\<bar>f64_round x - x\<bar> = \<bar>of_int (round_even (x / u)) - x / u\<bar> * u"
    using u by (simp add: abs_mult)
  also have "\<dots> \<le> 1 / 2 * u"
    using round_even_error u by (intro mult_right_mono) simp_all
  finally show ?thesis using f64_ulp_half [OF x] by (simp add: u_def)
qed (simp add: f64_round_def)

lemma f64_round_nonneg: "0 \<le> x \<Longrightarrow> 0 \<le> f64_round x"
  using f64_round_ge [of x 0] by simp

lemma f64_round_mono:
  assumes "0 \<le> x" and "x \<le> y"
  shows "f64_round x \<le> f64_round y"
proof (cases "x = 0")
  case True
  then show ?thesis using f64_round_nonneg assms by (simp add: f64_round_def)
next
  case False
  with assms have x: "0 < x" and y: "0 < y" by simp_all
  show ?thesis
  proof (cases "f64_ulp x = f64_ulp y")
    case True
    have "round_even (x / f64_ulp y) \<le> round_even (y / f64_ulp y)"
      using assms(2) by (intro round_even_mono divide_right_mono) (simp_all add: less_imp_le)
    then show ?thesis using x y True by (simp add: f64_round_pos mult_right_mono less_imp_le)
  next
    case False
    define e where "e = exponent y"
    have le: "exponent x \<le> e" using exponent_mono [OF x assms(2)] by (simp add: e_def)
    have "\<not> exponent x = e" "\<not> e - 52 \<le> - 1074"
      using False le by (auto simp: f64_ulp_def e_def)
    then have e: "exponent x + 1 \<le> e" "- 1074 \<le> e" using le by simp_all
    have "x \<le> 2 powi e"
      using exponent_bounds(2) [OF x] power_int_increasing [OF e(1), of "2 :: rat"] by simp
    moreover have "2 powi e \<le> y" unfolding e_def by (rule exponent_bounds(1) [OF y])
    moreover obtain n where "(2::rat) powi e = of_int n * f64_ulp x" using ulp_multiple x le e(2) by blast
    moreover obtain m where "(2::rat) powi e = of_int m * f64_ulp y"
      using ulp_multiple [OF y _ e(2)] by (auto simp: e_def)
    ultimately show ?thesis
      using f64_round_le [of x n] f64_round_ge [of y m] x y by simp
  qed
qed

lemma f64_round_nat:
  assumes "n < 2 ^ 53"
  shows "f64_round (of_nat n) = of_nat n"
proof (cases "n = 0")
  case False
  have "(2::rat) powi exponent (of_nat n) \<le> of_nat n"
    using exponent_bounds(1) [of "of_nat n"] False by simp
  also have "(of_nat n :: rat) < of_nat (2 ^ 53)" using assms by (simp only: of_nat_less_iff)
  also have "of_nat (2 ^ 53) = (2::rat) powi 53" by simp
  finally have "exponent (of_nat n) < 53" by (simp only: powi_2_less)
  moreover have "(2::rat) powi 0 < 2 powi (exponent (of_nat n) + 1)"
    using exponent_bounds(2) [of "of_nat n"] False by (simp add: order_le_less_trans [of 1 "of_nat n"])
  then have "0 \<le> exponent (of_nat n)" by (simp only: powi_2_less)
  ultimately have u: "f64_ulp (of_nat n) = 2 powi (exponent (of_nat n) - 52)" and k: "exponent (of_nat n) - 52 \<le> 0"
    by (simp_all add: f64_ulp_def)
  obtain j where "(2::rat) powi 0 = of_int j * f64_ulp (of_nat n)" using powi_multiple [OF k] unfolding u by blast
  then have eq: "of_nat n = of_int (int n * j) * f64_ulp (of_nat n)" by (simp add: mult.assoc)
  have "f64_round (of_nat n) = of_int (int n * j) * f64_ulp (of_nat n)"
    using f64_round_le [OF _ eq_refl [OF eq]] f64_round_ge [OF _ eq_refl [OF eq [symmetric]]]
    by (intro antisym) simp_all
  then show ?thesis by (simp only: eq [symmetric])
qed (simp add: f64_round_def)

text \<open>The bound with which the clients work.\<close>

lemma f64_round_upper: "0 \<le> x \<Longrightarrow> f64_round x \<le> x + x / 2 ^ 53 + 1 / 2 ^ 1075"
  using f64_round_error [of x] by (simp add: abs_le_iff)

end
