(* ===== verification/Rate_Limiter.thy ===== *)
theory Rate_Limiter
  imports F64
begin

text \<open>
  The token buckets of the gate (\<open>gate/mod.rs\<close>, \<open>RateLimiter\<close>) in \<open>f64\<close> arithmetic, and the
  interface they share with the relay shaper (\<open>path.rs\<close>): a level that is refilled with the
  time and drawn from. What the interface promises is the rate, rounding errors included.
\<close>

section \<open>Seconds\<close>

text \<open>\<open>Duration::as_secs_f64\<close>: whole seconds and nanoseconds, added as \<open>f64\<close>.\<close>

definition as_secs_f64 :: "duration \<Rightarrow> rat" where
  "as_secs_f64 d =
     f64_round (f64_round (of_nat (d div 1000000000)) +
       f64_round (f64_round (of_nat (d mod 1000000000)) / f64_round 1000000000))"

abbreviation seconds :: "duration \<Rightarrow> rat" where
  "seconds d \<equiv> of_nat d / 1000000000"

text \<open>The relative error of one operation, and the absolute one of a subnormal result.\<close>

definition eps :: rat where "eps = 1 / 2 ^ 53"
definition tiny :: rat where "tiny = 1 / 2 ^ 1075"

lemma eps_pos [simp]: "0 < eps" and tiny_pos [simp]: "0 < tiny"
  by (simp_all add: eps_def tiny_def del: power_numeral)

lemma eps_nonneg [simp]: "0 \<le> eps" and tiny_nonneg [simp]: "0 \<le> tiny"
  by (simp_all add: less_imp_le)

lemma eps_le: "eps \<le> 1 / 8" and tiny_le: "tiny \<le> 1 / 8"
  by (simp_all add: eps_def tiny_def)

lemma eps_part: "0 \<le> x \<Longrightarrow> eps * x \<le> x / 8"
  using mult_right_mono [OF eps_le, of x] by simp

lemma f64_upper: "0 \<le> x \<Longrightarrow> f64_round x \<le> x + eps * x + tiny"
  using f64_round_upper [of x] by (simp add: eps_def tiny_def del: power_numeral)

lemma f64_upper_le:
  assumes "0 \<le> x" and "x \<le> y"
  shows "f64_round x \<le> y + eps * y + tiny"
  using f64_upper [of y] f64_round_mono [OF assms] assms by linarith

lemma f64_lower:
  assumes "0 \<le> x"
  shows "x - x / 16 - tiny \<le> f64_round x"
proof -
  have "x / 2 ^ 53 \<le> x / 16" using assms by (intro divide_left_mono) simp_all
  moreover have "x - f64_round x \<le> x / 2 ^ 53 + 1 / 2 ^ 1075"
    using f64_round_error [OF assms] by (simp only: abs_le_iff minus_diff_eq)
  ultimately show ?thesis unfolding tiny_def by linarith
qed

lemma f64_lower_ge: "0 \<le> c \<Longrightarrow> c \<le> x \<Longrightarrow> c - c / 16 - tiny \<le> f64_round x"
  using f64_lower [of c] f64_round_mono [of c x] by linarith

lemma as_secs_f64_nonneg: "0 \<le> as_secs_f64 d"
  by (simp add: as_secs_f64_def f64_round_nonneg)

lemma as_secs_f64_upper: "as_secs_f64 d \<le> seconds d + 3 * (eps * seconds d) + 4 * tiny"
proof -
  define s f where "s = (of_nat (d div 1000000000) :: rat)" and "f = (of_nat (d mod 1000000000) :: rat) / 1000000000"
  have pos: "0 \<le> s" "0 \<le> f" by (simp_all add: s_def f_def)
  have "d = d div 1000000000 * 1000000000 + d mod 1000000000" by simp
  then have "(of_nat d :: rat) = of_nat (d div 1000000000) * 1000000000 + of_nat (d mod 1000000000)"
    by (metis of_nat_add of_nat_mult of_nat_numeral)
  then have sum: "seconds d = s + f" by (simp add: s_def f_def add_divide_distrib)
  have nanos: "f64_round (of_nat (d mod 1000000000)) = of_nat (d mod 1000000000)"
    by (rule f64_round_nat) (rule order_less_trans [OF mod_less_divisor], simp_all)
  have billion: "f64_round 1000000000 = 1000000000"
    using f64_round_nat [of 1000000000] by simp
  define z where "z = eps * (s + f)"
  have "f64_round s + f64_round f \<le> s + f + z + 2 * tiny"
    using f64_upper [OF pos(1)] f64_upper [OF pos(2)] by (simp add: z_def distrib_left)
  then have "f64_round (f64_round s + f64_round f) \<le>
      (s + f + z + 2 * tiny) + eps * (s + f + z + 2 * tiny) + tiny"
    using pos by (intro f64_upper_le) (simp_all add: f64_round_nonneg)
  also have "eps * (s + f + z + 2 * tiny) = z + eps * z + 2 * (eps * tiny)"
    by (simp add: z_def algebra_simps)
  also have "(s + f + z + 2 * tiny) + (z + eps * z + 2 * (eps * tiny)) + tiny \<le> (s + f) + 3 * z + 4 * tiny"
  proof -
    have "0 \<le> z" using pos by (simp add: z_def)
    then show ?thesis using eps_part [of z] eps_part [OF tiny_nonneg] tiny_pos by linarith
  qed
  finally show ?thesis
    unfolding as_secs_f64_def nanos billion sum s_def [symmetric] f_def [symmetric] z_def [symmetric] by simp
qed

text \<open>A millisecond is not lost in the rounding.\<close>

lemma as_secs_f64_ms:
  assumes "1000000 \<le> d"
  shows "8 / 10000 \<le> as_secs_f64 d"
proof -
  define s f where "s = f64_round (of_nat (d div 1000000000))"
    and "f = f64_round (f64_round (of_nat (d mod 1000000000)) / f64_round 1000000000)"
  have nanos: "f64_round (of_nat (d mod 1000000000)) = of_nat (d mod 1000000000)"
    by (rule f64_round_nat) (rule order_less_trans [OF mod_less_divisor], simp_all)
  have billion: "f64_round 1000000000 = 1000000000" using f64_round_nat [of 1000000000] by simp
  have pos: "0 \<le> s" "0 \<le> f" by (simp_all add: s_def f_def f64_round_nonneg)
  have small: "tiny \<le> 1 / 1000000" by (simp add: tiny_def)
  have "9 / 10000 \<le> s + f"
  proof (cases "d < 1000000000")
    case True
    then have "(1 / 1000 :: rat) \<le> of_nat (d mod 1000000000) / 1000000000"
      using of_nat_mono [OF assms, where 'a = rat] by simp
    then show ?thesis
      using f64_lower [of "of_nat (d mod 1000000000) / 1000000000"] small pos(1) unfolding f_def nanos billion
      by simp
  next
    case False
    then have "1 \<le> d div 1000000000" by (simp add: Suc_le_eq div_greater_zero_iff)
    then have "(1 :: rat) \<le> of_nat (d div 1000000000)"
      using of_nat_mono [of 1 "d div 1000000000", where 'a = rat] by simp
    then show ?thesis using f64_lower [of "of_nat (d div 1000000000)"] small pos(2) unfolding s_def by simp
  qed
  then show ?thesis
    using f64_lower_ge [of "9 / 10000" "s + f"] small
    unfolding as_secs_f64_def s_def [symmetric] f_def [symmetric] by linarith
qed

section \<open>The interface of a bucket\<close>

text \<open>
  One refill, as both buckets compute it: the elapsed time is a \<open>f64\<close> number of seconds, and
  the level never passes the capacity.
\<close>

definition refilled :: "instant \<Rightarrow> instant \<Rightarrow> rat \<Rightarrow> rat \<Rightarrow> rat \<Rightarrow> rat" where
  "refilled now stamp level rate cap =
     min (f64_round (level + f64_round (as_secs_f64 (duration_since now stamp) * rate))) cap"

text \<open>What rounding can add in one call: to the rate by a factor, to the level by a constant.\<close>

definition rate_error :: "rat \<Rightarrow> rat" where "rate_error rate = rate + 5 * (eps * rate)"

definition call_error :: "rat \<Rightarrow> rat \<Rightarrow> rat" where
  "call_error rate cap = 2 * (eps * cap) + (8 * rate + 3) * tiny"

lemma refilled_upper:
  assumes "0 \<le> level" and "0 \<le> rate" and "0 \<le> cap"
  shows "refilled now stamp level rate cap \<le>
    level + rate_error rate * seconds (now - stamp) + eps * cap + (8 * rate + 2) * tiny"
proof -
  define x where "x = seconds (now - stamp)"
  define e where "e = as_secs_f64 (now - stamp)"
  define g where "g = rate * x + 4 * (eps * (rate * x)) + 5 * (rate * tiny)"
  have x: "0 \<le> x" by (simp add: x_def)
  have e: "0 \<le> e" "e \<le> x + 3 * (eps * x) + 4 * tiny"
    using as_secs_f64_upper [of "now - stamp"] by (simp_all add: e_def x_def as_secs_f64_nonneg)
  have rx: "0 \<le> rate * x" and rt: "0 \<le> rate * tiny" using assms x by simp_all
  have "e * rate \<le> (x + 3 * (eps * x) + 4 * tiny) * rate"
    using e(2) assms(2) by (rule mult_right_mono)
  also have "\<dots> = rate * x + 3 * (eps * (rate * x)) + 4 * (rate * tiny)"
    by (simp add: algebra_simps)
  finally have er: "e * rate \<le> rate * x + 3 * (eps * (rate * x)) + 4 * (rate * tiny)" .
  have "f64_round (e * rate) \<le>
      (rate * x + 3 * (eps * (rate * x)) + 4 * (rate * tiny)) +
      eps * (rate * x + 3 * (eps * (rate * x)) + 4 * (rate * tiny)) + tiny"
    using e(1) assms(2) er by (intro f64_upper_le) simp_all
  also have "eps * (rate * x + 3 * (eps * (rate * x)) + 4 * (rate * tiny)) =
      eps * (rate * x) + 3 * (eps * (eps * (rate * x))) + 4 * (eps * (rate * tiny))"
    by (simp add: algebra_simps)
  also have "(rate * x + 3 * (eps * (rate * x)) + 4 * (rate * tiny)) +
      (eps * (rate * x) + 3 * (eps * (eps * (rate * x))) + 4 * (eps * (rate * tiny))) + tiny \<le>
      rate * x + 5 * (eps * (rate * x)) + 5 * (rate * tiny) + tiny"
  proof -
    have "0 \<le> eps * (rate * x)" using rx by simp
    then show ?thesis using eps_part [OF rt] eps_part [of "eps * (rate * x)"] rt by linarith
  qed
  finally have gain: "f64_round (e * rate) \<le> rate_error rate * x + 5 * (rate * tiny) + tiny"
    by (simp add: rate_error_def algebra_simps)
  have gpos: "0 \<le> f64_round (e * rate)" using e(1) assms(2) by (simp add: f64_round_nonneg)
  define y where "y = level + f64_round (e * rate)"
  have y: "0 \<le> y" "y \<le> level + rate_error rate * x + 5 * (rate * tiny) + tiny"
    using gain gpos assms(1) by (simp_all add: y_def)
  have "min (f64_round y) cap \<le> y + eps * cap + tiny"
  proof (cases "y \<le> cap")
    case True
    then have "eps * y \<le> eps * cap" by (intro mult_left_mono) simp_all
    moreover have "min (f64_round y) cap \<le> f64_round y" by simp
    ultimately show ?thesis using f64_upper [OF y(1)] by linarith
  next
    case False
    moreover have "0 \<le> eps * cap" using assms(3) by simp
    ultimately show ?thesis using tiny_pos by linarith
  qed
  moreover have "refilled now stamp level rate cap = min (f64_round y) cap"
    by (simp add: refilled_def y_def e_def duration_since_def)
  ultimately show ?thesis using y(2) rt by (simp add: x_def algebra_simps)
qed

lemma refilled_bounds:
  assumes "0 \<le> level" and "0 \<le> rate" and "0 \<le> cap"
  shows "0 \<le> refilled now stamp level rate cap" and "refilled now stamp level rate cap \<le> cap"
  using assms by (simp_all add: refilled_def f64_round_nonneg as_secs_f64_nonneg)

lemma draw_upper:
  assumes "0 \<le> m" and "m \<le> level" and "level \<le> cap"
  shows "f64_round (level - m) + m \<le> level + eps * cap + tiny"
proof -
  have "eps * (level - m) \<le> eps * cap" using assms by (intro mult_left_mono) simp_all
  then show ?thesis using f64_upper [of "level - m"] assms by linarith
qed

lemma refilled_one:
  assumes "1000000 \<le> now - stamp" and "2000 \<le> rate" and "0 \<le> level" and "1 \<le> cap"
  shows "1 \<le> refilled now stamp level rate cap"
proof -
  have small: "tiny \<le> 1 / 1000000" by (simp add: tiny_def)
  define e where "e = as_secs_f64 (duration_since now stamp)"
  have e: "8 / 10000 \<le> e" using as_secs_f64_ms [OF assms(1)] by (simp add: e_def duration_since_def)
  then have "8 / 10000 * 2000 \<le> e * rate" using assms(2) by (intro mult_mono) simp_all
  then have "16 / 10 \<le> e * rate" by simp
  then have "14 / 10 \<le> f64_round (e * rate)" using f64_lower_ge [of "16 / 10" "e * rate"] small by linarith
  then have "14 / 10 \<le> level + f64_round (e * rate)" using assms(3) by linarith
  then have "1 \<le> f64_round (level + f64_round (e * rate))"
    using f64_lower_ge [of "14 / 10" "level + f64_round (e * rate)"] small by linarith
  then show ?thesis using assms(4) by (simp add: refilled_def e_def)
qed

text \<open>
  A bucket: \<open>draw\<close> is a call at a time, with an argument, and returns what was granted, in
  tokens. The laws: a call that moves the bucket's stamp moves it forward and not past its own
  time, it changes neither rate nor capacity, keeps the bucket well formed, and grants no more
  than was there or came in since.
\<close>

locale token_bucket =
  fixes level :: "'s \<Rightarrow> rat" and stamp :: "'s \<Rightarrow> instant" and rate :: "'s \<Rightarrow> rat"
    and cap :: "'s \<Rightarrow> rat" and wf :: "'s \<Rightarrow> bool"
    and draw :: "instant \<Rightarrow> 'x \<Rightarrow> 's \<Rightarrow> 's \<times> rat"
  assumes draw_stamp: "wf s \<Longrightarrow> stamp s \<le> now \<Longrightarrow>
      stamp s \<le> stamp (fst (draw now x s)) \<and> stamp (fst (draw now x s)) \<le> now"
    and draw_frame: "wf s \<Longrightarrow> rate (fst (draw now x s)) = rate s \<and> cap (fst (draw now x s)) = cap s"
    and draw_wf: "wf s \<Longrightarrow> wf (fst (draw now x s))"
    and wf_bounds: "wf s \<Longrightarrow> 0 \<le> level s \<and> level s \<le> cap s \<and> 0 \<le> rate s"
    and draw_granted: "wf s \<Longrightarrow>
      level (fst (draw now x s)) + snd (draw now x s) \<le>
        level s + rate_error (rate s) * seconds (stamp (fst (draw now x s)) - stamp s) +
        call_error (rate s) (cap s)"
begin

fun granted :: "(instant \<times> 'x) list \<Rightarrow> 's \<Rightarrow> rat" where
  "granted [] s = 0"
| "granted ((now, x) # calls) s = (let r = draw now x s in snd r + granted calls (fst r))"

text \<open>What a run grants, at times that never go back.\<close>

lemma granted_until:
  assumes "wf s" and "sorted (stamp s # map fst calls)"
  shows "granted calls s \<le> level s +
    rate_error (rate s) * seconds (last (stamp s # map fst calls) - stamp s) +
    of_nat (length calls) * call_error (rate s) (cap s)"
  using assms
proof (induction calls arbitrary: s)
  case Nil
  then show ?case using wf_bounds by simp
next
  case (Cons call calls)
  obtain now x where call: "call = (now, x)" by (cases call)
  define t where "t = fst (draw now x s)"
  define y z where "y = last (stamp t # map fst calls)" and "z = last (now # map fst calls)"
  have order: "stamp s \<le> stamp t" "stamp t \<le> now"
    using draw_stamp [of s now x] Cons.prems by (auto simp: call t_def)
  have t: "rate t = rate s" "cap t = cap s" "wf t"
    using draw_frame [OF Cons.prems(1)] draw_wf [OF Cons.prems(1)] by (simp_all add: t_def)
  have sorted: "sorted (stamp t # map fst calls)" using Cons.prems(2) order by (auto simp: call)
  have "y \<in> set (stamp t # map fst calls)" unfolding y_def by (rule last_in_set) simp
  then have y: "stamp t \<le> y" "y \<le> z" using sorted order by (auto simp: y_def z_def)
  have last_eq: "last (stamp s # map fst (call # calls)) = z" by (simp add: call z_def)
  have "granted calls t \<le> level t + rate_error (rate s) * seconds (y - stamp t) +
      of_nat (length calls) * call_error (rate s) (cap s)"
    using Cons.IH [OF t(3) sorted] by (simp add: t y_def)
  moreover have "level t + snd (draw now x s) \<le>
      level s + rate_error (rate s) * seconds (stamp t - stamp s) + call_error (rate s) (cap s)"
    unfolding t_def by (rule draw_granted [OF Cons.prems(1)])
  moreover have "rate_error (rate s) * seconds (y - stamp t) + rate_error (rate s) * seconds (stamp t - stamp s) \<le>
      rate_error (rate s) * seconds (z - stamp s)"
  proof -
    have "seconds (y - stamp t) + seconds (stamp t - stamp s) \<le> seconds (z - stamp s)"
      using order y by (simp add: of_nat_diff add_divide_distrib [symmetric] divide_right_mono)
    moreover have "0 \<le> rate_error (rate s)"
      using wf_bounds [OF Cons.prems(1)] by (simp add: rate_error_def)
    ultimately show ?thesis unfolding distrib_left [symmetric] by (rule mult_left_mono)
  qed
  moreover have "granted (call # calls) s = snd (draw now x s) + granted calls t"
    by (simp add: call Let_def t_def)
  moreover have "of_nat (length (call # calls)) * call_error (rate s) (cap s) =
      call_error (rate s) (cap s) + of_nat (length calls) * call_error (rate s) (cap s)"
    by (simp add: distrib_right)
  ultimately show ?case unfolding last_eq by linarith
qed

text \<open>The same bound with the two errors in numbers, for a rate that the code uses.\<close>

lemma granted_bounded:
  assumes "wf s" and "sorted (stamp s # map fst calls)" and "rate s \<le> 2 ^ 32"
    and "elapsed = seconds (last (stamp s # map fst calls) - stamp s)"
  shows "granted calls s \<le> level s + rate s * elapsed +
    (5 * (rate s * elapsed) + of_nat (length calls) * (2 * cap s + 1)) / 2 ^ 53"
proof -
  let ?n = "of_nat (length calls) :: rat"
  have "(8 * rate s + 3) * tiny \<le> 2 ^ 36 * tiny"
    using assms(3) by (intro mult_right_mono) simp_all
  also have "2 ^ 36 * tiny \<le> eps" by (simp add: tiny_def eps_def)
  finally have "call_error (rate s) (cap s) \<le> eps * (2 * cap s + 1)"
    by (simp add: call_error_def algebra_simps)
  then have "?n * call_error (rate s) (cap s) \<le> ?n * (eps * (2 * cap s + 1))"
    by (rule mult_left_mono) simp
  moreover have "granted calls s \<le> level s + rate_error (rate s) * elapsed + ?n * call_error (rate s) (cap s)"
    unfolding assms(4) by (rule granted_until [OF assms(1,2)])
  ultimately have "granted calls s \<le> level s + rate_error (rate s) * elapsed + ?n * (eps * (2 * cap s + 1))"
    by linarith
  also have "\<dots> = level s + rate s * elapsed + (5 * (rate s * elapsed) + ?n * (2 * cap s + 1)) * eps"
    by (simp add: rate_error_def algebra_simps)
  finally show ?thesis by (simp add: eps_def)
qed

end

section \<open>The limiter of the gate\<close>

record rate_limiter =
  rt_capacity :: rat
  rt_tokens :: rat
  rt_refill_per_s :: rat
  rt_last :: instant

definition limiter_with :: "rat \<Rightarrow> rat \<Rightarrow> instant \<Rightarrow> rate_limiter" where
  "limiter_with capacity refill now =
     \<lparr>rt_capacity = capacity, rt_tokens = capacity, rt_refill_per_s = refill, rt_last = now\<rparr>"

definition per_minute :: "u32 \<Rightarrow> u32 \<Rightarrow> instant \<Rightarrow> rate_limiter" where
  "per_minute burst n now =
     limiter_with (of_nat (unat burst)) (f64_round (of_nat (unat n) / f64_round 60)) now"

definition per_hour :: "u32 \<Rightarrow> u32 \<Rightarrow> instant \<Rightarrow> rate_limiter" where
  "per_hour burst n now =
     limiter_with (of_nat (unat burst)) (f64_round (of_nat (unat n) / f64_round 3600)) now"

definition per_second :: "u32 \<Rightarrow> u32 \<Rightarrow> instant \<Rightarrow> rate_limiter" where
  "per_second burst n now = limiter_with (of_nat (unat burst)) (of_nat (unat n)) now"

definition capacity_per_hour :: "rat \<Rightarrow> instant \<Rightarrow> rate_limiter" where
  "capacity_per_hour capacity now = limiter_with capacity (f64_round (capacity / f64_round 3600)) now"

definition try_take_n :: "instant \<Rightarrow> rat \<Rightarrow> rate_limiter \<Rightarrow> rate_limiter \<times> bool" where
  "try_take_n now amount l =
     (let tokens = refilled now (rt_last l) (rt_tokens l) (rt_refill_per_s l) (rt_capacity l);
          l = l\<lparr>rt_last := now, rt_tokens := tokens\<rparr> in
      if amount \<le> tokens then (l\<lparr>rt_tokens := f64_round (tokens - amount)\<rparr>, True)
      else (l, False))"

definition try_take :: "instant \<Rightarrow> rate_limiter \<Rightarrow> rate_limiter \<times> bool" where
  "try_take now l = try_take_n now 1 l"

definition limiter_is_full :: "rate_limiter \<Rightarrow> bool" where
  "limiter_is_full l \<longleftrightarrow> rt_capacity l \<le> rt_tokens l"

definition limiter_wf :: "rate_limiter \<Rightarrow> bool" where
  "limiter_wf l \<longleftrightarrow>
     0 \<le> rt_tokens l \<and> rt_tokens l \<le> rt_capacity l \<and> 0 \<le> rt_refill_per_s l \<and>
     f64_round (rt_capacity l) = rt_capacity l"

lemma unsigned_rat_nonneg [simp]: "0 \<le> (unsigned w :: rat)"
  using of_nat_0_le_iff [of "unat w"] unfolding of_nat_unat .

lemma f64_round_u32 [simp]: "f64_round (unsigned (w :: u32)) = unsigned w"
  using f64_round_nat [of "unat w"] unat_u32 [of w] unfolding of_nat_unat by simp

lemma limiter_wf_new [simp]:
  "limiter_wf (per_minute b n now)" "limiter_wf (per_hour b n now)" "limiter_wf (per_second b n now)"
  "0 \<le> c \<Longrightarrow> f64_round c = c \<Longrightarrow> limiter_wf (capacity_per_hour c now)"
  by (simp_all add: limiter_wf_def per_minute_def per_hour_def per_second_def capacity_per_hour_def
      limiter_with_def f64_round_nonneg)

lemma try_take_n_frame [simp]:
  "rt_last (fst (try_take_n now m l)) = now"
  "rt_refill_per_s (fst (try_take_n now m l)) = rt_refill_per_s l"
  "rt_capacity (fst (try_take_n now m l)) = rt_capacity l"
  by (simp_all add: try_take_n_def Let_def)

lemma drawn_bounds:
  assumes "0 \<le> m" and "m \<le> level" and "level \<le> cap" and "f64_round cap = cap"
  shows "0 \<le> f64_round (level - m)" and "f64_round (level - m) \<le> cap"
  using f64_round_mono [of "level - m" cap] assms by (simp_all add: f64_round_nonneg)

lemma try_take_n_wf: "limiter_wf l \<Longrightarrow> 0 \<le> m \<Longrightarrow> limiter_wf (fst (try_take_n now m l))"
  using drawn_bounds [of m "refilled now (rt_last l) (rt_tokens l) (rt_refill_per_s l) (rt_capacity l)" "rt_capacity l"]
  by (simp add: limiter_wf_def try_take_n_def Let_def refilled_bounds)

text \<open>The limiter is a bucket: a call asks for a number of bytes or for one token.\<close>

definition limiter_draw :: "instant \<Rightarrow> nat \<Rightarrow> rate_limiter \<Rightarrow> rate_limiter \<times> rat" where
  "limiter_draw now n l =
     (case try_take_n now (f64_round (of_nat n)) l of
        (l, ok) \<Rightarrow> (l, if ok then f64_round (of_nat n) else 0))"

lemma try_take_n_granted:
  assumes "limiter_wf l" and "0 \<le> m"
  shows "rt_tokens (fst (try_take_n now m l)) + (if snd (try_take_n now m l) then m else 0) \<le>
    rt_tokens l + rate_error (rt_refill_per_s l) * seconds (now - rt_last l) +
    call_error (rt_refill_per_s l) (rt_capacity l)"
proof -
  have wf: "0 \<le> rt_tokens l" "0 \<le> rt_refill_per_s l" "0 \<le> rt_capacity l"
    using assms(1) by (simp_all add: limiter_wf_def)
  define t where "t = refilled now (rt_last l) (rt_tokens l) (rt_refill_per_s l) (rt_capacity l)"
  have t: "t \<le> rt_capacity l" "t \<le> rt_tokens l + rate_error (rt_refill_per_s l) * seconds (now - rt_last l) +
      eps * rt_capacity l + (8 * rt_refill_per_s l + 2) * tiny"
    using refilled_bounds(2) [OF wf] refilled_upper [OF wf] by (simp_all add: t_def)
  have pos: "0 \<le> eps * rt_capacity l" using wf by simp
  have err: "call_error (rt_refill_per_s l) (rt_capacity l) =
      2 * (eps * rt_capacity l) + (8 * rt_refill_per_s l + 2) * tiny + tiny"
    by (simp add: call_error_def algebra_simps)
  have res: "try_take_n now m l =
      (l\<lparr>rt_last := now, rt_tokens := if m \<le> t then f64_round (t - m) else t\<rparr>, m \<le> t)"
    by (simp add: try_take_n_def Let_def t_def)
  show ?thesis
  proof (cases "m \<le> t")
    case True
    then have "f64_round (t - m) + m \<le> t + eps * rt_capacity l + tiny"
      using assms(2) t(1) by (intro draw_upper)
    then have "f64_round (t - m) + m \<le> rt_tokens l + rate_error (rt_refill_per_s l) * seconds (now - rt_last l) +
        call_error (rt_refill_per_s l) (rt_capacity l)"
      using t(2) err by linarith
    then show ?thesis using True by (simp add: res)
  next
    case False
    have "t \<le> rt_tokens l + rate_error (rt_refill_per_s l) * seconds (now - rt_last l) +
        call_error (rt_refill_per_s l) (rt_capacity l)"
      using t(2) err pos tiny_pos by linarith
    then show ?thesis using False by (simp add: res)
  qed
qed

interpretation limiter: token_bucket rt_tokens rt_last rt_refill_per_s rt_capacity limiter_wf limiter_draw
proof
  fix now n l
  show "limiter_wf l \<Longrightarrow> rt_last l \<le> now \<Longrightarrow>
      rt_last l \<le> rt_last (fst (limiter_draw now n l)) \<and> rt_last (fst (limiter_draw now n l)) \<le> now"
    "limiter_wf l \<Longrightarrow> rt_refill_per_s (fst (limiter_draw now n l)) = rt_refill_per_s l \<and>
     rt_capacity (fst (limiter_draw now n l)) = rt_capacity l"
    by (simp_all add: limiter_draw_def split_beta)
  show "limiter_wf l \<Longrightarrow> limiter_wf (fst (limiter_draw now n l))"
    by (simp add: limiter_draw_def split_beta try_take_n_wf f64_round_nonneg)
  show "limiter_wf l \<Longrightarrow> 0 \<le> rt_tokens l \<and> rt_tokens l \<le> rt_capacity l \<and> 0 \<le> rt_refill_per_s l"
    by (simp add: limiter_wf_def)
  show "limiter_wf l \<Longrightarrow> rt_tokens (fst (limiter_draw now n l)) + snd (limiter_draw now n l) \<le>
      rt_tokens l + rate_error (rt_refill_per_s l) * seconds (rt_last (fst (limiter_draw now n l)) - rt_last l) +
      call_error (rt_refill_per_s l) (rt_capacity l)"
    using try_take_n_granted [of l "f64_round (of_nat n)" now]
    by (simp add: limiter_draw_def split_beta f64_round_nonneg)
qed

text \<open>
  After any call a limiter with room for one token is not full: a granted token is missing,
  and one that is refused was not there.
\<close>

lemma take_not_full:
  assumes "limiter_wf l" and "rt_capacity l = of_nat c" and "1 \<le> c" and "c < 2 ^ 53"
  shows "\<not> limiter_is_full (fst (try_take now l))"
proof -
  have wf: "0 \<le> rt_tokens l" "0 \<le> rt_refill_per_s l" "0 \<le> rt_capacity l"
    using assms(1) by (simp_all add: limiter_wf_def)
  define t where "t = refilled now (rt_last l) (rt_tokens l) (rt_refill_per_s l) (rt_capacity l)"
  have t: "t \<le> of_nat c" using refilled_bounds(2) [OF wf] assms(2) by (simp add: t_def)
  have res: "try_take now l =
      (l\<lparr>rt_last := now, rt_tokens := if 1 \<le> t then f64_round (t - 1) else t\<rparr>, 1 \<le> t)"
    by (simp add: try_take_def try_take_n_def Let_def t_def)
  have "f64_round (t - 1) < of_nat c" if "1 \<le> t"
  proof -
    have "f64_round (t - 1) \<le> f64_round (of_nat (c - 1))"
      using that t assms(3) by (intro f64_round_mono) (simp_all add: of_nat_diff)
    also have "\<dots> = of_nat (c - 1)" using assms(4) by (intro f64_round_nat) simp
    also have "(of_nat (c - 1) :: rat) < of_nat c" using assms(3) by simp
    finally show ?thesis .
  qed
  moreover have "t < of_nat c" if "\<not> 1 \<le> t"
    using that assms(3) by (simp add: not_le order_less_le_trans [of t 1])
  ultimately show ?thesis using assms(2) by (simp add: limiter_is_full_def res not_le)
qed

end
