(* ===== verification/Seen_Set.thy ===== *)
theory Seen_Set
  imports Identity
begin

text \<open>
  The seen set of a house (\<open>gate/mod.rs\<close>): the hashes of the sealed bodies it accepted, each
  kept until its window has passed, and the freshness test on the body's own time stamp.
\<close>

section \<open>Code\<close>

definition SEEN_WINDOW :: duration where "SEEN_WINDOW = from_secs 120"
definition SEEN_SET_CAP :: nat where "SEEN_SET_CAP = 4096"

type_synonym seen_set = "(bytes, instant) hashmap"

definition seen_sweep :: "instant \<Rightarrow> seen_set \<Rightarrow> seen_set" where
  "seen_sweep now s = filter (\<lambda>(_, inserted). duration_since now inserted < SEEN_WINDOW) s"

definition seal_hash :: "crypto \<Rightarrow> bytes \<Rightarrow> bytes" where
  "seal_hash K sealed = take 16 (blake3 K sealed)"

text \<open>Two readings of the clock: one by the sweep and one at the insertion.\<close>

definition seen_accept :: "crypto \<Rightarrow> instant \<Rightarrow> instant \<Rightarrow> bytes \<Rightarrow> seen_set \<Rightarrow> seen_set \<times> bool" where
  "seen_accept K swept_at now sealed s =
     (let s = seen_sweep swept_at s; hash = seal_hash K sealed in
      if hm_get s hash \<noteq> None then (s, False)
      else if length s \<ge> SEEN_SET_CAP then (s, False)
      else (hm_insert hash now s, True))"

text \<open>\<open>SEEN_WINDOW\<close> in milliseconds fits a \<open>u64\<close>.\<close>

definition within_freshness_window :: "u64 \<Rightarrow> u64 \<Rightarrow> bool" where
  "within_freshness_window sent_ms now_ms \<longleftrightarrow>
     abs_diff (unat now_ms) (unat sent_ms) \<le> SEEN_WINDOW div 1000000"

text \<open>A run of calls, each with its two readings of the clock, and the log of what was accepted.\<close>

type_synonym seen_log = "(bytes \<times> instant) list"

definition seen_step :: "crypto \<Rightarrow> seen_set \<times> seen_log \<Rightarrow> instant \<times> instant \<times> bytes \<Rightarrow> seen_set \<times> seen_log" where
  "seen_step K = (\<lambda>(s, log) (swept_at, now, sealed).
     (case seen_accept K swept_at now sealed s of
        (s, ok) \<Rightarrow> (s, if ok then log @ [(seal_hash K sealed, now)] else log)))"

definition seen_run :: "crypto \<Rightarrow> (instant \<times> instant \<times> bytes) list \<Rightarrow> seen_set \<times> seen_log" where
  "seen_run K calls = foldl (seen_step K) ([], []) calls"

section \<open>What the set remembers\<close>

definition recent :: "instant \<Rightarrow> seen_log \<Rightarrow> seen_log" where
  "recent t = filter (\<lambda>(_, u). t < u + SEEN_WINDOW)"

text \<open>No hash is in the log twice within one window.\<close>

abbreviation no_replay :: "seen_log \<Rightarrow> bool" where
  "no_replay \<equiv> sorted_wrt (\<lambda>(h, u) (h', u'). h = h' \<longrightarrow> u + SEEN_WINDOW \<le> u')"

text \<open>
  After a run whose last sweep was at \<open>t\<close> or before: the set is the part of the log that was
  recent then, in its order.
\<close>

definition seen_ok :: "instant \<Rightarrow> seen_log \<Rightarrow> seen_set \<Rightarrow> bool" where
  "seen_ok t log s \<longleftrightarrow>
     (\<exists>t0 \<le> t. s = recent t0 log) \<and> length s \<le> SEEN_SET_CAP \<and>
     (\<forall>(_, u) \<in> set log. u \<le> t) \<and> no_replay log"

lemma seen_ok_empty: "seen_ok t [] []"
  by (auto simp: seen_ok_def recent_def)

lemma SEEN_WINDOW_pos [simp]: "0 < SEEN_WINDOW"
  by (simp add: SEEN_WINDOW_def from_secs_def)

lemma seen_sweep_recent: "seen_sweep t s = recent t s"
proof -
  have "t - u < SEEN_WINDOW \<longleftrightarrow> t < u + SEEN_WINDOW" for u using SEEN_WINDOW_pos by arith
  then show ?thesis by (simp add: seen_sweep_def recent_def duration_since_def)
qed

lemma seen_ok_mono:
  assumes "seen_ok t log s" and "t \<le> t'"
  shows "seen_ok t' log s"
proof -
  have "\<exists>t0 \<le> t'. s = recent t0 log" using assms order_trans unfolding seen_ok_def by blast
  moreover have "\<forall>(_, u) \<in> set log. u \<le> t'" using assms by (auto simp: seen_ok_def)
  ultimately show ?thesis using assms(1) by (simp add: seen_ok_def)
qed

lemma recent_recent: "t \<le> t' \<Longrightarrow> recent t' (recent t log) = recent t' log"
  by (auto simp: recent_def intro!: filter_cong)

lemma recent_get:
  "hm_get (recent t log) h = None \<longleftrightarrow> (\<forall>(h', u) \<in> set log. h' = h \<longrightarrow> u + SEEN_WINDOW \<le> t)"
  by (fastforce simp: recent_def map_of_eq_None_iff image_iff)

lemma seen_swept:
  assumes "seen_ok t log s" and "t \<le> swept_at"
  shows "seen_sweep swept_at s = recent swept_at log"
  using assms by (auto simp: seen_ok_def seen_sweep_recent recent_recent)

lemma seen_accepted_iff:
  assumes "seen_ok t log s" and "t \<le> swept_at"
  shows "snd (seen_accept K swept_at now sealed s) \<longleftrightarrow>
    (\<forall>(h, u) \<in> set log. h = seal_hash K sealed \<longrightarrow> u + SEEN_WINDOW \<le> swept_at) \<and>
    length (recent swept_at log) < SEEN_SET_CAP"
  unfolding seen_accept_def seen_swept [OF assms] Let_def recent_get [symmetric]
  by (simp add: not_less)

lemma seen_accept_step:
  assumes ok: "seen_ok t log s" and times: "t \<le> swept_at" "swept_at \<le> now"
    and step: "seen_step K (s, log) (swept_at, now, sealed) = (s', log')"
  shows "seen_ok now log' s'"
proof (cases "snd (seen_accept K swept_at now sealed s)")
  case False
  then have "s' = recent swept_at log" "log' = log"
    using step seen_swept [OF ok times(1)] by (auto simp: seen_step_def seen_accept_def Let_def split: if_splits)
  moreover have "length (recent swept_at log) \<le> SEEN_SET_CAP"
    using ok seen_swept [OF ok times(1)] length_filter_le order_trans
    unfolding seen_ok_def seen_sweep_def by metis
  ultimately show ?thesis using ok times by (auto simp: seen_ok_def)
next
  case True
  let ?h = "seal_hash K sealed"
  have fresh: "hm_get (recent swept_at log) ?h = None" and room: "length (recent swept_at log) < SEEN_SET_CAP"
    using True unfolding seen_accepted_iff [OF ok times(1)] recent_get by blast+
  then have res: "s' = recent swept_at log @ [(?h, now)]" "log' = log @ [(?h, now)]"
    using step seen_swept [OF ok times(1)]
    by (auto simp: seen_step_def seen_accept_def Let_def insert_fresh map_of_eq_None_iff not_less)
  have "now < now + SEEN_WINDOW" by simp
  then have "swept_at < now + SEEN_WINDOW" using times(2) by (rule order_le_less_trans [rotated])
  then have "s' = recent swept_at log'" by (simp add: res recent_def)
  moreover have "length s' \<le> SEEN_SET_CAP" using room by (simp add: res)
  moreover have "no_replay log'"
    using ok fresh times(2) unfolding res recent_get by (fastforce simp: seen_ok_def sorted_wrt_append)
  moreover have "\<forall>(_, u) \<in> set log'. u \<le> now" using ok times by (auto simp: seen_ok_def res)
  ultimately show ?thesis using times(2) unfolding seen_ok_def by blast
qed

abbreviation call_times :: "(instant \<times> instant \<times> bytes) list \<Rightarrow> instant list" where
  "call_times calls \<equiv> concat (map (\<lambda>(swept_at, now, _). [swept_at, now]) calls)"

lemma seen_run_ok:
  assumes "seen_run K calls = (s, log)" and "sorted (call_times calls @ [t])"
  shows "seen_ok t log s"
  using assms
proof (induction calls arbitrary: s log t rule: rev_induct)
  case Nil
  then show ?case by (simp add: seen_run_def seen_ok_empty)
next
  case (snoc call calls)
  obtain swept_at now sealed where call: "call = (swept_at, now, sealed)" by (cases call)
  obtain s1 log1 where run: "seen_run K calls = (s1, log1)" by (cases "seen_run K calls")
  have order: "sorted (call_times calls @ [swept_at])" "swept_at \<le> now" "now \<le> t"
    using snoc.prems(2) by (auto simp: call sorted_append)
  have "seen_step K (s1, log1) (swept_at, now, sealed) = (s, log)"
    using snoc.prems(1) run by (simp add: seen_run_def call)
  from seen_accept_step [OF snoc.IH [OF run order(1)] order_refl order(2) this]
  show ?case using order(3) by (rule seen_ok_mono)
qed

end
