(* ===== verification/Gate_Wire.thy ===== *)
theory Gate_Wire
  imports NetAddr Format_Text
begin

text \<open>
  What travels between a house and its gate (\<open>gate/wire.rs\<close>): the frames of the control
  stream, the stream's length prefixes, and the relay datagram. minicbor is the parameter of
  \<open>Cbor\<close>. A QUIC stream is the bytes that have arrived and not been read.
\<close>

section \<open>Errors and limits\<close>

text \<open>
  \<open>GateError\<close>. A \<open>Protocol\<close> error whose text is formatted from a value carries the value, in a
  constructor of its own: a decode error of the crate, a line of a member list, the size of one. A stream that ends early is \<open>ReadExact\<close>; the
  errors of the other crates carry nothing that is modelled.
\<close>

datatype gate_error =
    Io | FrameTooLarge u32 | RelayPayloadTooLarge nat | Timeout | Protocol string
  | ProtocolDecode decode_error | BadMemberLine "nat list" | TooManyMembers nat | NotMember | AtCapacity | GateRateLimited | Closed u8
  | InvalidIdentity string | Connection | Connect | Tls | NoInitialCipherSuite | ReadExact | Write

definition CONTROL_FRAME_LEN_CAP :: u32 where "CONTROL_FRAME_LEN_CAP = 64 * 1024"
definition RELAY_PAYLOAD_CAP :: nat where "RELAY_PAYLOAD_CAP = 1200"
definition RELAY_DISCRIMINATOR :: u8 where "RELAY_DISCRIMINATOR = 0x01"
definition SEALED_CAP :: nat where "SEALED_CAP = 512"
definition ERROR_DETAIL_CAP :: nat where "ERROR_DETAIL_CAP = 64"

section \<open>The frames\<close>

text \<open>
  The fields in the order of the source, \<open>v\<close> first. A detail is the bytes of its string.
\<close>

datatype gate_frame =
    Register u8 bytes
  | Registered u8 addr u8 u16
  | Reflect u8
  | Reflected u8 addr
  | Introduce u8 bytes u16 bytes
  | Introduction u8 bytes u32 addr u8
  | Start u8 u32 u16 u64
  | StartRequest u8 u32
  | Keepalive u8
  | KeepaliveAck u8 addr
  | Goodbye u8 u8
  | ErrorFrame u8 u8 bytes
  | Knock u8 bytes u16 bytes
  | KnockAnswer u8 bytes bool

definition T_REGISTER :: u8 where "T_REGISTER = 1"
definition T_REGISTERED :: u8 where "T_REGISTERED = 2"
definition T_REFLECT :: u8 where "T_REFLECT = 3"
definition T_REFLECTED :: u8 where "T_REFLECTED = 4"
definition T_INTRODUCE :: u8 where "T_INTRODUCE = 5"
definition T_INTRODUCTION :: u8 where "T_INTRODUCTION = 6"
definition T_START :: u8 where "T_START = 7"
definition T_START_REQUEST :: u8 where "T_START_REQUEST = 8"
definition T_KEEPALIVE :: u8 where "T_KEEPALIVE = 9"
definition T_KEEPALIVE_ACK :: u8 where "T_KEEPALIVE_ACK = 10"
definition T_GOODBYE :: u8 where "T_GOODBYE = 11"
definition T_ERROR :: u8 where "T_ERROR = 12"
definition T_KNOCK :: u8 where "T_KNOCK = 14"
definition T_KNOCK_ANSWER :: u8 where "T_KNOCK_ANSWER = 15"

lemmas gate_types =
  T_REGISTER_def T_REGISTERED_def T_REFLECT_def T_REFLECTED_def T_INTRODUCE_def
  T_INTRODUCTION_def T_START_def T_START_REQUEST_def T_KEEPALIVE_def T_KEEPALIVE_ACK_def
  T_GOODBYE_def T_ERROR_def T_KNOCK_def T_KNOCK_ANSWER_def

fun gate_to_cbor :: "minicbor \<Rightarrow> gate_frame \<Rightarrow> bytes" where
  "gate_to_cbor C (Register v community) =
     enc_array C 3 @ enc_u8 C T_REGISTER @ enc_u8 C v @ enc_bytes C community"
| "gate_to_cbor C (Registered v observed keepalive_s secondary_port) =
     enc_array C 5 @ enc_u8 C T_REGISTERED @ enc_u8 C v @ wire_addr_encode C observed @
     enc_u8 C keepalive_s @ enc_u16 C secondary_port"
| "gate_to_cbor C (Reflect v) = enc_array C 2 @ enc_u8 C T_REFLECT @ enc_u8 C v"
| "gate_to_cbor C (Reflected v observed) =
     enc_array C 3 @ enc_u8 C T_REFLECTED @ enc_u8 C v @ wire_addr_encode C observed"
| "gate_to_cbor C (Introduce v tag ttl_s sealed) =
     enc_array C 4 @ enc_u8 C T_INTRODUCE @ enc_u8 C v @ enc_bytes C tag @ enc_u16 C ttl_s @
     enc_bytes C sealed"
| "gate_to_cbor C (Introduction v tag session peer_observed role) =
     enc_array C 5 @ enc_u8 C T_INTRODUCTION @ enc_u8 C v @ enc_bytes C tag @
     enc_u32 C session @ wire_addr_encode C peer_observed @ enc_u8 C role"
| "gate_to_cbor C (Start v session fire_in_ms gate_ms) =
     enc_array C 5 @ enc_u8 C T_START @ enc_u8 C v @ enc_u32 C session @
     enc_u16 C fire_in_ms @ enc_u64 C gate_ms"
| "gate_to_cbor C (StartRequest v session) =
     enc_array C 3 @ enc_u8 C T_START_REQUEST @ enc_u8 C v @ enc_u32 C session"
| "gate_to_cbor C (Keepalive v) = enc_array C 2 @ enc_u8 C T_KEEPALIVE @ enc_u8 C v"
| "gate_to_cbor C (KeepaliveAck v observed) =
     enc_array C 3 @ enc_u8 C T_KEEPALIVE_ACK @ enc_u8 C v @ wire_addr_encode C observed"
| "gate_to_cbor C (Goodbye v reason) =
     enc_array C 3 @ enc_u8 C T_GOODBYE @ enc_u8 C v @ enc_u8 C reason"
| "gate_to_cbor C (ErrorFrame v code detail) =
     enc_array C 4 @ enc_u8 C T_ERROR @ enc_u8 C v @ enc_u8 C code @ enc_str C detail"
| "gate_to_cbor C (Knock v tag ttl_s sealed) =
     enc_array C 4 @ enc_u8 C T_KNOCK @ enc_u8 C v @ enc_bytes C tag @ enc_u16 C ttl_s @
     enc_bytes C sealed"
| "gate_to_cbor C (KnockAnswer v tag accept) =
     enc_array C 4 @ enc_u8 C T_KNOCK_ANSWER @ enc_u8 C v @ enc_bytes C tag @ enc_bool C accept"

text \<open>The body of \<open>Introduce\<close> and of \<open>Knock\<close>: the two arms are the same but for the constructor.\<close>

definition sealed_fields ::
    "minicbor \<Rightarrow> (u8 \<Rightarrow> bytes \<Rightarrow> u16 \<Rightarrow> bytes \<Rightarrow> gate_frame) \<Rightarrow> bytes \<Rightarrow>
     decode_error + gate_frame \<times> bytes" where
  "sealed_fields C mk d =
     and_then (dec_u8 C d) (\<lambda>(v, d).
     and_then (read_32 C d) (\<lambda>(tag, d).
     and_then (dec_u16 C d) (\<lambda>(ttl_s, d).
     and_then (dec_bytes C d) (\<lambda>(sealed, d).
       if length sealed > SEALED_CAP then Inl (DecodeMessage ''sealed body exceeds its cap'')
       else Inr (mk v tag ttl_s sealed, d)))))"

definition gate_fields ::
    "minicbor \<Rightarrow> u8 \<Rightarrow> u64 \<Rightarrow> bytes \<Rightarrow> decode_error + gate_frame \<times> bytes" where
  "gate_fields C t len d =
     (if t = T_REGISTER \<and> len = 3 then
        and_then (dec_u8 C d) (\<lambda>(v, d).
        and_then (read_32 C d) (\<lambda>(community, d). Inr (Register v community, d)))
      else if t = T_REGISTERED \<and> len = 5 then
        and_then (dec_u8 C d) (\<lambda>(v, d).
        and_then (wire_addr_decode C d) (\<lambda>(observed, d).
        and_then (dec_u8 C d) (\<lambda>(keepalive_s, d).
        and_then (dec_u16 C d) (\<lambda>(secondary_port, d).
          Inr (Registered v observed keepalive_s secondary_port, d)))))
      else if t = T_REFLECT \<and> len = 2 then
        and_then (dec_u8 C d) (\<lambda>(v, d). Inr (Reflect v, d))
      else if t = T_REFLECTED \<and> len = 3 then
        and_then (dec_u8 C d) (\<lambda>(v, d).
        and_then (wire_addr_decode C d) (\<lambda>(observed, d). Inr (Reflected v observed, d)))
      else if t = T_INTRODUCE \<and> len = 4 then sealed_fields C Introduce d
      else if t = T_INTRODUCTION \<and> len = 5 then
        and_then (dec_u8 C d) (\<lambda>(v, d).
        and_then (read_32 C d) (\<lambda>(tag, d).
        and_then (dec_u32 C d) (\<lambda>(session, d).
        and_then (wire_addr_decode C d) (\<lambda>(peer_observed, d).
        and_then (dec_u8 C d) (\<lambda>(role, d).
          Inr (Introduction v tag session peer_observed role, d))))))
      else if t = T_START \<and> len = 5 then
        and_then (dec_u8 C d) (\<lambda>(v, d).
        and_then (dec_u32 C d) (\<lambda>(session, d).
        and_then (dec_u16 C d) (\<lambda>(fire_in_ms, d).
        and_then (dec_u64 C d) (\<lambda>(gate_ms, d). Inr (Start v session fire_in_ms gate_ms, d)))))
      else if t = T_START_REQUEST \<and> len = 3 then
        and_then (dec_u8 C d) (\<lambda>(v, d).
        and_then (dec_u32 C d) (\<lambda>(session, d). Inr (StartRequest v session, d)))
      else if t = T_KEEPALIVE \<and> len = 2 then
        and_then (dec_u8 C d) (\<lambda>(v, d). Inr (Keepalive v, d))
      else if t = T_KEEPALIVE_ACK \<and> len = 3 then
        and_then (dec_u8 C d) (\<lambda>(v, d).
        and_then (wire_addr_decode C d) (\<lambda>(observed, d). Inr (KeepaliveAck v observed, d)))
      else if t = T_GOODBYE \<and> len = 3 then
        and_then (dec_u8 C d) (\<lambda>(v, d).
        and_then (dec_u8 C d) (\<lambda>(reason, d). Inr (Goodbye v reason, d)))
      else if t = T_ERROR \<and> len = 4 then
        and_then (dec_u8 C d) (\<lambda>(v, d).
        and_then (dec_u8 C d) (\<lambda>(code, d).
        and_then (dec_str C d) (\<lambda>(detail, d).
          if length detail > ERROR_DETAIL_CAP then
            Inl (DecodeMessage ''error detail exceeds its cap'')
          else Inr (ErrorFrame v code detail, d))))
      else if t = T_KNOCK \<and> len = 4 then sealed_fields C Knock d
      else if t = T_KNOCK_ANSWER \<and> len = 4 then
        and_then (dec_u8 C d) (\<lambda>(v, d).
        and_then (read_32 C d) (\<lambda>(tag, d).
        and_then (dec_bool C d) (\<lambda>(accept, d). Inr (KnockAnswer v tag accept, d))))
      else Inl (DecodeMessage (''unknown or mis-sized frame type '' @ decimal (unat t))))"

definition gate_from_cbor :: "minicbor \<Rightarrow> bytes \<Rightarrow> decode_error + gate_frame" where
  "gate_from_cbor C bs =
     and_then (dec_array C bs) (\<lambda>(len, d).
     and_then (ok_or len (DecodeMessage ''frame must be a definite-length array'')) (\<lambda>len.
     and_then (dec_u8 C d) (\<lambda>(frame_type, d).
     and_then (gate_fields C frame_type len d) (\<lambda>(frame, d).
       if d \<noteq> [] then Inl (DecodeMessage ''frame carries trailing bytes'') else Inr frame))))"

section \<open>What the codec promises\<close>

text \<open>The types of the fields: arrays of 32 bytes, addresses of 16 and UTF-8 text.\<close>

fun gate_wf :: "gate_frame \<Rightarrow> bool" where
  "gate_wf (Register v community) \<longleftrightarrow> length community = 32"
| "gate_wf (Registered v observed keepalive_s secondary_port) \<longleftrightarrow> addr_wf observed"
| "gate_wf (Reflected v observed) \<longleftrightarrow> addr_wf observed"
| "gate_wf (Introduce v tag ttl_s sealed) \<longleftrightarrow> length tag = 32 \<and> length sealed < 2 ^ 64"
| "gate_wf (Introduction v tag session peer_observed role) \<longleftrightarrow>
     length tag = 32 \<and> addr_wf peer_observed"
| "gate_wf (KeepaliveAck v observed) \<longleftrightarrow> addr_wf observed"
| "gate_wf (ErrorFrame v code detail) \<longleftrightarrow> length detail < 2 ^ 64 \<and> utf8_valid detail"
| "gate_wf (Knock v tag ttl_s sealed) \<longleftrightarrow> length tag = 32 \<and> length sealed < 2 ^ 64"
| "gate_wf (KnockAnswer v tag accept) \<longleftrightarrow> length tag = 32"
| "gate_wf _ \<longleftrightarrow> True"

text \<open>The caps that only the decoder checks, and the errors with which it refuses.\<close>

fun gate_over_cap :: "gate_frame \<Rightarrow> string option" where
  "gate_over_cap (Introduce v tag ttl_s sealed) =
     (if length sealed > SEALED_CAP then Some ''sealed body exceeds its cap'' else None)"
| "gate_over_cap (Knock v tag ttl_s sealed) =
     (if length sealed > SEALED_CAP then Some ''sealed body exceeds its cap'' else None)"
| "gate_over_cap (ErrorFrame v code detail) =
     (if length detail > ERROR_DETAIL_CAP then Some ''error detail exceeds its cap'' else None)"
| "gate_over_cap _ = None"

lemma wire_addr_decode_wf: "wire_addr_decode C d = Inr (a, d') \<Longrightarrow> addr_wf a"
  by (auto simp: wire_addr_decode_def wire_from_raw_iff)

text \<open>One arm at a time, so that no goal holds all fourteen.\<close>

lemma sealed_fields_sound:
  assumes "sealed_fields C mk d = Inr (f, d')"
  shows "\<exists>v tag ttl_s sealed. f = mk v tag ttl_s sealed \<and> length tag = 32 \<and> length sealed \<le> SEALED_CAP"
proof -
  obtain v d1 tag d2 ttl_s d3 sealed where "read_32 C d1 = Inr (tag, d2)"
    "length sealed \<le> SEALED_CAP" "f = mk v tag ttl_s sealed"
    using assms by (auto simp: sealed_fields_def not_less split: if_splits)
  then show ?thesis using read_32_length by blast
qed

lemma gate_fields_sound:
  assumes utf8: "\<And>d s r. dec_str C d = Inr (s, r) \<Longrightarrow> utf8_valid s"
    and "gate_fields C t len d = Inr (f, d')"
  shows "gate_wf f \<and> gate_over_cap f = None"
  using assms(2) unfolding gate_fields_def
  by (auto simp: ERROR_DETAIL_CAP_def SEALED_CAP_def not_less split: if_split_asm
      dest!: sealed_fields_sound read_32_length wire_addr_decode_wf utf8)

context minicbor_contract
begin

lemma wire_addr_round_trip_end [simp]:
  "addr_wf a \<Longrightarrow> wire_addr_decode C (wire_addr_encode C a) = Inr (a, [])"
  using wire_addr_round_trip [of a "[]"] by simp

lemma gate_round_trip:
  assumes "gate_wf f"
  shows "gate_from_cbor C (gate_to_cbor C f @ r) =
     (case gate_over_cap f of
        Some e \<Rightarrow> Inl (DecodeMessage e)
      | None \<Rightarrow> if r = [] then Inr f else Inl (DecodeMessage ''frame carries trailing bytes''))"
  using assms
  by (cases f) (simp_all add: gate_from_cbor_def gate_fields_def sealed_fields_def gate_types)

lemma gate_from_cbor_sound:
  "gate_from_cbor C bs = Inr f \<Longrightarrow> gate_wf f \<and> gate_over_cap f = None"
  using gate_fields_sound [OF dec_str_utf8] by (fastforce simp: gate_from_cbor_def split: if_split_asm)

end

section \<open>The control stream\<close>

definition write_frame :: "minicbor \<Rightarrow> gate_frame \<Rightarrow> gate_error + bytes" where
  "write_frame C frame =
     (let body = gate_to_cbor C frame in
      if length body \<ge> 2 ^ 32 then Inl (FrameTooLarge (- 1))
      else Inr (to_be 4 (of_nat (length body) :: u32) @ body))"

text \<open>
  The bytes that arrived before the deadline, and whether the stream ended after them: a
  read of more bytes than that fails when the stream ended and runs into the deadline when
  it did not.
\<close>

definition read_frame :: "minicbor \<Rightarrow> bool \<Rightarrow> bytes \<Rightarrow> gate_error + gate_frame \<times> bytes" where
  "read_frame C ended bs =
     (let short = (if ended then ReadExact else Timeout) in
      if length bs < 4 then Inl short
      else
        (let len = from_be (take 4 bs) :: u32; d = drop 4 bs in
         if len > CONTROL_FRAME_LEN_CAP then Inl (FrameTooLarge len)
         else if length d < unat len then Inl short
         else
           (case gate_from_cbor C (take (unat len) d) of
              Inl e \<Rightarrow> Inl (ProtocolDecode e)
            | Inr frame \<Rightarrow> Inr (frame, drop (unat len) d))))"

text \<open>A reader that asks for \<open>n\<close> frames in turn.\<close>

fun read_frames :: "minicbor \<Rightarrow> bool \<Rightarrow> nat \<Rightarrow> bytes \<Rightarrow> gate_error + gate_frame list \<times> bytes" where
  "read_frames C ended 0 bs = Inr ([], bs)"
| "read_frames C ended (Suc n) bs =
     and_then (read_frame C ended bs) (\<lambda>(f, bs).
     and_then (read_frames C ended n bs) (\<lambda>(fs, bs). Inr (f # fs, bs)))"

fun write_frames :: "minicbor \<Rightarrow> gate_frame list \<Rightarrow> gate_error + bytes" where
  "write_frames C [] = Inr []"
| "write_frames C (f # fs) =
     and_then (write_frame C f) (\<lambda>x. and_then (write_frames C fs) (\<lambda>y. Inr (x @ y)))"

text \<open>Whatever arrives, a frame that is read was no longer than the cap.\<close>

lemma read_frame_bounded:
  assumes "read_frame C ended bs = Inr (f, rest)"
  shows "\<exists>body. gate_from_cbor C body = Inr f \<and> length body \<le> 65536 \<and>
    bs = take 4 bs @ body @ rest \<and> length bs = 4 + length body + length rest"
proof -
  let ?n = "unat (from_be (take 4 bs) :: u32)" and ?d = "drop 4 bs"
  have n: "length bs \<ge> 4" "\<not> (from_be (take 4 bs) :: u32) > CONTROL_FRAME_LEN_CAP" "?n \<le> length ?d"
    and f: "gate_from_cbor C (take ?n ?d) = Inr f" "rest = drop ?n ?d"
    using assms by (auto simp: read_frame_def Let_def not_less split: if_split_asm sum.split_asm)
  have "?n \<le> 65536"
    using n(2) by (simp add: CONTROL_FRAME_LEN_CAP_def word_less_nat_alt not_less)
  moreover have "bs = take 4 bs @ take ?n ?d @ rest" by (simp only: f(2) append_take_drop_id)
  ultimately show ?thesis
    using n f by (intro exI [of _ "take ?n ?d"]) simp
qed

context minicbor_contract
begin

lemma read_write_frame:
  assumes "gate_wf f" and "gate_over_cap f = None" and "length (gate_to_cbor C f) \<le> 65536"
  shows "\<exists>bs. write_frame C f = Inr bs \<and> read_frame C ended (bs @ rest) = Inr (f, rest)"
proof -
  let ?body = "gate_to_cbor C f" and ?len = "of_nat (length (gate_to_cbor C f)) :: u32"
  have len: "unat ?len = length ?body" using assms(3) by (simp add: unat_of_nat)
  have cap: "\<not> ?len > CONTROL_FRAME_LEN_CAP"
    using assms(3) len by (simp add: CONTROL_FRAME_LEN_CAP_def word_less_nat_alt)
  have body: "gate_from_cbor C ?body = Inr f"
    using gate_round_trip [OF assms(1), of "[]"] assms(2) by simp
  have "write_frame C f = Inr (to_be 4 ?len @ ?body)"
    using assms(3) by (simp add: write_frame_def Let_def)
  moreover have "read_frame C ended ((to_be 4 ?len @ ?body) @ rest) = Inr (f, rest)"
    using cap len body by (simp add: read_frame_def Let_def)
  ultimately show ?thesis by blast
qed

lemma read_write_frames:
  assumes "list_all (\<lambda>f. gate_wf f \<and> gate_over_cap f = None \<and> length (gate_to_cbor C f) \<le> 65536) fs"
  shows "\<exists>bs. write_frames C fs = Inr bs \<and>
    read_frames C ended (length fs) (bs @ rest) = Inr (fs, rest)"
  using assms
proof (induction fs)
  case (Cons f fs)
  then obtain ys where ys: "write_frames C fs = Inr ys"
    "read_frames C ended (length fs) (ys @ rest) = Inr (fs, rest)"
    by auto
  obtain xs where xs: "write_frame C f = Inr xs" "read_frame C ended (xs @ ys @ rest) = Inr (f, ys @ rest)"
    using read_write_frame [of f ended "ys @ rest"] Cons.prems by auto
  show ?case using xs ys by simp
qed simp

end

section \<open>The relay datagram\<close>

definition encode_relay :: "u32 \<Rightarrow> bytes \<Rightarrow> gate_error + bytes" where
  "encode_relay session payload =
     (if length payload > RELAY_PAYLOAD_CAP then Inl (RelayPayloadTooLarge (length payload))
      else Inr (RELAY_DISCRIMINATOR # to_be 4 session @ payload))"

definition decode_relay :: "bytes \<Rightarrow> gate_error + u32 \<times> bytes" where
  "decode_relay datagram =
     (if length datagram < 5 then Inl (Protocol ''relay datagram too short'')
      else if datagram ! 0 \<noteq> RELAY_DISCRIMINATOR then
        Inl (Protocol ''datagram is not a Relay discriminator'')
      else
        (let session = from_be (take 4 (drop 1 datagram)); payload = drop 5 datagram in
         if length payload > RELAY_PAYLOAD_CAP then Inl (RelayPayloadTooLarge (length payload))
         else Inr (session, payload)))"

lemma decode_encode_relay: "encode_relay s p = Inr d \<Longrightarrow> decode_relay d = Inr (s, p)"
  by (auto simp: encode_relay_def decode_relay_def Let_def split: if_split_asm)

lemma encode_decode_relay:
  assumes "decode_relay d = Inr (s, p)"
  shows "encode_relay s p = Inr d"
proof -
  have d: "5 \<le> length d" "d ! 0 = RELAY_DISCRIMINATOR" "s = from_be (take 4 (drop 1 d))"
    "p = drop 5 d" "length p \<le> RELAY_PAYLOAD_CAP"
    using assms by (auto simp: decode_relay_def Let_def not_less split: if_split_asm)
  have "to_be 4 s = take 4 (drop 1 d)"
    unfolding d(3) using d(1) by (intro to_be_from_be) simp_all
  moreover have "d = d ! 0 # take 4 (drop 1 d) @ drop 5 d"
  proof -
    have "d = d ! 0 # drop 1 d" using d(1) by (cases d) simp_all
    moreover have "drop 1 d = take 4 (drop 1 d) @ drop 5 d"
      using append_take_drop_id [of 4 "drop 1 d"] by simp
    ultimately show ?thesis by simp
  qed
  ultimately show ?thesis using d by (simp add: encode_relay_def not_less)
qed

section \<open>Frames as CBOR\<close>

text \<open>
  The bytes that a reader of one CBOR item leaves of a frame. The headers of three frames
  announce one element less than is written, so their last element is outside the array.
\<close>

fun gate_leftover :: "minicbor \<Rightarrow> gate_frame \<Rightarrow> bytes" where
  "gate_leftover C (Introduce v tag ttl_s sealed) = enc_bytes C sealed"
| "gate_leftover C (Introduction v tag session peer_observed role) = enc_u8 C role"
| "gate_leftover C (Knock v tag ttl_s sealed) = enc_bytes C sealed"
| "gate_leftover C _ = []"

lemma rfc_skip_uint:
  "n < 2 ^ 64 \<Longrightarrow> rfc_skip (Suc c) (rfc_head 0 n @ r) = rfc_skip c r"
  by (simp add: rfc_unhead_head)

lemma rfc_skip_string:
  "length s < 2 ^ 64 \<Longrightarrow> m = 2 \<or> m = 3 \<Longrightarrow>
   rfc_skip (Suc c) (rfc_head m (length s) @ s @ r) = rfc_skip c r"
  by (auto simp: rfc_unhead_head)

lemma rfc_skip_array:
  "n < 2 ^ 64 \<Longrightarrow> rfc_skip (Suc c) (rfc_head 4 n @ r) = rfc_skip (c + n) r"
  by (simp add: rfc_unhead_head)

lemma rfc_skip_bool: "rfc_skip (Suc c) ((if b then 0xF5 else 0xF4) # r) = rfc_skip c r"
  by (simp add: rfc_unhead_def)

lemma rfc_skip_items:
  "rfc_skip (Suc c) (enc_array rfc8949 k @ r) = rfc_skip (c + unat k) r"
  "rfc_skip (Suc c) (enc_u8 rfc8949 a @ r) = rfc_skip c r"
  "rfc_skip (Suc c) (enc_u16 rfc8949 b @ r) = rfc_skip c r"
  "rfc_skip (Suc c) (enc_u32 rfc8949 w @ r) = rfc_skip c r"
  "rfc_skip (Suc c) (enc_u64 rfc8949 d @ r) = rfc_skip c r"
  "length s < 2 ^ 64 \<Longrightarrow> rfc_skip (Suc c) (enc_bytes rfc8949 s @ r) = rfc_skip c r"
  "length s < 2 ^ 64 \<Longrightarrow> rfc_skip (Suc c) (enc_str rfc8949 s @ r) = rfc_skip c r"
  "rfc_skip (Suc c) (enc_bool rfc8949 t @ r) = rfc_skip c r"
  using unat_u8 [of a] unat_u16 [of b] unat_u32 [of w] unat_u64 [of d] unat_u64 [of k]
  by (simp_all add: rfc8949_def rfc_skip_uint rfc_skip_string rfc_skip_array rfc_skip_bool
      wire_addr_encode_def length_addr_to_raw del: rfc_skip.simps)

lemma rfc_skip_addr:
  "addr_wf x \<Longrightarrow> rfc_skip (Suc c) (wire_addr_encode rfc8949 x @ r) = rfc_skip c r"
  using rfc_skip_items(6) [of "addr_to_raw x"] by (simp add: wire_addr_encode_def length_addr_to_raw)

lemmas rfc_skip_numeral =
  rfc_skip_items [where c = "pred_numeral k" for k, folded numeral_eq_Suc]
  rfc_skip_addr [where c = "pred_numeral k" for k, folded numeral_eq_Suc]

lemma gate_frame_skip:
  assumes "gate_wf f"
  shows "dec_skip rfc8949 (gate_to_cbor rfc8949 f @ r) = Inr ((), gate_leftover rfc8949 f @ r)"
proof -
  have skip: "dec_skip rfc8949 d = rfc_skip (Suc 0) d" for d by (simp add: rfc8949_def)
  show ?thesis
    unfolding skip using assms
    by (cases f)
      (simp_all add: rfc_skip_items rfc_skip_addr rfc_skip_numeral del: rfc_skip.simps(2))
qed

end
