(* ===== verification/Member_List.thy ===== *)
theory Member_List
  imports Gate_Wire
begin

text \<open>
  The member list of a gate, which is also a house's friend list (\<open>gate/mod.rs\<close>): the text of
  the file to the set of keys. Reading the file is I/O; a text is its list of code points.
\<close>

section \<open>Text\<close>

text \<open>\<open>str::lines\<close>: a line ends at a line feed, and a carriage return before it goes with it.\<close>

definition strip_cr :: "nat list \<Rightarrow> nat list" where
  "strip_cr l = (if l \<noteq> [] \<and> last l = 13 then butlast l else l)"

fun lines_from :: "nat list \<Rightarrow> nat list \<Rightarrow> nat list list" where
  "lines_from cur [] = (if cur = [] then [] else [cur])"
| "lines_from cur (c # cs) =
     (if c = 10 then strip_cr cur # lines_from [] cs else lines_from (cur @ [c]) cs)"

text \<open>\<open>char::is_whitespace\<close>: the property White_Space of Unicode.\<close>

definition is_whitespace :: "nat \<Rightarrow> bool" where
  "is_whitespace c \<longleftrightarrow>
     9 \<le> c \<and> c \<le> 13 \<or> c = 0x20 \<or> c = 0x85 \<or> c = 0xA0 \<or> c = 0x1680 \<or>
     0x2000 \<le> c \<and> c \<le> 0x200A \<or> c = 0x2028 \<or> c = 0x2029 \<or> c = 0x202F \<or> c = 0x205F \<or> c = 0x3000"

definition trim :: "nat list \<Rightarrow> nat list" where
  "trim l = rev (dropWhile is_whitespace (rev (dropWhile is_whitespace l)))"

definition len_utf8 :: "nat \<Rightarrow> nat" where
  "len_utf8 c = (if c < 0x80 then 1 else if c < 0x800 then 2 else if c < 0x10000 then 3 else 4)"

section \<open>Keys in hexadecimal\<close>

definition hex_value :: "nat \<Rightarrow> nat option" where
  "hex_value c =
     (if 48 \<le> c \<and> c \<le> 57 then Some (c - 48)
      else if 97 \<le> c \<and> c \<le> 102 then Some (c - 87)
      else if 65 \<le> c \<and> c \<le> 70 then Some (c - 55)
      else None)"

text \<open>\<open>u8::from_str_radix(.., 16)\<close> of two characters: a leading plus sign is allowed.\<close>

definition hex_pair :: "nat \<Rightarrow> nat \<Rightarrow> nat option" where
  "hex_pair a b =
     (if a = 43 then hex_value b
      else
        (case (hex_value a, hex_value b) of
           (Some x, Some y) \<Rightarrow> Some (x * 16 + y)
         | _ \<Rightarrow> None))"

fun hex_pairs :: "nat list \<Rightarrow> bytes option" where
  "hex_pairs (a # b # cs) =
     Option.bind (hex_pair a b) (\<lambda>x. Option.bind (hex_pairs cs) (\<lambda>xs. Some (of_nat x # xs)))"
| "hex_pairs _ = Some []"

text \<open>
  The length is in bytes, and so are the indices of the slices. With a character beyond ASCII
  in the line some slice is not at a boundary or has a character that is no digit.
\<close>

definition decode_hex32 :: "nat list \<Rightarrow> bytes option" where
  "decode_hex32 s =
     (if sum_list (map len_utf8 s) \<noteq> 64 then None
      else if \<exists>c \<in> set s. c \<ge> 0x80 then None
      else hex_pairs s)"

section \<open>The list\<close>

type_synonym member_list = "bytes set"

definition MAX_REGISTRATIONS :: nat where "MAX_REGISTRATIONS = 256"

fun member_lines :: "nat list list \<Rightarrow> member_list \<Rightarrow> gate_error + member_list" where
  "member_lines [] members = Inr members"
| "member_lines (l # ls) members =
     (let line = trim l in
      if line = [] \<or> hd line = 35 then member_lines ls members
      else
        (case decode_hex32 line of
           None \<Rightarrow> Inl (BadMemberLine line)
         | Some key \<Rightarrow> member_lines ls (insert key members)))"

definition member_list_load :: "gate_error + nat list \<Rightarrow> gate_error + member_list" where
  "member_list_load read =
     and_then read (\<lambda>text.
     and_then (member_lines (lines_from [] text) {}) (\<lambda>members.
       if card members > MAX_REGISTRATIONS then Inl (TooManyMembers (card members))
       else Inr members))"

section \<open>What a line can be\<close>

lemma hex_value_bound: "hex_value c = Some x \<Longrightarrow> x < 16"
  by (auto simp: hex_value_def split: if_split_asm)

lemma hex_pairs_length: "hex_pairs s = Some k \<Longrightarrow> even (length s) \<Longrightarrow> 2 * length k = length s"
  by (induction s arbitrary: k rule: hex_pairs.induct) (auto split: bind_splits)

lemma ascii_length: "\<forall>c \<in> set s. c < 0x80 \<Longrightarrow> sum_list (map len_utf8 s) = length s"
  by (induction s) (auto simp: len_utf8_def)

lemma decode_hex32_length: "decode_hex32 s = Some k \<Longrightarrow> length s = 64 \<and> length k = 32"
proof -
  assume k: "decode_hex32 s = Some k"
  then have "\<forall>c \<in> set s. c < 0x80" by (auto simp: decode_hex32_def split: if_split_asm)
  then have "length s = 64" using k ascii_length [of s] by (simp add: decode_hex32_def split: if_split_asm)
  moreover have "hex_pairs s = Some k" using k by (simp add: decode_hex32_def split: if_split_asm)
  ultimately show ?thesis using hex_pairs_length [of s k] by simp
qed

text \<open>A key written in hexadecimal, one per line, as the tools print it.\<close>

definition hex_digit_of :: "nat \<Rightarrow> nat" where
  "hex_digit_of n = (if n < 10 then 48 + n else 87 + n)"

fun hex_line :: "bytes \<Rightarrow> nat list" where
  "hex_line [] = []"
| "hex_line (b # bs) = hex_digit_of (unat b div 16) # hex_digit_of (unat b mod 16) # hex_line bs"

lemma hex_digit_of_facts:
  assumes "n < 16"
  shows "hex_value (hex_digit_of n) = Some n" and "hex_digit_of n \<noteq> 43" and "hex_digit_of n < 0x80"
    and "\<not> is_whitespace (hex_digit_of n)" and "hex_digit_of n \<noteq> 35"
  using assms by (auto simp: hex_value_def hex_digit_of_def is_whitespace_def)

lemma hex_line_pairs: "hex_pairs (hex_line k) = Some k"
proof (induction k)
  case (Cons b k)
  have "unat b div 16 < 16" "unat b mod 16 < 16"
    using unat_u8 [of b] by (simp_all add: less_mult_imp_div_less)
  then show ?case using Cons.IH by (simp add: hex_pair_def hex_digit_of_facts)
qed simp

lemma hex_line_chars: "c \<in> set (hex_line k) \<Longrightarrow> \<exists>n < 16. c = hex_digit_of n"
proof (induction k)
  case (Cons b k)
  have b: "unat b div 16 < 16" "unat b mod 16 < 16"
    using unat_u8 [of b] by (simp_all add: less_mult_imp_div_less)
  have "c = hex_digit_of (unat b div 16) \<or> c = hex_digit_of (unat b mod 16) \<or> c \<in> set (hex_line k)"
    using Cons.prems by auto
  then show ?case using Cons.IH b by blast
qed simp

lemma hex_line_solid:
  assumes "c \<in> set (hex_line k)"
  shows "\<not> is_whitespace c" and "c \<noteq> 35" and "c \<noteq> 10" and "c \<noteq> 13" and "c < 0x80"
proof -
  obtain n where n: "n < 16" "c = hex_digit_of n" using hex_line_chars [OF assms] by blast
  show "\<not> is_whitespace c" "c \<noteq> 35" "c < 0x80" using hex_digit_of_facts [OF n(1)] n(2) by simp_all
  then show "c \<noteq> 10" "c \<noteq> 13" by (auto simp: is_whitespace_def)
qed

lemma length_hex_line: "length (hex_line k) = 2 * length k"
  by (induction k) simp_all

lemma decode_hex_line:
  assumes "length k = 32"
  shows "decode_hex32 (hex_line k) = Some k"
proof -
  have "\<forall>c \<in> set (hex_line k). c < 0x80" using hex_line_solid(5) by blast
  then show ?thesis
    using assms ascii_length [of "hex_line k"] by (simp add: decode_hex32_def hex_line_pairs length_hex_line not_le)
qed

lemma trim_solid:
  assumes "\<forall>c \<in> set l. \<not> is_whitespace c"
  shows "trim l = l"
proof -
  have drop: "dropWhile is_whitespace xs = xs" if "\<forall>c \<in> set xs. \<not> is_whitespace c" for xs
    using that by (cases xs) simp_all
  show ?thesis using assms by (simp add: trim_def drop)
qed

lemma lines_from_app: "10 \<notin> set l \<Longrightarrow> lines_from cur (l @ 10 # rest) = strip_cr (cur @ l) # lines_from [] rest"
  by (induction l arbitrary: cur) auto

text \<open>The text of a list of keys, and what loading it gives.\<close>

definition member_text :: "bytes list \<Rightarrow> nat list" where
  "member_text keys = concat (map (\<lambda>k. hex_line k @ [10]) keys)"

lemma member_text_lines:
  "lines_from [] (member_text keys) = map hex_line keys"
proof (induction keys)
  case (Cons k keys)
  have "10 \<notin> set (hex_line k)" "13 \<notin> set (hex_line k)"
    using hex_line_solid(3,4) by blast+
  then have "strip_cr (hex_line k) = hex_line k"
    using last_in_set [of "hex_line k"] unfolding strip_cr_def by metis
  then show ?case
    using Cons.IH lines_from_app [of "hex_line k" "[]" "member_text keys"] \<open>10 \<notin> set (hex_line k)\<close>
    by (simp add: member_text_def)
qed (simp add: member_text_def)

lemma member_lines_hex:
  "list_all (\<lambda>k. length k = 32) keys \<Longrightarrow> member_lines (map hex_line keys) m = Inr (set keys \<union> m)"
proof (induction keys arbitrary: m)
  case (Cons k keys)
  have ne: "hex_line k \<noteq> []" using Cons.prems length_hex_line [of k] by (cases "hex_line k") auto
  then have solid: "\<forall>c \<in> set (hex_line k). \<not> is_whitespace c" "hd (hex_line k) \<noteq> 35"
    using hex_line_solid(1,2) hd_in_set by blast+
  then show ?case
    using Cons ne solid by (simp add: trim_solid decode_hex_line Let_def)
qed simp

lemma member_lines_length:
  "member_lines ls m = Inr members \<Longrightarrow> \<forall>k \<in> m. length k = 32 \<Longrightarrow> \<forall>k \<in> members. length k = 32"
  by (induction ls arbitrary: m)
    (auto simp: Let_def decode_hex32_length split: if_splits option.splits)

end
