(* ===== verification/Gate_Props.thy ===== *)
theory Gate_Props
  imports Rate_Limiter Seen_Set Member_List
begin

text \<open>
  The properties of the gate protocol: the frames, the control stream and the relay datagram,
  the limits, the seen set and the member list.
\<close>

section \<open>What travels\<close>

text \<open>C35: A control frame that is encoded is read back by itself and refused with anything
  after it; a frame over one of the caps is refused with the error of that cap. Whatever
  bytes arrive, a frame that is accepted has fields of the right lengths and is within
  every cap.\<close>

theorem gate_frame_codec:
  assumes "minicbor_contract C"
  shows "(gate_wf f \<longrightarrow>
       gate_from_cbor C (gate_to_cbor C f @ rest) =
         (case gate_over_cap f of
            Some e \<Rightarrow> Inl (DecodeMessage e)
          | None \<Rightarrow> if rest = [] then Inr f else Inl (DecodeMessage ''frame carries trailing bytes''))) \<and>
    (gate_from_cbor C bs = Inr f \<longrightarrow> gate_wf f \<and> gate_over_cap f = None)"
  using minicbor_contract.gate_round_trip [OF assms] minicbor_contract.gate_from_cbor_sound [OF assms]
  by blast

theorem gate_frame_codec_witness:
  "gate_from_cbor rfc8949 (gate_to_cbor rfc8949 (Knock 1 zero32 60 (replicate 600 7))) =
     Inl (DecodeMessage ''sealed body exceeds its cap'') \<and>
   gate_from_cbor rfc8949 (gate_to_cbor rfc8949 (KnockAnswer 1 zero32 True)) =
     Inr (KnockAnswer 1 zero32 True)"
  using gate_frame_codec [OF rfc.minicbor_contract_axioms, of "Knock 1 zero32 60 (replicate 600 7)" "[]"]
    gate_frame_codec [OF rfc.minicbor_contract_axioms, of "KnockAnswer 1 zero32 True" "[]"]
  by (simp add: SEALED_CAP_def del: gate_to_cbor.simps)

text \<open>A control stream carries frames, not bytes: any frames within the caps that are
  written one after the other, with anything after them, are read back one by one and leave
  exactly what follows. A frame that is read from any bytes was the body that its prefix
  announced, at most 64 KiB, and exactly its bytes are consumed.\<close>

theorem control_stream_framing:
  assumes "minicbor_contract C"
    and "list_all (\<lambda>f. gate_wf f \<and> gate_over_cap f = None \<and> length (gate_to_cbor C f) \<le> 65536) fs"
  shows "(\<exists>bs. write_frames C fs = Inr bs \<and>
      read_frames C ended (length fs) (bs @ rest) = Inr (fs, rest)) \<and>
    (read_frame C ended arrived = Inr (f, left) \<longrightarrow>
      (\<exists>body. gate_from_cbor C body = Inr f \<and> length body \<le> 65536 \<and>
         arrived = take 4 arrived @ body @ left \<and> length arrived = 4 + length body + length left))"
  using minicbor_contract.read_write_frames [OF assms] read_frame_bounded by blast

definition demo_frames :: "gate_frame list" where
  "demo_frames = [Keepalive 1, StartRequest 1 7, Goodbye 1 0]"

theorem control_stream_framing_witness:
  "\<exists>bs. write_frames rfc8949 demo_frames = Inr bs \<and>
     read_frames rfc8949 True (length demo_frames) (bs @ [1, 2]) = Inr (demo_frames, [1, 2])"
proof -
  have "list_all (\<lambda>f. gate_wf f \<and> gate_over_cap f = None \<and> length (gate_to_cbor rfc8949 f) \<le> 65536)
      demo_frames"
    by (simp add: demo_frames_def rfc8949_def rfc_head_def gate_types)
  from control_stream_framing [OF rfc.minicbor_contract_axioms this, of True "[1, 2]"]
  show ?thesis by blast
qed

text \<open>A relay datagram is accepted exactly when it is the encoding of its session and its
  payload, which is at most 1200 bytes.\<close>

theorem relay_datagram_iff:
  "(decode_relay d = Inr (session, payload) \<longleftrightarrow> encode_relay session payload = Inr d) \<and>
   (encode_relay session payload = Inr d \<longleftrightarrow>
      length payload \<le> 1200 \<and> d = 1 # to_be 4 session @ payload)"
proof (intro conjI)
  show "decode_relay d = Inr (session, payload) \<longleftrightarrow> encode_relay session payload = Inr d"
    using decode_encode_relay encode_decode_relay by blast
  show "encode_relay session payload = Inr d \<longleftrightarrow>
      length payload \<le> 1200 \<and> d = 1 # to_be 4 session @ payload"
    by (auto simp: encode_relay_def RELAY_PAYLOAD_CAP_def RELAY_DISCRIMINATOR_def)
qed

text \<open>What a reader of CBOR makes of a frame. Of eleven of the fourteen frames it reads one
  array and nothing is left; but the headers of \<open>Introduce\<close>, \<open>Introduction\<close> and \<open>Knock\<close>
  announce one element less than the encoder writes, so that their last field stands outside
  the array.\<close>

theorem gate_frame_items:
  assumes "gate_wf f"
  shows "dec_skip rfc8949 (gate_to_cbor rfc8949 f @ rest) =
     Inr ((),
       (case f of
          Introduce v tag ttl_s sealed \<Rightarrow> enc_bytes rfc8949 sealed
        | Introduction v tag session peer_observed role \<Rightarrow> enc_u8 rfc8949 role
        | Knock v tag ttl_s sealed \<Rightarrow> enc_bytes rfc8949 sealed
        | _ \<Rightarrow> []) @ rest)"
proof -
  have "gate_leftover rfc8949 f = (case f of
      Introduce v tag ttl_s sealed \<Rightarrow> enc_bytes rfc8949 sealed
    | Introduction v tag session peer_observed role \<Rightarrow> enc_u8 rfc8949 role
    | Knock v tag ttl_s sealed \<Rightarrow> enc_bytes rfc8949 sealed
    | _ \<Rightarrow> [])"
    by (cases f) simp_all
  then show ?thesis using gate_frame_skip [OF assms] by simp
qed

theorem gate_frame_items_witness:
  "dec_skip rfc8949 (gate_to_cbor rfc8949 (Introduce 1 zero32 60 [1, 2, 3])) = Inr ((), [0x43, 1, 2, 3])"
  using gate_frame_items [of "Introduce 1 zero32 60 [1, 2, 3]" "[]"]
  by (simp add: rfc8949_def rfc_head_def)

section \<open>What is limited\<close>

text \<open>A token bucket of the gate grants, over any calls at times that never go back, at most
  its tokens and its rate times the time that passed. The rounding of \<open>f64\<close> adds at most
  five parts in 2 to the 53 to the rate and, for each call, twice the capacity and one in 2 to
  the 53.\<close>

theorem limiter_rate_bounded:
  assumes "limiter_wf l" and "rt_refill_per_s l \<le> 2 ^ 32"
    and "sorted (rt_last l # map fst calls)"
    and "elapsed = seconds (last (rt_last l # map fst calls) - rt_last l)"
  shows "limiter.granted calls l \<le> rt_tokens l + rt_refill_per_s l * elapsed +
    (5 * (rt_refill_per_s l * elapsed) + of_nat (length calls) * (2 * rt_capacity l + 1)) / 2 ^ 53"
  by (rule limiter.granted_bounded [OF assms(1,3,2,4)])

theorem limiter_rate_bounded_witness:
  "limiter.granted [(1000000000, 12), (3000000000, 12), (3000000000, 1)] (per_second 10 5 0) \<le>
     10 + 5 * 3 + (5 * (5 * 3) + 3 * (2 * 10 + 1)) / 2 ^ 53"
  using limiter_rate_bounded [OF limiter_wf_new(3), of 10 5 0 "[(1000000000, 12), (3000000000, 12), (3000000000, 1)]" 3]
  by (simp add: per_second_def limiter_with_def)

text \<open>The sweep of the gate keeps every limiter it has: a limiter that has been asked once is
  never full again when the sweep looks at it, however long it was left alone, because tokens
  come in only with the next call. So the maps of connection attempts are never pruned.\<close>

theorem used_limiter_never_full:
  assumes "new \<in> {per_minute burst n t0, per_hour burst n t0, per_second burst n t0}"
    and "burst \<noteq> 0" and "calls \<noteq> []"
  shows "\<not> limiter_is_full (fold (\<lambda>now l. fst (try_take now l)) calls new)"
proof -
  let ?take = "\<lambda>now l. fst (try_take now l)"
  have inv: "limiter_wf (fold ?take ts l) \<and> rt_capacity (fold ?take ts l) = rt_capacity l"
    if "limiter_wf l" for ts l
    using that by (induction ts arbitrary: l) (simp_all add: try_take_def try_take_n_wf)
  have new: "limiter_wf new" using assms(1) by auto
  have cap: "rt_capacity new = of_nat (unat burst)"
    using assms(1) by (auto simp: per_minute_def per_hour_def per_second_def limiter_with_def)
  obtain ts t where calls: "calls = ts @ [t]" using assms(3) by (cases calls rule: rev_cases) auto
  have "1 \<le> unat burst" using assms(2) by (simp add: Suc_le_eq unat_gt_0)
  moreover have "unat burst < 2 ^ 53" using unat_u32 [of burst] by simp
  ultimately show ?thesis
    using take_not_full [of "fold ?take ts new" "unat burst" t] inv [OF new, of ts] cap calls by simp
qed

theorem used_limiter_never_full_witness:
  "\<not> limiter_is_full (fold (\<lambda>now l. fst (try_take now l)) [5, 7000000000] (per_minute 4 4 0))"
  using used_limiter_never_full [of "per_minute 4 4 0" 4 4 0 "[5, 7000000000]"] by simp

text \<open>C36: No replay. After any run of calls, in the order of time, the set has at most 4096
  hashes, no hash was accepted twice within the same 120 seconds, and the next body is accepted
  exactly when its hash was not accepted in the last 120 seconds and fewer than 4096 were.\<close>

theorem seen_set_window:
  assumes "seen_run K calls = (s, hist)" and "sorted (call_times calls @ [swept_at])"
  shows "length s \<le> 4096 \<and>
    sorted_wrt (\<lambda>(h, u) (h', u'). h = h' \<longrightarrow> u + 120000000000 \<le> u') hist \<and>
    (snd (seen_accept K swept_at now sealed s) \<longleftrightarrow>
      (\<forall>(h, u) \<in> set hist. h = seal_hash K sealed \<longrightarrow> u + 120000000000 \<le> swept_at) \<and>
      length (filter (\<lambda>(_, u). swept_at < u + 120000000000) hist) < 4096)"
proof -
  have ok: "seen_ok swept_at hist s" by (rule seen_run_ok [OF assms])
  have window: "SEEN_WINDOW = 120000000000" by (simp add: SEEN_WINDOW_def from_secs_def)
  show ?thesis
    using ok seen_accepted_iff [OF ok order_refl, of K now sealed]
    by (simp add: seen_ok_def window recent_def SEEN_SET_CAP_def)
qed

theorem seen_set_window_witness:
  "(let run = seen_run demo_crypto [(1, 2, [7]), (3, 4, [8]), (5, 6, [7])] in
    map snd (snd run) = [2, 4] \<and>
    \<not> snd (seen_accept demo_crypto 9 10 [8] (fst run)) \<and> snd (seen_accept demo_crypto 9 10 [9] (fst run)))"
proof -
  let ?h = "seal_hash demo_crypto"
  have h: "?h [7] \<noteq> ?h [8]" "?h [7] \<noteq> ?h [9]" "?h [8] \<noteq> ?h [9]"
    by (simp_all add: seal_hash_def demo_crypto_def demo_hash_def)
  have run: "seen_run demo_crypto [(1, 2, [7]), (3, 4, [8]), (5, 6, [7])] =
      ([(?h [7], 2), (?h [8], 4)], [(?h [7], 2), (?h [8], 4)])"
    using h by (simp add: seen_run_def seen_step_def seen_accept_def seen_sweep_def Let_def SEEN_SET_CAP_def
        SEEN_WINDOW_def from_secs_def duration_since_def)
  show ?thesis
    using seen_set_window [OF run, of 9 10 "[8]"] seen_set_window [OF run, of 9 10 "[9]"] h
    unfolding run by simp
qed

text \<open>A member list that was written one key per line, in hexadecimal, loads as the set of
  its keys, and is refused when it has more than 256 of them. Whatever text is loaded, the
  members are keys of 32 bytes and there are at most 256.\<close>

theorem member_list_file:
  "(list_all (\<lambda>k. length k = 32) keys \<longrightarrow>
      member_list_load (Inr (member_text keys)) =
        (if card (set keys) \<le> 256 then Inr (set keys) else Inl (TooManyMembers (card (set keys))))) \<and>
   (member_list_load (Inr chars) = Inr members \<longrightarrow>
      card members \<le> 256 \<and> (\<forall>k \<in> members. length k = 32))"
proof (intro conjI impI)
  assume "list_all (\<lambda>k. length k = 32) keys"
  then show "member_list_load (Inr (member_text keys)) =
      (if card (set keys) \<le> 256 then Inr (set keys) else Inl (TooManyMembers (card (set keys))))"
    by (simp add: member_list_load_def member_text_lines member_lines_hex MAX_REGISTRATIONS_def)
next
  assume "member_list_load (Inr chars) = Inr members"
  then have "member_lines (lines_from [] chars) {} = Inr members" and size: "card members \<le> 256"
    by (auto simp: member_list_load_def MAX_REGISTRATIONS_def and_then_eq_Inr split: if_split_asm)
  then have "\<forall>k \<in> members. length k = 32" using member_lines_length by blast
  then show "card members \<le> 256" "\<forall>k \<in> members. length k = 32" using size by blast+
qed

theorem member_list_file_witness:
  "member_list_load (Inr (member_text [replicate 32 1, replicate 32 2, replicate 32 1])) =
     Inr {replicate 32 1, replicate 32 2}"
proof -
  have "replicate 32 1 \<noteq> replicate 32 (2 :: u8)" by (simp add: replicate_numeral)
  then have "card {replicate 32 1, replicate 32 (2 :: u8)} = 2" by simp
  then show ?thesis
    using member_list_file [of "[replicate 32 1, replicate 32 2, replicate 32 1]" "[]" "{}"]
    by (simp add: insert_absorb insert_commute)
qed

end
