(* ===== verification/Relay_Shaper.thy ===== *)
theory Relay_Shaper
  imports Rate_Limiter
begin

text \<open>
  The queue of one direction of a relay session (\<open>path.rs\<close>, \<open>RelayShaper\<close>): datagrams enter
  whole transmits at a time (house) or are dropped when there is no room (gate), and leave at
  a rate. A clone of a shaper shares the queue, so there is one state; each call runs under
  its lock. A waker is a number, and two are equal when they would wake the same task.
\<close>

section \<open>State\<close>

definition HOUSE_RELAY_QUEUE_DEPTH :: nat where "HOUSE_RELAY_QUEUE_DEPTH = 100"
definition GATE_RELAY_QUEUE_DEPTH :: nat where "GATE_RELAY_QUEUE_DEPTH = 24"
definition GATE_RELAY_RATE_HEADROOM :: rat where "GATE_RELAY_RATE_HEADROOM = f64_round (11 / 10)"
definition HOUSE_DRAIN_BURST :: nat where "HOUSE_DRAIN_BURST = 8"
definition HOUSE_TOKEN_CAP :: rat where "HOUSE_TOKEN_CAP = 16"
definition DELAY_SAMPLES :: nat where "DELAY_SAMPLES = 1024"
definition RELAY_DATAGRAMS_PER_SECOND :: u32 where "RELAY_DATAGRAMS_PER_SECOND = 2000"

datatype enqueued = Accepted | Full | ClosedQueue

type_synonym waker = nat

record relay_shaper =
  rs_depth :: nat
  rs_per_second :: rat
  rs_token_cap :: rat
  rs_burst :: nat
  rs_items :: "(instant \<times> bytes) list"
  rs_tokens :: rat
  rs_last_refill :: instant
  rs_delays_us :: "u64 list"
  rs_wakers :: "waker list"
  rs_closed :: bool
  rs_queued :: u64
  rs_bytes :: u64
  rs_dropped_at_full :: u64
  rs_backpressure :: u64
  rs_delay_max_us :: u64

definition shaper_new :: "nat \<Rightarrow> rat \<Rightarrow> nat \<Rightarrow> rat \<Rightarrow> instant \<Rightarrow> relay_shaper" where
  "shaper_new depth rate burst token_cap now = \<lparr>
     rs_depth = depth, rs_per_second = rate, rs_token_cap = token_cap, rs_burst = burst,
     rs_items = [], rs_tokens = 0, rs_last_refill = now, rs_delays_us = [], rs_wakers = [],
     rs_closed = False, rs_queued = 0, rs_bytes = 0, rs_dropped_at_full = 0,
     rs_backpressure = 0, rs_delay_max_us = 0 \<rparr>"

definition house_shaper :: "instant \<Rightarrow> relay_shaper" where
  "house_shaper =
     shaper_new HOUSE_RELAY_QUEUE_DEPTH (of_nat (unat RELAY_DATAGRAMS_PER_SECOND)) HOUSE_DRAIN_BURST HOUSE_TOKEN_CAP"

definition gate_shaper :: "instant \<Rightarrow> relay_shaper" where
  "gate_shaper =
     shaper_new GATE_RELAY_QUEUE_DEPTH
       (f64_round (of_nat (unat RELAY_DATAGRAMS_PER_SECOND) * GATE_RELAY_RATE_HEADROOM))
       GATE_RELAY_QUEUE_DEPTH (f64_round (of_nat GATE_RELAY_QUEUE_DEPTH))"

section \<open>Operations\<close>

definition sat_add_u64 :: "u64 \<Rightarrow> u64 \<Rightarrow> u64" where
  "sat_add_u64 a b = of_nat (min (unat a + unat b) (2 ^ 64 - 1))"

definition u64_of_len :: "bytes \<Rightarrow> u64" where
  "u64_of_len p = of_nat (min (length p) (2 ^ 64 - 1))"

text \<open>
  A length is a \<open>usize\<close> and there is no queue of \<open>2^64\<close> elements, so the saturating sum of
  two lengths is their sum.
\<close>

definition try_enqueue_all :: "instant \<Rightarrow> bytes list \<Rightarrow> relay_shaper \<Rightarrow> relay_shaper \<times> enqueued" where
  "try_enqueue_all now payloads s =
     (if payloads = [] then (s, Accepted)
      else if rs_closed s then (s, ClosedQueue)
      else if length (rs_items s) + length payloads > rs_depth s then
        (s\<lparr>rs_backpressure := rs_backpressure s + 1\<rparr>, Full)
      else
        (s\<lparr>rs_items := rs_items s @ map (Pair now) payloads,
           rs_queued := rs_queued s + of_nat (length payloads),
           rs_bytes := rs_bytes s + fold (\<lambda>p n. sat_add_u64 n (u64_of_len p)) payloads 0\<rparr>, Accepted))"

definition enqueue_or_drop :: "instant \<Rightarrow> bytes \<Rightarrow> relay_shaper \<Rightarrow> relay_shaper \<times> enqueued" where
  "enqueue_or_drop now payload s =
     (if rs_closed s then (s, ClosedQueue)
      else if length (rs_items s) \<ge> rs_depth s then
        (s\<lparr>rs_dropped_at_full := rs_dropped_at_full s + 1\<rparr>, Full)
      else
        (s\<lparr>rs_items := rs_items s @ [(now, payload)], rs_queued := rs_queued s + 1,
           rs_bytes := rs_bytes s + u64_of_len payload\<rparr>, Accepted))"

definition poll_room :: "nat \<Rightarrow> waker \<Rightarrow> relay_shaper \<Rightarrow> relay_shaper \<times> bool" where
  "poll_room wanted waker s =
     (if rs_closed s \<or> length (rs_items s) + wanted \<le> rs_depth s then (s, True)
      else
        (s\<lparr>rs_wakers := if waker \<in> set (rs_wakers s) then rs_wakers s else rs_wakers s @ [waker]\<rparr>, False))"

text \<open>The microseconds an item waited, capped to a \<open>u64\<close>.\<close>

definition waited_us :: "instant \<Rightarrow> instant \<Rightarrow> u64" where
  "waited_us now queued_at = of_nat (min (duration_since now queued_at div 1000) (2 ^ 64 - 1))"

definition pop_item :: "instant \<Rightarrow> instant \<times> bytes \<Rightarrow> relay_shaper \<Rightarrow> relay_shaper" where
  "pop_item now item s =
     (let waited = waited_us now (fst item); delays = rs_delays_us s @ [waited] in
      s\<lparr>rs_items := tl (rs_items s),
        rs_delays_us := drop (length delays - DELAY_SAMPLES) delays,
        rs_delay_max_us := max (rs_delay_max_us s) waited\<rparr>)"

definition shaper_refill :: "instant \<Rightarrow> relay_shaper \<Rightarrow> relay_shaper" where
  "shaper_refill now s =
     s\<lparr>rs_last_refill := now,
       rs_tokens := refilled now (rs_last_refill s) (rs_tokens s) (rs_per_second s) (rs_token_cap s)\<rparr>"

text \<open>\<open>Duration::from_secs_f64\<close> of a value that is not negative: to the nearest nanosecond.\<close>

definition from_secs_f64 :: "rat \<Rightarrow> duration" where
  "from_secs_f64 x = nat (round_even (x * 1000000000))"

text \<open>
  One pass of the loop of \<open>drain\<close>, up to the point where it returns or waits. The refill and
  the popping read the clock separately.
\<close>

datatype drain_next = Ready "bytes list" "waker list" | Sleep duration | Idle | ClosedNext

definition drain_pass :: "instant \<Rightarrow> instant \<Rightarrow> relay_shaper \<Rightarrow> relay_shaper \<times> drain_next" where
  "drain_pass refilled_at now s =
     (if rs_closed s then (s, ClosedNext)
      else
        (let s = shaper_refill refilled_at s in
         if rs_items s = [] then (s, Idle)
         else if rs_tokens s \<ge> 1 then
           (let budget = nat \<lfloor>rs_tokens s\<rfloor>;
                take_n = max (min (min budget (length (rs_items s))) (rs_burst s)) 1;
                s = s\<lparr>rs_tokens := f64_round (rs_tokens s - f64_round (of_nat take_n))\<rparr>;
                popped = take take_n (rs_items s);
                s = fold (pop_item now) popped s in
            (s\<lparr>rs_wakers := []\<rparr>, Ready (map snd popped) (rs_wakers s)))
         else
           (s, Sleep (from_secs_f64
              (f64_round (f64_round (1 - rs_tokens s) / rs_per_second s))))))"

definition shaper_close :: "relay_shaper \<Rightarrow> relay_shaper \<times> waker list" where
  "shaper_close s = (s\<lparr>rs_closed := True, rs_items := [], rs_wakers := []\<rparr>, rs_wakers s)"

section \<open>Counters\<close>

record shaper_stats =
  st_queued :: u64
  st_bytes :: u64
  st_delay_p50_us :: u64
  st_delay_max_us :: u64
  st_dropped_at_full :: u64
  st_backpressure :: u64

definition shaper_stats_of :: "relay_shaper \<Rightarrow> shaper_stats" where
  "shaper_stats_of s =
     (let samples = sort (rs_delays_us s);
          p50 = (if length samples div 2 < length samples then samples ! (length samples div 2) else 0) in
      \<lparr>st_queued = rs_queued s, st_bytes = rs_bytes s, st_delay_p50_us = p50,
       st_delay_max_us = rs_delay_max_us s, st_dropped_at_full = rs_dropped_at_full s,
       st_backpressure = rs_backpressure s\<rparr>)"

definition stats_merged :: "shaper_stats \<Rightarrow> shaper_stats \<Rightarrow> shaper_stats" where
  "stats_merged a b =
     \<lparr>st_queued = sat_add_u64 (st_queued a) (st_queued b), st_bytes = sat_add_u64 (st_bytes a) (st_bytes b),
      st_delay_p50_us = max (st_delay_p50_us a) (st_delay_p50_us b),
      st_delay_max_us = max (st_delay_max_us a) (st_delay_max_us b),
      st_dropped_at_full = sat_add_u64 (st_dropped_at_full a) (st_dropped_at_full b),
      st_backpressure = sat_add_u64 (st_backpressure a) (st_backpressure b)\<rparr>"

section \<open>Well-formed shapers\<close>

definition shaper_wf :: "relay_shaper \<Rightarrow> bool" where
  "shaper_wf s \<longleftrightarrow>
     0 \<le> rs_tokens s \<and> rs_tokens s \<le> rs_token_cap s \<and>
     1 \<le> rs_token_cap s \<and> rs_token_cap s \<le> 2 ^ 32 \<and> f64_round (rs_token_cap s) = rs_token_cap s \<and>
     0 \<le> rs_per_second s \<and> rs_per_second s \<le> 2 ^ 32 \<and> 1 \<le> rs_burst s \<and>
     length (rs_items s) \<le> rs_depth s \<and> length (rs_delays_us s) \<le> DELAY_SAMPLES \<and>
     distinct (rs_wakers s) \<and> (rs_closed s \<longrightarrow> rs_items s = [])"

lemma shaper_new_wf:
  assumes "1 \<le> cap" and "cap \<le> 2 ^ 32" and "f64_round cap = cap" and "0 \<le> rate" and "rate \<le> 2 ^ 32"
    and "1 \<le> burst"
  shows "shaper_wf (shaper_new depth rate burst cap now)"
  using assms by (simp add: shaper_new_def shaper_wf_def)

lemma house_shaper_wf: "shaper_wf (house_shaper now)"
  using f64_round_nat [of 16]
  by (auto simp: house_shaper_def HOUSE_TOKEN_CAP_def HOUSE_DRAIN_BURST_def RELAY_DATAGRAMS_PER_SECOND_def
      intro!: shaper_new_wf)

lemma headroom_bounds: "1 \<le> GATE_RELAY_RATE_HEADROOM" "GATE_RELAY_RATE_HEADROOM \<le> 2"
  using f64_round_mono [of 1 "11 / 10"] f64_round_nat [of 1] f64_round_mono [of "11 / 10" 2] f64_round_nat [of 2]
  by (simp_all add: GATE_RELAY_RATE_HEADROOM_def)

lemma gate_rate_bounds:
  "2000 \<le> f64_round (2000 * GATE_RELAY_RATE_HEADROOM)" "f64_round (2000 * GATE_RELAY_RATE_HEADROOM) \<le> 4000"
  using f64_round_mono [of 2000 "2000 * GATE_RELAY_RATE_HEADROOM"] f64_round_nat [of 2000]
    f64_round_mono [of "2000 * GATE_RELAY_RATE_HEADROOM" 4000] f64_round_nat [of 4000] headroom_bounds
  by simp_all

lemma gate_shaper_wf: "shaper_wf (gate_shaper now)"
  using f64_round_nat [of 24] gate_rate_bounds
  by (auto simp: gate_shaper_def GATE_RELAY_QUEUE_DEPTH_def RELAY_DATAGRAMS_PER_SECOND_def
      intro!: shaper_new_wf)

section \<open>One pass of the drain\<close>

lemma fold_pop_frame:
  "length xs \<le> length (rs_items s) \<Longrightarrow>
     rs_items (fold (pop_item now) xs s) = drop (length xs) (rs_items s)"
  "rs_depth (fold (pop_item now) xs s) = rs_depth s"
  "rs_per_second (fold (pop_item now) xs s) = rs_per_second s"
  "rs_token_cap (fold (pop_item now) xs s) = rs_token_cap s"
  "rs_burst (fold (pop_item now) xs s) = rs_burst s"
  "rs_tokens (fold (pop_item now) xs s) = rs_tokens s"
  "rs_last_refill (fold (pop_item now) xs s) = rs_last_refill s"
  "rs_wakers (fold (pop_item now) xs s) = rs_wakers s"
  "rs_closed (fold (pop_item now) xs s) = rs_closed s"
  "length (rs_delays_us s) \<le> DELAY_SAMPLES \<Longrightarrow> length (rs_delays_us (fold (pop_item now) xs s)) \<le> DELAY_SAMPLES"
  by (induction xs arbitrary: s) (simp_all add: pop_item_def Let_def drop_Suc)

text \<open>How many datagrams a pass hands over, when it hands over any.\<close>

definition drain_count :: "instant \<Rightarrow> relay_shaper \<Rightarrow> nat" where
  "drain_count refilled_at s =
     max (min (min (nat \<lfloor>rs_tokens (shaper_refill refilled_at s)\<rfloor>) (length (rs_items s))) (rs_burst s)) 1"

lemma refill_frame [simp]:
  "rs_items (shaper_refill t s) = rs_items s" "rs_depth (shaper_refill t s) = rs_depth s"
  "rs_per_second (shaper_refill t s) = rs_per_second s" "rs_token_cap (shaper_refill t s) = rs_token_cap s"
  "rs_burst (shaper_refill t s) = rs_burst s" "rs_wakers (shaper_refill t s) = rs_wakers s"
  "rs_closed (shaper_refill t s) = rs_closed s" "rs_delays_us (shaper_refill t s) = rs_delays_us s"
  "rs_last_refill (shaper_refill t s) = t"
  "rs_tokens (shaper_refill t s) =
     refilled t (rs_last_refill s) (rs_tokens s) (rs_per_second s) (rs_token_cap s)"
  by (simp_all add: shaper_refill_def)

lemma shaper_refill_wf: "shaper_wf s \<Longrightarrow> shaper_wf (shaper_refill t s)"
  using refilled_bounds [of "rs_tokens s" "rs_per_second s" "rs_token_cap s"] by (auto simp: shaper_wf_def)

lemma drain_count_bounds:
  assumes "shaper_wf s" and "rs_items s \<noteq> []" and "1 \<le> rs_tokens (shaper_refill t s)"
  shows "1 \<le> drain_count t s" and "drain_count t s \<le> rs_burst s" and "drain_count t s \<le> length (rs_items s)"
    and "of_nat (drain_count t s) \<le> rs_tokens (shaper_refill t s)"
    and "f64_round (of_nat (drain_count t s)) = of_nat (drain_count t s)"
proof -
  let ?x = "rs_tokens (shaper_refill t s)"
  have len: "1 \<le> length (rs_items s)" using assms(2) by (simp add: Suc_le_eq)
  show "1 \<le> drain_count t s" by (simp add: drain_count_def)
  show "drain_count t s \<le> rs_burst s" "drain_count t s \<le> length (rs_items s)"
    using assms(1) len by (auto simp: drain_count_def shaper_wf_def)
  have "1 \<le> nat \<lfloor>?x\<rfloor>" using assms(3) by (simp add: le_nat_iff le_floor_iff)
  then have "drain_count t s \<le> nat \<lfloor>?x\<rfloor>" using len assms(1) unfolding drain_count_def shaper_wf_def by linarith
  also have "(of_nat (nat \<lfloor>?x\<rfloor>) :: rat) \<le> ?x" using assms(3) by (simp add: of_nat_nat)
  finally show le: "of_nat (drain_count t s) \<le> ?x" by simp
  have "(of_nat (drain_count t s) :: rat) \<le> of_nat (2 ^ 32)"
    using le shaper_refill_wf [OF assms(1), of t] unfolding shaper_wf_def by simp
  then have "drain_count t s \<le> 2 ^ 32" by (simp only: of_nat_le_iff)
  then show "f64_round (of_nat (drain_count t s)) = of_nat (drain_count t s)"
    by (intro f64_round_nat) simp
qed

lemma drain_pass_cases:
  assumes "shaper_wf s" and "drain_pass t now s = (s', next)"
  obtains (closed) "rs_closed s" "s' = s" "next = ClosedNext"
  | (idle) "\<not> rs_closed s" "rs_items s = []" "s' = shaper_refill t s" "next = Idle"
  | (sleep) "\<not> rs_closed s" "rs_items s \<noteq> []" "rs_tokens (shaper_refill t s) < 1" "s' = shaper_refill t s"
      "next = Sleep (from_secs_f64 (f64_round (f64_round (1 - rs_tokens s') / rs_per_second s)))"
  | (ready) "\<not> rs_closed s" "rs_items s \<noteq> []" "1 \<le> rs_tokens (shaper_refill t s)"
      "next = Ready (map snd (take (drain_count t s) (rs_items s))) (rs_wakers s)"
      "rs_items s' = drop (drain_count t s) (rs_items s)"
      "rs_tokens s' = f64_round (rs_tokens (shaper_refill t s) - of_nat (drain_count t s))"
      "rs_last_refill s' = t" "rs_wakers s' = []" "\<not> rs_closed s'" "rs_depth s' = rs_depth s"
      "rs_per_second s' = rs_per_second s" "rs_token_cap s' = rs_token_cap s" "rs_burst s' = rs_burst s"
      "length (rs_delays_us s') \<le> DELAY_SAMPLES"
proof (cases "rs_closed s \<or> rs_items s = [] \<or> rs_tokens (shaper_refill t s) < 1")
  case True
  then show thesis
    using assms(2) closed idle sleep by (auto simp: drain_pass_def Let_def split: if_splits)
next
  case False
  then have open_state: "\<not> rs_closed s" "rs_items s \<noteq> []" "1 \<le> rs_tokens (shaper_refill t s)" by auto
  note b = drain_count_bounds [OF assms(1) open_state(2,3)]
  define k where "k = drain_count t s"
  define u where "u = shaper_refill t s\<lparr>rs_tokens := f64_round (rs_tokens (shaper_refill t s) - f64_round (of_nat k))\<rparr>"
  have res: "drain_pass t now s =
      ((fold (pop_item now) (take k (rs_items s)) u)\<lparr>rs_wakers := []\<rparr>,
       Ready (map snd (take k (rs_items s))) (rs_wakers (fold (pop_item now) (take k (rs_items s)) u)))"
    using open_state by (simp add: drain_pass_def Let_def k_def u_def drain_count_def del: refill_frame(10))
  have "length (rs_delays_us u) \<le> DELAY_SAMPLES" "length (take k (rs_items s)) \<le> length (rs_items u)"
    using assms(1) by (simp_all add: u_def shaper_wf_def)
  then show thesis
    using assms(2) open_state b(3,5) unfolding res
    by (intro ready) (auto simp: fold_pop_frame u_def k_def min_absorb2)
qed

lemma drain_pass_wf:
  assumes "shaper_wf s"
  shows "shaper_wf (fst (drain_pass t now s))"
proof -
  obtain s' n where res: "drain_pass t now s = (s', n)" by (cases "drain_pass t now s")
  from assms res have "shaper_wf s'"
  proof (cases rule: drain_pass_cases)
    case ready
    note b = drain_count_bounds [OF assms ready(2,3)]
    have "0 \<le> rs_tokens s'" "rs_tokens s' \<le> rs_token_cap s'"
      using drawn_bounds [OF _ b(4), of "rs_token_cap s"] shaper_refill_wf [OF assms, of t]
      by (simp_all add: ready shaper_wf_def)
    then show ?thesis using ready assms by (auto simp: shaper_wf_def)
  qed (use assms shaper_refill_wf in auto)
  then show ?thesis by (simp add: res)
qed

end
