(* ===== verification/Shaper_Laws.thy ===== *)
theory Shaper_Laws
  imports Relay_Shaper
begin

text \<open>
  What a shaper promises: it is a queue (a refinement of one), a bucket (an instance of the
  interface of \<open>Rate_Limiter\<close>), and it wakes whoever waits for room.
\<close>

section \<open>Calls\<close>

text \<open>A call with its own reading of the clock; a drain pass has a second one, for the popping.\<close>

datatype shaper_call =
    TryEnqueueAll "bytes list" | EnqueueOrDrop bytes | PollRoom nat waker | DrainPass instant | CloseShaper

text \<open>A step yields the new state, the datagrams that entered and the ones that left.\<close>

fun shaper_step :: "instant \<Rightarrow> shaper_call \<Rightarrow> relay_shaper \<Rightarrow> relay_shaper \<times> bytes list \<times> bytes list" where
  "shaper_step now (TryEnqueueAll ps) s =
     (case try_enqueue_all now ps s of (s, r) \<Rightarrow> (s, if r = Accepted then ps else [], []))"
| "shaper_step now (EnqueueOrDrop p) s =
     (case enqueue_or_drop now p s of (s, r) \<Rightarrow> (s, if r = Accepted then [p] else [], []))"
| "shaper_step now (PollRoom wanted waker) s = (fst (poll_room wanted waker s), [], [])"
| "shaper_step now (DrainPass popped_at) s =
     (case drain_pass now popped_at s of
        (s, Ready ps _) \<Rightarrow> (s, [], ps)
      | (s, _) \<Rightarrow> (s, [], []))"
| "shaper_step now CloseShaper s = (fst (shaper_close s), [], [])"

fun shaper_run :: "(instant \<times> shaper_call) list \<Rightarrow> relay_shaper \<Rightarrow> relay_shaper \<times> bytes list \<times> bytes list" where
  "shaper_run [] s = (s, [], [])"
| "shaper_run ((now, c) # calls) s =
     (case shaper_step now c s of (s, entered, left) \<Rightarrow>
      (case shaper_run calls s of (s, entered', left') \<Rightarrow> (s, entered @ entered', left @ left')))"

lemma shaper_step_wf: "shaper_wf s \<Longrightarrow> shaper_wf (fst (shaper_step now c s))"
proof (cases c)
  case (DrainPass popped_at)
  then show "shaper_wf s \<Longrightarrow> ?thesis"
    using drain_pass_wf [of s now popped_at] by (auto split: prod.split drain_next.split)
qed (auto simp: shaper_wf_def try_enqueue_all_def enqueue_or_drop_def poll_room_def shaper_close_def)

section \<open>A shaper is a queue\<close>

text \<open>
  The abstract queue: contents, a depth, and whether it is open. A put is all or nothing; a
  get takes any number from the front, and what is discarded at the end is the contents.
\<close>

record fifo =
  fq_contents :: "bytes list"
  fq_depth :: nat
  fq_open :: bool

definition fifo_put :: "bytes list \<Rightarrow> fifo \<Rightarrow> fifo \<times> bytes list" where
  "fifo_put ps q =
     (if fq_open q \<and> length (fq_contents q) + length ps \<le> fq_depth q
      then (q\<lparr>fq_contents := fq_contents q @ ps\<rparr>, ps) else (q, []))"

definition fifo_get :: "nat \<Rightarrow> fifo \<Rightarrow> fifo \<times> bytes list" where
  "fifo_get k q = (q\<lparr>fq_contents := drop k (fq_contents q)\<rparr>, take k (fq_contents q))"

definition fifo_end :: "fifo \<Rightarrow> fifo" where
  "fifo_end q = q\<lparr>fq_contents := [], fq_open := False\<rparr>"

definition shaper_abs :: "relay_shaper \<Rightarrow> fifo" where
  "shaper_abs s = \<lparr>fq_contents = map snd (rs_items s), fq_depth = rs_depth s, fq_open = (\<not> rs_closed s)\<rparr>"

lemma put_refines:
  "shaper_step now (TryEnqueueAll ps) s = (s', entered, left) \<Longrightarrow> ps \<noteq> [] \<Longrightarrow>
     fifo_put ps (shaper_abs s) = (shaper_abs s', entered) \<and> left = []"
  "shaper_step now (EnqueueOrDrop p) s = (s', entered, left) \<Longrightarrow>
     fifo_put [p] (shaper_abs s) = (shaper_abs s', entered) \<and> left = []"
  by (auto simp: try_enqueue_all_def enqueue_or_drop_def fifo_put_def shaper_abs_def comp_def
      split: if_splits)

lemma get_refines:
  assumes "shaper_wf s" and "shaper_step now (DrainPass popped_at) s = (s', entered, left)"
  shows "entered = [] \<and> length left \<le> rs_burst s \<and>
    fifo_get (length left) (shaper_abs s) = (shaper_abs s', left)"
proof -
  obtain t n where res: "drain_pass now popped_at s = (t, n)" by (cases "drain_pass now popped_at s")
  from assms(1) res show ?thesis
  proof (cases rule: drain_pass_cases)
    case ready
    have "length (map snd (take (drain_count now s) (rs_items s))) = drain_count now s"
      using drain_count_bounds(3) [OF assms(1) ready(2,3)] by simp
    then show ?thesis
      using assms res ready drain_count_bounds(2) [OF assms(1) ready(2,3)]
      by (auto simp: fifo_get_def shaper_abs_def take_map drop_map)
  qed (use assms res in \<open>auto simp: fifo_get_def shaper_abs_def\<close>)
qed

lemma other_refines:
  "shaper_step now (PollRoom wanted waker) s = (s', entered, left) \<Longrightarrow>
     shaper_abs s' = shaper_abs s \<and> entered = [] \<and> left = []"
  "shaper_step now CloseShaper s = (s', entered, left) \<Longrightarrow>
     shaper_abs s' = fifo_end (shaper_abs s) \<and> entered = [] \<and> left = []"
  by (auto simp: poll_room_def shaper_close_def shaper_abs_def fifo_end_def split: if_splits)

text \<open>The abstract step of a call; a drain takes a number of elements that the rate decides.\<close>

fun fifo_step :: "nat \<Rightarrow> shaper_call \<Rightarrow> fifo \<Rightarrow> fifo \<times> bytes list \<times> bytes list" where
  "fifo_step k (TryEnqueueAll ps) q = (case fifo_put ps q of (q, entered) \<Rightarrow> (q, entered, []))"
| "fifo_step k (EnqueueOrDrop p) q = (case fifo_put [p] q of (q, entered) \<Rightarrow> (q, entered, []))"
| "fifo_step k (PollRoom wanted waker) q = (q, [], [])"
| "fifo_step k (DrainPass popped_at) q = (case fifo_get k q of (q, left) \<Rightarrow> (q, [], left))"
| "fifo_step k CloseShaper q = (fifo_end q, [], [])"

lemma step_refines:
  assumes "shaper_wf s" and "shaper_step now c s = (s', entered, left)"
  shows "length left \<le> rs_burst s \<and> fifo_step (length left) c (shaper_abs s) = (shaper_abs s', entered, left)"
proof (cases c)
  case (TryEnqueueAll ps)
  show ?thesis
  proof (cases "ps = []")
    case True
    then have "s' = s" "entered = []" "left = []"
      using assms(2) by (simp_all add: TryEnqueueAll try_enqueue_all_def)
    then show ?thesis using True by (simp add: TryEnqueueAll fifo_put_def)
  next
    case False
    then show ?thesis using put_refines(1) [OF assms(2) [unfolded TryEnqueueAll]] by (auto simp: TryEnqueueAll)
  qed
next
  case (EnqueueOrDrop p)
  then show ?thesis using put_refines(2) [OF assms(2) [unfolded EnqueueOrDrop]] by (auto simp: EnqueueOrDrop)
next
  case (PollRoom wanted waker)
  then show ?thesis using other_refines(1) [OF assms(2) [unfolded PollRoom]] by (auto simp: PollRoom)
next
  case (DrainPass popped_at)
  then show ?thesis using get_refines [OF assms(1) assms(2) [unfolded DrainPass]] by (auto simp: DrainPass)
next
  case CloseShaper
  then show ?thesis using other_refines(2) [OF assms(2) [unfolded CloseShaper]] by (auto simp: CloseShaper)
qed

text \<open>One step on the contents: what entered is behind what was there, and the front leaves.\<close>

lemma shaper_step_queue:
  assumes "shaper_wf s" and "shaper_step now c s = (s', entered, left)"
  shows "(rs_closed s \<longrightarrow> rs_closed s' \<and> entered = [] \<and> left = []) \<and>
    (\<not> rs_closed s' \<longrightarrow> map snd (rs_items s) @ entered = left @ map snd (rs_items s')) \<and>
    (\<not> rs_closed s \<and> rs_closed s' \<longrightarrow> entered = [] \<and> left = [])"
proof (cases c)
  case (DrainPass popped_at)
  note r = get_refines [OF assms(1) assms(2) [unfolded DrainPass]]
  have parts: "take (length left) (map snd (rs_items s)) = left"
    "drop (length left) (map snd (rs_items s)) = map snd (rs_items s')" "rs_closed s' = rs_closed s"
    using r by (auto simp: fifo_get_def shaper_abs_def)
  then have "map snd (rs_items s) = left @ map snd (rs_items s')" by (metis append_take_drop_id)
  then show ?thesis using r parts(3) assms(1) by (auto simp: shaper_wf_def)
qed (use assms in \<open>auto simp: try_enqueue_all_def enqueue_or_drop_def poll_room_def shaper_close_def comp_def
    split: if_splits\<close>)

lemma shaper_run_queue:
  assumes "shaper_wf s" and "shaper_run calls s = (s', entered, left)"
  shows "shaper_wf s' \<and> (rs_closed s \<longrightarrow> rs_closed s' \<and> entered = [] \<and> left = []) \<and>
    (\<exists>lost. map snd (rs_items s) @ entered = left @ lost \<and> length lost \<le> rs_depth s \<and>
       rs_depth s' = rs_depth s \<and> (\<not> rs_closed s' \<longrightarrow> lost = map snd (rs_items s')))"
  using assms
proof (induction calls arbitrary: s entered left)
  case Nil
  then show ?case by (auto simp: shaper_wf_def)
next
  case (Cons call calls)
  obtain now c where call: "call = (now, c)" by (cases call)
  obtain t e l where step: "shaper_step now c s = (t, e, l)" by (cases "shaper_step now c s")
  obtain e' l' where run: "shaper_run calls t = (s', e', l')" "entered = e @ e'" "left = l @ l'"
    using Cons.prems(2) by (auto simp: call step split: prod.splits)
  have depth: "rs_depth t = rs_depth s"
    using step Cons.prems(1)
    by (cases c) (auto simp: try_enqueue_all_def enqueue_or_drop_def poll_room_def shaper_close_def
        elim!: drain_pass_cases split: if_splits prod.splits drain_next.splits)
  have wf: "shaper_wf t" using shaper_step_wf [OF Cons.prems(1), of now c] step by simp
  note q = shaper_step_queue [OF Cons.prems(1) step]
  from Cons.IH [OF wf run(1)] obtain lost where ih: "shaper_wf s'"
    "rs_closed t \<longrightarrow> rs_closed s' \<and> e' = [] \<and> l' = []" "map snd (rs_items t) @ e' = l' @ lost"
    "length lost \<le> rs_depth t" "rs_depth s' = rs_depth t" "\<not> rs_closed s' \<longrightarrow> lost = map snd (rs_items s')"
    by blast
  show ?case
  proof (cases "rs_closed t")
    case True
    then have "entered = [] \<and> left = []" using q ih(2) run(2,3) by auto
    moreover have "length (rs_items s) \<le> rs_depth s" using Cons.prems(1) by (simp add: shaper_wf_def)
    ultimately show ?thesis using True ih depth q
      by (intro conjI exI [of _ "map snd (rs_items s)"]) auto
  next
    case False
    then have "\<not> rs_closed s" "map snd (rs_items s) @ e = l @ map snd (rs_items t)" using q by auto
    note front = this(2)
    have "map snd (rs_items s) @ entered = (map snd (rs_items s) @ e) @ e'" by (simp add: run(2))
    also have "\<dots> = (l @ map snd (rs_items t)) @ e'" by (simp only: front)
    also have "\<dots> = left @ lost" using ih(3) run(3) by simp
    finally show ?thesis using ih depth \<open>\<not> rs_closed s\<close> by auto
  qed
qed

section \<open>A shaper is a bucket\<close>

text \<open>What a call takes out of the bucket is the number of datagrams that leave.\<close>

definition shaper_draw :: "instant \<Rightarrow> shaper_call \<Rightarrow> relay_shaper \<Rightarrow> relay_shaper \<times> rat" where
  "shaper_draw now c s = (case shaper_step now c s of (s, entered, left) \<Rightarrow> (s, of_nat (length left)))"

lemma call_error_nonneg: "0 \<le> r \<Longrightarrow> 0 \<le> c \<Longrightarrow> 0 \<le> call_error r c"
  by (simp add: call_error_def)

lemma shaper_draw_bucket:
  assumes "shaper_wf s"
  shows "rs_tokens (fst (shaper_draw now c s)) + snd (shaper_draw now c s) \<le>
      rs_tokens s + rate_error (rs_per_second s) * seconds (rs_last_refill (fst (shaper_draw now c s)) - rs_last_refill s) +
      call_error (rs_per_second s) (rs_token_cap s) \<and>
    (rs_last_refill (fst (shaper_draw now c s)) = now \<or>
     rs_last_refill (fst (shaper_draw now c s)) = rs_last_refill s) \<and>
    rs_per_second (fst (shaper_draw now c s)) = rs_per_second s \<and>
    rs_token_cap (fst (shaper_draw now c s)) = rs_token_cap s"
proof -
  have wf: "0 \<le> rs_tokens s" "0 \<le> rs_per_second s" "0 \<le> rs_token_cap s"
    using assms by (simp_all add: shaper_wf_def)
  note err = call_error_nonneg [OF wf(2,3)]
  show ?thesis
  proof (cases c)
    case (DrainPass popped_at)
    obtain s' n where res: "drain_pass now popped_at s = (s', n)" by (cases "drain_pass now popped_at s")
    define t where "t = rs_tokens (shaper_refill now s)"
    have up: "t \<le> rs_tokens s + rate_error (rs_per_second s) * seconds (now - rs_last_refill s) +
        eps * rs_token_cap s + (8 * rs_per_second s + 2) * tiny" "t \<le> rs_token_cap s"
      using refilled_upper [OF wf] refilled_bounds(2) [OF wf] by (simp_all add: t_def)
    have split_err: "call_error (rs_per_second s) (rs_token_cap s) =
        2 * (eps * rs_token_cap s) + (8 * rs_per_second s + 2) * tiny + tiny"
      by (simp add: call_error_def algebra_simps)
    have part: "0 \<le> eps * rs_token_cap s" using wf by simp
    then have le: "t \<le> rs_tokens s + rate_error (rs_per_second s) * seconds (now - rs_last_refill s) +
        call_error (rs_per_second s) (rs_token_cap s)"
      using up split_err tiny_pos by linarith
    from assms res show ?thesis
    proof (cases rule: drain_pass_cases)
      case ready
      note b = drain_count_bounds [OF assms ready(2,3)]
      let ?k = "drain_count now s"
      have left: "length (take ?k (rs_items s)) = ?k" using b(3) by simp
      have "f64_round (t - of_nat ?k) + of_nat ?k \<le> t + eps * rs_token_cap s + tiny"
        using b(4) up(2) by (intro draw_upper) (simp_all add: t_def)
      then have "f64_round (t - of_nat ?k) + of_nat ?k \<le>
          rs_tokens s + rate_error (rs_per_second s) * seconds (now - rs_last_refill s) +
          call_error (rs_per_second s) (rs_token_cap s)"
        using up(1) split_err by linarith
      then show ?thesis using DrainPass res ready left by (simp add: shaper_draw_def t_def)
    qed (use DrainPass res le err in \<open>simp_all add: shaper_draw_def t_def\<close>)
  qed (use err in \<open>auto simp: shaper_draw_def try_enqueue_all_def enqueue_or_drop_def poll_room_def
      shaper_close_def\<close>)
qed

interpretation shaper: token_bucket rs_tokens rs_last_refill rs_per_second rs_token_cap shaper_wf shaper_draw
proof
  fix now c s
  assume wf: "shaper_wf s"
  note b = shaper_draw_bucket [OF wf, of now c]
  show "0 \<le> rs_tokens s \<and> rs_tokens s \<le> rs_token_cap s \<and> 0 \<le> rs_per_second s"
    using wf by (simp add: shaper_wf_def)
  have "fst (shaper_draw now c s) = fst (shaper_step now c s)"
    by (simp add: shaper_draw_def split_beta)
  then show "shaper_wf (fst (shaper_draw now c s))" using shaper_step_wf [OF wf] by simp
  show "rs_last_refill s \<le> now \<Longrightarrow>
      rs_last_refill s \<le> rs_last_refill (fst (shaper_draw now c s)) \<and>
      rs_last_refill (fst (shaper_draw now c s)) \<le> now"
    using b by auto
qed (use shaper_draw_bucket in blast)+

lemma shaper_granted:
  "shaper.granted calls s = of_nat (length (snd (snd (shaper_run calls s))))"
proof (induction calls arbitrary: s)
  case (Cons call calls)
  obtain now c where call: "call = (now, c)" by (cases call)
  have "shaper.granted (call # calls) s =
      snd (shaper_draw now c s) + shaper.granted calls (fst (shaper_draw now c s))"
    unfolding call shaper.granted.simps Let_def ..
  also have "\<dots> = of_nat (length (snd (snd (shaper_run (call # calls) s))))"
    unfolding Cons.IH by (simp add: call shaper_draw_def split_beta)
  finally show ?case .
qed (simp only: shaper.granted.simps shaper_run.simps, simp)

section \<open>Waiting for room\<close>

text \<open>Whoever is told that there is no room is woken by the next pass that frees some.\<close>

lemma poll_room_iff:
  "snd (poll_room (length ps) waker s) \<longleftrightarrow> snd (try_enqueue_all now ps s) \<noteq> Full \<or> rs_closed s"
  if "ps \<noteq> []"
  using that by (auto simp: poll_room_def try_enqueue_all_def)

lemma poll_room_waits:
  "\<not> snd (poll_room wanted waker s) \<Longrightarrow> waker \<in> set (rs_wakers (fst (poll_room wanted waker s)))"
  by (auto simp: poll_room_def split: if_splits)

lemma step_keeps_waiting:
  assumes "shaper_wf s" and "waker \<in> set (rs_wakers s)" and "shaper_step now c s = (s', entered, left)"
    and "left = []" and "c \<noteq> CloseShaper"
  shows "waker \<in> set (rs_wakers s')"
proof (cases c)
  case (DrainPass popped_at)
  obtain t n where res: "drain_pass now popped_at s = (t, n)" by (cases "drain_pass now popped_at s")
  from assms(1) res show ?thesis
  proof (cases rule: drain_pass_cases)
    case ready
    then show ?thesis using DrainPass assms res drain_count_bounds(1) [OF assms(1) ready(2,3)] by auto
  qed (use DrainPass assms res in auto)
qed (use assms in \<open>auto simp: try_enqueue_all_def enqueue_or_drop_def poll_room_def split: if_splits\<close>)

lemma run_keeps_waiting:
  assumes "shaper_wf s" and "waker \<in> set (rs_wakers s)" and "shaper_run calls s = (s', entered, [])"
    and "CloseShaper \<notin> snd ` set calls"
  shows "waker \<in> set (rs_wakers s') \<and> shaper_wf s'"
  using assms
proof (induction calls arbitrary: s entered)
  case (Cons call calls)
  obtain now c where call: "call = (now, c)" by (cases call)
  obtain t e l where step: "shaper_step now c s = (t, e, l)" by (cases "shaper_step now c s")
  obtain e' where run: "shaper_run calls t = (s', e', [])" "l = []"
    using Cons.prems(3) by (auto simp: call step split: prod.splits)
  have "waker \<in> set (rs_wakers t)"
    using step_keeps_waiting [OF Cons.prems(1,2) step run(2)] Cons.prems(4) by (auto simp: call)
  moreover have "shaper_wf t" using shaper_step_wf [OF Cons.prems(1), of now c] step by simp
  ultimately show ?case using Cons.IH [OF _ _ run(1)] Cons.prems(4) by auto
qed auto

text \<open>The constants of a shaper stay.\<close>

lemma shaper_step_constants:
  assumes "shaper_wf s"
  shows "rs_per_second (fst (shaper_step now c s)) = rs_per_second s \<and>
    rs_token_cap (fst (shaper_step now c s)) = rs_token_cap s"
  using shaper_draw_bucket [OF assms, of now c] by (simp add: shaper_draw_def split_beta)

lemma shaper_run_constants:
  assumes "shaper_wf s" and "shaper_run calls s = (s', entered, left)"
  shows "shaper_wf s' \<and> rs_per_second s' = rs_per_second s \<and> rs_token_cap s' = rs_token_cap s"
  using assms
proof (induction calls arbitrary: s entered left)
  case (Cons call calls)
  obtain now c where call: "call = (now, c)" by (cases call)
  then obtain e l where run: "shaper_run calls (fst (shaper_step now c s)) = (s', e, l)"
    using Cons.prems(2) by (auto split: prod.splits)
  show ?case
    using Cons.IH [OF shaper_step_wf [OF Cons.prems(1)] run] shaper_step_constants [OF Cons.prems(1), of now c]
    by simp
qed simp

section \<open>Progress\<close>

text \<open>At the rates of the code, a pass that comes a millisecond after the last refill finds a token.\<close>

lemma drain_pass_progress:
  assumes "shaper_wf s" and "2000 \<le> rs_per_second s" and "\<not> rs_closed s" and "rs_items s \<noteq> []"
    and "rs_last_refill s + 1000000 \<le> now" and "drain_pass now popped_at s = (s', next)"
  shows "\<exists>ps wakers. next = Ready ps wakers \<and> ps \<noteq> []"
proof -
  have "1 \<le> rs_tokens (shaper_refill now s)"
    using refilled_one [of "now" "rs_last_refill s" "rs_per_second s" "rs_tokens s" "rs_token_cap s"] assms(1,2,5)
    by (simp add: shaper_wf_def)
  note one = this
  then have "1 \<le> drain_count now s" by (rule drain_count_bounds(1) [OF assms(1,4)])
  then have "take (drain_count now s) (rs_items s) \<noteq> []" using assms(4) by simp
  then show ?thesis
    by (cases rule: drain_pass_cases [OF assms(1,6)]) (use assms(3,4) one in simp_all)
qed

text \<open>A pass that waits for a token waits for half a millisecond at most.\<close>

lemma drain_pass_sleep:
  assumes "shaper_wf s" and "2000 \<le> rs_per_second s" and "drain_pass now popped_at s = (s', Sleep d)"
  shows "d \<le> 500001"
proof -
  from assms(1,3) show ?thesis
  proof (cases rule: drain_pass_cases)
    case sleep
    have t: "0 \<le> rs_tokens s'" using shaper_refill_wf [OF assms(1)] sleep(4) by (simp add: shaper_wf_def)
    then have "f64_round (1 - rs_tokens s') \<le> f64_round 1"
      using sleep(3,4) by (intro f64_round_mono) simp_all
    then have "f64_round (1 - rs_tokens s') / rs_per_second s \<le> 1 / 2000"
      using f64_round_nat [of 1] assms(2) by (intro frac_le) simp_all
    then have "f64_round (f64_round (1 - rs_tokens s') / rs_per_second s) \<le> 1 / 2000 + eps * (1 / 2000) + tiny"
      using sleep(3,4) assms(2) by (intro f64_upper_le) (simp_all add: f64_round_nonneg)
    also have "\<dots> \<le> 500001 / 1000000000" by (simp add: eps_def tiny_def)
    finally have "round_even (f64_round (f64_round (1 - rs_tokens s') / rs_per_second s) * 1000000000) \<le> 500001"
      by (intro round_even_le_int) simp
    then show ?thesis using sleep(5) by (simp add: from_secs_f64_def)
  qed simp_all
qed

end
