(* ===== verification/Path_Table.thy ===== *)
theory Path_Table
  imports Relay_Shaper NetAddr
begin

text \<open>
  The paths of the peers (\<open>path.rs\<close>): \<open>PathEntry\<close>, the table that reaches an entry by peer key
  and by synthetic address, and the congestion controller that starts over after a switch. An
  \<open>Arc\<close> is an index into a store of entries, so that the two indexes of the table share one.
\<close>

section \<open>One path\<close>

datatype path_kind = PathRelay | PathDirect socket_addr

record path_inner =
  pi_kind :: path_kind
  pi_epoch :: u64
  pi_srtt :: "duration option"
  pi_egress :: relay_shaper

definition path_new_relay :: "instant \<Rightarrow> path_inner" where
  "path_new_relay now =
     \<lparr>pi_kind = PathRelay, pi_epoch = 0, pi_srtt = None, pi_egress = house_shaper now\<rparr>"

definition direct_addr :: "path_inner \<Rightarrow> socket_addr option" where
  "direct_addr p = (case pi_kind p of PathRelay \<Rightarrow> None | PathDirect addr \<Rightarrow> Some addr)"

text \<open>\<open>fetch_add\<close> wraps.\<close>

definition bump_epoch :: "path_inner \<Rightarrow> path_inner" where
  "bump_epoch p = p\<lparr>pi_epoch := pi_epoch p + 1\<rparr>"

definition upgrade_to :: "socket_addr \<Rightarrow> path_inner \<Rightarrow> path_inner \<times> bool" where
  "upgrade_to addr p =
     (if pi_kind p = PathDirect addr then (p, False)
      else (bump_epoch (p\<lparr>pi_kind := PathDirect addr, pi_srtt := None\<rparr>), True))"

definition fall_back_to_relay :: "path_inner \<Rightarrow> path_inner \<times> socket_addr option" where
  "fall_back_to_relay p =
     (case pi_kind p of
        PathRelay \<Rightarrow> (p, None)
      | PathDirect addr \<Rightarrow> (bump_epoch (p\<lparr>pi_kind := PathRelay, pi_srtt := None\<rparr>), Some addr))"

definition path_record_rtt :: "duration \<Rightarrow> path_inner \<Rightarrow> path_inner option" where
  "path_record_rtt sample p =
     (case pi_srtt p of
        None \<Rightarrow> Some (p\<lparr>pi_srtt := Some sample\<rparr>)
      | Some previous \<Rightarrow>
          Option.bind (checked (previous * 7)) (\<lambda>d.
          Option.bind (checked (d + sample)) (\<lambda>d. Some (p\<lparr>pi_srtt := Some (d div 8)\<rparr>))))"

section \<open>The controller of a path\<close>

text \<open>The inner controller is of the crate \<open>quinn\<close>: \<open>build\<close> makes a fresh one from a time and an MTU.\<close>

record 'c epoch_controller =
  ec_observed_epoch :: u64
  ec_current_mtu :: u16
  ec_inner :: 'c

definition controller_build ::
    "(instant \<Rightarrow> u16 \<Rightarrow> 'c) \<Rightarrow> u64 \<Rightarrow> instant \<Rightarrow> u16 \<Rightarrow> 'c epoch_controller" where
  "controller_build build epoch now current_mtu =
     \<lparr>ec_observed_epoch = epoch, ec_current_mtu = current_mtu, ec_inner = build now current_mtu\<rparr>"

definition maybe_reset ::
    "(instant \<Rightarrow> u16 \<Rightarrow> 'c) \<Rightarrow> u64 \<Rightarrow> instant \<Rightarrow> 'c epoch_controller \<Rightarrow> 'c epoch_controller" where
  "maybe_reset build epoch now c =
     (if epoch \<noteq> ec_observed_epoch c
      then c\<lparr>ec_observed_epoch := epoch, ec_inner := build now (ec_current_mtu c)\<rparr> else c)"

text \<open>The calls \<open>on_sent\<close>, \<open>on_ack\<close>, \<open>on_end_acks\<close> and \<open>on_congestion_event\<close> delegate after a test.\<close>

definition controller_call ::
    "(instant \<Rightarrow> u16 \<Rightarrow> 'c) \<Rightarrow> u64 \<Rightarrow> instant \<Rightarrow> ('c \<Rightarrow> 'c) \<Rightarrow> 'c epoch_controller \<Rightarrow> 'c epoch_controller" where
  "controller_call build epoch now call c =
     (let c = maybe_reset build epoch now c in c\<lparr>ec_inner := call (ec_inner c)\<rparr>)"

definition controller_mtu_update ::
    "u16 \<Rightarrow> ('c \<Rightarrow> 'c) \<Rightarrow> 'c epoch_controller \<Rightarrow> 'c epoch_controller" where
  "controller_mtu_update new_mtu call c = c\<lparr>ec_current_mtu := new_mtu, ec_inner := call (ec_inner c)\<rparr>"

section \<open>The table\<close>

text \<open>The store holds every entry that was made; the table refers to entries by their index.\<close>

record path_table =
  pt_entries :: "path_inner list"
  pt_by_peer :: "(bytes, nat) hashmap"
  pt_by_synthetic :: "(socket_addr, nat) hashmap"

definition path_table_new :: path_table where
  "path_table_new = \<lparr>pt_entries = [], pt_by_peer = [], pt_by_synthetic = []\<rparr>"

definition insert_relay :: "instant \<Rightarrow> bytes \<Rightarrow> socket_addr \<Rightarrow> path_table \<Rightarrow> path_table \<times> nat" where
  "insert_relay now peer synthetic t =
     (let (entries, entry) =
        (case hm_get (pt_by_synthetic t) synthetic of
           Some entry \<Rightarrow> (pt_entries t, entry)
         | None \<Rightarrow> (pt_entries t @ [path_new_relay now], length (pt_entries t))) in
      (\<lparr>pt_entries = entries, pt_by_peer = hm_insert peer entry (pt_by_peer t),
        pt_by_synthetic = hm_insert synthetic entry (pt_by_synthetic t)\<rparr>, entry))"

definition ensure_by_synthetic :: "instant \<Rightarrow> socket_addr \<Rightarrow> path_table \<Rightarrow> path_table \<times> nat" where
  "ensure_by_synthetic now synthetic t =
     (case hm_get (pt_by_synthetic t) synthetic of
        Some entry \<Rightarrow> (t, entry)
      | None \<Rightarrow>
          (t\<lparr>pt_entries := pt_entries t @ [path_new_relay now],
             pt_by_synthetic := hm_insert synthetic (length (pt_entries t)) (pt_by_synthetic t)\<rparr>,
           length (pt_entries t)))"

definition pt_get :: "bytes \<Rightarrow> path_table \<Rightarrow> nat option" where
  "pt_get peer t = hm_get (pt_by_peer t) peer"

definition get_by_synthetic :: "socket_addr \<Rightarrow> path_table \<Rightarrow> nat option" where
  "get_by_synthetic synthetic t = hm_get (pt_by_synthetic t) synthetic"

text \<open>The address an entry is direct to, through its reference.\<close>

abbreviation entry_direct :: "path_table \<Rightarrow> nat \<Rightarrow> socket_addr option" where
  "entry_direct t entry \<equiv> direct_addr (pt_entries t ! entry)"

definition synthetic_for_direct :: "socket_addr \<Rightarrow> path_table \<Rightarrow> socket_addr option" where
  "synthetic_for_direct direct t =
     map_option fst (find (\<lambda>(_, entry). entry_direct t entry = Some direct) (pt_by_synthetic t))"

definition direct_addrs :: "path_table \<Rightarrow> (socket_addr \<times> socket_addr) list" where
  "direct_addrs t =
     List.map_filter (\<lambda>(synthetic, entry). map_option (\<lambda>direct. (direct, synthetic)) (entry_direct t entry))
       (pt_by_synthetic t)"

definition stats_zero :: shaper_stats where
  "stats_zero =
     \<lparr>st_queued = 0, st_bytes = 0, st_delay_p50_us = 0, st_delay_max_us = 0, st_dropped_at_full = 0,
      st_backpressure = 0\<rparr>"

definition table_shaper_stats :: "path_table \<Rightarrow> shaper_stats" where
  "table_shaper_stats t =
     fold (\<lambda>(_, entry) acc. stats_merged acc (shaper_stats_of (pi_egress (pt_entries t ! entry))))
       (pt_by_synthetic t) stats_zero"

section \<open>Calls\<close>

datatype path_call = UpgradeTo socket_addr | FallBack | RecordRtt duration

text \<open>A call on one entry, and whether it was a switch; an overflow in the estimate is \<open>None\<close>.\<close>

fun path_step :: "path_call \<Rightarrow> path_inner \<Rightarrow> (path_inner \<times> bool) option" where
  "path_step (UpgradeTo addr) p = Some (upgrade_to addr p)"
| "path_step FallBack p = (case fall_back_to_relay p of (p, r) \<Rightarrow> Some (p, r \<noteq> None))"
| "path_step (RecordRtt sample) p = map_option (\<lambda>p. (p, False)) (path_record_rtt sample p)"

text \<open>A run, with the number of switches.\<close>

fun path_run :: "path_call list \<Rightarrow> path_inner \<Rightarrow> (path_inner \<times> nat) option" where
  "path_run [] p = Some (p, 0)"
| "path_run (c # cs) p =
     Option.bind (path_step c p) (\<lambda>(p, switched).
     Option.bind (path_run cs p) (\<lambda>(p, n). Some (p, (if switched then Suc n else n))))"

lemma path_step_epoch:
  "path_step c p = Some (p', switched) \<Longrightarrow>
     pi_epoch p' = pi_epoch p + (if switched then 1 else 0) \<and>
     (switched \<longleftrightarrow> pi_kind p' \<noteq> pi_kind p) \<and> (switched \<longrightarrow> pi_srtt p' = None) \<and> pi_egress p' = pi_egress p"
  by (cases c) (auto simp: upgrade_to_def fall_back_to_relay_def path_record_rtt_def bump_epoch_def
      split: if_splits option.splits path_kind.splits bind_splits)

lemma path_run_epoch:
  "path_run cs p = Some (p', n) \<Longrightarrow>
     pi_epoch p' = pi_epoch p + of_nat n \<and> n \<le> length cs \<and> pi_egress p' = pi_egress p"
proof (induction cs arbitrary: p n)
  case (Cons c cs)
  then obtain q switched m where step: "path_step c p = Some (q, switched)"
    and run: "path_run cs q = Some (p', m)" and n: "n = (if switched then Suc m else m)"
    by (auto split: bind_splits)
  show ?case using path_step_epoch [OF step] Cons.IH [OF run] by (simp add: n)
qed simp

lemma epoch_moved:
  assumes "n < 2 ^ 64"
  shows "(e :: u64) + of_nat n = e \<longleftrightarrow> n = 0"
proof -
  have "e + of_nat n = e \<longleftrightarrow> (of_nat n :: u64) = 0" by simp
  also have "\<dots> \<longleftrightarrow> n = 0" using assms by (auto simp: word_of_nat_eq_0_iff dest: dvd_imp_le)
  finally show ?thesis .
qed

section \<open>The table shares its entries\<close>

text \<open>
  Every reference is to an entry that exists, two synthetic addresses never share one, and a
  peer's entry is also the entry of some synthetic address.
\<close>

definition pt_wf :: "path_table \<Rightarrow> bool" where
  "pt_wf t \<longleftrightarrow>
     hm_wf (pt_by_peer t) \<and> hm_wf (pt_by_synthetic t) \<and>
     snd ` set (pt_by_synthetic t) \<subseteq> {..<length (pt_entries t)} \<and>
     distinct (map snd (pt_by_synthetic t)) \<and>
     snd ` set (pt_by_peer t) \<subseteq> snd ` set (pt_by_synthetic t)"

datatype table_call =
    InsertRelay instant bytes socket_addr | EnsureBySynthetic instant socket_addr
  | OnEntry nat path_call

text \<open>A call through a reference that some earlier call returned; an overflow leaves the table.\<close>

fun table_step :: "table_call \<Rightarrow> path_table \<Rightarrow> path_table" where
  "table_step (InsertRelay now peer synthetic) t = fst (insert_relay now peer synthetic t)"
| "table_step (EnsureBySynthetic now synthetic) t = fst (ensure_by_synthetic now synthetic t)"
| "table_step (OnEntry entry c) t =
     (if entry < length (pt_entries t) then
        (case path_step c (pt_entries t ! entry) of
           None \<Rightarrow> t
         | Some (p, _) \<Rightarrow> t\<lparr>pt_entries := (pt_entries t)[entry := p]\<rparr>)
      else t)"

lemma update_present: "map_of m k = Some v \<Longrightarrow> AList.update k v m = m"
  by (induction m) (auto split: if_splits)

lemma snd_update_subset: "snd ` set (AList.update k v m) \<subseteq> insert v (snd ` set m)"
  by (induction m) auto

lemma insert_relay_known:
  "hm_get (pt_by_synthetic t) synthetic = Some entry \<Longrightarrow>
     insert_relay now peer synthetic t = (t\<lparr>pt_by_peer := hm_insert peer entry (pt_by_peer t)\<rparr>, entry)"
  by (simp add: insert_relay_def update_present)

lemma insert_relay_new:
  "hm_get (pt_by_synthetic t) synthetic = None \<Longrightarrow>
     insert_relay now peer synthetic t =
       (\<lparr>pt_entries = pt_entries t @ [path_new_relay now],
         pt_by_peer = hm_insert peer (length (pt_entries t)) (pt_by_peer t),
         pt_by_synthetic = pt_by_synthetic t @ [(synthetic, length (pt_entries t))]\<rparr>, length (pt_entries t))"
  by (simp add: insert_relay_def insert_fresh)

lemma pt_wf_extend:
  assumes "pt_wf t" and "hm_get (pt_by_synthetic t) synthetic = None"
  shows "pt_wf (t\<lparr>pt_entries := pt_entries t @ [p],
    pt_by_synthetic := pt_by_synthetic t @ [(synthetic, length (pt_entries t))]\<rparr>)"
  using assms by (auto simp: pt_wf_def hm_wf_def map_of_eq_None_iff image_subset_iff)

lemma pt_wf_peer:
  assumes "pt_wf t" and "entry \<in> snd ` set (pt_by_synthetic t)"
  shows "pt_wf (t\<lparr>pt_by_peer := hm_insert peer entry (pt_by_peer t)\<rparr>)"
proof -
  have "insert entry (snd ` set (pt_by_peer t)) \<subseteq> snd ` set (pt_by_synthetic t)"
    using assms by (simp add: pt_wf_def)
  with snd_update_subset have "snd ` set (hm_insert peer entry (pt_by_peer t)) \<subseteq> snd ` set (pt_by_synthetic t)"
    by (rule order_trans)
  then show ?thesis using assms(1) by (simp add: pt_wf_def)
qed

lemma hm_get_in_range: "hm_get m k = Some v \<Longrightarrow> v \<in> snd ` set m"
  using map_of_SomeD image_iff by fastforce

lemma table_step_wf: "pt_wf t \<Longrightarrow> pt_wf (table_step c t)"
proof (cases c)
  case (InsertRelay now peer synthetic)
  assume wf: "pt_wf t"
  show ?thesis
  proof (cases "hm_get (pt_by_synthetic t) synthetic")
    case None
    have "pt_wf (t\<lparr>pt_entries := pt_entries t @ [path_new_relay now],
        pt_by_synthetic := pt_by_synthetic t @ [(synthetic, length (pt_entries t))],
        pt_by_peer := hm_insert peer (length (pt_entries t)) (pt_by_peer t)\<rparr>)" (is "pt_wf ?t")
      using pt_wf_peer [OF pt_wf_extend [OF wf None, of "path_new_relay now"], of "length (pt_entries t)" peer]
      by simp
    moreover have "table_step c t = ?t"
      by (simp add: InsertRelay insert_relay_new [OF None] path_table.equality)
    ultimately show ?thesis by simp
  next
    case (Some entry)
    then show ?thesis
      using pt_wf_peer [OF wf hm_get_in_range [OF Some]] by (simp add: InsertRelay insert_relay_known)
  qed
next
  case (EnsureBySynthetic now synthetic)
  assume wf: "pt_wf t"
  then show ?thesis
    using pt_wf_extend [OF wf]
    by (auto simp: EnsureBySynthetic ensure_by_synthetic_def insert_fresh split: option.split)
next
  case (OnEntry entry pc)
  assume wf: "pt_wf t"
  then show ?thesis by (auto simp: OnEntry pt_wf_def split: option.split prod.split)
qed

lemma table_run_wf: "pt_wf (fold table_step calls path_table_new)"
proof -
  have "pt_wf t \<Longrightarrow> pt_wf (fold table_step calls t)" for t
    by (induction calls arbitrary: t) (simp_all add: table_step_wf)
  then show ?thesis by (simp add: path_table_new_def pt_wf_def)
qed

text \<open>A synthetic address keeps its entry for good, whatever is called.\<close>

lemma table_step_stable:
  "get_by_synthetic synthetic t = Some entry \<Longrightarrow> get_by_synthetic synthetic (table_step c t) = Some entry"
proof (cases c)
  case (InsertRelay now peer syn)
  assume "get_by_synthetic synthetic t = Some entry"
  then show ?thesis
    by (cases "hm_get (pt_by_synthetic t) syn")
      (auto simp: InsertRelay insert_relay_known insert_relay_new get_by_synthetic_def map_add_def)
next
  case (EnsureBySynthetic now syn)
  assume "get_by_synthetic synthetic t = Some entry"
  then show ?thesis
    by (auto simp: EnsureBySynthetic ensure_by_synthetic_def get_by_synthetic_def hm_get_insert split: option.split)
qed (auto simp: get_by_synthetic_def split: option.split prod.split)

lemma table_run_stable:
  "get_by_synthetic synthetic t = Some entry \<Longrightarrow>
     get_by_synthetic synthetic (fold table_step calls t) = Some entry"
  by (induction calls arbitrary: t) (simp_all add: table_step_stable)

text \<open>Where at most one peer is direct to an address, the answer does not depend on the order.\<close>

lemma synthetic_for_direct_sound:
  "synthetic_for_direct direct t = Some synthetic \<Longrightarrow>
     \<exists>entry. (synthetic, entry) \<in> set (pt_by_synthetic t) \<and> entry_direct t entry = Some direct"
  by (auto simp: synthetic_for_direct_def find_Some_iff) (metis nth_mem prod.collapse)

lemma synthetic_for_direct_None:
  "synthetic_for_direct direct t = None \<longleftrightarrow>
     (\<forall>(synthetic, entry) \<in> set (pt_by_synthetic t). entry_direct t entry \<noteq> Some direct)"
  by (auto simp: synthetic_for_direct_def find_None_iff)

end
