(* ===== verification/Relay_Props.thy ===== *)
theory Relay_Props
  imports Shaper_Laws Path_Table
begin

text \<open>The properties of the relay path: the shaper, the path table and the controller.\<close>

section \<open>The shaper\<close>

text \<open>C22: A shaper is a queue. Each call does to its contents what the abstract queue does: a
  transmit enters whole or not at all, a drain takes from the front, at most a burst, and
  closing discards the contents and closes the queue for good.\<close>

theorem shaper_refines_fifo:
  assumes "shaper_wf s" and "shaper_step now c s = (s', entered, left)"
  shows "length left \<le> rs_burst s \<and> fifo_step (length left) c (shaper_abs s) = (shaper_abs s', entered, left)"
  by (rule step_refines [OF assms])

definition demo_shaper :: relay_shaper where
  "demo_shaper = fst (shaper_step 5 (TryEnqueueAll [[1], [2], [3]]) (gate_shaper 0))"

lemma demo_shaper_wf: "shaper_wf demo_shaper"
  unfolding demo_shaper_def by (rule shaper_step_wf [OF gate_shaper_wf])

theorem shaper_refines_fifo_witness:
  "fifo_step 0 (EnqueueOrDrop [4]) (shaper_abs demo_shaper) =
     (shaper_abs (fst (enqueue_or_drop 6 [4] demo_shaper)), [[4]], [])"
proof -
  have "shaper_step 6 (EnqueueOrDrop [4]) demo_shaper = (fst (enqueue_or_drop 6 [4] demo_shaper), [[4]], [])"
    by (simp add: demo_shaper_def enqueue_or_drop_def try_enqueue_all_def gate_shaper_def shaper_new_def
        GATE_RELAY_QUEUE_DEPTH_def)
  from shaper_refines_fifo [OF demo_shaper_wf this] show ?thesis by simp
qed

text \<open>Nothing is lost, doubled or put out of order on the way: over any calls on a new shaper,
  what left is the front of what entered, and while the shaper is open the rest is exactly
  what is queued, never more than the depth.\<close>

theorem shaper_delivers_in_order:
  assumes "s0 \<in> {house_shaper t0, gate_shaper t0}" and "shaper_run calls s0 = (s, entered, left)"
  shows "\<exists>rest. entered = left @ rest \<and> length rest \<le> rs_depth s0 \<and>
    (\<not> rs_closed s \<longrightarrow> rest = map snd (rs_items s))"
proof -
  have wf: "shaper_wf s0" using assms(1) house_shaper_wf gate_shaper_wf by blast
  have empty: "rs_items s0 = []" using assms(1) by (auto simp: house_shaper_def gate_shaper_def shaper_new_def)
  then show ?thesis using shaper_run_queue [OF wf assms(2)] by auto
qed

theorem shaper_delivers_in_order_witness:
  "\<exists>rest. [[4 :: u8]] = [] @ rest \<and> length rest \<le> 24 \<and>
     rest = map snd (rs_items (fst (enqueue_or_drop 1 [4] (gate_shaper 0))))"
proof -
  have run: "shaper_run [(1, EnqueueOrDrop [4])] (gate_shaper 0) =
      (fst (enqueue_or_drop 1 [4] (gate_shaper 0)), [[4]], [])"
    by (simp add: enqueue_or_drop_def gate_shaper_def shaper_new_def GATE_RELAY_QUEUE_DEPTH_def)
  have "gate_shaper 0 \<in> {house_shaper 0, gate_shaper 0}" by simp
  from shaper_delivers_in_order [OF this run] show ?thesis
    by (simp add: enqueue_or_drop_def gate_shaper_def shaper_new_def GATE_RELAY_QUEUE_DEPTH_def)
qed

text \<open>C24: The rate. Over any stretch of calls in the life of a shaper, the datagrams that leave are
  at most the cap on its tokens (16 for a house, 24 for the gate) and the rate times the time
  of the stretch, but for the rounding of \<open>f64\<close>.\<close>

theorem shaper_rate_bounded:
  assumes "s0 \<in> {house_shaper t0, gate_shaper t0}" and "shaper_run before s0 = (s, e0, l0)"
    and "shaper_run calls s = (s', entered, left)" and "sorted (rs_last_refill s # map fst calls)"
    and "elapsed = seconds (last (rs_last_refill s # map fst calls) - rs_last_refill s)"
  shows "of_nat (length left) \<le> rs_token_cap s0 + rs_per_second s0 * elapsed +
    (5 * (rs_per_second s0 * elapsed) + of_nat (length calls) * (2 * rs_token_cap s0 + 1)) / 2 ^ 53"
proof -
  have "shaper_wf s0" using assms(1) house_shaper_wf gate_shaper_wf by blast
  note s = shaper_run_constants [OF this assms(2)]
  have "rs_per_second s \<le> 2 ^ 32" "rs_tokens s \<le> rs_token_cap s" using s by (simp_all add: shaper_wf_def)
  moreover have "shaper.granted calls s = of_nat (length left)" by (simp add: shaper_granted assms(3))
  ultimately show ?thesis
    using shaper.granted_bounded [OF _ assms(4) _ assms(5)] s by simp
qed

theorem shaper_rate_bounded_witness:
  "of_nat (length (snd (snd (shaper_run [(1000000000, DrainPass 1000000000)] (house_shaper 0))))) \<le>
     (16 :: rat) + 2000 * 1 + (5 * (2000 * 1) + 1 * (2 * 16 + 1)) / 2 ^ 53"
proof -
  obtain s e l where run: "shaper_run [(1000000000, DrainPass 1000000000)] (house_shaper 0) = (s, e, l)"
    by (cases "shaper_run [(1000000000, DrainPass 1000000000)] (house_shaper 0)")
  have "house_shaper 0 \<in> {house_shaper 0, gate_shaper 0}" "shaper_run [] (house_shaper 0) = (house_shaper 0, [], [])"
    by simp_all
  from shaper_rate_bounded [OF this run, of 1] run show ?thesis
    by (simp add: house_shaper_def shaper_new_def HOUSE_TOKEN_CAP_def RELAY_DATAGRAMS_PER_SECOND_def)
qed

text \<open>C23: Back-pressure. A sender that is told that there is no room would have found the queue
  full with its whole transmit, and it is woken by the next pass that frees room, or by the end
  of the shaper, whatever was called in between.\<close>

theorem shaper_no_lost_wakeup:
  assumes "shaper_wf s" and "ps \<noteq> []" and "\<not> snd (poll_room (length ps) waker s)"
    and "shaper_run calls (fst (poll_room (length ps) waker s)) = (s', entered, [])"
    and "CloseShaper \<notin> snd ` set calls"
  shows "snd (try_enqueue_all now ps s) = Full \<and>
    (\<forall>left wakers. snd (drain_pass t popped_at s') = Ready left wakers \<longrightarrow> waker \<in> set wakers) \<and>
    waker \<in> set (snd (shaper_close s'))"
proof -
  let ?s = "fst (poll_room (length ps) waker s)"
  have "shaper_wf ?s" using shaper_step_wf [OF assms(1), of 0 "PollRoom (length ps) waker"] by simp
  note waits = run_keeps_waiting [OF this poll_room_waits [OF assms(3)] assms(4,5)]
  obtain u n where pass: "drain_pass t popped_at s' = (u, n)" by (cases "drain_pass t popped_at s'")
  have "waker \<in> set wakers" if "n = Ready left wakers" for left wakers
    by (cases rule: drain_pass_cases [OF _ pass]) (use waits that in auto)
  then show ?thesis
    using waits pass assms(3) poll_room_iff [OF assms(2), of waker s now] by (simp add: shaper_close_def)
qed

definition full_shaper :: relay_shaper where
  "full_shaper = fst (try_enqueue_all 5 (replicate 24 [7]) (gate_shaper 0))"

theorem shaper_no_lost_wakeup_witness:
  "snd (try_enqueue_all 6 [[1]] full_shaper) = Full \<and>
   9 \<in> set (snd (shaper_close (fst (poll_room 1 9 full_shaper))))"
proof -
  have "shaper_step 5 (TryEnqueueAll (replicate 24 [7])) (gate_shaper 0) = (full_shaper, replicate 24 [7], [])"
    by (simp add: full_shaper_def try_enqueue_all_def gate_shaper_def shaper_new_def GATE_RELAY_QUEUE_DEPTH_def)
  then have wf: "shaper_wf full_shaper" using shaper_step_wf [OF gate_shaper_wf] by (metis fst_conv)
  have full: "\<not> snd (poll_room (length [[1 :: u8]]) 9 full_shaper)"
    by (simp add: full_shaper_def try_enqueue_all_def poll_room_def gate_shaper_def shaper_new_def
        GATE_RELAY_QUEUE_DEPTH_def)
  show ?thesis
    using shaper_no_lost_wakeup [OF wf _ full, of "[]" _ _ 6] by simp
qed

text \<open>Progress. While something is queued, a drain pass a millisecond or more after the last
  refill hands over at least one datagram, and no pass waits for longer than half a
  millisecond, at the rates of the house and of the gate.\<close>

theorem shaper_progress:
  assumes "s0 \<in> {house_shaper t0, gate_shaper t0}" and "shaper_run calls s0 = (s, entered, left)"
    and "drain_pass now popped_at s = (s', next)"
  shows "(\<not> rs_closed s \<and> rs_items s \<noteq> [] \<and> rs_last_refill s + 1000000 \<le> now \<longrightarrow>
      (\<exists>ps wakers. next = Ready ps wakers \<and> ps \<noteq> [])) \<and>
    (\<forall>d. next = Sleep d \<longrightarrow> d \<le> 500001)"
proof -
  have "shaper_wf s0" using assms(1) house_shaper_wf gate_shaper_wf by blast
  note s = shaper_run_constants [OF this assms(2)]
  have "2000 \<le> rs_per_second s0"
    using assms(1) gate_rate_bounds
    by (auto simp: house_shaper_def gate_shaper_def shaper_new_def RELAY_DATAGRAMS_PER_SECOND_def)
  then have rate: "2000 \<le> rs_per_second s" using s by simp
  show ?thesis
    using drain_pass_progress [OF _ rate _ _ _ assms(3)] drain_pass_sleep [OF _ rate] s assms(3) by blast
qed

theorem shaper_progress_witness:
  "\<exists>ps wakers. snd (drain_pass 1000006 1000006 demo_shaper) = Ready ps wakers \<and> ps \<noteq> []"
proof -
  have run: "shaper_run [(5, TryEnqueueAll [[1], [2], [3]])] (gate_shaper 0) = (demo_shaper, [[1], [2], [3]], [])"
    by (simp add: demo_shaper_def try_enqueue_all_def gate_shaper_def shaper_new_def GATE_RELAY_QUEUE_DEPTH_def)
  have state: "\<not> rs_closed demo_shaper" "rs_items demo_shaper \<noteq> []" "rs_last_refill demo_shaper = 0"
    by (simp_all add: demo_shaper_def try_enqueue_all_def gate_shaper_def shaper_new_def GATE_RELAY_QUEUE_DEPTH_def)
  have "gate_shaper 0 \<in> {house_shaper 0, gate_shaper 0}" by simp
  from shaper_progress [OF this run, of 1000006 1000006] state show ?thesis
    by (cases "drain_pass 1000006 1000006 demo_shaper") auto
qed

section \<open>Paths\<close>

text \<open>One entry, two names. Whatever is called on a path table, a synthetic address that has an
  entry keeps it for good, no two addresses share one, and inserting a peer at an address
  makes both names reach the entry that the address had, with its state and its queue.\<close>

theorem path_table_shared:
  assumes "t = fold table_step calls path_table_new"
  shows "distinct (map snd (pt_by_synthetic t)) \<and>
    (\<forall>synthetic entry. get_by_synthetic synthetic t = Some entry \<longrightarrow>
      entry < length (pt_entries t) \<and> get_by_synthetic synthetic (fold table_step later t) = Some entry) \<and>
    (case insert_relay now peer synthetic t of (t', entry) \<Rightarrow>
      pt_get peer t' = Some entry \<and> get_by_synthetic synthetic t' = Some entry \<and>
      (get_by_synthetic synthetic t \<in> {None, Some entry}) \<and>
      (\<forall>i < length (pt_entries t). pt_entries t' ! i = pt_entries t ! i))"
proof (intro conjI allI impI)
  have wf: "pt_wf t" unfolding assms by (rule table_run_wf)
  then show "distinct (map snd (pt_by_synthetic t))" by (simp add: pt_wf_def)
  fix syn entry assume get: "get_by_synthetic syn t = Some entry"
  show "entry < length (pt_entries t)"
    using hm_get_in_range [of "pt_by_synthetic t" syn entry] get wf by (auto simp: pt_wf_def get_by_synthetic_def)
  show "get_by_synthetic syn (fold table_step later t) = Some entry" by (rule table_run_stable [OF get])
next
  show "case insert_relay now peer synthetic t of (t', entry) \<Rightarrow>
      pt_get peer t' = Some entry \<and> get_by_synthetic synthetic t' = Some entry \<and>
      (get_by_synthetic synthetic t \<in> {None, Some entry}) \<and>
      (\<forall>i < length (pt_entries t). pt_entries t' ! i = pt_entries t ! i)"
    by (cases "hm_get (pt_by_synthetic t) synthetic")
      (auto simp: insert_relay_known insert_relay_new pt_get_def get_by_synthetic_def hm_get_insert nth_append
        map_add_def)
qed

theorem path_table_shared_witness:
  "pt_get [1] (fst (insert_relay 9 [1] (V4 [10, 0, 0, 1] 7) (fold table_step [EnsureBySynthetic 5 (V4 [10, 0, 0, 1] 7)] path_table_new))) = Some 0"
  using path_table_shared [OF refl, where calls = "[EnsureBySynthetic 5 (V4 [10, 0, 0, 1] 7)]"
      and later = "[]" and now = 9 and peer = "[1]" and synthetic = "V4 [10, 0, 0, 1] 7"]
  by (simp add: path_table_new_def ensure_by_synthetic_def insert_relay_def pt_get_def)

text \<open>Slow start after a switch, and only then. Over any calls on a path, fewer than 2 to the
  64, the next call on its congestion controller starts from a fresh one exactly when the
  path was switched in between, and every switch leaves the round trip estimate empty.\<close>

theorem controller_resets_iff_switched:
  assumes "path_run calls p = Some (p', switches)" and "length calls < 2 ^ 64"
    and "ec_observed_epoch c = pi_epoch p"
  shows "ec_inner (controller_call build (pi_epoch p') now call c) =
      call (if switches = 0 then ec_inner c else build now (ec_current_mtu c)) \<and>
    ec_observed_epoch (controller_call build (pi_epoch p') now call c) = pi_epoch p' \<and>
    (\<forall>pc q. path_step pc p' = Some (q, True) \<longrightarrow> pi_srtt q = None)"
proof -
  have "pi_epoch p' = pi_epoch p + of_nat switches" "switches < 2 ^ 64"
    using path_run_epoch [OF assms(1)] assms(2) by simp_all
  then show ?thesis
    using path_step_epoch assms(3) epoch_moved [of switches "pi_epoch p"]
    by (auto simp: controller_call_def maybe_reset_def Let_def)
qed

theorem controller_resets_iff_switched_witness:
  "ec_inner (controller_call (\<lambda>_ _. 10) 2 7 (\<lambda>window. window + 1) (controller_build (\<lambda>_ _. 10) 0 3 1200)) =
     (11 :: nat)"
proof -
  have run: "path_run [UpgradeTo (V4 [10, 0, 0, 1] 7), RecordRtt 40, FallBack] (path_new_relay 0) =
      Some (path_new_relay 0\<lparr>pi_epoch := 2\<rparr>, 2)"
    by (simp add: upgrade_to_def fall_back_to_relay_def path_record_rtt_def path_new_relay_def bump_epoch_def)
  show ?thesis
    using controller_resets_iff_switched [OF run, of "controller_build (\<lambda>_ _. 10 :: nat) 0 3 1200" "\<lambda>_ _. 10" 7 "\<lambda>w. w + 1"]
    by (simp add: controller_build_def path_new_relay_def)
qed

end
