(* ===== verification/Gate_Server.thy ===== *)
theory Gate_Server
  imports Gate_Wire Seen_Set Relay_Shaper Member_List
begin

text \<open>
  The gatehouse (\<open>gate/server.rs\<close>): registrations, knocks, relay sessions. A \<open>Registration\<close> is an
  \<open>Arc\<close>, shared by the table, the control loop and the sweep, so it is an index into a heap.
  A handler is one step; the clock it reads is a function from the number of the reading to
  the time, so that readings of one handler may differ. \<open>blake3\<close> is the parameter \<open>crypto\<close>.
\<close>

section \<open>Limits and codes\<close>

datatype error_code = RefusedNotMember | AtCapacityCode | RateLimitedCode | CapExceeded | ProtocolErrorCode

fun error_code_u8 :: "error_code \<Rightarrow> u8" where
  "error_code_u8 RefusedNotMember = 1"
| "error_code_u8 AtCapacityCode = 2"
| "error_code_u8 RateLimitedCode = 3"
| "error_code_u8 CapExceeded = 4"
| "error_code_u8 ProtocolErrorCode = 5"

definition MAX_CONNECTIONS_PER_KEY :: nat where "MAX_CONNECTIONS_PER_KEY = 2"
definition MAX_SESSIONS_PER_REGISTRATION :: nat where "MAX_SESSIONS_PER_REGISTRATION = 8"
definition REGISTRATION_TTL :: duration where "REGISTRATION_TTL = from_secs 90"
definition INTRODUCE_PER_MINUTE :: u32 where "INTRODUCE_PER_MINUTE = 6"
definition INTRODUCE_PER_HOUR :: u32 where "INTRODUCE_PER_HOUR = 60"
definition INTRODUCE_TTL_CAP_S :: u16 where "INTRODUCE_TTL_CAP_S = 60"
definition START_REQUESTS_PER_SESSION :: u32 where "START_REQUESTS_PER_SESSION = 4"
definition START_FIRE_IN_MS :: u16 where "START_FIRE_IN_MS = 200"
definition REGISTER_ATTEMPTS_PER_MINUTE :: u32 where "REGISTER_ATTEMPTS_PER_MINUTE = 4"
definition RELAY_BYTES_PER_HOUR :: nat where "RELAY_BYTES_PER_HOUR = 2 * 1024 * 1024 * 1024"
definition FRAME_RATE_PER_SECOND :: u32 where "FRAME_RATE_PER_SECOND = 32"
definition FRAME_RATE_BURST :: u32 where "FRAME_RATE_BURST = 64"
definition REFLECT_PER_CONNECTION :: u32 where "REFLECT_PER_CONNECTION = 2"
definition SECONDARY_ATTEMPTS_PER_MINUTE :: u32 where "SECONDARY_ATTEMPTS_PER_MINUTE = 4"
definition KEEPALIVE_PER_SECOND :: u32 where "KEEPALIVE_PER_SECOND = 3"
definition FRAME_TX_QUEUE_CAP :: nat where "FRAME_TX_QUEUE_CAP = 256"
definition MAX_PENDING_CONNECTIONS :: nat where "MAX_PENDING_CONNECTIONS = 2 * MAX_REGISTRATIONS"

section \<open>State\<close>

type_synonym clock = "nat \<Rightarrow> instant"

record server_counters =
  c_relay_sender_mismatch :: u64
  c_relay_rate_limited :: u64
  c_relay_dropped_at_full :: u64
  c_refused_at_capacity :: u64
  c_knock_wrong_target :: u64
  c_pending_refused :: u64
  c_refused_at_key_capacity :: u64
  c_relay_oversized :: u64
  c_frame_rate_limited :: u64
  c_reflect_rate_limited :: u64
  c_secondary_rate_limited :: u64
  c_keepalive_rate_limited :: u64
  c_frame_tx_dropped :: u64
  c_start_unknown_session :: u64
  c_start_wrong_sender :: u64
  c_start_ignored :: u64

text \<open>
  \<open>rg_tx\<close> is the channel to the writer task with the frames that wait in it, and
  \<open>rg_writer\<close> says that the task, which holds the other end, still runs.
\<close>

record registration =
  rg_key :: bytes
  rg_tx :: "gate_frame list"
  rg_writer :: bool
  rg_observed :: socket_addr
  rg_last_keepalive :: instant
  rg_introduce_min :: rate_limiter
  rg_introduce_hour :: rate_limiter
  rg_sessions :: "u32 list"
  rg_frame_rate :: rate_limiter
  rg_keepalive_rate :: rate_limiter

record knock_state =
  kn_requester :: bytes
  kn_target :: bytes
  kn_deadline :: instant

text \<open>The last two fields say whether the drain task of the direction still runs.\<close>

record session_state =
  ss_key_a :: bytes
  ss_key_b :: bytes
  ss_start_requests :: u32
  ss_opened_at :: instant
  ss_a_to_b :: rate_limiter
  ss_b_to_a :: rate_limiter
  ss_a_to_b_shaper :: relay_shaper
  ss_b_to_a_shaper :: relay_shaper
  ss_a_to_b_task :: bool
  ss_b_to_a_task :: bool

record gate_state =
  gs_community :: bytes
  gs_members :: "bytes set"
  gs_capacity :: nat
  gs_secondary_port :: u16
  gs_heap :: "registration list"
  gs_registrations :: "(bytes, nat list) hashmap"
  gs_knocks :: "(bytes, knock_state) hashmap"
  gs_sessions :: "(u32, session_state) hashmap"
  gs_pending :: nat
  gs_register_attempts :: "(bytes, rate_limiter) hashmap"
  gs_secondary_attempts :: "(bytes, rate_limiter) hashmap"
  gs_counters :: server_counters

definition counters_new :: server_counters where
  "counters_new = \<lparr>
     c_relay_sender_mismatch = 0, c_relay_rate_limited = 0, c_relay_dropped_at_full = 0,
     c_refused_at_capacity = 0, c_knock_wrong_target = 0, c_pending_refused = 0,
     c_refused_at_key_capacity = 0, c_relay_oversized = 0, c_frame_rate_limited = 0,
     c_reflect_rate_limited = 0, c_secondary_rate_limited = 0, c_keepalive_rate_limited = 0,
     c_frame_tx_dropped = 0, c_start_unknown_session = 0, c_start_wrong_sender = 0,
     c_start_ignored = 0 \<rparr>"

definition gate_new :: "bytes \<Rightarrow> bytes set \<Rightarrow> nat \<Rightarrow> u16 \<Rightarrow> gate_state" where
  "gate_new community members max_registrations port = \<lparr>
     gs_community = community, gs_members = members, gs_capacity = max_registrations,
     gs_secondary_port = port, gs_heap = [], gs_registrations = [], gs_knocks = [],
     gs_sessions = [], gs_pending = 0, gs_register_attempts = [], gs_secondary_attempts = [],
     gs_counters = counters_new \<rparr>"

text \<open>What a step does beyond the state: what is written, sent or closed, and to which connection.\<close>

datatype gate_out =
    CloseRefused bytes error_code string
  | ErrorAndClose bytes error_code string
  | Wrote nat gate_frame
  | SendDatagram nat bytes
  | CloseExpired nat

section \<open>Helpers\<close>

definition pair_tag :: "crypto \<Rightarrow> bytes \<Rightarrow> bytes \<Rightarrow> bytes \<Rightarrow> bytes" where
  "pair_tag K community a b =
     (let (lo, hi) = (if a \<le> b then (a, b) else (b, a)) in
      blake3 K (ascii ''mosschat-gate-pair-v1'' @ community @ lo @ hi))"

text \<open>\<open>fetch_add(1)\<close> on one of the counters, which is named by its update function.\<close>

definition count :: "((u64 \<Rightarrow> u64) \<Rightarrow> server_counters \<Rightarrow> server_counters) \<Rightarrow> gate_state \<Rightarrow> gate_state" where
  "count field st = st\<lparr>gs_counters := field (\<lambda>n. n + 1) (gs_counters st)\<rparr>"

definition upd_reg :: "nat \<Rightarrow> (registration \<Rightarrow> registration) \<Rightarrow> gate_state \<Rightarrow> gate_state" where
  "upd_reg i f st = st\<lparr>gs_heap := (gs_heap st)[i := f (gs_heap st ! i)]\<rparr>"

text \<open>The connections of a key, and the newest of them.\<close>

definition regs_of :: "gate_state \<Rightarrow> bytes \<Rightarrow> nat list" where
  "regs_of st key = (case hm_get (gs_registrations st) key of None \<Rightarrow> [] | Some l \<Rightarrow> l)"

definition newest :: "gate_state \<Rightarrow> bytes \<Rightarrow> nat option" where
  "newest st key = (if regs_of st key = [] then None else Some (last (regs_of st key)))"

definition send_frame :: "nat \<Rightarrow> gate_frame \<Rightarrow> gate_state \<Rightarrow> gate_state" where
  "send_frame i frame st =
     (if rg_writer (gs_heap st ! i) \<and> length (rg_tx (gs_heap st ! i)) < FRAME_TX_QUEUE_CAP
      then upd_reg i (\<lambda>r. r\<lparr>rg_tx := rg_tx r @ [frame]\<rparr>) st
      else count c_frame_tx_dropped_update st)"

definition rate_limited_frame :: "string \<Rightarrow> gate_frame" where
  "rate_limited_frame detail = ErrorFrame 1 (error_code_u8 RateLimitedCode) (ascii detail)"

section \<open>Teardown and sweep\<close>

definition shaper_closed :: "relay_shaper \<Rightarrow> relay_shaper" where
  "shaper_closed s = fst (shaper_close s)"

text \<open>
  The shapers of a session that is removed are closed, and their drain tasks return; nothing
  reaches them afterwards, so they leave the state with the session.
\<close>

definition drop_session :: "bytes \<Rightarrow> u32 \<Rightarrow> gate_state \<times> (bytes \<times> u32) list \<Rightarrow> gate_state \<times> (bytes \<times> u32) list" where
  "drop_session peer_key sid = (\<lambda>(st, orphaned).
     (case hm_get (gs_sessions st) sid of
        None \<Rightarrow> (st, orphaned)
      | Some s \<Rightarrow>
          (st\<lparr>gs_sessions := hm_remove sid (gs_sessions st)\<rparr>,
           orphaned @ [(if ss_key_a s = peer_key then ss_key_b s else ss_key_a s, sid)])))"

definition forget_session :: "bytes \<times> u32 \<Rightarrow> gate_state \<Rightarrow> gate_state" where
  "forget_session = (\<lambda>(other_key, sid) st.
     fold (\<lambda>i. upd_reg i (\<lambda>r. r\<lparr>rg_sessions := removeAll sid (rg_sessions r)\<rparr>)) (regs_of st other_key) st)"

definition unseat :: "bytes \<Rightarrow> nat \<Rightarrow> gate_state \<Rightarrow> gate_state" where
  "unseat peer_key i st =
     (case hm_get (gs_registrations st) peer_key of
        None \<Rightarrow> st
      | Some l \<Rightarrow>
          (let l = filter (\<lambda>r. r \<noteq> i) l in
           st\<lparr>gs_registrations :=
                if l = [] then hm_remove peer_key (gs_registrations st)
                else hm_insert peer_key l (gs_registrations st)\<rparr>))"

definition teardown_registration :: "bytes \<Rightarrow> nat \<Rightarrow> gate_state \<Rightarrow> gate_state" where
  "teardown_registration peer_key i st =
     (let st = unseat peer_key i st;
          (st, orphaned) = fold (drop_session peer_key) (rg_sessions (gs_heap st ! i)) (st, []) in
      fold forget_session orphaned st)"

definition expired_regs :: "instant \<Rightarrow> gate_state \<Rightarrow> (bytes \<times> nat) list" where
  "expired_regs now st =
     concat (map (\<lambda>(key, l). map (Pair key)
       (filter (\<lambda>i. duration_since now (rg_last_keepalive (gs_heap st ! i)) > REGISTRATION_TTL) l))
       (gs_registrations st))"

definition sweep_once :: "instant \<Rightarrow> gate_state \<Rightarrow> gate_state \<times> gate_out list" where
  "sweep_once now st =
     (let st = st\<lparr>gs_knocks := filter (\<lambda>(_, k). kn_deadline k > now) (gs_knocks st),
                  gs_register_attempts :=
                    filter (\<lambda>(_, l). \<not> limiter_is_full l) (gs_register_attempts st),
                  gs_secondary_attempts :=
                    filter (\<lambda>(_, l). \<not> limiter_is_full l) (gs_secondary_attempts st)\<rparr>;
          expired = expired_regs now st in
      (fold (\<lambda>(key, i). teardown_registration key i) expired st, map (\<lambda>(_, i). CloseExpired i) expired))"

section \<open>Admission\<close>

text \<open>One attempt of a key against a map of limiters, which has an entry for it afterwards.\<close>

definition take_attempt ::
    "instant \<Rightarrow> instant \<Rightarrow> u32 \<Rightarrow> bytes \<Rightarrow> (bytes, rate_limiter) hashmap \<Rightarrow> (bytes, rate_limiter) hashmap \<times> bool" where
  "take_attempt made_at now per_min key m =
     (let l = (case hm_get m key of None \<Rightarrow> per_minute per_min per_min made_at | Some l \<Rightarrow> l);
          (l, ok) = try_take now l in
      (hm_insert key l m, ok))"

text \<open>A connection to the secondary port, up to its first stream.\<close>

definition secondary_open :: "clock \<Rightarrow> bytes \<Rightarrow> gate_state \<Rightarrow> (gate_state \<times> gate_out list) \<times> bool" where
  "secondary_open t peer_key st =
     (if peer_key \<notin> gs_members st then ((st, [CloseRefused peer_key RefusedNotMember ''not a member'']), False)
      else
        (let (attempts, ok) =
           take_attempt (t 0) (t 1) SECONDARY_ATTEMPTS_PER_MINUTE peer_key (gs_secondary_attempts st);
             st = st\<lparr>gs_secondary_attempts := attempts\<rparr> in
         if ok then ((st, []), True)
         else ((count c_secondary_rate_limited_update st,
                [CloseRefused peer_key RateLimitedCode ''gate_rate_limited'']), False)))"

text \<open>
  One frame on it: the reflections served so far, and whether the connection goes on. The
  address is read anew for every answer.
\<close>

definition reflect_once ::
    "bytes \<Rightarrow> socket_addr \<Rightarrow> u32 \<Rightarrow> gate_frame \<Rightarrow> gate_state \<Rightarrow>
     gate_state \<times> (gate_error + (u32 \<times> gate_frame) + gate_out)" where
  "reflect_once peer_key remote served frame st =
     (case frame of
        Reflect _ \<Rightarrow>
          if served \<ge> REFLECT_PER_CONNECTION then
            (count c_reflect_rate_limited_update st,
             Inr (Inr (ErrorAndClose peer_key RateLimitedCode ''gate_rate_limited'')))
          else (st, Inr (Inl (served + 1, Reflected 1 (from_socket_addr remote))))
      | _ \<Rightarrow> (st, Inl (Protocol ''expected Reflect as the first frame'')))"

text \<open>A connection to the primary port, up to its first stream: it may come to hold a pending slot.\<close>

definition primary_open :: "clock \<Rightarrow> bytes \<Rightarrow> gate_state \<Rightarrow> (gate_state \<times> gate_out list) \<times> bool" where
  "primary_open t peer_key st =
     (if peer_key \<notin> gs_members st then ((st, [CloseRefused peer_key RefusedNotMember ''not a member'']), False)
      else if gs_pending st \<ge> MAX_PENDING_CONNECTIONS then
        ((count c_pending_refused_update st, [CloseRefused peer_key AtCapacityCode ''gate at capacity'']), False)
      else
        (let (attempts, ok) =
           take_attempt (t 0) (t 1) REGISTER_ATTEMPTS_PER_MINUTE peer_key (gs_register_attempts st);
             st = st\<lparr>gs_register_attempts := attempts\<rparr> in
         if ok then ((st\<lparr>gs_pending := gs_pending st + 1\<rparr>, []), True)
         else ((st, [CloseRefused peer_key RateLimitedCode ''gate_rate_limited'']), False)))"

definition registration_new :: "clock \<Rightarrow> bytes \<Rightarrow> socket_addr \<Rightarrow> registration" where
  "registration_new t peer_key observed = \<lparr>
     rg_key = peer_key, rg_tx = [], rg_writer = True, rg_observed = observed, rg_last_keepalive = t 0,
     rg_introduce_min = per_minute INTRODUCE_PER_MINUTE INTRODUCE_PER_MINUTE (t 1),
     rg_introduce_hour = per_hour INTRODUCE_PER_HOUR INTRODUCE_PER_HOUR (t 2), rg_sessions = [],
     rg_frame_rate = per_second FRAME_RATE_BURST FRAME_RATE_PER_SECOND (t 3),
     rg_keepalive_rate = per_second KEEPALIVE_PER_SECOND KEEPALIVE_PER_SECOND (t 4) \<rparr>"

text \<open>A seat in the table, or the counter of the cap that refuses it.\<close>

definition take_seat :: "bytes \<Rightarrow> nat \<Rightarrow> gate_state \<Rightarrow> gate_state option" where
  "take_seat peer_key i st =
     (if hm_get (gs_registrations st) peer_key = None \<and> length (gs_registrations st) \<ge> gs_capacity st
      then None
      else if length (regs_of st peer_key) \<ge> MAX_CONNECTIONS_PER_KEY then None
      else Some (st\<lparr>gs_registrations :=
        hm_insert peer_key (regs_of st peer_key @ [i]) (gs_registrations st)\<rparr>))"

text \<open>
  The first frame of a connection that holds a pending slot, which is free when the handler
  is through or has registered it. When the answer cannot be written the handler returns at
  once, and the seat stays taken until the sweep.
\<close>

definition register_frame ::
    "clock \<Rightarrow> bytes \<Rightarrow> socket_addr \<Rightarrow> gate_frame \<Rightarrow> bool \<Rightarrow> gate_state \<Rightarrow> gate_state \<times> gate_out list" where
  "register_frame t peer_key observed frame write_ok st =
     (let st = st\<lparr>gs_pending := gs_pending st - 1\<rparr> in
      case frame of
        Register _ community \<Rightarrow>
          if community \<noteq> gs_community st then
            (st, [ErrorAndClose peer_key RefusedNotMember ''wrong community''])
          else
            (let i = length (gs_heap st) in
             case take_seat peer_key i (st\<lparr>gs_heap := gs_heap st @ [registration_new t peer_key observed]\<rparr>) of
               None \<Rightarrow>
                 (if hm_get (gs_registrations st) peer_key = None
                  then count c_refused_at_capacity_update st
                  else count c_refused_at_key_capacity_update st,
                  [ErrorAndClose peer_key AtCapacityCode ''gate at capacity''])
             | Some st \<Rightarrow>
                 if write_ok
                 then (st, [Wrote i (Registered 1 (from_socket_addr observed) 15 (gs_secondary_port st))])
                 else (upd_reg i (\<lambda>r. r\<lparr>rg_writer := False\<rparr>) st, []))
      | _ \<Rightarrow> (st, []))"

section \<open>The control stream\<close>

definition handle_introduce ::
    "crypto \<Rightarrow> clock \<Rightarrow> nat \<Rightarrow> bytes \<Rightarrow> u16 \<Rightarrow> bytes \<Rightarrow> gate_state \<Rightarrow> gate_state" where
  "handle_introduce K t i tag ttl_s sealed st =
     (let ttl_s = min ttl_s INTRODUCE_TTL_CAP_S;
          (minute, ok_minute) = try_take (t 0) (rg_introduce_min (gs_heap st ! i));
          (hour, ok_hour) =
            (if ok_minute then try_take (t 1) (rg_introduce_hour (gs_heap st ! i))
             else (rg_introduce_hour (gs_heap st ! i), False));
          st = upd_reg i (\<lambda>r. r\<lparr>rg_introduce_min := minute, rg_introduce_hour := hour\<rparr>) st;
          key = rg_key (gs_heap st ! i) in
      if \<not> ok_minute \<or> \<not> ok_hour then send_frame i (rate_limited_frame ''introduce rate limit exceeded'') st
      else
        (case find (\<lambda>candidate. candidate \<noteq> key \<and> pair_tag K (gs_community st) key candidate = tag)
             (map fst (gs_registrations st)) of
           None \<Rightarrow> st
         | Some target_key \<Rightarrow>
             (case newest st target_key of
                None \<Rightarrow> st
              | Some target \<Rightarrow>
                  send_frame target (Knock 1 tag ttl_s sealed)
                    (st\<lparr>gs_knocks := hm_insert tag
                       \<lparr>kn_requester = key, kn_target = target_key,
                        kn_deadline = t 2 + from_secs (unat ttl_s)\<rparr> (gs_knocks st)\<rparr>))))"

definition handle_start_request :: "instant \<Rightarrow> nat \<Rightarrow> u32 \<Rightarrow> gate_state \<Rightarrow> gate_state" where
  "handle_start_request now i session st =
     (case hm_get (gs_sessions st) session of
        None \<Rightarrow> count c_start_unknown_session_update st
      | Some s \<Rightarrow>
          if ss_key_a s \<noteq> rg_key (gs_heap st ! i) \<and> ss_key_b s \<noteq> rg_key (gs_heap st ! i) then
            count c_start_wrong_sender_update st
          else
            (let taken = ss_start_requests s;
                 gate_ms = of_nat (min (duration_since now (ss_opened_at s) div 1000000) (2 ^ 64 - 1));
                 st = st\<lparr>gs_sessions := hm_insert session (s\<lparr>ss_start_requests := taken + 1\<rparr>) (gs_sessions st)\<rparr> in
             if taken \<ge> START_REQUESTS_PER_SESSION then count c_start_ignored_update st
             else
               fold (\<lambda>key st.
                   (case newest st key of
                      None \<Rightarrow> st
                    | Some target \<Rightarrow> send_frame target (Start 1 session START_FIRE_IN_MS gate_ms) st))
                 [ss_key_a s, ss_key_b s] st))"

definition relay_limiter_new :: "instant \<Rightarrow> rate_limiter" where
  "relay_limiter_new now = capacity_per_hour (f64_round (of_nat RELAY_BYTES_PER_HOUR)) now"

definition session_new :: "clock \<Rightarrow> bytes \<Rightarrow> bytes \<Rightarrow> session_state" where
  "session_new t requester target = \<lparr>
     ss_key_a = requester, ss_key_b = target, ss_start_requests = 0, ss_opened_at = t 3,
     ss_a_to_b = relay_limiter_new (t 4), ss_b_to_a = relay_limiter_new (t 5),
     ss_a_to_b_shaper = gate_shaper (t 1), ss_b_to_a_shaper = gate_shaper (t 2),
     ss_a_to_b_task = True, ss_b_to_a_task = True \<rparr>"

text \<open>
  The numbers that the generator draws are an argument. The loop ends at the first that no
  session has; a list without one is a loop that still draws, and the state does not change.
\<close>

definition draw_session_id :: "u32 list \<Rightarrow> gate_state \<Rightarrow> u32 option" where
  "draw_session_id draws st = find (\<lambda>sid. hm_get (gs_sessions st) sid = None) draws"

definition open_session :: "clock \<Rightarrow> u32 \<Rightarrow> bytes \<Rightarrow> knock_state \<Rightarrow> nat \<Rightarrow> nat \<Rightarrow> gate_state \<Rightarrow> gate_state" where
  "open_session t sid tag knock requester target st =
     (let st = st\<lparr>gs_sessions := hm_insert sid (session_new t (kn_requester knock) (kn_target knock)) (gs_sessions st)\<rparr>;
          st = upd_reg requester (\<lambda>r. r\<lparr>rg_sessions := List.insert sid (rg_sessions r)\<rparr>) st;
          st = upd_reg target (\<lambda>r. r\<lparr>rg_sessions := List.insert sid (rg_sessions r)\<rparr>) st;
          st = send_frame requester
            (Introduction 1 tag sid (from_socket_addr (rg_observed (gs_heap st ! target))) 1) st in
      send_frame target
        (Introduction 1 tag sid (from_socket_addr (rg_observed (gs_heap st ! requester))) 2) st)"

definition handle_knock_answer ::
    "clock \<Rightarrow> u32 list \<Rightarrow> nat \<Rightarrow> bytes \<Rightarrow> bool \<Rightarrow> gate_state \<Rightarrow> gate_state" where
  "handle_knock_answer t draws i tag accept st =
     (case hm_get (gs_knocks st) tag of
        None \<Rightarrow> st
      | Some knock \<Rightarrow>
          if kn_target knock \<noteq> rg_key (gs_heap st ! i) then count c_knock_wrong_target_update st
          else
            (let st = st\<lparr>gs_knocks := hm_remove tag (gs_knocks st)\<rparr> in
             if t 0 > kn_deadline knock then st
             else if \<not> accept then st
             else
               (case (newest st (kn_requester knock), newest st (kn_target knock)) of
                  (Some requester, Some target) \<Rightarrow>
                    if length (rg_sessions (gs_heap st ! requester)) \<ge> MAX_SESSIONS_PER_REGISTRATION \<or>
                       length (rg_sessions (gs_heap st ! target)) \<ge> MAX_SESSIONS_PER_REGISTRATION
                    then st
                    else
                      (case draw_session_id draws st of
                         None \<Rightarrow> st
                       | Some sid \<Rightarrow> open_session t sid tag knock requester target st)
                | _ \<Rightarrow> st)))"

text \<open>One frame of the control loop, and whether the loop goes on.\<close>

definition control_frame ::
    "crypto \<Rightarrow> clock \<Rightarrow> u32 list \<Rightarrow> nat \<Rightarrow> gate_frame \<Rightarrow> gate_state \<Rightarrow> gate_state \<times> bool" where
  "control_frame K t draws i frame st =
     (let (l, ok) = try_take (t 0) (rg_frame_rate (gs_heap st ! i));
          st = upd_reg i (\<lambda>r. r\<lparr>rg_frame_rate := l\<rparr>) st;
          t = (\<lambda>n. t (Suc n)) in
      if \<not> ok then
        (send_frame i (rate_limited_frame ''frame rate limit exceeded'') (count c_frame_rate_limited_update st), True)
      else
        (case frame of
           Keepalive _ \<Rightarrow>
             (let (l, ok) = try_take (t 0) (rg_keepalive_rate (gs_heap st ! i));
                  st = upd_reg i (\<lambda>r. r\<lparr>rg_keepalive_rate := l\<rparr>) st in
              if \<not> ok then
                (send_frame i (rate_limited_frame ''keepalive rate limit exceeded'')
                   (count c_keepalive_rate_limited_update st), True)
              else
                (let st = upd_reg i (\<lambda>r. r\<lparr>rg_last_keepalive := t 1\<rparr>) st in
                 (send_frame i (KeepaliveAck 1 (from_socket_addr (rg_observed (gs_heap st ! i)))) st, True)))
         | Introduce _ tag ttl_s sealed \<Rightarrow> (handle_introduce K t i tag ttl_s sealed st, True)
         | KnockAnswer _ tag accept \<Rightarrow> (handle_knock_answer t draws i tag accept st, True)
         | StartRequest _ session \<Rightarrow> (handle_start_request (t 0) i session st, True)
         | _ \<Rightarrow> (st, False)))"

text \<open>The end of the loop, for whatever reason.\<close>

definition control_end :: "nat \<Rightarrow> gate_state \<Rightarrow> gate_state" where
  "control_end i st =
     teardown_registration (rg_key (gs_heap st ! i)) i (upd_reg i (\<lambda>r. r\<lparr>rg_writer := False\<rparr>) st)"

definition writer_step :: "nat \<Rightarrow> bool \<Rightarrow> gate_state \<Rightarrow> gate_state \<times> gate_out list" where
  "writer_step i write_ok st =
     (if \<not> rg_writer (gs_heap st ! i) then (st, [])
      else
        (case rg_tx (gs_heap st ! i) of
           [] \<Rightarrow> (st, [])
         | frame # rest \<Rightarrow>
             (upd_reg i (\<lambda>r. r\<lparr>rg_tx := rest, rg_writer := write_ok\<rparr>) st,
              if write_ok then [Wrote i frame] else [])))"

section \<open>The relay\<close>

definition forward_relay :: "clock \<Rightarrow> u32 \<Rightarrow> bytes \<Rightarrow> bytes \<Rightarrow> gate_state \<Rightarrow> gate_state" where
  "forward_relay t session sender_key payload st =
     (let amount = f64_round (of_nat (length payload)) in
      case hm_get (gs_sessions st) session of
        None \<Rightarrow> count c_relay_sender_mismatch_update st
      | Some s \<Rightarrow>
          if ss_key_a s \<noteq> sender_key \<and> ss_key_b s \<noteq> sender_key then
            count c_relay_sender_mismatch_update st
          else
            (let a_to_b = (ss_key_a s = sender_key);
                 (l, ok) = try_take_n (t 0) amount (if a_to_b then ss_a_to_b s else ss_b_to_a s);
                 s = (if a_to_b then s\<lparr>ss_a_to_b := l\<rparr> else s\<lparr>ss_b_to_a := l\<rparr>);
                 st = st\<lparr>gs_sessions := hm_insert session s (gs_sessions st)\<rparr> in
             if \<not> ok then count c_relay_rate_limited_update st
             else
               (case encode_relay session payload of
                  Inl _ \<Rightarrow> count c_relay_oversized_update st
                | Inr encoded \<Rightarrow>
                    (let (sh, r) = enqueue_or_drop (t 1) encoded
                           (if a_to_b then ss_a_to_b_shaper s else ss_b_to_a_shaper s);
                         s = (if a_to_b then s\<lparr>ss_a_to_b_shaper := sh\<rparr> else s\<lparr>ss_b_to_a_shaper := sh\<rparr>);
                         st = st\<lparr>gs_sessions := hm_insert session s (gs_sessions st)\<rparr> in
                     if r = Full then count c_relay_dropped_at_full_update st else st))))"

definition relay_datagram :: "clock \<Rightarrow> nat \<Rightarrow> bytes \<Rightarrow> gate_state \<Rightarrow> gate_state" where
  "relay_datagram t i datagram st =
     (case decode_relay datagram of
        Inl _ \<Rightarrow> count c_relay_oversized_update st
      | Inr (session, payload) \<Rightarrow> forward_relay t session (rg_key (gs_heap st ! i)) payload st)"

text \<open>
  One turn of a drain task: a pass of the shaper and, when it hands something over, the sends.
  The number of sends that succeed is an argument; at the first that fails the task returns.
\<close>

definition relay_drain :: "clock \<Rightarrow> u32 \<Rightarrow> bool \<Rightarrow> nat \<Rightarrow> gate_state \<Rightarrow> gate_state \<times> gate_out list" where
  "relay_drain t session a_to_b sends st =
     (case hm_get (gs_sessions st) session of
        None \<Rightarrow> (st, [])
      | Some s \<Rightarrow>
          if \<not> (if a_to_b then ss_a_to_b_task s else ss_b_to_a_task s) then (st, [])
          else
            (let (sh, next) = drain_pass (t 0) (t 1) (if a_to_b then ss_a_to_b_shaper s else ss_b_to_a_shaper s);
                 (goes_on, out) =
                   (case next of
                      Ready payloads _ \<Rightarrow>
                        (case newest st (if a_to_b then ss_key_b s else ss_key_a s) of
                           None \<Rightarrow> (False, [])
                         | Some destination \<Rightarrow>
                             (length payloads \<le> sends, map (SendDatagram destination) (take sends payloads)))
                    | ClosedNext \<Rightarrow> (False, [])
                    | _ \<Rightarrow> (True, []));
                 s = (if a_to_b then s\<lparr>ss_a_to_b_shaper := sh, ss_a_to_b_task := goes_on\<rparr>
                      else s\<lparr>ss_b_to_a_shaper := sh, ss_b_to_a_task := goes_on\<rparr>) in
             (st\<lparr>gs_sessions := hm_insert session s (gs_sessions st)\<rparr>, out)))"

section \<open>Runs\<close>

text \<open>
  Everything that can happen to a gate. A registration is named by its index, also after its
  teardown, when its control loop may still hold a frame.
\<close>

datatype gate_event =
    ReloadMembers "gate_error + bytes set"
  | SecondaryOpen clock bytes
  | PrimaryOpen clock bytes
  | RegisterFrame clock bytes socket_addr gate_frame bool
  | PendingLost
  | ControlFrame clock "u32 list" nat gate_frame
  | ControlEnd nat
  | WriterStep nat bool
  | RelayDatagram clock nat bytes
  | RelayDrain clock u32 bool nat
  | Sweep instant

fun gate_step :: "crypto \<Rightarrow> gate_event \<Rightarrow> gate_state \<Rightarrow> gate_state \<times> gate_out list" where
  "gate_step K (ReloadMembers r) st =
     ((case r of Inl _ \<Rightarrow> st | Inr members \<Rightarrow> st\<lparr>gs_members := members\<rparr>), [])"
| "gate_step K (SecondaryOpen t key) st = fst (secondary_open t key st)"
| "gate_step K (PrimaryOpen t key) st = fst (primary_open t key st)"
| "gate_step K (RegisterFrame t key observed frame write_ok) st =
     (if gs_pending st = 0 then (st, []) else register_frame t key observed frame write_ok st)"
| "gate_step K PendingLost st = (st\<lparr>gs_pending := gs_pending st - 1\<rparr>, [])"
| "gate_step K (ControlFrame t draws i frame) st =
     (if i < length (gs_heap st) then
        (case control_frame K t draws i frame st of
           (st, goes_on) \<Rightarrow> (if goes_on then st else control_end i st, []))
      else (st, []))"
| "gate_step K (ControlEnd i) st = (if i < length (gs_heap st) then control_end i st else st, [])"
| "gate_step K (WriterStep i write_ok) st =
     (if i < length (gs_heap st) then writer_step i write_ok st else (st, []))"
| "gate_step K (RelayDatagram t i datagram) st =
     (if i < length (gs_heap st) then relay_datagram t i datagram st else st, [])"
| "gate_step K (RelayDrain t session a_to_b sends) st = relay_drain t session a_to_b sends st"
| "gate_step K (Sweep now) st = sweep_once now st"

fun gate_run :: "crypto \<Rightarrow> gate_event list \<Rightarrow> gate_state \<Rightarrow> gate_state \<times> gate_out list" where
  "gate_run K [] st = (st, [])"
| "gate_run K (e # es) st =
     (case gate_step K e st of (st, out) \<Rightarrow>
      (case gate_run K es st of (st, out') \<Rightarrow> (st, out @ out')))"

end
