(* ===== verification/Seating.thy ===== *)
theory Seating
  imports Gate_Server
begin

text \<open>
  An abstract gate: who is seated, which sessions each registration holds, and the two keys of
  each session. Every step of the gate is one of three abstract steps or changes nothing of
  this, so that the invariants of the table are proved here, without frames or limiters.
\<close>

section \<open>The abstract state\<close>

record seating =
  sg_seats :: "(bytes, nat list) hashmap"
  sg_regs :: "(bytes \<times> u32 list) list"
  sg_sessions :: "(u32, bytes \<times> bytes) hashmap"
  sg_capacity :: nat

definition seats_of :: "seating \<Rightarrow> bytes \<Rightarrow> nat list" where
  "seats_of v key = (case hm_get (sg_seats v) key of None \<Rightarrow> [] | Some l \<Rightarrow> l)"

abbreviation reg_key :: "seating \<Rightarrow> nat \<Rightarrow> bytes" where
  "reg_key v i \<equiv> fst (sg_regs v ! i)"

abbreviation held :: "seating \<Rightarrow> nat \<Rightarrow> u32 list" where
  "held v i \<equiv> snd (sg_regs v ! i)"

abbreviation seated :: "seating \<Rightarrow> nat \<Rightarrow> bool" where
  "seated v i \<equiv> i \<in> set (seats_of v (reg_key v i))"

abbreviation other_key :: "bytes \<Rightarrow> bytes \<times> bytes \<Rightarrow> bytes" where
  "other_key key ab \<equiv> (if fst ab = key then snd ab else fst ab)"

section \<open>The abstract steps\<close>

definition seating_seat :: "bytes \<Rightarrow> seating \<Rightarrow> seating" where
  "seating_seat key v =
     v\<lparr>sg_seats := hm_insert key (seats_of v key @ [length (sg_regs v)]) (sg_seats v),
       sg_regs := sg_regs v @ [(key, [])]\<rparr>"

definition may_seat :: "bytes \<Rightarrow> seating \<Rightarrow> bool" where
  "may_seat key v \<longleftrightarrow>
     (hm_get (sg_seats v) key = None \<longrightarrow> length (sg_seats v) < sg_capacity v) \<and>
     length (seats_of v key) < MAX_CONNECTIONS_PER_KEY"

definition seating_unseat :: "bytes \<Rightarrow> nat \<Rightarrow> seating \<Rightarrow> seating" where
  "seating_unseat key i v =
     (case hm_get (sg_seats v) key of
        None \<Rightarrow> v
      | Some l \<Rightarrow>
          (let l = filter (\<lambda>r. r \<noteq> i) l in
           v\<lparr>sg_seats := if l = [] then hm_remove key (sg_seats v) else hm_insert key l (sg_seats v)\<rparr>))"

text \<open>The sessions that the registration holds end, and the other key's registrations forget them.\<close>

definition seating_teardown :: "bytes \<Rightarrow> nat \<Rightarrow> seating \<Rightarrow> seating" where
  "seating_teardown key i v =
     (let u = seating_unseat key i v; gone = set (held v i) in
      u\<lparr>sg_regs := map (\<lambda>j. (reg_key v j, filter (\<lambda>sid. \<not> (sid \<in> gone \<and>
            (\<exists>ab. hm_get (sg_sessions v) sid = Some ab \<and> j \<in> set (seats_of u (other_key key ab))))) (held v j)))
          [0..<length (sg_regs v)],
        sg_sessions := filter (\<lambda>(sid, _). sid \<notin> gone) (sg_sessions v)\<rparr>)"

definition seating_open :: "u32 \<Rightarrow> nat \<Rightarrow> nat \<Rightarrow> bytes \<Rightarrow> bytes \<Rightarrow> seating \<Rightarrow> seating" where
  "seating_open sid i j a b v =
     v\<lparr>sg_sessions := hm_insert sid (a, b) (sg_sessions v),
       sg_regs := (sg_regs v)[i := (reg_key v i, List.insert sid (held v i)),
                              j := (reg_key v j, List.insert sid (held v j))]\<rparr>"

text \<open>When a session may open: its number is fresh, and both ends are seated and have room.\<close>

definition may_open :: "u32 set \<Rightarrow> u32 \<Rightarrow> nat \<Rightarrow> nat \<Rightarrow> bytes \<Rightarrow> bytes \<Rightarrow> seating \<Rightarrow> bool" where
  "may_open U sid i j a b v \<longleftrightarrow>
     sid \<notin> U \<and> a \<noteq> b \<and> i \<in> set (seats_of v a) \<and> j \<in> set (seats_of v b) \<and>
     length (held v i) < MAX_SESSIONS_PER_REGISTRATION \<and> length (held v j) < MAX_SESSIONS_PER_REGISTRATION"

section \<open>The invariant\<close>

text \<open>
  Caps, seats in order of their keys, and sessions backed from both sides. \<open>U\<close> has every number
  that was ever given to a session; a registration that is gone holds no live one.
\<close>

definition seats_ok :: "seating \<Rightarrow> bool" where
  "seats_ok v \<longleftrightarrow>
     hm_wf (sg_seats v) \<and> length (sg_seats v) \<le> sg_capacity v \<and>
     (\<forall>(key, l) \<in> set (sg_seats v). l \<noteq> [] \<and> distinct l \<and> length l \<le> MAX_CONNECTIONS_PER_KEY \<and>
        (\<forall>i \<in> set l. i < length (sg_regs v) \<and> reg_key v i = key))"

definition reg_ok :: "u32 set \<Rightarrow> (u32, bytes \<times> bytes) hashmap \<Rightarrow> bool \<Rightarrow> bytes \<times> u32 list \<Rightarrow> bool" where
  "reg_ok U sessions sits r \<longleftrightarrow>
     distinct (snd r) \<and> length (snd r) \<le> MAX_SESSIONS_PER_REGISTRATION \<and> set (snd r) \<subseteq> U \<and>
     (\<forall>sid \<in> set (snd r). \<forall>ab. hm_get sessions sid = Some ab \<longrightarrow> sits \<and> fst r \<in> {fst ab, snd ab}) \<and>
     (sits \<longrightarrow> (\<forall>sid \<in> set (snd r). hm_get sessions sid \<noteq> None))"

definition held_ok :: "u32 set \<Rightarrow> seating \<Rightarrow> bool" where
  "held_ok U v \<longleftrightarrow> (\<forall>i < length (sg_regs v). reg_ok U (sg_sessions v) (seated v i) (sg_regs v ! i))"

definition backed_ok :: "u32 set \<Rightarrow> seating \<Rightarrow> bool" where
  "backed_ok U v \<longleftrightarrow>
     hm_wf (sg_sessions v) \<and>
     (\<forall>sid ab. hm_get (sg_sessions v) sid = Some ab \<longrightarrow>
        sid \<in> U \<and> fst ab \<noteq> snd ab \<and>
        (\<forall>key \<in> {fst ab, snd ab}. \<exists>!i. i \<in> set (seats_of v key) \<and> sid \<in> set (held v i)))"

definition seating_ok :: "u32 set \<Rightarrow> seating \<Rightarrow> bool" where
  "seating_ok U v \<longleftrightarrow> seats_ok v \<and> held_ok U v \<and> backed_ok U v"

lemma seats_ofD:
  assumes "seats_ok v" and mem: "i \<in> set (seats_of v key)"
  shows "i < length (sg_regs v) \<and> reg_key v i = key"
proof -
  obtain l where "hm_get (sg_seats v) key = Some l" "i \<in> set l"
    using mem by (cases "hm_get (sg_seats v) key") (auto simp: seats_of_def)
  then show ?thesis using assms(1) map_of_SomeD unfolding seats_ok_def by fastforce
qed

lemma seats_of_distinct: "seats_ok v \<Longrightarrow> distinct (seats_of v key) \<and> length (seats_of v key) \<le> MAX_CONNECTIONS_PER_KEY"
  by (auto simp: seats_ok_def seats_of_def MAX_CONNECTIONS_PER_KEY_def split: option.split dest: map_of_SomeD)

lemma seating_ok_mono: "seating_ok U v \<Longrightarrow> U \<subseteq> U' \<Longrightarrow> seating_ok U' v"
  unfolding seating_ok_def held_ok_def reg_ok_def backed_ok_def by blast

subsection \<open>Seating\<close>

lemma seats_of_seat:
  "seats_of (seating_seat key v) k = (if k = key then seats_of v key @ [length (sg_regs v)] else seats_of v k)"
  by (simp add: seats_of_def seating_seat_def hm_get_insert)

lemma update_length: "length (AList.update k x m) = (if map_of m k = None then Suc (length m) else length m)"
  by (induction m) auto

lemma set_update_subset: "set (AList.update k x m) \<subseteq> insert (k, x) (set m)"
  by (induction m) auto

lemma seat_frame:
  "i \<le> length (sg_regs v) \<Longrightarrow> sg_regs (seating_seat key v) ! i = (if i = length (sg_regs v) then (key, []) else sg_regs v ! i)"
  "length (sg_regs (seating_seat key v)) = Suc (length (sg_regs v))"
  "sg_sessions (seating_seat key v) = sg_sessions v"
  by (simp_all add: seating_seat_def nth_append)

lemma seating_seat_seats:
  assumes s: "seats_ok v" and may: "may_seat key v"
  shows "seats_ok (seating_seat key v)"
proof -
  let ?v = "seating_seat key v" and ?n = "length (sg_regs v)"
  note regs = seat_frame(1) and len = seat_frame(2)
  have new: "?n \<notin> set (seats_of v k)" for k using seats_ofD [OF s] by blast
  show ?thesis
    unfolding seats_ok_def
  proof (intro conjI ballI)
    show "hm_wf (sg_seats ?v)" using s by (simp add: seating_seat_def seats_ok_def)
    show "length (sg_seats ?v) \<le> sg_capacity ?v"
      using s may by (auto simp: seating_seat_def seats_ok_def may_seat_def update_length)
  next
    fix kl assume kl_mem: "kl \<in> set (sg_seats ?v)"
    obtain k l where kl: "kl = (k, l)" by (cases kl)
    then have mem: "(k, l) \<in> set (sg_seats ?v)" using kl_mem by simp
    have "l = seats_of ?v k"
      using s mem hm_get_iff_mem [of "sg_seats ?v" k l] by (simp add: seating_seat_def seats_ok_def seats_of_def)
    moreover have "k = key \<or> (k, l) \<in> set (sg_seats v)"
      using mem set_update_subset [of key _ "sg_seats v"] by (auto simp: seating_seat_def)
    ultimately have l: "l = (if k = key then seats_of v key @ [?n] else seats_of v k)" "k \<noteq> key \<Longrightarrow> (k, l) \<in> set (sg_seats v)"
      by (auto simp: seats_of_seat)
    have "l \<noteq> []" using l s by (auto simp: seats_ok_def split: if_splits)
    moreover have "distinct l" using l seats_of_distinct [OF s] new by (auto split: if_splits)
    moreover have "length l \<le> MAX_CONNECTIONS_PER_KEY"
      using l(1) seats_of_distinct [OF s, of k] may by (auto simp: may_seat_def split: if_splits)
    moreover have "i < length (sg_regs ?v) \<and> reg_key ?v i = k" if "i \<in> set l" for i
    proof (cases "i = ?n")
      case True
      then show ?thesis using that l(1) new by (auto simp: len regs split: if_splits)
    next
      case False
      then have "i \<in> set (seats_of v k)" using that l(1) by (auto split: if_splits)
      from seats_ofD [OF s this] show ?thesis by (simp add: len regs)
    qed
    ultimately show "case kl of (key, l) \<Rightarrow> l \<noteq> [] \<and> distinct l \<and> length l \<le> MAX_CONNECTIONS_PER_KEY \<and>
        (\<forall>i \<in> set l. i < length (sg_regs ?v) \<and> reg_key ?v i = key)"
      by (simp add: kl)
  qed
qed

lemma seating_seat_ok:
  assumes ok: "seating_ok U v" and "may_seat key v"
  shows "seating_ok U (seating_seat key v)"
proof -
  let ?v = "seating_seat key v" and ?n = "length (sg_regs v)"
  have s: "seats_ok v" and h: "held_ok U v" and b: "backed_ok U v" using ok by (simp_all add: seating_ok_def)
  note regs = seat_frame(1) and len = seat_frame(2) and sess = seat_frame(3)
  have old: "i \<in> set (seats_of ?v k) \<longleftrightarrow> i \<in> set (seats_of v k)" if "i < ?n" for i k
    using that by (auto simp: seats_of_seat)
  have "seats_ok ?v" by (rule seating_seat_seats [OF s assms(2)])
  moreover have "held_ok U ?v"
    unfolding held_ok_def len sess
  proof (intro allI impI)
    fix i assume "i < Suc ?n"
    then show "reg_ok U (sg_sessions v) (seated ?v i) (sg_regs ?v ! i)"
      using h old [of i] by (cases "i = ?n") (simp_all add: regs held_ok_def, simp add: reg_ok_def)
  qed
  moreover have "backed_ok U ?v"
    unfolding backed_ok_def sess
  proof (intro conjI allI impI ballI)
    show "hm_wf (sg_sessions v)" using b by (simp add: backed_ok_def)
    fix sid ab assume ab: "hm_get (sg_sessions v) sid = Some ab"
    then show "sid \<in> U" "fst ab \<noteq> snd ab" using b unfolding backed_ok_def by blast+
    fix k assume "k \<in> {fst ab, snd ab}"
    then have "\<exists>!i. i \<in> set (seats_of v k) \<and> sid \<in> set (held v i)" using b ab unfolding backed_ok_def by blast
    moreover have "i \<in> set (seats_of ?v k) \<and> sid \<in> set (held ?v i) \<longleftrightarrow> i \<in> set (seats_of v k) \<and> sid \<in> set (held v i)" for i
    proof (cases "i < ?n")
      case True
      then show ?thesis by (simp add: old regs)
    next
      case False
      then have "i \<notin> set (seats_of v k)" using seats_ofD [OF s] by blast
      moreover have "\<not> (i \<in> set (seats_of ?v k) \<and> sid \<in> set (held ?v i))"
        using False calculation by (auto simp: seats_of_seat regs split: if_splits)
      ultimately show ?thesis by blast
    qed
    ultimately show "\<exists>!i. i \<in> set (seats_of ?v k) \<and> sid \<in> set (held ?v i)" by simp
  qed
  ultimately show ?thesis by (simp add: seating_ok_def)
qed

subsection \<open>Teardown\<close>

lemma unseat_frame [simp]:
  "sg_regs (seating_unseat key i v) = sg_regs v" "sg_sessions (seating_unseat key i v) = sg_sessions v"
  "sg_capacity (seating_unseat key i v) = sg_capacity v"
  by (simp_all add: seating_unseat_def Let_def split: option.split)

lemma seats_of_unseat:
  "seats_of (seating_unseat key i v) k = (if k = key then filter (\<lambda>r. r \<noteq> i) (seats_of v k) else seats_of v k)"
  by (auto simp: seats_of_def seating_unseat_def Let_def hm_get_insert hm_get_remove split: option.split)

lemma delete_length: "length (AList.delete k m) \<le> length m"
  unfolding AList.delete_eq by (rule length_filter_le)

lemma update_present_length: "map_of m k = Some y \<Longrightarrow> length (AList.update k x m) = length m"
  by (simp add: update_length)

lemma seating_unseat_ok:
  assumes "seats_ok v"
  shows "seats_ok (seating_unseat key i v)"
proof (cases "hm_get (sg_seats v) key")
  case None
  then show ?thesis using assms by (simp add: seating_unseat_def)
next
  case (Some l)
  let ?u = "seating_unseat key i v" and ?l = "filter (\<lambda>r. r \<noteq> i) l"
  have seats: "sg_seats ?u = (if ?l = [] then hm_remove key (sg_seats v) else hm_insert key ?l (sg_seats v))"
    by (simp add: seating_unseat_def Some Let_def)
  have key: "(key, l) \<in> set (sg_seats v)" using Some by (rule map_of_SomeD)
  have mem: "(k, m) \<in> set (sg_seats v) \<or> k = key \<and> m = ?l \<and> ?l \<noteq> []" if "(k, m) \<in> set (sg_seats ?u)" for k m
    using that set_update_subset [of key ?l "sg_seats v"]
    unfolding seats by (auto simp: AList.delete_eq split: if_splits)
  have old: "m \<noteq> [] \<and> distinct m \<and> length m \<le> MAX_CONNECTIONS_PER_KEY \<and>
      (\<forall>i \<in> set m. i < length (sg_regs v) \<and> reg_key v i = k)" if "(k, m) \<in> set (sg_seats v)" for k m
    using assms that unfolding seats_ok_def by blast
  have len: "length ?l \<le> MAX_CONNECTIONS_PER_KEY"
    using old [OF key] order_trans [OF length_filter_le] by blast
  show ?thesis
    unfolding seats_ok_def
  proof (intro conjI)
    show "hm_wf (sg_seats ?u)" using assms unfolding seats by (simp add: seats_ok_def)
    show "length (sg_seats ?u) \<le> sg_capacity ?u"
      using assms delete_length [of key "sg_seats v"] update_present_length [OF Some, of ?l]
      unfolding seats seats_ok_def by (simp split: if_split)
    show "\<forall>(key, l) \<in> set (sg_seats ?u). l \<noteq> [] \<and> distinct l \<and> length l \<le> MAX_CONNECTIONS_PER_KEY \<and>
        (\<forall>i \<in> set l. i < length (sg_regs ?u) \<and> reg_key ?u i = key)"
    proof (intro ballI, clarify)
      fix k m assume "(k, m) \<in> set (sg_seats ?u)"
      from mem [OF this] show "m \<noteq> [] \<and> distinct m \<and> length m \<le> MAX_CONNECTIONS_PER_KEY \<and>
          (\<forall>i \<in> set m. i < length (sg_regs ?u) \<and> reg_key ?u i = k)"
        using old [of k m] old [OF key] len by auto
    qed
  qed
qed

lemma filter_get: "map_of (filter (\<lambda>(k, _). P k) m) k = (if P k then map_of m k else None)"
  by (induction m) auto

lemma teardown_frame:
  "sg_seats (seating_teardown key i v) = sg_seats (seating_unseat key i v)"
  "sg_capacity (seating_teardown key i v) = sg_capacity v"
  "length (sg_regs (seating_teardown key i v)) = length (sg_regs v)"
  "hm_get (sg_sessions (seating_teardown key i v)) sid =
     (if sid \<in> set (held v i) then None else hm_get (sg_sessions v) sid)"
  "seats_of (seating_teardown key i v) k = (if k = key then filter (\<lambda>r. r \<noteq> i) (seats_of v k) else seats_of v k)"
  "j < length (sg_regs v) \<Longrightarrow> reg_key (seating_teardown key i v) j = reg_key v j"
proof -
  show seats: "sg_seats (seating_teardown key i v) = sg_seats (seating_unseat key i v)"
    by (simp add: seating_teardown_def Let_def)
  show "seats_of (seating_teardown key i v) k = (if k = key then filter (\<lambda>r. r \<noteq> i) (seats_of v k) else seats_of v k)"
    using seats_of_unseat [of key i v k] by (simp add: seats_of_def seats)
  show "hm_get (sg_sessions (seating_teardown key i v)) sid =
      (if sid \<in> set (held v i) then None else hm_get (sg_sessions v) sid)"
    using filter_get [of "\<lambda>sid. sid \<notin> set (held v i)" "sg_sessions v" sid] by (simp add: seating_teardown_def Let_def)
qed (simp_all add: seating_teardown_def Let_def)

lemma teardown_held:
  assumes "j < length (sg_regs v)"
  shows "held (seating_teardown key i v) j = filter (\<lambda>sid. \<not> (sid \<in> set (held v i) \<and>
    (\<exists>ab. hm_get (sg_sessions v) sid = Some ab \<and> j \<in> set (seats_of (seating_unseat key i v) (other_key key ab)))))
    (held v j)"
  using assms by (simp add: seating_teardown_def Let_def)

lemma seating_teardown_seats:
  assumes "seats_ok v"
  shows "seats_ok (seating_teardown key i v)"
  using seating_unseat_ok [OF assms, of key i] teardown_frame(6) [of _ v key i]
  unfolding seats_ok_def by (fastforce simp: teardown_frame(1-3))

lemma seating_teardown_ok:
  assumes ok: "seating_ok U v" and i: "i < length (sg_regs v)" "reg_key v i = key"
  shows "seating_ok U (seating_teardown key i v)"
proof -
  let ?v = "seating_teardown key i v"
  have s: "seats_ok v" and h: "held_ok U v" and b: "backed_ok U v" using ok by (simp_all add: seating_ok_def)
  have reg: "reg_ok U (sg_sessions v) (seated v j) (sg_regs v ! j)" if "j < length (sg_regs v)" for j
    using h that by (simp add: held_ok_def)
  have sit: "j \<in> set (seats_of ?v k) \<longleftrightarrow> j \<in> set (seats_of v k) \<and> (k = key \<longrightarrow> j \<noteq> i)" for j k
    by (simp add: teardown_frame(5))
  have holds: "sid \<in> set (held ?v j) \<longleftrightarrow> sid \<in> set (held v j) \<and> \<not> (sid \<in> set (held v i) \<and>
      (\<exists>ab. hm_get (sg_sessions v) sid = Some ab \<and> j \<in> set (seats_of ?v (other_key key ab))))"
    if "j < length (sg_regs v)" for j sid
    by (simp add: teardown_held [OF that] seats_of_unseat teardown_frame(5))
  have "seats_ok ?v" by (rule seating_teardown_seats [OF s])
  moreover have "held_ok U ?v"
    unfolding held_ok_def teardown_frame(3)
  proof (intro allI impI)
    fix j assume j: "j < length (sg_regs v)"
    note r = reg [OF j, unfolded reg_ok_def]
    show "reg_ok U (sg_sessions ?v) (seated ?v j) (sg_regs ?v ! j)"
      unfolding reg_ok_def
    proof (intro conjI ballI allI impI)
      show "distinct (held ?v j)" "length (held ?v j) \<le> MAX_SESSIONS_PER_REGISTRATION" "set (held ?v j) \<subseteq> U"
        using r length_filter_le order_trans unfolding teardown_held [OF j] by (auto intro: order_trans [OF length_filter_le])
    next
      fix sid ab
      assume sid: "sid \<in> set (held ?v j)" and "hm_get (sg_sessions ?v) sid = Some ab"
      then have get: "sid \<notin> set (held v i)" "hm_get (sg_sessions v) sid = Some ab" "sid \<in> set (held v j)"
        using holds [OF j] by (auto simp: teardown_frame(4) split: if_splits)
      then have "seated v j" "reg_key v j \<in> {fst ab, snd ab}" "j \<noteq> i" using r by blast+
      then show "seated ?v j" "reg_key ?v j \<in> {fst ab, snd ab}" by (simp_all add: sit teardown_frame(6) [OF j])
    next
      fix sid
      assume "seated ?v j" and sid: "sid \<in> set (held ?v j)"
      then have j': "seated v j" "reg_key v j = key \<longrightarrow> j \<noteq> i" "sid \<in> set (held v j)"
        using holds [OF j] by (simp_all add: sit teardown_frame(6) [OF j])
      then obtain ab where ab: "hm_get (sg_sessions v) sid = Some ab" "reg_key v j \<in> {fst ab, snd ab}" using r by blast
      have "sid \<notin> set (held v i)"
      proof
        assume gone: "sid \<in> set (held v i)"
        then have i': "seated v i" "key \<in> {fst ab, snd ab}"
          using reg [OF i(1), unfolded reg_ok_def] ab(1) i(2) by blast+
        have ne: "fst ab \<noteq> snd ab" using b ab(1) unfolding backed_ok_def by blast
        show False
        proof (cases "reg_key v j = key")
          case True
          have "\<exists>!m. m \<in> set (seats_of v key) \<and> sid \<in> set (held v m)"
            using b ab(1) i'(2) unfolding backed_ok_def by blast
          then have "i = j" using i' i(2) gone j' True by auto
          then show False using j'(2) True by simp
        next
          case False
          then have "other_key key ab = reg_key v j" using i'(2) ab(2) ne by auto
          then have "j \<in> set (seats_of ?v (other_key key ab))" using j'(1) False by (simp add: sit)
          then show False using sid holds [OF j] gone ab(1) by blast
        qed
      qed
      then show "hm_get (sg_sessions ?v) sid \<noteq> None" using ab(1) by (simp add: teardown_frame(4))
    qed
  qed
  moreover have "backed_ok U ?v"
    unfolding backed_ok_def
  proof (intro conjI allI impI ballI)
    show "hm_wf (sg_sessions ?v)"
      using b unfolding backed_ok_def hm_wf_def by (simp add: seating_teardown_def Let_def distinct_map_filter)
    fix sid ab assume "hm_get (sg_sessions ?v) sid = Some ab"
    then have ab: "sid \<notin> set (held v i)" "hm_get (sg_sessions v) sid = Some ab"
      by (auto simp: teardown_frame(4) split: if_splits)
    then show "sid \<in> U" "fst ab \<noteq> snd ab" using b unfolding backed_ok_def by blast+
    fix k assume "k \<in> {fst ab, snd ab}"
    then have "\<exists>!m. m \<in> set (seats_of v k) \<and> sid \<in> set (held v m)" using b ab(2) unfolding backed_ok_def by blast
    moreover have "m \<in> set (seats_of ?v k) \<and> sid \<in> set (held ?v m) \<longleftrightarrow> m \<in> set (seats_of v k) \<and> sid \<in> set (held v m)" for m
      using ab(1) sit holds [of m sid] seats_ofD [OF s, of m k] by blast
    ultimately show "\<exists>!m. m \<in> set (seats_of ?v k) \<and> sid \<in> set (held ?v m)" by simp
  qed
  ultimately show ?thesis by (simp add: seating_ok_def)
qed

subsection \<open>Opening a session\<close>

lemma open_frame:
  assumes "i < length (sg_regs v)" and "j < length (sg_regs v)" and "i \<noteq> j"
  shows "seats_of (seating_open sid i j a b v) k = seats_of v k"
    "length (sg_regs (seating_open sid i j a b v)) = length (sg_regs v)"
    "reg_key (seating_open sid i j a b v) m = reg_key v m"
    "held (seating_open sid i j a b v) m = (if m \<in> {i, j} then List.insert sid (held v m) else held v m)"
    "hm_get (sg_sessions (seating_open sid i j a b v)) t = (if t = sid then Some (a, b) else hm_get (sg_sessions v) t)"
  using assms by (auto simp: seating_open_def seats_of_def hm_get_insert nth_list_update)

lemma seating_open_ok:
  assumes ok: "seating_ok U v" and may: "may_open U sid i j a b v"
  shows "seating_ok (insert sid U) (seating_open sid i j a b v)"
proof -
  let ?v = "seating_open sid i j a b v"
  have s: "seats_ok v" and h: "held_ok U v" and bk: "backed_ok U v" using ok by (simp_all add: seating_ok_def)
  have at: "i < length (sg_regs v)" "reg_key v i = a" "j < length (sg_regs v)" "reg_key v j = b" and ne: "a \<noteq> b"
    and sits: "i \<in> set (seats_of v a)" "j \<in> set (seats_of v b)"
    using may seats_ofD [OF s] by (auto simp: may_open_def)
  have ij: "i \<noteq> j" using at ne by auto
  note f = open_frame [OF at(1,3) ij, of sid a b]
  have fresh: "sid \<notin> set (held v m)" if "m < length (sg_regs v)" for m
    using h that may unfolding held_ok_def reg_ok_def may_open_def by blast
  have none: "hm_get (sg_sessions v) sid = None"
    using bk may unfolding backed_ok_def may_open_def by (cases "hm_get (sg_sessions v) sid") blast+
  have "seats_ok ?v" using s f(2,3) unfolding seats_ok_def by (auto simp: seating_open_def)
  moreover have "held_ok (insert sid U) ?v"
    unfolding held_ok_def f(2)
  proof (intro allI impI)
    fix m assume m: "m < length (sg_regs v)"
    have r: "reg_ok U (sg_sessions v) (seated v m) (sg_regs v ! m)" using h m by (simp add: held_ok_def)
    have sit: "seated ?v m \<longleftrightarrow> seated v m" by (simp add: f)
    show "reg_ok (insert sid U) (sg_sessions ?v) (seated ?v m) (sg_regs ?v ! m)"
    proof (cases "m \<in> {i, j}")
      case True
      then have "seated v m" "reg_key v m \<in> {a, b}" "length (held v m) < MAX_SESSIONS_PER_REGISTRATION"
        using at sits may by (auto simp: may_open_def)
      then show ?thesis
        using r True fresh [OF m] unfolding sit unfolding reg_ok_def f(3) f(4) f(5) by auto
    next
      case False
      then show ?thesis using r fresh [OF m] unfolding sit unfolding reg_ok_def f(3) f(4) f(5) by auto
    qed
  qed
  moreover have "backed_ok (insert sid U) ?v"
    unfolding backed_ok_def
  proof (intro conjI allI impI ballI)
    show "hm_wf (sg_sessions ?v)" using bk by (simp add: backed_ok_def seating_open_def)
    fix t ab assume get: "hm_get (sg_sessions ?v) t = Some ab"
    then have t: "t = sid \<and> ab = (a, b) \<or> t \<noteq> sid \<and> hm_get (sg_sessions v) t = Some ab"
      by (auto simp: f(5) split: if_splits)
    then show "t \<in> insert sid U" "fst ab \<noteq> snd ab" using bk ne unfolding backed_ok_def by (fastforce, force)
    fix k assume k: "k \<in> {fst ab, snd ab}"
    show "\<exists>!m. m \<in> set (seats_of ?v k) \<and> t \<in> set (held ?v m)"
    proof (cases "t = sid")
      case True
      have "m \<in> set (seats_of ?v k) \<and> t \<in> set (held ?v m) \<longleftrightarrow> m = (if k = a then i else j)" for m
        using True t k at sits ne seats_ofD [OF s, of m k] fresh by (auto simp: f)
      then show ?thesis by simp
    next
      case False
      then have "\<exists>!m. m \<in> set (seats_of v k) \<and> t \<in> set (held v m)" using bk t k unfolding backed_ok_def by blast
      moreover have "m \<in> set (seats_of ?v k) \<and> t \<in> set (held ?v m) \<longleftrightarrow> m \<in> set (seats_of v k) \<and> t \<in> set (held v m)" for m
        using False by (simp add: f)
      ultimately show ?thesis by simp
    qed
  qed
  ultimately show ?thesis by (simp add: seating_ok_def)
qed

section \<open>How many sessions there can be\<close>

lemma sum_list_card: "card (\<Union>(set (map set ls))) \<le> sum_list (map length ls)"
proof (induction ls)
  case (Cons l ls)
  have "card (set l \<union> \<Union>(set (map set ls))) \<le> card (set l) + card (\<Union>(set (map set ls)))" by (rule card_Un_le)
  then show ?case using Cons card_length [of l] by simp
qed simp

lemma sum_list_length_le: "\<forall>l \<in> set ls. length l \<le> n \<Longrightarrow> sum_list (map length ls) \<le> n * length ls"
  by (induction ls) auto

lemma seated_card:
  assumes "seats_ok v"
  shows "finite {i. seated v i} \<and> card {i. seated v i} \<le> MAX_CONNECTIONS_PER_KEY * sg_capacity v"
proof -
  let ?ls = "map snd (sg_seats v)"
  have sub: "{i. seated v i} \<subseteq> \<Union>(set (map set ?ls))"
  proof
    fix i assume "i \<in> {i. seated v i}"
    then obtain l where "hm_get (sg_seats v) (reg_key v i) = Some l" "i \<in> set l"
      by (cases "hm_get (sg_seats v) (reg_key v i)") (auto simp: seats_of_def)
    then show "i \<in> \<Union>(set (map set ?ls))" using map_of_SomeD by fastforce
  qed
  have "\<forall>l \<in> set ?ls. length l \<le> MAX_CONNECTIONS_PER_KEY" using assms by (auto simp: seats_ok_def)
  then have "sum_list (map length ?ls) \<le> MAX_CONNECTIONS_PER_KEY * length ?ls" by (rule sum_list_length_le)
  also have "\<dots> \<le> MAX_CONNECTIONS_PER_KEY * sg_capacity v" using assms by (simp add: seats_ok_def)
  finally have "card (\<Union>(set (map set ?ls))) \<le> MAX_CONNECTIONS_PER_KEY * sg_capacity v"
    using sum_list_card [of ?ls] by simp
  then show ?thesis using sub card_mono [OF _ sub] finite_subset [OF sub] by simp
qed

text \<open>Each session takes two places, one at a registration of each of its keys.\<close>

lemma session_count:
  assumes "seating_ok U v"
  shows "2 * length (sg_sessions v) \<le> MAX_CONNECTIONS_PER_KEY * MAX_SESSIONS_PER_REGISTRATION * sg_capacity v"
proof -
  have s: "seats_ok v" and h: "held_ok U v" and b: "backed_ok U v" using assms by (simp_all add: seating_ok_def)
  let ?A = "(\<lambda>(sid, ab). (sid, fst ab)) ` set (sg_sessions v)" and ?B = "(\<lambda>(sid, ab). (sid, snd ab)) ` set (sg_sessions v)"
  have wf: "hm_wf (sg_sessions v)" using b by (simp add: backed_ok_def)
  have get: "hm_get (sg_sessions v) sid = Some ab" if "(sid, ab) \<in> set (sg_sessions v)" for sid ab
    using that wf by (simp add: hm_get_iff_mem)
  have d: "distinct (sg_sessions v)" using wf by (simp add: hm_wf_def distinct_map)
  have inj: "inj_on (\<lambda>(sid, ab). (sid, fst ab)) (set (sg_sessions v))" "inj_on (\<lambda>(sid, ab). (sid, snd ab)) (set (sg_sessions v))"
    using get by (auto simp: inj_on_def) (metis option.inject prod.inject)+
  have keys: "fst ab \<noteq> snd ab" "\<exists>i. i \<in> set (seats_of v (fst ab)) \<and> sid \<in> set (held v i)"
    "\<exists>i. i \<in> set (seats_of v (snd ab)) \<and> sid \<in> set (held v i)" if "(sid, ab) \<in> set (sg_sessions v)" for sid ab
    using b get [OF that] unfolding backed_ok_def by blast+
  have "?A \<inter> ?B = {}"
  proof (rule equals0I, clarsimp)
    fix sid a a' b' assume "(sid, a, b') \<in> set (sg_sessions v)" "(sid, a', a) \<in> set (sg_sessions v)"
    then have "(a, b') = (a', a)" using get by (metis option.inject)
    then show False using keys(1) [OF \<open>(sid, a, b') \<in> _\<close>] by simp
  qed
  then have card: "card (?A \<union> ?B) = 2 * length (sg_sessions v)"
    using card_image [OF inj(1)] card_image [OF inj(2)] distinct_card [OF d] by (simp add: card_Un_disjoint)
  have "\<forall>p \<in> ?A \<union> ?B. \<exists>i. i \<in> set (seats_of v (snd p)) \<and> fst p \<in> set (held v i)"
    using keys(2,3) by fastforce
  then obtain holder where holder: "\<forall>p \<in> ?A \<union> ?B. holder p \<in> set (seats_of v (snd p)) \<and> fst p \<in> set (held v (holder p))"
    unfolding bchoice_iff by blast
  have at: "seated v (holder p) \<and> reg_key v (holder p) = snd p \<and> holder p < length (sg_regs v)" if p: "p \<in> ?A \<union> ?B" for p
  proof -
    have "holder p \<in> set (seats_of v (snd p))" using holder p by blast
    from seats_ofD [OF s this] this show ?thesis by simp
  qed
  let ?S = "SIGMA i : {i. seated v i}. set (held v i)"
  have "inj_on (\<lambda>p. (holder p, fst p)) (?A \<union> ?B)"
  proof (rule inj_onI)
    fix p q assume "p \<in> ?A \<union> ?B" "q \<in> ?A \<union> ?B" "(holder p, fst p) = (holder q, fst q)"
    then show "p = q" using at [of p] at [of q] by (simp add: prod_eq_iff)
  qed
  moreover have "(\<lambda>p. (holder p, fst p)) ` (?A \<union> ?B) \<subseteq> ?S"
  proof (rule image_subsetI)
    fix p assume p: "p \<in> ?A \<union> ?B"
    have "holder p \<in> {i. seated v i}" using at [OF p] by blast
    moreover have "fst p \<in> set (held v (holder p))" using holder p by blast
    ultimately show "(holder p, fst p) \<in> ?S" by (rule SigmaI)
  qed
  moreover have fin: "finite {i. seated v i}" using seated_card [OF s] by blast
  then have "finite ?S" by auto
  ultimately have "card (?A \<union> ?B) \<le> card ?S" using card_inj_on_le by blast
  also have "card ?S = (\<Sum>i \<in> {i. seated v i}. card (set (held v i)))" using fin by simp
  also have "\<dots> \<le> (\<Sum>i \<in> {i. seated v i}. MAX_SESSIONS_PER_REGISTRATION)"
  proof (rule sum_mono)
    fix i assume "i \<in> {i. seated v i}"
    then have "i < length (sg_regs v)" using seats_ofD [OF s] by blast
    then show "card (set (held v i)) \<le> MAX_SESSIONS_PER_REGISTRATION"
      using h card_length [of "held v i"] unfolding held_ok_def reg_ok_def by (meson order_trans)
  qed
  also have "\<dots> \<le> MAX_CONNECTIONS_PER_KEY * sg_capacity v * MAX_SESSIONS_PER_REGISTRATION"
    using seated_card [OF s] by simp
  finally show ?thesis using card by (simp add: mult_ac)
qed

end
