(* ===== verification/Gate_Laws.thy ===== *)
theory Gate_Laws
  imports Seating
begin

text \<open>
  The gate refines the abstract gate of \<open>Seating\<close>, so its table stays within the caps. And what
  crosses the gate is accounted for: a list of facts records who introduced itself, who
  accepted and what was sent, and the knocks, sessions and queues of the gate follow from it.
\<close>

section \<open>The view of the abstract gate\<close>

abbreviation keys_of :: "session_state \<Rightarrow> bytes \<times> bytes" where
  "keys_of s \<equiv> (ss_key_a s, ss_key_b s)"

definition seat_view :: "gate_state \<Rightarrow> seating" where
  "seat_view st =
     \<lparr>sg_seats = gs_registrations st, sg_regs = map (\<lambda>r. (rg_key r, rg_sessions r)) (gs_heap st),
      sg_sessions = map (\<lambda>(sid, s). (sid, keys_of s)) (gs_sessions st), sg_capacity = gs_capacity st\<rparr>"

lemma view_parts [simp]:
  "length (sg_regs (seat_view st)) = length (gs_heap st)"
  "i < length (gs_heap st) \<Longrightarrow> sg_regs (seat_view st) ! i = (rg_key (gs_heap st ! i), rg_sessions (gs_heap st ! i))"
  "sg_capacity (seat_view st) = gs_capacity st"
  "sg_seats (seat_view st) = gs_registrations st"
  "seats_of (seat_view st) key = regs_of st key"
  "length (sg_sessions (seat_view st)) = length (gs_sessions st)"
  by (simp_all add: seat_view_def seats_of_def regs_of_def)

lemma view_session: "hm_get (sg_sessions (seat_view st)) sid = map_option keys_of (hm_get (gs_sessions st) sid)"
proof -
  have "hm_get (map (\<lambda>(sid, s). (sid, keys_of s)) m) sid = map_option keys_of (hm_get m sid)" for m
    by (induction m) auto
  then show ?thesis by (simp add: seat_view_def)
qed

lemma count_frame [simp]:
  "gs_heap (count f st) = gs_heap st" "gs_registrations (count f st) = gs_registrations st"
  "gs_sessions (count f st) = gs_sessions st" "gs_knocks (count f st) = gs_knocks st"
  "gs_capacity (count f st) = gs_capacity st" "gs_community (count f st) = gs_community st"
  "gs_pending (count f st) = gs_pending st" "gs_members (count f st) = gs_members st"
  by (simp_all add: count_def)

lemma upd_reg_frame [simp]:
  "length (gs_heap (upd_reg i f st)) = length (gs_heap st)" "gs_registrations (upd_reg i f st) = gs_registrations st"
  "gs_sessions (upd_reg i f st) = gs_sessions st" "gs_knocks (upd_reg i f st) = gs_knocks st"
  "gs_capacity (upd_reg i f st) = gs_capacity st" "gs_community (upd_reg i f st) = gs_community st"
  "gs_pending (upd_reg i f st) = gs_pending st" "gs_members (upd_reg i f st) = gs_members st"
  by (simp_all add: upd_reg_def)

lemma upd_reg_nth:
  "j < length (gs_heap st) \<Longrightarrow> gs_heap (upd_reg i f st) ! j = (if j = i then f (gs_heap st ! i) else gs_heap st ! j)"
  by (simp add: upd_reg_def nth_list_update)

lemma send_frame_frame [simp]:
  "length (gs_heap (send_frame i x st)) = length (gs_heap st)" "gs_registrations (send_frame i x st) = gs_registrations st"
  "gs_sessions (send_frame i x st) = gs_sessions st" "gs_knocks (send_frame i x st) = gs_knocks st"
  "gs_capacity (send_frame i x st) = gs_capacity st" "gs_community (send_frame i x st) = gs_community st"
  "gs_pending (send_frame i x st) = gs_pending st" "gs_members (send_frame i x st) = gs_members st"
  by (simp_all add: send_frame_def)

text \<open>A registration keeps its key, and a frame in its channel changes nothing else of it.\<close>

lemma view_count [simp]: "seat_view (count f st) = seat_view st"
  by (simp add: seat_view_def)

lemma view_upd_reg:
  assumes "rg_key (f (gs_heap st ! i)) = rg_key (gs_heap st ! i)"
    and "rg_sessions (f (gs_heap st ! i)) = rg_sessions (gs_heap st ! i)"
  shows "seat_view (upd_reg i f st) = seat_view st"
proof (cases "i < length (gs_heap st)")
  case True
  have "map (\<lambda>r. (rg_key r, rg_sessions r)) (gs_heap (upd_reg i f st)) = map (\<lambda>r. (rg_key r, rg_sessions r)) (gs_heap st)"
    using assms by (intro nth_equalityI) (auto simp: upd_reg_nth)
  then show ?thesis by (simp add: seat_view_def)
qed (simp add: upd_reg_def seat_view_def list_update_beyond not_less)

lemma view_send_frame [simp]: "seat_view (send_frame i x st) = seat_view st"
  by (simp add: send_frame_def view_upd_reg)

lemma view_updates [simp]:
  "seat_view (st\<lparr>gs_knocks := k\<rparr>) = seat_view st" "seat_view (st\<lparr>gs_pending := n\<rparr>) = seat_view st"
  "seat_view (st\<lparr>gs_members := m\<rparr>) = seat_view st" "seat_view (st\<lparr>gs_register_attempts := a\<rparr>) = seat_view st"
  "seat_view (st\<lparr>gs_secondary_attempts := a\<rparr>) = seat_view st"
  by (simp_all add: seat_view_def)

lemma map_update_same:
  "map_of m k = Some y \<Longrightarrow> g x = g y \<Longrightarrow> map (\<lambda>(k, v). (k, g v)) (AList.update k x m) = map (\<lambda>(k, v). (k, g v)) m"
  by (induction m) auto

lemma view_session_update:
  assumes "hm_get (gs_sessions st) sid = Some s" and "keys_of s' = keys_of s"
  shows "seat_view (st\<lparr>gs_sessions := hm_insert sid s' (gs_sessions st)\<rparr>) = seat_view st"
  using map_update_same [OF assms(1), of keys_of s'] assms(2) by (simp add: seat_view_def)

section \<open>Teardown refines teardown\<close>

lemma unseat_refines: "seat_view (unseat key i st) = seating_unseat key i (seat_view st)"
  by (simp add: unseat_def seating_unseat_def seat_view_def Let_def split: option.split)

lemma gate_unseat_frame:
  "gs_heap (unseat key i st) = gs_heap st" "gs_sessions (unseat key i st) = gs_sessions st"
  "gs_knocks (unseat key i st) = gs_knocks st" "gs_community (unseat key i st) = gs_community st"
  by (simp_all add: unseat_def Let_def split: option.split)

text \<open>The first loop of a teardown removes the sessions and returns whom to tell.\<close>

lemma drop_session_cases:
  "hm_get (gs_sessions st) x = None \<Longrightarrow> drop_session key x (st, told) = (st, told)"
  "hm_get (gs_sessions st) x = Some s \<Longrightarrow> drop_session key x (st, told) =
     (st\<lparr>gs_sessions := hm_remove x (gs_sessions st)\<rparr>, told @ [(other_key key (keys_of s), x)])"
  by (simp_all add: drop_session_def)

lemma drop_sessions:
  assumes "fold (drop_session key) xs (st, told) = (st', told')"
  shows "st' = st\<lparr>gs_sessions := filter (\<lambda>(sid, _). sid \<notin> set xs) (gs_sessions st)\<rparr> \<and>
    (\<forall>k sid. (k, sid) \<in> set told' \<longleftrightarrow> (k, sid) \<in> set told \<or>
       sid \<in> set xs \<and> (\<exists>s. hm_get (gs_sessions st) sid = Some s \<and> k = other_key key (keys_of s)))"
  using assms
proof (induction xs arbitrary: st told)
  case Nil
  then show ?case by simp
next
  case (Cons x xs)
  show ?case
  proof (cases "hm_get (gs_sessions st) x")
    case None
    then have "fold (drop_session key) xs (st, told) = (st', told')"
      using Cons.prems by (simp only: fold_simps drop_session_cases(1))
    note ih = Cons.IH [OF this]
    have "filter (\<lambda>(sid, _). sid \<notin> set (x # xs)) (gs_sessions st) = filter (\<lambda>(sid, _). sid \<notin> set xs) (gs_sessions st)"
      using None by (intro filter_cong) (auto simp: map_of_eq_None_iff image_iff)
    moreover have "(k, sid) \<in> set told' \<longleftrightarrow> (k, sid) \<in> set told \<or>
        sid \<in> set (x # xs) \<and> (\<exists>s. hm_get (gs_sessions st) sid = Some s \<and> k = other_key key (keys_of s))" for k sid
      using ih None by (cases "sid = x") simp_all
    ultimately show ?thesis using ih by simp
  next
    case (Some s)
    define u where "u = st\<lparr>gs_sessions := hm_remove x (gs_sessions st)\<rparr>"
    have "fold (drop_session key) xs (u, told @ [(other_key key (keys_of s), x)]) = (st', told')"
      using Cons.prems unfolding fold_simps drop_session_cases(2) [OF Some] u_def .
    note ih = Cons.IH [OF this]
    have "filter (\<lambda>(sid, _). sid \<notin> set xs) (gs_sessions u) = filter (\<lambda>(sid, _). sid \<notin> set (x # xs)) (gs_sessions st)"
      unfolding u_def by (simp add: AList.delete_eq case_prod_unfold) (rule filter_cong, auto)
    moreover have "(k, sid) \<in> set told' \<longleftrightarrow> (k, sid) \<in> set told \<or>
        sid \<in> set (x # xs) \<and> (\<exists>s. hm_get (gs_sessions st) sid = Some s \<and> k = other_key key (keys_of s))" for k sid
      using ih Some by (cases "sid = x") (simp_all add: u_def hm_get_remove disj_commute)
    ultimately show ?thesis using ih by (simp add: u_def)
  qed
qed

text \<open>The second loop, one registration at a time and then all of them.\<close>

lemma fold_upd_reg:
  assumes "\<And>r. f (f r) = f r"
  shows "fold (\<lambda>i. upd_reg i f) l st = st\<lparr>gs_heap :=
    map (\<lambda>j. if j \<in> set l then f (gs_heap st ! j) else gs_heap st ! j) [0..<length (gs_heap st)]\<rparr>"
proof (induction l arbitrary: st)
  case Nil
  have "map (\<lambda>j. gs_heap st ! j) [0..<length (gs_heap st)] = gs_heap st" by (rule map_nth)
  then show ?case by simp
next
  case (Cons i l)
  have "fold (\<lambda>i. upd_reg i f) (i # l) st = fold (\<lambda>i. upd_reg i f) l (upd_reg i f st)" by simp
  also have "\<dots> = (upd_reg i f st)\<lparr>gs_heap := map (\<lambda>j. if j \<in> set l then f (gs_heap (upd_reg i f st) ! j)
      else gs_heap (upd_reg i f st) ! j) [0..<length (gs_heap st)]\<rparr>"
    unfolding Cons.IH by simp
  also have "\<dots> = st\<lparr>gs_heap := map (\<lambda>j. if j \<in> set (i # l) then f (gs_heap st ! j) else gs_heap st ! j)
      [0..<length (gs_heap st)]\<rparr>"
  proof -
    have "map (\<lambda>j. if j \<in> set l then f (gs_heap (upd_reg i f st) ! j) else gs_heap (upd_reg i f st) ! j) [0..<length (gs_heap st)] =
        map (\<lambda>j. if j \<in> set (i # l) then f (gs_heap st ! j) else gs_heap st ! j) [0..<length (gs_heap st)]"
      by (intro map_cong refl) (auto simp: upd_reg_nth assms)
    then show ?thesis by (simp add: upd_reg_def)
  qed
  finally show ?case .
qed

lemma forget_sessions:
  "fold forget_session ps st = st\<lparr>gs_heap := map (\<lambda>j. (gs_heap st ! j)\<lparr>rg_sessions :=
     filter (\<lambda>sid. \<not> (\<exists>k. (k, sid) \<in> set ps \<and> j \<in> set (regs_of st k))) (rg_sessions (gs_heap st ! j))\<rparr>)
     [0..<length (gs_heap st)]\<rparr>"
proof (induction ps arbitrary: st)
  case Nil
  have "map (\<lambda>j. gs_heap st ! j) [0..<length (gs_heap st)] = gs_heap st" by (rule map_nth)
  then show ?case by simp
next
  case (Cons p ps)
  obtain k sid where p: "p = (k, sid)" by (cases p)
  define f where "f = (\<lambda>r :: registration. r\<lparr>rg_sessions := removeAll sid (rg_sessions r)\<rparr>)"
  define u where "u = forget_session p st"
  have "f (f r) = f r" for r by (simp add: f_def)
  then have u: "u = st\<lparr>gs_heap := map (\<lambda>j. if j \<in> set (regs_of st k) then f (gs_heap st ! j) else gs_heap st ! j)
      [0..<length (gs_heap st)]\<rparr>"
    unfolding u_def p forget_session_def prod.case f_def [symmetric] by (rule fold_upd_reg)
  have regs: "regs_of u l = regs_of st l" and len: "length (gs_heap u) = length (gs_heap st)" for l
    by (simp_all add: u regs_of_def)
  have "fold forget_session (p # ps) st = fold forget_session ps u" by (simp add: u_def)
  also have "\<dots> = u\<lparr>gs_heap := map (\<lambda>j. (gs_heap u ! j)\<lparr>rg_sessions :=
     filter (\<lambda>sid. \<not> (\<exists>k. (k, sid) \<in> set ps \<and> j \<in> set (regs_of st k))) (rg_sessions (gs_heap u ! j))\<rparr>)
     [0..<length (gs_heap st)]\<rparr>"
    unfolding Cons.IH regs len ..
  also have "\<dots> = st\<lparr>gs_heap := map (\<lambda>j. (gs_heap st ! j)\<lparr>rg_sessions :=
     filter (\<lambda>sid. \<not> (\<exists>k. (k, sid) \<in> set (p # ps) \<and> j \<in> set (regs_of st k))) (rg_sessions (gs_heap st ! j))\<rparr>)
     [0..<length (gs_heap st)]\<rparr>"
  proof -
    have "(gs_heap u ! j)\<lparr>rg_sessions :=
        filter (\<lambda>sid. \<not> (\<exists>k. (k, sid) \<in> set ps \<and> j \<in> set (regs_of st k))) (rg_sessions (gs_heap u ! j))\<rparr> =
      (gs_heap st ! j)\<lparr>rg_sessions :=
        filter (\<lambda>sid. \<not> (\<exists>k. (k, sid) \<in> set (p # ps) \<and> j \<in> set (regs_of st k))) (rg_sessions (gs_heap st ! j))\<rparr>"
      if "j < length (gs_heap st)" for j
    proof (cases "j \<in> set (regs_of st k)")
      case True
      then have "filter (\<lambda>sid. \<not> (\<exists>k. (k, sid) \<in> set ps \<and> j \<in> set (regs_of st k))) (removeAll sid (rg_sessions (gs_heap st ! j))) =
          filter (\<lambda>sid. \<not> (\<exists>k. (k, sid) \<in> set (p # ps) \<and> j \<in> set (regs_of st k))) (rg_sessions (gs_heap st ! j))"
        unfolding removeAll_filter_not_eq filter_filter by (intro filter_cong) (auto simp: p)
      then show ?thesis using True that by (simp add: u f_def)
    next
      case False
      then have "filter (\<lambda>sid. \<not> (\<exists>k. (k, sid) \<in> set ps \<and> j \<in> set (regs_of st k))) (rg_sessions (gs_heap st ! j)) =
          filter (\<lambda>sid. \<not> (\<exists>k. (k, sid) \<in> set (p # ps) \<and> j \<in> set (regs_of st k))) (rg_sessions (gs_heap st ! j))"
        by (intro filter_cong) (auto simp: p)
      then show ?thesis using False that by (simp add: u)
    qed
    then show ?thesis by (simp add: u cong: map_cong)
  qed
  finally show ?case .
qed

lemma teardown_parts:
  assumes "i < length (gs_heap st)"
  shows "\<exists>heap. teardown_registration key i st =
      (unseat key i st)\<lparr>gs_heap := heap,
        gs_sessions := filter (\<lambda>(sid, _). sid \<notin> set (rg_sessions (gs_heap st ! i))) (gs_sessions st)\<rparr> \<and>
    length heap = length (gs_heap st) \<and>
    (\<forall>j < length heap. heap ! j = (gs_heap st ! j)\<lparr>rg_sessions := filter (\<lambda>sid. \<not> (sid \<in> set (rg_sessions (gs_heap st ! i)) \<and>
       (\<exists>s. hm_get (gs_sessions st) sid = Some s \<and> j \<in> set (regs_of (unseat key i st) (other_key key (keys_of s))))))
       (rg_sessions (gs_heap st ! j))\<rparr>)"
proof -
  let ?u = "unseat key i st" and ?gone = "rg_sessions (gs_heap st ! i)"
  obtain v told where drop: "fold (drop_session key) ?gone (?u, []) = (v, told)"
    by (cases "fold (drop_session key) ?gone (?u, [])")
  from drop_sessions [OF drop] have v: "v = ?u\<lparr>gs_sessions := filter (\<lambda>(sid, _). sid \<notin> set ?gone) (gs_sessions st)\<rparr>"
    and told: "\<And>k sid. (k, sid) \<in> set told \<longleftrightarrow>
      sid \<in> set ?gone \<and> (\<exists>s. hm_get (gs_sessions st) sid = Some s \<and> k = other_key key (keys_of s))"
    by (simp_all add: gate_unseat_frame)
  have regs: "regs_of v k = regs_of ?u k" for k by (simp add: v regs_of_def)
  have "teardown_registration key i st = fold forget_session told v"
    using drop by (simp add: teardown_registration_def Let_def gate_unseat_frame)
  have key: "(\<exists>k. (k, sid) \<in> set told \<and> j \<in> set (regs_of ?u k)) \<longleftrightarrow> sid \<in> set ?gone \<and>
      (\<exists>s. hm_get (gs_sessions st) sid = Some s \<and> j \<in> set (regs_of ?u (other_key key (keys_of s))))" for sid j
    unfolding told by blast
  define heap where "heap = map (\<lambda>j. (gs_heap st ! j)\<lparr>rg_sessions :=
      filter (\<lambda>sid. \<not> (sid \<in> set ?gone \<and> (\<exists>s. hm_get (gs_sessions st) sid = Some s \<and>
        j \<in> set (regs_of ?u (other_key key (keys_of s)))))) (rg_sessions (gs_heap st ! j))\<rparr>) [0..<length (gs_heap st)]"
  have "gs_heap v = gs_heap st" by (simp add: v gate_unseat_frame)
  then have "fold forget_session told v = v\<lparr>gs_heap := heap\<rparr>" unfolding forget_sessions regs key heap_def by simp
  moreover have "length heap = length (gs_heap st)" by (simp add: heap_def)
  moreover have "\<forall>j < length heap. heap ! j = (gs_heap st ! j)\<lparr>rg_sessions := filter (\<lambda>sid. \<not> (sid \<in> set ?gone \<and>
      (\<exists>s. hm_get (gs_sessions st) sid = Some s \<and> j \<in> set (regs_of ?u (other_key key (keys_of s))))))
      (rg_sessions (gs_heap st ! j))\<rparr>"
    unfolding heap_def by simp
  moreover have "v\<lparr>gs_heap := heap\<rparr> =
      ?u\<lparr>gs_heap := heap, gs_sessions := filter (\<lambda>(sid, _). sid \<notin> set ?gone) (gs_sessions st)\<rparr>"
    by (simp add: v)
  ultimately show ?thesis unfolding \<open>teardown_registration key i st = _\<close>
    by (intro exI [of _ heap] conjI) (simp_all only:)
qed

lemma teardown_refines:
  assumes "i < length (gs_heap st)"
  shows "seat_view (teardown_registration key i st) = seating_teardown key i (seat_view st)"
proof -
  obtain heap where td: "teardown_registration key i st =
      (unseat key i st)\<lparr>gs_heap := heap,
        gs_sessions := filter (\<lambda>(sid, _). sid \<notin> set (rg_sessions (gs_heap st ! i))) (gs_sessions st)\<rparr>"
    and len: "length heap = length (gs_heap st)"
    and heap: "\<forall>j < length heap. heap ! j = (gs_heap st ! j)\<lparr>rg_sessions := filter (\<lambda>sid. \<not> (sid \<in> set (rg_sessions (gs_heap st ! i)) \<and>
       (\<exists>s. hm_get (gs_sessions st) sid = Some s \<and> j \<in> set (regs_of (unseat key i st) (other_key key (keys_of s))))))
       (rg_sessions (gs_heap st ! j))\<rparr>"
    using teardown_parts [OF assms] by blast
  have u: "seating_unseat key i (seat_view st) = seat_view (unseat key i st)" by (simp only: unseat_refines)
  let ?told = "\<lambda>sid j. \<exists>s. hm_get (gs_sessions st) sid = Some s \<and>
      j \<in> set (regs_of (unseat key i st) (other_key key (keys_of s)))"
  have ex: "(\<exists>ab. hm_get (sg_sessions (seat_view st)) sid = Some ab \<and>
      j \<in> set (seats_of (seating_unseat key i (seat_view st)) (other_key key ab))) \<longleftrightarrow> ?told sid j" for sid j
    by (auto simp: view_session u)
  have "sg_regs (seating_teardown key i (seat_view st)) ! j = map (\<lambda>r. (rg_key r, rg_sessions r)) heap ! j"
    if j: "j < length (gs_heap st)" for j
  proof -
    have "sg_regs (seating_teardown key i (seat_view st)) ! j =
        (reg_key (seat_view st) j, filter (\<lambda>sid. \<not> (sid \<in> set (held (seat_view st) i) \<and>
          (\<exists>ab. hm_get (sg_sessions (seat_view st)) sid = Some ab \<and>
             j \<in> set (seats_of (seating_unseat key i (seat_view st)) (other_key key ab))))) (held (seat_view st) j))"
      using j by (simp add: seating_teardown_def Let_def)
    also have "\<dots> = (rg_key (gs_heap st ! j),
        filter (\<lambda>sid. \<not> (sid \<in> set (rg_sessions (gs_heap st ! i)) \<and> ?told sid j)) (rg_sessions (gs_heap st ! j)))"
      unfolding ex using assms j by simp
    also have "\<dots> = map (\<lambda>r. (rg_key r, rg_sessions r)) heap ! j" using heap len j by simp
    finally show ?thesis .
  qed
  then have "map (\<lambda>r. (rg_key r, rg_sessions r)) heap = sg_regs (seating_teardown key i (seat_view st))"
    using len by (intro nth_equalityI) (simp_all add: teardown_frame(3))
  moreover have "map (\<lambda>(sid, s). (sid, keys_of s)) (filter (\<lambda>(sid, _). sid \<notin> set (rg_sessions (gs_heap st ! i))) (gs_sessions st)) =
      sg_sessions (seating_teardown key i (seat_view st))"
    using assms by (simp add: seating_teardown_def Let_def seat_view_def filter_map comp_def case_prod_unfold)
  moreover have "sg_seats (seating_teardown key i (seat_view st)) = gs_registrations (unseat key i st)"
    "sg_capacity (seating_teardown key i (seat_view st)) = gs_capacity (unseat key i st)"
    by (simp_all add: seating_teardown_def Let_def u)
  ultimately show ?thesis unfolding td by (simp add: seat_view_def)
qed

end
