(* ===== verification/Gate_Steps.thy ===== *)
theory Gate_Steps
  imports Gate_Laws "HOL-Library.Sublist"
begin

text \<open>
  Every event of the gate is a path of the abstract gate. A handler is a chain of changes that
  the abstract gate does not see, with at most one that it does.
\<close>

section \<open>Paths of the abstract gate\<close>

text \<open>The list has the numbers of the sessions that open, in their order.\<close>

inductive seating_path :: "seating \<Rightarrow> u32 list \<Rightarrow> seating \<Rightarrow> bool" where
  path_stop: "seating_path v [] v"
| path_seat: "may_seat key v \<Longrightarrow> seating_path (seating_seat key v) sids w \<Longrightarrow> seating_path v sids w"
| path_teardown: "i < length (sg_regs v) \<Longrightarrow> reg_key v i = key \<Longrightarrow>
    seating_path (seating_teardown key i v) sids w \<Longrightarrow> seating_path v sids w"
| path_open: "may_open {} sid i j a b v \<Longrightarrow>
    seating_path (seating_open sid i j a b v) sids w \<Longrightarrow> seating_path v (sid # sids) w"

lemma path_trans: "seating_path u sids v \<Longrightarrow> seating_path v sids' w \<Longrightarrow> seating_path u (sids @ sids') w"
proof (induction rule: seating_path.induct)
  case (path_open sid i j a b v sids w)
  then show ?case using seating_path.path_open by fastforce
qed (auto intro: seating_path.intros)

lemma path_ok:
  assumes "seating_path v sids w" and "seating_ok U v" and "distinct sids" and "set sids \<inter> U = {}"
  shows "seating_ok (U \<union> set sids) w"
  using assms
proof (induction arbitrary: U rule: seating_path.induct)
  case (path_open sid i j a b v sids w)
  then have "may_open U sid i j a b v" by (simp add: may_open_def)
  from seating_open_ok [OF path_open.prems(1) this] have "seating_ok (insert sid U \<union> set sids) w"
    by (rule path_open.IH) (use path_open.prems in auto)
  then show ?case by simp
qed (auto intro: seating_seat_ok seating_teardown_ok)

text \<open>What holds whether or not the numbers are fresh.\<close>

definition caps_ok :: "seating \<Rightarrow> bool" where
  "caps_ok v \<longleftrightarrow> seats_ok v \<and> (\<forall>i < length (sg_regs v). length (held v i) \<le> MAX_SESSIONS_PER_REGISTRATION)"

lemma insert_length: "length (List.insert x xs) \<le> Suc (length xs)"
  by (simp add: List.insert_def)

lemma seating_open_caps:
  assumes caps: "caps_ok v" and may: "may_open {} sid i j a b v"
  shows "caps_ok (seating_open sid i j a b v)"
proof -
  have s: "seats_ok v" using caps by (simp add: caps_ok_def)
  have at: "i < length (sg_regs v)" "j < length (sg_regs v)" "i \<noteq> j"
    using may seats_ofD [OF s] by (auto simp: may_open_def)
  note f = open_frame [OF at, of sid a b]
  have "length (held (seating_open sid i j a b v) m) \<le> MAX_SESSIONS_PER_REGISTRATION" if "m < length (sg_regs v)" for m
    using caps may that insert_length [of sid "held v m"] by (auto simp: f caps_ok_def may_open_def)
  moreover have "seats_ok (seating_open sid i j a b v)"
    using s f(2,3) unfolding seats_ok_def by (auto simp: seating_open_def)
  ultimately show ?thesis by (simp add: caps_ok_def f)
qed

lemma seating_teardown_caps: "caps_ok v \<Longrightarrow> caps_ok (seating_teardown key i v)"
  by (auto simp: caps_ok_def teardown_frame(3) teardown_held seating_teardown_seats
      intro: order_trans [OF length_filter_le])

lemma path_caps: "seating_path v sids w \<Longrightarrow> caps_ok v \<Longrightarrow> caps_ok w \<and> sg_capacity w = sg_capacity v"
proof (induction rule: seating_path.induct)
  case (path_seat key v sids w)
  have "caps_ok (seating_seat key v)"
    using path_seat.prems seating_seat_seats [OF _ path_seat.hyps(1)]
    by (auto simp: caps_ok_def seat_frame less_Suc_eq_le)
  then show ?case using path_seat by (simp add: seating_seat_def)
next
  case (path_teardown i v key sids w)
  then show ?case using seating_teardown_caps by (simp add: teardown_frame(2))
next
  case (path_open sid i j a b v sids w)
  then show ?case using seating_open_caps by (simp add: seating_open_def)
qed simp

section \<open>Changes that the abstract gate does not see\<close>

definition quiet :: "gate_state \<Rightarrow> gate_state \<Rightarrow> bool" where
  "quiet st st' \<longleftrightarrow> seat_view st' = seat_view st \<and> gs_sessions st' = gs_sessions st \<and>
     gs_knocks st' = gs_knocks st \<and> gs_community st' = gs_community st"

lemma quietI [intro]:
  "seat_view st' = seat_view st \<Longrightarrow> gs_sessions st' = gs_sessions st \<Longrightarrow> gs_knocks st' = gs_knocks st \<Longrightarrow>
   gs_community st' = gs_community st \<Longrightarrow> quiet st st'"
  by (simp add: quiet_def)

lemma quiet_steps [simp]:
  "quiet st st" "quiet st (count f st)" "quiet st (send_frame i x st)"
  "quiet st (st\<lparr>gs_pending := n\<rparr>)" "quiet st (st\<lparr>gs_members := m\<rparr>)"
  "quiet st (st\<lparr>gs_register_attempts := a\<rparr>)" "quiet st (st\<lparr>gs_secondary_attempts := a\<rparr>)"
  by (simp_all add: quiet_def)

lemma quiet_upd_reg:
  assumes "\<And>r. rg_key (f r) = rg_key r" and "\<And>r. rg_sessions (f r) = rg_sessions r"
  shows "quiet st (upd_reg i f st)"
  using assms by (simp add: quiet_def view_upd_reg)

lemma quiet_trans: "quiet st st' \<Longrightarrow> quiet st' st'' \<Longrightarrow> quiet st st''"
  by (simp add: quiet_def)

lemma quiet_key: "quiet st st' \<Longrightarrow> i < length (gs_heap st) \<Longrightarrow> rg_key (gs_heap st' ! i) = rg_key (gs_heap st ! i)"
  using view_parts(1) [of st] view_parts(1) [of st'] view_parts(2) [of i st] view_parts(2) [of i st']
  by (simp add: quiet_def)

lemma quiet_writer: "quiet st (fst (writer_step i ok st))"
  by (auto simp: writer_step_def intro!: quiet_upd_reg split: list.split)

lemma quiet_secondary: "quiet st (fst (fst (secondary_open t key st)))"
  by (auto simp: secondary_open_def Let_def quiet_def split: prod.split)

lemma quiet_primary: "quiet st (fst (fst (primary_open t key st)))"
  by (auto simp: primary_open_def Let_def quiet_def split: prod.split)

section \<open>The handlers as paths\<close>

text \<open>A new registration is the last of the heap; with a seat or, when it is refused, forgotten.\<close>

lemma take_seat_path:
  assumes "take_seat key (length (gs_heap st)) (st\<lparr>gs_heap := gs_heap st @ [registration_new t key observed]\<rparr>) = Some st'"
  shows "may_seat key (seat_view st) \<and> seat_view st' = seating_seat key (seat_view st) \<and>
    gs_sessions st' = gs_sessions st \<and> gs_knocks st' = gs_knocks st \<and> gs_community st' = gs_community st"
proof -
  let ?u = "st\<lparr>gs_heap := gs_heap st @ [registration_new t key observed]\<rparr>"
  have u: "regs_of ?u key = regs_of st key" by (simp add: regs_of_def)
  have may: "\<not> (hm_get (gs_registrations st) key = None \<and> length (gs_registrations st) \<ge> gs_capacity st)"
    "\<not> length (regs_of st key) \<ge> MAX_CONNECTIONS_PER_KEY"
    and st': "st' = ?u\<lparr>gs_registrations := hm_insert key (regs_of st key @ [length (gs_heap st)]) (gs_registrations st)\<rparr>"
    using assms by (simp_all add: take_seat_def u split: if_splits)
  have "seats_of (seat_view st) key = regs_of st key" by simp
  then have "seat_view st' = seating_seat key (seat_view st)"
    unfolding seating_seat_def st' by (simp add: seat_view_def registration_new_def)
  then show ?thesis using may by (auto simp: may_seat_def st')
qed

lemma register_path:
  assumes "register_frame t key observed frame ok st = (st', out)"
  shows "quiet st st' \<or>
    may_seat key (seat_view st) \<and> seat_view st' = seating_seat key (seat_view st) \<and>
    gs_sessions st' = gs_sessions st \<and> gs_knocks st' = gs_knocks st \<and> gs_community st' = gs_community st"
proof -
  let ?u = "st\<lparr>gs_pending := gs_pending st - 1\<rparr>"
  let ?v = "?u\<lparr>gs_heap := gs_heap ?u @ [registration_new t key observed]\<rparr>"
  show ?thesis
  proof (cases "\<exists>v community. frame = Register v community \<and> community = gs_community st")
    case False
    then show ?thesis using assms by (cases frame) (auto simp: register_frame_def Let_def split: if_splits)
  next
    case True
    show ?thesis
    proof (cases "take_seat key (length (gs_heap ?u)) ?v")
      case None
      then show ?thesis using assms True by (auto simp: register_frame_def Let_def quiet_def split: if_splits)
    next
      case (Some w)
      from take_seat_path [OF this] have w: "may_seat key (seat_view st)" "seat_view w = seating_seat key (seat_view st)"
        "gs_sessions w = gs_sessions st" "gs_knocks w = gs_knocks st" "gs_community w = gs_community st" by simp_all
      have "quiet w st'"
        using assms True Some by (auto simp: register_frame_def Let_def intro!: quiet_upd_reg split: if_splits)
      then show ?thesis using w by (simp add: quiet_def)
    qed
  qed
qed

lemma teardown_frames:
  assumes "i < length (gs_heap st)"
  shows "gs_knocks (teardown_registration key i st) = gs_knocks st"
    "gs_community (teardown_registration key i st) = gs_community st"
    "length (gs_heap (teardown_registration key i st)) = length (gs_heap st)"
    "gs_sessions (teardown_registration key i st) =
       filter (\<lambda>(sid, _). sid \<notin> set (rg_sessions (gs_heap st ! i))) (gs_sessions st)"
proof -
  obtain heap where "length heap = length (gs_heap st)" "teardown_registration key i st =
      (unseat key i st)\<lparr>gs_heap := heap,
        gs_sessions := filter (\<lambda>(sid, _). sid \<notin> set (rg_sessions (gs_heap st ! i))) (gs_sessions st)\<rparr>"
    using teardown_parts [OF assms, of key] by blast
  then show "gs_knocks (teardown_registration key i st) = gs_knocks st"
    "gs_community (teardown_registration key i st) = gs_community st"
    "length (gs_heap (teardown_registration key i st)) = length (gs_heap st)"
    "gs_sessions (teardown_registration key i st) =
       filter (\<lambda>(sid, _). sid \<notin> set (rg_sessions (gs_heap st ! i))) (gs_sessions st)"
    by (simp_all add: gate_unseat_frame)
qed

text \<open>
  A step that adds nothing to account for: no knock, no session, nothing in a queue. The
  first component of a direction is its sender.
\<close>

definition directions :: "session_state \<Rightarrow> (bytes \<times> relay_shaper) list" where
  "directions s = [(ss_key_a s, ss_a_to_b_shaper s), (ss_key_b s, ss_b_to_a_shaper s)]"

abbreviation queued :: "relay_shaper \<Rightarrow> bytes set" where
  "queued sh \<equiv> snd ` set (rs_items sh)"

definition session_le :: "session_state \<Rightarrow> session_state \<Rightarrow> bool" where
  "session_le s' s \<longleftrightarrow> keys_of s' = keys_of s \<and>
     queued (ss_a_to_b_shaper s') \<subseteq> queued (ss_a_to_b_shaper s) \<and>
     queued (ss_b_to_a_shaper s') \<subseteq> queued (ss_b_to_a_shaper s)"

definition fewer :: "gate_state \<Rightarrow> gate_state \<Rightarrow> bool" where
  "fewer st st' \<longleftrightarrow> gs_community st' = gs_community st \<and> set (gs_knocks st') \<subseteq> set (gs_knocks st) \<and>
     (\<forall>sid s'. (sid, s') \<in> set (gs_sessions st') \<longrightarrow> (\<exists>s. (sid, s) \<in> set (gs_sessions st) \<and> session_le s' s))"

lemma session_le_refl [simp]: "session_le s s" by (simp add: session_le_def)

lemma session_le_trans: "session_le s'' s' \<Longrightarrow> session_le s' s \<Longrightarrow> session_le s'' s"
  unfolding session_le_def by (elim conjE, intro conjI) (simp, (erule (1) order_trans)+)

lemma fewer_refl [simp]: "fewer st st" by (auto simp: fewer_def)

lemma fewer_trans: "fewer st st' \<Longrightarrow> fewer st' st'' \<Longrightarrow> fewer st st''"
  unfolding fewer_def by (elim conjE, intro conjI allI impI) (simp, blast, meson session_le_trans)

lemma quiet_fewer: "quiet st st' \<Longrightarrow> fewer st st'"
  by (auto simp: quiet_def fewer_def)

lemma teardown_fewer: "i < length (gs_heap st) \<Longrightarrow> fewer st (teardown_registration key i st)"
  by (auto simp: fewer_def teardown_frames intro: session_le_refl)

lemma control_end_path:
  assumes "i < length (gs_heap st)"
  shows "seating_path (seat_view st) [] (seat_view (control_end i st)) \<and> fewer st (control_end i st)"
proof -
  let ?u = "upd_reg i (\<lambda>r. r\<lparr>rg_writer := False\<rparr>) st"
  have u: "quiet st ?u" by (rule quiet_upd_reg) simp_all
  have i: "i < length (gs_heap ?u)" using assms by simp
  have "reg_key (seat_view st) i = rg_key (gs_heap st ! i)" using assms by simp
  from path_teardown [OF _ this path_stop] assms
  have "seating_path (seat_view st) [] (seating_teardown (rg_key (gs_heap st ! i)) i (seat_view st))" by simp
  moreover have "seating_teardown (rg_key (gs_heap st ! i)) i (seat_view st) = seat_view (control_end i st)"
    using teardown_refines [OF i, of "rg_key (gs_heap st ! i)"] u by (simp add: control_end_def quiet_def)
  moreover have "fewer st (control_end i st)"
    using teardown_fewer [OF i] fewer_trans [OF quiet_fewer [OF u]] by (simp add: control_end_def)
  ultimately show ?thesis by simp
qed

lemma teardowns_path:
  assumes "\<forall>(key, i) \<in> set ps. i < length (gs_heap st) \<and> rg_key (gs_heap st ! i) = key"
  shows "seating_path (seat_view st) [] (seat_view (fold (\<lambda>(key, i). teardown_registration key i) ps st)) \<and>
    fewer st (fold (\<lambda>(key, i). teardown_registration key i) ps st)"
  using assms
proof (induction ps arbitrary: st)
  case Nil
  show ?case by (simp add: path_stop)
next
  case (Cons p ps)
  obtain key i where p: "p = (key, i)" by (cases p)
  have i: "i < length (gs_heap st)" "rg_key (gs_heap st ! i) = key" using Cons.prems p by auto
  let ?u = "teardown_registration key i st"
  have view: "seat_view ?u = seating_teardown key i (seat_view st)" by (rule teardown_refines [OF i(1)])
  note len = teardown_frames(3) [OF i(1), of key]
  have key: "rg_key (gs_heap ?u ! j) = rg_key (gs_heap st ! j)" if "j < length (gs_heap st)" for j
  proof -
    have "reg_key (seat_view ?u) j = reg_key (seat_view st) j" unfolding view using that by (simp add: teardown_frame(6))
    then show ?thesis using that len by simp
  qed
  have "\<forall>(key, i) \<in> set ps. i < length (gs_heap ?u) \<and> rg_key (gs_heap ?u ! i) = key"
  proof (intro ballI, clarify)
    fix k j assume "(k, j) \<in> set ps"
    then have "j < length (gs_heap st) \<and> rg_key (gs_heap st ! j) = k" using Cons.prems by auto
    then show "j < length (gs_heap ?u) \<and> rg_key (gs_heap ?u ! j) = k" by (simp add: key len)
  qed
  note ih = Cons.IH [OF this]
  have "seating_path (seat_view st) [] (seat_view (fold (\<lambda>(key, i). teardown_registration key i) ps ?u))"
    by (rule path_teardown [of i _ key]) (use ih i in \<open>simp_all add: view\<close>)
  moreover have "fewer st (fold (\<lambda>(key, i). teardown_registration key i) ps ?u)"
    using ih by (intro fewer_trans [OF teardown_fewer [OF i(1)]]) (rule conjunct2)
  ultimately show ?case by (simp add: p)
qed

lemma expired_seated: "(key, i) \<in> set (expired_regs now st) \<Longrightarrow> hm_wf (gs_registrations st) \<Longrightarrow> i \<in> set (regs_of st key)"
  by (auto simp: expired_regs_def regs_of_def hm_get_iff_mem [symmetric])

lemma sweep_path:
  assumes "seats_ok (seat_view st)"
  shows "seating_path (seat_view st) [] (seat_view (fst (sweep_once now st))) \<and> fewer st (fst (sweep_once now st))"
proof -
  define u where "u = st\<lparr>gs_knocks := filter (\<lambda>(_, k). kn_deadline k > now) (gs_knocks st),
    gs_register_attempts := filter (\<lambda>(_, l). \<not> limiter_is_full l) (gs_register_attempts st),
    gs_secondary_attempts := filter (\<lambda>(_, l). \<not> limiter_is_full l) (gs_secondary_attempts st)\<rparr>"
  have view: "seat_view u = seat_view st" by (simp add: u_def)
  have "i < length (gs_heap u) \<and> rg_key (gs_heap u ! i) = key" if "(key, i) \<in> set (expired_regs now u)" for key i
  proof -
    have "hm_wf (gs_registrations u)" using assms by (simp add: seats_ok_def u_def)
    from expired_seated [OF that this] have "i \<in> set (seats_of (seat_view u) key)" by simp
    then have "i < length (sg_regs (seat_view u)) \<and> reg_key (seat_view u) i = key"
      using seats_ofD assms unfolding view by blast
    then show ?thesis using view_parts(1) [of u] view_parts(2) [of i u] by auto
  qed
  then have "\<forall>(key, i) \<in> set (expired_regs now u). i < length (gs_heap u) \<and> rg_key (gs_heap u ! i) = key" by blast
  note path = teardowns_path [OF this, unfolded view]
  have "fewer st u" by (auto simp: fewer_def u_def)
  moreover have "fst (sweep_once now st) = fold (\<lambda>(key, i). teardown_registration key i) (expired_regs now u) u"
    by (simp add: sweep_once_def u_def Let_def)
  ultimately show ?thesis using path fewer_trans by simp
qed

section \<open>Knocks, sessions and the relay\<close>

text \<open>An introduction is a knock at the other key of the pair, or nothing.\<close>

lemma introduce_cases:
  assumes i: "i < length (gs_heap st)"
  obtains "quiet st (handle_introduce K t i tag ttl sealed st)"
  | u target where "quiet st (u\<lparr>gs_knocks := gs_knocks st\<rparr>)" and "target \<noteq> rg_key (gs_heap st ! i)"
      "pair_tag K (gs_community st) (rg_key (gs_heap st ! i)) target = tag"
      "gs_knocks u = hm_insert tag \<lparr>kn_requester = rg_key (gs_heap st ! i), kn_target = target,
         kn_deadline = t 2 + from_secs (unat (min ttl INTRODUCE_TTL_CAP_S))\<rparr> (gs_knocks st)"
      "quiet u (handle_introduce K t i tag ttl sealed st)"
proof -
  obtain minute okm where m: "try_take (t 0) (rg_introduce_min (gs_heap st ! i)) = (minute, okm)"
    by (cases "try_take (t 0) (rg_introduce_min (gs_heap st ! i))")
  obtain hour okh where h: "(if okm then try_take (t 1) (rg_introduce_hour (gs_heap st ! i))
      else (rg_introduce_hour (gs_heap st ! i), False)) = (hour, okh)"
    by (cases "if okm then try_take (t 1) (rg_introduce_hour (gs_heap st ! i))
      else (rg_introduce_hour (gs_heap st ! i), False)")
  define v where "v = upd_reg i (\<lambda>r. r\<lparr>rg_introduce_min := minute, rg_introduce_hour := hour\<rparr>) st"
  have v: "quiet st v" unfolding v_def by (rule quiet_upd_reg) simp_all
  have key: "rg_key (gs_heap v ! i) = rg_key (gs_heap st ! i)" by (rule quiet_key [OF v i])
  have community: "gs_community v = gs_community st" using v by (simp add: quiet_def)
  let ?key = "rg_key (gs_heap st ! i)" and ?ttl = "min ttl INTRODUCE_TTL_CAP_S"
  let ?P = "\<lambda>candidate. candidate \<noteq> ?key \<and> pair_tag K (gs_community st) ?key candidate = tag"
  have eq: "handle_introduce K t i tag ttl sealed st =
      (if \<not> okm \<or> \<not> okh then send_frame i (rate_limited_frame ''introduce rate limit exceeded'') v
       else case find ?P (map fst (gs_registrations v)) of
           None \<Rightarrow> v
         | Some target_key \<Rightarrow>
             (case newest v target_key of
                None \<Rightarrow> v
              | Some target \<Rightarrow>
                  send_frame target (Knock 1 tag ?ttl sealed)
                    (v\<lparr>gs_knocks := hm_insert tag \<lparr>kn_requester = ?key, kn_target = target_key,
                        kn_deadline = t 2 + from_secs (unat ?ttl)\<rparr> (gs_knocks v)\<rparr>)))"
    unfolding handle_introduce_def Let_def m h prod.case v_def [symmetric] key community by simp
  show thesis
  proof (cases "(\<not> okm \<or> \<not> okh) \<or> find ?P (map fst (gs_registrations v)) = None \<or>
      newest v (the (find ?P (map fst (gs_registrations v)))) = None")
    case True
    then have "quiet v (handle_introduce K t i tag ttl sealed st)"
      unfolding eq by (auto split: option.split)
    then show thesis by (rule that(1) [OF quiet_trans [OF v]])
  next
    case False
    then obtain target_key target where find: "find ?P (map fst (gs_registrations v)) = Some target_key"
      and new: "newest v target_key = Some target" and ok: "okm" "okh" by auto
    have P: "?P target_key" using find by (auto simp: find_Some_iff)
    let ?u = "v\<lparr>gs_knocks := hm_insert tag \<lparr>kn_requester = ?key, kn_target = target_key,
        kn_deadline = t 2 + from_secs (unat ?ttl)\<rparr> (gs_knocks v)\<rparr>"
    have "handle_introduce K t i tag ttl sealed st = send_frame target (Knock 1 tag ?ttl sealed) ?u"
      unfolding eq using find new ok by simp
    moreover have "quiet st (?u\<lparr>gs_knocks := gs_knocks st\<rparr>)" "gs_knocks v = gs_knocks st"
        using v by (auto simp: quiet_def)
    ultimately show thesis using P by (intro that(2) [of ?u target_key]) simp_all
  qed
qed

lemma session_update:
  assumes "hm_get (gs_sessions st) sid = Some s" and "session_le s' s"
  shows "seat_view (st\<lparr>gs_sessions := hm_insert sid s' (gs_sessions st)\<rparr>) = seat_view st"
    "fewer st (st\<lparr>gs_sessions := hm_insert sid s' (gs_sessions st)\<rparr>)"
proof -
  show "seat_view (st\<lparr>gs_sessions := hm_insert sid s' (gs_sessions st)\<rparr>) = seat_view st"
    using assms by (intro view_session_update) (auto simp: session_le_def)
  have "(sid, s) \<in> set (gs_sessions st)" using assms(1) by (rule map_of_SomeD)
  then show "fewer st (st\<lparr>gs_sessions := hm_insert sid s' (gs_sessions st)\<rparr>)"
    using assms(2) set_update_subset [of sid s' "gs_sessions st"] by (fastforce simp: fewer_def)
qed

text \<open>A start request counts, and sends at most one frame to each side.\<close>

lemma start_request_step:
  "seat_view (handle_start_request now i session st) = seat_view st \<and> fewer st (handle_start_request now i session st)"
proof (cases "hm_get (gs_sessions st) session")
  case None
  then show ?thesis by (simp add: handle_start_request_def quiet_fewer)
next
  case (Some s)
  let ?u = "st\<lparr>gs_sessions := hm_insert session (s\<lparr>ss_start_requests := ss_start_requests s + 1\<rparr>) (gs_sessions st)\<rparr>"
  have u: "seat_view ?u = seat_view st" "fewer st ?u"
    by (rule session_update [OF Some], simp add: session_le_def)+
  have two: "quiet v (fold (\<lambda>key st. case newest st key of None \<Rightarrow> st | Some target \<Rightarrow> send_frame target x st) keys v)"
    for v x and keys :: "bytes list"
    by (induction keys arbitrary: v) (auto split: option.split intro: quiet_trans [OF quiet_steps(3)])
  have q: "seat_view w = seat_view st \<and> fewer st w" if "quiet ?u w" for w
    using u that fewer_trans [OF u(2) quiet_fewer [OF that]] by (simp add: quiet_def)
  have "quiet st (handle_start_request now i session st) \<or> quiet ?u (handle_start_request now i session st)"
    unfolding handle_start_request_def Some option.case Let_def
    by (simp only: two quiet_steps simp_thms split: if_split)
  then show ?thesis
  proof
    assume quiet: "quiet st (handle_start_request now i session st)"
    then show ?thesis using quiet_fewer [OF quiet] by (simp add: quiet_def)
  qed (rule q)
qed

text \<open>An answer removes the knock, and may open a session between its two keys.\<close>

definition knock_gone :: "bytes \<Rightarrow> gate_state \<Rightarrow> gate_state" where
  "knock_gone tag st = st\<lparr>gs_knocks := hm_remove tag (gs_knocks st)\<rparr>"

lemma knock_gone_quiet: "seat_view (knock_gone tag st) = seat_view st \<and> fewer st (knock_gone tag st)"
  by (auto simp: knock_gone_def fewer_def AList.delete_eq intro: session_le_refl)

lemma newest_mem: "newest st key = Some i \<Longrightarrow> i \<in> set (seats_of (seat_view st) key)"
  by (auto simp: newest_def split: if_splits)

lemma answer_cases:
  obtains "quiet st (handle_knock_answer t draws i tag accept st)"
  | "handle_knock_answer t draws i tag accept st = knock_gone tag st"
  | knock requester target sid where "hm_get (gs_knocks st) tag = Some knock" and "accept"
      "kn_target knock = rg_key (gs_heap st ! i)" "\<not> t 0 > kn_deadline knock"
      "newest st (kn_requester knock) = Some requester" "newest st (kn_target knock) = Some target"
      "length (rg_sessions (gs_heap st ! requester)) < MAX_SESSIONS_PER_REGISTRATION"
      "length (rg_sessions (gs_heap st ! target)) < MAX_SESSIONS_PER_REGISTRATION"
      "sid \<in> set draws" "hm_get (gs_sessions st) sid = None"
      "handle_knock_answer t draws i tag accept st = open_session t sid tag knock requester target (knock_gone tag st)"
proof -
  have g: "newest (knock_gone tag st) k = newest st k" "gs_heap (knock_gone tag st) = gs_heap st"
    "draw_session_id draws (knock_gone tag st) = draw_session_id draws st" for k
    by (simp_all add: knock_gone_def newest_def regs_of_def draw_session_id_def)
  show thesis
  proof (cases "hm_get (gs_knocks st) tag")
    case None
    then show thesis by (intro that(1)) (simp add: handle_knock_answer_def)
  next
    case (Some knock)
    note eq = handle_knock_answer_def [of t draws i tag accept st, unfolded Some option.case Let_def knock_gone_def [symmetric] g]
    show thesis
    proof (cases "kn_target knock \<noteq> rg_key (gs_heap st ! i)")
      case True
      then show thesis by (intro that(1)) (simp add: eq)
    next
      case target: False
      show thesis
      proof (cases "handle_knock_answer t draws i tag accept st = knock_gone tag st")
        case True
        then show thesis by (rule that(2))
      next
        case False
        then obtain requester target sid where n: "newest st (kn_requester knock) = Some requester"
          "newest st (kn_target knock) = Some target" "draw_session_id draws st = Some sid"
          and room: "\<not> (length (rg_sessions (gs_heap st ! requester)) \<ge> MAX_SESSIONS_PER_REGISTRATION \<or>
            length (rg_sessions (gs_heap st ! target)) \<ge> MAX_SESSIONS_PER_REGISTRATION)"
          and acc: "accept" "\<not> t 0 > kn_deadline knock"
          using target unfolding eq by (auto split: if_splits option.splits)
        have "handle_knock_answer t draws i tag accept st =
            open_session t sid tag knock requester target (knock_gone tag st)"
          unfolding eq using target n room acc by simp
        moreover have "sid \<in> set draws" "hm_get (gs_sessions st) sid = None"
          using n(3) by (auto simp: draw_session_id_def find_Some_iff)
        ultimately show thesis using n room acc Some target by (intro that(3)) (simp_all add: not_le)
      qed
    qed
  qed
qed

lemma view_hold:
  assumes "i < length (gs_heap st)"
  shows "seat_view (upd_reg i (\<lambda>r. r\<lparr>rg_sessions := f (rg_sessions r)\<rparr>) st) =
    (seat_view st)\<lparr>sg_regs := (sg_regs (seat_view st))[i := (reg_key (seat_view st) i, f (held (seat_view st) i))]\<rparr>"
  using assms by (simp add: seat_view_def upd_reg_def map_update)

lemma open_session_step:
  assumes at: "i < length (gs_heap st)" "j < length (gs_heap st)" "i \<noteq> j" and "hm_get (gs_sessions st) sid = None"
  shows "seat_view (open_session t sid tag knock i j st) =
      seating_open sid i j (kn_requester knock) (kn_target knock) (seat_view st)"
    "gs_knocks (open_session t sid tag knock i j st) = gs_knocks st"
    "gs_community (open_session t sid tag knock i j st) = gs_community st"
    "gs_sessions (open_session t sid tag knock i j st) =
      hm_insert sid (session_new t (kn_requester knock) (kn_target knock)) (gs_sessions st)"
proof -
  let ?a = "kn_requester knock" and ?b = "kn_target knock"
  define u where "u = st\<lparr>gs_sessions := hm_insert sid (session_new t ?a ?b) (gs_sessions st)\<rparr>"
  define v where "v = upd_reg i (\<lambda>r. r\<lparr>rg_sessions := List.insert sid (rg_sessions r)\<rparr>) u"
  define w where "w = upd_reg j (\<lambda>r. r\<lparr>rg_sessions := List.insert sid (rg_sessions r)\<rparr>) v"
  have "quiet w (open_session t sid tag knock i j st)"
    unfolding open_session_def Let_def u_def [symmetric] v_def [symmetric] w_def [symmetric]
    by (rule quiet_trans [OF quiet_steps(3) quiet_steps(3)])
  moreover have "map (\<lambda>(k, x). (k, keys_of x)) (AList.update sid (session_new t ?a ?b) m) =
      AList.update sid (?a, ?b) (map (\<lambda>(k, x). (k, keys_of x)) m)" for m
    by (induction m) (auto simp: session_new_def)
  then have u: "seat_view u = (seat_view st)\<lparr>sg_sessions := hm_insert sid (?a, ?b) (sg_sessions (seat_view st))\<rparr>"
    by (simp add: u_def seat_view_def)
  have len: "length (gs_heap u) = length (gs_heap st)" "length (gs_heap v) = length (gs_heap st)"
    by (simp_all add: u_def v_def)
  have "seat_view w = seating_open sid i j ?a ?b (seat_view st)"
    using at unfolding w_def view_hold [OF at(2) [folded len(2)]] unfolding v_def view_hold [OF at(1) [folded len(1)]] u
    by (simp add: seating_open_def)
  moreover have "gs_knocks w = gs_knocks st" "gs_community w = gs_community st"
    "gs_sessions w = hm_insert sid (session_new t ?a ?b) (gs_sessions st)"
    by (simp_all add: w_def v_def u_def)
  ultimately show "seat_view (open_session t sid tag knock i j st) = seating_open sid i j ?a ?b (seat_view st)"
    "gs_knocks (open_session t sid tag knock i j st) = gs_knocks st"
    "gs_community (open_session t sid tag knock i j st) = gs_community st"
    "gs_sessions (open_session t sid tag knock i j st) = hm_insert sid (session_new t ?a ?b) (gs_sessions st)"
    by (simp_all add: quiet_def)
qed

text \<open>A relayed datagram enters the queue of its sender's direction, or is counted.\<close>

lemma enqueue_queued: "queued (fst (enqueue_or_drop now p s)) \<subseteq> insert p (queued s)"
  by (auto simp: enqueue_or_drop_def)

lemma forward_cases:
  assumes "decode_relay dg = Inr (session, payload)"
  obtains "quiet st (forward_relay t session key payload st)"
  | s s' where "hm_get (gs_sessions st) session = Some s" and "keys_of s' = keys_of s"
      "queued (ss_a_to_b_shaper s') \<subseteq> queued (ss_a_to_b_shaper s) \<union> {p. p = dg \<and> key = ss_key_a s}"
      "queued (ss_b_to_a_shaper s') \<subseteq> queued (ss_b_to_a_shaper s) \<union> {p. p = dg \<and> key = ss_key_b s}"
      "quiet (st\<lparr>gs_sessions := hm_insert session s' (gs_sessions st)\<rparr>) (forward_relay t session key payload st)"
proof (cases "hm_get (gs_sessions st) session")
  case None
  then show thesis by (intro that(1)) (simp add: forward_relay_def)
next
  case (Some s)
  show thesis
  proof (cases "ss_key_a s \<noteq> key \<and> ss_key_b s \<noteq> key")
    case True
    then show thesis using Some by (intro that(1)) (simp add: forward_relay_def)
  next
    case sender: False
    let ?a = "ss_key_a s = key"
    obtain l ok where take: "try_take_n (t 0) (f64_round (of_nat (length payload))) (if ?a then ss_a_to_b s else ss_b_to_a s) = (l, ok)"
      by (cases "try_take_n (t 0) (f64_round (of_nat (length payload))) (if ?a then ss_a_to_b s else ss_b_to_a s)")
    define s1 where "s1 = (if ?a then s\<lparr>ss_a_to_b := l\<rparr> else s\<lparr>ss_b_to_a := l\<rparr>)"
    obtain sh r where enq: "enqueue_or_drop (t 1) dg (if ?a then ss_a_to_b_shaper s1 else ss_b_to_a_shaper s1) = (sh, r)"
      by (cases "enqueue_or_drop (t 1) dg (if ?a then ss_a_to_b_shaper s1 else ss_b_to_a_shaper s1)")
    define s2 where "s2 = (if ok then if ?a then s1\<lparr>ss_a_to_b_shaper := sh\<rparr> else s1\<lparr>ss_b_to_a_shaper := sh\<rparr> else s1)"
    let ?v = "st\<lparr>gs_sessions := hm_insert session s2 (gs_sessions st)\<rparr>"
    have s1: "keys_of s1 = keys_of s" "ss_a_to_b_shaper s1 = ss_a_to_b_shaper s" "ss_b_to_a_shaper s1 = ss_b_to_a_shaper s"
      by (simp_all add: s1_def)
    have "queued sh \<subseteq> insert dg (queued (if ?a then ss_a_to_b_shaper s else ss_b_to_a_shaper s))"
      using enqueue_queued [of "t 1" dg] enq s1 by (metis fst_conv)
    then have s2: "keys_of s2 = keys_of s"
      "queued (ss_a_to_b_shaper s2) \<subseteq> queued (ss_a_to_b_shaper s) \<union> {p. p = dg \<and> key = ss_key_a s}"
      "queued (ss_b_to_a_shaper s2) \<subseteq> queued (ss_b_to_a_shaper s) \<union> {p. p = dg \<and> key = ss_key_b s}"
      using s1 sender by (auto simp: s2_def split: if_splits)
    have "forward_relay t session key payload st =
        (if \<not> ok then count c_relay_rate_limited_update ?v
         else if r = Full then count c_relay_dropped_at_full_update ?v else ?v)"
    proof (cases ?a)
      case True
      then show ?thesis using take enq
        by (simp add: forward_relay_def Some Let_def encode_decode_relay [OF assms] s1_def s2_def)
    next
      case False
      then have "ss_key_b s = key" using sender by simp
      then show ?thesis using False take enq
        by (simp add: forward_relay_def Some Let_def encode_decode_relay [OF assms] s1_def s2_def)
    qed
    then have "quiet ?v (forward_relay t session key payload st)" by simp
    then show thesis using Some s2 by (intro that(2))
  qed
qed

text \<open>A turn of a drain task takes from one queue, and sends what it takes to the newest of the other key.\<close>

lemma drain_pass_queued:
  assumes "drain_pass now popped_at s = (s', next)"
  shows "queued s' \<subseteq> queued s \<and> (\<forall>ps wakers. next = Ready ps wakers \<longrightarrow> set ps \<subseteq> queued s)"
proof (cases "rs_closed s \<or> rs_items s = [] \<or> rs_tokens (shaper_refill now s) < 1")
  case True
  then show ?thesis using assms by (auto simp: drain_pass_def Let_def split: if_splits)
next
  case False
  define n where "n = max (min (min (nat \<lfloor>rs_tokens (shaper_refill now s)\<rfloor>) (length (rs_items s))) (rs_burst s)) 1"
  define u where "u = (shaper_refill now s)\<lparr>rs_tokens := f64_round (rs_tokens (shaper_refill now s) - f64_round (of_nat n))\<rparr>"
  have "rs_items u = rs_items s" by (simp add: u_def)
  then have "rs_items (fold (pop_item popped_at) (take n (rs_items s)) u) = drop (length (take n (rs_items s))) (rs_items s)"
    using fold_pop_frame(1) [of "take n (rs_items s)" u popped_at] by simp
  moreover have "s' = (fold (pop_item popped_at) (take n (rs_items s)) u)\<lparr>rs_wakers := []\<rparr>"
    "\<exists>wakers. next = Ready (map snd (take n (rs_items s))) wakers"
    using assms False by (auto simp: drain_pass_def Let_def n_def u_def)
  moreover have "snd ` set (take n (rs_items s)) \<subseteq> queued s" "snd ` set (drop m (rs_items s)) \<subseteq> queued s" for m
    by (intro image_mono set_take_subset set_drop_subset)+
  ultimately show ?thesis by (elim exE) (simp del: length_take)
qed

lemma drain_cases:
  assumes "relay_drain t session a_to_b sends st = (st', out)"
  obtains "st' = st" and "out = []"
  | s s' where "hm_get (gs_sessions st) session = Some s" "session_le s' s"
      "st' = st\<lparr>gs_sessions := hm_insert session s' (gs_sessions st)\<rparr>"
      "\<forall>x \<in> set out. \<exists>dest p. x = SendDatagram dest p \<and>
         newest st (if a_to_b then ss_key_b s else ss_key_a s) = Some dest \<and>
         p \<in> queued (if a_to_b then ss_a_to_b_shaper s else ss_b_to_a_shaper s)"
proof (cases "hm_get (gs_sessions st) session")
  case None
  then show thesis using assms by (intro that(1)) (simp_all add: relay_drain_def)
next
  case (Some s)
  show thesis
  proof (cases "if a_to_b then ss_a_to_b_task s else ss_b_to_a_task s")
    case False
    then show thesis using assms Some by (intro that(1)) (simp_all add: relay_drain_def split: if_splits)
  next
    case task: True
    let ?sh = "if a_to_b then ss_a_to_b_shaper s else ss_b_to_a_shaper s"
    let ?to = "if a_to_b then ss_key_b s else ss_key_a s"
    obtain sh next' where pass: "drain_pass (t 0) (t 1) ?sh = (sh, next')" by (cases "drain_pass (t 0) (t 1) ?sh")
    note q = drain_pass_queued [OF pass]
    obtain goes_on msgs where step: "(case next' of
                      Ready payloads _ \<Rightarrow>
                        (case newest st ?to of
                           None \<Rightarrow> (False, [])
                         | Some destination \<Rightarrow>
                             (length payloads \<le> sends, map (SendDatagram destination) (take sends payloads)))
                    | ClosedNext \<Rightarrow> (False, [])
                    | _ \<Rightarrow> (True, [])) = (goes_on, msgs)" by fastforce
    let ?s = "if a_to_b then s\<lparr>ss_a_to_b_shaper := sh, ss_a_to_b_task := goes_on\<rparr>
        else s\<lparr>ss_b_to_a_shaper := sh, ss_b_to_a_task := goes_on\<rparr>"
    have res: "st' = st\<lparr>gs_sessions := hm_insert session ?s (gs_sessions st)\<rparr>" "out = msgs"
      using assms task unfolding relay_drain_def Some option.case Let_def pass prod.case step by (auto split: if_splits)
    have "\<forall>x \<in> set out. \<exists>dest p. x = SendDatagram dest p \<and> newest st ?to = Some dest \<and> p \<in> queued ?sh"
    proof
      fix x assume x: "x \<in> set out"
      then obtain ps wakers dest where next': "next' = Ready ps wakers" "newest st ?to = Some dest"
        "msgs = map (SendDatagram dest) (take sends ps)"
        using step unfolding res(2) by (auto split: drain_next.splits option.splits)
      then obtain p where "x = SendDatagram dest p" "p \<in> set ps" using x by (auto simp: res(2) dest: in_set_takeD)
      moreover have "set ps \<subseteq> queued ?sh" using q next'(1) by blast
      ultimately show "\<exists>dest p. x = SendDatagram dest p \<and> newest st ?to = Some dest \<and> p \<in> queued ?sh"
        using next'(2) by blast
    qed
    moreover have "session_le ?s s" using q by (cases a_to_b) (simp_all add: session_le_def)
    ultimately show thesis using Some res(1) by (intro that(2))
  qed
qed

section \<open>What the gate has seen\<close>

text \<open>
  Which keys introduced themselves under a tag, accepted it, or relayed a datagram, read off
  the events so far. A connection keeps its key for good.
\<close>

definition introduces :: "gate_event \<Rightarrow> (nat \<times> bytes) option" where
  "introduces e = (case e of ControlFrame _ _ i (Introduce _ tag _ _) \<Rightarrow> Some (i, tag) | _ \<Rightarrow> None)"

definition accepts :: "gate_event \<Rightarrow> (nat \<times> bytes) option" where
  "accepts e = (case e of ControlFrame _ _ i (KnockAnswer _ tag True) \<Rightarrow> Some (i, tag) | _ \<Rightarrow> None)"

definition relays :: "gate_event \<Rightarrow> (nat \<times> bytes) option" where
  "relays e = (case e of RelayDatagram _ i datagram \<Rightarrow> Some (i, datagram) | _ \<Rightarrow> None)"

definition said :: "(gate_event \<Rightarrow> (nat \<times> bytes) option) \<Rightarrow> gate_event list \<Rightarrow> gate_state \<Rightarrow> bytes \<Rightarrow> bytes \<Rightarrow> bool" where
  "said says es st key what \<longleftrightarrow> list_ex (\<lambda>e. case says e of
     Some (i, what') \<Rightarrow> what' = what \<and> i < length (gs_heap st) \<and> rg_key (gs_heap st ! i) = key
   | None \<Rightarrow> False) es"

definition relayed_to :: "gate_event list \<Rightarrow> gate_state \<Rightarrow> u32 \<Rightarrow> bytes \<Rightarrow> bytes \<Rightarrow> bool" where
  "relayed_to es st session key datagram \<longleftrightarrow>
     said relays es st key datagram \<and> (\<exists>payload. decode_relay datagram = Inr (session, payload))"

text \<open>Knocks, sessions and queues follow from it.\<close>

definition knock_fact :: "crypto \<Rightarrow> gate_event list \<Rightarrow> gate_state \<Rightarrow> bytes \<Rightarrow> knock_state \<Rightarrow> bool" where
  "knock_fact K es st tag k \<longleftrightarrow> kn_requester k \<noteq> kn_target k \<and>
     tag = pair_tag K (gs_community st) (kn_requester k) (kn_target k) \<and> said introduces es st (kn_requester k) tag"

definition session_fact :: "crypto \<Rightarrow> gate_event list \<Rightarrow> gate_state \<Rightarrow> u32 \<Rightarrow> session_state \<Rightarrow> bool" where
  "session_fact K es st sid s \<longleftrightarrow> ss_key_a s \<noteq> ss_key_b s \<and>
     said introduces es st (ss_key_a s) (pair_tag K (gs_community st) (ss_key_a s) (ss_key_b s)) \<and>
     said accepts es st (ss_key_b s) (pair_tag K (gs_community st) (ss_key_a s) (ss_key_b s)) \<and>
     (\<forall>p \<in> queued (ss_a_to_b_shaper s). relayed_to es st sid (ss_key_a s) p) \<and>
     (\<forall>p \<in> queued (ss_b_to_a_shaper s). relayed_to es st sid (ss_key_b s) p)"

definition accounted :: "crypto \<Rightarrow> gate_event list \<Rightarrow> gate_state \<Rightarrow> bool" where
  "accounted K es st \<longleftrightarrow>
     (\<forall>tag k. (tag, k) \<in> set (gs_knocks st) \<longrightarrow> knock_fact K es st tag k) \<and>
     (\<forall>sid s. (sid, s) \<in> set (gs_sessions st) \<longrightarrow> session_fact K es st sid s)"

text \<open>The heap only grows, and keeps its keys.\<close>

definition heap_le :: "gate_state \<Rightarrow> gate_state \<Rightarrow> bool" where
  "heap_le st st' \<longleftrightarrow> length (gs_heap st) \<le> length (gs_heap st') \<and>
     (\<forall>i < length (gs_heap st). rg_key (gs_heap st' ! i) = rg_key (gs_heap st ! i))"

lemma said_mono:
  assumes "heap_le st st'" and "said says es st key what"
  shows "said says (es @ es') st' key what"
proof -
  obtain e i where "e \<in> set es" "says e = Some (i, what)" "i < length (gs_heap st)" "rg_key (gs_heap st ! i) = key"
    using assms(2) by (auto simp: said_def list_ex_iff split: option.splits)
  then show ?thesis using assms(1) unfolding said_def list_ex_iff heap_le_def by (intro bexI [of _ e]) auto
qed

lemma said_now:
  "says e = Some (i, what) \<Longrightarrow> i < length (gs_heap st) \<Longrightarrow> said says (es @ [e]) st (rg_key (gs_heap st ! i)) what"
  by (simp add: said_def)

lemma relayed_to_mono: "heap_le st st' \<Longrightarrow> relayed_to es st sid key p \<Longrightarrow> relayed_to (es @ es') st' sid key p"
  using said_mono by (auto simp: relayed_to_def)

lemma view_heap_le:
  assumes "seat_view st' = seat_view st"
  shows "heap_le st st'" "heap_le st' st"
proof -
  have len: "length (gs_heap st') = length (gs_heap st)" using view_parts(1) [of st] view_parts(1) [of st'] assms by simp
  moreover have "rg_key (gs_heap st' ! i) = rg_key (gs_heap st ! i)" if "i < length (gs_heap st)" for i
    using view_parts(2) [of i st] view_parts(2) [of i st'] assms that len by simp
  ultimately show "heap_le st st'" "heap_le st' st" by (simp_all add: heap_le_def)
qed

lemma path_heap_le:
  assumes "seating_path v sids w"
  shows "length (sg_regs v) \<le> length (sg_regs w) \<and> (\<forall>i < length (sg_regs v). reg_key w i = reg_key v i)"
  using assms
proof (induction rule: seating_path.induct)
  case (path_seat key v sids w)
  then show ?case by (simp add: seat_frame)
next
  case (path_teardown i v key sids w)
  then show ?case by (simp add: teardown_frame)
next
  case (path_open sid i j a b v sids w)
  have "fst (xs[m := (fst (xs ! m), y)] ! n) = fst (xs ! n)" if "n < length xs" for xs :: "(bytes \<times> u32 list) list" and m y n
    using that by (cases "m = n") simp_all
  then have "reg_key (seating_open sid i j a b v) n = reg_key v n" if "n < length (sg_regs v)" for n
    using that by (cases "n = i"; cases "n = j") (simp_all add: seating_open_def)
  then show ?case using path_open.IH by (simp add: seating_open_def)
qed simp

lemma heap_le_view:
  assumes "seating_path (seat_view st) sids (seat_view st')"
  shows "heap_le st st'"
  using path_heap_le [OF assms] by (auto simp: heap_le_def)

lemma knock_fact_mono:
  "knock_fact K es st tag k \<Longrightarrow> heap_le st st' \<Longrightarrow> gs_community st' = gs_community st \<Longrightarrow>
   knock_fact K (es @ es') st' tag k"
  using said_mono by (auto simp: knock_fact_def)

lemma session_fact_mono:
  assumes "session_fact K es st sid s" and "heap_le st st'" and "gs_community st' = gs_community st"
    and "keys_of s' = keys_of s"
    and "\<And>p. p \<in> queued (ss_a_to_b_shaper s') \<Longrightarrow> p \<in> queued (ss_a_to_b_shaper s) \<or> relayed_to (es @ es') st' sid (ss_key_a s) p"
    and "\<And>p. p \<in> queued (ss_b_to_a_shaper s') \<Longrightarrow> p \<in> queued (ss_b_to_a_shaper s) \<or> relayed_to (es @ es') st' sid (ss_key_b s) p"
  shows "session_fact K (es @ es') st' sid s'"
proof -
  have keys: "ss_key_a s' = ss_key_a s" "ss_key_b s' = ss_key_b s" using assms(4) by simp_all
  have s: "ss_key_a s \<noteq> ss_key_b s"
    "said introduces es st (ss_key_a s) (pair_tag K (gs_community st) (ss_key_a s) (ss_key_b s))"
    "said accepts es st (ss_key_b s) (pair_tag K (gs_community st) (ss_key_a s) (ss_key_b s))"
    "\<And>p. p \<in> queued (ss_a_to_b_shaper s) \<Longrightarrow> relayed_to es st sid (ss_key_a s) p"
    "\<And>p. p \<in> queued (ss_b_to_a_shaper s) \<Longrightarrow> relayed_to es st sid (ss_key_b s) p"
    using assms(1) unfolding session_fact_def by blast+
  note m = said_mono [OF assms(2)] relayed_to_mono [OF assms(2)]
  show ?thesis
    unfolding session_fact_def keys assms(3)
  proof (intro conjI ballI)
    fix p assume "p \<in> queued (ss_a_to_b_shaper s')"
    then show "relayed_to (es @ es') st' sid (ss_key_a s) p" using assms(5) s(4) m(2) by blast
  next
    fix p assume "p \<in> queued (ss_b_to_a_shaper s')"
    then show "relayed_to (es @ es') st' sid (ss_key_b s) p" using assms(6) s(5) m(2) by blast
  qed (use s(1-3) m(1) in blast)+
qed

lemma accounted_fewer:
  assumes "accounted K es st" and "fewer st st'" and "heap_le st st'"
  shows "accounted K (es @ es') st'"
  unfolding accounted_def
proof (intro conjI allI impI)
  have com: "gs_community st' = gs_community st" using assms(2) by (simp add: fewer_def)
  fix tag k assume "(tag, k) \<in> set (gs_knocks st')"
  then have "knock_fact K es st tag k" using assms(1,2) unfolding accounted_def fewer_def by blast
  then show "knock_fact K (es @ es') st' tag k" using assms(3) com by (rule knock_fact_mono)
next
  have com: "gs_community st' = gs_community st" using assms(2) by (simp add: fewer_def)
  fix sid s' assume "(sid, s') \<in> set (gs_sessions st')"
  then obtain s where s: "(sid, s) \<in> set (gs_sessions st)" "session_le s' s" using assms(2) unfolding fewer_def by blast
  then have "session_fact K es st sid s" using assms(1) unfolding accounted_def by blast
  then show "session_fact K (es @ es') st' sid s'"
    by (rule session_fact_mono [OF _ assms(3) com]) (use s(2) in \<open>unfold session_le_def, blast+\<close>)
qed

lemma accounted_quiet: "accounted K es st \<Longrightarrow> quiet st st' \<Longrightarrow> accounted K (es @ es') st'"
  using accounted_fewer quiet_fewer view_heap_le(1) unfolding quiet_def by blast

lemma accounted_cong:
  assumes "accounted K es st" and "quiet st st'"
  shows "accounted K es st'"
  using accounted_quiet [OF assms, of "[]"] by simp

section \<open>Every event\<close>

text \<open>One event is a path on which at most one session opens, under a number that was drawn.\<close>

definition sound_step :: "crypto \<Rightarrow> gate_event list \<Rightarrow> gate_event \<Rightarrow> u32 list \<Rightarrow> gate_state \<Rightarrow> gate_state \<Rightarrow> bool" where
  "sound_step K es e draws st st' \<longleftrightarrow>
     (\<exists>sids. seating_path (seat_view st) sids (seat_view st') \<and> (sids = [] \<or> (\<exists>sid \<in> set draws. sids = [sid]))) \<and>
     accounted K (es @ [e]) st' \<and> gs_community st' = gs_community st"

lemma sound_path:
  assumes "accounted K es st" and "seating_path (seat_view st) [] (seat_view st')" and "fewer st st'"
  shows "sound_step K es e draws st st'"
  using assms accounted_fewer [OF assms(1,3) heap_le_view [OF assms(2)]] by (auto simp: sound_step_def fewer_def)

lemma sound_fewer: "accounted K es st \<Longrightarrow> seat_view st' = seat_view st \<Longrightarrow> fewer st st' \<Longrightarrow> sound_step K es e draws st st'"
  by (rule sound_path) (simp_all add: path_stop)

lemma sound_quiet: "accounted K es st \<Longrightarrow> quiet st st' \<Longrightarrow> sound_step K es e draws st st'"
  using sound_fewer quiet_fewer by (simp add: quiet_def)

lemma sound_register:
  assumes "accounted K es st" and "register_frame t key observed frame ok st = (st', out)"
  shows "sound_step K es e draws st st'"
  using register_path [OF assms(2)]
proof
  assume "quiet st st'"
  then show ?thesis by (rule sound_quiet [OF assms(1)])
next
  assume r: "may_seat key (seat_view st) \<and> seat_view st' = seating_seat key (seat_view st) \<and>
    gs_sessions st' = gs_sessions st \<and> gs_knocks st' = gs_knocks st \<and> gs_community st' = gs_community st"
  then have "seating_path (seat_view st) [] (seat_view st')" by (auto intro: path_seat path_stop)
  moreover have "fewer st st'" using r by (auto simp: fewer_def intro: session_le_refl)
  ultimately show ?thesis by (rule sound_path [OF assms(1)])
qed

lemma sound_introduce:
  assumes acc: "accounted K es st" and i: "i < length (gs_heap st)" and e: "introduces e = Some (i, tag)"
  shows "sound_step K es e draws st (handle_introduce K t i tag ttl sealed st)"
proof (cases rule: introduce_cases [OF i, where K = K and t = t and tag = tag and ttl = ttl and sealed = sealed])
  case 1
  then show ?thesis by (rule sound_quiet [OF acc])
next
  case (2 u target)
  let ?st = "handle_introduce K t i tag ttl sealed st"
  have view: "seat_view ?st = seat_view st" "gs_sessions ?st = gs_sessions st" "gs_community ?st = gs_community st"
    "gs_knocks ?st = gs_knocks u"
    using 2(1,5) by (simp_all add: quiet_def)
  have le: "heap_le st ?st" by (rule view_heap_le(1) [OF view(1)])
  have key: "rg_key (gs_heap ?st ! i) = rg_key (gs_heap st ! i)" "i < length (gs_heap ?st)"
    using le i by (auto simp: heap_le_def)
  have "accounted K (es @ [e]) ?st"
    unfolding accounted_def
  proof (intro conjI allI impI)
    fix tag' k assume "(tag', k) \<in> set (gs_knocks ?st)"
    then consider "tag' = tag" "kn_requester k = rg_key (gs_heap st ! i)" "kn_target k = target" | "(tag', k) \<in> set (gs_knocks st)"
      unfolding view(4) 2(4) using set_update_subset [of tag _ "gs_knocks st"] by fastforce
    then show "knock_fact K (es @ [e]) ?st tag' k"
    proof cases
      case 1
      then show ?thesis using 2(2,3) said_now [of introduces e i tag ?st es] e key by (simp add: knock_fact_def view)
    next
      case 2
      then show ?thesis using acc le view(3) unfolding accounted_def by (blast intro: knock_fact_mono)
    qed
  next
    fix sid s assume "(sid, s) \<in> set (gs_sessions ?st)"
    then have "session_fact K es st sid s" using acc unfolding accounted_def view(2) by blast
    then show "session_fact K (es @ [e]) ?st sid s" by (rule session_fact_mono [OF _ le view(3)]) simp_all
  qed
  then show ?thesis using path_stop by (auto simp: sound_step_def view)
qed

lemma sound_answer:
  assumes acc: "accounted K es st" and seats: "seats_ok (seat_view st)" and i: "i < length (gs_heap st)"
    and e: "accept \<Longrightarrow> accepts e = Some (i, tag)"
  shows "sound_step K es e draws st (handle_knock_answer t draws i tag accept st)"
proof (cases rule: answer_cases [of st t draws i tag accept])
  case 1
  then show ?thesis by (rule sound_quiet [OF acc])
next
  case 2
  then show ?thesis using sound_fewer [OF acc] knock_gone_quiet by simp
next
  case (3 knock requester target sid)
  let ?g = "knock_gone tag st" and ?st = "handle_knock_answer t draws i tag accept st"
  let ?a = "kn_requester knock" and ?b = "kn_target knock"
  have g: "seat_view ?g = seat_view st" "gs_community ?g = gs_community st" "gs_sessions ?g = gs_sessions st"
    "set (gs_knocks ?g) \<subseteq> set (gs_knocks st)" "gs_heap ?g = gs_heap st"
    by (auto simp: knock_gone_def AList.delete_eq)
  have kf: "knock_fact K es st tag knock" using acc map_of_SomeD [OF 3(1)] unfolding accounted_def by blast
  then have ne: "?a \<noteq> ?b" by (simp add: knock_fact_def)
  have mem: "requester \<in> set (seats_of (seat_view st) ?a)" "target \<in> set (seats_of (seat_view st) ?b)"
    using newest_mem [OF 3(5)] newest_mem [OF 3(6)] by simp_all
  have r: "requester < length (gs_heap st)" "reg_key (seat_view st) requester = ?a"
    and tg: "target < length (gs_heap st)" "reg_key (seat_view st) target = ?b"
    using seats_ofD [OF seats mem(1)] seats_ofD [OF seats mem(2)] by auto
  have "requester \<noteq> target" using r tg ne by auto
  note step = open_session_step [of requester ?g target sid t tag knock, unfolded g 3(11) [symmetric], OF r(1) tg(1) this 3(10)]
  have "may_open {} sid requester target ?a ?b (seat_view st)"
    using ne mem 3(7,8) r tg by (simp add: may_open_def)
  from path_open [OF this path_stop] have path: "seating_path (seat_view st) [sid] (seat_view ?st)"
    unfolding step(1) .
  note le = heap_le_view [OF path]
  have key: "rg_key (gs_heap ?st ! i) = ?b" "i < length (gs_heap ?st)" using le i 3(3) by (auto simp: heap_le_def)
  have "accounted K (es @ [e]) ?st"
    unfolding accounted_def
  proof (intro conjI allI impI)
    fix tag' k assume "(tag', k) \<in> set (gs_knocks ?st)"
    then have "knock_fact K es st tag' k" using acc g(4) unfolding accounted_def step(2) by blast
    then show "knock_fact K (es @ [e]) ?st tag' k" using le step(3) by (rule knock_fact_mono)
  next
    fix sid' s assume "(sid', s) \<in> set (gs_sessions ?st)"
    then consider "s = session_new t ?a ?b" | "(sid', s) \<in> set (gs_sessions st)"
      unfolding step(4) using set_update_subset [of sid _ "gs_sessions st"] by fastforce
    then show "session_fact K (es @ [e]) ?st sid' s"
    proof cases
      case 1
      have "said introduces es st ?a tag" using kf unfolding knock_fact_def by blast
      then have "said introduces (es @ [e]) ?st ?a tag" by (rule said_mono [OF le])
      moreover have "said accepts (es @ [e]) ?st ?b tag"
        using said_now [of accepts e i tag ?st es] e [OF 3(2)] key by simp
      moreover have "pair_tag K (gs_community ?st) ?a ?b = tag"
        unfolding step(3) using kf unfolding knock_fact_def by (elim conjE) (rule sym)
      ultimately show ?thesis
        using ne by (simp add: 1 session_fact_def session_new_def gate_shaper_def shaper_new_def)
    next
      case 2
      then have "session_fact K es st sid' s" using acc unfolding accounted_def by blast
      then show ?thesis by (rule session_fact_mono [OF _ le step(3)]) simp_all
    qed
  qed
  then show ?thesis using path 3(9) step(3) unfolding sound_step_def by blast
qed

lemma sound_forward:
  assumes acc: "accounted K es st" and i: "i < length (gs_heap st)" and e: "relays e = Some (i, dg)"
    and dec: "decode_relay dg = Inr (session, payload)"
  shows "sound_step K es e draws st (forward_relay t session (rg_key (gs_heap st ! i)) payload st)"
proof (cases rule: forward_cases [OF dec, of st t "rg_key (gs_heap st ! i)"])
  case 1
  then show ?thesis by (rule sound_quiet [OF acc])
next
  case (2 s s')
  let ?key = "rg_key (gs_heap st ! i)" and ?u = "st\<lparr>gs_sessions := hm_insert session s' (gs_sessions st)\<rparr>"
  have view: "seat_view ?u = seat_view st" by (rule view_session_update [OF 2(1,2)])
  note le = view_heap_le(1) [OF view]
  have now: "said relays (es @ [e]) ?u ?key dg" using said_now [of relays e i dg ?u es] e i by simp
  have "accounted K (es @ [e]) ?u"
    unfolding accounted_def
  proof (intro conjI allI impI)
    fix tag k assume "(tag, k) \<in> set (gs_knocks ?u)"
    then have "knock_fact K es st tag k" using acc unfolding accounted_def by simp
    then show "knock_fact K (es @ [e]) ?u tag k" by (rule knock_fact_mono [OF _ le]) simp
  next
    fix sid x assume "(sid, x) \<in> set (gs_sessions ?u)"
    then consider "sid = session" "x = s'" | "(sid, x) \<in> set (gs_sessions st)"
      using set_update_subset [of session s' "gs_sessions st"] by fastforce
    then show "session_fact K (es @ [e]) ?u sid x"
    proof cases
      case 1
      have "session_fact K es st session s" using acc map_of_SomeD [OF 2(1)] unfolding accounted_def by blast
      then show ?thesis
        unfolding 1 by (rule session_fact_mono [OF _ le _ 2(2)]) (use 2(3,4) now dec in \<open>auto simp: relayed_to_def\<close>)
    next
      case 2
      then have "session_fact K es st sid x" using acc unfolding accounted_def by blast
      then show ?thesis by (rule session_fact_mono [OF _ le]) simp_all
    qed
  qed
  then have "accounted K (es @ [e]) (forward_relay t session ?key payload st)" by (rule accounted_cong [OF _ 2(5)])
  moreover have "seat_view (forward_relay t session ?key payload st) = seat_view st"
    "gs_community (forward_relay t session ?key payload st) = gs_community st"
    using 2(5) view by (simp_all add: quiet_def)
  ultimately show ?thesis using path_stop by (auto simp: sound_step_def)
qed

fun draws_of :: "gate_event \<Rightarrow> u32 list" where
  "draws_of (ControlFrame _ draws _ _) = draws"
| "draws_of _ = []"

text \<open>A control frame is a quiet step, then its handler.\<close>

lemma sound_after_quiet:
  assumes "quiet st u" and "sound_step K es e draws u st'"
  shows "sound_step K es e draws st st'"
  using assms by (simp add: sound_step_def quiet_def)

lemma sound_control:
  assumes acc: "accounted K es st" and seats: "seats_ok (seat_view st)" and i: "i < length (gs_heap st)"
    and step: "control_frame K t draws i frame st = (st', goes_on)"
  shows "sound_step K es (ControlFrame t draws i frame) draws st st'"
proof -
  let ?e = "ControlFrame t draws i frame"
  obtain l ok where take: "try_take (t 0) (rg_frame_rate (gs_heap st ! i)) = (l, ok)"
    by (cases "try_take (t 0) (rg_frame_rate (gs_heap st ! i))")
  define u where "u = upd_reg i (\<lambda>r. r\<lparr>rg_frame_rate := l\<rparr>) st"
  have u: "quiet st u" unfolding u_def by (rule quiet_upd_reg) simp_all
  have acc': "accounted K es u" by (rule accounted_cong [OF acc u])
  have i': "i < length (gs_heap u)" using i by (simp add: u_def)
  have seats': "seats_ok (seat_view u)" using seats u by (simp add: quiet_def)
  note eq = step [unfolded control_frame_def take Let_def prod.case u_def [symmetric]]
  have "sound_step K es ?e draws u st'"
  proof (cases "ok")
    case False
    then have "quiet u st'" using eq by (auto intro: quiet_trans [OF quiet_steps(2) quiet_steps(3)])
    then show ?thesis by (rule sound_quiet [OF acc'])
  next
    case True
    show ?thesis
    proof (cases frame)
      case (Keepalive v)
      obtain l' ok' where take': "try_take (t 1) (rg_keepalive_rate (gs_heap u ! i)) = (l', ok')"
        by (cases "try_take (t 1) (rg_keepalive_rate (gs_heap u ! i))")
      let ?w = "upd_reg i (\<lambda>r. r\<lparr>rg_keepalive_rate := l'\<rparr>) u"
      have w: "quiet u ?w" by (rule quiet_upd_reg) simp_all
      have "quiet ?w st'"
        using eq True take' by (auto simp: Keepalive split: if_splits
            intro!: quiet_trans [OF quiet_steps(2) quiet_steps(3)] quiet_trans [OF _ quiet_steps(3)] quiet_upd_reg)
      then show ?thesis by (rule sound_quiet [OF acc' quiet_trans [OF w]])
    next
      case (Introduce v tag ttl sealed)
      then have "st' = handle_introduce K (\<lambda>n. t (Suc n)) i tag ttl sealed u" using eq True by simp
      then show ?thesis using sound_introduce [OF acc' i', of ?e tag] by (simp add: introduces_def Introduce)
    next
      case (KnockAnswer v tag accept)
      then have "st' = handle_knock_answer (\<lambda>n. t (Suc n)) draws i tag accept u" using eq True by simp
      then show ?thesis using sound_answer [OF acc' seats' i', of accept ?e tag] by (simp add: accepts_def KnockAnswer)
    next
      case (StartRequest v session)
      then have "st' = handle_start_request (t 1) i session u" using eq True by simp
      then show ?thesis using sound_fewer [OF acc'] start_request_step [of "t 1" i session u] by simp
    qed (use eq True sound_quiet [OF acc' quiet_steps(1)] in simp_all)
  qed
  then show ?thesis by (rule sound_after_quiet [OF u])
qed

lemma sound_trans_end:
  assumes "sound_step K es e draws st u" and "i < length (gs_heap u)"
  shows "sound_step K es e draws st (control_end i u)"
proof -
  have "seating_path (seat_view u) [] (seat_view (control_end i u))" "fewer u (control_end i u)"
    using control_end_path [OF assms(2)] by simp_all
  moreover from this have "accounted K ((es @ [e]) @ []) (control_end i u)"
    using assms(1) accounted_fewer [OF _ _ heap_le_view] unfolding sound_step_def by blast
  moreover have "gs_community (control_end i u) = gs_community u" using calculation(2) by (simp add: fewer_def)
  ultimately show ?thesis
    using assms(1) path_trans [of _ _ _ "[]"] unfolding sound_step_def by (metis append_Nil2)
qed

theorem gate_step_sound:
  assumes acc: "accounted K es st" and seats: "seats_ok (seat_view st)" and step: "gate_step K e st = (st', out)"
  shows "sound_step K es e (draws_of e) st st'"
proof (cases e)
  case (ReloadMembers r)
  then have "quiet st st'" using step by (auto split: sum.splits)
  then show ?thesis by (rule sound_quiet [OF acc])
next
  case (SecondaryOpen t key)
  then have "quiet st st'" using step quiet_secondary [of st t key] by simp
  then show ?thesis by (rule sound_quiet [OF acc])
next
  case (PrimaryOpen t key)
  then have "quiet st st'" using step quiet_primary [of st t key] by simp
  then show ?thesis by (rule sound_quiet [OF acc])
next
  case (RegisterFrame t key observed frame ok)
  show ?thesis
  proof (cases "gs_pending st = 0")
    case True
    then show ?thesis using step RegisterFrame sound_quiet [OF acc quiet_steps(1)] by simp
  next
    case False
    then show ?thesis using step RegisterFrame by (intro sound_register [OF acc]) simp
  qed
next
  case PendingLost
  then have "quiet st st'" using step by auto
  then show ?thesis by (rule sound_quiet [OF acc])
next
  case (ControlFrame t draws i frame)
  show ?thesis
  proof (cases "i < length (gs_heap st)")
    case True
    obtain u goes_on where c: "control_frame K t draws i frame st = (u, goes_on)"
      by (cases "control_frame K t draws i frame st")
    from sound_control [OF acc seats True this] have s: "sound_step K es e (draws_of e) st u" by (simp add: ControlFrame)
    then have "i < length (gs_heap u)" using True heap_le_view unfolding sound_step_def heap_le_def by fastforce
    from sound_trans_end [OF s this] s show ?thesis using step True by (auto simp: ControlFrame c split: if_splits)
  next
    case False
    then show ?thesis using step ControlFrame sound_quiet [OF acc quiet_steps(1)] by simp
  qed
next
  case (ControlEnd i)
  show ?thesis
  proof (cases "i < length (gs_heap st)")
    case True
    then show ?thesis using step ControlEnd control_end_path [OF True] sound_path [OF acc] by auto
  qed (use step ControlEnd sound_quiet [OF acc quiet_steps(1)] in simp)
next
  case (WriterStep i ok)
  then have "quiet st st'" using step quiet_writer [of st i ok] by (auto split: if_splits)
  then show ?thesis by (rule sound_quiet [OF acc])
next
  case (RelayDatagram t i dg)
  show ?thesis
  proof (cases "i < length (gs_heap st)")
    case True
    then show ?thesis
      using step sound_quiet [OF acc quiet_steps(2)] sound_forward [OF acc True, of e dg]
      by (auto simp: RelayDatagram relay_datagram_def relays_def split: sum.splits)
  qed (use step RelayDatagram sound_quiet [OF acc quiet_steps(1)] in simp)
next
  case (RelayDrain t session a_to_b sends)
  then have "relay_drain t session a_to_b sends st = (st', out)" using step by simp
  then show ?thesis
  proof (cases rule: drain_cases)
    case 1
    then show ?thesis using sound_quiet [OF acc quiet_steps(1)] by simp
  next
    case (2 s s')
    then show ?thesis using session_update [OF 2(1,2)] by (intro sound_fewer [OF acc]) simp_all
  qed
next
  case (Sweep now)
  then show ?thesis using step sweep_path [OF seats, of now] by (intro sound_path [OF acc]) simp_all
qed

text \<open>Nothing but a drain sends datagrams.\<close>

lemma only_drains_send:
  assumes "gate_step K e st = (st', out)" and "SendDatagram dest p \<in> set out"
  shows "\<exists>t session a_to_b sends. e = RelayDrain t session a_to_b sends"
  using assms
  by (cases e) (auto simp: secondary_open_def primary_open_def register_frame_def writer_step_def sweep_once_def Let_def
      split: prod.splits gate_frame.splits option.splits list.splits if_splits)

section \<open>Runs\<close>

lemma path_event:
  assumes "sids = [] \<or> (\<exists>sid \<in> set draws. sids = [sid])"
  shows "subseq sids draws"
  using assms by (auto simp: subseq_singleton_left)

lemma subseq_distinct: "subseq xs ys \<Longrightarrow> distinct ys \<Longrightarrow> distinct xs"
  by (induction rule: list_emb.induct) (auto dest: list_emb_set)

lemma gate_run_sound:
  assumes "accounted K es st" and "caps_ok (seat_view st)" and "gate_run K es' st = (st', out)"
  shows "(\<exists>sids. seating_path (seat_view st) sids (seat_view st') \<and> subseq sids (concat (map draws_of es'))) \<and>
    accounted K (es @ es') st' \<and> gs_community st' = gs_community st"
  using assms
proof (induction es' arbitrary: es st out)
  case Nil
  then show ?case by (auto intro: path_stop exI [of _ "[]"])
next
  case (Cons e es')
  obtain u out1 out2 where step: "gate_step K e st = (u, out1)" and run: "gate_run K es' u = (st', out2)"
    using Cons.prems(3) by (auto split: prod.splits)
  have "seats_ok (seat_view st)" using Cons.prems(2) by (simp add: caps_ok_def)
  note sound = gate_step_sound [OF Cons.prems(1) this step, unfolded sound_step_def]
  note acc = sound [THEN conjunct2, THEN conjunct1] sound [THEN conjunct2, THEN conjunct2]
  from sound obtain sids where path: "seating_path (seat_view st) sids (seat_view u)"
    and "sids = [] \<or> (\<exists>sid \<in> set (draws_of e). sids = [sid])" by (elim conjE exE)
  from this(2) have sub: "subseq sids (draws_of e)" by (rule path_event)
  have "caps_ok (seat_view u)" using path_caps [OF path Cons.prems(2)] by blast
  from Cons.IH [OF acc(1) this run] obtain sids' where "seating_path (seat_view u) sids' (seat_view st')"
    "subseq sids' (concat (map draws_of es'))" "accounted K (es @ e # es') st'" "gs_community st' = gs_community st"
    using acc(2) by auto
  then have "seating_path (seat_view st) (sids @ sids') (seat_view st')"
    "subseq (sids @ sids') (concat (map draws_of (e # es')))"
    using path_trans [OF path] list_emb_append_mono [OF sub] by simp_all
  then show ?case using \<open>accounted K (es @ e # es') st'\<close> \<open>gs_community st' = gs_community st\<close> by blast
qed

lemma gate_new_ok:
  "accounted K [] (gate_new c m n p)" "caps_ok (seat_view (gate_new c m n p))" "seating_ok {} (seat_view (gate_new c m n p))"
  by (simp_all add: gate_new_def accounted_def seat_view_def caps_ok_def seats_ok_def seating_ok_def held_ok_def backed_ok_def)

lemmas run_sound = gate_run_sound [OF gate_new_ok(1,2), unfolded append_Nil]

lemma run_caps:
  assumes "gate_run K es (gate_new c m n p) = (st, out)"
  shows "caps_ok (seat_view st) \<and> gs_capacity st = n"
proof -
  obtain sids where "seating_path (seat_view (gate_new c m n p)) sids (seat_view st)"
    using run_sound [OF assms] by blast
  from path_caps [OF this gate_new_ok(2)] show ?thesis by (simp add: gate_new_def)
qed

lemma run_seating:
  assumes "gate_run K es (gate_new c m n p) = (st, out)" and "distinct (concat (map draws_of es))"
  shows "\<exists>U. seating_ok U (seat_view st)"
proof -
  obtain sids where path: "seating_path (seat_view (gate_new c m n p)) sids (seat_view st)"
    and sub: "subseq sids (concat (map draws_of es))" using run_sound [OF assms(1)] by blast
  have "distinct sids" using subseq_distinct [OF sub assms(2)] .
  from path_ok [OF path gate_new_ok(3) this] show ?thesis by auto
qed

end
