(* ===== verification/Gate_Demo.thy ===== *)
theory Gate_Demo
  imports Gate_Steps Shaper_Laws
begin

text \<open>
  A run of the gate on concrete events: two members register, one introduces itself to the
  other, which accepts, and a datagram crosses the session. Every clock shows zero, but for the
  drain, so that the limiters of the run have whole tokens.
\<close>

section \<open>Limiters at a clock that stands still\<close>

lemma f64_round_numeral: "numeral k < (2 :: nat) ^ 53 \<Longrightarrow> f64_round (numeral k) = numeral k"
  using f64_round_nat [of "numeral k"] by simp

lemma f64_round_small: "f64_round 0 = 0" "f64_round 1 = 1"
  using f64_round_nat [of 0] f64_round_nat [of 1] by simp_all

lemma refilled_still: "f64_round level = level \<Longrightarrow> level \<le> cap \<Longrightarrow> refilled t t level rate cap = level"
  by (simp add: refilled_def duration_since_def as_secs_f64_def f64_round_small)

lemmas still = f64_round_numeral f64_round_small refilled_still try_take_def try_take_n_def Let_def
  limiter_with_def per_minute_def per_hour_def per_second_def capacity_per_hour_def

section \<open>The run\<close>

definition tag_crypto :: crypto where
  "tag_crypto = \<lparr>blake3 = (\<lambda>x. x), blake3_keyed = (\<lambda>_ x. x), vk_well_formed = (\<lambda>_. True), vk_verify_strict = (\<lambda>_ _ _. True)\<rparr>"

definition still_clock :: clock where "still_clock = (\<lambda>_. 0)"

definition demo_gate :: gate_state where "demo_gate = gate_new [9] {[1], [2]} 4 443"

definition demo_tag :: bytes where "demo_tag = pair_tag tag_crypto [9] [1] [2]"

definition demo_datagram :: bytes where "demo_datagram = [RELAY_DISCRIMINATOR, 0, 0, 0, 7, 42]"

definition demo_admission :: "gate_event list" where
  "demo_admission =
     [PrimaryOpen still_clock [1], RegisterFrame still_clock [1] (V4 [10, 0, 0, 1] 1) (Register 1 [9]) True,
      PrimaryOpen still_clock [2], RegisterFrame still_clock [2] (V4 [10, 0, 0, 2] 2) (Register 1 [9]) True]"

definition demo_knock :: "gate_event list" where
  "demo_knock =
     [ControlFrame still_clock [] 0 (Introduce 1 demo_tag 30 [5]),
      ControlFrame still_clock [7] 1 (KnockAnswer 1 demo_tag True)]"

text \<open>The states on the way: both seated, a session open, a datagram queued.\<close>

abbreviation demo_seat :: "bytes \<Rightarrow> socket_addr \<Rightarrow> registration" where
  "demo_seat \<equiv> registration_new still_clock"

definition demo_seated :: gate_state where
  "demo_seated = demo_gate\<lparr>
     gs_heap := [demo_seat [1] (V4 [10, 0, 0, 1] 1), demo_seat [2] (V4 [10, 0, 0, 2] 2)],
     gs_registrations := [([1], [0]), ([2], [1])],
     gs_register_attempts := map (\<lambda>key. (key, fst (try_take 0 (per_minute 4 4 0)))) [[1], [2]]\<rparr>"

lemmas demo_eval = still still_clock_def gate_new_def demo_gate_def regs_of_def newest_def registration_new_def
  upd_reg_def send_frame_def count_def FRAME_TX_QUEUE_CAP_def

lemma demo_admitted: "fst (gate_run tag_crypto demo_admission demo_gate) = demo_seated"
  by (simp add: demo_admission_def demo_seated_def primary_open_def take_attempt_def register_frame_def take_seat_def
    MAX_PENDING_CONNECTIONS_def MAX_REGISTRATIONS_def REGISTER_ATTEMPTS_PER_MINUTE_def
    MAX_CONNECTIONS_PER_KEY_def demo_eval)

definition demo_opened :: gate_state where
  "demo_opened = fst (gate_run tag_crypto demo_knock demo_seated)"

lemma demo_opened_parts:
  "hm_get (gs_sessions demo_opened) 7 = Some (session_new still_clock [1] [2])"
  "length (gs_heap demo_opened) = 2" "gs_registrations demo_opened = [([1], [0]), ([2], [1])]"
  "rg_key (gs_heap demo_opened ! 0) = [1]" "rg_key (gs_heap demo_opened ! 1) = [2]"
  by (simp_all add: demo_opened_def demo_knock_def demo_seated_def control_frame_def handle_introduce_def
    handle_knock_answer_def open_session_def draw_session_id_def demo_tag_def pair_tag_def tag_crypto_def
    INTRODUCE_PER_MINUTE_def INTRODUCE_PER_HOUR_def INTRODUCE_TTL_CAP_S_def FRAME_RATE_BURST_def
    FRAME_RATE_PER_SECOND_def MAX_SESSIONS_PER_REGISTRATION_def session_new_def demo_eval)

definition demo_relayed :: gate_state where
  "demo_relayed = fst (gate_step tag_crypto (RelayDatagram still_clock 0 demo_datagram) demo_opened)"

definition demo_queue :: relay_shaper where
  "demo_queue = fst (enqueue_or_drop 0 demo_datagram (gate_shaper 0))"

lemma demo_relayed_parts:
  "\<exists>s. hm_get (gs_sessions demo_relayed) 7 = Some s \<and> keys_of s = ([1], [2]) \<and>
     ss_a_to_b_shaper s = demo_queue \<and> ss_a_to_b_task s"
  "regs_of demo_relayed [2] = [1]" "length (gs_heap demo_relayed) = 2"
  "rg_key (gs_heap demo_relayed ! 0) = [1]" "rg_key (gs_heap demo_relayed ! 1) = [2]"
proof -
  have len: "0 < length (gs_heap demo_opened)" by (simp add: demo_opened_parts)
  have dec: "decode_relay demo_datagram = Inr (7, [42])"
    by (simp add: decode_relay_def demo_datagram_def RELAY_PAYLOAD_CAP_def from_be_def)
  then have enc: "encode_relay 7 [42] = Inr demo_datagram" by (rule encode_decode_relay)
  have cap: "relay_limiter_new 0 = limiter_with 2147483648 (f64_round (f64_round 2147483648 / f64_round 3600)) 0"
    by (simp add: relay_limiter_new_def RELAY_BYTES_PER_HOUR_def capacity_per_hour_def still)
  note eq = demo_relayed_def gate_step.simps relay_datagram_def dec forward_relay_def demo_opened_parts
    demo_opened_parts(5) [simplified] len enc
    session_new_def still_clock_def Let_def count_def
  show "\<exists>s. hm_get (gs_sessions demo_relayed) 7 = Some s \<and> keys_of s = ([1], [2]) \<and>
     ss_a_to_b_shaper s = demo_queue \<and> ss_a_to_b_task s"
    by (simp add: eq cap still demo_queue_def hm_get_insert split: prod.split)
  show "regs_of demo_relayed [2] = [1]" "length (gs_heap demo_relayed) = 2"
    "rg_key (gs_heap demo_relayed ! 0) = [1]" "rg_key (gs_heap demo_relayed ! 1) = [2]"
    by (simp_all add: eq cap still regs_of_def split: prod.split)
qed

text \<open>A second later the drain has a token, and sends the datagram to the other key's connection.\<close>

definition late_clock :: clock where "late_clock = (\<lambda>_. 1000000000)"

lemma demo_drained:
  "snd (gate_step tag_crypto (RelayDrain late_clock 7 True 1) demo_relayed) = [SendDatagram 1 demo_datagram]"
proof -
  obtain s where s: "hm_get (gs_sessions demo_relayed) 7 = Some s" "ss_key_b s = [2]"
    "ss_a_to_b_shaper s = demo_queue" "ss_a_to_b_task s" using demo_relayed_parts(1) by auto
  have q: "demo_queue = fst (shaper_step 0 (EnqueueOrDrop demo_datagram) (gate_shaper 0))"
    "rs_items demo_queue = [(0, demo_datagram)]" "\<not> rs_closed demo_queue"
    by (simp_all add: demo_queue_def enqueue_or_drop_def gate_shaper_def shaper_new_def GATE_RELAY_QUEUE_DEPTH_def)
  have wf: "shaper_wf demo_queue" unfolding q(1) by (rule shaper_step_wf [OF gate_shaper_wf])
  obtain sh n where pass: "drain_pass (late_clock 0) (late_clock 1) demo_queue = (sh, n)"
    by (cases "drain_pass (late_clock 0) (late_clock 1) demo_queue")
  have "rs_last_refill demo_queue = 0" "rs_per_second demo_queue = f64_round (2000 * GATE_RELAY_RATE_HEADROOM)"
    by (simp_all add: demo_queue_def enqueue_or_drop_def gate_shaper_def shaper_new_def GATE_RELAY_QUEUE_DEPTH_def
        RELAY_DATAGRAMS_PER_SECOND_def)
  then obtain ps wakers where n: "n = Ready ps wakers" "ps \<noteq> []"
    using drain_pass_progress [OF wf _ q(3) _ _ pass] gate_rate_bounds(1) by (auto simp: q(2) late_clock_def)
  have "ps = [demo_datagram]"
  proof (cases rule: drain_pass_cases [OF wf pass])
    case 4
    then show ?thesis using n by (cases "drain_count (late_clock 0) demo_queue") (auto simp: q(2))
  qed (use n in simp_all)
  then have "drain_pass (late_clock 0) (late_clock 1) demo_queue = (sh, Ready [demo_datagram] wakers)"
    using pass n by simp
  then show ?thesis
    using s demo_relayed_parts(2) by (simp add: relay_drain_def newest_def)
qed

definition demo_events :: "gate_event list" where
  "demo_events = demo_admission @ demo_knock @ [RelayDatagram still_clock 0 demo_datagram]"

lemma gate_run_append:
  "fst (gate_run K (es @ es') st) = fst (gate_run K es' (fst (gate_run K es st)))"
  by (induction es arbitrary: st) (simp_all split: prod.split, metis fst_conv)

lemma demo_run: "fst (gate_run tag_crypto demo_events demo_gate) = demo_relayed"
  by (simp add: demo_events_def gate_run_append demo_admitted demo_relayed_def demo_opened_def [symmetric]
      del: gate_step.simps split: prod.split)

lemma demo_run_pair:
  "gate_run tag_crypto demo_events (gate_new [9] {[1], [2]} 4 443) =
     (demo_relayed, snd (gate_run tag_crypto demo_events demo_gate))"
  using demo_run by (simp add: demo_gate_def [symmetric] prod_eq_iff)

lemma demo_draws: "distinct (concat (map draws_of demo_events))"
  by (simp add: demo_events_def demo_admission_def demo_knock_def)

end
