(* ===== verification/Gate_Server_Props.thy ===== *)
theory Gate_Server_Props
  imports Gate_Demo
begin

text \<open>The properties of the gatehouse, over every run of events on a new gate.\<close>

section \<open>The table\<close>

text \<open>C6: The gate refines the abstract gate of \<open>Seating\<close>. Whatever happens to it, in whatever
  order, its table of connections and sessions goes through abstract steps only: a key takes a
  seat that it may take, a connection is torn down, or a session opens between two seated
  connections of different keys that both have room. The sessions open in the order in which
  their numbers were drawn.\<close>

theorem gate_refines_seating:
  assumes "gate_run K es (gate_new community members cap port) = (st, out)"
  shows "\<exists>sids. subseq sids (concat (map draws_of es)) \<and>
    seating_path (seat_view (gate_new community members cap port)) sids (seat_view st)"
  using run_sound [OF assms] by blast

theorem gate_refines_seating_witness:
  "\<exists>sids. subseq sids [7] \<and> seating_path (seat_view demo_gate) sids (seat_view demo_relayed)"
proof -
  from gate_refines_seating [OF demo_run_pair] show ?thesis
    by (simp add: demo_gate_def [symmetric] demo_events_def demo_admission_def demo_knock_def)
qed

text \<open>The caps. At any time at most \<open>capacity\<close> keys have a seat, a key at least one and at most
  two, no connection has two seats or the seat of another key, and no connection holds more
  than eight sessions.\<close>

theorem gate_caps:
  assumes "gate_run K es (gate_new community members cap port) = (st, out)"
  shows "length (gs_registrations st) \<le> cap \<and> distinct (map fst (gs_registrations st)) \<and>
    (\<forall>(key, l) \<in> set (gs_registrations st). l \<noteq> [] \<and> distinct l \<and> length l \<le> 2 \<and>
       (\<forall>i \<in> set l. i < length (gs_heap st) \<and> rg_key (gs_heap st ! i) = key)) \<and>
    (\<forall>r \<in> set (gs_heap st). length (rg_sessions r) \<le> 8)"
proof -
  have caps: "caps_ok (seat_view st)" "gs_capacity st = cap" using run_caps [OF assms] by simp_all
  then have seats: "seats_ok (seat_view st)" by (simp add: caps_ok_def)
  have "i < length (gs_heap st) \<and> rg_key (gs_heap st ! i) = key"
    if "(key, l) \<in> set (gs_registrations st)" "i \<in> set l" for key l i
  proof -
    have "i < length (sg_regs (seat_view st)) \<and> reg_key (seat_view st) i = key"
      using seats that unfolding seats_ok_def by fastforce
    then show ?thesis by auto
  qed
  moreover have "length (rg_sessions r) \<le> 8" if r: "r \<in> set (gs_heap st)" for r
  proof -
    obtain i where "i < length (gs_heap st)" "gs_heap st ! i = r" using r unfolding in_set_conv_nth by blast
    then show ?thesis using caps(1) by (auto simp: caps_ok_def MAX_SESSIONS_PER_REGISTRATION_def)
  qed
  ultimately show ?thesis
    using seats caps(2) by (fastforce simp: seats_ok_def hm_wf_def MAX_CONNECTIONS_PER_KEY_def)
qed

theorem gate_caps_witness:
  "length (gs_registrations demo_relayed) \<le> 4 \<and> length (rg_sessions (gs_heap demo_relayed ! 0)) \<le> 8"
proof -
  have "gs_heap demo_relayed ! 0 \<in> set (gs_heap demo_relayed)" using demo_relayed_parts(3) by (intro nth_mem) simp
  with gate_caps [OF demo_run_pair] show ?thesis by blast
qed

text \<open>C4: Sessions are held from both sides. When no session number is drawn twice, every session is
  between two different keys, each of which has exactly one seated connection that holds it;
  a seated connection holds no session that is gone and none of other keys; and there are at
  most eight times as many sessions as the capacity.\<close>

theorem gate_sessions_backed:
  assumes "gate_run K es (gate_new community members cap port) = (st, out)"
    and "distinct (concat (map draws_of es))"
  shows "(\<forall>sid s. hm_get (gs_sessions st) sid = Some s \<longrightarrow> ss_key_a s \<noteq> ss_key_b s \<and>
      (\<forall>key \<in> {ss_key_a s, ss_key_b s}. \<exists>!i. i \<in> set (regs_of st key) \<and> sid \<in> set (held (seat_view st) i))) \<and>
    (\<forall>key. \<forall>i \<in> set (regs_of st key). \<forall>sid \<in> set (rg_sessions (gs_heap st ! i)).
      \<exists>s. hm_get (gs_sessions st) sid = Some s \<and> key \<in> {ss_key_a s, ss_key_b s}) \<and>
    length (gs_sessions st) \<le> 8 * cap"
proof -
  obtain U where ok: "seating_ok U (seat_view st)" using run_seating [OF assms] by blast
  then have s: "seats_ok (seat_view st)" and h: "held_ok U (seat_view st)" and b: "backed_ok U (seat_view st)"
    by (simp_all add: seating_ok_def)
  have "ss_key_a s \<noteq> ss_key_b s \<and>
      (\<forall>key \<in> {ss_key_a s, ss_key_b s}. \<exists>!i. i \<in> set (regs_of st key) \<and> sid \<in> set (held (seat_view st) i))"
    if "hm_get (gs_sessions st) sid = Some s" for sid s
  proof -
    have "hm_get (sg_sessions (seat_view st)) sid = Some (keys_of s)" by (simp add: view_session that)
    then have "fst (keys_of s) \<noteq> snd (keys_of s) \<and> (\<forall>key \<in> {fst (keys_of s), snd (keys_of s)}.
        \<exists>!i. i \<in> set (seats_of (seat_view st) key) \<and> sid \<in> set (held (seat_view st) i))"
      using b unfolding backed_ok_def by blast
    then show ?thesis by simp
  qed
  moreover have "\<exists>s. hm_get (gs_sessions st) sid = Some s \<and> key \<in> {ss_key_a s, ss_key_b s}"
    if i: "i \<in> set (regs_of st key)" and sid: "sid \<in> set (rg_sessions (gs_heap st ! i))" for key i sid
  proof -
    have at: "i < length (gs_heap st)" "reg_key (seat_view st) i = key" using seats_ofD [OF s, of i key] i by auto
    then have held: "sid \<in> set (held (seat_view st) i)" and sits: "seated (seat_view st) i" using sid i by simp_all
    have r: "reg_ok U (sg_sessions (seat_view st)) (seated (seat_view st) i) (sg_regs (seat_view st) ! i)"
      using h at(1) by (simp add: held_ok_def)
    obtain ab where ab: "hm_get (sg_sessions (seat_view st)) sid = Some ab"
      using r held sits unfolding reg_ok_def by blast
    then have "key \<in> {fst ab, snd ab}" using r held at(2) unfolding reg_ok_def by blast
    then show ?thesis using ab by (auto simp: view_session)
  qed
  moreover have "length (gs_sessions st) \<le> 8 * cap"
    using session_count [OF ok] run_caps [OF assms(1)]
    by (simp add: MAX_CONNECTIONS_PER_KEY_def MAX_SESSIONS_PER_REGISTRATION_def)
  ultimately show ?thesis by blast
qed

theorem gate_sessions_backed_witness:
  "(\<exists>!i. i \<in> set (regs_of demo_relayed [2]) \<and> 7 \<in> set (held (seat_view demo_relayed) i)) \<and>
   length (gs_sessions demo_relayed) \<le> 32"
proof -
  note run = demo_run_pair
  obtain s where s: "hm_get (gs_sessions demo_relayed) 7 = Some s" "ss_key_b s = [2]"
    using demo_relayed_parts(1) by auto
  from gate_sessions_backed [OF run demo_draws] have
    "\<forall>key \<in> {ss_key_a s, ss_key_b s}. \<exists>!i. i \<in> set (regs_of demo_relayed key) \<and> 7 \<in> set (held (seat_view demo_relayed) i)"
    "length (gs_sessions demo_relayed) \<le> 8 * 4" using s(1) by blast+
  then show ?thesis using s(2) by simp
qed

section \<open>Consent and the relay\<close>

text \<open>C5: No session without consent. Every session of the gate is between two different keys, of
  which the first introduced itself to the second under the tag of the pair, and the second
  accepted that tag, each on a connection of its own.\<close>

theorem session_needs_consent:
  assumes "gate_run K es (gate_new community members cap port) = (st, out)"
    and "hm_get (gs_sessions st) sid = Some s"
  shows "ss_key_a s \<noteq> ss_key_b s \<and>
    said introduces es st (ss_key_a s) (pair_tag K community (ss_key_a s) (ss_key_b s)) \<and>
    said accepts es st (ss_key_b s) (pair_tag K community (ss_key_a s) (ss_key_b s))"
proof -
  have "session_fact K es st sid s"
    using run_sound [OF assms(1)] map_of_SomeD [OF assms(2)] unfolding accounted_def by blast
  moreover have "gs_community st = community" using run_sound [OF assms(1)] by (simp add: gate_new_def)
  ultimately show ?thesis unfolding session_fact_def by simp
qed

theorem session_needs_consent_witness:
  "said introduces demo_events demo_relayed [1] demo_tag \<and> said accepts demo_events demo_relayed [2] demo_tag"
proof -
  note run = demo_run_pair
  obtain s where "hm_get (gs_sessions demo_relayed) 7 = Some s" "keys_of s = ([1], [2])" using demo_relayed_parts(1) by auto
  with session_needs_consent [OF run this(1)] show ?thesis by (simp add: demo_tag_def)
qed

text \<open>C9: The relay does not misroute or invent. When the gate sends a datagram to a connection, it is
  one that arrived, byte for byte, on a connection of the other key of a live session whose
  number the datagram carries, and the receiving connection has a seat of the session's key.\<close>

theorem relay_end_to_end:
  assumes "gate_run K es (gate_new community members cap port) = (st, out)"
    and "gate_step K e st = (st', out')" and "SendDatagram dest datagram \<in> set out'"
  shows "\<exists>sid payload s sender receiver. decode_relay datagram = Inr (sid, payload) \<and>
    hm_get (gs_sessions st) sid = Some s \<and> sender \<noteq> receiver \<and> {sender, receiver} = {ss_key_a s, ss_key_b s} \<and>
    dest \<in> set (regs_of st receiver) \<and> said relays es st sender datagram"
proof -
  obtain t session a_to_b sends where e: "e = RelayDrain t session a_to_b sends"
    using only_drains_send [OF assms(2,3)] by blast
  then have "relay_drain t session a_to_b sends st = (st', out')" using assms(2) by simp
  then show ?thesis
  proof (cases rule: drain_cases)
    case 1
    then show ?thesis using assms(3) by simp
  next
    case (2 s s')
    let ?to = "if a_to_b then ss_key_b s else ss_key_a s" and ?from = "if a_to_b then ss_key_a s else ss_key_b s"
    have fact: "session_fact K es st session s"
      using run_sound [OF assms(1)] map_of_SomeD [OF 2(1)] unfolding accounted_def by blast
    have "newest st ?to = Some dest" and "datagram \<in> queued (if a_to_b then ss_a_to_b_shaper s else ss_b_to_a_shaper s)"
      using 2(4) assms(3) by blast+
    then have "relayed_to es st session ?from datagram" "dest \<in> set (regs_of st ?to)"
      using fact newest_mem [of st ?to dest] unfolding session_fact_def by (auto split: if_splits)
    moreover have "?from \<noteq> ?to" "{?from, ?to} = {ss_key_a s, ss_key_b s}" using fact by (auto simp: session_fact_def)
    ultimately show ?thesis using 2(1) unfolding relayed_to_def by blast
  qed
qed

theorem relay_end_to_end_witness:
  "\<exists>sid payload s sender receiver. decode_relay demo_datagram = Inr (sid, payload) \<and>
    hm_get (gs_sessions demo_relayed) sid = Some s \<and> sender \<noteq> receiver \<and> {sender, receiver} = {ss_key_a s, ss_key_b s} \<and>
    1 \<in> set (regs_of demo_relayed receiver) \<and> said relays demo_events demo_relayed sender demo_datagram"
proof -
  note run = demo_run_pair
  have step: "gate_step tag_crypto (RelayDrain late_clock 7 True 1) demo_relayed =
      (fst (gate_step tag_crypto (RelayDrain late_clock 7 True 1) demo_relayed), [SendDatagram 1 demo_datagram])"
    by (rule prod_eqI) (simp_all only: demo_drained fst_conv snd_conv)
  from relay_end_to_end [OF run step] show ?thesis by simp
qed
end
