(* ===== verification/Porch.thy ===== *)
theory Porch
  imports Path_Table Probe Gate_Wire Address_Cache
begin

text \<open>
  The porch socket (\<open>sock.rs\<close>): one UDP socket that carries the gate connection, the direct
  paths, the relayed traffic and the probes. The socket of the system, quinn and the tasks of
  tokio are around it: what a system call answers is an argument, what is sent is a result, and
  a task is a number. Every method is one step. \<open>queue_probes\<close> copies the armed keys and releases
  their lock before it decodes and queues, so in the code a key may be disarmed in between and
  the queue of its attempt come back; the step leaves that out.
\<close>

section \<open>Addresses and sources\<close>

definition synthetic_addr :: "crypto \<Rightarrow> bytes \<Rightarrow> bytes \<Rightarrow> socket_addr" where
  "synthetic_addr K process_salt peer_key = V6 (0xFD # process_salt @ take 10 (blake3 K peer_key)) 1 0 0"

text \<open>The set of each live connection, and how many sets hold an address.\<close>

record allowed_sources =
  as_by_lease :: "(u64, socket_addr list) hashmap"
  as_refcounts :: "(socket_addr, nat) hashmap"

definition sources_empty :: allowed_sources where
  "sources_empty = \<lparr>as_by_lease = [], as_refcounts = []\<rparr>"

definition or_default :: "'a \<Rightarrow> 'a option \<Rightarrow> 'a" where
  "or_default d x = (case x of None \<Rightarrow> d | Some y \<Rightarrow> y)"

definition sources_allow :: "u64 \<Rightarrow> socket_addr \<Rightarrow> allowed_sources \<Rightarrow> allowed_sources" where
  "sources_allow lease addr a =
     \<lparr>as_by_lease = hm_insert lease (or_default [] (hm_get (as_by_lease a) lease) @ [addr]) (as_by_lease a),
      as_refcounts = hm_insert addr (or_default 0 (hm_get (as_refcounts a) addr) + 1) (as_refcounts a)\<rparr>"

definition drop_ref :: "socket_addr \<Rightarrow> (socket_addr, nat) hashmap \<Rightarrow> (socket_addr, nat) hashmap" where
  "drop_ref addr m =
     (case hm_get m addr of
        None \<Rightarrow> m
      | Some n \<Rightarrow> if n - 1 = 0 then hm_remove addr m else hm_insert addr (n - 1) m)"

definition sources_forget :: "u64 \<Rightarrow> allowed_sources \<Rightarrow> allowed_sources" where
  "sources_forget lease a =
     (case hm_get (as_by_lease a) lease of
        None \<Rightarrow> a
      | Some addrs \<Rightarrow>
          \<lparr>as_by_lease = hm_remove lease (as_by_lease a), as_refcounts = fold drop_ref addrs (as_refcounts a)\<rparr>)"

definition sources_contain :: "allowed_sources \<Rightarrow> socket_addr \<Rightarrow> bool" where
  "sources_contain a addr \<longleftrightarrow> hm_get (as_refcounts a) addr \<noteq> None"

section \<open>State\<close>

definition INBOUND_RELAY_QUEUE_CAP :: nat where "INBOUND_RELAY_QUEUE_CAP = 1024"
definition INBOUND_PROBE_QUEUE_CAP :: nat where "INBOUND_PROBE_QUEUE_CAP = 1024"

text \<open>A gate connection is a number and its remote address. A drain task holds a connection and an entry.\<close>

type_synonym gate_conn = "nat \<times> socket_addr"

record porch =
  po_local_is_ipv6 :: bool
  po_gate :: "gate_conn option"
  po_gate_lease :: "u64 option"
  po_by_synthetic :: "(socket_addr, u32) hashmap"
  po_by_session :: "(u32, socket_addr) hashmap"
  po_drained :: "socket_addr set"
  po_tasks :: "(gate_conn \<times> nat) list"
  po_paths :: path_table
  po_inbound :: "(socket_addr \<times> bytes) list"
  po_probes :: "(bytes, (socket_addr \<times> probe) list) hashmap"
  po_probe_keys :: "(bytes, bytes) hashmap"
  po_probes_unauthenticated :: u64
  po_probes_dropped :: u64
  po_probe_waker :: "waker option"
  po_sources :: allowed_sources
  po_next_lease :: u64
  po_armed :: bool
  po_unknown_dropped :: u64
  po_waker :: "waker option"
  po_relay_dropped :: u64
  po_prefer_socket :: bool
  po_intent :: "(nat, socket_addr) hashmap"

definition porch_new :: "bool \<Rightarrow> porch" where
  "porch_new local_is_ipv6 = \<lparr>
     po_local_is_ipv6 = local_is_ipv6, po_gate = None, po_gate_lease = None, po_by_synthetic = [],
     po_by_session = [], po_drained = {}, po_tasks = [], po_paths = path_table_new, po_inbound = [],
     po_probes = [], po_probe_keys = [], po_probes_unauthenticated = 0, po_probes_dropped = 0,
     po_probe_waker = None, po_sources = sources_empty, po_next_lease = 0, po_armed = False,
     po_unknown_dropped = 0, po_waker = None, po_relay_dropped = 0, po_prefer_socket = False,
     po_intent = [] \<rparr>"

text \<open>What a method hands to the world: a datagram on the wire or to the gate connection, or a wake-up.\<close>

record transmit =
  tx_destination :: socket_addr
  tx_ecn :: "u8 option"
  tx_contents :: bytes
  tx_segment_size :: "nat option"
  tx_src_ip :: "bytes option"

datatype porch_out = ToWire transmit | ToGate gate_conn bytes | Wake waker

datatype io_error = WouldBlock | IoOther string | IoGate gate_error | SocketError nat

section \<open>Sources and keys\<close>

definition allow_source :: "socket_addr \<Rightarrow> porch \<Rightarrow> porch \<times> u64" where
  "allow_source addr p =
     (let lease = po_next_lease p in
      (p\<lparr>po_next_lease := lease + 1, po_sources := sources_allow lease (unmap_v4 addr) (po_sources p)\<rparr>, lease))"

definition forget_source :: "u64 \<Rightarrow> porch \<Rightarrow> porch" where
  "forget_source lease p = p\<lparr>po_sources := sources_forget lease (po_sources p)\<rparr>"

definition is_source_allowed :: "socket_addr \<Rightarrow> porch \<Rightarrow> bool" where
  "is_source_allowed addr p = sources_contain (po_sources p) (unmap_v4 addr)"

definition arm :: "porch \<Rightarrow> porch" where "arm p = p\<lparr>po_armed := True\<rparr>"

definition arm_probe_key :: "bytes \<Rightarrow> bytes \<Rightarrow> porch \<Rightarrow> porch" where
  "arm_probe_key attempt key p = p\<lparr>po_probe_keys := hm_insert attempt key (po_probe_keys p)\<rparr>"

definition disarm_probe_key :: "bytes \<Rightarrow> porch \<Rightarrow> porch" where
  "disarm_probe_key attempt p =
     p\<lparr>po_probe_keys := hm_remove attempt (po_probe_keys p), po_probes := hm_remove attempt (po_probes p)\<rparr>"

section \<open>Relay sessions and the gate\<close>

definition ensure_path :: "instant \<Rightarrow> socket_addr \<Rightarrow> porch \<Rightarrow> porch \<times> nat" where
  "ensure_path now synthetic p =
     (let (t, entry) = ensure_by_synthetic now synthetic (po_paths p) in (p\<lparr>po_paths := t\<rparr>, entry))"

definition spawn_relay_drain :: "gate_conn \<Rightarrow> nat \<Rightarrow> porch \<Rightarrow> porch" where
  "spawn_relay_drain gate entry p = p\<lparr>po_tasks := po_tasks p @ [(gate, entry)]\<rparr>"

definition register_relay_session :: "instant \<Rightarrow> u32 \<Rightarrow> socket_addr \<Rightarrow> porch \<Rightarrow> porch" where
  "register_relay_session now session synthetic p =
     (let (p, entry) = ensure_path now synthetic p;
          p = p\<lparr>po_by_synthetic := hm_insert synthetic session (po_by_synthetic p),
                po_by_session := hm_insert session synthetic (po_by_session p)\<rparr> in
      case po_gate p of
        None \<Rightarrow> p
      | Some gate \<Rightarrow>
          if synthetic \<in> po_drained p then p
          else spawn_relay_drain gate entry (p\<lparr>po_drained := insert synthetic (po_drained p)\<rparr>))"

definition attach_one :: "instant \<Rightarrow> gate_conn \<Rightarrow> socket_addr \<Rightarrow> porch \<Rightarrow> porch" where
  "attach_one now gate synthetic p =
     (let (p, entry) = ensure_path now synthetic p in
      if synthetic \<in> po_drained p then p
      else spawn_relay_drain gate entry (p\<lparr>po_drained := insert synthetic (po_drained p)\<rparr>))"

definition attach_gate :: "instant \<Rightarrow> gate_conn \<Rightarrow> porch \<Rightarrow> porch" where
  "attach_gate now gate p =
     (let (p, lease) = allow_source (snd gate) p;
          p = (arm p)\<lparr>po_gate := Some gate, po_gate_lease := Some lease\<rparr>;
          undrained = filter (\<lambda>synthetic. synthetic \<notin> po_drained p) (map fst (po_by_synthetic p)) in
      fold (attach_one now gate) undrained p)"

definition detach_gate :: "socket_addr \<Rightarrow> porch \<Rightarrow> porch" where
  "detach_gate gate_addr p =
     (if (case po_gate p of None \<Rightarrow> True | Some gate \<Rightarrow> snd gate \<noteq> gate_addr) then p
      else
        (let lease = po_gate_lease p;
             p = p\<lparr>po_gate := None, po_drained := {}, po_gate_lease := None\<rparr> in
         case lease of None \<Rightarrow> p | Some lease \<Rightarrow> forget_source lease p))"

definition insert_relay_path :: "instant \<Rightarrow> bytes \<Rightarrow> socket_addr \<Rightarrow> porch \<Rightarrow> porch" where
  "insert_relay_path now peer synthetic p =
     p\<lparr>po_paths := fst (insert_relay now peer synthetic (po_paths p))\<rparr>"

definition path_for :: "bytes \<Rightarrow> porch \<Rightarrow> nat option" where
  "path_for peer p = pt_get peer (po_paths p)"

definition path_by_synthetic :: "socket_addr \<Rightarrow> porch \<Rightarrow> nat option" where
  "path_by_synthetic synthetic p = get_by_synthetic synthetic (po_paths p)"

text \<open>A call of the queue of an entry.\<close>

definition on_egress :: "nat \<Rightarrow> (relay_shaper \<Rightarrow> relay_shaper \<times> 'r) \<Rightarrow> porch \<Rightarrow> porch \<times> 'r" where
  "on_egress entry f p =
     (let (sh, r) = f (pi_egress (pt_entries (po_paths p) ! entry)) in
      (p\<lparr>po_paths := (po_paths p)\<lparr>pt_entries :=
          (pt_entries (po_paths p))[entry := (pt_entries (po_paths p) ! entry)\<lparr>pi_egress := sh\<rparr>]\<rparr>\<rparr>, r))"

text \<open>
  One turn of a drain task. The number of sends that the gate connection takes is an argument;
  a task that returns leaves the list.
\<close>

definition drain_turn :: "instant \<Rightarrow> instant \<Rightarrow> nat \<Rightarrow> nat \<Rightarrow> porch \<Rightarrow> porch \<times> porch_out list" where
  "drain_turn refilled_at now task sends p =
     (if task \<ge> length (po_tasks p) then (p, [])
      else
        (let (gate, entry) = po_tasks p ! task;
             over = (\<lambda>p. p\<lparr>po_tasks := take task (po_tasks p) @ drop (Suc task) (po_tasks p)\<rparr>);
             (p, next) = on_egress entry (drain_pass refilled_at now) p in
         case next of
           Ready payloads wakers \<Rightarrow>
             if po_gate p = None then (over p, map Wake wakers)
             else if length payloads \<le> sends then (p, map Wake wakers @ map (ToGate gate) payloads)
             else (over p, map Wake wakers @ map (ToGate gate) (take sends payloads))
         | ClosedNext \<Rightarrow> (over p, [])
         | _ \<Rightarrow> (p, [])))"

section \<open>Probes\<close>

definition probe_for :: "crypto \<Rightarrow> (bytes \<times> bytes) list \<Rightarrow> bytes \<Rightarrow> probe option" where
  "probe_for K keys segment =
     (case List.map_filter (\<lambda>(id, key).
         (case probe_decode K key segment of
            None \<Rightarrow> None
          | Some p \<Rightarrow> if pr_attempt p = id then Some p else None)) keys of
        [] \<Rightarrow> None
      | p # _ \<Rightarrow> Some p)"

text \<open>One segment, and whether it was queued.\<close>

definition queue_probe :: "crypto \<Rightarrow> (bytes \<times> bytes) list \<Rightarrow> socket_addr \<Rightarrow> bytes \<Rightarrow> porch \<Rightarrow> porch \<times> bool" where
  "queue_probe K keys source segment p =
     (case probe_for K keys segment of
        None \<Rightarrow> (p\<lparr>po_probes_unauthenticated := po_probes_unauthenticated p + 1\<rparr>, False)
      | Some probe \<Rightarrow>
          (let queue = or_default [] (hm_get (po_probes p) (pr_attempt probe)) in
           if length queue \<ge> INBOUND_PROBE_QUEUE_CAP then
             (p\<lparr>po_probes := hm_insert (pr_attempt probe) queue (po_probes p),
                po_probes_dropped := po_probes_dropped p + 1\<rparr>, False)
           else
             (p\<lparr>po_probes := hm_insert (pr_attempt probe) (queue @ [(source, probe)]) (po_probes p)\<rparr>, True)))"

definition queue_next ::
    "crypto \<Rightarrow> (bytes \<times> bytes) list \<Rightarrow> socket_addr \<Rightarrow> bytes \<Rightarrow> porch \<times> bool \<Rightarrow> porch \<times> bool" where
  "queue_next K keys source segment = (\<lambda>(p, woke).
     (let (p, pushed) = queue_probe K keys source segment p in (p, woke \<or> pushed)))"

definition queue_probes :: "crypto \<Rightarrow> socket_addr \<Rightarrow> bytes list \<Rightarrow> porch \<Rightarrow> porch \<times> porch_out list" where
  "queue_probes K source segments p =
     (if po_probe_keys p = [] then
        (p\<lparr>po_probes_unauthenticated := po_probes_unauthenticated p + of_nat (length segments)\<rparr>, [])
      else
        (let (p, woke) = fold (queue_next K (po_probe_keys p) source) segments (p, False) in
         if \<not> woke then (p, [])
         else
           (case po_probe_waker p of
              None \<Rightarrow> (p, [])
            | Some w \<Rightarrow> (p\<lparr>po_probe_waker := None\<rparr>, [Wake w]))))"

definition try_recv_probe :: "bytes \<Rightarrow> porch \<Rightarrow> porch \<times> (socket_addr \<times> probe) option" where
  "try_recv_probe attempt p =
     (case hm_get (po_probes p) attempt of
        None \<Rightarrow> (p, None)
      | Some queue \<Rightarrow>
          (let rest = tl queue in
           (p\<lparr>po_probes := if rest = [] then hm_remove attempt (po_probes p)
                           else hm_insert attempt rest (po_probes p)\<rparr>,
            if queue = [] then None else Some (hd queue))))"

text \<open>One poll of the future that \<open>recv_probe\<close> waits on.\<close>

definition poll_probe :: "bytes \<Rightarrow> waker \<Rightarrow> porch \<Rightarrow> porch \<times> (socket_addr \<times> probe) option" where
  "poll_probe attempt waker p =
     (case try_recv_probe attempt p of
        (p, Some probe) \<Rightarrow> (p, Some probe)
      | (p, None) \<Rightarrow> try_recv_probe attempt (p\<lparr>po_probe_waker := Some waker\<rparr>))"

definition queued_probes :: "porch \<Rightarrow> nat" where
  "queued_probes p = sum_list (map (length \<circ> snd) (po_probes p))"

definition map_destination :: "socket_addr \<Rightarrow> porch \<Rightarrow> socket_addr" where
  "map_destination addr p =
     (case addr of
        V4 ip port \<Rightarrow> if po_local_is_ipv6 p then V6 (replicate 10 0 @ [0xFF, 0xFF] @ ip) port 0 0 else addr
      | _ \<Rightarrow> addr)"

definition send_probe_relayed ::
    "instant \<Rightarrow> u32 \<Rightarrow> socket_addr \<Rightarrow> bytes \<Rightarrow> porch \<Rightarrow> porch \<times> (io_error + unit)" where
  "send_probe_relayed now session synthetic probe p =
     (case encode_relay session probe of
        Inl e \<Rightarrow> (p, Inl (IoGate e))
      | Inr payload \<Rightarrow>
          (case path_by_synthetic synthetic p of
             None \<Rightarrow> (p, Inl (IoOther ''no path table entry for a registered relay session''))
           | Some entry \<Rightarrow>
               (let (p, r) = on_egress entry (try_enqueue_all now [payload]) p in
                (p, case r of
                      Accepted \<Rightarrow> Inr ()
                    | Full \<Rightarrow> Inl WouldBlock
                    | ClosedQueue \<Rightarrow> Inl (IoOther ''relay session closed'')))))"

text \<open>\<open>wire\<close> is what the system answers to the send.\<close>

definition send_probe ::
    "instant \<Rightarrow> (io_error + unit) \<Rightarrow> socket_addr \<Rightarrow> bytes \<Rightarrow> porch \<Rightarrow> (porch \<times> (io_error + unit)) \<times> porch_out list" where
  "send_probe now wire to probe p =
     (case hm_get (po_by_synthetic p) to of
        Some session \<Rightarrow> (send_probe_relayed now session to probe p, [])
      | None \<Rightarrow>
          ((p, wire),
           [ToWire \<lparr>tx_destination = map_destination to p, tx_ecn = None, tx_contents = probe,
                    tx_segment_size = None, tx_src_ip = None\<rparr>]))"

section \<open>Receiving\<close>

record recv_meta =
  rm_addr :: socket_addr
  rm_len :: nat
  rm_stride :: nat

definition slice :: "nat \<Rightarrow> nat \<Rightarrow> 'a list \<Rightarrow> 'a list" where
  "slice i j xs = take (j - i) (drop i xs)"

definition copy_within :: "nat \<Rightarrow> nat \<Rightarrow> nat \<Rightarrow> bytes \<Rightarrow> bytes" where
  "copy_within i j dest buf = take dest buf @ slice i j buf @ drop (dest + (j - i)) buf"

text \<open>
  The loop over the segments of one buffer. \<open>stride\<close> is not zero while there is something to
  read, which the function does not know: a loop that did not end would be \<open>None\<close>.
\<close>

partial_function (option) filter_loop ::
    "nat \<Rightarrow> nat \<Rightarrow> nat \<Rightarrow> nat \<Rightarrow> bytes \<Rightarrow> bytes list \<Rightarrow> (bytes \<times> nat \<times> bytes list) option" where
  "filter_loop stride len read write buf probes =
     (if read < len then
        (let end = min (read + stride) len; segment = slice read end buf in
         if is_probe segment then
           filter_loop stride len end write buf (probes @ [take PROBE_LEN segment])
         else
           filter_loop stride len end (write + (end - read))
             (if write \<noteq> read then copy_within read end write buf else buf) probes)
      else Some (buf, write, probes))"

definition filter_probes ::
    "crypto \<Rightarrow> bytes \<Rightarrow> recv_meta \<Rightarrow> porch \<Rightarrow> (porch \<times> bytes \<times> nat \<times> porch_out list) option" where
  "filter_probes K buf meta p =
     Option.bind (filter_loop (if rm_stride meta = 0 then rm_len meta else rm_stride meta)
         (min (rm_len meta) (length buf)) 0 0 buf []) (\<lambda>(buf, write, probes).
       if probes = [] then Some (p, buf, write, [])
       else
         (let (p, woken) = queue_probes K (unmap_v4 (rm_addr meta)) probes p in
          Some (p, buf, write, woken)))"

datatype source_verdict = Keep | Rewrite socket_addr | DropPacket

definition classify_source :: "socket_addr \<Rightarrow> porch \<Rightarrow> source_verdict" where
  "classify_source addr p =
     (let addr = unmap_v4 addr in
      if sources_contain (po_sources p) addr then Keep
      else
        (case synthetic_for_direct addr (po_paths p) of
           Some synthetic \<Rightarrow> Rewrite synthetic
         | None \<Rightarrow> if \<not> po_armed p then Keep else DropPacket))"

text \<open>One slot: the buffer and what its meta says. The flag says that it still carries something.\<close>

definition demultiplex_slot ::
    "crypto \<Rightarrow> bytes \<times> recv_meta \<Rightarrow> porch \<Rightarrow> (porch \<times> (bytes \<times> recv_meta) \<times> bool \<times> porch_out list) option" where
  "demultiplex_slot K slot p =
     (case slot of (buf, meta) \<Rightarrow>
      Option.bind (filter_probes K buf meta p) (\<lambda>(p, buf, kept, woken).
        Some (case (if kept = 0 then DropPacket else classify_source (rm_addr meta) p) of
          DropPacket \<Rightarrow>
            (if kept > 0 then p\<lparr>po_unknown_dropped := po_unknown_dropped p + 1\<rparr> else p,
             (buf, meta\<lparr>rm_len := 0\<rparr>), False, woken)
        | Keep \<Rightarrow> (p, (buf, meta\<lparr>rm_len := kept\<rparr>), True, woken)
        | Rewrite synthetic \<Rightarrow> (p, (buf, meta\<lparr>rm_len := kept, rm_addr := synthetic\<rparr>), True, woken))))"

fun demultiplex ::
    "crypto \<Rightarrow> (bytes \<times> recv_meta) list \<Rightarrow> porch \<Rightarrow> (porch \<times> (bytes \<times> recv_meta) list \<times> nat \<times> porch_out list) option" where
  "demultiplex K [] p = Some (p, [], 0, [])"
| "demultiplex K (slot # slots) p =
     Option.bind (demultiplex_slot K slot p) (\<lambda>(p, slot, carries, woken).
     Option.bind (demultiplex K slots p) (\<lambda>(p, slots, carrying, woken').
       Some (p, slot # slots, (if carries then Suc carrying else carrying), woken @ woken')))"

text \<open>
  The leading slots that the inbound queue fills; a payload longer than its buffer is cut. What
  stands in a buffer past the length of its slot is left over from earlier reads, and nobody
  looks at it.
\<close>

fun fill_slots :: "(socket_addr \<times> bytes) list \<Rightarrow> (bytes \<times> recv_meta) list \<Rightarrow> (bytes \<times> recv_meta) list" where
  "fill_slots ((addr, payload) # queue) ((buf, _) # slots) =
     (let n = min (length payload) (length buf) in
      (take n payload @ drop n buf, \<lparr>rm_addr = addr, rm_len = n, rm_stride = n\<rparr>) # fill_slots queue slots)"
| "fill_slots _ slots = slots"

definition drain_queue_into ::
    "(bytes \<times> recv_meta) list \<Rightarrow> nat \<Rightarrow> porch \<Rightarrow> porch \<times> (bytes \<times> recv_meta) list \<times> nat" where
  "drain_queue_into slots budget p =
     (let n = min budget (length (po_inbound p)) in
      (p\<lparr>po_inbound := drop n (po_inbound p)\<rparr>, fill_slots (take n (po_inbound p)) slots, n))"

text \<open>
  A call of \<open>poll_recv\<close>. What the system answers to the reads of the loop, in their order, is
  an argument: the slots it filled, that it would block, an error, or that the socket is not
  ready, which is also what follows the last answer of the list. The list is finite: the loop
  goes round only while the system has more datagrams and none of them is for quinn.
\<close>

datatype socket_read = ReadSlots "(bytes \<times> recv_meta) list" | ReadBlocks | ReadFails nat | NotReady

datatype 'r poll = Pending | Polled 'r

fun read_loop ::
    "crypto \<Rightarrow> bool \<Rightarrow> socket_read list \<Rightarrow> porch \<Rightarrow>
     (porch \<times> (io_error + (bytes \<times> recv_meta) list) option \<times> porch_out list) option" where
  "read_loop K served [] p = Some (p, None, [])"
| "read_loop K served (ReadSlots slots # reads) p =
     Option.bind (demultiplex K slots p) (\<lambda>(p, slots, carrying, woken).
       if carrying = 0 \<and> \<not> served then
         Option.bind (read_loop K served reads p) (\<lambda>(p, r, woken'). Some (p, r, woken @ woken'))
       else Some (p, Some (Inr slots), woken))"
| "read_loop K served (ReadBlocks # reads) p =
     (if \<not> served then read_loop K served reads p else Some (p, None, []))"
| "read_loop K served (ReadFails e # reads) p = Some (p, Some (Inl (SocketError e)), [])"
| "read_loop K served (NotReady # reads) p = Some (p, None, [])"

definition poll_recv ::
    "crypto \<Rightarrow> waker \<Rightarrow> (bytes \<times> recv_meta) list \<Rightarrow> socket_read list \<Rightarrow> porch \<Rightarrow>
     (porch \<times> (io_error + (bytes \<times> recv_meta) list) poll \<times> porch_out list) option" where
  "poll_recv K waker slots reads p =
     (if slots = [] then Some (p, Polled (Inr []), [])
      else
        (let p = p\<lparr>po_waker := Some waker\<rparr>;
             many = length slots > 1;
             queue_first = (many \<or> \<not> po_prefer_socket p);
             p = (if many then p else p\<lparr>po_prefer_socket := \<not> po_prefer_socket p\<rparr>);
             budget = (if queue_first then if many then length slots - 1 else 1 else 0);
             (p, slots, filled) = drain_queue_into slots budget p in
         if filled = length slots then Some (p, Polled (Inr slots), [])
         else
           Option.bind (read_loop K (filled > 0) reads p) (\<lambda>(p, r, woken).
             case r of
               Some (Inr got) \<Rightarrow> Some (p, Polled (Inr (take filled slots @ got)), woken)
             | Some (Inl e) \<Rightarrow>
                 Some (p, Polled (if filled > 0 then Inr (take filled slots) else Inl e), woken)
             | None \<Rightarrow>
                 if filled > 0 then Some (p, Polled (Inr (take filled slots)), woken)
                 else if budget = 0 then
                   (let (p, slots, filled) = drain_queue_into slots 1 p in
                    Some (p, if filled > 0 then Polled (Inr (take filled slots)) else Pending, woken))
                 else Some (p, Pending, woken))))"

definition deliver_synthetic :: "crypto \<Rightarrow> u32 \<Rightarrow> bytes \<Rightarrow> porch \<Rightarrow> porch \<times> porch_out list" where
  "deliver_synthetic K session payload p =
     (case hm_get (po_by_session p) session of
        None \<Rightarrow> (p, [])
      | Some addr \<Rightarrow>
          if is_probe payload then queue_probes K addr [take PROBE_LEN payload] p
          else if length (po_inbound p) \<ge> INBOUND_RELAY_QUEUE_CAP then
            (p\<lparr>po_relay_dropped := po_relay_dropped p + 1\<rparr>, [])
          else
            (let p = p\<lparr>po_inbound := po_inbound p @ [(addr, payload)]\<rparr> in
             case po_waker p of
               None \<Rightarrow> (p, [])
             | Some w \<Rightarrow> (p\<lparr>po_waker := None\<rparr>, [Wake w])))"

text \<open>The task that reads the gate connection: a datagram, or the end of the connection.\<close>

definition gate_datagram :: "crypto \<Rightarrow> bytes \<Rightarrow> porch \<Rightarrow> porch \<times> porch_out list" where
  "gate_datagram K datagram p =
     (case decode_relay datagram of
        Inl _ \<Rightarrow> (p, [])
      | Inr (session, payload) \<Rightarrow> deliver_synthetic K session payload p)"

section \<open>Sending\<close>

text \<open>A task without an identity, outside the runtime, is \<open>None\<close>.\<close>

definition note_relay_intent :: "nat option \<Rightarrow> socket_addr option \<Rightarrow> porch \<Rightarrow> porch" where
  "note_relay_intent task destination p =
     (case task of
        None \<Rightarrow> p
      | Some task \<Rightarrow>
          (case destination of
             Some d \<Rightarrow> p\<lparr>po_intent := hm_insert task d (po_intent p)\<rparr>
           | None \<Rightarrow> p\<lparr>po_intent := hm_remove task (po_intent p)\<rparr>))"

definition take_relay_intent :: "nat option \<Rightarrow> porch \<Rightarrow> porch \<times> socket_addr option" where
  "take_relay_intent task p =
     (case task of
        None \<Rightarrow> (p, None)
      | Some task \<Rightarrow> (p\<lparr>po_intent := hm_remove task (po_intent p)\<rparr>, hm_get (po_intent p) task))"

text \<open>\<open>chunks\<close> of the standard library; its argument is not zero.\<close>

function chunks :: "nat \<Rightarrow> 'a list \<Rightarrow> 'a list list" where
  "chunks n xs = (if xs = [] \<or> n = 0 then [] else take n xs # chunks n (drop n xs))"
  by auto
termination by (relation "measure (\<lambda>(_, xs). length xs)") auto

declare chunks.simps [simp del]

fun encode_all :: "u32 \<Rightarrow> bytes list \<Rightarrow> gate_error + bytes list" where
  "encode_all session [] = Inr []"
| "encode_all session (x # xs) =
     and_then (encode_relay session x) (\<lambda>y. and_then (encode_all session xs) (\<lambda>ys. Inr (y # ys)))"

definition try_send ::
    "instant \<Rightarrow> nat option \<Rightarrow> (io_error + unit) \<Rightarrow> transmit \<Rightarrow> porch \<Rightarrow> (porch \<times> (io_error + unit)) \<times> porch_out list" where
  "try_send now task wire transmit p =
     (let destination = tx_destination transmit;
          entry = path_by_synthetic destination p in
      case Option.bind entry (entry_direct (po_paths p)) of
        Some direct \<Rightarrow>
          ((note_relay_intent task None p, wire),
           [ToWire (transmit\<lparr>tx_destination := map_destination direct p\<rparr>)])
      | None \<Rightarrow>
          (case hm_get (po_by_synthetic p) destination of
             None \<Rightarrow> ((note_relay_intent task None p, wire), [ToWire transmit])
           | Some session \<Rightarrow>
               if po_gate p = None then
                 ((p, Inl (IoOther ''no gate connection attached to relay through'')), [])
               else
                 (let segment_size = or_default (length (tx_contents transmit)) (tx_segment_size transmit) in
                  if segment_size = 0 then ((p, Inr ()), [])
                  else
                    (case encode_all session (chunks segment_size (tx_contents transmit)) of
                       Inl e \<Rightarrow> ((p, Inl (IoGate e)), [])
                     | Inr payloads \<Rightarrow>
                         (let p = note_relay_intent task (Some destination) p in
                          case entry of
                            None \<Rightarrow>
                              ((p, Inl (IoOther ''no path table entry for a registered relay session'')), [])
                          | Some entry \<Rightarrow>
                              (let (p, r) = on_egress entry (try_enqueue_all now payloads) p in
                               ((p, case r of
                                      Accepted \<Rightarrow> Inr ()
                                    | Full \<Rightarrow> Inl WouldBlock
                                    | ClosedQueue \<Rightarrow> Inl (IoOther ''relay session closed'')), [])))))))"

text \<open>
  A poller keeps the destination that it adopted. False is \<open>Pending\<close>; otherwise the poller goes
  on to the socket's own readiness.
\<close>

definition poll_writable ::
    "nat option \<Rightarrow> waker \<Rightarrow> nat \<Rightarrow> socket_addr option \<Rightarrow> porch \<Rightarrow> porch \<times> socket_addr option \<times> bool" where
  "poll_writable task waker max_transmit_segments adopted p =
     (let (p, intent) = take_relay_intent task p;
          adopted = (case intent of None \<Rightarrow> adopted | Some d \<Rightarrow> Some d) in
      case Option.bind adopted (\<lambda>d. path_by_synthetic d p) of
        None \<Rightarrow> (p, adopted, True)
      | Some entry \<Rightarrow>
          if entry_direct (po_paths p) entry \<noteq> None then (p, adopted, True)
          else
            (let (p, room) = on_egress entry (poll_room (max max_transmit_segments 1) waker) p in
             (p, adopted, room)))"

section \<open>Calls in sequence\<close>

text \<open>
  Every method that changes the state, by the name of the method; the tasks that the socket
  starts (the reader of the gate connection, the drain tasks) make calls like everybody else.
\<close>

datatype porch_call =
    AllowSource socket_addr | ForgetSource u64 | Arm
  | ArmProbeKey bytes bytes | DisarmProbeKey bytes
  | RegisterSession instant u32 socket_addr
  | AttachGate instant gate_conn | DetachGate socket_addr
  | InsertRelayPath instant bytes socket_addr | OnPath nat path_call
  | DrainTurn instant instant nat nat
  | TryRecvProbe bytes | PollProbe bytes waker
  | SendProbe instant "io_error + unit" socket_addr bytes
  | GateDatagram bytes
  | PollRecv waker "(bytes \<times> recv_meta) list" "socket_read list"
  | TrySend instant "nat option" "io_error + unit" transmit
  | PollWritable "nat option" waker nat "socket_addr option"

fun porch_step :: "crypto \<Rightarrow> porch_call \<Rightarrow> porch \<Rightarrow> (porch \<times> porch_out list) option" where
  "porch_step K (AllowSource addr) p = Some (fst (allow_source addr p), [])"
| "porch_step K (ForgetSource lease) p = Some (forget_source lease p, [])"
| "porch_step K Arm p = Some (arm p, [])"
| "porch_step K (ArmProbeKey att key) p = Some (arm_probe_key att key p, [])"
| "porch_step K (DisarmProbeKey att) p = Some (disarm_probe_key att p, [])"
| "porch_step K (RegisterSession now session synthetic) p = Some (register_relay_session now session synthetic p, [])"
| "porch_step K (AttachGate now gate) p = Some (attach_gate now gate p, [])"
| "porch_step K (DetachGate addr) p = Some (detach_gate addr p, [])"
| "porch_step K (InsertRelayPath now peer synthetic) p = Some (insert_relay_path now peer synthetic p, [])"
| "porch_step K (OnPath entry c) p = Some (p\<lparr>po_paths := table_step (OnEntry entry c) (po_paths p)\<rparr>, [])"
| "porch_step K (DrainTurn refilled_at now task sends) p = Some (drain_turn refilled_at now task sends p)"
| "porch_step K (TryRecvProbe att) p = Some (fst (try_recv_probe att p), [])"
| "porch_step K (PollProbe att waker) p = Some (fst (poll_probe att waker p), [])"
| "porch_step K (SendProbe now wire addr probe) p =
     (case send_probe now wire addr probe p of ((p, _), outs) \<Rightarrow> Some (p, outs))"
| "porch_step K (GateDatagram datagram) p = Some (gate_datagram K datagram p)"
| "porch_step K (PollRecv waker slots reads) p =
     map_option (\<lambda>(p, _, outs). (p, outs)) (poll_recv K waker slots reads p)"
| "porch_step K (TrySend now task wire tx) p =
     (case try_send now task wire tx p of ((p, _), outs) \<Rightarrow> Some (p, outs))"
| "porch_step K (PollWritable task waker n adopted) p = Some (fst (poll_writable task waker n adopted p), [])"

fun porch_run :: "crypto \<Rightarrow> porch_call list \<Rightarrow> porch \<Rightarrow> (porch \<times> porch_out list) option" where
  "porch_run K [] p = Some (p, [])"
| "porch_run K (c # cs) p =
     Option.bind (porch_step K c p) (\<lambda>(p, outs).
     Option.bind (porch_run K cs p) (\<lambda>(p, outs'). Some (p, outs @ outs')))"

end
