(* ===== verification/Porch_Laws.thy ===== *)
theory Porch_Laws
  imports Porch
begin

text \<open>The invariants of the porch socket, and what its loops compute.\<close>

section \<open>Sources\<close>

text \<open>A reference count is the number of times the address stands in the sets of live leases.\<close>

definition refs :: "(u64, socket_addr list) hashmap \<Rightarrow> socket_addr \<Rightarrow> nat" where
  "refs m addr = sum_list (map (\<lambda>(_, l). count_list l addr) m)"

definition sources_ok :: "allowed_sources \<Rightarrow> bool" where
  "sources_ok a \<longleftrightarrow> hm_wf (as_by_lease a) \<and>
     (\<forall>addr. hm_get (as_refcounts a) addr =
        (if refs (as_by_lease a) addr = 0 then None else Some (refs (as_by_lease a) addr)))"

lemma refs_insert:
  "hm_wf m \<Longrightarrow> refs (hm_insert k l m) addr + count_list (or_default [] (hm_get m k)) addr = refs m addr + count_list l addr"
proof (induction m)
  case (Cons x m)
  then show ?case by (cases x) (auto simp: refs_def or_default_def hm_wf_def)
qed (simp add: refs_def or_default_def)

lemma refs_remove:
  "hm_wf m \<Longrightarrow> refs (hm_remove k m) addr + count_list (or_default [] (hm_get m k)) addr = refs m addr"
proof (induction m)
  case (Cons x m)
  obtain k' l where x: "x = (k', l)" by (cases x)
  have "k \<notin> fst ` set m \<Longrightarrow> hm_remove k m = m" by (auto simp: AList.delete_eq filter_id_conv image_iff)
  then show ?case
    using Cons by (auto simp: refs_def or_default_def hm_wf_def x map_of_eq_None_iff)
qed (simp add: refs_def or_default_def)

lemma count_list_append_one: "count_list (l @ [a]) b = count_list l b + (if a = b then 1 else 0)"
  by simp

lemma sources_allow_ok:
  assumes "sources_ok a"
  shows "sources_ok (sources_allow lease addr a)"
proof -
  have "refs (as_by_lease (sources_allow lease addr a)) b = refs (as_by_lease a) b + (if addr = b then 1 else 0)" for b
    using refs_insert [of "as_by_lease a" lease "or_default [] (hm_get (as_by_lease a) lease) @ [addr]" b] assms
    by (simp add: sources_allow_def sources_ok_def)
  then show ?thesis
    using assms by (auto simp: sources_ok_def sources_allow_def hm_get_insert or_default_def)
qed

lemma drop_ref_get:
  "hm_get (drop_ref addr m) b =
     (if b = addr then (case hm_get m addr of None \<Rightarrow> None | Some n \<Rightarrow> if n - 1 = 0 then None else Some (n - 1))
      else hm_get m b)"
  by (auto simp: drop_ref_def hm_get_insert hm_get_remove split: option.split)

lemma drop_refs_get:
  assumes "\<forall>b. hm_get m b = (if f b = 0 then None else Some (f b))" and "\<forall>b. count_list l b \<le> f b"
  shows "hm_get (fold drop_ref l m) b = (if f b - count_list l b = 0 then None else Some (f b - count_list l b))"
  using assms
proof (induction l arbitrary: m f)
  case (Cons x l)
  let ?f = "\<lambda>b. if b = x then f b - 1 else f b"
  have "\<forall>b. hm_get (drop_ref x m) b = (if ?f b = 0 then None else Some (?f b))"
    using Cons.prems(1) by (auto simp: drop_ref_get)
  moreover have "\<forall>b. count_list l b \<le> ?f b"
    using Cons.prems(2) by (fastforce split: if_splits)
  ultimately have "hm_get (fold drop_ref l (drop_ref x m)) b =
      (if ?f b - count_list l b = 0 then None else Some (?f b - count_list l b))" by (rule Cons.IH)
  then show ?case by (auto split: if_splits)
qed simp

lemma sources_forget_ok:
  assumes "sources_ok a"
  shows "sources_ok (sources_forget lease a)"
proof (cases "hm_get (as_by_lease a) lease")
  case None
  then show ?thesis using assms by (simp add: sources_forget_def)
next
  case (Some l)
  have wf: "hm_wf (as_by_lease a)" using assms by (simp add: sources_ok_def)
  have r: "refs (hm_remove lease (as_by_lease a)) b + count_list l b = refs (as_by_lease a) b" for b
    using refs_remove [OF wf, of lease b] by (simp add: Some or_default_def)
  then have "\<forall>b. count_list l b \<le> refs (as_by_lease a) b" by (metis le_add2)
  with assms have "hm_get (fold drop_ref l (as_refcounts a)) b =
      (if refs (as_by_lease a) b - count_list l b = 0 then None else Some (refs (as_by_lease a) b - count_list l b))" for b
    by (intro drop_refs_get) (simp_all add: sources_ok_def)
  moreover have "refs (as_by_lease a) b - count_list l b = refs (hm_remove lease (as_by_lease a)) b" for b
    using r [of b] by simp
  ultimately show ?thesis using wf by (simp add: sources_forget_def Some sources_ok_def)
qed

lemma refs_zero: "hm_wf m \<Longrightarrow> refs m addr = 0 \<longleftrightarrow> (\<forall>lease l. hm_get m lease = Some l \<longrightarrow> addr \<notin> set l)"
  by (auto simp: refs_def hm_get_iff_mem count_list_0_iff)

lemma sources_contain_iff:
  assumes "sources_ok a"
  shows "sources_contain a addr \<longleftrightarrow> (\<exists>lease l. hm_get (as_by_lease a) lease = Some l \<and> addr \<in> set l)"
  using assms refs_zero [of "as_by_lease a" addr] by (auto simp: sources_contain_def sources_ok_def)

section \<open>The split of a buffer\<close>

lemma chunks_nil [simp]: "chunks n [] = []"
  by (simp add: chunks.simps)

lemma chunks_cons: "xs \<noteq> [] \<Longrightarrow> 0 < n \<Longrightarrow> chunks n xs = take n xs # chunks n (drop n xs)"
  using chunks.simps [of n xs] by simp

lemma concat_chunks: "0 < n \<Longrightarrow> concat (chunks n xs) = xs"
proof (induction n xs rule: chunks.induct)
  case (1 n xs)
  then show ?case by (cases "xs = []") (simp_all add: chunks_cons)
qed

lemma chunks_length: "x \<in> set (chunks n xs) \<Longrightarrow> x \<noteq> [] \<and> length x \<le> n"
proof (induction n xs rule: chunks.induct)
  case (1 n xs)
  then show ?case by (cases "xs = [] \<or> n = 0") (auto simp: chunks.simps [of n xs])
qed

lemma copy_within_take:
  assumes "write \<le> i" and "i \<le> j" and "j \<le> length buf"
  shows "take (write + (j - i)) (copy_within i j write buf) = take write buf @ slice i j buf"
    "drop j (copy_within i j write buf) = drop j buf" "length (copy_within i j write buf) = length buf"
  using assms by (simp_all add: copy_within_def slice_def min_absorb2)

text \<open>
  From any point of the loop on: what is written is what was written before and the segments
  of the rest that are no probes, and the probes are the others.
\<close>

lemma filter_loop_spec:
  assumes "write \<le> read" and "read \<le> len" and "len \<le> length buf" and "0 < stride"
  shows "\<exists>buf'. filter_loop stride len read write buf probes =
      Some (buf', write + length (concat (filter (\<lambda>s. \<not> is_probe s) (chunks stride (slice read len buf)))),
        probes @ filter is_probe (chunks stride (slice read len buf))) \<and>
    length buf' = length buf \<and> drop len buf' = drop len buf \<and>
    take (write + length (concat (filter (\<lambda>s. \<not> is_probe s) (chunks stride (slice read len buf))))) buf' =
      take write buf @ concat (filter (\<lambda>s. \<not> is_probe s) (chunks stride (slice read len buf)))"
  using assms
proof (induction "len - read" arbitrary: read "write" buf probes rule: less_induct)
  case less
  show ?case
  proof (cases "read < len")
    case False
    then have "slice read len buf = []" using less.prems by (simp add: slice_def)
    then show ?thesis using False by (simp add: filter_loop.simps)
  next
    case True
    define j where "j = min (read + stride) len"
    have j: "read < j" "j \<le> len" using True less.prems by (auto simp: j_def)
    have rest: "slice read len buf \<noteq> []" using True less.prems by (simp add: slice_def)
    have seg: "slice read j buf = take stride (slice read len buf)"
      using True by (cases "read + stride \<le> len") (simp_all add: slice_def j_def)
    have tail: "slice j len buf = drop stride (slice read len buf)"
      using less.prems True
      by (cases "read + stride \<le> len") (auto simp: slice_def j_def drop_take add.commute)
    have ch: "chunks stride (slice read len buf) = slice read j buf # chunks stride (slice j len buf)"
      unfolding seg tail using rest less.prems(4) by (rule chunks_cons)
    show ?thesis
    proof (cases "is_probe (slice read j buf)")
      case True
      have "take PROBE_LEN (slice read j buf) = slice read j buf" using True by (simp add: is_probe_def)
      then have "filter_loop stride len read write buf probes =
          filter_loop stride len j write buf (probes @ [slice read j buf])"
        using \<open>read < len\<close> True by (subst filter_loop.simps) (simp add: Let_def j_def [symmetric])
      moreover have "len - j < len - read" using j by simp
      note ih = less.hyps [OF this _ j(2) less.prems(3,4), of "write" "probes @ [slice read j buf]"]
      ultimately show ?thesis using ih less.prems(1) j(1) True unfolding ch by simp
    next
      case False
      let ?buf = "if write \<noteq> read then copy_within read j write buf else buf"
      have step: "filter_loop stride len read write buf probes = filter_loop stride len j (write + (j - read)) ?buf probes"
        using \<open>read < len\<close> False by (subst filter_loop.simps) (simp add: Let_def j_def [symmetric])
      have c: "take (write + (j - read)) ?buf = take write buf @ slice read j buf" "drop j ?buf = drop j buf"
        "length ?buf = length buf"
        using copy_within_take [of "write" read j buf] less.prems j
        by (auto simp: slice_def take_add [symmetric])
      have sl: "slice j len ?buf = slice j len buf" using c(2) by (simp only: slice_def)
      have n: "length (slice read j buf) = j - read" using j less.prems by (simp add: slice_def)
      have "len - j < len - read" "write + (j - read) \<le> j" "len \<le> length ?buf" using j less.prems c(3) by simp_all
      from less.hyps [OF this(1,2) j(2) this(3) less.prems(4), of probes, unfolded sl c(1,3)]
      obtain buf' where ih: "filter_loop stride len j (write + (j - read)) ?buf probes = Some (buf',
          write + (j - read) + length (concat (filter (\<lambda>s. \<not> is_probe s) (chunks stride (slice j len buf)))),
          probes @ filter is_probe (chunks stride (slice j len buf)))"
        "length buf' = length buf" "drop len buf' = drop len ?buf"
        "take (write + (j - read) + length (concat (filter (\<lambda>s. \<not> is_probe s) (chunks stride (slice j len buf))))) buf' =
          (take write buf @ slice read j buf) @ concat (filter (\<lambda>s. \<not> is_probe s) (chunks stride (slice j len buf)))"
        by blast
      have "drop len ?buf = drop len buf"
        using c(2) j(2) by (metis drop_drop le_add_diff_inverse2)
      then show ?thesis
        unfolding step ch using ih False n by (intro exI [of _ buf']) (simp add: add.assoc)
    qed
  qed
qed

lemma filter_probes_total:
  "\<exists>p' buf' kept woken. filter_probes K buf meta p = Some (p', buf', kept, woken)"
proof -
  let ?len = "min (rm_len meta) (length buf)" and ?stride = "if rm_stride meta = 0 then rm_len meta else rm_stride meta"
  have "\<exists>r. filter_loop ?stride ?len 0 0 buf [] = Some r"
  proof (cases "?stride = 0")
    case True
    then have "?len = 0" by (auto split: if_splits)
    then show ?thesis by (subst filter_loop.simps) simp
  next
    case False
    then have "0 < ?stride" by (simp only: neq0_conv)
    from filter_loop_spec [OF order_refl le0 min.cobounded2 this, of "rm_len meta" buf "[]"] show ?thesis by blast
  qed
  then obtain buf' kept probes where "filter_loop ?stride ?len 0 0 buf [] = Some (buf', kept, probes)" by auto
  then show ?thesis by (simp add: filter_probes_def split: prod.split)
qed

section \<open>The state of a run\<close>

definition probes_ok :: "(bytes, bytes) hashmap \<Rightarrow> (bytes, (socket_addr \<times> probe) list) hashmap \<Rightarrow> bool" where
  "probes_ok keys probes \<longleftrightarrow>
     hm_wf keys \<and> hm_wf probes \<and> fst ` set probes \<subseteq> fst ` set keys \<and>
     (\<forall>att queue. hm_get probes att = Some queue \<longrightarrow>
        length queue \<le> INBOUND_PROBE_QUEUE_CAP \<and> (\<forall>(_, probe) \<in> set queue. pr_attempt probe = att))"

text \<open>Every route has a path, and while a gate is attached a drain task was started for it.\<close>

definition routes_known :: "(socket_addr, u32) hashmap \<Rightarrow> path_table \<Rightarrow> bool" where
  "routes_known routes paths \<longleftrightarrow> (\<forall>synthetic \<in> fst ` set routes. get_by_synthetic synthetic paths \<noteq> None)"

definition routes_drained :: "gate_conn option \<Rightarrow> socket_addr set \<Rightarrow> (socket_addr, u32) hashmap \<Rightarrow> bool" where
  "routes_drained gate drained routes \<longleftrightarrow> (if gate = None then drained = {} else fst ` set routes \<subseteq> drained)"

definition porch_base :: "porch \<Rightarrow> bool" where
  "porch_base p \<longleftrightarrow>
     sources_ok (po_sources p) \<and> probes_ok (po_probe_keys p) (po_probes p) \<and>
     length (po_inbound p) \<le> INBOUND_RELAY_QUEUE_CAP \<and>
     routes_known (po_by_synthetic p) (po_paths p) \<and> pt_wf (po_paths p) \<and>
     (po_gate p \<noteq> None \<longrightarrow> po_armed p)"

definition porch_ok :: "porch \<Rightarrow> bool" where
  "porch_ok p \<longleftrightarrow> porch_base p \<and> routes_drained (po_gate p) (po_drained p) (po_by_synthetic p)"

lemma probes_okI:
  "hm_wf keys \<Longrightarrow> hm_wf probes \<Longrightarrow> fst ` set probes \<subseteq> fst ` set keys \<Longrightarrow>
   (\<And>att queue. hm_get probes att = Some queue \<Longrightarrow>
      length queue \<le> INBOUND_PROBE_QUEUE_CAP \<and> (\<forall>(_, probe) \<in> set queue. pr_attempt probe = att)) \<Longrightarrow>
   probes_ok keys probes"
  by (simp add: probes_ok_def)

lemma keys_insert: "fst ` set (hm_insert k v m) = insert k (fst ` set m)"
  by (simp add: dom_update)

lemma keys_remove: "fst ` set (hm_remove k m) = fst ` set m - {k}"
  by (auto simp: AList.delete_eq image_iff)

lemma probes_ok_insert:
  assumes "probes_ok keys probes" and "att \<in> fst ` set keys" and "length queue \<le> INBOUND_PROBE_QUEUE_CAP"
    and "\<forall>(_, probe) \<in> set queue. pr_attempt probe = att"
  shows "probes_ok keys (hm_insert att queue probes)"
  using assms unfolding probes_ok_def keys_insert by (auto simp: hm_get_insert split: if_splits)

lemma probes_ok_remove:
  assumes "probes_ok keys probes"
  shows "probes_ok keys (hm_remove att probes)" "probes_ok (hm_remove att keys) (hm_remove att probes)"
  using assms unfolding probes_ok_def keys_remove by (auto simp: hm_get_remove split: if_splits)

lemma probe_for_attempt: "probe_for K keys segment = Some probe \<Longrightarrow> pr_attempt probe \<in> fst ` set keys"
proof -
  assume "probe_for K keys segment = Some probe"
  then have "probe \<in> set (List.map_filter (\<lambda>(id, key).
         (case probe_decode K key segment of
            None \<Rightarrow> None
          | Some p \<Rightarrow> if pr_attempt p = id then Some p else None)) keys)"
    by (auto simp: probe_for_def split: list.splits)
  then show ?thesis by (force simp: List.map_filter_def split: option.splits if_splits)
qed

text \<open>What the probe calls leave alone.\<close>

definition probe_frame :: "porch \<Rightarrow> porch \<Rightarrow> bool" where
  "probe_frame p p' \<longleftrightarrow>
     p'\<lparr>po_probes := po_probes p, po_probes_unauthenticated := po_probes_unauthenticated p,
        po_probes_dropped := po_probes_dropped p, po_probe_waker := po_probe_waker p\<rparr> = p \<and>
     (probes_ok (po_probe_keys p) (po_probes p) \<longrightarrow> probes_ok (po_probe_keys p) (po_probes p'))"

lemma probe_frame_refl [simp]: "probe_frame p p"
  by (simp add: probe_frame_def)

lemma probe_frame_fields:
  assumes "probe_frame p p'"
  shows "po_sources p' = po_sources p" "po_probe_keys p' = po_probe_keys p" "po_inbound p' = po_inbound p"
    "po_gate p' = po_gate p" "po_drained p' = po_drained p" "po_by_synthetic p' = po_by_synthetic p"
    "po_by_session p' = po_by_session p" "po_paths p' = po_paths p" "po_armed p' = po_armed p"
    "po_unknown_dropped p' = po_unknown_dropped p"
proof -
  have eq: "p'\<lparr>po_probes := po_probes p, po_probes_unauthenticated := po_probes_unauthenticated p,
        po_probes_dropped := po_probes_dropped p, po_probe_waker := po_probe_waker p\<rparr> = p"
    using assms by (simp add: probe_frame_def)
  show "po_sources p' = po_sources p" "po_probe_keys p' = po_probe_keys p" "po_inbound p' = po_inbound p"
    "po_gate p' = po_gate p" "po_drained p' = po_drained p" "po_by_synthetic p' = po_by_synthetic p"
    "po_by_session p' = po_by_session p" "po_paths p' = po_paths p" "po_armed p' = po_armed p"
    "po_unknown_dropped p' = po_unknown_dropped p"
    using arg_cong [OF eq, of po_sources] arg_cong [OF eq, of po_probe_keys] arg_cong [OF eq, of po_inbound]
      arg_cong [OF eq, of po_gate] arg_cong [OF eq, of po_drained] arg_cong [OF eq, of po_by_synthetic]
      arg_cong [OF eq, of po_by_session] arg_cong [OF eq, of po_paths] arg_cong [OF eq, of po_armed]
      arg_cong [OF eq, of po_unknown_dropped] by simp_all
qed

lemma probe_frame_trans:
  assumes a: "probe_frame p p'" and b: "probe_frame p' p''"
  shows "probe_frame p p''"
proof -
  let ?put = "\<lambda>p' p :: porch. p'\<lparr>po_probes := po_probes p, po_probes_unauthenticated := po_probes_unauthenticated p,
        po_probes_dropped := po_probes_dropped p, po_probe_waker := po_probe_waker p\<rparr>"
  have "?put p'' p' = p'" "?put p' p = p" using a b by (simp_all add: probe_frame_def)
  moreover have "?put (?put p'' p') p = ?put p'' p" by simp
  ultimately have "?put p'' p = p" by simp
  then show ?thesis using a b probe_frame_fields(2) [OF a] by (simp add: probe_frame_def)
qed

lemma queue_probe_frame:
  assumes "keys = po_probe_keys p"
  shows "probe_frame p (fst (queue_probe K keys source segment p))"
proof (cases "probe_for K keys segment")
  case None
  then show ?thesis by (simp add: queue_probe_def probe_frame_def)
next
  case (Some probe)
  define queue where "queue = or_default [] (hm_get (po_probes p) (pr_attempt probe))"
  have att: "pr_attempt probe \<in> fst ` set (po_probe_keys p)" using probe_for_attempt [OF Some] assms by simp
  have old: "length queue \<le> INBOUND_PROBE_QUEUE_CAP \<and> (\<forall>(_, x) \<in> set queue. pr_attempt x = pr_attempt probe)"
    if "probes_ok (po_probe_keys p) (po_probes p)"
    using that unfolding probes_ok_def queue_def or_default_def
    by (cases "hm_get (po_probes p) (pr_attempt probe)") auto
  have ok: "probes_ok (po_probe_keys p) (hm_insert (pr_attempt probe) queue (po_probes p))"
    "length queue < INBOUND_PROBE_QUEUE_CAP \<Longrightarrow>
      probes_ok (po_probe_keys p) (hm_insert (pr_attempt probe) (queue @ [(source, probe)]) (po_probes p))"
    if "probes_ok (po_probe_keys p) (po_probes p)"
    using old [OF that] by (intro probes_ok_insert [OF that att]; auto)+
  show ?thesis
    using ok Some by (simp add: queue_probe_def queue_def [symmetric] Let_def probe_frame_def)
qed

lemma queue_probes_frame: "probe_frame p (fst (queue_probes K source segments p))"
proof (cases "po_probe_keys p = []")
  case True
  then show ?thesis by (simp add: queue_probes_def probe_frame_def)
next
  case False
  let ?f = "queue_next K (po_probe_keys p) source"
  have "probe_frame p (fst (fold ?f segments (q, woke)))" if "probe_frame p q" for q woke
    using that
  proof (induction segments arbitrary: q woke)
    case (Cons segment segments)
    have "probe_frame p (fst (queue_probe K (po_probe_keys p) source segment q))"
      using probe_frame_trans [OF Cons.prems queue_probe_frame] probe_frame_fields(2) [OF Cons.prems] by simp
    then show ?case
      using Cons.IH by (cases "queue_probe K (po_probe_keys p) source segment q") (simp add: queue_next_def)
  qed simp
  from this [OF probe_frame_refl, of False] obtain q woke where fold: "fold ?f segments (p, False) = (q, woke)"
    and q: "probe_frame p q" by (cases "fold ?f segments (p, False)") simp
  have "probe_frame q (q\<lparr>po_probe_waker := None\<rparr>)" by (simp add: probe_frame_def)
  then show ?thesis
    using False q probe_frame_trans [OF q] by (simp add: queue_probes_def fold split: option.split)
qed

subsection \<open>Every call keeps the invariant\<close>

lemma porch_ok_new: "porch_ok (porch_new v6)"
  by (simp add: porch_ok_def porch_base_def porch_new_def sources_ok_def sources_empty_def refs_def probes_ok_def
      routes_known_def routes_drained_def path_table_new_def pt_wf_def)

lemma porch_ok_frame: "probe_frame p p' \<Longrightarrow> porch_ok p \<Longrightarrow> porch_ok p'"
  using probe_frame_fields [of p p'] by (simp add: porch_ok_def porch_base_def probe_frame_def)

lemma porch_ok_cong:
  assumes "porch_ok p" and "po_sources p' = po_sources p" "po_probe_keys p' = po_probe_keys p" "po_probes p' = po_probes p"
    "po_inbound p' = po_inbound p" "po_gate p' = po_gate p" "po_drained p' = po_drained p"
    "po_by_synthetic p' = po_by_synthetic p" "po_paths p' = po_paths p" "po_armed p' = po_armed p"
  shows "porch_ok p'"
  using assms by (simp add: porch_ok_def porch_base_def)

text \<open>The path table of a socket only grows, and its entries keep their place.\<close>

lemma ensure_path_base:
  assumes "porch_base p" and "ensure_path now synthetic p = (p', entry)"
  shows "porch_base p'" "get_by_synthetic synthetic (po_paths p') = Some entry" "p' = p\<lparr>po_paths := po_paths p'\<rparr>"
proof -
  define t where "t = table_step (EnsureBySynthetic now synthetic) (po_paths p)"
  have p': "p' = p\<lparr>po_paths := t\<rparr>" and get: "get_by_synthetic synthetic t = Some entry"
    using assms(2) by (auto simp: t_def ensure_path_def ensure_by_synthetic_def get_by_synthetic_def hm_get_insert
      map_add_def split: option.splits prod.splits)
  have "routes_known (po_by_synthetic p) t"
    using assms(1) table_step_stable unfolding t_def porch_base_def routes_known_def by blast
  moreover have "pt_wf t" using assms(1) table_step_wf unfolding t_def porch_base_def by blast
  ultimately show "porch_base p'" using assms(1) by (simp add: p' porch_base_def)
  show "get_by_synthetic synthetic (po_paths p') = Some entry" "p' = p\<lparr>po_paths := po_paths p'\<rparr>"
    using get p' by simp_all
qed

lemma register_ok:
  assumes "porch_ok p"
  shows "porch_ok (register_relay_session now session synthetic p)"
proof -
  obtain q entry where q: "ensure_path now synthetic p = (q, entry)" by (cases "ensure_path now synthetic p")
  have base: "porch_base p" using assms by (simp add: porch_ok_def)
  note e = ensure_path_base [OF base q]
  have "po_gate q = po_gate p" "po_drained q = po_drained p" "po_by_synthetic q = po_by_synthetic p"
    by (subst e(3), simp)+
  then have "routes_drained (po_gate q) (po_drained q) (po_by_synthetic q)" using assms by (simp add: porch_ok_def)
  moreover have "routes_known (hm_insert synthetic session (po_by_synthetic q)) (po_paths q)"
    using e(1,2) unfolding routes_known_def keys_insert porch_base_def by simp
  ultimately have known: "routes_known (hm_insert synthetic session (po_by_synthetic q)) (po_paths q)"
    and drained: "routes_drained (po_gate q) (po_drained q) (po_by_synthetic q)" by blast+
  define r where "r = q\<lparr>po_by_synthetic := hm_insert synthetic session (po_by_synthetic q),
                po_by_session := hm_insert session synthetic (po_by_session q)\<rparr>"
  have base: "porch_base r" using e(1) known by (simp add: r_def porch_base_def)
  have keys: "fst ` set (po_by_synthetic r) = insert synthetic (fst ` set (po_by_synthetic q))"
    unfolding r_def by (simp add: dom_update)
  have r: "po_gate r = po_gate q" "po_drained r = po_drained q" by (simp_all add: r_def)
  have reg: "register_relay_session now session synthetic p =
      (case po_gate q of None \<Rightarrow> r | Some gate \<Rightarrow> if synthetic \<in> po_drained q then r
          else spawn_relay_drain gate entry (r\<lparr>po_drained := insert synthetic (po_drained q)\<rparr>))"
    by (simp add: register_relay_session_def q r_def Let_def split: option.split)
  show ?thesis
  proof (cases "po_gate q")
    case None
    then show ?thesis using base drained r unfolding reg porch_ok_def routes_drained_def by simp
  next
    case (Some gate)
    then have sub: "fst ` set (po_by_synthetic q) \<subseteq> po_drained q" using drained by (simp add: routes_drained_def)
    let ?s = "spawn_relay_drain gate entry (r\<lparr>po_drained := insert synthetic (po_drained q)\<rparr>)"
    have s: "porch_base ?s" "po_gate ?s = po_gate r" "po_drained ?s = insert synthetic (po_drained q)"
      "po_by_synthetic ?s = po_by_synthetic r"
      using base by (simp_all add: spawn_relay_drain_def porch_base_def)
    have in1: "porch_ok r" if "synthetic \<in> po_drained q"
    proof -
      have "fst ` set (po_by_synthetic r) \<subseteq> po_drained r" using sub that unfolding keys r by blast
      then show ?thesis using base by (simp add: porch_ok_def routes_drained_def r Some)
    qed
    have "fst ` set (po_by_synthetic ?s) \<subseteq> po_drained ?s" unfolding s(3,4) keys using sub by blast
    then have "porch_ok ?s" using s(1,2) by (simp add: porch_ok_def routes_drained_def r Some)
    then show ?thesis using in1 by (simp add: reg Some)
  qed
qed

lemma attach_one_base:
  assumes "porch_base p"
  shows "porch_base (attach_one now gate synthetic p) \<and>
    po_drained (attach_one now gate synthetic p) = insert synthetic (po_drained p) \<and>
    po_gate (attach_one now gate synthetic p) = po_gate p \<and>
    po_by_synthetic (attach_one now gate synthetic p) = po_by_synthetic p"
proof -
  obtain q entry where q: "ensure_path now synthetic p = (q, entry)" by (cases "ensure_path now synthetic p")
  note e = ensure_path_base [OF assms q]
  have "po_gate q = po_gate p" "po_drained q = po_drained p" "po_by_synthetic q = po_by_synthetic p"
    by (subst e(3), simp)+
  then show ?thesis
    using e(1) by (auto simp: attach_one_def q spawn_relay_drain_def porch_base_def insert_absorb)
qed

lemma attach_all_base:
  "porch_base p \<Longrightarrow> porch_base (fold (attach_one now gate) l p) \<and>
     po_drained (fold (attach_one now gate) l p) = po_drained p \<union> set l \<and>
     po_gate (fold (attach_one now gate) l p) = po_gate p \<and>
     po_by_synthetic (fold (attach_one now gate) l p) = po_by_synthetic p"
proof (induction l arbitrary: p)
  case (Cons x l)
  have "porch_base (attach_one now gate x p)" using attach_one_base [OF Cons.prems] by blast
  from Cons.IH [OF this] show ?case using attach_one_base [OF Cons.prems, of now gate x] by simp
qed simp

lemma attach_ok:
  assumes "porch_ok p"
  shows "porch_ok (attach_gate now gate p)"
proof -
  obtain q lease where q: "allow_source (snd gate) p = (q, lease)" by (cases "allow_source (snd gate) p")
  define r where "r = (arm q)\<lparr>po_gate := Some gate, po_gate_lease := Some lease\<rparr>"
  define l where "l = filter (\<lambda>synthetic. synthetic \<notin> po_drained r) (map fst (po_by_synthetic r))"
  have "porch_base r"
    using assms q by (auto simp: porch_ok_def porch_base_def allow_source_def Let_def arm_def r_def intro: sources_allow_ok)
  note a = attach_all_base [OF this, of now gate l]
  have "fst ` set (po_by_synthetic r) \<subseteq> po_drained r \<union> set l" by (auto simp: l_def)
  then show ?thesis
    using a unfolding attach_gate_def q prod.case Let_def r_def [symmetric] l_def [symmetric]
    by (simp add: porch_ok_def routes_drained_def r_def)
qed

lemma detach_ok: "porch_ok p \<Longrightarrow> porch_ok (detach_gate addr p)"
  by (auto simp: detach_gate_def Let_def porch_ok_def porch_base_def routes_drained_def forget_source_def
      intro: sources_forget_ok split: option.split)

lemma on_egress_ok:
  assumes "porch_ok p"
  shows "porch_ok (fst (on_egress entry f p))"
proof -
  have "get_by_synthetic s (po_paths (fst (on_egress entry f p))) = get_by_synthetic s (po_paths p)" for s
    by (simp add: on_egress_def get_by_synthetic_def split: prod.split)
  moreover have "pt_wf (po_paths (fst (on_egress entry f p))) = pt_wf (po_paths p)"
    by (simp add: on_egress_def pt_wf_def split: prod.split)
  ultimately show ?thesis
    using assms by (simp add: porch_ok_def porch_base_def routes_known_def) (simp add: on_egress_def split: prod.split)
qed

lemma on_egress_eq_ok: "on_egress entry f p = (q, r) \<Longrightarrow> porch_ok p \<Longrightarrow> porch_ok q"
  using on_egress_ok [of p entry f] by simp

lemma on_path_ok: "porch_ok p \<Longrightarrow> porch_ok (p\<lparr>po_paths := table_step c (po_paths p)\<rparr>)"
  using table_step_stable table_step_wf by (fastforce simp: porch_ok_def porch_base_def routes_known_def)

lemma drain_turn_ok: "porch_ok p \<Longrightarrow> porch_ok (fst (drain_turn refilled_at now task sends p))"
proof (cases "task \<ge> length (po_tasks p)")
  case True
  then show "porch_ok p \<Longrightarrow> ?thesis" by (simp add: drain_turn_def)
next
  case False
  assume p: "porch_ok p"
  obtain gate entry where task: "po_tasks p ! task = (gate, entry)" by (cases "po_tasks p ! task")
  obtain q result where q: "on_egress entry (drain_pass refilled_at now) p = (q, result)"
    by (cases "on_egress entry (drain_pass refilled_at now) p")
  have "porch_ok q" using on_egress_ok [OF p, of entry "drain_pass refilled_at now"] q by simp
  moreover from this have "porch_ok (q\<lparr>po_tasks := ts\<rparr>)" for ts by (rule porch_ok_cong) simp_all
  ultimately show ?thesis using False task q by (simp add: drain_turn_def Let_def split: drain_next.split)
qed

lemma keys_ok:
  assumes "porch_ok p"
  shows "porch_ok (arm_probe_key att key p)" "porch_ok (disarm_probe_key att p)"
proof -
  have p: "probes_ok (po_probe_keys p) (po_probes p)" using assms by (simp add: porch_ok_def porch_base_def)
  then have "probes_ok (hm_insert att key (po_probe_keys p)) (po_probes p)"
    unfolding probes_ok_def keys_insert by auto
  then show "porch_ok (arm_probe_key att key p)"
    using assms by (simp add: arm_probe_key_def porch_ok_def porch_base_def)
  show "porch_ok (disarm_probe_key att p)"
    using assms probes_ok_remove(2) [OF p] by (simp add: disarm_probe_key_def porch_ok_def porch_base_def)
qed

lemma try_recv_ok:
  assumes "porch_ok p"
  shows "porch_ok (fst (try_recv_probe att p))"
proof (cases "hm_get (po_probes p) att")
  case None
  then show ?thesis using assms by (simp add: try_recv_probe_def)
next
  case (Some queue)
  have p: "probes_ok (po_probe_keys p) (po_probes p)" using assms by (simp add: porch_ok_def porch_base_def)
  then have q: "length queue \<le> INBOUND_PROBE_QUEUE_CAP" "\<forall>(_, probe) \<in> set queue. pr_attempt probe = att"
    using Some by (auto simp: probes_ok_def)
  have "att \<in> fst ` set (po_probes p)" using map_of_SomeD [OF Some] by force
  then have att: "att \<in> fst ` set (po_probe_keys p)" using p by (auto simp: probes_ok_def)
  have "length (tl queue) \<le> INBOUND_PROBE_QUEUE_CAP" "\<forall>(_, probe) \<in> set (tl queue). pr_attempt probe = att"
    using q by (cases queue; simp)+
  from probes_ok_insert [OF p att this] show ?thesis
    using assms probes_ok_remove(1) [OF p]
    by (simp add: try_recv_probe_def Some Let_def porch_ok_def porch_base_def)
qed

lemma poll_probe_ok:
  assumes "porch_ok p"
  shows "porch_ok (fst (poll_probe att waker p))"
proof -
  obtain q r where q: "try_recv_probe att p = (q, r)" by (cases "try_recv_probe att p")
  have "porch_ok q" using try_recv_ok [OF assms, of att] q by simp
  moreover from this have "porch_ok (q\<lparr>po_probe_waker := Some waker\<rparr>)" by (rule porch_ok_cong) simp_all
  ultimately show ?thesis using try_recv_ok by (simp add: poll_probe_def q split: option.split)
qed

lemma queue_probes_ok: "porch_ok p \<Longrightarrow> porch_ok (fst (queue_probes K source segments p))"
  by (rule porch_ok_frame [OF queue_probes_frame])

lemma queue_probes_eq_ok: "queue_probes K source segments p = (q, woken) \<Longrightarrow> porch_ok p \<Longrightarrow> porch_ok q"
  using queue_probes_ok [of p K source segments] by simp

lemma send_probe_ok: "porch_ok p \<Longrightarrow> porch_ok (fst (fst (send_probe now wire addr probe p)))"
  by (auto simp: send_probe_def send_probe_relayed_def dest: on_egress_eq_ok split: option.split sum.split prod.split)

lemma gate_datagram_ok:
  assumes "porch_ok p"
  shows "porch_ok (fst (gate_datagram K datagram p))"
proof -
  have "porch_ok (p\<lparr>po_relay_dropped := n\<rparr>)" for n using assms by (rule porch_ok_cong) simp_all
  moreover have "porch_ok (p\<lparr>po_inbound := po_inbound p @ [x]\<rparr>)"
    "porch_ok (p\<lparr>po_inbound := po_inbound p @ [x], po_waker := None\<rparr>)"
    if "\<not> length (po_inbound p) \<ge> INBOUND_RELAY_QUEUE_CAP" for x
    using assms that by (simp_all add: porch_ok_def porch_base_def)
  ultimately have "porch_ok (fst (deliver_synthetic K session payload p))" for session payload
    using assms queue_probes_ok [OF assms] by (simp add: deliver_synthetic_def Let_def split: option.split)
  then show ?thesis using assms by (simp add: gate_datagram_def split: sum.split prod.split)
qed

lemma intent_ok:
  assumes "porch_ok p"
  shows "porch_ok (note_relay_intent task d p)" "porch_ok (fst (take_relay_intent task p))"
  using assms
  by (auto simp: note_relay_intent_def take_relay_intent_def porch_ok_def porch_base_def split: option.split)

lemma try_send_ok:
  assumes "porch_ok p"
  shows "porch_ok (fst (fst (try_send now task wire tx p)))"
  using assms intent_ok(1) [OF assms]
  by (auto simp: try_send_def Let_def dest: on_egress_eq_ok split: option.split sum.split prod.split)

lemma poll_writable_ok:
  assumes "porch_ok p"
  shows "porch_ok (fst (poll_writable task waker n adopted p))"
  using intent_ok(2) [OF assms, of task]
  by (auto simp: poll_writable_def Let_def dest: on_egress_eq_ok split: option.split prod.split)

lemma demultiplex_slot_ok:
  "\<exists>p' slot' carries woken. demultiplex_slot K slot p = Some (p', slot', carries, woken) \<and> (porch_ok p \<longrightarrow> porch_ok p')"
proof -
  obtain buf meta where slot: "slot = (buf, meta)" by (cases slot)
  obtain q buf' kept woken where q: "filter_probes K buf meta p = Some (q, buf', kept, woken)"
    using filter_probes_total by blast
  then have ok: "porch_ok p \<longrightarrow> porch_ok q"
    by (auto simp: filter_probes_def bind_eq_Some_conv dest: queue_probes_eq_ok split: if_splits prod.splits)
  moreover have "porch_ok q \<longrightarrow> porch_ok (q\<lparr>po_unknown_dropped := n\<rparr>)" for n
    by (simp add: porch_ok_def porch_base_def)
  ultimately show ?thesis by (auto simp: demultiplex_slot_def slot q split: source_verdict.split)
qed

lemma demultiplex_ok:
  "\<exists>p' slots' carrying woken. demultiplex K slots p = Some (p', slots', carrying, woken) \<and> (porch_ok p \<longrightarrow> porch_ok p')"
proof (induction slots arbitrary: p)
  case (Cons slot slots)
  obtain q slot' carries woken where "demultiplex_slot K slot p = Some (q, slot', carries, woken)"
    "porch_ok p \<longrightarrow> porch_ok q" using demultiplex_slot_ok by blast
  then show ?case using Cons.IH [of q] by auto
qed simp

lemma read_loop_ok:
  "\<exists>p' r woken. read_loop K served reads p = Some (p', r, woken) \<and> (porch_ok p \<longrightarrow> porch_ok p')"
proof (induction reads arbitrary: p)
  case (Cons x reads)
  show ?case
  proof (cases x)
    case (ReadSlots slots)
    obtain q slots' carrying woken where "demultiplex K slots p = Some (q, slots', carrying, woken)"
      "porch_ok p \<longrightarrow> porch_ok q" using demultiplex_ok by blast
    then show ?thesis using Cons.IH [of q] by (auto simp: ReadSlots)
  qed (use Cons.IH [of p] in auto)
qed simp

lemma porch_ok_inbound:
  "porch_ok p \<Longrightarrow> length l \<le> length (po_inbound p) \<Longrightarrow> porch_ok (p\<lparr>po_inbound := l\<rparr>)"
  by (simp add: porch_ok_def porch_base_def)

lemma drain_queue_ok:
  assumes "porch_ok p" and "drain_queue_into slots budget p = (q, slots', filled)"
  shows "porch_ok q"
  using assms by (auto simp: drain_queue_into_def Let_def intro: porch_ok_inbound)

text \<open>The parts of a call of \<open>poll_recv\<close>.\<close>

lemma poll_recv_parts:
  assumes "slots \<noteq> []"
  obtains p1 budget p2 slots2 filled p3 r woken p4 slots4 filled4 where
    "p1 = p\<lparr>po_waker := Some waker, po_prefer_socket := po_prefer_socket p1\<rparr>" "budget \<le> length slots"
    "drain_queue_into slots budget p1 = (p2, slots2, filled)"
    "read_loop K (filled > 0) reads p2 = Some (p3, r, woken)"
    "drain_queue_into slots2 1 p3 = (p4, slots4, filled4)"
    "poll_recv K waker slots reads p =
      (if filled = length slots2 then Some (p2, Polled (Inr slots2), [])
       else (case r of
         Some (Inr got) \<Rightarrow> Some (p3, Polled (Inr (take filled slots2 @ got)), woken)
       | Some (Inl e) \<Rightarrow> Some (p3, Polled (if filled > 0 then Inr (take filled slots2) else Inl e), woken)
       | None \<Rightarrow>
           if filled > 0 then Some (p3, Polled (Inr (take filled slots2)), woken)
           else if budget = 0 then
             Some (p4, if filled4 > 0 then Polled (Inr (take filled4 slots4)) else Pending, woken)
           else Some (p3, Pending, woken)))"
proof -
  define many where "many \<longleftrightarrow> length slots > 1"
  define p0 where "p0 = p\<lparr>po_waker := Some waker\<rparr>"
  define p1 where "p1 = (if many then p0 else p0\<lparr>po_prefer_socket := \<not> po_prefer_socket p0\<rparr>)"
  define budget where "budget = (if many \<or> \<not> po_prefer_socket p0 then if many then length slots - 1 else 1 else 0)"
  obtain p2 slots2 filled where d: "drain_queue_into slots budget p1 = (p2, slots2, filled)"
    by (cases "drain_queue_into slots budget p1")
  obtain p3 r woken where l: "read_loop K (filled > 0) reads p2 = Some (p3, r, woken)"
    using read_loop_ok by blast
  obtain p4 slots4 filled4 where e: "drain_queue_into slots2 1 p3 = (p4, slots4, filled4)"
    by (cases "drain_queue_into slots2 1 p3")
  show thesis
  proof (rule that [OF _ _ d l e])
    show "p1 = p\<lparr>po_waker := Some waker, po_prefer_socket := po_prefer_socket p1\<rparr>" by (simp add: p1_def p0_def)
    show "budget \<le> length slots" using assms by (cases slots) (simp_all add: budget_def)
  qed (unfold poll_recv_def if_not_P [OF assms] Let_def many_def [symmetric] p0_def [symmetric] p1_def [symmetric]
      budget_def [symmetric] d prod.case l(1) bind.bind_lunit e, rule refl)
qed

lemma poll_recv_ok:
  "\<exists>p' r woken. poll_recv K waker slots reads p = Some (p', r, woken) \<and> (porch_ok p \<longrightarrow> porch_ok p')"
proof (cases "slots = []")
  case True
  then show ?thesis by (simp add: poll_recv_def)
next
  case False
  then show ?thesis
  proof (rule poll_recv_parts [where p = p and waker = waker and K = K and reads = reads])
    fix p1 budget p2 slots2 filled p3 r woken p4 slots4 filled4
    assume p1: "p1 = p\<lparr>po_waker := Some waker, po_prefer_socket := po_prefer_socket p1\<rparr>"
      and d: "drain_queue_into slots budget p1 = (p2, slots2, filled)"
      and l: "read_loop K (filled > 0) reads p2 = Some (p3, r, woken)"
      and e: "drain_queue_into slots2 1 p3 = (p4, slots4, filled4)"
      and poll: "poll_recv K waker slots reads p =
      (if filled = length slots2 then Some (p2, Polled (Inr slots2), [])
       else (case r of
         Some (Inr got) \<Rightarrow> Some (p3, Polled (Inr (take filled slots2 @ got)), woken)
       | Some (Inl e) \<Rightarrow> Some (p3, Polled (if filled > 0 then Inr (take filled slots2) else Inl e), woken)
       | None \<Rightarrow>
           if filled > 0 then Some (p3, Polled (Inr (take filled slots2)), woken)
           else if budget = 0 then
             Some (p4, if filled4 > 0 then Polled (Inr (take filled4 slots4)) else Pending, woken)
           else Some (p3, Pending, woken)))"
    have "porch_ok p \<longrightarrow> porch_ok p1" by (subst p1) (simp add: porch_ok_def porch_base_def)
    moreover have "porch_ok p2 \<longrightarrow> porch_ok p3" using read_loop_ok [of K "filled > 0" reads p2] l by auto
    ultimately show ?thesis
      using drain_queue_ok [OF _ d] drain_queue_ok [OF _ e] unfolding poll by (simp split: option.split sum.split)
  qed
qed

lemma forget_ok: "porch_ok p \<Longrightarrow> porch_ok (forget_source lease p)"
  by (simp add: forget_source_def porch_ok_def porch_base_def sources_forget_ok)

lemma allow_ok: "porch_ok p \<Longrightarrow> porch_ok (fst (allow_source addr p))"
  by (simp add: allow_source_def Let_def porch_ok_def porch_base_def sources_allow_ok)

lemma insert_relay_path_ok: "porch_ok p \<Longrightarrow> porch_ok (insert_relay_path now peer synthetic p)"
  using on_path_ok [of p "InsertRelay now peer synthetic"] by (simp add: insert_relay_path_def)

lemma porch_step_ok: "\<exists>p' outs. porch_step K c p = Some (p', outs) \<and> (porch_ok p \<longrightarrow> porch_ok p')"
proof (cases c)
  case (DrainTurn refilled_at now task sends)
  then show ?thesis using drain_turn_ok [of p refilled_at now task sends] by (cases "drain_turn refilled_at now task sends p") simp
next
  case (SendProbe now wire addr probe)
  then show ?thesis
    using send_probe_ok [of p now wire addr probe] by (cases "send_probe now wire addr probe p") (auto split: prod.split)
next
  case (TrySend now task wire tx)
  then show ?thesis
    using try_send_ok [of p now task wire tx] by (cases "try_send now task wire tx p") (auto split: prod.split)
next
  case (GateDatagram datagram)
  then show ?thesis using gate_datagram_ok [of p K datagram] by (cases "gate_datagram K datagram p") simp
next
  case (PollRecv waker slots reads)
  then show ?thesis using poll_recv_ok [of K waker slots reads p] by auto
next
  case Arm
  then show ?thesis by (simp add: arm_def porch_ok_def porch_base_def)
next
  case (OnPath entry pc)
  then show ?thesis using on_path_ok [of p "OnEntry entry pc"] by simp
qed (simp_all add: allow_ok forget_ok keys_ok register_ok attach_ok detach_ok insert_relay_path_ok try_recv_ok
    poll_probe_ok poll_writable_ok)

lemma porch_run_ok: "\<exists>p' outs. porch_run K cs p = Some (p', outs) \<and> (porch_ok p \<longrightarrow> porch_ok p')"
proof (induction cs arbitrary: p)
  case (Cons c cs)
  obtain q outs where "porch_step K c p = Some (q, outs)" "porch_ok p \<longrightarrow> porch_ok q" using porch_step_ok by blast
  then show ?case using Cons.IH [of q] by auto
qed simp

lemma porch_reached_ok: "porch_run K cs (porch_new v6) = Some (p, outs) \<Longrightarrow> porch_ok p"
  using porch_run_ok [of K cs "porch_new v6"] porch_ok_new [of v6] by auto

section \<open>What quinn is given\<close>

text \<open>A list that is cut into pieces, of which some are taken out, is cut into the others again.\<close>

lemma chunks_filter: "chunks n (concat (filter P (chunks n xs))) = filter P (chunks n xs)"
proof (induction n xs rule: chunks.induct)
  case (1 n xs)
  show ?case
  proof (cases "xs = [] \<or> n = 0")
    case True
    then show ?thesis by (auto simp: chunks.simps [of n xs])
  next
    case False
    then have ch: "chunks n xs = take n xs # chunks n (drop n xs)" and n: "0 < n" by (simp_all add: chunks_cons)
    have IH: "chunks n (concat (filter P (chunks n (drop n xs)))) = filter P (chunks n (drop n xs))"
      using 1 False by simp
    let ?rest = "concat (filter P (chunks n (drop n xs)))"
    have "chunks n (take n xs @ ?rest) = take n xs # filter P (chunks n (drop n xs))"
    proof (cases "drop n xs = []")
      case True
      then show ?thesis using False by (simp add: chunks_cons)
    next
      case False
      then have "length (take n xs) = n" by simp
      then have "take n (take n xs @ ?rest) = take n xs" "drop n (take n xs @ ?rest) = ?rest" by simp_all
      then show ?thesis using chunks_cons [of "take n xs @ ?rest" n] n IH \<open>length (take n xs) = n\<close> by force
    qed
    then show ?thesis using IH by (simp add: ch)
  qed
qed

lemma filter_probes_split:
  assumes "filter_probes K buf meta p = Some (p', buf', kept, woken)" and "0 < rm_stride meta"
  shows "take kept buf' =
      concat (filter (\<lambda>s. \<not> is_probe s) (chunks (rm_stride meta) (take (rm_len meta) buf)))"
    "(p', woken) = (case filter is_probe (chunks (rm_stride meta) (take (rm_len meta) buf)) of
        [] \<Rightarrow> (p, []) | probes \<Rightarrow> queue_probes K (unmap_v4 (rm_addr meta)) probes p)"
    "kept \<le> length buf'" "length buf' = length buf"
proof -
  let ?len = "min (rm_len meta) (length buf)"
  have "slice 0 ?len buf = take (rm_len meta) buf" by (simp add: slice_def min_def)
  with filter_loop_spec [OF order_refl le0 min.cobounded2 assms(2), of "rm_len meta" buf "[]"]
  obtain buf2 where loop: "filter_loop (rm_stride meta) ?len 0 0 buf [] = Some (buf2,
      length (concat (filter (\<lambda>s. \<not> is_probe s) (chunks (rm_stride meta) (take (rm_len meta) buf)))),
      filter is_probe (chunks (rm_stride meta) (take (rm_len meta) buf)))"
    and out: "length buf2 = length buf"
      "take (length (concat (filter (\<lambda>s. \<not> is_probe s) (chunks (rm_stride meta) (take (rm_len meta) buf))))) buf2 =
        concat (filter (\<lambda>s. \<not> is_probe s) (chunks (rm_stride meta) (take (rm_len meta) buf)))"
    by auto
  let ?kept = "concat (filter (\<lambda>s. \<not> is_probe s) (chunks (rm_stride meta) (take (rm_len meta) buf)))"
  have r: "buf' = buf2 \<and> kept = length ?kept"
    using assms by (auto simp: filter_probes_def loop Let_def split: if_splits prod.splits)
  then show "take kept buf' = ?kept" "length buf' = length buf" using out by simp_all
  have "length (take (length ?kept) buf2) = length ?kept" using out(2) by simp
  then show "kept \<le> length buf'" using r by simp
  show "(p', woken) = (case filter is_probe (chunks (rm_stride meta) (take (rm_len meta) buf)) of
        [] \<Rightarrow> (p, []) | probes \<Rightarrow> queue_probes K (unmap_v4 (rm_addr meta)) probes p)"
    using assms by (auto simp: filter_probes_def loop Let_def split: if_splits prod.splits list.split)
qed

text \<open>What the receive calls leave alone.\<close>

definition recv_frame :: "porch \<Rightarrow> porch \<Rightarrow> bool" where
  "recv_frame p p' \<longleftrightarrow> po_sources p' = po_sources p \<and> po_paths p' = po_paths p \<and> po_armed p' = po_armed p"

lemma recv_frame_trans: "recv_frame p q \<Longrightarrow> recv_frame q r \<Longrightarrow> recv_frame p r"
  by (simp add: recv_frame_def)

lemma filter_probes_frame: "filter_probes K buf meta p = Some (p', buf', kept, woken) \<Longrightarrow> recv_frame p p'"
  using probe_frame_fields [OF queue_probes_frame [of p K "unmap_v4 (rm_addr meta)"]]
  by (auto simp: filter_probes_def recv_frame_def bind_eq_Some_conv Let_def split: if_splits prod.splits)
    (metis fst_conv)+

lemma filter_probes_inbound:
  "filter_probes K buf meta p = Some (p', buf', kept, woken) \<Longrightarrow> po_inbound p' = po_inbound p"
  using probe_frame_fields(3) [OF queue_probes_frame [of p K "unmap_v4 (rm_addr meta)"]]
  by (auto simp: filter_probes_def bind_eq_Some_conv Let_def split: if_splits prod.splits) (metis fst_conv)+

lemma demultiplex_inbound: "demultiplex K slots p = Some (p', r) \<Longrightarrow> po_inbound p' = po_inbound p"
proof (induction slots arbitrary: p p' r)
  case (Cons slot slots)
  obtain q s c w where q: "demultiplex_slot K slot p = Some (q, s, c, w)" using demultiplex_slot_ok by blast
  obtain buf meta where slot: "slot = (buf, meta)" by (cases slot)
  obtain q' buf' kept w' where f: "filter_probes K buf meta p = Some (q', buf', kept, w')"
    using filter_probes_total by blast
  have "po_inbound q = po_inbound p"
    using q filter_probes_inbound [OF f] by (auto simp: demultiplex_slot_def slot f split: source_verdict.splits if_splits)
  then show ?case using Cons.prems Cons.IH [of q] by (auto simp: q bind_eq_Some_conv)
qed simp

lemma read_loop_inbound: "read_loop K served reads p = Some (p', r) \<Longrightarrow> po_inbound p' = po_inbound p"
proof (induction reads arbitrary: p p' r)
  case (Cons x reads)
  show ?case
  proof (cases x)
    case (ReadSlots slots)
    obtain q slots' n w where d: "demultiplex K slots p = Some (q, slots', n, w)" using demultiplex_ok by blast
    show ?thesis
      using Cons.prems Cons.IH [of q] demultiplex_inbound [OF d]
      by (auto simp: ReadSlots d bind_eq_Some_conv split: if_splits)
  qed (use Cons in \<open>auto split: if_splits\<close>)
qed simp

text \<open>
  What an armed socket may hear, by the address that stood on the wire: a source that a live
  lease admits, which quinn is shown as it is, or the address that a peer's path is direct to,
  which quinn is shown as the synthetic address of that same path.
\<close>

definition heard_as :: "porch \<Rightarrow> socket_addr \<Rightarrow> socket_addr \<Rightarrow> bool" where
  "heard_as p wire shown \<longleftrightarrow>
     (if is_source_allowed wire p then shown = wire
      else \<exists>entry. (shown, entry) \<in> set (pt_by_synthetic (po_paths p)) \<and>
        entry_direct (po_paths p) entry = Some (unmap_v4 wire))"

text \<open>The bytes of a buffer that are left for quinn: its segments without the probes.\<close>

definition quic_bytes :: "bytes \<times> recv_meta \<Rightarrow> bytes" where
  "quic_bytes slot = (case slot of (buf, meta) \<Rightarrow>
     concat (filter (\<lambda>s. \<not> is_probe s)
       (chunks (if rm_stride meta = 0 then rm_len meta else rm_stride meta) (take (rm_len meta) buf))))"

text \<open>A slot that the socket read, and the same slot as quinn is shown it.\<close>

definition slot_heard :: "porch \<Rightarrow> bytes \<times> recv_meta \<Rightarrow> bytes \<times> recv_meta \<Rightarrow> bool" where
  "slot_heard p wire shown \<longleftrightarrow>
     (0 < rm_len (snd shown) \<longrightarrow>
        heard_as p (rm_addr (snd wire)) (rm_addr (snd shown)) \<and>
        take (rm_len (snd shown)) (fst shown) = quic_bytes wire)"

lemma slot_heard_cong: "recv_frame p p' \<Longrightarrow> slot_heard p' = slot_heard p"
  by (simp add: fun_eq_iff slot_heard_def heard_as_def recv_frame_def is_source_allowed_def)

lemma armed_cong: "recv_frame p p' \<Longrightarrow> po_armed p' = po_armed p"
  by (simp add: recv_frame_def)

lemma classify_source_heard:
  assumes "po_armed p"
  shows "classify_source wire p = Keep \<Longrightarrow> heard_as p wire wire"
    "classify_source wire p = Rewrite shown \<Longrightarrow> heard_as p wire shown"
  using assms synthetic_for_direct_sound [of "unmap_v4 wire" "po_paths p"]
  by (auto simp: classify_source_def heard_as_def is_source_allowed_def Let_def split: if_splits option.splits)

lemma filter_probes_kept:
  assumes "filter_probes K buf meta p = Some (p', buf', kept, woken)" and "0 < kept"
  shows "take kept buf' = quic_bytes (buf, meta)"
proof (cases "rm_stride meta = 0")
  case False
  then show ?thesis using filter_probes_split(1) [OF assms(1)] by (simp add: quic_bytes_def)
next
  case True
  let ?m = "meta\<lparr>rm_stride := rm_len meta\<rparr>"
  have "rm_addr ?m = rm_addr meta" "rm_len ?m = rm_len meta" "rm_stride ?m = rm_len meta" by simp_all
  then have same: "filter_probes K buf ?m p = filter_probes K buf meta p"
    unfolding filter_probes_def using True by (simp only: if_cancel simp_thms if_True)
  have "0 < rm_len meta"
  proof (rule ccontr)
    assume "\<not> 0 < rm_len meta"
    then have "kept = 0" using assms(1) True by (simp add: filter_probes_def filter_loop.simps)
    then show False using assms(2) by simp
  qed
  then show ?thesis
    using filter_probes_split(1) [OF assms(1) [folded same]] True by (simp add: quic_bytes_def)
qed

lemma demultiplex_slot_safe:
  assumes "demultiplex_slot K slot p = Some (p', shown, carries, woken)"
  shows "recv_frame p p'" "po_armed p \<Longrightarrow> slot_heard p slot shown"
proof -
  obtain buf meta where slot: "slot = (buf, meta)" by (cases slot)
  obtain q b kept w where q: "filter_probes K buf meta p = Some (q, b, kept, w)"
    using filter_probes_total by blast
  note f = filter_probes_frame [OF q]
  have "recv_frame q p'"
    using assms by (auto simp: demultiplex_slot_def slot q recv_frame_def split: source_verdict.splits if_splits)
  with f show "recv_frame p p'" by (rule recv_frame_trans)
  assume "po_armed p"
  then have "po_armed q" using armed_cong [OF f] by simp
  note heard = classify_source_heard [OF this]
  have "slot_heard q slot shown"
    using assms heard filter_probes_kept [OF q]
    by (auto simp: demultiplex_slot_def slot q slot_heard_def split: source_verdict.splits if_splits)
  then show "slot_heard p slot shown" using slot_heard_cong [OF f] by simp
qed

lemma demultiplex_safe:
  assumes "demultiplex K slots p = Some (p', slots', carrying, woken)"
  shows "recv_frame p p' \<and> length slots' = length slots \<and> (po_armed p \<longrightarrow> list_all2 (slot_heard p) slots slots')"
  using assms
proof (induction slots arbitrary: p p' slots' carrying woken)
  case Nil
  then show ?case by (simp add: recv_frame_def)
next
  case (Cons slot slots)
  obtain q b m c w where s: "demultiplex_slot K slot p = Some (q, (b, m), c, w)"
    using demultiplex_slot_ok by (metis surj_pair)
  obtain r rest n w' where d: "demultiplex K slots q = Some (r, rest, n, w')"
    using demultiplex_ok by blast
  have out: "p' = r" "slots' = (b, m) # rest" using Cons.prems by (simp_all add: s d)
  note IH = Cons.IH [OF d] and safe = demultiplex_slot_safe [OF s]
  have "recv_frame p r" using safe(1) IH recv_frame_trans by blast
  moreover have "po_armed q = po_armed p" "slot_heard q = slot_heard p"
    by (rule armed_cong [OF safe(1)], rule slot_heard_cong [OF safe(1)])
  ultimately show ?case using IH safe(2) by (simp add: out)
qed

lemma read_loop_safe:
  assumes "read_loop K served reads p = Some (p', r, woken)"
  shows "recv_frame p p' \<and> (po_armed p \<longrightarrow> (\<forall>slots. r = Some (Inr slots) \<longrightarrow>
    (\<exists>raw. ReadSlots raw \<in> set reads \<and> list_all2 (slot_heard p) raw slots)))"
  using assms
proof (induction reads arbitrary: p woken)
  case Nil
  then show ?case by (simp add: recv_frame_def)
next
  case (Cons x reads)
  show ?case
  proof (cases x)
    case (ReadSlots slots)
    obtain q slots' n w where d: "demultiplex K slots p = Some (q, slots', n, w)" using demultiplex_ok by blast
    note d' = demultiplex_safe [OF d]
    then have frame: "recv_frame p q" by blast
    show ?thesis
    proof (cases "n = 0 \<and> \<not> served")
      case True
      then obtain w' where l: "read_loop K served reads q = Some (p', r, w')"
        using Cons.prems by (auto simp: ReadSlots d bind_eq_Some_conv)
      have "po_armed q = po_armed p" "slot_heard q = slot_heard p"
        by (rule armed_cong [OF frame], rule slot_heard_cong [OF frame])
      moreover have "recv_frame p p'" using Cons.IH [OF l] recv_frame_trans [OF frame] by blast
      ultimately show ?thesis using Cons.IH [OF l] by auto
    next
      case False
      then show ?thesis using Cons.prems d' by (auto simp: ReadSlots d)
    qed
  next
    case ReadBlocks
    then show ?thesis using Cons by (auto simp: recv_frame_def split: if_splits)
  qed (use Cons.prems in \<open>auto simp: recv_frame_def\<close>)
qed

text \<open>A slot that the relay queue filled: a waiting datagram, cut to the buffer.\<close>

definition from_queue :: "porch \<Rightarrow> bytes \<times> recv_meta \<Rightarrow> bool" where
  "from_queue p shown \<longleftrightarrow> (\<exists>payload. (rm_addr (snd shown), payload) \<in> set (po_inbound p) \<and>
     take (rm_len (snd shown)) (fst shown) = take (length (fst shown)) payload)"

lemma fill_slots_sources:
  "(buf, meta) \<in> set (take (length queue) (fill_slots queue slots)) \<Longrightarrow> length queue \<le> length slots \<Longrightarrow>
     \<exists>payload. (rm_addr meta, payload) \<in> set queue \<and> take (rm_len meta) buf = take (length buf) payload"
  by (induction queue slots rule: fill_slots.induct) (auto simp: Let_def min_def split: if_splits)

lemma drain_queue_length: "drain_queue_into slots budget p = (q, slots', filled) \<Longrightarrow> length slots' = length slots"
proof -
  have "length (fill_slots queue slots) = length slots" for queue
    by (induction queue slots rule: fill_slots.induct) (simp_all add: Let_def)
  then show "drain_queue_into slots budget p = (q, slots', filled) \<Longrightarrow> ?thesis"
    by (auto simp: drain_queue_into_def Let_def)
qed

lemma drain_queue_inbound:
  "drain_queue_into slots budget p = (q, slots', filled) \<Longrightarrow> set (po_inbound q) \<subseteq> set (po_inbound p)"
  by (auto simp: drain_queue_into_def Let_def dest: in_set_dropD)

lemma drain_queue_sources:
  assumes "drain_queue_into slots budget p = (q, slots', filled)" and "budget \<le> length slots"
  shows "recv_frame p q" "\<forall>shown \<in> set (take filled slots'). from_queue p shown"
proof -
  show "recv_frame p q" using assms by (auto simp: drain_queue_into_def recv_frame_def Let_def)
  have q: "slots' = fill_slots (take filled (po_inbound p)) slots" "filled = min budget (length (po_inbound p))"
    using assms(1) by (auto simp: drain_queue_into_def Let_def)
  have len: "length (take filled (po_inbound p)) = filled" by (simp add: q)
  show "\<forall>shown \<in> set (take filled slots'). from_queue p shown"
  proof
    fix shown assume "shown \<in> set (take filled slots')"
    then have "\<exists>payload. (rm_addr (snd shown), payload) \<in> set (take filled (po_inbound p)) \<and>
        take (rm_len (snd shown)) (fst shown) = take (length (fst shown)) payload"
      using fill_slots_sources [of "fst shown" "snd shown" "take filled (po_inbound p)" slots] len assms(2) q by simp
    then show "from_queue p shown" by (auto simp: from_queue_def dest: in_set_takeD)
  qed
qed

lemma from_queue_mono: "set (po_inbound q) \<subseteq> set (po_inbound p) \<Longrightarrow> from_queue q shown \<Longrightarrow> from_queue p shown"
  by (auto simp: from_queue_def)

lemma poll_recv_safe:
  assumes "poll_recv K waker slots reads p = Some (p', Polled (Inr got), woken)" and "po_armed p"
    and "shown \<in> set got"
  shows "from_queue p shown \<or>
    (\<exists>raw wire. ReadSlots raw \<in> set reads \<and> wire \<in> set raw \<and> slot_heard p wire shown)"
proof (cases "slots = []")
  case True
  then show ?thesis using assms by (simp add: poll_recv_def)
next
  case False
  then show ?thesis
  proof (rule poll_recv_parts [where p = p and waker = waker and K = K and reads = reads])
    fix p1 budget p2 slots2 filled p3 r w p4 slots4 filled4
    assume p1: "p1 = p\<lparr>po_waker := Some waker, po_prefer_socket := po_prefer_socket p1\<rparr>"
      and b: "budget \<le> length slots"
      and d: "drain_queue_into slots budget p1 = (p2, slots2, filled)"
      and l: "read_loop K (filled > 0) reads p2 = Some (p3, r, w)"
      and e: "drain_queue_into slots2 1 p3 = (p4, slots4, filled4)"
      and poll: "poll_recv K waker slots reads p =
      (if filled = length slots2 then Some (p2, Polled (Inr slots2), [])
       else (case r of
         Some (Inr got) \<Rightarrow> Some (p3, Polled (Inr (take filled slots2 @ got)), w)
       | Some (Inl e) \<Rightarrow> Some (p3, Polled (if filled > 0 then Inr (take filled slots2) else Inl e), w)
       | None \<Rightarrow>
           if filled > 0 then Some (p3, Polled (Inr (take filled slots2)), w)
           else if budget = 0 then
             Some (p4, if filled4 > 0 then Polled (Inr (take filled4 slots4)) else Pending, w)
           else Some (p3, Pending, w)))"
    have f1: "recv_frame p p1" and in1: "po_inbound p1 = po_inbound p" by (subst p1, simp add: recv_frame_def)+
    note first = drain_queue_sources [OF d b] and reads = read_loop_safe [OF l]
    have f2: "recv_frame p p2" by (rule recv_frame_trans [OF f1 first(1)])
    have "length slots2 = length slots" using drain_queue_length [OF d] .
    then have "1 \<le> length slots2" using False by (cases slots) simp_all
    note second = drain_queue_sources [OF e this]
    have in3: "set (po_inbound p3) \<subseteq> set (po_inbound p)"
      using read_loop_inbound [OF l] drain_queue_inbound [OF d] in1 by simp
    have in2: "set (po_inbound p1) \<subseteq> set (po_inbound p)" using in1 by simp
    have q2: "from_queue p x" if "x \<in> set (take filled slots2)" for x
      using first(2) that from_queue_mono [OF in2] by blast
    have q4: "from_queue p x" if "x \<in> set (take filled4 slots4)" for x
      using second(2) that from_queue_mono [OF in3] by blast
    have q3: "\<exists>raw wire. ReadSlots raw \<in> set reads \<and> wire \<in> set raw \<and> slot_heard p wire shown"
      if r: "r = Some (Inr g)" "shown \<in> set g" for g
    proof -
      obtain raw where raw: "ReadSlots raw \<in> set reads" "list_all2 (slot_heard p) raw g"
        using reads r(1) assms(2) armed_cong [OF f2] slot_heard_cong [OF f2] by auto
      then obtain wire where "wire \<in> set raw" "slot_heard p wire shown"
        using r(2) by (metis in_set_conv_nth list_all2_conv_all_nth)
      with raw(1) show ?thesis by blast
    qed
    consider g where "r = Some (Inr g)" "shown \<in> set g" | "shown \<in> set (take filled slots2)"
      | "shown \<in> set (take filled4 slots4)"
      using assms(1,3) unfolding poll by (auto split: if_splits option.splits sum.splits)
    then show ?thesis using q2 q3 q4 by cases blast+
  qed
qed

subsection \<open>The rule on sources is never taken back\<close>

lemma on_egress_armed: "on_egress entry f p = (q, r) \<Longrightarrow> po_armed q = po_armed p"
  by (auto simp: on_egress_def Let_def split: prod.splits)

lemma spawn_armed [simp]: "po_armed (spawn_relay_drain gate entry p) = po_armed p"
  by (simp add: spawn_relay_drain_def)

lemma attach_one_armed [simp]: "po_armed (attach_one now gate synthetic p) = po_armed p"
  by (simp add: attach_one_def ensure_path_def split: prod.split)

lemma queue_probes_armed: "queue_probes K source segments p = (q, woken) \<Longrightarrow> po_armed q = po_armed p"
  using probe_frame_fields(9) [OF queue_probes_frame [of p K source segments]] by simp

lemma poll_recv_armed:
  assumes "poll_recv K waker slots reads p = Some (p', r, woken)"
  shows "po_armed p' = po_armed p"
proof (cases "slots = []")
  case True
  then show ?thesis using assms by (simp add: poll_recv_def)
next
  case False
  then show ?thesis
  proof (rule poll_recv_parts [where p = p and waker = waker and K = K and reads = reads])
    fix p1 budget p2 slots2 filled p3 r' w p4 slots4 filled4
    assume p1: "p1 = p\<lparr>po_waker := Some waker, po_prefer_socket := po_prefer_socket p1\<rparr>"
      and d: "drain_queue_into slots budget p1 = (p2, slots2, filled)"
      and l: "read_loop K (filled > 0) reads p2 = Some (p3, r', w)"
      and e: "drain_queue_into slots2 1 p3 = (p4, slots4, filled4)"
      and poll: "poll_recv K waker slots reads p =
      (if filled = length slots2 then Some (p2, Polled (Inr slots2), [])
       else (case r' of
         Some (Inr got) \<Rightarrow> Some (p3, Polled (Inr (take filled slots2 @ got)), w)
       | Some (Inl e) \<Rightarrow> Some (p3, Polled (if filled > 0 then Inr (take filled slots2) else Inl e), w)
       | None \<Rightarrow>
           if filled > 0 then Some (p3, Polled (Inr (take filled slots2)), w)
           else if budget = 0 then
             Some (p4, if filled4 > 0 then Polled (Inr (take filled4 slots4)) else Pending, w)
           else Some (p3, Pending, w)))"
    have "po_armed p1 = po_armed p" by (subst p1) simp
    moreover have "po_armed p2 = po_armed p1" "po_armed p4 = po_armed p3"
      using d e by (auto simp: drain_queue_into_def Let_def)
    moreover have "po_armed p3 = po_armed p2" using read_loop_safe [OF l] armed_cong by blast
    ultimately show ?thesis using assms unfolding poll by (auto split: if_splits option.splits sum.splits)
  qed
qed

lemma try_recv_armed: "try_recv_probe att p = (q, r) \<Longrightarrow> po_armed q = po_armed p"
  by (auto simp: try_recv_probe_def Let_def split: option.splits)

lemma try_recv_armed_fst: "po_armed (fst (try_recv_probe att p)) = po_armed p"
  using try_recv_armed [of att p] by (cases "try_recv_probe att p") simp

lemma attach_arms: "po_armed (attach_gate now gate p)"
proof -
  have "po_armed (fold (attach_one now gate) l q) = po_armed q" for l q by (induction l arbitrary: q) simp_all
  then show ?thesis by (simp add: attach_gate_def arm_def Let_def split: prod.split)
qed

lemma porch_step_armed:
  assumes "porch_step K c p = Some (p', outs)" and "po_armed p"
  shows "po_armed p'"
proof (cases c)
  case (DrainTurn refilled_at now task sends)
  then show ?thesis
    using assms by (auto simp: drain_turn_def Let_def dest: on_egress_armed split: if_splits prod.splits drain_next.splits)
next
  case (SendProbe now wire addr probe)
  then show ?thesis
    using assms by (auto simp: send_probe_def send_probe_relayed_def Let_def dest: on_egress_armed
        split: option.splits sum.splits prod.splits)
next
  case (TrySend now task wire tx)
  have "po_armed (note_relay_intent task d p) = po_armed p" for d
    by (simp add: note_relay_intent_def split: option.split)
  then show ?thesis
    using assms TrySend by (auto simp: try_send_def Let_def dest: on_egress_armed
        split: option.splits sum.splits prod.splits if_splits)
next
  case (GateDatagram datagram)
  then show ?thesis
    using assms by (auto simp: gate_datagram_def deliver_synthetic_def Let_def dest: queue_probes_armed
        split: option.splits sum.splits prod.splits if_splits)
next
  case (PollRecv waker slots reads)
  then show ?thesis using assms poll_recv_armed by (auto simp: map_option_case split: option.splits)
next
  case (PollWritable task waker n adopted)
  have "po_armed (fst (take_relay_intent task p)) = po_armed p"
    by (simp add: take_relay_intent_def split: option.split)
  then show ?thesis
    using assms PollWritable by (auto simp: poll_writable_def Let_def dest: on_egress_armed
        split: option.splits prod.splits if_splits)
next
  case (RegisterSession now session synthetic)
  then show ?thesis
    using assms by (auto simp: register_relay_session_def ensure_path_def Let_def split: option.splits prod.splits if_splits)
next
  case (AttachGate now gate)
  then show ?thesis using assms attach_arms [of now gate p] by auto
next
  case (DetachGate addr)
  then show ?thesis using assms by (auto simp: detach_gate_def forget_source_def Let_def split: option.splits if_splits)
next
  case (PollProbe att waker)
  then show ?thesis
    using assms by (auto simp: poll_probe_def try_recv_armed_fst dest!: try_recv_armed split: option.splits prod.splits)
next
  case (TryRecvProbe att)
  then show ?thesis using assms by (auto simp: try_recv_probe_def Let_def split: option.splits)
qed (use assms in \<open>auto simp: allow_source_def forget_source_def arm_def arm_probe_key_def disarm_probe_key_def
    insert_relay_path_def Let_def\<close>)

lemma porch_run_armed: "porch_run K cs p = Some (p', outs) \<Longrightarrow> po_armed p \<Longrightarrow> po_armed p'"
  by (induction cs arbitrary: p outs) (auto simp: bind_eq_Some_conv dest: porch_step_armed)

lemma porch_run_append:
  "porch_run K (cs @ ds) p = Option.bind (porch_run K cs p) (\<lambda>(p, outs).
     Option.bind (porch_run K ds p) (\<lambda>(p, outs'). Some (p, outs @ outs')))"
proof (induction cs arbitrary: p)
  case Nil
  show ?case by (cases "porch_run K ds p") auto
next
  case (Cons c cs)
  then show ?case by (auto simp: bind_eq_Some_conv split: Option.bind_split)
qed

subsection \<open>What waits in the queue came from a registered session\<close>

lemma on_egress_inbound: "on_egress entry f p = (q, r) \<Longrightarrow> po_inbound q = po_inbound p"
  by (auto simp: on_egress_def Let_def split: prod.splits)

lemma spawn_inbound [simp]: "po_inbound (spawn_relay_drain gate entry p) = po_inbound p"
  by (simp add: spawn_relay_drain_def)

lemma attach_one_inbound [simp]: "po_inbound (attach_one now gate synthetic p) = po_inbound p"
  by (simp add: attach_one_def ensure_path_def split: prod.split)

lemma attach_gate_inbound [simp]: "po_inbound (attach_gate now gate p) = po_inbound p"
proof -
  have "po_inbound (fold (attach_one now gate) l q) = po_inbound q" for l q by (induction l arbitrary: q) simp_all
  then show ?thesis by (simp add: attach_gate_def arm_def allow_source_def Let_def)
qed

lemma queue_probes_inbound: "queue_probes K source segments p = (q, woken) \<Longrightarrow> po_inbound q = po_inbound p"
  using probe_frame_fields(3) [OF queue_probes_frame [of p K source segments]] by simp

lemma try_recv_inbound_fst: "po_inbound (fst (try_recv_probe att p)) = po_inbound p"
  by (simp add: try_recv_probe_def Let_def split: option.split list.split)

lemma try_recv_inbound: "try_recv_probe att p = (q, r) \<Longrightarrow> po_inbound q = po_inbound p"
  using try_recv_inbound_fst [of att p] by simp

lemma poll_recv_inbound:
  assumes "poll_recv K waker slots reads p = Some (p', r, woken)"
  shows "set (po_inbound p') \<subseteq> set (po_inbound p)"
proof (cases "slots = []")
  case True
  then show ?thesis using assms by (simp add: poll_recv_def)
next
  case False
  then show ?thesis
  proof (rule poll_recv_parts [where p = p and waker = waker and K = K and reads = reads])
    fix p1 budget p2 slots2 filled p3 r' w p4 slots4 filled4
    assume p1: "p1 = p\<lparr>po_waker := Some waker, po_prefer_socket := po_prefer_socket p1\<rparr>"
      and d: "drain_queue_into slots budget p1 = (p2, slots2, filled)"
      and l: "read_loop K (filled > 0) reads p2 = Some (p3, r', w)"
      and e: "drain_queue_into slots2 1 p3 = (p4, slots4, filled4)"
      and poll: "poll_recv K waker slots reads p =
      (if filled = length slots2 then Some (p2, Polled (Inr slots2), [])
       else (case r' of
         Some (Inr got) \<Rightarrow> Some (p3, Polled (Inr (take filled slots2 @ got)), w)
       | Some (Inl e) \<Rightarrow> Some (p3, Polled (if filled > 0 then Inr (take filled slots2) else Inl e), w)
       | None \<Rightarrow>
           if filled > 0 then Some (p3, Polled (Inr (take filled slots2)), w)
           else if budget = 0 then
             Some (p4, if filled4 > 0 then Polled (Inr (take filled4 slots4)) else Pending, w)
           else Some (p3, Pending, w)))"
    have "po_inbound p1 = po_inbound p" by (subst p1) simp
    moreover have "po_inbound p3 = po_inbound p2" by (rule read_loop_inbound [OF l])
    moreover note drain_queue_inbound [OF d] drain_queue_inbound [OF e]
    ultimately show ?thesis using assms unfolding poll by (auto split: if_splits option.splits sum.splits)
  qed
qed

lemma deliver_inbound:
  assumes "deliver_synthetic K session payload p = (p', outs)" and "(addr, x) \<in> set (po_inbound p')"
  shows "(addr, x) \<in> set (po_inbound p) \<or> x = payload \<and> hm_get (po_by_session p) session = Some addr"
  using assms by (auto simp: deliver_synthetic_def Let_def dest: queue_probes_inbound
      split: option.splits prod.splits if_splits)

lemma porch_step_inbound:
  assumes "porch_step K c p = Some (p', outs)" and "(addr, payload) \<in> set (po_inbound p')"
  shows "(addr, payload) \<in> set (po_inbound p) \<or>
    (\<exists>d session. c = GateDatagram d \<and> decode_relay d = Inr (session, payload) \<and>
       hm_get (po_by_session p) session = Some addr)"
proof (cases c)
  case (GateDatagram datagram)
  then show ?thesis
    using assms by (auto simp: gate_datagram_def dest: deliver_inbound split: sum.splits)
next
  case (PollRecv waker slots reads)
  then show ?thesis using assms poll_recv_inbound by (fastforce simp: map_option_case split: option.splits)
next
  case (DrainTurn refilled_at now task sends)
  then show ?thesis
    using assms by (auto simp: drain_turn_def Let_def dest: on_egress_inbound split: if_splits prod.splits drain_next.splits)
next
  case (SendProbe now wire addr probe)
  then show ?thesis
    using assms by (auto simp: send_probe_def send_probe_relayed_def Let_def dest: on_egress_inbound
        split: option.splits sum.splits prod.splits)
next
  case (TrySend now task wire tx)
  have "po_inbound (note_relay_intent task d p) = po_inbound p" for d
    by (simp add: note_relay_intent_def split: option.split)
  then show ?thesis
    using assms TrySend by (auto simp: try_send_def Let_def dest: on_egress_inbound
        split: option.splits sum.splits prod.splits if_splits)
next
  case (PollWritable task waker n adopted)
  have "po_inbound (fst (take_relay_intent task p)) = po_inbound p"
    by (simp add: take_relay_intent_def split: option.split)
  then show ?thesis
    using assms PollWritable by (auto simp: poll_writable_def Let_def dest: on_egress_inbound
        split: option.splits prod.splits if_splits)
next
  case (RegisterSession now session synthetic)
  then show ?thesis
    using assms by (auto simp: register_relay_session_def ensure_path_def Let_def split: option.splits prod.splits if_splits)
next
  case (DetachGate addr)
  then show ?thesis using assms by (auto simp: detach_gate_def forget_source_def Let_def split: option.splits if_splits)
next
  case (PollProbe att waker)
  then show ?thesis
    using assms by (auto simp: poll_probe_def try_recv_inbound_fst dest!: try_recv_inbound split: option.splits prod.splits)
next
  case (TryRecvProbe att)
  then show ?thesis using assms by (auto simp: try_recv_inbound_fst)
qed (use assms in \<open>auto simp: allow_source_def forget_source_def arm_def arm_probe_key_def disarm_probe_key_def
    insert_relay_path_def Let_def\<close>)

text \<open>Every datagram that waits was relayed to a session that was registered when it came.\<close>

lemma queued_was_relayed:
  assumes "porch_run K calls p = Some (p', outs)" and "(addr, payload) \<in> set (po_inbound p')"
  shows "(addr, payload) \<in> set (po_inbound p) \<or>
    (\<exists>before d after q o1 session. calls = before @ GateDatagram d # after \<and>
       porch_run K before p = Some (q, o1) \<and> decode_relay d = Inr (session, payload) \<and>
       hm_get (po_by_session q) session = Some addr)"
  using assms
proof (induction calls arbitrary: p outs)
  case (Cons c calls)
  obtain q o1 o2 where step: "porch_step K c p = Some (q, o1)" "porch_run K calls q = Some (p', o2)"
    using Cons.prems(1) by (auto simp: bind_eq_Some_conv)
  from Cons.IH [OF step(2) Cons.prems(2)] show ?case
  proof (elim disjE exE conjE)
    assume "(addr, payload) \<in> set (po_inbound q)"
    from porch_step_inbound [OF step(1) this] show ?thesis
      by (metis append_Nil porch_run.simps(1))
  next
    fix before d after r o3 session
    assume *: "calls = before @ GateDatagram d # after" "porch_run K before q = Some (r, o3)"
      "decode_relay d = Inr (session, payload)" "hm_get (po_by_session r) session = Some addr"
    then have "c # calls = (c # before) @ GateDatagram d # after" "porch_run K (c # before) p = Some (r, o1 @ o3)"
      by (simp_all add: step(1))
    with *(3,4) show ?thesis by blast
  qed
qed simp

section \<open>One transmit over the relay\<close>

definition egress_items :: "porch \<Rightarrow> nat \<Rightarrow> bytes list" where
  "egress_items p entry = map snd (rs_items (pi_egress (pt_entries (po_paths p) ! entry)))"

lemma enqueue_items:
  assumes "entry < length (pt_entries (po_paths p))" and "on_egress entry (try_enqueue_all now payloads) p = (q, r)"
  shows "egress_items q entry = egress_items p entry @ (if r = Accepted then payloads else [])"
  using assms by (auto simp: on_egress_def try_enqueue_all_def egress_items_def Let_def comp_def split: if_splits prod.splits)

lemma entry_in_range: "pt_wf t \<Longrightarrow> get_by_synthetic synthetic t = Some entry \<Longrightarrow> entry < length (pt_entries t)"
  using hm_get_in_range [of "pt_by_synthetic t" synthetic entry] by (auto simp: pt_wf_def get_by_synthetic_def)

lemma encode_all_length: "encode_all session xs = Inr ys \<Longrightarrow> length ys = length xs"
  by (induction xs arbitrary: ys) (auto simp: and_then_eq_Inr)

text \<open>The other end: the reader of its gate connection, one datagram at a time.\<close>

definition gate_reader :: "crypto \<Rightarrow> bytes list \<Rightarrow> porch \<Rightarrow> porch" where
  "gate_reader K datagrams q = fold (\<lambda>d q. fst (gate_datagram K d q)) datagrams q"

lemma gate_reader_delivers:
  assumes "encode_all session xs = Inr ys" and "hm_get (po_by_session q) session = Some addr"
    and "\<forall>x \<in> set xs. \<not> is_probe x" and "length (po_inbound q) + length xs \<le> INBOUND_RELAY_QUEUE_CAP"
  shows "po_inbound (gate_reader K ys q) = po_inbound q @ map (Pair addr) xs"
  using assms
proof (induction xs arbitrary: ys q)
  case (Cons x xs)
  then obtain y ys' where y: "encode_relay session x = Inr y" "encode_all session xs = Inr ys'" "ys = y # ys'"
    by (auto simp: and_then_eq_Inr)
  let ?q = "fst (gate_datagram K y q)"
  have q: "po_inbound ?q = po_inbound q @ [(addr, x)]" "po_by_session ?q = po_by_session q"
    using Cons.prems by (auto simp: gate_datagram_def decode_encode_relay [OF y(1)] deliver_synthetic_def Let_def split: option.split)
  show ?case
    using Cons.IH [OF y(2), of ?q] Cons.prems q by (simp add: gate_reader_def y(3))
qed (simp add: gate_reader_def)

lemma try_send_relayed:
  assumes "porch_ok p" and "hm_get (po_by_synthetic p) (tx_destination tx) = Some session"
    and "path_by_synthetic (tx_destination tx) p = Some entry" and "entry_direct (po_paths p) entry = None"
    and "try_send now task wire tx p = ((p', r), outs)"
    and "segments = chunks (or_default (length (tx_contents tx)) (tx_segment_size tx)) (tx_contents tx)"
  shows "outs = [] \<and> (case r of
      Inl e \<Rightarrow> egress_items p' entry = egress_items p entry
    | Inr _ \<Rightarrow> \<exists>payloads. encode_all session segments = Inr payloads \<and>
        egress_items p' entry = egress_items p entry @ payloads)"
proof -
  have note_paths: "po_paths (note_relay_intent task d p) = po_paths p" for d
    by (simp add: note_relay_intent_def split: option.split)
  then have items: "egress_items (note_relay_intent task d p) entry = egress_items p entry" for d
    by (simp add: egress_items_def)
  have range: "entry < length (pt_entries (po_paths p))"
    using assms(1,3) entry_in_range by (auto simp: porch_ok_def porch_base_def path_by_synthetic_def)
  have nil: "chunks 0 xs = []" for xs :: bytes by (simp add: chunks.simps [of 0])
  consider "po_gate p = None" | "po_gate p \<noteq> None" "or_default (length (tx_contents tx)) (tx_segment_size tx) = 0"
    | e where "po_gate p \<noteq> None" "or_default (length (tx_contents tx)) (tx_segment_size tx) \<noteq> 0" "encode_all session segments = Inl e"
    | payloads where "po_gate p \<noteq> None" "or_default (length (tx_contents tx)) (tx_segment_size tx) \<noteq> 0"
        "encode_all session segments = Inr payloads"
    by (cases "encode_all session segments") blast+
  then show ?thesis
  proof cases
    case (4 payloads)
    obtain q res where q: "on_egress entry (try_enqueue_all now payloads) (note_relay_intent task (Some (tx_destination tx)) p) = (q, res)"
      by (cases "on_egress entry (try_enqueue_all now payloads) (note_relay_intent task (Some (tx_destination tx)) p)")
    have "egress_items q entry = egress_items p entry @ (if res = Accepted then payloads else [])"
      using enqueue_items [OF _ q] range by (simp add: note_paths items)
    moreover have "p' = q" "outs = []" "r = (case res of Accepted \<Rightarrow> Inr () | Full \<Rightarrow> Inl WouldBlock
        | ClosedQueue \<Rightarrow> Inl (IoOther ''relay session closed''))"
      using 4 assms(2-6) q by (auto simp: try_send_def Let_def)
    ultimately show ?thesis using 4 by (cases res) simp_all
  qed (use assms(2-6) nil in \<open>auto simp: try_send_def Let_def\<close>)
qed
end
