(* ===== verification/Porch_Props.thy ===== *)
theory Porch_Props
  imports Porch_Laws Demo
begin

text \<open>The properties of the porch socket.\<close>

section \<open>Bounds\<close>

lemma queued_probes_bound:
  assumes "probes_ok keys probes"
  shows "sum_list (map (length \<circ> snd) probes) \<le> INBOUND_PROBE_QUEUE_CAP * length keys"
proof -
  have wf: "distinct (map fst probes)" "distinct (map fst keys)" and sub: "fst ` set probes \<subseteq> fst ` set keys"
    using assms by (simp_all add: probes_ok_def hm_wf_def)
  have "length queue \<le> INBOUND_PROBE_QUEUE_CAP" if "(att, queue) \<in> set probes" for att queue
    using assms that wf by (simp add: probes_ok_def)
  then have "sum_list (map (length \<circ> snd) probes) \<le> sum_list (map (\<lambda>_. INBOUND_PROBE_QUEUE_CAP) probes)"
    by (intro sum_list_mono) auto
  also have "\<dots> = INBOUND_PROBE_QUEUE_CAP * length probes" by (simp add: sum_list_triv)
  also have "length probes = card (fst ` set probes)" using distinct_card [OF wf(1)] by simp
  also have "card (fst ` set probes) \<le> card (fst ` set keys)" using sub by (rule card_mono [rotated]) simp
  also have "card (fst ` set keys) = length keys" using distinct_card [OF wf(2)] by simp
  finally show ?thesis by (simp add: comp_def)
qed

text \<open>C11: The socket never hangs and never grows without bound: whatever is called, in whatever order
  and with whatever from the network, every call returns (the loop over a receive buffer
  included), at most 1024 relayed datagrams wait for quinn, and at most 1024 probes for each
  attempt whose key is armed, none for another.\<close>

theorem porch_returns_bounded:
  "\<exists>p outs. porch_run K calls (porch_new v6) = Some (p, outs) \<and>
     length (po_inbound p) \<le> 1024 \<and> queued_probes p \<le> 1024 * length (po_probe_keys p) \<and>
     fst ` set (po_probes p) \<subseteq> fst ` set (po_probe_keys p)"
proof -
  obtain p outs where run: "porch_run K calls (porch_new v6) = Some (p, outs)" using porch_run_ok by blast
  then have "porch_ok p" by (rule porch_reached_ok)
  then have "length (po_inbound p) \<le> INBOUND_RELAY_QUEUE_CAP" "probes_ok (po_probe_keys p) (po_probes p)"
    by (simp_all add: porch_ok_def porch_base_def)
  then show ?thesis
    using run queued_probes_bound by (auto simp: queued_probes_def probes_ok_def INBOUND_RELAY_QUEUE_CAP_def
        INBOUND_PROBE_QUEUE_CAP_def)
qed

section \<open>Sources\<close>

text \<open>An address is admitted exactly while some connection that named it holds its lease: giving
  up one lease does not shut out an address that another lease holds.\<close>

theorem sources_of_live_leases:
  assumes "porch_run K calls (porch_new v6) = Some (p, outs)"
  shows "(is_source_allowed addr p \<longleftrightarrow>
      (\<exists>held l. hm_get (as_by_lease (po_sources p)) held = Some l \<and> unmap_v4 addr \<in> set l)) \<and>
    (is_source_allowed addr (forget_source lease p) \<longleftrightarrow>
      (\<exists>other l. other \<noteq> lease \<and> hm_get (as_by_lease (po_sources p)) other = Some l \<and> unmap_v4 addr \<in> set l))"
proof -
  have ok: "sources_ok (po_sources p)" using porch_reached_ok [OF assms] by (simp add: porch_ok_def porch_base_def)
  have "hm_get (as_by_lease (sources_forget lease (po_sources p))) other =
      (if other = lease then None else hm_get (as_by_lease (po_sources p)) other)" for other
    by (simp add: sources_forget_def hm_get_remove split: option.split)
  then show ?thesis
    using sources_contain_iff [OF ok] sources_contain_iff [OF sources_forget_ok [OF ok, of lease]]
    by (auto simp: is_source_allowed_def forget_source_def)
qed

abbreviation demo_remote :: socket_addr where "demo_remote \<equiv> V4 [192, 0, 2, 1] 9"

theorem sources_of_live_leases_witness:
  "is_source_allowed demo_remote
     (forget_source 0 (fst (the (porch_run demo_crypto [AllowSource demo_remote, AllowSource demo_remote] (porch_new False)))))"
proof -
  let ?calls = "[AllowSource demo_remote, AllowSource demo_remote]"
  obtain p outs where run: "porch_run demo_crypto ?calls (porch_new False) = Some (p, outs)"
    using porch_run_ok by blast
  have "hm_get (as_by_lease (po_sources p)) 1 = Some [demo_remote]"
    using run by (auto simp: allow_source_def sources_allow_def porch_new_def sources_empty_def or_default_def unmap_v4_def Let_def)
  then have "\<exists>other l. other \<noteq> 0 \<and> hm_get (as_by_lease (po_sources p)) other = Some l \<and> unmap_v4 demo_remote \<in> set l"
    by (intro exI [of _ 1]) (simp add: unmap_v4_def)
  then show ?thesis using sources_of_live_leases [OF run, of demo_remote 0] run by simp
qed

text \<open>C12: A stranger is never heard. Once the socket was armed, or a gate attached, each slot with
  bytes that a read shows to quinn is one of two things, whatever else was called in between. Either
  it is a datagram that the gate relayed earlier to a session that was registered then, shown as
  coming from the address of that session. Or it is a datagram that the socket read, without
  its probes, and what stood on the wire as its source decides: an address that some live
  lease names is shown as it is, and otherwise the source is the very address that a peer's
  path is direct to and quinn is shown the synthetic address of that path. A datagram with
  any other source on the wire does not reach quinn.\<close>

theorem stranger_never_heard:
  assumes "porch_run K calls (porch_new v6) = Some (p, outs)" and "Arm \<in> set calls \<or> AttachGate now gate \<in> set calls"
    and "poll_recv K waker slots reads p = Some (p', Polled (Inr got), woken)"
    and "(buf, meta) \<in> set got" and "0 < rm_len meta"
  shows "(\<exists>before d after q o1 session payload.
        calls = before @ GateDatagram d # after \<and> porch_run K before (porch_new v6) = Some (q, o1) \<and>
        decode_relay d = Inr (session, payload) \<and> hm_get (po_by_session q) session = Some (rm_addr meta) \<and>
        take (rm_len meta) buf = take (length buf) payload) \<or>
    (\<exists>raw wirebuf wire. ReadSlots raw \<in> set reads \<and> (wirebuf, wire) \<in> set raw \<and>
        take (rm_len meta) buf = quic_bytes (wirebuf, wire) \<and>
        (if \<exists>lease l. hm_get (as_by_lease (po_sources p)) lease = Some l \<and> unmap_v4 (rm_addr wire) \<in> set l
         then rm_addr meta = rm_addr wire
         else \<exists>entry. get_by_synthetic (rm_addr meta) (po_paths p) = Some entry \<and>
           entry_direct (po_paths p) entry = Some (unmap_v4 (rm_addr wire))))"
proof -
  obtain c before after where calls: "calls = before @ c # after" and c: "c = Arm \<or> c = AttachGate now gate"
    using assms(2) by (metis split_list)
  then obtain q r o1 o2 o3 where q: "porch_run K before (porch_new v6) = Some (q, o1)" "porch_step K c q = Some (r, o2)"
    "porch_run K after r = Some (p, o3)"
    using assms(1) by (auto simp: porch_run_append bind_eq_Some_conv)
  have "po_armed r" using q(2) c attach_arms [of now gate q] by (auto simp: arm_def)
  then have "po_armed p" using porch_run_armed [OF q(3)] by simp
  from poll_recv_safe [OF assms(3) this assms(4)] show ?thesis
  proof (elim disjE exE conjE)
    assume "from_queue p (buf, meta)"
    then obtain payload where x: "(rm_addr meta, payload) \<in> set (po_inbound p)"
      "take (rm_len meta) buf = take (length buf) payload" by (auto simp: from_queue_def)
    have "(rm_addr meta, payload) \<notin> set (po_inbound (porch_new v6))" by (simp add: porch_new_def)
    with queued_was_relayed [OF assms(1) x(1)] x(2) show ?thesis by blast
  next
    fix raw wire assume w: "ReadSlots raw \<in> set reads" "wire \<in> set raw" "slot_heard p wire (buf, meta)"
    have ok: "sources_ok (po_sources p)" "hm_wf (pt_by_synthetic (po_paths p))"
      using porch_reached_ok [OF assms(1)] by (simp_all add: porch_ok_def porch_base_def pt_wf_def)
    obtain wirebuf m where wire: "wire = (wirebuf, m)" by (cases wire)
    have "take (rm_len meta) buf = quic_bytes (wirebuf, m)" "heard_as p (rm_addr m) (rm_addr meta)"
      using w(3) assms(5) by (simp_all add: slot_heard_def wire)
    with w(1,2) show ?thesis
      unfolding wire heard_as_def is_source_allowed_def sources_contain_iff [OF ok(1)] get_by_synthetic_def
        hm_get_iff_mem [OF ok(2)] by (intro disjI2 exI conjI)
  qed
qed

definition demo_porch_calls :: "porch_call list" where
  "demo_porch_calls = [AllowSource demo_remote, Arm]"

definition demo_slot :: "bytes \<times> recv_meta" where
  "demo_slot = ([7, 8], \<lparr>rm_addr = demo_remote, rm_len = 2, rm_stride = 2\<rparr>)"

theorem stranger_never_heard_witness:
  "\<exists>p p' outs woken. porch_run demo_crypto demo_porch_calls (porch_new False) = Some (p, outs) \<and>
     poll_recv demo_crypto 5 [demo_slot] [ReadSlots [demo_slot]] p = Some (p', Polled (Inr [demo_slot]), woken) \<and>
     quic_bytes demo_slot = [7, 8] \<and>
     ((\<exists>lease l. hm_get (as_by_lease (po_sources p)) lease = Some l \<and> demo_remote \<in> set l) \<or>
      (\<exists>entry. get_by_synthetic demo_remote (po_paths p) = Some entry \<and>
        entry_direct (po_paths p) entry = Some demo_remote))"
proof -
  obtain p where run: "porch_run demo_crypto demo_porch_calls (porch_new False) = Some (p, [])"
    and p: "p = arm (fst (allow_source demo_remote (porch_new False)))"
    by (simp add: demo_porch_calls_def)
  have "sources_contain (po_sources p) demo_remote"
    by (simp add: p arm_def allow_source_def sources_allow_def porch_new_def sources_empty_def sources_contain_def
        unmap_v4_def Let_def)
  moreover have "filter_probes demo_crypto [7, 8] \<lparr>rm_addr = demo_remote, rm_len = 2, rm_stride = 2\<rparr> q =
      Some (q, [7, 8], 2, [])" for q
    by (simp add: filter_probes_def filter_loop.simps is_probe_def slice_def PROBE_LEN_def)
  moreover have "po_inbound p = []"
    by (simp add: p arm_def allow_source_def porch_new_def Let_def)
  ultimately obtain p' where poll:
    "poll_recv demo_crypto 5 [demo_slot] [ReadSlots [demo_slot]] p = Some (p', Polled (Inr [demo_slot]), [])"
    by (simp add: poll_recv_def drain_queue_into_def demultiplex_slot_def classify_source_def demo_slot_def unmap_v4_def
        Let_def)
  have "([7, 8], \<lparr>rm_addr = demo_remote, rm_len = 2, rm_stride = 2\<rparr>) \<in> set [demo_slot]"
    by (simp add: demo_slot_def)
  moreover have "Arm \<in> set demo_porch_calls \<or> AttachGate 0 (0, demo_remote) \<in> set demo_porch_calls"
    by (simp add: demo_porch_calls_def)
  moreover have "demo_porch_calls \<noteq> before @ GateDatagram d # after" for before d after
  proof
    assume "demo_porch_calls = before @ GateDatagram d # after"
    then have "GateDatagram d \<in> set demo_porch_calls" by (metis in_set_conv_decomp)
    then show False by (simp add: demo_porch_calls_def)
  qed
  ultimately have "quic_bytes demo_slot = [7, 8] \<and>
     ((\<exists>lease l. hm_get (as_by_lease (po_sources p)) lease = Some l \<and> demo_remote \<in> set l) \<or>
      (\<exists>entry. get_by_synthetic demo_remote (po_paths p) = Some entry \<and>
        entry_direct (po_paths p) entry = Some demo_remote))"
    using stranger_never_heard [OF run _ poll, of 0 "(0, demo_remote)" "[7, 8]"
        "\<lparr>rm_addr = demo_remote, rm_len = 2, rm_stride = 2\<rparr>"]
    by (auto simp: demo_slot_def unmap_v4_def split: if_splits)
  then show ?thesis using run poll by blast
qed

section \<open>Probes among the segments\<close>

text \<open>C14: One buffer of coalesced segments. The filter returns, quinn gets exactly the segments that
  are no probes, in their order and cut the same way, and the probes among them, in their order,
  are queued for their attempts.\<close>

theorem gro_split:
  assumes "0 < rm_stride meta" and "segments = chunks (rm_stride meta) (take (rm_len meta) buf)"
  shows "\<exists>p' buf' kept woken. filter_probes K buf meta p = Some (p', buf', kept, woken) \<and>
    chunks (rm_stride meta) (take kept buf') = filter (\<lambda>s. \<not> is_probe s) segments \<and>
    (p', woken) = (if filter is_probe segments = [] then (p, [])
       else queue_probes K (unmap_v4 (rm_addr meta)) (filter is_probe segments) p) \<and>
    length buf' = length buf"
proof -
  obtain p' buf' kept woken where f: "filter_probes K buf meta p = Some (p', buf', kept, woken)"
    using filter_probes_total by blast
  note out = filter_probes_split [OF f assms(1), folded assms(2)]
  have "chunks (rm_stride meta) (take kept buf') = filter (\<lambda>s. \<not> is_probe s) segments"
    unfolding out(1) assms(2) by (rule chunks_filter)
  moreover have "(p', woken) = (if filter is_probe segments = [] then (p, [])
       else queue_probes K (unmap_v4 (rm_addr meta)) (filter is_probe segments) p)"
    using out(2) by (simp split: list.splits)
  ultimately show ?thesis using f out(4) by blast
qed

definition demo_probe_segment :: bytes where
  "demo_probe_segment = PROBE_DISCRIMINATOR # replicate 80 0"

theorem gro_split_witness:
  "\<exists>p' buf' kept woken. filter_probes demo_crypto (demo_probe_segment @ [1, 2, 3])
       \<lparr>rm_addr = demo_remote, rm_len = 84, rm_stride = 81\<rparr> (porch_new False) = Some (p', buf', kept, woken) \<and>
     chunks 81 (take kept buf') = [[1, 2, 3]]"
proof -
  let ?m = "\<lparr>rm_addr = demo_remote, rm_len = 84, rm_stride = 81\<rparr>"
  let ?buf = "demo_probe_segment @ [1, 2, 3]"
  have len: "length demo_probe_segment = 81" by (simp add: demo_probe_segment_def)
  have "chunks 81 ?buf = [demo_probe_segment, [1, 2, 3]]"
    by (subst chunks_cons; simp add: len) (subst chunks_cons; simp)
  moreover have "take 84 ?buf = ?buf" by (simp add: len)
  ultimately have cut: "[demo_probe_segment, [1, 2, 3]] = chunks (rm_stride ?m) (take (rm_len ?m) ?buf)" by simp
  have pos: "0 < rm_stride ?m" by simp
  have "is_probe demo_probe_segment" "\<not> is_probe [1, 2, 3]"
    by (simp_all add: is_probe_def len PROBE_LEN_def) (simp add: demo_probe_segment_def)
  then have segs: "filter (\<lambda>s. \<not> is_probe s) [demo_probe_segment, [1, 2, 3]] = [[1, 2, 3]]" by simp
  obtain p' buf' kept woken where "filter_probes demo_crypto ?buf ?m (porch_new False) = Some (p', buf', kept, woken)"
    "chunks (rm_stride ?m) (take kept buf') = filter (\<lambda>s. \<not> is_probe s) [demo_probe_segment, [1, 2, 3]]"
    using gro_split [OF pos cut, of demo_crypto "porch_new False"] by blast
  then show ?thesis unfolding segs by auto
qed

section \<open>The relay leg\<close>

text \<open>C13: A transmit to a peer without a direct path never goes out on the wire. It enters the queue
  of the relay path whole, one datagram for each segment, or not at all; and the reader of the
  gate connection at the other end hands those datagrams to its quinn as the same segments, in
  order, from the address that the session stands for there.\<close>

theorem relayed_transmit_arrives:
  assumes "porch_run K calls (porch_new v6) = Some (p, before)"
    and "hm_get (po_by_synthetic p) (tx_destination tx) = Some session"
    and "path_by_synthetic (tx_destination tx) p = Some entry" and "entry_direct (po_paths p) entry = None"
    and "try_send now task wire tx p = ((p', r), outs)"
    and "segments = chunks (or_default (length (tx_contents tx)) (tx_segment_size tx)) (tx_contents tx)"
    and "hm_get (po_by_session q) session = Some addr" and "\<forall>s \<in> set segments. \<not> is_probe s"
    and "length (po_inbound q) + length segments \<le> INBOUND_RELAY_QUEUE_CAP"
  shows "outs = [] \<and>
    (case r of
       Inl e \<Rightarrow> egress_items p' entry = egress_items p entry
     | Inr _ \<Rightarrow> \<exists>payloads. egress_items p' entry = egress_items p entry @ payloads \<and>
         po_inbound (gate_reader K' payloads q) = po_inbound q @ map (Pair addr) segments)"
  using try_send_relayed [OF porch_reached_ok [OF assms(1)] assms(2-6)] gate_reader_delivers [OF _ assms(7-9)]
  by (auto split: sum.splits)

definition demo_synthetic :: socket_addr where
  "demo_synthetic = V6 (0xFD # replicate 15 1) 1 0 0"

definition demo_side :: porch where
  "demo_side = attach_gate 0 (0, demo_remote) (register_relay_session 0 4 demo_synthetic (porch_new False))"

definition demo_tx :: transmit where
  "demo_tx = \<lparr>tx_destination = demo_synthetic, tx_ecn = None, tx_contents = [1, 2, 3],
     tx_segment_size = Some 2, tx_src_ip = None\<rparr>"

lemma demo_side_run:
  "porch_run demo_crypto [RegisterSession 0 4 demo_synthetic, AttachGate 0 (0, demo_remote)] (porch_new False) =
     Some (demo_side, [])"
  by (simp add: demo_side_def)

lemma demo_side_parts:
  "po_by_synthetic demo_side = [(demo_synthetic, 4)]" "po_by_session demo_side = [(4, demo_synthetic)]"
  "po_paths demo_side = \<lparr>pt_entries = [path_new_relay 0], pt_by_peer = [], pt_by_synthetic = [(demo_synthetic, 0)]\<rparr>"
  "po_gate demo_side = Some (0, demo_remote)" "po_inbound demo_side = []" "po_by_synthetic demo_side = [(demo_synthetic, 4)]"
  by (simp_all add: demo_side_def register_relay_session_def ensure_path_def ensure_by_synthetic_def porch_new_def
      path_table_new_def attach_gate_def allow_source_def arm_def attach_one_def spawn_relay_drain_def Let_def)

theorem relayed_transmit_arrives_witness:
  "\<exists>payloads. egress_items (fst (fst (try_send 5 None (Inr ()) demo_tx demo_side))) 0 = payloads \<and>
     po_inbound (gate_reader demo_crypto payloads demo_side) = map (Pair demo_synthetic) [[1, 2], [3]]"
proof -
  let ?segments = "[[1, 2], [3]] :: bytes list"
  have cut: "?segments = chunks (or_default (length (tx_contents demo_tx)) (tx_segment_size demo_tx)) (tx_contents demo_tx)"
    by (simp add: demo_tx_def or_default_def chunks.simps)
  have route: "hm_get (po_by_synthetic demo_side) (tx_destination demo_tx) = Some 4"
    "path_by_synthetic (tx_destination demo_tx) demo_side = Some 0" "entry_direct (po_paths demo_side) 0 = None"
    "hm_get (po_by_session demo_side) 4 = Some demo_synthetic"
    by (simp_all add: demo_side_parts demo_tx_def path_by_synthetic_def get_by_synthetic_def path_new_relay_def direct_addr_def)
  have "\<forall>s \<in> set ?segments. \<not> is_probe s" "length (po_inbound demo_side) + length ?segments \<le> INBOUND_RELAY_QUEUE_CAP"
    by (simp_all add: is_probe_def PROBE_LEN_def demo_side_parts INBOUND_RELAY_QUEUE_CAP_def)
  note rest = this
  obtain p' r outs where sent: "try_send 5 None (Inr ()) demo_tx demo_side = ((p', r), outs)"
    by (cases "try_send 5 None (Inr ()) demo_tx demo_side") auto
  define ys where "ys = [RELAY_DISCRIMINATOR # to_be 4 (4 :: u32) @ [1, 2], RELAY_DISCRIMINATOR # to_be 4 (4 :: u32) @ [3]]"
  have "encode_all 4 ?segments = Inr ys" by (simp add: ys_def encode_relay_def RELAY_PAYLOAD_CAP_def)
  moreover obtain p2 where "on_egress 0 (try_enqueue_all 5 ys) demo_side = (p2, Accepted)"
    by (simp add: on_egress_def demo_side_parts path_new_relay_def house_shaper_def shaper_new_def
        HOUSE_RELAY_QUEUE_DEPTH_def try_enqueue_all_def ys_def)
  moreover have "note_relay_intent None d demo_side = demo_side" for d by (simp add: note_relay_intent_def)
  moreover have "or_default (length (tx_contents demo_tx)) (tx_segment_size demo_tx) = 2" "po_gate demo_side = Some (0, demo_remote)"
    "hm_get (po_by_synthetic demo_side) (tx_destination demo_tx) = Some 4"
    by (simp_all add: demo_tx_def or_default_def demo_side_parts)
  ultimately have "r = Inr ()"
    using sent route(2,3) cut [symmetric] by (simp add: try_send_def Let_def)
  moreover have "egress_items demo_side 0 = []"
    by (simp add: egress_items_def demo_side_parts path_new_relay_def house_shaper_def shaper_new_def)
  ultimately show ?thesis
    using relayed_transmit_arrives [OF demo_side_run route(1-3) sent cut route(4) rest] sent by (simp add: demo_side_parts)
qed


end
