(* ===== verification/Seal.thy ===== *)
theory Seal
  imports Identity Gate_Wire
begin

text \<open>
  The sealed introduction body (\<open>gate/client.rs\<close>, module \<open>seal\<close>): an ephemeral X25519 public
  key and a ChaCha20-Poly1305 ciphertext of a small CBOR body. The curve, the cipher and the
  key derivation are crates, a record of functions here.
\<close>

section \<open>The crates\<close>

text \<open>
  In the order of the fields: the Montgomery form of an ed25519 public key, if it is one;
  \<open>mul_base_clamped\<close>; \<open>mul_clamped\<close> of a point; \<open>blake3::derive_key\<close>; the cipher under a key
  and a nonce, both ways; \<open>to_scalar_bytes\<close> and the public key of a signing key.
\<close>

record seal_crypto =
  to_montgomery :: "bytes \<Rightarrow> bytes option"
  mul_base_clamped :: "bytes \<Rightarrow> bytes"
  mul_clamped :: "bytes \<Rightarrow> bytes \<Rightarrow> bytes"
  blake3_derive_key :: "string \<Rightarrow> bytes \<Rightarrow> bytes"
  aead_encrypt :: "bytes \<Rightarrow> bytes \<Rightarrow> bytes \<Rightarrow> bytes option"
  aead_decrypt :: "bytes \<Rightarrow> bytes \<Rightarrow> bytes \<Rightarrow> bytes option"
  to_scalar_bytes :: "bytes \<Rightarrow> bytes"
  public_of :: "bytes \<Rightarrow> bytes"

text \<open>
  What the code relies on: the Montgomery form of a public key is the base point times the
  scalar of its signing key, Diffie-Hellman agrees, keys have 32 bytes, and the cipher takes a
  message of up to 4 GiB, adds its tag of 16 bytes and opens what it sealed under the same key
  and nonce.
\<close>

definition seal_contract :: "seal_crypto \<Rightarrow> bool" where
  "seal_contract S \<longleftrightarrow>
     (\<forall>seed. to_montgomery S (public_of S seed) = Some (mul_base_clamped S (to_scalar_bytes S seed))) \<and>
     (\<forall>a b. mul_clamped S (mul_base_clamped S a) b = mul_clamped S (mul_base_clamped S b) a) \<and>
     (\<forall>a. length (mul_base_clamped S a) = 32) \<and> (\<forall>seed. length (public_of S seed) = 32) \<and>
     (\<forall>key nonce plain. length plain < 2 ^ 32 \<longrightarrow> aead_encrypt S key nonce plain \<noteq> None) \<and>
     (\<forall>key nonce plain c. aead_encrypt S key nonce plain = Some c \<longrightarrow>
        aead_decrypt S key nonce c = Some plain \<and> length c = length plain + 16)"

section \<open>The body\<close>

definition SEAL_DOMAIN :: string where "SEAL_DOMAIN = ''mosschat-introduce-seal-v1''"
definition ZERO_NONCE :: bytes where "ZERO_NONCE = replicate 12 0"

record invite_proof =
  ip_id :: bytes
  ip_secret :: bytes
  ip_bind :: bytes

record sealed_body =
  sb_from :: bytes
  sb_sent_ms :: u64
  sb_invite :: "invite_proof option"

definition seal_derive_key :: "seal_crypto \<Rightarrow> bytes \<Rightarrow> bytes \<Rightarrow> bytes \<Rightarrow> bytes" where
  "seal_derive_key S dh eph_pub recipient = blake3_derive_key S SEAL_DOMAIN (dh @ eph_pub @ recipient)"

definition encode_body :: "minicbor \<Rightarrow> sealed_body \<Rightarrow> bytes" where
  "encode_body C body =
     (case sb_invite body of
        Some invite \<Rightarrow>
          enc_array C 6 @ enc_u8 C 1 @ enc_bytes C (sb_from body) @ enc_u64 C (sb_sent_ms body) @
          enc_bytes C (ip_id invite) @ enc_bytes C (ip_secret invite) @ enc_bytes C (ip_bind invite)
      | None \<Rightarrow> enc_array C 3 @ enc_u8 C 1 @ enc_bytes C (sb_from body) @ enc_u64 C (sb_sent_ms body))"

text \<open>\<open>map_err(|e| GateError::Protocol(e.to_string()))\<close>.\<close>

definition protocol_error :: "decode_error + 'a \<Rightarrow> gate_error + 'a" where
  "protocol_error r = (case r of Inl e \<Rightarrow> Inl (ProtocolDecode e) | Inr x \<Rightarrow> Inr x)"

definition sized_bytes :: "minicbor \<Rightarrow> nat \<Rightarrow> string \<Rightarrow> bytes \<Rightarrow> gate_error + bytes \<times> bytes" where
  "sized_bytes C n message d =
     and_then (protocol_error (dec_bytes C d)) (\<lambda>(s, d).
       if length s = n then Inr (s, d) else Inl (Protocol message))"

definition decode_body :: "minicbor \<Rightarrow> bytes \<Rightarrow> gate_error + sealed_body" where
  "decode_body C bs =
     and_then (protocol_error (dec_array C bs)) (\<lambda>(len, d).
     and_then (ok_or len (Protocol ''sealed body must be a definite array'')) (\<lambda>len.
     and_then (protocol_error (dec_u8 C d)) (\<lambda>(_, d).
     and_then (sized_bytes C 32 ''bad from key length'' d) (\<lambda>(sender, d).
     and_then (protocol_error (dec_u64 C d)) (\<lambda>(sent_ms, d).
     and_then
       (if len = 6 then
          and_then (sized_bytes C 16 ''bad invite id length'' d) (\<lambda>(id, d).
          and_then (sized_bytes C 32 ''bad invite secret length'' d) (\<lambda>(secret, d).
          and_then (sized_bytes C 32 ''bad invite bind length'' d) (\<lambda>(bind, d).
            Inr (Some \<lparr>ip_id = id, ip_secret = secret, ip_bind = bind\<rparr>))))
        else Inr None)
       (\<lambda>invite. Inr \<lparr>sb_from = sender, sb_sent_ms = sent_ms, sb_invite = invite\<rparr>))))))"

section \<open>Sealing and opening\<close>

text \<open>The ephemeral secret is what \<open>rand\<close> draws.\<close>

definition seal :: "seal_crypto \<Rightarrow> minicbor \<Rightarrow> bytes \<Rightarrow> sealed_body \<Rightarrow> bytes \<Rightarrow> gate_error + bytes" where
  "seal S C eph_secret body recipient =
     and_then (ok_or (to_montgomery S recipient) (Protocol ''recipient key is not a valid ed25519 point'')) (\<lambda>point.
       let eph_pub = mul_base_clamped S eph_secret;
           dh = mul_clamped S point eph_secret;
           key = seal_derive_key S dh eph_pub recipient in
       and_then (ok_or (aead_encrypt S key ZERO_NONCE (encode_body C body)) (Protocol ''seal encryption failed''))
         (\<lambda>ciphertext. Inr (eph_pub @ ciphertext)))"

definition open_sealed :: "seal_crypto \<Rightarrow> minicbor \<Rightarrow> bytes \<Rightarrow> bytes \<Rightarrow> gate_error + sealed_body" where
  "open_sealed S C seed sealed =
     (if length sealed < 32 + 16 then Inl (Protocol ''sealed body too short'')
      else
        (let eph_pub = take 32 sealed; ciphertext = drop 32 sealed;
             dh = mul_clamped S eph_pub (to_scalar_bytes S seed);
             key = seal_derive_key S dh eph_pub (public_of S seed) in
         and_then (ok_or (aead_decrypt S key ZERO_NONCE ciphertext) (Protocol ''seal did not open''))
           (decode_body C)))"

section \<open>Laws\<close>

definition body_wf :: "sealed_body \<Rightarrow> bool" where
  "body_wf b \<longleftrightarrow> length (sb_from b) = 32 \<and>
     (case sb_invite b of None \<Rightarrow> True
      | Some i \<Rightarrow> length (ip_id i) = 16 \<and> length (ip_secret i) = 32 \<and> length (ip_bind i) = 32)"

lemma protocol_error_Inr [simp]: "protocol_error (Inr x) = Inr x"
  by (simp add: protocol_error_def)

context minicbor_contract
begin

lemma sized_bytes_enc [simp]:
  "length s = n \<Longrightarrow> n < 2 ^ 64 \<Longrightarrow> sized_bytes C n message (enc_bytes C s @ r) = Inr (s, r)"
  "length s = n \<Longrightarrow> n < 2 ^ 64 \<Longrightarrow> sized_bytes C n message (enc_bytes C s) = Inr (s, [])"
  by (simp_all add: sized_bytes_def)

lemma decode_encode_body:
  assumes "body_wf b"
  shows "decode_body C (encode_body C b) = Inr b"
  using assms by (cases "sb_invite b") (auto simp: encode_body_def decode_body_def body_wf_def)

lemma open_seal:
  assumes S: "seal_contract S" and "body_wf b" and sealed: "seal S C eph b (public_of S seed) = Inr sealed"
  shows "open_sealed S C seed sealed = Inr b \<and> length sealed = 48 + length (encode_body C b)"
proof -
  let ?e = "mul_base_clamped S eph" and ?m = "mul_base_clamped S (to_scalar_bytes S seed)"
  define key where "key = seal_derive_key S (mul_clamped S ?m eph) ?e (public_of S seed)"
  have agree: "mul_clamped S ?e (to_scalar_bytes S seed) = mul_clamped S ?m eph"
    and len: "length ?e = 32" and point: "to_montgomery S (public_of S seed) = Some ?m"
    using S by (simp_all add: seal_contract_def)
  obtain c where c: "aead_encrypt S key ZERO_NONCE (encode_body C b) = Some c" "sealed = ?e @ c"
    using sealed by (cases "aead_encrypt S key ZERO_NONCE (encode_body C b)")
      (auto simp: seal_def point key_def [symmetric] Let_def)
  then have d: "aead_decrypt S key ZERO_NONCE c = Some (encode_body C b)" "length c = length (encode_body C b) + 16"
    using S unfolding seal_contract_def by blast+
  have "open_sealed S C seed (?e @ c) = Inr b"
    using len d(2) decode_encode_body [OF assms(2)] by (simp add: open_sealed_def agree key_def [symmetric] d(1) Let_def)
  then show ?thesis using len c(2) d(2) by simp
qed

end

lemma seal_succeeds:
  assumes "seal_contract S" and "length (encode_body C b) < 2 ^ 32"
  shows "\<exists>sealed. seal S C eph b (public_of S seed) = Inr sealed"
proof -
  let ?m = "mul_base_clamped S (to_scalar_bytes S seed)"
  have "to_montgomery S (public_of S seed) = Some ?m" using assms(1) by (simp add: seal_contract_def)
  moreover obtain c where "aead_encrypt S (seal_derive_key S (mul_clamped S ?m eph) (mul_base_clamped S eph) (public_of S seed))
      ZERO_NONCE (encode_body C b) = Some c"
    using assms unfolding seal_contract_def by blast
  ultimately show ?thesis by (simp add: seal_def Let_def)
qed

text \<open>What was opened is a body with keys of their length.\<close>

lemma sized_bytes_length: "sized_bytes C n message d = Inr (s, d') \<Longrightarrow> length s = n"
  by (auto simp: sized_bytes_def split: if_splits)

lemma decode_body_wf: "decode_body C bs = Inr b \<Longrightarrow> body_wf b"
  by (auto simp: decode_body_def body_wf_def dest!: sized_bytes_length split: if_splits)

lemma open_sealed_wf: "open_sealed S C seed sealed = Inr b \<Longrightarrow> body_wf b"
  by (auto simp: open_sealed_def Let_def dest: decode_body_wf split: if_splits)

text \<open>With the encoding of RFC 8949 a seal is far below the cap of its frame.\<close>

lemma rfc_bytes_length: "length (enc_bytes rfc8949 s) \<le> 9 + length s"
  by (simp add: rfc8949_def rfc_head_def)

lemma encode_body_length:
  assumes "body_wf b"
  shows "length (encode_body rfc8949 b) \<le> 200"
  using assms by (auto simp: encode_body_def body_wf_def rfc8949_def rfc_head_def split: option.splits)

end
