(* ===== verification/Invite_Store.thy ===== *)
theory Invite_Store
  imports Identity
begin

text \<open>
  The invites that a house issued (\<open>gate/client.rs\<close>, \<open>InMemoryInviteStore\<close>): the hash of each
  secret, its expiry and whether it was redeemed.
\<close>

section \<open>Code\<close>

record invite_record =
  ir_expires_ms :: u64
  ir_redeemed :: bool

type_synonym invite_store = "(bytes, invite_record) hashmap"

definition invite_issue :: "crypto \<Rightarrow> bytes \<Rightarrow> u64 \<Rightarrow> invite_store \<Rightarrow> invite_store" where
  "invite_issue K secret expires_ms m =
     hm_insert (blake3 K secret) \<lparr>ir_expires_ms = expires_ms, ir_redeemed = False\<rparr> m"

definition invite_bind :: "crypto \<Rightarrow> bytes \<Rightarrow> bytes \<Rightarrow> bytes \<Rightarrow> bytes" where
  "invite_bind K secret my_key gate_key =
     blake3 K (ascii ''mosschat-invite-bind-v1'' @ secret @ my_key @ gate_key)"

definition try_redeem ::
    "crypto \<Rightarrow> u64 \<Rightarrow> bytes \<Rightarrow> bytes \<Rightarrow> bytes \<Rightarrow> bytes \<Rightarrow> invite_store \<Rightarrow> invite_store \<times> bool" where
  "try_redeem K now_ms secret bind my_key gate_key m =
     (if bind \<noteq> invite_bind K secret my_key gate_key then (m, False)
      else
        (case hm_get m (blake3 K secret) of
           None \<Rightarrow> (m, False)
         | Some record \<Rightarrow>
             if ir_redeemed record \<or> now_ms > ir_expires_ms record then (m, False)
             else (hm_insert (blake3 K secret) (record\<lparr>ir_redeemed := True\<rparr>) m, True)))"

datatype invite_call = IssueInvite bytes u64 | TryRedeem u64 bytes bytes bytes bytes

fun invite_step :: "crypto \<Rightarrow> invite_call \<Rightarrow> invite_store \<Rightarrow> invite_store" where
  "invite_step K (IssueInvite secret expires_ms) m = invite_issue K secret expires_ms m"
| "invite_step K (TryRedeem now_ms secret bind my_key gate_key) m =
     fst (try_redeem K now_ms secret bind my_key gate_key m)"

definition invite_run :: "crypto \<Rightarrow> invite_call list \<Rightarrow> invite_store \<Rightarrow> invite_store" where
  "invite_run K calls m = fold (invite_step K) calls m"

section \<open>Laws\<close>

abbreviation issues :: "crypto \<Rightarrow> bytes \<Rightarrow> invite_call list \<Rightarrow> u64 set" where
  "issues K h calls \<equiv> {e. \<exists>secret. IssueInvite secret e \<in> set calls \<and> blake3 K secret = h}"

text \<open>A record that was not there at first was issued, with the expiry it has.\<close>

lemma invite_step_record:
  assumes "hm_get (invite_step K c m) h = Some r"
  shows "(\<exists>secret. c = IssueInvite secret (ir_expires_ms r) \<and> blake3 K secret = h) \<or>
    (\<exists>r'. hm_get m h = Some r' \<and> ir_expires_ms r' = ir_expires_ms r \<and> (ir_redeemed r' \<longrightarrow> ir_redeemed r))"
proof (cases c)
  case (IssueInvite secret e)
  then show ?thesis using assms by (auto simp: invite_issue_def hm_get_insert split: if_splits)
next
  case (TryRedeem now secret bind my gate)
  then show ?thesis
    using assms by (auto simp: try_redeem_def hm_get_insert split: if_splits option.splits)
qed

lemma invite_run_record:
  assumes "hm_get (invite_run K calls m) h = Some r"
  shows "ir_expires_ms r \<in> issues K h calls \<or>
    (\<exists>r'. hm_get m h = Some r' \<and> ir_expires_ms r' = ir_expires_ms r \<and> (ir_redeemed r' \<longrightarrow> ir_redeemed r))"
  using assms
proof (induction calls arbitrary: m)
  case (Cons c calls)
  have "hm_get (invite_run K calls (invite_step K c m)) h = Some r" using Cons.prems by (simp add: invite_run_def)
  from Cons.IH [OF this] show ?case
  proof (elim disjE exE conjE)
    fix r' assume r': "hm_get (invite_step K c m) h = Some r'" "ir_expires_ms r' = ir_expires_ms r"
      "ir_redeemed r' \<longrightarrow> ir_redeemed r"
    have "ir_expires_ms r \<in> issues K h [c] \<or>
      (\<exists>r0. hm_get m h = Some r0 \<and> ir_expires_ms r0 = ir_expires_ms r \<and> (ir_redeemed r0 \<longrightarrow> ir_redeemed r))"
      using invite_step_record [OF r'(1)] r'(2,3) by (simp, metis)
    then show ?thesis by auto
  qed auto
qed (simp add: invite_run_def)

lemma try_redeem_True:
  assumes "try_redeem K now_ms secret bind my_key gate_key m = (m', True)"
  obtains r where "hm_get m (blake3 K secret) = Some r" "\<not> ir_redeemed r" "now_ms \<le> ir_expires_ms r"
    "m' = hm_insert (blake3 K secret) (r\<lparr>ir_redeemed := True\<rparr>) m" "bind = invite_bind K secret my_key gate_key"
  using assms by (auto simp: try_redeem_def not_less split: if_splits option.splits)

text \<open>A spent invite stays spent until it is issued again.\<close>

lemma redeemed_until_issued:
  assumes "hm_get m h = Some r" and "ir_redeemed r" and "issues K h calls = {}"
    and "hm_get (invite_run K calls m) h = Some r'"
  shows "ir_redeemed r'"
  using invite_run_record [OF assms(4)] assms(1-3) by auto

end
