(* ===== verification/Gate_Client.thy ===== *)
theory Gate_Client
  imports Seal Invite_Store Gate_Server Porch Seen_Set Format_Text
begin

text \<open>
  The house side of the gate protocol (\<open>gate/client.rs\<close>): a connection to one gate, the calls
  that introduce this house to a peer, and the background reader that answers knocks. A call
  that waits is two steps, what it does before and after; each step runs from end to end.
  What the gate and quinn answer is an argument.
\<close>

section \<open>Text from the gate\<close>

text \<open>The characters of a string, as its bytes.\<close>

definition char_len :: "u8 \<Rightarrow> nat" where
  "char_len b = (if b \<le> 0x7F then 1 else if b \<le> 0xDF then 2 else if b \<le> 0xEF then 3 else 4)"

fun take_chars :: "nat \<Rightarrow> bytes \<Rightarrow> bytes list" where
  "take_chars 0 s = []"
| "take_chars (Suc n) s =
     (case s of [] \<Rightarrow> [] | b # _ \<Rightarrow> take (char_len b) s # take_chars n (drop (char_len b) s))"

definition chars_of :: "bytes \<Rightarrow> bytes list" where
  "chars_of s = take_chars (length s) s"

text \<open>\<open>char::is_control\<close>: U+0000 to U+001F and U+007F to U+009F.\<close>

definition is_control :: "bytes \<Rightarrow> bool" where
  "is_control c \<longleftrightarrow>
     (case c of
        [a] \<Rightarrow> a \<le> 0x1F \<or> a = 0x7F
      | [a, b] \<Rightarrow> a = 0xC2 \<and> 0x80 \<le> b \<and> b \<le> 0x9F
      | _ \<Rightarrow> False)"

definition CUT :: bytes where "CUT = ascii ''...''"

fun gate_text_loop :: "bytes \<Rightarrow> bytes list \<Rightarrow> bytes" where
  "gate_text_loop out [] = out"
| "gate_text_loop out (c # cs) =
     (if length out + length c > ERROR_DETAIL_CAP - length CUT then out @ CUT else gate_text_loop (out @ c) cs)"

definition gate_text :: "bytes \<Rightarrow> bytes" where
  "gate_text s = gate_text_loop [] (filter (\<lambda>c. \<not> is_control c) (chars_of s))"

section \<open>State\<close>

definition GATE_EVENT_QUEUE :: nat where "GATE_EVENT_QUEUE = 32"

text \<open>A one-shot channel whose receiver is still held: a call that waits on it.\<close>

datatype 'a oneshot = Waiting | Delivered 'a | SenderGone

record introduce_outcome =
  io_session :: u32
  io_peer_observed :: addr
  io_role :: u8

datatype gate_event = KnockAccepted bytes | Introduced u32 bytes u8

record session_entry =
  he_peer_observed :: socket_addr
  he_opened_at :: instant
  he_finished :: bool

record start_signal =
  sg_session :: u32
  sg_fire_in_ms :: u16
  sg_gate_ms :: u64
  sg_received_at :: instant

record start_slot =
  sl_received :: "start_signal option"
  sl_waiter :: "nat option"

text \<open>A call of \<open>introduce\<close> under way: the peer and the tag it keeps, and its channel.\<close>

record introduce_call =
  ic_peer :: bytes
  ic_tag :: bytes
  ic_channel :: "introduce_outcome oneshot"

record gate_client =
  cl_seed :: bytes
  cl_gate_key :: bytes
  cl_community :: bytes
  cl_salt :: bytes
  cl_observed :: socket_addr
  cl_secondary_port :: u16
  cl_introductions :: "(bytes, nat) hashmap"
  cl_pending_accepts :: "(bytes, bytes) hashmap"
  cl_friends :: "bytes set"
  cl_invites :: invite_store
  cl_seen :: seen_set
  cl_auto_answer :: bool
  cl_events :: "gate_event list"
  cl_events_open :: bool
  cl_events_dropped :: u64
  cl_sessions :: "(u32, session_entry) hashmap"
  cl_starts :: "(u32, start_slot) hashmap"
  cl_porch :: porch
  cl_calls :: "(nat, introduce_call) hashmap"
  cl_awaits :: "(nat, start_signal oneshot) hashmap"
  cl_next_call :: nat

definition house_key :: "seal_crypto \<Rightarrow> gate_client \<Rightarrow> bytes" where
  "house_key S cl = public_of S (cl_seed cl)"

text \<open>What a step hands out: a frame for the control stream, and the events it emits.\<close>

datatype client_out = SendFrame gate_frame | Emit gate_event

section \<open>Sessions and events\<close>

fun min_by_key :: "('a \<Rightarrow> nat) \<Rightarrow> 'a list \<Rightarrow> 'a option" where
  "min_by_key f [] = None"
| "min_by_key f (x # xs) = (case min_by_key f xs of None \<Rightarrow> Some x | Some y \<Rightarrow> Some (if f x \<le> f y then x else y))"

definition victim :: "(u32, session_entry) hashmap \<Rightarrow> u32 option" where
  "victim m =
     map_option fst
       (case min_by_key (he_opened_at \<circ> snd) (filter (he_finished \<circ> snd) m) of
          Some x \<Rightarrow> Some x
        | None \<Rightarrow> min_by_key (he_opened_at \<circ> snd) m)"

lemma min_by_key_in: "min_by_key f xs = Some x \<Longrightarrow> x \<in> set xs"
  by (induction xs arbitrary: x) (auto split: option.splits if_splits)

lemma victim_in: "victim m = Some sid \<Longrightarrow> sid \<in> fst ` set m"
  by (force simp: victim_def dest: min_by_key_in split: option.splits)

function make_room :: "(u32, session_entry) hashmap \<Rightarrow> (u32, session_entry) hashmap" where
  "make_room m =
     (if length m \<ge> MAX_SESSIONS_PER_REGISTRATION then
        (case victim m of Some sid \<Rightarrow> make_room (hm_remove sid m) | None \<Rightarrow> m)
      else m)"
  by auto
termination
  by (relation "measure length") (auto dest!: victim_in simp: AList.delete_eq length_filter_less)

declare make_room.simps [simp del]

definition remember_session :: "instant \<Rightarrow> u32 \<Rightarrow> socket_addr option \<Rightarrow> gate_client \<Rightarrow> gate_client" where
  "remember_session now session peer_observed cl =
     (case peer_observed of
        None \<Rightarrow> cl
      | Some peer_observed \<Rightarrow>
          (let m = filter (\<lambda>(_, e). duration_since now (he_opened_at e) < REGISTRATION_TTL) (cl_sessions cl);
               m = (if hm_get m session \<noteq> None then m else make_room m) in
           cl\<lparr>cl_sessions := hm_insert session
                \<lparr>he_peer_observed = peer_observed, he_opened_at = now, he_finished = False\<rparr> m\<rparr>))"

definition peer_observed_for :: "u32 \<Rightarrow> gate_client \<Rightarrow> socket_addr option" where
  "peer_observed_for session cl = map_option he_peer_observed (hm_get (cl_sessions cl) session)"

definition emit_event :: "gate_event \<Rightarrow> gate_client \<Rightarrow> gate_client" where
  "emit_event e cl =
     (if \<not> cl_events_open cl \<or> length (cl_events cl) \<ge> GATE_EVENT_QUEUE then
        cl\<lparr>cl_events_dropped := cl_events_dropped cl + 1\<rparr>
      else cl\<lparr>cl_events := cl_events cl @ [e]\<rparr>)"

text \<open>Sending on a channel, and dropping its sender, which a channel that was sent on survives.\<close>

definition oneshot_send :: "'a \<Rightarrow> 'a oneshot \<Rightarrow> 'a oneshot" where
  "oneshot_send x ch = (case ch of Waiting \<Rightarrow> Delivered x | _ \<Rightarrow> ch)"

definition drop_sender :: "'a oneshot \<Rightarrow> 'a oneshot" where
  "drop_sender ch = (case ch of Waiting \<Rightarrow> SenderGone | _ \<Rightarrow> ch)"

definition on_call :: "(introduce_outcome oneshot \<Rightarrow> introduce_outcome oneshot) \<Rightarrow> nat option \<Rightarrow> gate_client \<Rightarrow> gate_client" where
  "on_call f call cl =
     (case Option.bind call (\<lambda>c. map_option (Pair c) (hm_get (cl_calls cl) c)) of
        None \<Rightarrow> cl
      | Some (c, ic) \<Rightarrow> cl\<lparr>cl_calls := hm_insert c (ic\<lparr>ic_channel := f (ic_channel ic)\<rparr>) (cl_calls cl)\<rparr>)"

definition on_await :: "(start_signal oneshot \<Rightarrow> start_signal oneshot) \<Rightarrow> nat option \<Rightarrow> gate_client \<Rightarrow> gate_client" where
  "on_await f await cl =
     (case Option.bind await (\<lambda>w. map_option (Pair w) (hm_get (cl_awaits cl) w)) of
        None \<Rightarrow> cl
      | Some (w, ch) \<Rightarrow> cl\<lparr>cl_awaits := hm_insert w (f ch) (cl_awaits cl)\<rparr>)"

section \<open>Introducing\<close>

definition synthetic_addr_for :: "crypto \<Rightarrow> bytes \<Rightarrow> gate_client \<Rightarrow> socket_addr" where
  "synthetic_addr_for K peer_key cl = synthetic_addr K (cl_salt cl) peer_key"

text \<open>
  Up to the wait. The number names the call; \<open>written\<close> is what the control stream answers to
  the bytes of the frame, and a call whose write failed is over, with its entry left behind.
\<close>

definition introduce_begin ::
    "seal_crypto \<Rightarrow> minicbor \<Rightarrow> crypto \<Rightarrow> u64 \<Rightarrow> bytes \<Rightarrow> bytes \<Rightarrow> u16 \<Rightarrow> invite_proof option \<Rightarrow> gate_error + unit \<Rightarrow>
     gate_client \<Rightarrow> gate_client \<times> (gate_error + nat) \<times> client_out list" where
  "introduce_begin S C K now_ms eph_secret peer_key ttl_s invite written cl =
     (let tag = pair_tag K (cl_community cl) (house_key S cl) peer_key;
          body = \<lparr>sb_from = house_key S cl, sb_sent_ms = now_ms, sb_invite = invite\<rparr> in
      case seal S C eph_secret body peer_key of
        Inl e \<Rightarrow> (cl, Inl e, [])
      | Inr sealed \<Rightarrow>
          (let call = cl_next_call cl;
               frame = Introduce 1 tag ttl_s sealed;
               cl = on_call drop_sender (hm_get (cl_introductions cl) tag) cl;
               cl = cl\<lparr>cl_introductions := hm_insert tag call (cl_introductions cl), cl_next_call := call + 1\<rparr> in
           case and_then (write_frame C frame) (\<lambda>_. written) of
             Inl e \<Rightarrow> (cl, Inl e, [])
           | Inr _ \<Rightarrow>
               (cl\<lparr>cl_calls := hm_insert call \<lparr>ic_peer = peer_key, ic_tag = tag, ic_channel = Waiting\<rparr> (cl_calls cl)\<rparr>,
                Inr call, [SendFrame frame])))"

text \<open>The relay leg of a session: three readings of the clock.\<close>

definition open_relay ::
    "crypto \<Rightarrow> instant \<times> instant \<times> instant \<Rightarrow> u32 \<Rightarrow> addr \<Rightarrow> bytes \<Rightarrow> gate_client \<Rightarrow> gate_client" where
  "open_relay K clocks session peer_observed peer_key cl =
     (case clocks of (t1, t2, t3) \<Rightarrow>
        (let synthetic = synthetic_addr_for K peer_key cl;
             cl = remember_session t1 session (to_socket_addr peer_observed) cl in
         cl\<lparr>cl_porch := insert_relay_path t3 peer_key synthetic
              (register_relay_session t2 session synthetic (cl_porch cl))\<rparr>))"

text \<open>After the wait: the channel was answered, or its sender is gone or the time is over.\<close>

definition introduce_end ::
    "crypto \<Rightarrow> instant \<times> instant \<times> instant \<Rightarrow> nat \<Rightarrow> gate_client \<Rightarrow> gate_client \<times> (gate_error + introduce_outcome)" where
  "introduce_end K clocks call cl =
     (case hm_get (cl_calls cl) call of
        None \<Rightarrow> (cl, Inl (Protocol ''introduce_timeout''))
      | Some ic \<Rightarrow>
          (let cl = cl\<lparr>cl_calls := hm_remove call (cl_calls cl)\<rparr> in
           case ic_channel ic of
             Delivered outcome \<Rightarrow>
               (open_relay K clocks (io_session outcome) (io_peer_observed outcome) (ic_peer ic) cl, Inr outcome)
           | _ \<Rightarrow>
               (let cl = on_call drop_sender (hm_get (cl_introductions cl) (ic_tag ic)) cl in
                (cl\<lparr>cl_introductions := hm_remove (ic_tag ic) (cl_introductions cl)\<rparr>,
                 Inl (Protocol ''introduce_timeout'')))))"

section \<open>The reader\<close>

definition on_introduction ::
    "crypto \<Rightarrow> instant \<times> instant \<times> instant \<Rightarrow> bytes \<Rightarrow> u32 \<Rightarrow> addr \<Rightarrow> u8 \<Rightarrow> gate_client \<Rightarrow> gate_client \<times> client_out list" where
  "on_introduction K clocks tag session peer_observed role cl =
     (case hm_get (cl_introductions cl) tag of
        Some call \<Rightarrow>
          (on_call (oneshot_send \<lparr>io_session = session, io_peer_observed = peer_observed, io_role = role\<rparr>) (Some call)
             (cl\<lparr>cl_introductions := hm_remove tag (cl_introductions cl)\<rparr>), [])
      | None \<Rightarrow>
          (case hm_get (cl_pending_accepts cl) tag of
             None \<Rightarrow> (cl, [])
           | Some peer_key \<Rightarrow>
               (let cl = cl\<lparr>cl_pending_accepts := hm_remove tag (cl_pending_accepts cl)\<rparr>;
                    cl = open_relay K clocks session peer_observed peer_key cl;
                    event = Introduced session peer_key role in
                (emit_event event cl, [Emit event]))))"

definition on_start :: "instant \<Rightarrow> u32 \<Rightarrow> u16 \<Rightarrow> u64 \<Rightarrow> gate_client \<Rightarrow> gate_client" where
  "on_start now session fire_in_ms gate_ms cl =
     (if hm_get (cl_sessions cl) session = None then cl
      else
        (let signal = \<lparr>sg_session = session, sg_fire_in_ms = fire_in_ms, sg_gate_ms = gate_ms, sg_received_at = now\<rparr> in
         if length (cl_starts cl) \<ge> MAX_SESSIONS_PER_REGISTRATION \<and> hm_get (cl_starts cl) session = None then cl
         else
           (let slot = or_default \<lparr>sl_received = None, sl_waiter = None\<rparr> (hm_get (cl_starts cl) session) in
            case sl_waiter slot of
              Some w \<Rightarrow>
                on_await (oneshot_send signal) (Some w) (cl\<lparr>cl_starts := hm_remove session (cl_starts cl)\<rparr>)
            | None \<Rightarrow>
                cl\<lparr>cl_starts := hm_insert session (slot\<lparr>sl_received := Some signal\<rparr>) (cl_starts cl)\<rparr>)))"

text \<open>
  \<open>clock\<close>: the wall clock at the freshness test and at the redeeming, and the monotonic clock
  at the sweep of the seen set and at the insertion.
\<close>

record knock_clock =
  kc_fresh_ms :: u64
  kc_redeem_ms :: u64
  kc_swept_at :: instant
  kc_seen_at :: instant

definition knock_admitted ::
    "seal_crypto \<Rightarrow> crypto \<Rightarrow> u64 \<Rightarrow> sealed_body \<Rightarrow> gate_client \<Rightarrow> gate_client \<times> bool" where
  "knock_admitted S K now_ms body cl =
     (if sb_from body \<in> cl_friends cl then (cl, True)
      else
        (case sb_invite body of
           None \<Rightarrow> (cl, False)
         | Some invite \<Rightarrow>
             (let (m, ok) = try_redeem K now_ms (ip_secret invite) (ip_bind invite) (house_key S cl) (cl_gate_key cl)
                  (cl_invites cl) in
              (cl\<lparr>cl_invites := m\<rparr>, ok))))"

definition answer_knock ::
    "seal_crypto \<Rightarrow> minicbor \<Rightarrow> crypto \<Rightarrow> knock_clock \<Rightarrow> bytes \<Rightarrow> bytes \<Rightarrow> gate_client \<Rightarrow> gate_client \<times> client_out list" where
  "answer_knock S C K clock tag sealed cl =
     (case open_sealed S C (cl_seed cl) sealed of
        Inl _ \<Rightarrow> (cl, [])
      | Inr body \<Rightarrow>
          if \<not> within_freshness_window (sb_sent_ms body) (kc_fresh_ms clock) then (cl, [])
          else if pair_tag K (cl_community cl) (sb_from body) (house_key S cl) \<noteq> tag then (cl, [])
          else
            (let (cl, accept) = knock_admitted S K (kc_redeem_ms clock) body cl in
             if \<not> accept then (cl, [])
             else
               (let (seen, fresh) = seen_accept K (kc_swept_at clock) (kc_seen_at clock) sealed (cl_seen cl);
                    cl = cl\<lparr>cl_seen := seen\<rparr> in
                if \<not> fresh then (cl, [])
                else
                  (let cl = cl\<lparr>cl_pending_accepts := hm_insert tag (sb_from body) (cl_pending_accepts cl)\<rparr>;
                       event = KnockAccepted (sb_from body) in
                   (emit_event event cl, [SendFrame (KnockAnswer 1 tag True), Emit event])))))"

fun read_one ::
    "seal_crypto \<Rightarrow> minicbor \<Rightarrow> crypto \<Rightarrow> knock_clock \<Rightarrow> instant \<times> instant \<times> instant \<Rightarrow> gate_frame \<Rightarrow>
     gate_client \<Rightarrow> gate_client \<times> client_out list" where
  "read_one S C K clock clocks (Introduction _ tag session peer_observed role) cl =
     on_introduction K clocks tag session peer_observed role cl"
| "read_one S C K clock clocks (Knock _ tag _ sealed) cl =
     (if cl_auto_answer cl then answer_knock S C K clock tag sealed cl else (cl, []))"
| "read_one S C K clock clocks (Start _ session fire_in_ms gate_ms) cl =
     (on_start (fst clocks) session fire_in_ms gate_ms cl, [])"
| "read_one S C K clock clocks _ cl = (cl, [])"

section \<open>Waiting for a start\<close>

text \<open>A start that arrived is taken; otherwise the call waits, and its number is returned.\<close>

definition await_start_begin :: "u32 \<Rightarrow> gate_client \<Rightarrow> gate_client \<times> (start_signal + nat)" where
  "await_start_begin session cl =
     (let slot = or_default \<lparr>sl_received = None, sl_waiter = None\<rparr> (hm_get (cl_starts cl) session) in
      case sl_received slot of
        Some signal \<Rightarrow>
          (on_await drop_sender (sl_waiter slot) (cl\<lparr>cl_starts := hm_remove session (cl_starts cl)\<rparr>), Inl signal)
      | None \<Rightarrow>
          (let w = cl_next_call cl;
               cl = on_await drop_sender (sl_waiter slot) cl in
           (cl\<lparr>cl_starts := hm_insert session (slot\<lparr>sl_waiter := Some w\<rparr>) (cl_starts cl),
               cl_awaits := hm_insert w Waiting (cl_awaits cl), cl_next_call := w + 1\<rparr>, Inr w)))"

text \<open>\<open>starts.remove(&session)\<close>, with the waiter that the slot may hold.\<close>

definition forget_start :: "u32 \<Rightarrow> gate_client \<Rightarrow> gate_client" where
  "forget_start session cl =
     (case hm_get (cl_starts cl) session of
        None \<Rightarrow> cl
      | Some slot \<Rightarrow>
          on_await drop_sender (sl_waiter slot) (cl\<lparr>cl_starts := hm_remove session (cl_starts cl)\<rparr>))"

definition await_start_end :: "u32 \<Rightarrow> nat \<Rightarrow> gate_client \<Rightarrow> gate_client \<times> (gate_error + start_signal)" where
  "await_start_end session w cl =
     (let channel = hm_get (cl_awaits cl) w;
          cl = cl\<lparr>cl_awaits := hm_remove w (cl_awaits cl)\<rparr> in
      case channel of
        Some (Delivered signal) \<Rightarrow> (cl, Inr signal)
      | _ \<Rightarrow> (forget_start session cl, Inl Timeout))"

definition attempt_finished :: "u32 \<Rightarrow> gate_client \<Rightarrow> gate_client" where
  "attempt_finished session cl =
     forget_start session
       (case hm_get (cl_sessions cl) session of
          None \<Rightarrow> cl
        | Some e \<Rightarrow> cl\<lparr>cl_sessions := hm_insert session (e\<lparr>he_finished := True\<rparr>) (cl_sessions cl)\<rparr>)"

section \<open>Connecting\<close>

text \<open>The text of a refusal; \<open>debug\<close> is \<open>Debug\<close> of a frame.\<close>

definition refusal_text :: "u8 \<Rightarrow> bytes \<Rightarrow> string" where
  "refusal_text code detail =
     ''gate refused registration: code='' @ decimal (unat code) @ '' detail='' @ map (\<lambda>b. char_of (unat b)) (gate_text detail)"

definition registered_reply ::
    "(gate_frame \<Rightarrow> string) \<Rightarrow> gate_frame \<Rightarrow> gate_error + socket_addr \<times> u16 \<times> u8" where
  "registered_reply debug reply =
     (case reply of
        Registered _ observed keepalive_s secondary_port \<Rightarrow>
          and_then (ok_or (to_socket_addr observed) (Protocol ''Registered.observed did not decode'')) (\<lambda>decoded.
            Inr (decoded, secondary_port, keepalive_s))
      | ErrorFrame _ code detail \<Rightarrow> Inl (Protocol (refusal_text code detail))
      | other \<Rightarrow> Inl (Protocol (''expected Registered or Error, got '' @ debug other)))"

text \<open>
  A connection attempt from the bound socket on: the handshake gives the connection and the key
  that TLS proved, \<open>reply\<close> is what the exchange of the registration gives. On an error the
  socket is dropped with everything in it. The period of the keepalives is the last result.
\<close>

definition gate_connect ::
    "seal_crypto \<Rightarrow> (gate_frame \<Rightarrow> string) \<Rightarrow> instant \<Rightarrow> bool \<Rightarrow> bytes \<Rightarrow> bytes \<Rightarrow> bytes \<Rightarrow> socket_addr \<Rightarrow> bytes option \<Rightarrow>
     bytes set \<Rightarrow> invite_store \<Rightarrow> gate_error + gate_conn \<times> bytes \<Rightarrow> gate_error + gate_frame \<Rightarrow>
     gate_error + gate_client \<times> duration" where
  "gate_connect S debug now v6 seed salt community primary_addr expected_gate_key friends invites handshake reply =
     (let (porch, primary_lease) = allow_source primary_addr (porch_new v6);
          porch = arm porch in
      and_then handshake (\<lambda>(gate, peer_key).
        if expected_gate_key \<noteq> None \<and> expected_gate_key \<noteq> Some peer_key then
          Inl (InvalidIdentity ''connected gate's TLS-proven key does not match the pinned expected key'')
        else
          (let porch = forget_source primary_lease (attach_gate now gate porch) in
           and_then reply (\<lambda>frame.
           and_then (registered_reply debug frame) (\<lambda>(observed, secondary_port, keepalive_s).
             Inr (\<lparr>cl_seed = seed, cl_gate_key = peer_key, cl_community = community, cl_salt = salt,
                   cl_observed = observed, cl_secondary_port = secondary_port, cl_introductions = [],
                   cl_pending_accepts = [], cl_friends = friends, cl_invites = invites, cl_seen = [],
                   cl_auto_answer = True, cl_events = [], cl_events_open = True, cl_events_dropped = 0,
                   cl_sessions = [], cl_starts = [], cl_porch = porch, cl_calls = [], cl_awaits = [],
                   cl_next_call = 0\<rparr>,
                  from_secs (unat (max keepalive_s 1))))))))"

text \<open>
  The reflection off the other port: \<open>exchange\<close> is what the whole exchange gives, from the dial to
  the reply or the first failure. The lease goes back on every way out.
\<close>

definition reflect ::
    "(gate_frame \<Rightarrow> string) \<Rightarrow> socket_addr \<Rightarrow> gate_error + gate_frame \<Rightarrow> gate_client \<Rightarrow> gate_client \<times> (gate_error + addr)" where
  "reflect debug secondary_addr exchange cl =
     (let (porch, lease) = allow_source secondary_addr (cl_porch cl);
          cl = cl\<lparr>cl_porch := forget_source lease porch\<rparr> in
      (cl,
       and_then exchange (\<lambda>reply.
         case reply of
           Reflected _ observed \<Rightarrow> Inr observed
         | other \<Rightarrow> Inl (Protocol (''expected Reflected, got '' @ debug other)))))"

section \<open>Peers\<close>

text \<open>
  A dial that arrives and one that leaves. The handshake gives the key that TLS proved; it is
  only made when there is a path.
\<close>

definition accept_peer :: "socket_addr \<Rightarrow> gate_error + bytes \<Rightarrow> gate_client \<Rightarrow> gate_error + bytes" where
  "accept_peer synthetic handshake cl =
     (if path_by_synthetic synthetic (cl_porch cl) = None then
        Inl (Protocol ''a peer dialled an address no session was introduced to'')
      else
        and_then handshake (\<lambda>peer_key.
          if path_for peer_key (cl_porch cl) = None then
            Inl (InvalidIdentity ''the dialling peer's key has no relay path in this house'')
          else Inr peer_key))"

definition dial_peer :: "bytes \<Rightarrow> gate_error + bytes \<Rightarrow> gate_client \<Rightarrow> gate_error + unit" where
  "dial_peer peer_key handshake cl =
     (if path_for peer_key (cl_porch cl) = None then
        Inl (Protocol ''no relay path for this peer: nothing has introduced it'')
      else
        and_then handshake (\<lambda>proven.
          if proven \<noteq> peer_key then
            Inl (InvalidIdentity ''peer key does not match the key this attempt asked for'')
          else Inr ()))"

section \<open>Calls in sequence\<close>

datatype client_call =
    IntroduceBegin u64 bytes bytes u16 "invite_proof option" "gate_error + unit"
  | IntroduceEnd "instant \<times> instant \<times> instant" nat
  | ReadFrame knock_clock "instant \<times> instant \<times> instant" gate_frame
  | AwaitStartBegin u32 | AwaitStartEnd u32 nat
  | AttemptFinished u32
  | StopAnswering
  | AddFriend bytes | IssueInviteTo bytes u64
  | TakeEvent | DropEvents
  | ReflectOff socket_addr "gate_error + gate_frame"
  | PorchCall porch_call

fun client_step ::
    "seal_crypto \<Rightarrow> minicbor \<Rightarrow> crypto \<Rightarrow> client_call \<Rightarrow> gate_client \<Rightarrow> gate_client \<times> client_out list" where
  "client_step S C K (IntroduceBegin now_ms eph peer_key ttl_s invite written) cl =
     (case introduce_begin S C K now_ms eph peer_key ttl_s invite written cl of (cl, _, outs) \<Rightarrow> (cl, outs))"
| "client_step S C K (IntroduceEnd clocks call) cl = (fst (introduce_end K clocks call cl), [])"
| "client_step S C K (ReadFrame clock clocks frame) cl = read_one S C K clock clocks frame cl"
| "client_step S C K (AwaitStartBegin session) cl = (fst (await_start_begin session cl), [])"
| "client_step S C K (AwaitStartEnd session w) cl = (fst (await_start_end session w cl), [])"
| "client_step S C K (AttemptFinished session) cl = (attempt_finished session cl, [])"
| "client_step S C K StopAnswering cl = (cl\<lparr>cl_auto_answer := False\<rparr>, [])"
| "client_step S C K (AddFriend key) cl = (cl\<lparr>cl_friends := insert key (cl_friends cl)\<rparr>, [])"
| "client_step S C K (IssueInviteTo secret expires_ms) cl =
     (cl\<lparr>cl_invites := invite_issue K secret expires_ms (cl_invites cl)\<rparr>, [])"
| "client_step S C K TakeEvent cl = (cl\<lparr>cl_events := tl (cl_events cl)\<rparr>, [])"
| "client_step S C K DropEvents cl = (cl\<lparr>cl_events_open := False\<rparr>, [])"
| "client_step S C K (ReflectOff addr exchange) cl = (fst (reflect (\<lambda>_. '''') addr exchange cl), [])"
| "client_step S C K (PorchCall c) cl =
     (case porch_step K c (cl_porch cl) of
        None \<Rightarrow> (cl, [])
      | Some (p, _) \<Rightarrow> (cl\<lparr>cl_porch := p\<rparr>, []))"

fun client_run ::
    "seal_crypto \<Rightarrow> minicbor \<Rightarrow> crypto \<Rightarrow> client_call list \<Rightarrow> gate_client \<Rightarrow> gate_client \<times> client_out list" where
  "client_run S C K [] cl = (cl, [])"
| "client_run S C K (c # cs) cl =
     (let (cl, outs) = client_step S C K c cl; (cl, outs') = client_run S C K cs cl in (cl, outs @ outs'))"

end
