(* ===== verification/Client_Laws.thy ===== *)
theory Client_Laws
  imports Gate_Client Porch_Laws
begin

text \<open>The invariants of a gate client: its bounds, and whom it opens a path to.\<close>

section \<open>Bounds\<close>

abbreviation unawaited :: "(u32, start_slot) hashmap \<Rightarrow> (u32, start_slot) hashmap" where
  "unawaited \<equiv> filter (\<lambda>(_, slot). sl_waiter slot = None)"

definition starts_ok :: "(u32, start_slot) hashmap \<Rightarrow> bool" where
  "starts_ok m \<longleftrightarrow> hm_wf m \<and> length (unawaited m) \<le> MAX_SESSIONS_PER_REGISTRATION"

definition sessions_ok :: "(u32, session_entry) hashmap \<Rightarrow> bool" where
  "sessions_ok m \<longleftrightarrow> hm_wf m \<and> length m \<le> MAX_SESSIONS_PER_REGISTRATION"

definition client_ok :: "gate_client \<Rightarrow> bool" where
  "client_ok cl \<longleftrightarrow>
     sessions_ok (cl_sessions cl) \<and> starts_ok (cl_starts cl) \<and> length (cl_events cl) \<le> GATE_EVENT_QUEUE \<and>
     length (cl_seen cl) \<le> SEEN_SET_CAP \<and> porch_ok (cl_porch cl)"

text \<open>The calls on a channel change nothing else.\<close>

lemma on_call_fields [simp]:
  "cl_sessions (on_call f c cl) = cl_sessions cl" "cl_starts (on_call f c cl) = cl_starts cl"
  "cl_events (on_call f c cl) = cl_events cl" "cl_seen (on_call f c cl) = cl_seen cl"
  "cl_porch (on_call f c cl) = cl_porch cl" "cl_introductions (on_call f c cl) = cl_introductions cl"
  "cl_pending_accepts (on_call f c cl) = cl_pending_accepts cl" "cl_seed (on_call f c cl) = cl_seed cl"
  "cl_salt (on_call f c cl) = cl_salt cl" "cl_next_call (on_call f c cl) = cl_next_call cl"
  "cl_community (on_call f c cl) = cl_community cl"
  by (simp_all add: on_call_def split: option.split prod.split)

lemma on_await_fields [simp]:
  "cl_sessions (on_await f w cl) = cl_sessions cl" "cl_starts (on_await f w cl) = cl_starts cl"
  "cl_events (on_await f w cl) = cl_events cl" "cl_seen (on_await f w cl) = cl_seen cl"
  "cl_porch (on_await f w cl) = cl_porch cl" "cl_calls (on_await f w cl) = cl_calls cl"
  "cl_pending_accepts (on_await f w cl) = cl_pending_accepts cl" "cl_seed (on_await f w cl) = cl_seed cl"
  by (simp_all add: on_await_def split: option.split prod.split)

lemma emit_event_fields [simp]:
  "cl_sessions (emit_event e cl) = cl_sessions cl" "cl_starts (emit_event e cl) = cl_starts cl"
  "cl_seen (emit_event e cl) = cl_seen cl" "cl_porch (emit_event e cl) = cl_porch cl"
  "cl_calls (emit_event e cl) = cl_calls cl" "cl_pending_accepts (emit_event e cl) = cl_pending_accepts cl"
  "cl_seed (emit_event e cl) = cl_seed cl" "cl_salt (emit_event e cl) = cl_salt cl"
  by (simp_all add: emit_event_def)

lemma emit_event_bound:
  "length (cl_events cl) \<le> GATE_EVENT_QUEUE \<Longrightarrow> length (cl_events (emit_event e cl)) \<le> GATE_EVENT_QUEUE"
  by (simp add: emit_event_def)

lemma hm_wf_filter: "hm_wf m \<Longrightarrow> hm_wf (filter P m)"
  by (simp add: hm_wf_def distinct_map_filter)

lemma hm_insert_length: "length (hm_insert k v m) = (if k \<in> fst ` set m then length m else Suc (length m))"
  by (induction m) auto

lemma victim_some: "m \<noteq> [] \<Longrightarrow> victim m \<noteq> None"
  by (cases m) (auto simp: victim_def split: option.splits)

lemma make_room_ok: "hm_wf m \<Longrightarrow> hm_wf (make_room m) \<and> length (make_room m) < MAX_SESSIONS_PER_REGISTRATION"
proof (induction m rule: make_room.induct)
  case (1 m)
  show ?case
  proof (cases "length m \<ge> MAX_SESSIONS_PER_REGISTRATION")
    case True
    then have "m \<noteq> []" by (auto simp: MAX_SESSIONS_PER_REGISTRATION_def)
    then obtain sid where "victim m = Some sid" using victim_some by blast
    then show ?thesis using 1 True hm_wf_remove by (simp add: make_room.simps [of m])
  next
    case False
    then show ?thesis using 1(2) by (simp add: make_room.simps [of m])
  qed
qed

lemma remember_session_ok:
  assumes "sessions_ok (cl_sessions cl)"
  shows "sessions_ok (cl_sessions (remember_session now session a cl))"
proof (cases a)
  case None
  then show ?thesis using assms by (simp add: remember_session_def)
next
  case (Some addr)
  define m where "m = filter (\<lambda>(_, e). duration_since now (he_opened_at e) < REGISTRATION_TTL) (cl_sessions cl)"
  have m: "hm_wf m" "length m \<le> MAX_SESSIONS_PER_REGISTRATION"
    using assms hm_wf_filter length_filter_le order_trans unfolding m_def sessions_ok_def by blast+
  have present: "hm_get m session \<noteq> None \<longleftrightarrow> session \<in> fst ` set m" by (auto simp: map_of_eq_None_iff)
  show ?thesis
    unfolding remember_session_def Some option.case Let_def m_def [symmetric]
    using m make_room_ok [OF m(1)] present by (simp add: sessions_ok_def hm_wf_insert hm_insert_length)
qed

lemma remember_session_fields [simp]:
  "cl_starts (remember_session now s a cl) = cl_starts cl" "cl_events (remember_session now s a cl) = cl_events cl"
  "cl_seen (remember_session now s a cl) = cl_seen cl" "cl_porch (remember_session now s a cl) = cl_porch cl"
  "cl_calls (remember_session now s a cl) = cl_calls cl" "cl_salt (remember_session now s a cl) = cl_salt cl"
  "cl_pending_accepts (remember_session now s a cl) = cl_pending_accepts cl"
  "cl_seed (remember_session now s a cl) = cl_seed cl"
  by (simp_all add: remember_session_def Let_def split: option.split)

lemma open_relay_ok: "client_ok cl \<Longrightarrow> client_ok (open_relay K clocks session a peer cl)"
  by (cases clocks) (simp add: open_relay_def client_ok_def remember_session_ok insert_relay_path_ok register_ok Let_def)

lemma emit_event_ok: "client_ok cl \<Longrightarrow> client_ok (emit_event e cl)"
  by (simp add: client_ok_def emit_event_bound)

lemma unawaited_insert:
  "hm_wf m \<Longrightarrow> length (unawaited (hm_insert k v m)) \<le> length (unawaited m) + (if sl_waiter v = None then 1 else 0)"
  by (induction m) (auto simp: hm_wf_def)

lemma unawaited_insert_kept:
  "hm_wf m \<Longrightarrow> hm_get m k = Some v0 \<Longrightarrow> sl_waiter v0 = None \<Longrightarrow>
     length (unawaited (hm_insert k v m)) \<le> length (unawaited m)"
  by (induction m) (auto simp: hm_wf_def split: if_splits)

lemma starts_ok_remove: "starts_ok m \<Longrightarrow> starts_ok (hm_remove k m)"
proof -
  assume ok: "starts_ok m"
  have "length (unawaited (hm_remove k m)) \<le> length (unawaited m)"
    unfolding AList.delete_eq filter_filter by (induction m) auto
  then show ?thesis using ok hm_wf_remove unfolding starts_ok_def by (meson order_trans)
qed

lemma on_start_ok:
  assumes "client_ok cl"
  shows "client_ok (on_start now session fire_in_ms gate_ms cl)"
proof -
  have s: "starts_ok (cl_starts cl)" using assms by (simp add: client_ok_def)
  let ?slot = "or_default \<lparr>sl_received = None, sl_waiter = None\<rparr> (hm_get (cl_starts cl) session)"
  have "starts_ok (hm_insert session (?slot\<lparr>sl_received := Some x\<rparr>) (cl_starts cl))"
    if "sl_waiter ?slot = None"
      "\<not> (length (cl_starts cl) \<ge> MAX_SESSIONS_PER_REGISTRATION \<and> hm_get (cl_starts cl) session = None)" for x
  proof (cases "hm_get (cl_starts cl) session")
    case None
    then have "length (unawaited (cl_starts cl)) < MAX_SESSIONS_PER_REGISTRATION"
      using that(2) by (intro le_less_trans [OF length_filter_le]) simp
    then show ?thesis
      using s unawaited_insert [of "cl_starts cl" session "?slot\<lparr>sl_received := Some x\<rparr>"]
      by (simp add: starts_ok_def hm_wf_insert split: if_splits)
  next
    case (Some v0)
    then have "sl_waiter v0 = None" using that(1) by (simp add: or_default_def)
    with Some show ?thesis
      using s unawaited_insert_kept [of "cl_starts cl" session v0 "?slot\<lparr>sl_received := Some x\<rparr>"]
      by (simp add: starts_ok_def hm_wf_insert)
  qed
  then show ?thesis
    using assms starts_ok_remove [OF s] by (auto simp: on_start_def client_ok_def Let_def split: option.split)
qed

lemma forget_start_ok: "client_ok cl \<Longrightarrow> client_ok (forget_start session cl)"
  by (simp add: forget_start_def client_ok_def starts_ok_remove split: option.split)

lemma await_start_begin_ok:
  assumes "client_ok cl"
  shows "client_ok (fst (await_start_begin session cl))"
proof -
  have s: "starts_ok (cl_starts cl)" using assms by (simp add: client_ok_def)
  have "starts_ok (hm_insert session (v\<lparr>sl_waiter := Some w\<rparr>) (cl_starts cl))" for v w
    using s unawaited_insert [of "cl_starts cl" session "v\<lparr>sl_waiter := Some w\<rparr>"]
    by (simp add: starts_ok_def hm_wf_insert)
  then show ?thesis
    using assms starts_ok_remove [OF s] by (simp add: await_start_begin_def client_ok_def Let_def split: option.split)
qed

lemma await_start_end_ok: "client_ok cl \<Longrightarrow> client_ok (fst (await_start_end session w cl))"
proof -
  assume "client_ok cl"
  then have "client_ok (cl\<lparr>cl_awaits := m\<rparr>)" for m by (simp add: client_ok_def)
  then show ?thesis by (simp add: await_start_end_def forget_start_ok Let_def split: option.split oneshot.split)
qed

lemma attempt_finished_ok:
  assumes "client_ok cl"
  shows "client_ok (attempt_finished session cl)"
proof -
  have "client_ok (case hm_get (cl_sessions cl) session of
          None \<Rightarrow> cl
        | Some e \<Rightarrow> cl\<lparr>cl_sessions := hm_insert session (e\<lparr>he_finished := True\<rparr>) (cl_sessions cl)\<rparr>)"
  proof (cases "hm_get (cl_sessions cl) session")
    case (Some e)
    then have "session \<in> fst ` set (cl_sessions cl)" using map_of_SomeD by force
    then show ?thesis
      using assms Some by (simp add: client_ok_def sessions_ok_def hm_wf_insert hm_insert_length)
  qed (use assms in simp)
  then show ?thesis by (simp add: attempt_finished_def forget_start_ok)
qed

lemma seen_accept_bound:
  "length s \<le> SEEN_SET_CAP \<Longrightarrow> length (fst (seen_accept K swept_at now sealed s)) \<le> SEEN_SET_CAP"
proof -
  assume "length s \<le> SEEN_SET_CAP"
  then have "length (seen_sweep swept_at s) \<le> SEEN_SET_CAP"
    unfolding seen_sweep_def using length_filter_le order_trans by blast
  then show ?thesis by (simp add: seen_accept_def Let_def hm_insert_length)
qed

lemma answer_knock_ok:
  assumes "client_ok cl"
  shows "client_ok (fst (answer_knock S C K clock tag sealed cl))"
proof (cases "open_sealed S C (cl_seed cl) sealed")
  case (Inr body)
  obtain cl1 accept where adm: "knock_admitted S K (kc_redeem_ms clock) body cl = (cl1, accept)"
    by (cases "knock_admitted S K (kc_redeem_ms clock) body cl")
  obtain seen fresh where seen: "seen_accept K (kc_swept_at clock) (kc_seen_at clock) sealed (cl_seen cl1) = (seen, fresh)"
    by (cases "seen_accept K (kc_swept_at clock) (kc_seen_at clock) sealed (cl_seen cl1)")
  have cl1: "client_ok cl1"
    using adm assms by (auto simp: knock_admitted_def client_ok_def Let_def split: if_splits option.splits prod.splits)
  then have "length seen \<le> SEEN_SET_CAP"
    using seen seen_accept_bound [of "cl_seen cl1" K "kc_swept_at clock" "kc_seen_at clock" sealed] by (simp add: client_ok_def)
  then have "client_ok (cl1\<lparr>cl_seen := seen\<rparr>)" "client_ok (cl1\<lparr>cl_seen := seen, cl_pending_accepts := m\<rparr>)" for m
    using cl1 by (simp_all add: client_ok_def)
  then show ?thesis
    using assms cl1 by (simp add: answer_knock_def Inr adm seen emit_event_ok Let_def)
qed (use assms in \<open>simp add: answer_knock_def\<close>)

lemma read_one_ok: "client_ok cl \<Longrightarrow> client_ok (fst (read_one S C K clock clocks frame cl))"
proof (cases frame)
  case (Introduction v tag session a role)
  assume ok: "client_ok cl"
  have "client_ok (on_call f c cl')" if "client_ok cl'" for f c cl' using that by (simp add: client_ok_def)
  moreover have "client_ok (cl\<lparr>cl_introductions := m\<rparr>)" "client_ok (cl\<lparr>cl_pending_accepts := n\<rparr>)" for m n
    using ok by (simp_all add: client_ok_def)
  ultimately show ?thesis
    using ok by (simp add: Introduction on_introduction_def open_relay_ok emit_event_ok Let_def split: option.split)
qed (simp_all add: on_start_ok answer_knock_ok)

lemma introduce_begin_ok:
  "client_ok cl \<Longrightarrow> client_ok (fst (introduce_begin S C K now_ms eph peer ttl invite written cl))"
  by (simp add: introduce_begin_def client_ok_def Let_def split: sum.split)

lemma introduce_end_ok:
  assumes "client_ok cl"
  shows "client_ok (fst (introduce_end K clocks call cl))"
proof -
  have "client_ok (cl\<lparr>cl_calls := m\<rparr>)" for m using assms by (simp add: client_ok_def)
  moreover have "client_ok ((on_call f c (cl\<lparr>cl_calls := m\<rparr>))\<lparr>cl_introductions := n\<rparr>)" for f c m n
    using assms by (simp add: client_ok_def)
  ultimately show ?thesis
    using assms by (simp add: introduce_end_def open_relay_ok Let_def split: option.split oneshot.split)
qed

lemma reflect_ok: "client_ok cl \<Longrightarrow> client_ok (fst (reflect debug addr exchange cl))"
  using allow_ok [of "cl_porch cl" addr] forget_ok
  by (cases "allow_source addr (cl_porch cl)") (simp add: reflect_def client_ok_def)

lemma client_step_ok: "client_ok cl \<Longrightarrow> client_ok (fst (client_step S C K c cl))"
proof (cases c)
  case (IntroduceBegin now_ms eph peer ttl invite written)
  assume "client_ok cl"
  then show ?thesis
    using introduce_begin_ok [of cl S C K now_ms eph peer ttl invite written]
    by (cases "introduce_begin S C K now_ms eph peer ttl invite written cl") (simp add: IntroduceBegin)
next
  case (PorchCall pc)
  assume ok: "client_ok cl"
  obtain p outs where "porch_step K pc (cl_porch cl) = Some (p, outs)" "porch_ok (cl_porch cl) \<longrightarrow> porch_ok p"
    using porch_step_ok by blast
  then show ?thesis using ok by (simp add: PorchCall client_ok_def)
next
  case TakeEvent
  assume "client_ok cl"
  then show ?thesis by (auto simp: TakeEvent client_ok_def)
qed (simp_all add: introduce_end_ok read_one_ok await_start_begin_ok await_start_end_ok attempt_finished_ok reflect_ok,
    simp_all add: client_ok_def)

lemma client_run_ok: "client_ok cl \<Longrightarrow> client_ok (fst (client_run S C K cs cl))"
proof (induction cs arbitrary: cl)
  case (Cons c cs)
  then show ?case using client_step_ok [OF Cons.prems, of S C K c]
    by (cases "client_step S C K c cl") (simp split: prod.split, metis fst_conv)
qed simp

lemma gate_connect_ok:
  assumes "gate_connect S debug now v6 seed salt community primary expected friends invites handshake reply =
    Inr (cl, period)"
  shows "client_ok cl"
proof -
  obtain p lease where p: "allow_source primary (porch_new v6) = (p, lease)" by (cases "allow_source primary (porch_new v6)")
  have "porch_ok p" using allow_ok [OF porch_ok_new, of primary v6] p by simp
  then have "porch_ok (arm p)" by (simp add: arm_def porch_ok_def porch_base_def)
  then have "porch_ok (forget_source lease (attach_gate now gate (arm p)))" for gate
    by (intro forget_ok attach_ok)
  then show ?thesis
    using assms by (auto simp: gate_connect_def p client_ok_def sessions_ok_def starts_ok_def and_then_eq_Inr
        split: if_splits prod.splits)
qed

section \<open>Whom a path is opened to\<close>

abbreviation peers_of :: "porch \<Rightarrow> (bytes, nat) hashmap" where
  "peers_of p \<equiv> pt_by_peer (po_paths p)"

lemma on_egress_peers: "on_egress entry f p = (q, r) \<Longrightarrow> peers_of q = peers_of p"
  by (auto simp: on_egress_def Let_def split: prod.splits)

lemma ensure_path_peers: "peers_of (fst (ensure_path now synthetic p)) = peers_of p"
  by (simp add: ensure_path_def ensure_by_synthetic_def split: option.split)

lemma ensure_path_peers_eq: "ensure_path now synthetic p = (q, entry) \<Longrightarrow> peers_of q = peers_of p"
  using ensure_path_peers [of now synthetic p] by simp

lemma spawn_peers [simp]: "peers_of (spawn_relay_drain gate entry p) = peers_of p"
  by (simp add: spawn_relay_drain_def)

lemma attach_peers [simp]: "peers_of (attach_gate now gate p) = peers_of p"
proof -
  have "peers_of (attach_one now gate synthetic q) = peers_of q" for synthetic q
    by (auto simp: attach_one_def dest: ensure_path_peers_eq split: prod.split)
  then have "peers_of (fold (attach_one now gate) l q) = peers_of q" for l q
    by (induction l arbitrary: q) simp_all
  then show ?thesis by (simp add: attach_gate_def arm_def allow_source_def Let_def)
qed

lemma register_peers: "peers_of (register_relay_session now session synthetic p) = peers_of p"
  by (auto simp: register_relay_session_def Let_def dest: ensure_path_peers_eq split: option.split prod.split)

lemma queue_probes_peers: "queue_probes K source segments p = (q, woken) \<Longrightarrow> peers_of q = peers_of p"
  using probe_frame_fields(8) [OF queue_probes_frame [of p K source segments]] by simp

lemma poll_recv_peers:
  assumes "poll_recv K waker slots reads p = Some (p', r, woken)"
  shows "peers_of p' = peers_of p"
proof (cases "slots = []")
  case True
  then show ?thesis using assms by (simp add: poll_recv_def)
next
  case False
  then show ?thesis
  proof (rule poll_recv_parts [where p = p and waker = waker and K = K and reads = reads])
    fix p1 budget p2 slots2 filled p3 r' w p4 slots4 filled4
    assume p1: "p1 = p\<lparr>po_waker := Some waker, po_prefer_socket := po_prefer_socket p1\<rparr>"
      and d: "drain_queue_into slots budget p1 = (p2, slots2, filled)"
      and l: "read_loop K (filled > 0) reads p2 = Some (p3, r', w)"
      and e: "drain_queue_into slots2 1 p3 = (p4, slots4, filled4)"
      and poll: "poll_recv K waker slots reads p =
      (if filled = length slots2 then Some (p2, Polled (Inr slots2), [])
       else (case r' of
         Some (Inr got) \<Rightarrow> Some (p3, Polled (Inr (take filled slots2 @ got)), w)
       | Some (Inl e) \<Rightarrow> Some (p3, Polled (if filled > 0 then Inr (take filled slots2) else Inl e), w)
       | None \<Rightarrow>
           if filled > 0 then Some (p3, Polled (Inr (take filled slots2)), w)
           else if budget = 0 then
             Some (p4, if filled4 > 0 then Polled (Inr (take filled4 slots4)) else Pending, w)
           else Some (p3, Pending, w)))"
    have "peers_of p1 = peers_of p" by (subst p1) simp
    moreover have "peers_of p2 = peers_of p1" "peers_of p4 = peers_of p3"
      using d e by (auto simp: drain_queue_into_def Let_def)
    moreover have "recv_frame p2 p3" using read_loop_safe [OF l] by blast
    then have "peers_of p3 = peers_of p2" by (simp add: recv_frame_def)
    ultimately show ?thesis using assms unfolding poll by (auto split: if_splits option.splits sum.splits)
  qed
qed

lemma porch_step_peers:
  assumes "porch_step K c p = Some (p', outs)" and "\<And>now peer synthetic. c \<noteq> InsertRelayPath now peer synthetic"
  shows "peers_of p' = peers_of p"
proof (cases c)
  case (DrainTurn refilled_at now task sends)
  then show ?thesis
    using assms(1) by (auto simp: drain_turn_def Let_def dest: on_egress_peers split: if_splits prod.splits drain_next.splits)
next
  case (SendProbe now wire addr probe)
  then show ?thesis
    using assms(1) by (auto simp: send_probe_def send_probe_relayed_def Let_def dest: on_egress_peers
        split: option.splits sum.splits prod.splits)
next
  case (TrySend now task wire tx)
  have "peers_of (note_relay_intent task d p) = peers_of p" for d
    by (simp add: note_relay_intent_def split: option.split)
  then show ?thesis
    using assms(1) TrySend by (auto simp: try_send_def Let_def dest!: on_egress_peers
        split: option.splits sum.splits prod.splits if_splits)
next
  case (GateDatagram datagram)
  then show ?thesis
    using assms(1) by (auto simp: gate_datagram_def deliver_synthetic_def Let_def dest: queue_probes_peers
        split: option.splits sum.splits prod.splits if_splits)
next
  case (PollRecv waker slots reads)
  then show ?thesis using assms(1) poll_recv_peers by (auto simp: map_option_case split: option.splits)
next
  case (PollWritable task waker n adopted)
  have "peers_of (fst (take_relay_intent task p)) = peers_of p"
    by (simp add: take_relay_intent_def split: option.split)
  then show ?thesis
    using assms(1) PollWritable by (auto simp: poll_writable_def Let_def dest!: on_egress_peers
        split: option.splits prod.splits if_splits)
next
  case (RegisterSession now session synthetic)
  then show ?thesis using assms(1) register_peers by auto
next
  case (AttachGate now gate)
  then show ?thesis using assms(1) attach_peers [of now gate p] by auto
next
  case (DetachGate addr)
  then show ?thesis using assms(1) by (auto simp: detach_gate_def forget_source_def Let_def split: option.splits if_splits)
next
  case (PollProbe att waker)
  have "peers_of q = peers_of p" if "try_recv_probe att p = (q, r)" for p q r
    using that by (auto simp: try_recv_probe_def Let_def split: option.splits)
  from this [of p] this [of "_ \<lparr>po_probe_waker := Some waker\<rparr>"] show ?thesis
    using assms(1) PollProbe
    by (cases "try_recv_probe att (fst (try_recv_probe att p)\<lparr>po_probe_waker := Some waker\<rparr>)")
      (auto simp: poll_probe_def split: option.splits prod.splits)
next
  case (TryRecvProbe att)
  then show ?thesis using assms(1) by (auto simp: try_recv_probe_def Let_def split: option.splits)
next
  case (OnPath entry pc)
  then show ?thesis using assms(1) by (auto split: option.splits prod.splits)
next
  case (InsertRelayPath now peer synthetic)
  then show ?thesis using assms(2) by blast
qed (use assms(1) in \<open>auto simp: allow_source_def forget_source_def arm_def arm_probe_key_def disarm_probe_key_def
    Let_def\<close>)

fun asked :: "client_call \<Rightarrow> bytes set" where
  "asked (IntroduceBegin _ _ peer_key _ _ _) = {peer_key}"
| "asked _ = {}"

definition accepted :: "client_out list \<Rightarrow> bytes set" where
  "accepted outs = {k. Emit (KnockAccepted k) \<in> set outs}"

lemma accepted_Nil: "accepted [] = {}"
  by (simp add: accepted_def)

definition consented :: "bytes set \<Rightarrow> gate_client \<Rightarrow> bool" where
  "consented A cl \<longleftrightarrow>
     (\<forall>x \<in> set (peers_of (cl_porch cl)). fst x \<in> A) \<and> (\<forall>x \<in> set (cl_calls cl). ic_peer (snd x) \<in> A) \<and>
     (\<forall>x \<in> set (cl_pending_accepts cl). snd x \<in> A)"

lemma consented_mono: "consented A cl \<Longrightarrow> A \<subseteq> B \<Longrightarrow> consented B cl"
  unfolding consented_def by blast

lemma consented_cong:
  "consented A cl \<Longrightarrow> cl_porch cl' = cl_porch cl \<Longrightarrow> cl_calls cl' = cl_calls cl \<Longrightarrow>
     cl_pending_accepts cl' = cl_pending_accepts cl \<Longrightarrow> consented A cl'"
  by (simp add: consented_def)

lemma consented_calls:
  "consented A cl \<Longrightarrow> \<forall>x \<in> set m. ic_peer (snd x) \<in> A \<Longrightarrow> cl_calls cl' = m \<Longrightarrow> cl_porch cl' = cl_porch cl \<Longrightarrow>
     cl_pending_accepts cl' = cl_pending_accepts cl \<Longrightarrow> consented A cl'"
  by (simp add: consented_def)

lemma set_hm_insert: "set (hm_insert k v m) \<subseteq> insert (k, v) (set m)"
  by (induction m) auto

lemma ball_hm_insert: "\<forall>x \<in> set m. P x \<Longrightarrow> P (k, v) \<Longrightarrow> \<forall>x \<in> set (hm_insert k v m). P x"
  using set_hm_insert [of k v m] by blast

lemma set_hm_remove: "set (hm_remove k m) \<subseteq> set m"
  by (auto simp: AList.delete_eq)

lemma on_call_consented: "consented A cl \<Longrightarrow> consented A (on_call f c cl)"
proof (cases "Option.bind c (\<lambda>c. map_option (Pair c) (hm_get (cl_calls cl) c))")
  case None
  then show "consented A cl \<Longrightarrow> ?thesis" by (simp add: on_call_def)
next
  case (Some x)
  assume cl: "consented A cl"
  obtain n ic where x: "x = (n, ic)" by (cases x)
  have "hm_get (cl_calls cl) n = Some ic" using Some x by (auto simp: bind_eq_Some_conv)
  then have "(n, ic) \<in> set (cl_calls cl)" by (rule map_of_SomeD)
  with cl have "ic_peer ic \<in> A" unfolding consented_def by (metis snd_conv)
  then have "\<forall>x \<in> set (hm_insert n (ic\<lparr>ic_channel := f (ic_channel ic)\<rparr>) (cl_calls cl)). ic_peer (snd x) \<in> A"
    using cl by (intro ball_hm_insert) (simp_all add: consented_def)
  then show ?thesis using cl by (simp add: on_call_def Some x consented_def)
qed

lemma peers_insert: "peers_of (insert_relay_path now peer synthetic p) = hm_insert peer entry (peers_of p) \<or>
    (\<exists>e. peers_of (insert_relay_path now peer synthetic p) = hm_insert peer e (peers_of p))"
  by (auto simp: insert_relay_path_def insert_relay_def Let_def split: option.split)

lemma open_relay_consented:
  assumes "consented A cl" and "peer \<in> A"
  shows "consented A (open_relay K clocks session a peer cl)"
proof -
  obtain t1 t2 t3 where clocks: "clocks = (t1, t2, t3)" by (cases clocks)
  let ?cl = "open_relay K clocks session a peer cl"
  let ?p = "register_relay_session t2 session (synthetic_addr_for K peer cl) (cl_porch cl)"
  have calls: "cl_calls ?cl = cl_calls cl" "cl_pending_accepts ?cl = cl_pending_accepts cl"
    and porch: "cl_porch ?cl = insert_relay_path t3 peer (synthetic_addr_for K peer cl) ?p"
    by (simp_all add: clocks open_relay_def Let_def)
  obtain e where "peers_of (cl_porch ?cl) = hm_insert peer e (peers_of ?p)"
    unfolding porch using peers_insert by blast
  moreover have "\<forall>x \<in> set (hm_insert peer e (peers_of ?p)). fst x \<in> A"
    using assms unfolding register_peers by (intro ball_hm_insert) (simp_all add: consented_def)
  ultimately have "\<forall>x \<in> set (peers_of (cl_porch ?cl)). fst x \<in> A" by simp
  then show ?thesis using assms calls by (simp add: consented_def)
qed

lemma answer_knock_outs:
  assumes "answer_knock S C K clock tag sealed cl = (cl', outs)"
  shows "accepted outs = {} \<or> (\<exists>body. accepted outs = {sb_from body} \<and> outs = [SendFrame (KnockAnswer 1 tag True), Emit (KnockAccepted (sb_from body))] \<and>
    open_sealed S C (cl_seed cl) sealed = Inr body \<and> within_freshness_window (sb_sent_ms body) (kc_fresh_ms clock) \<and>
    pair_tag K (cl_community cl) (sb_from body) (house_key S cl) = tag \<and>
    (sb_from body \<in> cl_friends cl \<or> (\<exists>invite m. sb_invite body = Some invite \<and>
       try_redeem K (kc_redeem_ms clock) (ip_secret invite) (ip_bind invite) (house_key S cl) (cl_gate_key cl)
         (cl_invites cl) = (m, True))) \<and>
    snd (seen_accept K (kc_swept_at clock) (kc_seen_at clock) sealed (cl_seen cl)))"
proof (cases "open_sealed S C (cl_seed cl) sealed")
  case (Inr body)
  obtain cl1 accept where adm: "knock_admitted S K (kc_redeem_ms clock) body cl = (cl1, accept)"
    by (cases "knock_admitted S K (kc_redeem_ms clock) body cl")
  obtain seen fresh where seen: "seen_accept K (kc_swept_at clock) (kc_seen_at clock) sealed (cl_seen cl1) = (seen, fresh)"
    by (cases "seen_accept K (kc_swept_at clock) (kc_seen_at clock) sealed (cl_seen cl1)")
  have "cl_seen cl1 = cl_seen cl"
    using adm by (auto simp: knock_admitted_def Let_def split: if_splits option.splits prod.splits)
  moreover have "sb_from body \<in> cl_friends cl \<or> (\<exists>invite m. sb_invite body = Some invite \<and>
       try_redeem K (kc_redeem_ms clock) (ip_secret invite) (ip_bind invite) (house_key S cl) (cl_gate_key cl)
         (cl_invites cl) = (m, True))" if accept
    using adm that by (auto simp: knock_admitted_def Let_def split: if_splits option.splits prod.splits)
  ultimately show ?thesis
    using assms seen by (auto simp: answer_knock_def Inr adm accepted_def Let_def split: if_splits)
qed (use assms in \<open>simp add: answer_knock_def accepted_def\<close>)

lemma answer_knock_consented:
  assumes "consented A cl" and "answer_knock S C K clock tag sealed cl = (cl', outs)"
  shows "consented (A \<union> accepted outs) cl'"
proof (cases "open_sealed S C (cl_seed cl) sealed")
  case (Inl e)
  then show ?thesis using assms consented_mono by (auto simp: answer_knock_def)
next
  case (Inr body)
  obtain cl1 accept where adm: "knock_admitted S K (kc_redeem_ms clock) body cl = (cl1, accept)"
    by (cases "knock_admitted S K (kc_redeem_ms clock) body cl")
  obtain seen fresh where seen: "seen_accept K (kc_swept_at clock) (kc_seen_at clock) sealed (cl_seen cl1) = (seen, fresh)"
    by (cases "seen_accept K (kc_swept_at clock) (kc_seen_at clock) sealed (cl_seen cl1)")
  have "cl_porch cl1 = cl_porch cl" "cl_calls cl1 = cl_calls cl" "cl_pending_accepts cl1 = cl_pending_accepts cl"
    using adm by (auto simp: knock_admitted_def Let_def split: if_splits option.splits prod.splits)
  then have cl1: "consented A cl1" "consented A (cl1\<lparr>cl_seen := s\<rparr>)" for s using assms(1) by (simp_all add: consented_def)
  have "\<forall>x \<in> set (hm_insert tag (sb_from body) (cl_pending_accepts cl1)). snd x \<in> insert (sb_from body) A"
    using cl1(1) by (intro ball_hm_insert) (simp_all add: consented_def)
  then have "consented (insert (sb_from body) A)
      (emit_event e (cl1\<lparr>cl_seen := s, cl_pending_accepts := hm_insert tag (sb_from body) (cl_pending_accepts cl1)\<rparr>))" for e s
    using cl1(1) by (simp add: consented_def)
  then show ?thesis
    using assms(2) consented_mono [OF assms(1)] consented_mono [OF cl1(1)] consented_mono [OF cl1(2)] seen
    by (auto simp: answer_knock_def Inr adm accepted_def Let_def split: if_splits)
qed

lemma emit_consented: "consented A cl \<Longrightarrow> consented A (emit_event e cl)"
  by (simp add: consented_def)

lemma on_introduction_consented:
  assumes "consented A cl"
  shows "consented A (fst (on_introduction K clocks tag session a role cl))"
proof (cases "hm_get (cl_introductions cl) tag")
  case (Some call)
  have "consented A (cl\<lparr>cl_introductions := m\<rparr>)" for m using assms by (simp add: consented_def)
  then show ?thesis by (simp add: on_introduction_def Some on_call_consented)
next
  case None
  show ?thesis
  proof (cases "hm_get (cl_pending_accepts cl) tag")
    case (Some peer)
    then have "peer \<in> A" using map_of_SomeD [OF Some] assms unfolding consented_def by (metis snd_conv)
    moreover have "consented A (cl\<lparr>cl_pending_accepts := hm_remove tag (cl_pending_accepts cl)\<rparr>)"
      using assms set_hm_remove [of tag "cl_pending_accepts cl"] unfolding consented_def by auto
    ultimately show ?thesis
      using \<open>hm_get (cl_introductions cl) tag = None\<close>
      by (simp add: on_introduction_def Some emit_consented open_relay_consented Let_def)
  qed (use assms None in \<open>simp add: on_introduction_def\<close>)
qed

lemma introduce_begin_consented:
  assumes "consented A cl"
  shows "consented (insert peer A) (fst (introduce_begin S C K now_ms eph peer ttl invite written cl))"
proof -
  let ?tag = "pair_tag K (cl_community cl) (house_key S cl) peer"
  let ?cl = "on_call drop_sender (hm_get (cl_introductions cl) ?tag) cl"
  have c: "consented (insert peer A) cl" "consented (insert peer A) ?cl"
    by (rule consented_mono [OF assms subset_insertI], rule consented_mono [OF on_call_consented [OF assms] subset_insertI])
  have "consented (insert peer A) (?cl\<lparr>cl_introductions := m, cl_next_call := n\<rparr>)" for m n
    using c(2) by (rule consented_cong) simp_all
  moreover
  have calls: "\<forall>x \<in> set (hm_insert k \<lparr>ic_peer = peer, ic_tag = t, ic_channel = ch\<rparr> (cl_calls ?cl)).
      ic_peer (snd x) \<in> insert peer A" for k t ch
    using c(2) unfolding consented_def by (elim conjE, intro ball_hm_insert) (assumption, simp)
  have "consented (insert peer A) (?cl\<lparr>cl_introductions := m, cl_next_call := n,
      cl_calls := hm_insert k \<lparr>ic_peer = peer, ic_tag = t, ic_channel = ch\<rparr> (cl_calls ?cl)\<rparr>)" for m n k t ch
    using c(2) calls [of k t ch] by (rule consented_calls) simp_all
  ultimately show ?thesis using c(1) by (simp add: introduce_begin_def Let_def split: sum.split)
qed

lemma introduce_end_consented:
  assumes "consented A cl"
  shows "consented A (fst (introduce_end K clocks call cl))"
proof (cases "hm_get (cl_calls cl) call")
  case (Some ic)
  let ?cl = "cl\<lparr>cl_calls := hm_remove call (cl_calls cl)\<rparr>"
  have "ic_peer ic \<in> A" using map_of_SomeD [OF Some] assms unfolding consented_def by (metis snd_conv)
  moreover have c: "consented A ?cl"
    using assms set_hm_remove [of call "cl_calls cl"] unfolding consented_def by auto
  moreover have "consented A ((on_call f n ?cl)\<lparr>cl_introductions := m\<rparr>)" for f n m
    using on_call_consented [OF c] by (simp add: consented_def)
  ultimately show ?thesis
    by (simp add: introduce_end_def Some open_relay_consented Let_def split: oneshot.split)
qed (use assms in \<open>simp add: introduce_end_def\<close>)

lemma other_parts:
  "cl_porch (on_start now s f g cl) = cl_porch cl" "cl_calls (on_start now s f g cl) = cl_calls cl"
  "cl_pending_accepts (on_start now s f g cl) = cl_pending_accepts cl"
  "cl_porch (fst (await_start_begin s cl)) = cl_porch cl" "cl_calls (fst (await_start_begin s cl)) = cl_calls cl"
  "cl_pending_accepts (fst (await_start_begin s cl)) = cl_pending_accepts cl"
  "cl_porch (forget_start s cl) = cl_porch cl" "cl_calls (forget_start s cl) = cl_calls cl"
  "cl_pending_accepts (forget_start s cl) = cl_pending_accepts cl"
  by (simp_all add: on_start_def await_start_begin_def forget_start_def Let_def split: option.split)

lemma other_parts_2:
  "cl_porch (fst (await_start_end s w cl)) = cl_porch cl" "cl_calls (fst (await_start_end s w cl)) = cl_calls cl"
  "cl_pending_accepts (fst (await_start_end s w cl)) = cl_pending_accepts cl"
  "cl_porch (attempt_finished s cl) = cl_porch cl" "cl_calls (attempt_finished s cl) = cl_calls cl"
  "cl_pending_accepts (attempt_finished s cl) = cl_pending_accepts cl"
  by (simp_all add: await_start_end_def attempt_finished_def other_parts Let_def split: option.split oneshot.split)

lemma read_one_consented:
  assumes "consented A cl" and "read_one S C K clock clocks frame cl = (cl', outs)"
  shows "consented (A \<union> accepted outs) cl'"
proof (cases frame)
  case (Introduction v tag session a role)
  then have "consented A cl'" using on_introduction_consented [OF assms(1), of K clocks tag session a role] assms(2) by simp
  then show ?thesis by (rule consented_mono) simp
next
  case (Knock v tag ttl sealed)
  then show ?thesis
    using assms answer_knock_consented [OF assms(1)] consented_mono [OF assms(1)] by (auto split: if_splits)
next
  case (Start v session f g)
  then have "consented A cl'" using assms by (auto intro: consented_cong simp: other_parts)
  then show ?thesis by (rule consented_mono) simp
qed (use assms consented_mono [OF assms(1)] in auto)

definition inserts_path :: "client_call \<Rightarrow> bool" where
  "inserts_path c \<longleftrightarrow> (case c of PorchCall (InsertRelayPath _ _ _) \<Rightarrow> True | _ \<Rightarrow> False)"

lemma client_step_consented:
  assumes "consented A cl" and "client_step S C K c cl = (cl', outs)" and "\<not> inserts_path c"
  shows "consented (A \<union> asked c \<union> accepted outs) cl'"
proof -
  have up: "consented A cl' \<Longrightarrow> ?thesis" by (rule consented_mono) auto
  show ?thesis
  proof (cases c)
    case (IntroduceBegin now_ms eph peer ttl invite written)
    then have "consented (insert peer A) cl'"
      using assms(2) introduce_begin_consented [OF assms(1), of peer S C K now_ms eph ttl invite written]
      by (auto split: prod.splits)
    then show ?thesis by (rule consented_mono) (auto simp: IntroduceBegin)
  next
    case (IntroduceEnd clocks call)
    then have "consented A cl'" using assms(2) introduce_end_consented [OF assms(1), of K clocks call] by auto
    then show ?thesis by (rule up)
  next
    case (ReadFrame clock clocks frame)
    then have "consented (A \<union> accepted outs) cl'" using read_one_consented [OF assms(1)] assms(2) by simp
    then show ?thesis by (rule consented_mono) auto
  next
    case (PorchCall pc)
    obtain p o' where p: "porch_step K pc (cl_porch cl) = Some (p, o')" using porch_step_ok by blast
    have "peers_of p = peers_of (cl_porch cl)"
      using assms(3) by (intro porch_step_peers [OF p]) (auto simp: PorchCall inserts_path_def)
    then have "consented A cl'" using assms(1,2) by (auto simp: PorchCall p consented_def)
    then show ?thesis by (rule up)
  next
    case (ReflectOff addr exchange)
    have "peers_of (forget_source l (fst (allow_source addr p))) = peers_of p" for l p
      by (simp add: forget_source_def allow_source_def Let_def)
    then have "consented A cl'"
      using assms(1,2) by (auto simp: ReflectOff reflect_def consented_def split: prod.splits) (metis fst_conv)+
    then show ?thesis by (rule up)
  qed (use assms(2) in \<open>auto simp: accepted_Nil other_parts other_parts_2 intro!: consented_cong [OF assms(1)]\<close>)
qed

lemma client_run_consented:
  assumes "consented A cl" and "client_run S C K cs cl = (cl', outs)" and "\<forall>c \<in> set cs. \<not> inserts_path c"
  shows "consented (A \<union> (\<Union>c \<in> set cs. asked c) \<union> accepted outs) cl'"
  using assms
proof (induction cs arbitrary: A cl cl' outs)
  case (Cons c cs)
  obtain cl1 o1 where one: "client_step S C K c cl = (cl1, o1)" by (cases "client_step S C K c cl")
  obtain cl2 o2 where rest: "client_run S C K cs cl1 = (cl2, o2)" by (cases "client_run S C K cs cl1")
  have out: "cl' = cl2" "outs = o1 @ o2" using Cons.prems(2) by (simp_all add: one rest)
  have "consented (A \<union> asked c \<union> accepted o1) cl1"
    using client_step_consented [OF Cons.prems(1) one] Cons.prems(3) by simp
  from Cons.IH [OF this rest] Cons.prems(3) show ?case
    unfolding out by (rule_tac consented_mono) (auto simp: accepted_def)
qed (auto intro: consented_mono)

text \<open>An output of a run is an output of one of its steps.\<close>

lemma client_run_out:
  assumes "x \<in> set (snd (client_run S C K cs cl))"
  shows "\<exists>before c after. cs = before @ c # after \<and> x \<in> set (snd (client_step S C K c (fst (client_run S C K before cl))))"
  using assms
proof (induction cs arbitrary: cl)
  case (Cons c cs)
  obtain cl1 o1 where one: "client_step S C K c cl = (cl1, o1)" by (cases "client_step S C K c cl")
  show ?case
  proof (cases "x \<in> set o1")
    case True
    then show ?thesis using one by (intro exI [of _ "[]"] exI [of _ c] exI [of _ cs]) simp
  next
    case False
    then have "x \<in> set (snd (client_run S C K cs cl1))" using Cons.prems by (simp add: one split: prod.splits)
    from Cons.IH [OF this] obtain before d after where d: "cs = before @ d # after"
      "x \<in> set (snd (client_step S C K d (fst (client_run S C K before cl1))))" by blast
    have "fst (client_run S C K (c # before) cl) = fst (client_run S C K before cl1)"
      by (simp add: one split: prod.split)
    then show ?thesis using d by (intro exI [of _ "c # before"] exI [of _ d] exI [of _ after]) simp
  qed
qed simp

lemma on_introduction_outs: "x \<in> set (snd (on_introduction K clocks tag session a role cl)) \<Longrightarrow> \<exists>s p r. x = Emit (Introduced s p r)"
  by (auto simp: on_introduction_def Let_def split: option.splits)

text \<open>A knock that was accepted was a knock that the reader read.\<close>

lemma step_accepts:
  assumes "Emit (KnockAccepted k) \<in> set (snd (client_step S C K c cl))"
  shows "\<exists>clock clocks v tag ttl sealed. c = ReadFrame clock clocks (Knock v tag ttl sealed) \<and> cl_auto_answer cl \<and>
    k \<in> accepted (snd (answer_knock S C K clock tag sealed cl))"
proof (cases c)
  case (ReadFrame clock clocks frame)
  then show ?thesis
  proof (cases frame)
    case (Introduction v tag session a role)
    then show ?thesis using assms on_introduction_outs by (fastforce simp: ReadFrame)
  next
    case (Knock v tag ttl sealed)
    then show ?thesis using assms by (cases clocks) (auto simp: ReadFrame accepted_def split: if_splits)
  qed (use assms ReadFrame in auto)
next
  case (IntroduceBegin now_ms eph peer ttl invite written)
  have "Emit e \<notin> set (snd (snd (introduce_begin S C K now_ms eph peer ttl invite written cl)))" for e
    by (simp add: introduce_begin_def Let_def split: sum.split)
  then show ?thesis using assms by (auto simp: IntroduceBegin split: prod.splits)
qed (use assms in \<open>auto split: option.splits\<close>)

section \<open>Text of the gate\<close>

definition utf8_char :: "bytes \<Rightarrow> bool" where
  "utf8_char c \<longleftrightarrow> c \<noteq> [] \<and> utf8_valid c \<and> length c = char_len (hd c)"

lemma char_len_pos [simp]: "0 < char_len b"
  by (simp add: char_len_def)

text \<open>The first character of a string that is well-formed, by its length.\<close>

lemma utf8_cases:
  assumes "utf8_valid (a # s)"
  obtains "char_len a = 1" "a \<le> 0x7F" "utf8_valid s"
    | b s2 where "char_len a = 2" "s = b # s2" "\<And>r. utf8_valid (a # b # r) = utf8_valid r" "utf8_valid s2"
    | b c s3 where "char_len a = 3" "s = b # c # s3" "\<And>r. utf8_valid (a # b # c # r) = utf8_valid r" "utf8_valid s3"
    | b c d s4 where "char_len a = 4" "s = b # c # d # s4" "\<And>r. utf8_valid (a # b # c # d # r) = utf8_valid r" "utf8_valid s4"
proof -
  note u = utf8_valid.simps(2)
  have le: "0xE0 \<le> a \<Longrightarrow> \<not> a \<le> 0xDF" "0xF0 \<le> a \<Longrightarrow> \<not> a \<le> 0xEF" "0xF0 \<le> a \<Longrightarrow> \<not> a \<le> 0xDF"
    "0xF0 \<le> a \<Longrightarrow> \<not> a \<le> 0x7F" "0xE0 \<le> a \<Longrightarrow> \<not> a \<le> 0x7F" "0xC2 \<le> a \<Longrightarrow> \<not> a \<le> 0x7F" "0xF0 \<le> a \<Longrightarrow> 0xC2 \<le> a" "0xE0 \<le> a \<Longrightarrow> 0xC2 \<le> a"
    by (simp_all add: word_le_nat_alt)
  have v: "utf8_valid (a # s)" by fact
  show thesis
  proof (cases "a \<le> 0x7F")
    case True
    then have "utf8_valid s" using v by (subst (asm) u) (simp del: utf8_valid.simps)
    then show ?thesis using that(1) True by (simp add: char_len_def del: utf8_valid.simps)
  next
    case F1: False
    obtain b s2 where s2: "s = b # s2"
      using v F1 by (subst (asm) u) (simp del: utf8_valid.simps split: list.splits)
    show ?thesis
    proof (cases "0xC2 \<le> a \<and> a \<le> 0xDF")
      case True
      have eq: "utf8_valid (a # b # r) = (utf8_cont b \<and> utf8_valid r)" for r
        using F1 True by (subst u) (simp del: utf8_valid.simps)
      then have "utf8_cont b" "utf8_valid s2" using v by (simp_all add: s2 del: utf8_valid.simps)
      then show ?thesis using that(2) [OF _ s2] eq F1 True by (simp add: char_len_def del: utf8_valid.simps)
    next
      case F2: False
      obtain c s3 where s3: "s2 = c # s3"
        using v F1 F2 unfolding s2 by (subst (asm) u) (simp del: utf8_valid.simps split: list.splits)
      show ?thesis
      proof (cases "0xE0 \<le> a \<and> a \<le> 0xEF")
        case True
        define P where "P \<longleftrightarrow> (if a = 0xE0 then 0xA0 \<le> b \<and> b \<le> 0xBF
                   else if a = 0xED then 0x80 \<le> b \<and> b \<le> 0x9F
                   else utf8_cont b) \<and> utf8_cont c"
        have eq: "utf8_valid (a # b # c # r) = (P \<and> utf8_valid r)" for r
          using F1 True le(1) by (subst u) (simp add: P_def conj_assoc del: utf8_valid.simps)
        then have "P" "utf8_valid s3" using v by (simp_all add: s2 s3 del: utf8_valid.simps)
        then show ?thesis
          using that(3) [OF _ s2 [unfolded s3]] eq F1 True le by (simp add: char_len_def del: utf8_valid.simps)
      next
        case F3: False
        obtain d s4 where s4: "s3 = d # s4"
          using v F1 F2 F3 unfolding s2 s3 by (subst (asm) u) (simp del: utf8_valid.simps split: list.splits)
        define P where "P \<longleftrightarrow> 0xF0 \<le> a \<and> a \<le> 0xF4 \<and>
                    (if a = 0xF0 then 0x90 \<le> b \<and> b \<le> 0xBF
                     else if a = 0xF4 then 0x80 \<le> b \<and> b \<le> 0x8F
                     else utf8_cont b) \<and> utf8_cont c \<and> utf8_cont d"
        have eq: "utf8_valid (a # b # c # d # r) = (P \<and> utf8_valid r)" for r
          by (subst u) (simp only: F1 F2 F3 if_False list.case P_def conj_assoc)
        then have P: "P" "utf8_valid s4" using v by (simp_all add: s2 s3 s4 del: utf8_valid.simps)
        then have "0xF0 \<le> a" by (simp add: P_def)
        then show ?thesis
          using that(4) [OF _ s2 [unfolded s3 s4]] eq P F1 le by (simp add: char_len_def del: utf8_valid.simps)
      qed
    qed
  qed
qed

lemma utf8_first:
  assumes "utf8_valid (a # s)"
  shows "utf8_char (take (char_len a) (a # s)) \<and> utf8_valid (drop (char_len a) (a # s))"
  using assms
proof (cases rule: utf8_cases)
  case 1
  then show ?thesis by (simp add: utf8_char_def)
qed (simp_all add: utf8_char_def eval_nat_numeral del: utf8_valid.simps(2))

lemma utf8_char_append:
  assumes "utf8_char c"
  shows "utf8_valid (c @ s) = utf8_valid s"
proof -
  obtain a t where c: "c = a # t" "utf8_valid (a # t)" "Suc (length t) = char_len a"
    using assms by (cases c) (auto simp: utf8_char_def)
  from c(2) show ?thesis
  proof (cases rule: utf8_cases)
    case 1
    then show ?thesis using c by simp
  qed (use c in \<open>simp_all del: utf8_valid.simps(2)\<close>)
qed

lemma utf8_concat: "\<forall>c \<in> set cs. utf8_char c \<Longrightarrow> utf8_valid (concat cs)"
  by (induction cs) (simp_all add: utf8_char_append)

lemma take_chars_valid:
  "utf8_valid s \<Longrightarrow> length s \<le> n \<Longrightarrow> concat (take_chars n s) = s \<and> (\<forall>c \<in> set (take_chars n s). utf8_char c)"
proof (induction n s rule: take_chars.induct)
  case (2 n s)
  show ?case
  proof (cases s)
    case (Cons a t)
    note f = utf8_first [OF 2(2) [unfolded Cons]]
    have "0 < char_len a" by simp
    then have "length (drop (char_len a) s) \<le> n" using 2(3) unfolding Cons by (simp del: char_len_pos)
    then show ?thesis using 2(1) [OF Cons] f 2 by (simp add: Cons)
  qed simp
qed simp

lemma take_chars_concat:
  "\<forall>c \<in> set cs. utf8_char c \<Longrightarrow> length (concat cs) \<le> n \<Longrightarrow> take_chars n (concat cs) = cs"
proof (induction cs arbitrary: n)
  case Nil
  show ?case by (cases n) simp_all
next
  case (Cons c cs)
  obtain a t where c: "c = a # t" "length c = char_len a" using Cons.prems(1) by (cases c) (auto simp: utf8_char_def)
  obtain m where n: "n = Suc m" using Cons.prems(2) c by (cases n) auto
  have "take (char_len a) (c @ concat cs) = c" "drop (char_len a) (c @ concat cs) = concat cs" using c(2) by simp_all
  then show ?case using Cons.IH [of m] Cons.prems n c by simp
qed

lemma gate_text_loop_spec:
  assumes "length out \<le> 61"
  shows "\<exists>kept rest. cs = kept @ rest \<and> gate_text_loop out cs = out @ concat kept @ (if rest = [] then [] else CUT) \<and>
     length (out @ concat kept) \<le> 61 \<and> (length (out @ concat cs) \<le> 61 \<longrightarrow> rest = [])"
  using assms
proof (induction cs arbitrary: out)
  case (Cons c cs)
  show ?case
  proof (cases "length out + length c > 61")
    case True
    then show ?thesis using Cons.prems
      by (intro exI [of _ "[]"] exI [of _ "c # cs"]) (simp add: ERROR_DETAIL_CAP_def CUT_def ascii_def)
  next
    case False
    then have "length (out @ c) \<le> 61" by simp
    from Cons.IH [OF this] obtain kept rest where "cs = kept @ rest"
      "gate_text_loop (out @ c) cs = (out @ c) @ concat kept @ (if rest = [] then [] else CUT)"
      "length ((out @ c) @ concat kept) \<le> 61" "length ((out @ c) @ concat cs) \<le> 61 \<longrightarrow> rest = []" by blast
    then show ?thesis
      using False by (intro exI [of _ "c # kept"] exI [of _ rest]) (simp add: ERROR_DETAIL_CAP_def CUT_def ascii_def)
  qed
qed simp

section \<open>What opening a relay leg leaves\<close>

lemma register_routes:
  "hm_get (po_by_synthetic (register_relay_session now session synthetic p)) synthetic = Some session"
  by (simp add: register_relay_session_def spawn_relay_drain_def hm_get_insert Let_def split: option.split prod.split)

lemma open_relay_routes:
  "hm_get (po_by_synthetic (cl_porch (open_relay K clocks session a peer cl))) (synthetic_addr_for K peer cl) = Some session \<and>
   path_for peer (cl_porch (open_relay K clocks session a peer cl)) \<noteq> None"
proof -
  obtain t1 t2 t3 where clocks: "clocks = (t1, t2, t3)" by (cases clocks)
  let ?p = "register_relay_session t2 session (synthetic_addr_for K peer cl) (cl_porch cl)"
  have porch: "cl_porch (open_relay K clocks session a peer cl) = insert_relay_path t3 peer (synthetic_addr_for K peer cl) ?p"
    by (simp add: clocks open_relay_def Let_def)
  obtain e where "peers_of (insert_relay_path t3 peer (synthetic_addr_for K peer cl) ?p) = hm_insert peer e (peers_of ?p)"
    using peers_insert by blast
  then show ?thesis
    using register_routes unfolding porch by (simp add: path_for_def pt_get_def insert_relay_path_def hm_get_insert)
qed

end
