(* ===== verification/Client_Props.thy ===== *)
theory Client_Props
  imports Client_Laws Demo
begin

text \<open>The properties of the gate client, its invites and its sealed bodies.\<close>

section \<open>Sealed bodies\<close>

text \<open>C37: What is sealed to a key opens under the signing key of that key as it was, whatever
  ephemeral secret was drawn, and with the encoding of RFC 8949 the seal is within the cap that
  the gate's frames put on it, so that the gate carries it.\<close>

theorem seal_round_trip:
  assumes "seal_contract S" and "minicbor_contract C" and "body_wf body"
    and "C = rfc8949 \<or> length (encode_body C body) < 2 ^ 32"
  shows "\<exists>sealed. seal S C eph body (public_of S seed) = Inr sealed \<and> open_sealed S C seed sealed = Inr body \<and>
    (C = rfc8949 \<longrightarrow> length sealed \<le> SEALED_CAP)"
proof -
  have len: "length (encode_body rfc8949 body) \<le> 200" by (rule encode_body_length [OF assms(3)])
  then have "length (encode_body C body) < 2 ^ 32" using assms(4) by auto
  then obtain sealed where s: "seal S C eph body (public_of S seed) = Inr sealed"
    using seal_succeeds [OF assms(1)] by blast
  with minicbor_contract.open_seal [OF assms(2,1,3) s] len show ?thesis by (auto simp: SEALED_CAP_def)
qed

text \<open>A cryptography with the shape of the real one and no strength, on which the contract can be checked.\<close>

definition pad32 :: "bytes \<Rightarrow> bytes" where
  "pad32 s = take 32 (s @ replicate 32 0)"

definition toy_seal :: seal_crypto where
  "toy_seal = \<lparr>to_montgomery = Some, mul_base_clamped = pad32,
     mul_clamped = (\<lambda>point scalar. map2 xor point (pad32 scalar)), blake3_derive_key = (\<lambda>_ m. m),
     aead_encrypt = (\<lambda>_ _ p. Some (p @ replicate 16 0)), aead_decrypt = (\<lambda>_ _ c. Some (take (length c - 16) c)),
     to_scalar_bytes = id, public_of = pad32\<rparr>"

lemma pad32_length [simp]: "length (pad32 s) = 32"
  by (simp add: pad32_def)

lemma toy_seal_contract: "seal_contract toy_seal"
proof -
  have "map2 xor (pad32 a) (pad32 b) = map2 xor (pad32 b) (pad32 a)" for a b
    by (simp add: list_eq_iff_nth_eq xor.commute)
  then show ?thesis by (simp add: seal_contract_def toy_seal_def)
qed

definition demo_sealed_body :: sealed_body where
  "demo_sealed_body = \<lparr>sb_from = demo_host, sb_sent_ms = 5, sb_invite = None\<rparr>"

lemma demo_sealed_body_wf: "body_wf demo_sealed_body"
  by (simp add: body_wf_def demo_sealed_body_def)

theorem seal_round_trip_witness:
  "\<exists>sealed. seal toy_seal rfc8949 [1] demo_sealed_body (public_of toy_seal [9]) = Inr sealed \<and>
     open_sealed toy_seal rfc8949 [9] sealed = Inr demo_sealed_body \<and> length sealed \<le> SEALED_CAP"
  using seal_round_trip [OF toy_seal_contract rfc.minicbor_contract_axioms demo_sealed_body_wf disjI1 [OF refl], of "[1]" "[9]"]
  by blast

section \<open>Invites\<close>

text \<open>C38: An invite is redeemed once. When a secret is accepted, the proof covers this house's key and
  the gate it came through, and the secret was issued with an expiry that has not passed; and it
  is not accepted again unless it was issued again in between.\<close>

theorem invite_spent_once:
  assumes "invite_run K before [] = m" and "try_redeem K t1 secret1 bind1 my1 gate1 m = (m1, True)"
    and "invite_run K between m1 = m2" and "try_redeem K t2 secret2 bind2 my2 gate2 m2 = (m3, True)"
    and "blake3 K secret2 = blake3 K secret1"
  shows "bind1 = invite_bind K secret1 my1 gate1 \<and>
    (\<exists>e \<in> issues K (blake3 K secret1) before. t1 \<le> e) \<and> issues K (blake3 K secret1) between \<noteq> {}"
proof -
  obtain r1 where r1: "hm_get m (blake3 K secret1) = Some r1" "t1 \<le> ir_expires_ms r1"
    "m1 = hm_insert (blake3 K secret1) (r1\<lparr>ir_redeemed := True\<rparr>) m" "bind1 = invite_bind K secret1 my1 gate1"
    by (rule try_redeem_True [OF assms(2)])
  obtain r2 where r2: "hm_get m2 (blake3 K secret1) = Some r2" "\<not> ir_redeemed r2"
    by (rule try_redeem_True [OF assms(4)]) (simp add: assms(5))
  have "hm_get m1 (blake3 K secret1) = Some (r1\<lparr>ir_redeemed := True\<rparr>)" by (simp add: r1(3) hm_get_insert)
  then have "issues K (blake3 K secret1) between \<noteq> {}"
    using redeemed_until_issued [of m1 "blake3 K secret1" _ between K r2] r2 assms(3) by auto
  moreover have "ir_expires_ms r1 \<in> issues K (blake3 K secret1) before"
    using invite_run_record [of K before "[]" "blake3 K secret1" r1] r1(1) assms(1) by auto
  ultimately show ?thesis using r1 by blast
qed

theorem invite_spent_once_witness:
  "invite_bind demo_crypto [1] [2] [3] = invite_bind demo_crypto [1] [2] [3] \<and>
   issues demo_crypto (blake3 demo_crypto [1]) [IssueInvite [1] 20] \<noteq> {}"
proof -
  let ?b = "invite_bind demo_crypto [1] [2] [3]"
  let ?m = "invite_run demo_crypto [IssueInvite [1] 10] []"
  let ?m1 = "fst (try_redeem demo_crypto 5 [1] ?b [2] [3] ?m)"
  let ?m2 = "invite_run demo_crypto [IssueInvite [1] 20] ?m1"
  have one: "try_redeem demo_crypto 5 [1] ?b [2] [3] ?m = (?m1, True)"
    by (simp add: invite_run_def invite_issue_def try_redeem_def)
  have two: "try_redeem demo_crypto 15 [1] ?b [2] [3] ?m2 = (fst (try_redeem demo_crypto 15 [1] ?b [2] [3] ?m2), True)"
    by (simp add: invite_run_def invite_issue_def try_redeem_def)
  from invite_spent_once [OF refl one refl two refl] show ?thesis by blast
qed

section \<open>Text of the gate\<close>

text \<open>C40: Whatever text the gate sends, what is kept of it for a report is a well-formed string of at
  most 64 bytes without a control character; and a text that fits loses its control characters
  and nothing else.\<close>

theorem gate_text_safe:
  assumes "utf8_valid s"
  shows "utf8_valid (gate_text s) \<and> length (gate_text s) \<le> 64 \<and> (\<forall>c \<in> set (chars_of (gate_text s)). \<not> is_control c) \<and>
    (length (concat (filter (\<lambda>c. \<not> is_control c) (chars_of s))) \<le> 61 \<longrightarrow>
       gate_text s = concat (filter (\<lambda>c. \<not> is_control c) (chars_of s)))"
proof -
  define cs where "cs = filter (\<lambda>c. \<not> is_control c) (chars_of s)"
  have cs: "\<forall>c \<in> set cs. utf8_char c \<and> \<not> is_control c"
    using take_chars_valid [OF assms order_refl] by (auto simp: cs_def chars_of_def)
  have "length ([] :: bytes) \<le> 61" by simp
  from gate_text_loop_spec [OF this, of cs] obtain kept rest where k: "cs = kept @ rest"
    "gate_text s = concat kept @ (if rest = [] then [] else CUT)"
    "length (concat kept) \<le> 61" "length (concat cs) \<le> 61 \<longrightarrow> rest = []"
    unfolding gate_text_def cs_def [symmetric] append_Nil by blast
  define dots :: "bytes list" where "dots = (if rest = [] then [] else [[0x2E], [0x2E], [0x2E]])"
  have dots: "\<forall>c \<in> set dots. utf8_char c \<and> \<not> is_control c" "length (concat dots) \<le> 3"
    "concat dots = (if rest = [] then [] else CUT)"
    by (simp_all add: dots_def utf8_char_def char_len_def is_control_def CUT_def ascii_def)
  have out: "gate_text s = concat (kept @ dots)" using k(2) dots(3) by simp
  have all: "\<forall>c \<in> set (kept @ dots). utf8_char c \<and> \<not> is_control c" using cs dots(1) k(1) by auto
  have "chars_of (gate_text s) = kept @ dots"
    unfolding chars_of_def out using all by (intro take_chars_concat) auto
  moreover have "utf8_valid (gate_text s)" unfolding out using all by (intro utf8_concat) auto
  moreover have "length (gate_text s) \<le> 64" using k(3) dots(2) by (simp add: out)
  moreover have "length (concat cs) \<le> 61 \<longrightarrow> gate_text s = concat cs" using k by auto
  ultimately show ?thesis using all unfolding cs_def by simp
qed

theorem gate_text_safe_witness:
  "gate_text [0x61, 0x1B, 0xC3, 0xA9] = [0x61, 0xC3, 0xA9]"
proof -
  let ?s = "[0x61, 0x1B, 0xC3, 0xA9]"
  have "utf8_valid ?s" by (simp add: utf8_cont_def)
  note safe = gate_text_safe [OF this, THEN conjunct2, THEN conjunct2, THEN conjunct2]
  have kept: "filter (\<lambda>c. \<not> is_control c) (chars_of ?s) = [[0x61], [0xC3, 0xA9]]"
    by (simp add: chars_of_def char_len_def is_control_def)
  have "length (concat [[0x61], [0xC3, 0xA9 :: u8]]) \<le> 61" by simp
  from safe [unfolded kept, rule_format, OF this] show ?thesis by simp
qed

section \<open>Connecting\<close>

text \<open>A connection comes up only with the gate that was pinned, where one was; then the socket has
  that gate attached, drops strangers, and admits the gate's own address and no other.\<close>

theorem connect_pinned:
  assumes "gate_connect S debug now v6 seed salt community primary expected friends invites
     (Inr (gate, peer_key)) reply = Inr (cl, period)"
  shows "(expected = None \<or> expected = Some peer_key) \<and> cl_gate_key cl = peer_key \<and>
    po_gate (cl_porch cl) = Some gate \<and> po_armed (cl_porch cl) \<and> from_secs 1 \<le> period \<and>
    (is_source_allowed addr (cl_porch cl) \<longleftrightarrow> unmap_v4 addr = unmap_v4 (snd gate))"
proof -
  let ?p = "forget_source 0 (attach_gate now gate (arm (fst (allow_source primary (porch_new v6)))))"
  have lease: "allow_source primary (porch_new v6) = (fst (allow_source primary (porch_new v6)), 0)"
    by (simp add: allow_source_def porch_new_def Let_def)
  have routes: "po_by_synthetic (arm (fst (allow_source primary (porch_new v6)))) = []"
    by (simp add: allow_source_def arm_def porch_new_def Let_def)
  have cl: "cl_porch cl = ?p" "cl_gate_key cl = peer_key" "expected = None \<or> expected = Some peer_key"
    "\<exists>k. period = from_secs (unat (max k (1 :: u8)))"
    using assms lease by (auto simp: gate_connect_def and_then_eq_Inr split: if_splits prod.splits)
  have p: "po_sources ?p = sources_forget 0 (sources_allow 1 (unmap_v4 (snd gate)) (sources_allow 0 (unmap_v4 primary) sources_empty))"
    "po_gate ?p = Some gate" "po_armed ?p"
    by (simp_all add: forget_source_def attach_gate_def allow_source_def arm_def porch_new_def Let_def)
  have "hm_get (as_refcounts (po_sources ?p)) b = (if b = unmap_v4 (snd gate) then Some 1 else None)" for b
    unfolding p(1)
    by (simp add: sources_forget_def sources_allow_def sources_empty_def or_default_def drop_ref_get hm_get_insert)
  then have "is_source_allowed addr ?p \<longleftrightarrow> unmap_v4 addr = unmap_v4 (snd gate)"
    by (simp add: is_source_allowed_def sources_contain_def)
  moreover have "from_secs 1 \<le> from_secs (unat (max k (1 :: u8)))" for k
  proof -
    have "(1 :: u8) \<le> max k 1" by simp
    then have "unat (1 :: u8) \<le> unat (max k 1)" by (simp only: word_le_nat_alt)
    then show ?thesis by (simp add: from_secs_def)
  qed
  ultimately show ?thesis using cl p(2,3) by auto
qed

definition demo_gate_key :: bytes where "demo_gate_key = replicate 32 8"
definition demo_gate_addr :: socket_addr where "demo_gate_addr = V4 [198, 51, 100, 7] 443"
definition demo_registered :: gate_frame where
  "demo_registered = Registered 1 \<lparr>addr_family = 4, addr_bytes = replicate 16 7, addr_port = 9\<rparr> 30 444"

definition demo_connect :: "bytes \<Rightarrow> gate_client" where
  "demo_connect seed = fst (projr (gate_connect toy_seal (\<lambda>_. '''') 0 False seed [1, 2, 3, 4, 5] demo_visit demo_gate_addr
     (Some demo_gate_key) {} [] (Inr ((0, demo_gate_addr), demo_gate_key)) (Inr demo_registered)))"

lemma demo_connected:
  "gate_connect toy_seal (\<lambda>_. '''') 0 False seed [1, 2, 3, 4, 5] demo_visit demo_gate_addr
     (Some demo_gate_key) {} [] (Inr ((0, demo_gate_addr), demo_gate_key)) (Inr demo_registered) =
   Inr (demo_connect seed, from_secs 30)"
  by (simp add: demo_connect_def gate_connect_def demo_registered_def registered_reply_def to_socket_addr_def max_def
      word_le_nat_alt split: prod.split)

theorem connect_pinned_witness:
  "is_source_allowed demo_gate_addr (cl_porch (demo_connect [3])) \<and>
   \<not> is_source_allowed (V4 [1, 2, 3, 4] 5) (cl_porch (demo_connect [3]))"
  using connect_pinned [OF demo_connected [of "[3]"], where addr = demo_gate_addr]
    connect_pinned [OF demo_connected [of "[3]"], where addr = "V4 [1, 2, 3, 4] 5"]
  by (simp add: demo_gate_addr_def unmap_v4_def)

section \<open>Bounds\<close>

text \<open>C39: What a gate can make a house hold is bounded: whatever frames arrive and whatever is called,
  at most eight sessions, eight starts that nobody awaits, 32 events and 4096 seen hashes; and
  making room never refuses the newest session.\<close>

theorem client_bounded:
  assumes "gate_connect S debug now v6 seed salt community primary expected friends invites handshake reply =
      Inr (cl0, period)" and "client_run S C K calls cl0 = (cl, outs)"
  shows "length (cl_sessions cl) \<le> 8 \<and> length (unawaited (cl_starts cl)) \<le> 8 \<and> length (cl_events cl) \<le> 32 \<and>
    length (cl_seen cl) \<le> 4096 \<and> length (po_inbound (cl_porch cl)) \<le> 1024 \<and>
    peer_observed_for session (remember_session t session (Some addr) cl) = Some addr"
proof -
  have "client_ok cl" using client_run_ok [OF gate_connect_ok [OF assms(1)], of S C K calls] assms(2) by simp
  then show ?thesis
    by (simp add: client_ok_def sessions_ok_def starts_ok_def MAX_SESSIONS_PER_REGISTRATION_def GATE_EVENT_QUEUE_def
        SEEN_SET_CAP_def porch_ok_def porch_base_def INBOUND_RELAY_QUEUE_CAP_def peer_observed_for_def
        remember_session_def hm_get_insert Let_def)
qed

theorem client_bounded_witness:
  "peer_observed_for 6 (remember_session 9 6 (Some demo_gate_addr) (demo_connect [3])) = Some demo_gate_addr"
proof -
  have "client_run toy_seal rfc8949 demo_crypto [] (demo_connect [3]) = (demo_connect [3], [])" by simp
  from client_bounded [OF demo_connected this, where session = 6 and t = 9 and addr = demo_gate_addr] show ?thesis by blast
qed

section \<open>Two houses\<close>

text \<open>Two houses at one gate, the second a friend of the first, and what the first seals to the second.\<close>

definition demo_asker :: gate_client where "demo_asker = demo_connect [3]"
definition demo_answerer :: gate_client where
  "demo_answerer = (demo_connect [4])\<lparr>cl_friends := {pad32 [3]}\<rparr>"

definition demo_tag :: bytes where
  "demo_tag = pair_tag demo_crypto demo_visit (pad32 [3]) (pad32 [4])"

definition demo_ask_body :: sealed_body where
  "demo_ask_body = \<lparr>sb_from = pad32 [3], sb_sent_ms = 5, sb_invite = None\<rparr>"

definition demo_sealed :: bytes where
  "demo_sealed = projr (seal toy_seal rfc8949 [1] demo_ask_body (pad32 [4]))"

definition demo_clock :: knock_clock where
  "demo_clock = \<lparr>kc_fresh_ms = 6, kc_redeem_ms = 6, kc_swept_at = 1, kc_seen_at = 2\<rparr>"

lemma demo_connect_fields:
  "cl_seed (demo_connect seed) = seed" "cl_community (demo_connect seed) = demo_visit"
  "cl_introductions (demo_connect seed) = []" "cl_calls (demo_connect seed) = []" "cl_next_call (demo_connect seed) = 0"
  "cl_auto_answer (demo_connect seed)" "cl_seen (demo_connect seed) = []" "cl_friends (demo_connect seed) = {}"
  by (simp_all add: demo_connect_def gate_connect_def demo_registered_def registered_reply_def to_socket_addr_def
      split: prod.split)

lemma answerer_fields:
  "cl_seed demo_asker = [3]" "cl_community demo_asker = demo_visit" "cl_introductions demo_asker = []"
  "cl_calls demo_asker = []" "cl_next_call demo_asker = 0"
  "cl_seed demo_answerer = [4]" "cl_community demo_answerer = demo_visit" "cl_introductions demo_answerer = []"
  "cl_friends demo_answerer = {pad32 [3]}" "cl_auto_answer demo_answerer" "cl_seen demo_answerer = []"
  by (simp_all add: demo_asker_def demo_answerer_def demo_connect_fields)

lemma demo_house_keys: "house_key toy_seal demo_asker = pad32 [3]" "house_key toy_seal demo_answerer = pad32 [4]"
  by (simp_all add: house_key_def toy_seal_def answerer_fields)

lemma demo_seals:
  "seal toy_seal rfc8949 [1] demo_ask_body (pad32 [4]) = Inr demo_sealed"
  "open_sealed toy_seal rfc8949 [4] demo_sealed = Inr demo_ask_body" "length demo_sealed \<le> 248"
proof -
  have wf: "body_wf demo_ask_body" by (simp add: body_wf_def demo_ask_body_def)
  have "public_of toy_seal [4] = pad32 [4]" by (simp add: toy_seal_def)
  moreover have "length (encode_body rfc8949 demo_ask_body) < 2 ^ 32" using encode_body_length [OF wf] by simp
  from seal_succeeds [OF toy_seal_contract this] obtain x where x: "seal toy_seal rfc8949 [1] demo_ask_body (public_of toy_seal [4]) = Inr x"
    by blast
  ultimately have "seal toy_seal rfc8949 [1] demo_ask_body (pad32 [4]) = Inr x"
    "open_sealed toy_seal rfc8949 [4] x = Inr demo_ask_body" "length x = 48 + length (encode_body rfc8949 demo_ask_body)"
    using rfc.open_seal [OF toy_seal_contract wf x] by simp_all
  then show "seal toy_seal rfc8949 [1] demo_ask_body (pad32 [4]) = Inr demo_sealed"
    "open_sealed toy_seal rfc8949 [4] demo_sealed = Inr demo_ask_body" "length demo_sealed \<le> 248"
    using encode_body_length [OF wf] by (simp_all add: demo_sealed_def)
qed

lemma demo_fresh: "within_freshness_window 5 (kc_fresh_ms demo_clock)"
  by (simp add: within_freshness_window_def demo_clock_def abs_diff_def SEEN_WINDOW_def from_secs_def)

lemma demo_unseen:
  "seen_accept demo_crypto (kc_swept_at demo_clock) (kc_seen_at demo_clock) demo_sealed [] =
     ([(seal_hash demo_crypto demo_sealed, 2)], True)"
  by (simp add: seen_accept_def seen_sweep_def SEEN_SET_CAP_def demo_clock_def Let_def)

lemma demo_answer:
  "snd (answer_knock toy_seal rfc8949 demo_crypto demo_clock demo_tag demo_sealed demo_answerer) =
     [SendFrame (KnockAnswer 1 demo_tag True), Emit (KnockAccepted (pad32 [3]))]"
  using demo_fresh
  by (simp add: answer_knock_def answerer_fields demo_seals(2) demo_ask_body_def demo_house_keys demo_tag_def
      knock_admitted_def demo_unseen Let_def)

section \<open>Consent\<close>

text \<open>C7: A house opens a path only to a peer that it asked to be introduced to or whose knock it
  accepted. So every dial that it makes or accepts ends at such a peer, whose key TLS proved.\<close>

theorem paths_need_consent:
  assumes "gate_connect S debug now v6 seed salt community primary expected friends invites handshake reply =
      Inr (cl0, period)" and "client_run S C K calls cl0 = (cl, outs)" and "\<forall>c \<in> set calls. \<not> inserts_path c"
    and "path_for peer (cl_porch cl) \<noteq> None \<or> accept_peer synthetic shaken cl = Inr peer \<or> dial_peer peer shaken cl = Inr ()"
  shows "(\<exists>now_ms eph ttl invite written. IntroduceBegin now_ms eph peer ttl invite written \<in> set calls) \<or>
    Emit (KnockAccepted peer) \<in> set outs"
proof -
  have "cl_calls cl0 = []" "cl_pending_accepts cl0 = []" "peers_of (cl_porch cl0) = []"
    using assms(1) by (auto simp: gate_connect_def and_then_eq_Inr forget_source_def arm_def allow_source_def
        porch_new_def path_table_new_def Let_def split: if_splits prod.splits)
  then have "consented {} cl0" by (simp add: consented_def)
  from client_run_consented [OF this assms(2,3)]
  have c: "consented ((\<Union>c \<in> set calls. asked c) \<union> accepted outs) cl" by simp
  have "path_for peer (cl_porch cl) \<noteq> None"
    using assms(4) by (auto simp: accept_peer_def dial_peer_def and_then_eq_Inr split: if_splits)
  then obtain e where "(peer, e) \<in> set (peers_of (cl_porch cl))"
    by (auto simp: path_for_def pt_get_def dest: map_of_SomeD)
  then have "peer \<in> (\<Union>c \<in> set calls. asked c) \<union> accepted outs"
    using c unfolding consented_def by (metis fst_conv)
  then consider d where "d \<in> set calls" "peer \<in> asked d" | "peer \<in> accepted outs" by blast
  then show ?thesis
  proof cases
    case 1
    obtain now_ms eph ttl invite written' where "d = IntroduceBegin now_ms eph peer ttl invite written'"
      using 1(2) by (cases d) simp_all
    then show ?thesis using 1 by blast
  next
    case 2
    then show ?thesis by (simp add: accepted_def)
  qed
qed

theorem paths_need_consent_witness:
  "Emit (KnockAccepted (pad32 [3])) \<in> set (snd (client_run toy_seal rfc8949 demo_crypto
     [AddFriend (pad32 [3]), ReadFrame demo_clock (3, 3, 3) (Knock 1 demo_tag 30 demo_sealed),
      ReadFrame demo_clock (4, 4, 4) (Introduction 1 demo_tag 6 \<lparr>addr_family = 4, addr_bytes = replicate 16 7, addr_port = 9\<rparr> 2)]
     (demo_connect [4])))"
proof -
  let ?calls = "[AddFriend (pad32 [3]), ReadFrame demo_clock (3, 3, 3) (Knock 1 demo_tag 30 demo_sealed),
      ReadFrame demo_clock (4, 4, 4) (Introduction 1 demo_tag 6 \<lparr>addr_family = 4, addr_bytes = replicate 16 7, addr_port = 9\<rparr> 2)]"
  obtain b1 o1 where b1: "answer_knock toy_seal rfc8949 demo_crypto demo_clock demo_tag demo_sealed demo_answerer = (b1, o1)"
    by (cases "answer_knock toy_seal rfc8949 demo_crypto demo_clock demo_tag demo_sealed demo_answerer")
  have kept: "hm_get (cl_introductions b1) demo_tag = None" "hm_get (cl_pending_accepts b1) demo_tag = Some (pad32 [3])"
    using b1 demo_fresh
    by (auto simp: answer_knock_def answerer_fields demo_seals(2) demo_ask_body_def demo_house_keys demo_tag_def
        knock_admitted_def demo_unseen emit_event_def hm_get_insert Let_def split: if_splits)
  let ?addr = "\<lparr>addr_family = 4, addr_bytes = replicate 16 7, addr_port = 9\<rparr>"
  let ?b2 = "fst (on_introduction demo_crypto (4, 4, 4) demo_tag 6 \<lparr>addr_family = 4, addr_bytes = replicate 16 7, addr_port = 9\<rparr> 2 b1)"
  have "demo_answerer = (demo_connect [4])\<lparr>cl_friends := insert (pad32 [3]) (cl_friends (demo_connect [4]))\<rparr>"
    by (simp add: demo_answerer_def demo_connect_fields)
  then obtain outs where run: "client_run toy_seal rfc8949 demo_crypto ?calls (demo_connect [4]) = (?b2, outs)"
    using b1 answerer_fields(10) surjective_pairing [of "on_introduction demo_crypto (4, 4, 4) demo_tag 6 ?addr 2 b1"]
    by (simp add: case_prod_beta)
  have "path_for (pad32 [3]) (cl_porch ?b2) \<noteq> None"
    using open_relay_routes by (simp add: on_introduction_def kept Let_def)
  moreover have "\<forall>c \<in> set ?calls. \<not> inserts_path c" by (simp add: inserts_path_def)
  ultimately show ?thesis
    using paths_need_consent [OF demo_connected run, of "pad32 [3]" demo_gate_addr "Inl Timeout"] run by simp
qed

text \<open>C8: A knock is accepted only when its body opens, is fresh, comes under the tag of the pair and
  from a friend or with an invite that is redeemed by it, and was not accepted before within the
  window of the seen set.\<close>

theorem knock_accepted_sound:
  assumes "client_run S C K calls cl0 = (cl, outs)" and "Emit (KnockAccepted k) \<in> set outs"
  shows "\<exists>before after cl1 clock clocks v tag ttl sealed body.
    calls = before @ ReadFrame clock clocks (Knock v tag ttl sealed) # after \<and>
    cl1 = fst (client_run S C K before cl0) \<and> cl_auto_answer cl1 \<and>
    open_sealed S C (cl_seed cl1) sealed = Inr body \<and> sb_from body = k \<and>
    within_freshness_window (sb_sent_ms body) (kc_fresh_ms clock) \<and>
    tag = pair_tag K (cl_community cl1) k (house_key S cl1) \<and>
    (k \<in> cl_friends cl1 \<or> (\<exists>invite m. sb_invite body = Some invite \<and>
       try_redeem K (kc_redeem_ms clock) (ip_secret invite) (ip_bind invite) (house_key S cl1) (cl_gate_key cl1)
         (cl_invites cl1) = (m, True))) \<and>
    snd (seen_accept K (kc_swept_at clock) (kc_seen_at clock) sealed (cl_seen cl1))"
proof -
  have "Emit (KnockAccepted k) \<in> set (snd (client_run S C K calls cl0))" using assms by simp
  from client_run_out [OF this] obtain before c after where c: "calls = before @ c # after"
    "Emit (KnockAccepted k) \<in> set (snd (client_step S C K c (fst (client_run S C K before cl0))))" by blast
  define cl1 where "cl1 = fst (client_run S C K before cl0)"
  obtain clock clocks v tag ttl sealed where r: "c = ReadFrame clock clocks (Knock v tag ttl sealed)"
    "cl_auto_answer cl1" "k \<in> accepted (snd (answer_knock S C K clock tag sealed cl1))"
    using step_accepts [OF c(2)] unfolding cl1_def by blast
  obtain cl' o' where o: "answer_knock S C K clock tag sealed cl1 = (cl', o')" by (cases "answer_knock S C K clock tag sealed cl1")
  obtain body where b: "accepted o' = {sb_from body}" "open_sealed S C (cl_seed cl1) sealed = Inr body"
    "within_freshness_window (sb_sent_ms body) (kc_fresh_ms clock)"
    "pair_tag K (cl_community cl1) (sb_from body) (house_key S cl1) = tag"
    "sb_from body \<in> cl_friends cl1 \<or> (\<exists>invite m. sb_invite body = Some invite \<and>
       try_redeem K (kc_redeem_ms clock) (ip_secret invite) (ip_bind invite) (house_key S cl1) (cl_gate_key cl1)
         (cl_invites cl1) = (m, True))"
    "snd (seen_accept K (kc_swept_at clock) (kc_seen_at clock) sealed (cl_seen cl1))"
    using answer_knock_outs [OF o] r(3) o by auto
  have "sb_from body = k" using b(1) r(3) o by simp
  then show ?thesis using b(2-6) r(1,2) c(1) cl1_def by blast
qed

theorem knock_accepted_sound_witness:
  "\<exists>before after clock clocks v tag ttl sealed.
     [ReadFrame demo_clock (3, 3, 3) (Knock 1 demo_tag 30 demo_sealed)] =
       before @ ReadFrame clock clocks (Knock v tag ttl sealed) # after \<and>
     tag = pair_tag demo_crypto demo_visit (pad32 [3]) (pad32 [4])"
proof -
  obtain b1 o1 where b1: "client_run toy_seal rfc8949 demo_crypto [ReadFrame demo_clock (3, 3, 3) (Knock 1 demo_tag 30 demo_sealed)]
      demo_answerer = (b1, o1)"
    by (cases "client_run toy_seal rfc8949 demo_crypto [ReadFrame demo_clock (3, 3, 3) (Knock 1 demo_tag 30 demo_sealed)] demo_answerer")
  then have "Emit (KnockAccepted (pad32 [3])) \<in> set o1"
    using demo_answer answerer_fields(10) by (auto split: prod.splits)
  from knock_accepted_sound [OF b1 this] obtain before after clock clocks v tag ttl sealed where
    r: "[ReadFrame demo_clock (3, 3, 3) (Knock 1 demo_tag 30 demo_sealed)] =
       before @ ReadFrame clock clocks (Knock v tag ttl sealed) # after" by blast
  then have "tag = demo_tag" by (cases before) simp_all
  with r show ?thesis unfolding demo_tag_def by blast
qed

section \<open>An introduction\<close>

text \<open>C10: An introduction between friends completes. The asker's frame, carried to the other house as a
  knock, is answered with an accept; and when both then get the introduction, each holds the
  session with a relay route and a path to the other, and the asker's call returns it.\<close>

theorem introduction_completes:
  assumes "seal_contract S" and "minicbor_contract C"
    and "introduce_begin S C K now_ms eph (house_key S b) ttl None written a = (a1, Inr call, [SendFrame (Introduce 1 tag ttl sealed)])"
    and "cl_community b = cl_community a" and "house_key S a \<in> cl_friends b" and "cl_auto_answer b"
    and "within_freshness_window now_ms (kc_fresh_ms clock)"
    and "snd (seen_accept K (kc_swept_at clock) (kc_seen_at clock) sealed (cl_seen b))"
    and "hm_get (cl_introductions b) tag = None"
    and "read_one S C K clock clocks (Knock 1 tag ttl sealed) b = (b1, answer)"
    and "read_one S C K clock clocks (Introduction 1 tag session b_seen 2) b1 = (b2, seen)"
    and "read_one S C K clock clocks (Introduction 1 tag session a_seen 1) a1 = (a2, none)"
    and "introduce_end K clocks call a2 = (a3, r)"
  shows "SendFrame (KnockAnswer 1 tag True) \<in> set answer \<and>
    r = Inr \<lparr>io_session = session, io_peer_observed = a_seen, io_role = 1\<rparr> \<and>
    hm_get (po_by_synthetic (cl_porch a3)) (synthetic_addr_for K (house_key S b) a) = Some session \<and>
    hm_get (po_by_synthetic (cl_porch b2)) (synthetic_addr_for K (house_key S a) b) = Some session \<and>
    path_for (house_key S b) (cl_porch a3) \<noteq> None \<and> path_for (house_key S a) (cl_porch b2) \<noteq> None"
proof -
  let ?body = "\<lparr>sb_from = house_key S a, sb_sent_ms = now_ms, sb_invite = None\<rparr>"
  have a1: "tag = pair_tag K (cl_community a) (house_key S a) (house_key S b)"
    "seal S C eph ?body (house_key S b) = Inr sealed"
    "hm_get (cl_introductions a1) tag = Some call"
    "hm_get (cl_calls a1) call = Some \<lparr>ic_peer = house_key S b, ic_tag = tag, ic_channel = Waiting\<rparr>"
    "cl_salt a1 = cl_salt a"
    using assms(3) by (auto simp: introduce_begin_def hm_get_insert Let_def split: sum.splits)
  have "body_wf ?body" using assms(1) by (simp add: body_wf_def house_key_def seal_contract_def)
  from minicbor_contract.open_seal [OF assms(2,1) this a1(2) [unfolded house_key_def [of S b]]]
  have opened: "open_sealed S C (cl_seed b) sealed = Inr ?body" by blast
  have "pair_tag K (cl_community b) (house_key S a) (house_key S b) = tag" using a1(1) assms(4) by simp
  then have b1: "answer = [SendFrame (KnockAnswer 1 tag True), Emit (KnockAccepted (house_key S a))]"
    "hm_get (cl_pending_accepts b1) tag = Some (house_key S a)" "cl_introductions b1 = cl_introductions b"
    "cl_salt b1 = cl_salt b"
    using assms(5-8,10) opened
    by (auto simp: answer_knock_def knock_admitted_def emit_event_def hm_get_insert Let_def split: prod.splits if_splits)
  have "hm_get (cl_introductions b1) tag = None" using b1(3) assms(9) by simp
  then have "cl_porch b2 = cl_porch (open_relay K clocks session b_seen (house_key S a)
      (b1\<lparr>cl_pending_accepts := hm_remove tag (cl_pending_accepts b1)\<rparr>))"
    using assms(11) b1(2) by (auto simp: on_introduction_def Let_def)
  then have b2: "hm_get (po_by_synthetic (cl_porch b2)) (synthetic_addr_for K (house_key S a) b) = Some session"
    "path_for (house_key S a) (cl_porch b2) \<noteq> None"
    using open_relay_routes [of K clocks session b_seen "house_key S a"
        "b1\<lparr>cl_pending_accepts := hm_remove tag (cl_pending_accepts b1)\<rparr>"] b1(4)
    by (simp_all add: synthetic_addr_for_def)
  let ?outcome = "\<lparr>io_session = session, io_peer_observed = a_seen, io_role = 1\<rparr>"
  have a2: "hm_get (cl_calls a2) call = Some \<lparr>ic_peer = house_key S b, ic_tag = tag, ic_channel = Delivered ?outcome\<rparr>"
    "cl_salt a2 = cl_salt a"
    using assms(12) a1(3-5) by (auto simp: on_introduction_def on_call_def oneshot_send_def hm_get_insert)
  then have "r = Inr ?outcome" "a3 = open_relay K clocks session a_seen (house_key S b) (a2\<lparr>cl_calls := hm_remove call (cl_calls a2)\<rparr>)"
    using assms(13) by (auto simp: introduce_end_def Let_def)
  then show ?thesis
    using open_relay_routes [of K clocks session a_seen "house_key S b" "a2\<lparr>cl_calls := hm_remove call (cl_calls a2)\<rparr>"]
      b1(1) b2 a2(2) by (simp add: synthetic_addr_for_def)
qed

lemma demo_frame_length: "length (gate_to_cbor rfc8949 (Introduce 1 demo_tag 30 demo_sealed)) < 2 ^ 32"
proof -
  have "length demo_tag = 32" using hash_lengths_demo by (simp add: demo_tag_def pair_tag_def hash_lengths_def Let_def split: prod.split)
  then show ?thesis using demo_seals(3) by (simp add: rfc8949_def rfc_head_def T_INTRODUCE_def)
qed

theorem introduction_completes_witness:
  "\<exists>a1 call. introduce_begin toy_seal rfc8949 demo_crypto 5 [1] (pad32 [4]) 30 None (Inr ()) demo_asker =
       (a1, Inr call, [SendFrame (Introduce 1 demo_tag 30 demo_sealed)]) \<and>
     snd (introduce_end demo_crypto (3, 3, 3) call (fst (read_one toy_seal rfc8949 demo_crypto demo_clock (3, 3, 3)
       (Introduction 1 demo_tag 6 \<lparr>addr_family = 4, addr_bytes = replicate 16 7, addr_port = 9\<rparr> 1) a1))) =
     Inr \<lparr>io_session = 6, io_peer_observed = \<lparr>addr_family = 4, addr_bytes = replicate 16 7, addr_port = 9\<rparr>, io_role = 1\<rparr>"
proof -
  let ?addr = "\<lparr>addr_family = 4, addr_bytes = replicate 16 7, addr_port = 9\<rparr>"
  obtain a1 where a1: "introduce_begin toy_seal rfc8949 demo_crypto 5 [1] (house_key toy_seal demo_answerer) 30 None (Inr ()) demo_asker =
       (a1, Inr 0, [SendFrame (Introduce 1 demo_tag 30 demo_sealed)])"
    using demo_frame_length demo_seals(1)
    by (simp add: introduce_begin_def demo_house_keys answerer_fields demo_ask_body_def write_frame_def demo_tag_def Let_def
        on_call_def)
  obtain b1 answer where b1: "read_one toy_seal rfc8949 demo_crypto demo_clock (3, 3, 3) (Knock 1 demo_tag 30 demo_sealed)
      demo_answerer = (b1, answer)" by (meson surj_pair)
  obtain b2 seen where b2: "read_one toy_seal rfc8949 demo_crypto demo_clock (3, 3, 3) (Introduction 1 demo_tag 6 ?addr 2) b1 = (b2, seen)"
    by (meson surj_pair)
  obtain a2 none where a2: "read_one toy_seal rfc8949 demo_crypto demo_clock (3, 3, 3) (Introduction 1 demo_tag 6 ?addr 1) a1 = (a2, none)"
    by (meson surj_pair)
  obtain a3 r where a3: "introduce_end demo_crypto (3, 3, 3) 0 a2 = (a3, r)" by (meson surj_pair)
  have "snd (seen_accept demo_crypto (kc_swept_at demo_clock) (kc_seen_at demo_clock) demo_sealed (cl_seen demo_answerer))"
    by (simp add: answerer_fields demo_unseen)
  moreover have "cl_community demo_answerer = cl_community demo_asker" "house_key toy_seal demo_asker \<in> cl_friends demo_answerer"
    "hm_get (cl_introductions demo_answerer) demo_tag = None" by (simp_all add: answerer_fields demo_house_keys)
  ultimately have "r = Inr \<lparr>io_session = 6, io_peer_observed = ?addr, io_role = 1\<rparr>"
    using introduction_completes [OF toy_seal_contract rfc.minicbor_contract_axioms a1 _ _ answerer_fields(10) demo_fresh _ _ b1 b2 a2 a3]
    by simp
  then show ?thesis using a1 a2 a3 by (intro exI [of _ a1] exI [of _ 0]) (simp add: demo_house_keys)
qed

end
