(* ===== verification/Diag_Text.thy ===== *)
theory Diag_Text
  imports Attempt Member_List Gate_Client
begin

text \<open>
  The names and texts of the diagnostics record (\<open>diag.rs\<close>): the enums with their spellings,
  hexadecimal, addresses as text, the cap on free text, and the values of \<open>serde_json\<close>. A
  \<open>String\<close> is the list of its UTF-8 bytes. Of a formatted error message the fixed part is kept.
\<close>

datatype diag_error = DiagIo string | DiagMalformed string

section \<open>The enums\<close>

datatype step =
    Step_GateDial | Step_GateRegister | Step_ReflectPrimary | Step_ReflectSecondary
  | Step_Introduce | Step_RelayOpen | Step_PeerHandshake | Step_CandidateExchange
  | Step_StartSignal | Step_ProbeBurst | Step_Upgrade | Step_Live | Step_PathLost
  | Step_RelayFallback | Step_Closed

definition STEP_ALL :: "step list" where
  "STEP_ALL =
     [Step_GateDial, Step_GateRegister, Step_ReflectPrimary, Step_ReflectSecondary,
      Step_Introduce, Step_RelayOpen, Step_PeerHandshake, Step_CandidateExchange,
      Step_StartSignal, Step_ProbeBurst, Step_Upgrade, Step_Live, Step_PathLost,
      Step_RelayFallback, Step_Closed]"

fun step_str :: "step \<Rightarrow> string" where
  "step_str Step_GateDial = ''gate_dial''"
| "step_str Step_GateRegister = ''gate_register''"
| "step_str Step_ReflectPrimary = ''reflect_primary''"
| "step_str Step_ReflectSecondary = ''reflect_secondary''"
| "step_str Step_Introduce = ''introduce''"
| "step_str Step_RelayOpen = ''relay_open''"
| "step_str Step_PeerHandshake = ''peer_handshake''"
| "step_str Step_CandidateExchange = ''candidate_exchange''"
| "step_str Step_StartSignal = ''start_signal''"
| "step_str Step_ProbeBurst = ''probe_burst''"
| "step_str Step_Upgrade = ''upgrade''"
| "step_str Step_Live = ''live''"
| "step_str Step_PathLost = ''path_lost''"
| "step_str Step_RelayFallback = ''relay_fallback''"
| "step_str Step_Closed = ''closed''"

definition step_parse :: "string \<Rightarrow> diag_error + step" where
  "step_parse s = ok_or (List.find (\<lambda>step. step_str step = s) STEP_ALL) (DiagMalformed ''unknown step'')"

datatype step_outcome = Outcome_Ok | Outcome_Fail

fun outcome_str :: "step_outcome \<Rightarrow> string" where
  "outcome_str Outcome_Ok = ''ok''"
| "outcome_str Outcome_Fail = ''fail''"

definition outcome_parse :: "string \<Rightarrow> diag_error + step_outcome" where
  "outcome_parse s =
     (if s = ''ok'' then Inr Outcome_Ok
      else if s = ''fail'' then Inr Outcome_Fail
      else Inl (DiagMalformed ''unknown outcome''))"

datatype reason =
    Reason_Ok | Reason_GateUnreachable | Reason_GateRefusedNotMember | Reason_GateAtCapacity
  | Reason_GateRateLimited | Reason_RelayStreamFallback | Reason_RelayDatagramTooLarge
  | Reason_IntroduceTimeout | Reason_PeerHandshakeFailed | Reason_PeerKeyMismatch
  | Reason_NoCandidates | Reason_ProbeTimeout | Reason_EndpointDependentMapping
  | Reason_HairpinFailure | Reason_UdpBlocked | Reason_PathIdleTimeout
  | Reason_LocalAddressChanged | Reason_PeerGoodbye | Reason_CapExceeded
  | Reason_PunchDisabled | Reason_Internal

definition REASON_ALL :: "reason list" where
  "REASON_ALL =
     [Reason_Ok, Reason_GateUnreachable, Reason_GateRefusedNotMember, Reason_GateAtCapacity,
      Reason_GateRateLimited, Reason_RelayStreamFallback, Reason_RelayDatagramTooLarge,
      Reason_IntroduceTimeout, Reason_PeerHandshakeFailed, Reason_PeerKeyMismatch,
      Reason_NoCandidates, Reason_ProbeTimeout, Reason_EndpointDependentMapping,
      Reason_HairpinFailure, Reason_UdpBlocked, Reason_PathIdleTimeout,
      Reason_LocalAddressChanged, Reason_PeerGoodbye, Reason_CapExceeded,
      Reason_PunchDisabled, Reason_Internal]"

fun reason_str :: "reason \<Rightarrow> string" where
  "reason_str Reason_Ok = ''ok''"
| "reason_str Reason_GateUnreachable = ''gate_unreachable''"
| "reason_str Reason_GateRefusedNotMember = ''gate_refused_not_member''"
| "reason_str Reason_GateAtCapacity = ''gate_at_capacity''"
| "reason_str Reason_GateRateLimited = ''gate_rate_limited''"
| "reason_str Reason_RelayStreamFallback = ''relay_stream_fallback''"
| "reason_str Reason_RelayDatagramTooLarge = ''relay_datagram_too_large''"
| "reason_str Reason_IntroduceTimeout = ''introduce_timeout''"
| "reason_str Reason_PeerHandshakeFailed = ''peer_handshake_failed''"
| "reason_str Reason_PeerKeyMismatch = ''peer_key_mismatch''"
| "reason_str Reason_NoCandidates = ''no_candidates''"
| "reason_str Reason_ProbeTimeout = ''probe_timeout''"
| "reason_str Reason_EndpointDependentMapping = ''endpoint_dependent_mapping''"
| "reason_str Reason_HairpinFailure = ''hairpin_failure''"
| "reason_str Reason_UdpBlocked = ''udp_blocked''"
| "reason_str Reason_PathIdleTimeout = ''path_idle_timeout''"
| "reason_str Reason_LocalAddressChanged = ''local_address_changed''"
| "reason_str Reason_PeerGoodbye = ''peer_goodbye''"
| "reason_str Reason_CapExceeded = ''cap_exceeded''"
| "reason_str Reason_PunchDisabled = ''punch_disabled''"
| "reason_str Reason_Internal = ''internal''"

definition reason_parse :: "string \<Rightarrow> diag_error + reason" where
  "reason_parse s = ok_or (List.find (\<lambda>r. reason_str r = s) REASON_ALL) (DiagMalformed ''unknown reason'')"

text \<open>The reason a gate's \<open>Error.code\<close> names (\<open>gate/client.rs\<close>).\<close>

definition reason_for_error_code :: "u8 \<Rightarrow> reason" where
  "reason_for_error_code code =
     (if code = error_code_u8 RefusedNotMember then Reason_GateRefusedNotMember
      else if code = error_code_u8 AtCapacityCode then Reason_GateAtCapacity
      else if code = error_code_u8 RateLimitedCode then Reason_GateRateLimited
      else if code = error_code_u8 CapExceeded then Reason_CapExceeded
      else Reason_Internal)"

datatype mapping = EndpointIndependent | EndpointDependent | Mapping_Unknown

fun mapping_str :: "mapping \<Rightarrow> string" where
  "mapping_str EndpointIndependent = ''endpoint_independent''"
| "mapping_str EndpointDependent = ''endpoint_dependent''"
| "mapping_str Mapping_Unknown = ''unknown''"

definition mapping_parse :: "string \<Rightarrow> diag_error + mapping" where
  "mapping_parse s =
     (if s = ''endpoint_independent'' then Inr EndpointIndependent
      else if s = ''endpoint_dependent'' then Inr EndpointDependent
      else if s = ''unknown'' then Inr Mapping_Unknown
      else Inl (DiagMalformed ''unknown mapping''))"

datatype path_choice = Choice_Relay (choice_addr: addr) | Choice_Direct (choice_addr: addr)

fun kind_str :: "path_choice \<Rightarrow> string" where
  "kind_str (Choice_Relay a) = ''relay''"
| "kind_str (Choice_Direct a) = ''direct''"

datatype visit_event_kind =
    Visit_Registered | Visit_Knock | Visit_Open | Visit_Upgraded | Visit_PathStale
  | Visit_PathDead | Visit_FellBack | Visit_Recovered | Visit_Goodbye | Visit_Refused
  | Visit_GateLost

definition VISIT_ALL :: "visit_event_kind list" where
  "VISIT_ALL =
     [Visit_Registered, Visit_Knock, Visit_Open, Visit_Upgraded, Visit_PathStale,
      Visit_PathDead, Visit_FellBack, Visit_Recovered, Visit_Goodbye, Visit_Refused,
      Visit_GateLost]"

fun visit_str :: "visit_event_kind \<Rightarrow> string" where
  "visit_str Visit_Registered = ''registered''"
| "visit_str Visit_Knock = ''knock''"
| "visit_str Visit_Open = ''visit_open''"
| "visit_str Visit_Upgraded = ''upgraded''"
| "visit_str Visit_PathStale = ''path_stale''"
| "visit_str Visit_PathDead = ''path_dead''"
| "visit_str Visit_FellBack = ''fell_back''"
| "visit_str Visit_Recovered = ''recovered''"
| "visit_str Visit_Goodbye = ''goodbye''"
| "visit_str Visit_Refused = ''refused''"
| "visit_str Visit_GateLost = ''gate_lost''"

definition visit_parse :: "string \<Rightarrow> diag_error + visit_event_kind" where
  "visit_parse s = ok_or (List.find (\<lambda>k. visit_str k = s) VISIT_ALL) (DiagMalformed ''unknown visit event'')"

datatype rtt_source = NotSampled | Rtt_Probe | Rtt_Quic | Rtt_Mixed

fun rtt_str :: "rtt_source \<Rightarrow> string" where
  "rtt_str NotSampled = ''not_sampled''"
| "rtt_str Rtt_Probe = ''probe''"
| "rtt_str Rtt_Quic = ''quic''"
| "rtt_str Rtt_Mixed = ''mixed''"

definition rtt_parse :: "string \<Rightarrow> diag_error + rtt_source" where
  "rtt_parse s =
     (if s = ''not_sampled'' then Inr NotSampled
      else if s = ''probe'' then Inr Rtt_Probe
      else if s = ''quic'' then Inr Rtt_Quic
      else if s = ''mixed'' then Inr Rtt_Mixed
      else Inl (DiagMalformed ''unknown rtt source''))"

fun rtt_joined :: "rtt_source \<Rightarrow> rtt_source \<Rightarrow> rtt_source" where
  "rtt_joined NotSampled other = other"
| "rtt_joined other NotSampled = other"
| "rtt_joined a b = (if a = b then a else Rtt_Mixed)"

lemma enums_read_back [simp]:
  "step_parse (step_str step) = Inr step" "outcome_parse (outcome_str outcome) = Inr outcome"
  "reason_parse (reason_str reason) = Inr reason" "mapping_parse (mapping_str mapping) = Inr mapping"
  "visit_parse (visit_str visit) = Inr visit" "rtt_parse (rtt_str rtt) = Inr rtt"
       apply (cases step; simp add: step_parse_def STEP_ALL_def)
      apply (cases outcome; simp add: outcome_parse_def)
     apply (cases reason; simp add: reason_parse_def REASON_ALL_def)
    apply (cases mapping; simp add: mapping_parse_def)
   apply (cases visit; simp add: visit_parse_def VISIT_ALL_def)
  apply (cases rtt; simp add: rtt_parse_def)
  done

text \<open>Joining is associative and commutative: the source of a set of samples.\<close>

lemma rtt_joined_laws:
  "rtt_joined (rtt_joined a b) c = rtt_joined a (rtt_joined b c)" "rtt_joined a b = rtt_joined b a"
  "rtt_joined a a = a"
  by (cases a; cases b; cases c; simp)+

section \<open>Hexadecimal\<close>

definition hex_encode :: "bytes \<Rightarrow> string" where
  "hex_encode bs = concat (map (\<lambda>b. [digit_char (unat b div 16), digit_char (unat b mod 16)]) bs)"

definition utf8 :: "string \<Rightarrow> bytes" where
  "utf8 s = map of_char s"

text \<open>\<open>char::to_digit(16)\<close> of a character, as its bytes.\<close>

definition to_digit16 :: "bytes \<Rightarrow> nat option" where
  "to_digit16 c = (case c of [b] \<Rightarrow> hex_value (unat b) | _ \<Rightarrow> None)"

fun hex_chunks :: "bytes list \<Rightarrow> diag_error + bytes" where
  "hex_chunks [] = Inr []"
| "hex_chunks [c] = Inl (DiagMalformed ''bad hex pair'')"
| "hex_chunks (hi # lo # cs) =
     and_then (ok_or (to_digit16 hi) (DiagMalformed ''bad hex digit'')) (\<lambda>hi.
     and_then (ok_or (to_digit16 lo) (DiagMalformed ''bad hex digit'')) (\<lambda>lo.
     and_then (hex_chunks cs) (\<lambda>out. Inr (of_nat (or (push_bit 4 hi) lo) # out))))"

definition hex_decode :: "string \<Rightarrow> diag_error + bytes" where
  "hex_decode s =
     (if odd (length s) then Inl (DiagMalformed ''odd length hex string'')
      else hex_chunks (chars_of (utf8 s)))"

text \<open>\<open>try_into\<close> of a \<open>Vec<u8>\<close> to an array.\<close>

definition to_array :: "nat \<Rightarrow> string \<Rightarrow> bytes \<Rightarrow> diag_error + bytes" where
  "to_array n message bs = (if length bs = n then Inr bs else Inl (DiagMalformed message))"

section \<open>Redaction\<close>

text \<open>\<open>PeerFingerprint\<close>: \<open>blake3\<close> is an argument.\<close>

definition fingerprint_from_key :: "(bytes \<Rightarrow> bytes) \<Rightarrow> bytes \<Rightarrow> bytes \<Rightarrow> bytes" where
  "fingerprint_from_key hash salt key = take 4 (hash (salt @ key))"

definition fingerprint_from_hex :: "string \<Rightarrow> diag_error + bytes" where
  "fingerprint_from_hex s = and_then (hex_decode s) (to_array 4 ''peer fingerprint must be 4 bytes'')"

definition MAX_FREE_TEXT_LEN :: nat where "MAX_FREE_TEXT_LEN = 256"
definition MAX_RECORD_ENTRIES :: nat where "MAX_RECORD_ENTRIES = 512"
definition TRUNCATION_MARKER :: string where "TRUNCATION_MARKER = ''further entries dropped''"
definition CUT_MARK :: string where "CUT_MARK = ''...[truncated]''"

definition is_char_boundary :: "string \<Rightarrow> nat \<Rightarrow> bool" where
  "is_char_boundary s i \<longleftrightarrow>
     i = 0 \<or> i = length s \<or> i < length s \<and> and (of_char (s ! i) :: u8) 0xC0 \<noteq> 0x80"

fun boundary_below :: "string \<Rightarrow> nat \<Rightarrow> nat" where
  "boundary_below s 0 = 0"
| "boundary_below s (Suc end) = (if is_char_boundary s (Suc end) then Suc end else boundary_below s end)"

definition cap_text :: "string \<Rightarrow> string" where
  "cap_text s =
     (if length s \<le> MAX_FREE_TEXT_LEN then s
      else take (boundary_below s MAX_FREE_TEXT_LEN) s @ CUT_MARK)"

definition safe_text :: "string \<Rightarrow> string" where
  "safe_text text =
     cap_text (map (\<lambda>b. char_of (unat b)) (concat (filter (\<lambda>c. \<not> is_control c) (chars_of (utf8 text)))))"

section \<open>Splitting and reading text\<close>

text \<open>The parts of a text before and after the first occurrence of a separator.\<close>

fun split_first :: "string \<Rightarrow> string \<Rightarrow> (string \<times> string) option" where
  "split_first sep [] = (if sep = [] then Some ([], []) else None)"
| "split_first sep (c # s) =
     (if take (length sep) (c # s) = sep then Some ([], drop (length sep) (c # s))
      else map_option (\<lambda>(a, b). (c # a, b)) (split_first sep s))"

text \<open>\<open>split(sep).next()\<close> and \<open>split(sep).nth(1)\<close>.\<close>

definition split_next :: "string \<Rightarrow> string \<Rightarrow> string" where
  "split_next sep s = (case split_first sep s of None \<Rightarrow> s | Some (a, _) \<Rightarrow> a)"

definition split_second :: "string \<Rightarrow> string \<Rightarrow> string option" where
  "split_second sep s = map_option (\<lambda>(_, rest). split_next sep rest) (split_first sep s)"

definition strip_prefix :: "string \<Rightarrow> string \<Rightarrow> string option" where
  "strip_prefix p s = (if take (length p) s = p then Some (drop (length p) s) else None)"

definition strip_suffix :: "string \<Rightarrow> string \<Rightarrow> string option" where
  "strip_suffix p s = map_option rev (strip_prefix (rev p) (rev s))"

text \<open>\<open>str::parse\<close> of an unsigned integer below \<open>bound\<close>.\<close>

definition digit_value :: "char \<Rightarrow> nat option" where
  "digit_value c = (let n = of_char c in if 48 \<le> n \<and> n \<le> 57 then Some (n - 48) else None)"

fun parse_digits :: "nat \<Rightarrow> nat \<Rightarrow> string \<Rightarrow> nat option" where
  "parse_digits bound acc [] = Some acc"
| "parse_digits bound acc (c # s) =
     Option.bind (digit_value c) (\<lambda>d.
       if acc * 10 + d < bound then parse_digits bound (acc * 10 + d) s else None)"

definition parse_uint :: "nat \<Rightarrow> string \<Rightarrow> nat option" where
  "parse_uint bound s =
     (case s of
        [] \<Rightarrow> None
      | c # rest \<Rightarrow> if c = CHR ''+'' \<and> rest \<noteq> [] then parse_digits bound 0 rest else parse_digits bound 0 s)"

section \<open>Addresses as text\<close>

definition addr_to_json_string :: "addr \<Rightarrow> string" where
  "addr_to_json_string a =
     (case to_socket_addr a of
        Some sa \<Rightarrow> socket_addr_string sa
      | None \<Rightarrow> ''family='' @ decimal (unat (addr_family a)) @ '' bytes='' @ hex_encode (addr_bytes a) @
          '' port='' @ decimal (unat (addr_port a)))"

text \<open>The parser of \<open>SocketAddr\<close> is an argument.\<close>

definition addr_from_json_string :: "(string \<Rightarrow> socket_addr option) \<Rightarrow> string \<Rightarrow> diag_error + addr" where
  "addr_from_json_string sock_parse s =
     (case sock_parse s of
        Some sa \<Rightarrow> Inr (from_socket_addr sa)
      | None \<Rightarrow>
          (let malformed = DiagMalformed ''bad address'' in
           and_then (ok_or (map_option (split_next '' '') (strip_prefix ''family='' s)) malformed) (\<lambda>family.
           and_then (ok_or (map_option (split_next '' '') (split_second '' bytes='' s)) malformed) (\<lambda>bytes_hex.
           and_then (ok_or (split_second '' port='' s) malformed) (\<lambda>port.
           and_then (and_then (hex_decode bytes_hex) (to_array 16 ''address bytes must be 16 bytes'')) (\<lambda>raw.
           and_then (ok_or (parse_uint 256 family) malformed) (\<lambda>fam.
           and_then (ok_or (parse_uint 65536 port) malformed) (\<lambda>p.
             Inr \<lparr>addr_family = of_nat fam, addr_bytes = raw, addr_port = of_nat p\<rparr>))))))))"

text \<open>How an address of the fixed encoding reads back: an IPv4 one keeps its first four bytes.\<close>

definition addr_as_read :: "addr \<Rightarrow> addr" where
  "addr_as_read a = (case to_socket_addr a of Some sa \<Rightarrow> from_socket_addr sa | None \<Rightarrow> a)"

definition addr_for_humans :: "addr \<Rightarrow> string" where
  "addr_for_humans a =
     (case to_socket_addr a of Some sa \<Rightarrow> socket_addr_string sa | None \<Rightarrow> ''(not observed)'')"

section \<open>Times\<close>

text \<open>
  Of the crate \<open>time\<close>: the RFC 3339 text of a number of nanoseconds since the epoch, its
  inverse, and the date a time falls on (\<open>None\<close> beyond the years the crate represents).
\<close>

record time_crate =
  tc_format :: "int \<Rightarrow> string option"
  tc_parse :: "string \<Rightarrow> int option"
  tc_date :: "int \<Rightarrow> (nat \<times> nat \<times> nat) option"

definition EPOCH_FALLBACK :: string where "EPOCH_FALLBACK = ''1970-01-01T00:00:00Z''"

definition rfc3339_format :: "time_crate \<Rightarrow> u64 \<Rightarrow> string" where
  "rfc3339_format T epoch_ms =
     (case tc_format T (int (unat epoch_ms) * 1000000) of Some s \<Rightarrow> s | None \<Rightarrow> EPOCH_FALLBACK)"

definition rfc3339_parse :: "time_crate \<Rightarrow> string \<Rightarrow> diag_error + u64" where
  "rfc3339_parse T s =
     and_then (ok_or (tc_parse T s) (DiagMalformed ''bad RFC 3339 timestamp'')) (\<lambda>nanos.
       if nanos < 0 then Inl (DiagMalformed ''timestamp before the Unix epoch'')
       else if nanos div 1000000 < 2 ^ 64 then Inr (of_int (nanos div 1000000))
       else Inl (DiagMalformed ''timestamp out of range''))"

text \<open>A number of at least \<open>w\<close> digits.\<close>

definition padded :: "nat \<Rightarrow> nat \<Rightarrow> string" where
  "padded w n = replicate (w - length (decimal n)) CHR ''0'' @ decimal n"

definition date_only :: "time_crate \<Rightarrow> u64 \<Rightarrow> string" where
  "date_only T epoch_ms =
     (case tc_date T (int (unat epoch_ms) * 1000000) of
        Some (year, month, day) \<Rightarrow> padded 4 year @ ''-'' @ padded 2 month @ ''-'' @ padded 2 day
      | None \<Rightarrow> ''1970-01-01'')"

section \<open>Values of \<open>serde_json\<close>\<close>

text \<open>
  \<open>serde_json::Value\<close>: a number is one that is a natural number, or another one by its text;
  an object is its entries in the order of its map, whose keys are sorted.
\<close>

datatype json =
    JNull | JBool bool | JUint nat | JNumber string | JString string
  | JArray "json list" | JObject "(string \<times> json) list"

fun object_insert :: "string \<Rightarrow> json \<Rightarrow> (string \<times> json) list \<Rightarrow> (string \<times> json) list" where
  "object_insert k v [] = [(k, v)]"
| "object_insert k v ((k', v') # m) =
     (if k = k' then (k, v) # m
      else if str_less k k' then (k, v) # (k', v') # m
      else (k', v') # object_insert k v m)"

text \<open>The \<open>json!\<close> macro on an object.\<close>

definition json_object :: "(string \<times> json) list \<Rightarrow> json" where
  "json_object kvs = JObject (foldl (\<lambda>m (k, v). object_insert k v m) [] kvs)"

fun json_get :: "json \<Rightarrow> string \<Rightarrow> json option" where
  "json_get (JObject m) k = map_of m k"
| "json_get _ k = None"

fun json_as_str :: "json \<Rightarrow> string option" where
  "json_as_str (JString s) = Some s"
| "json_as_str _ = None"

fun json_as_u64 :: "json \<Rightarrow> u64 option" where
  "json_as_u64 (JUint n) = (if n < 2 ^ 64 then Some (of_nat n) else None)"
| "json_as_u64 _ = None"

fun json_as_bool :: "json \<Rightarrow> bool option" where
  "json_as_bool (JBool b) = Some b"
| "json_as_bool _ = None"

fun json_as_array :: "json \<Rightarrow> json list option" where
  "json_as_array (JArray vs) = Some vs"
| "json_as_array _ = None"

definition field :: "json \<Rightarrow> string \<Rightarrow> diag_error + json" where
  "field v k = ok_or (json_get v k) (DiagMalformed ''missing field'')"

definition field_str :: "json \<Rightarrow> string \<Rightarrow> diag_error + string" where
  "field_str v k = and_then (field v k) (\<lambda>x. ok_or (json_as_str x) (DiagMalformed ''field is not a string''))"

definition field_u64 :: "json \<Rightarrow> string \<Rightarrow> diag_error + u64" where
  "field_u64 v k =
     and_then (field v k) (\<lambda>x. ok_or (json_as_u64 x) (DiagMalformed ''field is not an unsigned integer''))"

definition optional_field_u64 :: "json \<Rightarrow> string \<Rightarrow> diag_error + u64" where
  "optional_field_u64 v k =
     (case json_get v k of
        None \<Rightarrow> Inr 0
      | Some JNull \<Rightarrow> Inr 0
      | Some present \<Rightarrow> ok_or (json_as_u64 present) (DiagMalformed ''field is not an unsigned integer''))"

definition u32_try_from :: "string \<Rightarrow> u64 \<Rightarrow> diag_error + u32" where
  "u32_try_from message n = (if unat n < 2 ^ 32 then Inr (ucast n) else Inl (DiagMalformed message))"

definition optional_field_u32 :: "json \<Rightarrow> string \<Rightarrow> diag_error + u32" where
  "optional_field_u32 v k =
     and_then (optional_field_u64 v k) (u32_try_from ''field is out of range for u32'')"

definition field_bool :: "json \<Rightarrow> string \<Rightarrow> diag_error + bool" where
  "field_bool v k = and_then (field v k) (\<lambda>x. ok_or (json_as_bool x) (DiagMalformed ''field is not a bool''))"

definition field_array :: "json \<Rightarrow> string \<Rightarrow> diag_error + json list" where
  "field_array v k = and_then (field v k) (\<lambda>x. ok_or (json_as_array x) (DiagMalformed ''field is not an array''))"

definition as_str :: "json \<Rightarrow> diag_error + string" where
  "as_str v = ok_or (json_as_str v) (DiagMalformed ''expected a string'')"

end
