(* ===== verification/Diag_Record.thy ===== *)
theory Diag_Record
  imports Diag_Text
begin

text \<open>
  A diagnostics record and its line of JSON (\<open>DiagRecord::to_json_line\<close> and
  \<open>from_json_line\<close>): the text of a JSON value is an argument.
\<close>

section \<open>The record\<close>

record step_record =
  sr_step :: step
  sr_at_ms :: u64
  sr_outcome :: step_outcome
  sr_detail :: string

record visit_event =
  ve_event :: visit_event_kind
  ve_at_ms :: u64
  ve_detail :: string

record diag_record =
  dr_attempt :: bytes
  dr_session :: u32
  dr_gate_ms :: u64
  dr_peer :: bytes
  dr_started_at_ms :: u64
  dr_ended_at_ms :: u64
  dr_steps :: "step_record list"
  dr_events :: "visit_event list"
  dr_failed_step :: "step option"
  dr_local_observed :: "addr \<times> addr"
  dr_peer_observed :: addr
  dr_mapping :: mapping
  dr_gate_carried_traffic :: bool
  dr_gate_bytes :: u64
  dr_relay_queued :: u64
  dr_relay_shaped_delay_p50_us :: u64
  dr_relay_shaped_delay_max_us :: u64
  dr_relay_dropped_at_full :: u64
  dr_path :: path_choice
  dr_path_rtt_us :: u32
  dr_rtt_median_us :: u32
  dr_rtt_p95_us :: u32
  dr_rtt_samples :: u32
  dr_rtt_source :: rtt_source
  dr_reason :: reason
  dr_version :: string
  dr_platform :: string

section \<open>Writing\<close>

definition step_json :: "step_record \<Rightarrow> json" where
  "step_json s = json_object
     [(''step'', JString (step_str (sr_step s))), (''at_ms'', JUint (unat (sr_at_ms s))),
      (''outcome'', JString (outcome_str (sr_outcome s))), (''detail'', JString (cap_text (sr_detail s)))]"

definition event_json :: "visit_event \<Rightarrow> json" where
  "event_json e = json_object
     [(''event'', JString (visit_str (ve_event e))), (''at_ms'', JUint (unat (ve_at_ms e))),
      (''detail'', JString (cap_text (ve_detail e)))]"

definition record_fields :: "time_crate \<Rightarrow> diag_record \<Rightarrow> (string \<times> json) list" where
  "record_fields T r =
     [(''attempt'', JString (hex_encode (dr_attempt r))),
      (''session'', JUint (unat (dr_session r))),
      (''gate_ms'', JUint (unat (dr_gate_ms r))),
      (''peer'', JString (hex_encode (dr_peer r))),
      (''started_at'', JString (rfc3339_format T (dr_started_at_ms r))),
      (''ended_at'', JString (rfc3339_format T (dr_ended_at_ms r))),
      (''steps'', JArray (map step_json (dr_steps r))),
      (''failed_step'', (case dr_failed_step r of None \<Rightarrow> JNull | Some step \<Rightarrow> JString (step_str step))),
      (''events'', JArray (map event_json (dr_events r))),
      (''local_observed'',
        JArray [JString (addr_to_json_string (fst (dr_local_observed r))),
                JString (addr_to_json_string (snd (dr_local_observed r)))]),
      (''peer_observed'', JString (addr_to_json_string (dr_peer_observed r))),
      (''mapping'', JString (mapping_str (dr_mapping r))),
      (''gate_carried_traffic'', JBool (dr_gate_carried_traffic r)),
      (''gate_bytes'', JUint (unat (dr_gate_bytes r))),
      (''relay_queued'', JUint (unat (dr_relay_queued r))),
      (''relay_shaped_delay_p50_us'', JUint (unat (dr_relay_shaped_delay_p50_us r))),
      (''relay_shaped_delay_max_us'', JUint (unat (dr_relay_shaped_delay_max_us r))),
      (''relay_dropped_at_full'', JUint (unat (dr_relay_dropped_at_full r))),
      (''path'', JString (kind_str (dr_path r))),
      (''path_addr'', JString (addr_to_json_string (choice_addr (dr_path r)))),
      (''path_rtt_us'', JUint (unat (dr_path_rtt_us r))),
      (''rtt_median_us'', JUint (unat (dr_rtt_median_us r))),
      (''rtt_p95_us'', JUint (unat (dr_rtt_p95_us r))),
      (''rtt_samples'', JUint (unat (dr_rtt_samples r))),
      (''rtt_source'', JString (rtt_str (dr_rtt_source r))),
      (''reason'', JString (reason_str (dr_reason r))),
      (''version'', JString (cap_text (dr_version r))),
      (''platform'', JString (cap_text (dr_platform r)))]"

definition record_json :: "time_crate \<Rightarrow> diag_record \<Rightarrow> json" where
  "record_json T r = json_object (record_fields T r)"

text \<open>What the reader and the writer use of other crates.\<close>

record diag_crates =
  dc_time :: time_crate
  dc_json_print :: "json \<Rightarrow> string option"
  dc_json_parse :: "string \<Rightarrow> json option"
  dc_sock_parse :: "string \<Rightarrow> socket_addr option"

definition to_json_line :: "diag_crates \<Rightarrow> diag_record \<Rightarrow> string" where
  "to_json_line K r =
     (case dc_json_print K (record_json (dc_time K) r) of Some s \<Rightarrow> s | None \<Rightarrow> ''{}'')"

section \<open>Reading\<close>

fun read_each :: "(json \<Rightarrow> diag_error + 'a) \<Rightarrow> json list \<Rightarrow> diag_error + 'a list" where
  "read_each f [] = Inr []"
| "read_each f (v # vs) = and_then (f v) (\<lambda>x. and_then (read_each f vs) (\<lambda>xs. Inr (x # xs)))"

definition step_from_json :: "json \<Rightarrow> diag_error + step_record" where
  "step_from_json item =
     and_then (and_then (field_str item ''step'') step_parse) (\<lambda>step.
     and_then (field_u64 item ''at_ms'') (\<lambda>at_ms.
     and_then (and_then (field_str item ''outcome'') outcome_parse) (\<lambda>outcome.
     and_then (field_str item ''detail'') (\<lambda>detail.
       Inr \<lparr>sr_step = step, sr_at_ms = at_ms, sr_outcome = outcome, sr_detail = detail\<rparr>))))"

definition event_from_json :: "json \<Rightarrow> diag_error + visit_event" where
  "event_from_json item =
     and_then (and_then (field_str item ''event'') visit_parse) (\<lambda>event.
     and_then (field_u64 item ''at_ms'') (\<lambda>at_ms.
     and_then (field_str item ''detail'') (\<lambda>detail.
       Inr \<lparr>ve_event = event, ve_at_ms = at_ms, ve_detail = detail\<rparr>)))"

definition events_from_json :: "json \<Rightarrow> diag_error + visit_event list" where
  "events_from_json value =
     (case json_get value ''events'' of
        None \<Rightarrow> Inr []
      | Some raw \<Rightarrow>
          and_then (ok_or (json_as_array raw) (DiagMalformed ''field events is not an array''))
            (read_each event_from_json))"

definition failed_step_from_json :: "json \<Rightarrow> diag_error + step option" where
  "failed_step_from_json value =
     and_then (field value ''failed_step'') (\<lambda>v.
       if v = JNull then Inr None
       else and_then (as_str v) (\<lambda>s. and_then (step_parse s) (\<lambda>step. Inr (Some step))))"

definition pair_of :: "json list \<Rightarrow> diag_error + json \<times> json" where
  "pair_of vs =
     (case vs of
        [first, second] \<Rightarrow> Inr (first, second)
      | _ \<Rightarrow> Inl (DiagMalformed ''local_observed must have exactly two entries''))"

definition local_from_json ::
    "(string \<Rightarrow> socket_addr option) \<Rightarrow> json \<Rightarrow> diag_error + addr \<times> addr" where
  "local_from_json P value =
     and_then (field_array value ''local_observed'') (\<lambda>raw.
     and_then (pair_of raw) (\<lambda>(first, second).
     and_then (and_then (as_str first) (addr_from_json_string P)) (\<lambda>a.
     and_then (and_then (as_str second) (addr_from_json_string P)) (\<lambda>b. Inr (a, b)))))"

definition path_from_json :: "(string \<Rightarrow> socket_addr option) \<Rightarrow> json \<Rightarrow> diag_error + path_choice" where
  "path_from_json P value =
     and_then (field_str value ''path'') (\<lambda>kind.
     and_then (and_then (field_str value ''path_addr'') (addr_from_json_string P)) (\<lambda>a.
       if kind = ''relay'' then Inr (Choice_Relay a)
       else if kind = ''direct'' then Inr (Choice_Direct a)
       else Inl (DiagMalformed ''unknown path kind'')))"

definition rtt_source_from_json :: "json \<Rightarrow> diag_error + rtt_source" where
  "rtt_source_from_json value =
     (case json_get value ''rtt_source'' of
        None \<Rightarrow> Inr NotSampled
      | Some JNull \<Rightarrow> Inr NotSampled
      | Some present \<Rightarrow> and_then (as_str present) rtt_parse)"

definition from_json_value :: "diag_crates \<Rightarrow> json \<Rightarrow> diag_error + diag_record" where
  "from_json_value K value =
     and_then (and_then (and_then (field_str value ''attempt'') hex_decode)
       (to_array 16 ''attempt must be 16 bytes'')) (\<lambda>attempt.
     and_then (and_then (field_u64 value ''session'') (u32_try_from ''session out of range'')) (\<lambda>session.
     and_then (field_u64 value ''gate_ms'') (\<lambda>gate_ms.
     and_then (and_then (field_str value ''peer'') fingerprint_from_hex) (\<lambda>peer.
     and_then (and_then (field_str value ''started_at'') (rfc3339_parse (dc_time K))) (\<lambda>started_at_ms.
     and_then (and_then (field_str value ''ended_at'') (rfc3339_parse (dc_time K))) (\<lambda>ended_at_ms.
     and_then (and_then (field_array value ''steps'') (read_each step_from_json)) (\<lambda>steps.
     and_then (events_from_json value) (\<lambda>events.
     and_then (failed_step_from_json value) (\<lambda>failed_step.
     and_then (local_from_json (dc_sock_parse K) value) (\<lambda>local_observed.
     and_then (and_then (field_str value ''peer_observed'') (addr_from_json_string (dc_sock_parse K))) (\<lambda>peer_observed.
     and_then (and_then (field_str value ''mapping'') mapping_parse) (\<lambda>mapping.
     and_then (field_bool value ''gate_carried_traffic'') (\<lambda>gate_carried_traffic.
     and_then (field_u64 value ''gate_bytes'') (\<lambda>gate_bytes.
     and_then (optional_field_u64 value ''relay_queued'') (\<lambda>relay_queued.
     and_then (optional_field_u64 value ''relay_shaped_delay_p50_us'') (\<lambda>p50_us.
     and_then (optional_field_u64 value ''relay_shaped_delay_max_us'') (\<lambda>max_us.
     and_then (optional_field_u64 value ''relay_dropped_at_full'') (\<lambda>dropped.
     and_then (path_from_json (dc_sock_parse K) value) (\<lambda>path.
     and_then (and_then (field_u64 value ''path_rtt_us'') (u32_try_from ''path_rtt_us out of range'')) (\<lambda>path_rtt_us.
     and_then (optional_field_u32 value ''rtt_median_us'') (\<lambda>rtt_median_us.
     and_then (optional_field_u32 value ''rtt_p95_us'') (\<lambda>rtt_p95_us.
     and_then (optional_field_u32 value ''rtt_samples'') (\<lambda>rtt_samples.
     and_then (rtt_source_from_json value) (\<lambda>rtt_source.
     and_then (and_then (field_str value ''reason'') reason_parse) (\<lambda>reason.
     and_then (field_str value ''version'') (\<lambda>version.
     and_then (field_str value ''platform'') (\<lambda>platform.
       Inr \<lparr>dr_attempt = attempt, dr_session = session, dr_gate_ms = gate_ms, dr_peer = peer,
            dr_started_at_ms = started_at_ms, dr_ended_at_ms = ended_at_ms, dr_steps = steps,
            dr_events = events, dr_failed_step = failed_step, dr_local_observed = local_observed,
            dr_peer_observed = peer_observed, dr_mapping = mapping,
            dr_gate_carried_traffic = gate_carried_traffic, dr_gate_bytes = gate_bytes,
            dr_relay_queued = relay_queued, dr_relay_shaped_delay_p50_us = p50_us,
            dr_relay_shaped_delay_max_us = max_us, dr_relay_dropped_at_full = dropped,
            dr_path = path, dr_path_rtt_us = path_rtt_us, dr_rtt_median_us = rtt_median_us,
            dr_rtt_p95_us = rtt_p95_us, dr_rtt_samples = rtt_samples, dr_rtt_source = rtt_source,
            dr_reason = reason, dr_version = version, dr_platform = platform\<rparr>)))))))))))))))))))))))))))"

definition from_json_line :: "diag_crates \<Rightarrow> string \<Rightarrow> diag_error + diag_record" where
  "from_json_line K line =
     and_then (ok_or (dc_json_parse K line) (DiagMalformed ''invalid JSON'')) (from_json_value K)"

section \<open>The report for a person\<close>

text \<open>Numbers of up to twenty digits, as \<open>u64\<close> is written; fields padded to a width.\<close>

definition decimal64 :: "nat \<Rightarrow> string" where
  "decimal64 n = map digit_char (digits_in 20 10 n)"

definition left_pad :: "nat \<Rightarrow> string \<Rightarrow> string" where
  "left_pad w s = replicate (w - length s) CHR '' '' @ s"

definition right_pad :: "nat \<Rightarrow> string \<Rightarrow> string" where
  "right_pad w s = s @ replicate (w - length s) CHR '' ''"

definition PRIVACY_NOTICE :: string where
  "PRIVACY_NOTICE = ''This report contains IP addresses: yours, your friend'' @ [CHR 0x27] @ ''s and your gate'' @ [CHR 0x27] @ ''s.''"

fun position :: "('a \<Rightarrow> bool) \<Rightarrow> 'a list \<Rightarrow> nat option" where
  "position p [] = None"
| "position p (x # xs) = (if p x then Some 0 else map_option Suc (position p xs))"

fun step_lines :: "u64 \<Rightarrow> step_record list \<Rightarrow> string" where
  "step_lines previous_ms [] = []"
| "step_lines previous_ms (step # rest) =
     (let duration_ms = unat (sr_at_ms step) - unat previous_ms;
          number = (case position (\<lambda>c. c = sr_step step) STEP_ALL of None \<Rightarrow> 0 | Some i \<Rightarrow> i + 1) in
      left_pad 2 (decimal number) @ '' '' @ right_pad 4 (outcome_str (sr_outcome step)) @ '' '' @
      right_pad 18 (step_str (sr_step step)) @ '' '' @ left_pad 6 (decimal64 duration_ms) @ '' ms  '' @
      sr_detail step @ [CHR 0x0A] @ step_lines (sr_at_ms step) rest)"

definition event_line :: "visit_event \<Rightarrow> string" where
  "event_line e =
     ''   event '' @ right_pad 18 (visit_str (ve_event e)) @ '' '' @ left_pad 6 (decimal64 (unat (ve_at_ms e))) @
     '' ms  '' @ ve_detail e @ [CHR 0x0A]"

definition first_at :: "diag_record \<Rightarrow> visit_event_kind \<Rightarrow> u64 option" where
  "first_at r kind = map_option ve_at_ms (List.find (\<lambda>e. ve_event e = kind) (dr_events r))"

definition path_change_summary :: "diag_record \<Rightarrow> string option" where
  "path_change_summary r =
     (case first_at r Visit_PathStale of
        None \<Rightarrow> None
      | Some stale \<Rightarrow> Some
          (''path change: detected at '' @ decimal64 (unat stale) @ '' ms'' @
           (case first_at r Visit_FellBack of
              Some fell_back \<Rightarrow> '', back on the relay '' @ decimal64 (unat fell_back - unat stale) @ '' ms later''
            | None \<Rightarrow> '''') @
           (case first_at r Visit_PathDead of
              Some dead \<Rightarrow> '', dead at '' @ decimal64 (unat dead) @ '' ms''
            | None \<Rightarrow> '''') @
           (case first_at r Visit_Recovered of
              Some recovered \<Rightarrow> '', recovered at '' @ decimal64 (unat recovered) @ '' ms ('' @
                decimal64 (unat recovered - unat stale) @ '' ms after detection)''
            | None \<Rightarrow> '', not recovered'')))"

definition to_human_report :: "diag_record \<Rightarrow> string" where
  "to_human_report r =
     PRIVACY_NOTICE @ [CHR 0x0A] @ step_lines 0 (dr_steps r) @ concat (map event_line (dr_events r)) @
     (case path_change_summary r of Some line \<Rightarrow> line @ [CHR 0x0A] | None \<Rightarrow> []) @
     (if dr_rtt_samples r > 0 then
        ''rtt over the visit: median '' @ decimal (unat (dr_rtt_median_us r)) @ '' us, p95 '' @
        decimal (unat (dr_rtt_p95_us r)) @ '' us over '' @ decimal (unat (dr_rtt_samples r)) @ '' samples ('' @
        rtt_str (dr_rtt_source r) @ '')'' @ [CHR 0x0A]
      else []) @
     ''mapping '' @ mapping_str (dr_mapping r) @ [CHR 0x0A] @
     ''path '' @ kind_str (dr_path r) @ '' '' @ addr_for_humans (choice_addr (dr_path r)) @ '' rtt '' @
     decimal (unat (dr_path_rtt_us r)) @ '' us'' @ [CHR 0x0A] @
     ''gate carried '' @ (if dr_gate_carried_traffic r then ''traffic'' else ''nothing'') @ '' ('' @
     decimal64 (unat (dr_gate_bytes r)) @ '' bytes, '' @ decimal64 (unat (dr_relay_queued r)) @
     '' queued, shaped p50 '' @ decimal64 (unat (dr_relay_shaped_delay_p50_us r)) @ '' us max '' @
     decimal64 (unat (dr_relay_shaped_delay_max_us r)) @ '' us, dropped '' @
     decimal64 (unat (dr_relay_dropped_at_full r)) @ '')'' @ [CHR 0x0A] @
     ''reason '' @ reason_str (dr_reason r) @ [CHR 0x0A] @
     (case dr_failed_step r of
        Some failed \<Rightarrow> ''failed step '' @ step_str failed @ [CHR 0x0A]
      | None \<Rightarrow> [])"

end
