(* ===== verification/Diag_Recorder.thy ===== *)
theory Diag_Recorder
  imports Diag_Record Relay_Shaper
begin

text \<open>
  An attempt's record while it is being built (\<open>Recorder\<close> of \<open>diag.rs\<close>). Each call is one
  step; the milliseconds since the attempt began are an argument of the calls that read the
  clock. All but \<open>finish\<close> hold the lock from end to end: \<open>finish\<close> reads the clock, takes the lock for
  its snapshot and takes it again to see whether the attempt has finished, so between the two
  another task could add what the snapshot does not have.
\<close>

record recorder =
  rc_peer :: bytes
  rc_started_at_ms :: u64
  rc_attempt :: bytes
  rc_session :: u32
  rc_gate_ms :: u64
  rc_steps :: "step_record list"
  rc_events :: "visit_event list"
  rc_failed_step :: "step option"
  rc_local_observed :: "addr option \<times> addr option"
  rc_peer_observed :: "addr option"
  rc_mapping :: "mapping option"
  rc_reason_hint :: "reason option"
  rc_gate_carried_traffic :: bool
  rc_gate_bytes :: u64
  rc_relay_queued :: u64
  rc_relay_shaped_delay_p50_us :: u64
  rc_relay_shaped_delay_max_us :: u64
  rc_relay_dropped_at_full :: u64
  rc_path :: path_choice
  rc_path_rtt_us :: u32
  rc_rtt_median_us :: u32
  rc_rtt_p95_us :: u32
  rc_rtt_samples :: u32
  rc_rtt_source :: rtt_source
  rc_finished :: "diag_record option"

definition default_addr :: addr where
  "default_addr = \<lparr>addr_family = 0, addr_bytes = replicate 16 0, addr_port = 0\<rparr>"

definition recorder_new :: "bytes \<Rightarrow> u64 \<Rightarrow> recorder" where
  "recorder_new peer now_ms =
     \<lparr>rc_peer = peer, rc_started_at_ms = now_ms, rc_attempt = replicate 16 0, rc_session = 0,
      rc_gate_ms = 0, rc_steps = [], rc_events = [], rc_failed_step = None,
      rc_local_observed = (None, None), rc_peer_observed = None, rc_mapping = None,
      rc_reason_hint = None, rc_gate_carried_traffic = False, rc_gate_bytes = 0,
      rc_relay_queued = 0, rc_relay_shaped_delay_p50_us = 0, rc_relay_shaped_delay_max_us = 0,
      rc_relay_dropped_at_full = 0, rc_path = Choice_Relay default_addr, rc_path_rtt_us = 0,
      rc_rtt_median_us = 0, rc_rtt_p95_us = 0, rc_rtt_samples = 0, rc_rtt_source = NotSampled,
      rc_finished = None\<rparr>"

section \<open>Steps and events\<close>

text \<open>The entry that a list already at its cap takes last.\<close>

definition truncation_note :: "string \<Rightarrow> string" where
  "truncation_note what = TRUNCATION_MARKER @ '' (at '' @ decimal MAX_RECORD_ENTRIES @ '' '' @ what @ '')''"

definition recorder_step :: "u64 \<Rightarrow> step \<Rightarrow> step_outcome \<Rightarrow> string \<Rightarrow> recorder \<Rightarrow> recorder" where
  "recorder_step at_ms step outcome detail r =
     (let r = (if outcome = Outcome_Fail \<and> rc_failed_step r = None then r\<lparr>rc_failed_step := Some step\<rparr> else r);
          entry = \<lparr>sr_step = step, sr_at_ms = at_ms, sr_outcome = outcome, sr_detail = detail\<rparr> in
      if length (rc_steps r) < MAX_RECORD_ENTRIES then r\<lparr>rc_steps := rc_steps r @ [entry]\<rparr>
      else if length (rc_steps r) = MAX_RECORD_ENTRIES then
        r\<lparr>rc_steps := rc_steps r @ [entry\<lparr>sr_detail := truncation_note ''steps''\<rparr>]\<rparr>
      else r)"

definition recorder_event :: "u64 \<Rightarrow> visit_event_kind \<Rightarrow> string \<Rightarrow> recorder \<Rightarrow> recorder" where
  "recorder_event at_ms event detail r =
     (let entry = \<lparr>ve_event = event, ve_at_ms = at_ms, ve_detail = detail\<rparr> in
      if length (rc_events r) < MAX_RECORD_ENTRIES then r\<lparr>rc_events := rc_events r @ [entry]\<rparr>
      else if length (rc_events r) = MAX_RECORD_ENTRIES then
        r\<lparr>rc_events := rc_events r @ [entry\<lparr>ve_detail := truncation_note ''events''\<rparr>]\<rparr>
      else r)"

text \<open>\<open>diag::record\<close>: a caller without a recorder records nothing.\<close>

definition diag_record_step ::
    "u64 \<Rightarrow> step \<Rightarrow> step_outcome \<Rightarrow> string \<Rightarrow> recorder option \<Rightarrow> recorder option" where
  "diag_record_step at_ms step outcome detail = map_option (recorder_step at_ms step outcome detail)"

section \<open>The setters\<close>

definition set_rtt :: "u32 \<Rightarrow> u32 \<Rightarrow> u32 \<Rightarrow> rtt_source \<Rightarrow> recorder \<Rightarrow> recorder" where
  "set_rtt median p95 samples source r =
     r\<lparr>rc_rtt_median_us := median, rc_rtt_p95_us := p95, rc_rtt_samples := samples, rc_rtt_source := source\<rparr>"

definition set_attempt :: "bytes \<Rightarrow> recorder \<Rightarrow> recorder" where
  "set_attempt attempt r = r\<lparr>rc_attempt := attempt\<rparr>"

definition set_session :: "u32 \<Rightarrow> recorder \<Rightarrow> recorder" where
  "set_session session r = r\<lparr>rc_session := session\<rparr>"

definition set_gate_ms :: "u64 \<Rightarrow> recorder \<Rightarrow> recorder" where
  "set_gate_ms gate_ms r = r\<lparr>rc_gate_ms := gate_ms\<rparr>"

definition set_local_observed_primary :: "addr \<Rightarrow> recorder \<Rightarrow> recorder" where
  "set_local_observed_primary a r = r\<lparr>rc_local_observed := (Some a, snd (rc_local_observed r))\<rparr>"

definition set_local_observed_secondary :: "addr \<Rightarrow> recorder \<Rightarrow> recorder" where
  "set_local_observed_secondary a r = r\<lparr>rc_local_observed := (fst (rc_local_observed r), Some a)\<rparr>"

definition set_peer_observed :: "addr \<Rightarrow> recorder \<Rightarrow> recorder" where
  "set_peer_observed a r = r\<lparr>rc_peer_observed := Some a\<rparr>"

definition set_path :: "path_choice \<Rightarrow> u32 \<Rightarrow> recorder \<Rightarrow> recorder" where
  "set_path path rtt_us r = r\<lparr>rc_path := path, rc_path_rtt_us := rtt_us\<rparr>"

definition set_relay_stats :: "shaper_stats \<Rightarrow> recorder \<Rightarrow> recorder" where
  "set_relay_stats stats r =
     r\<lparr>rc_gate_carried_traffic := st_queued stats > 0, rc_gate_bytes := st_bytes stats,
       rc_relay_queued := st_queued stats,
       rc_relay_shaped_delay_p50_us := st_delay_p50_us stats,
       rc_relay_shaped_delay_max_us := st_delay_max_us stats,
       rc_relay_dropped_at_full := st_dropped_at_full stats\<rparr>"

definition set_reason_hint :: "reason \<Rightarrow> recorder \<Rightarrow> recorder" where
  "set_reason_hint reason r = r\<lparr>rc_reason_hint := Some reason\<rparr>"

definition set_mapping :: "mapping \<Rightarrow> recorder \<Rightarrow> recorder" where
  "set_mapping m r = r\<lparr>rc_mapping := Some m\<rparr>"

definition last_step :: "recorder \<Rightarrow> step option" where
  "last_step r = (if rc_steps r = [] then None else Some (sr_step (last (rc_steps r))))"

section \<open>What is inferred\<close>

definition infer_mapping :: "addr option \<Rightarrow> addr option \<Rightarrow> mapping" where
  "infer_mapping primary secondary =
     (case (primary, secondary) of
        (Some first, Some second) \<Rightarrow>
          if addr_bytes first = addr_bytes second \<and> addr_port first = addr_port second
          then EndpointIndependent else EndpointDependent
      | _ \<Rightarrow> Mapping_Unknown)"

definition probe_failure_reason :: "addr option \<Rightarrow> addr option \<Rightarrow> mapping \<Rightarrow> bool \<Rightarrow> reason" where
  "probe_failure_reason local_observed peer_observed m relay_carried_traffic =
     (if m = EndpointDependent then Reason_EndpointDependentMapping
      else
        (case (local_observed, peer_observed) of
           (Some local, Some peer) \<Rightarrow>
             if addr_bytes local = addr_bytes peer \<and> relay_carried_traffic then Reason_HairpinFailure
             else Reason_ProbeTimeout
         | _ \<Rightarrow> Reason_ProbeTimeout))"

definition recorder_mapping :: "recorder \<Rightarrow> mapping" where
  "recorder_mapping r =
     (case rc_mapping r of
        Some m \<Rightarrow> m
      | None \<Rightarrow> infer_mapping (fst (rc_local_observed r)) (snd (rc_local_observed r)))"

definition recorder_probe_failure_reason :: "recorder \<Rightarrow> reason" where
  "recorder_probe_failure_reason r =
     probe_failure_reason (fst (rc_local_observed r)) (rc_peer_observed r) (recorder_mapping r)
       (rc_gate_carried_traffic r)"

section \<open>The end of an attempt\<close>

definition unwrap_addr :: "addr option \<Rightarrow> addr" where
  "unwrap_addr a = (case a of Some a \<Rightarrow> a | None \<Rightarrow> default_addr)"

text \<open>The version and the platform of the build.\<close>

record build_info =
  bi_version :: string
  bi_platform :: string

definition snapshot :: "build_info \<Rightarrow> u64 \<Rightarrow> reason \<Rightarrow> recorder \<Rightarrow> diag_record" where
  "snapshot B elapsed_ms reason r =
     \<lparr>dr_attempt = rc_attempt r, dr_session = rc_session r, dr_gate_ms = rc_gate_ms r,
      dr_peer = rc_peer r, dr_started_at_ms = rc_started_at_ms r,
      dr_ended_at_ms = sat_add_u64 (rc_started_at_ms r) elapsed_ms,
      dr_steps = rc_steps r, dr_events = rc_events r, dr_failed_step = rc_failed_step r,
      dr_local_observed = (unwrap_addr (fst (rc_local_observed r)), unwrap_addr (snd (rc_local_observed r))),
      dr_peer_observed = unwrap_addr (rc_peer_observed r), dr_mapping = recorder_mapping r,
      dr_gate_carried_traffic = rc_gate_carried_traffic r, dr_gate_bytes = rc_gate_bytes r,
      dr_relay_queued = rc_relay_queued r,
      dr_relay_shaped_delay_p50_us = rc_relay_shaped_delay_p50_us r,
      dr_relay_shaped_delay_max_us = rc_relay_shaped_delay_max_us r,
      dr_relay_dropped_at_full = rc_relay_dropped_at_full r, dr_path = rc_path r,
      dr_path_rtt_us = rc_path_rtt_us r, dr_rtt_median_us = rc_rtt_median_us r,
      dr_rtt_p95_us = rc_rtt_p95_us r, dr_rtt_samples = rc_rtt_samples r,
      dr_rtt_source = rc_rtt_source r, dr_reason = reason, dr_version = bi_version B,
      dr_platform = bi_platform B\<rparr>"

text \<open>
  What is the record, and what, if anything, goes to the sink. The record that is written is
  stamped with its own end.
\<close>

definition recorder_finish ::
    "build_info \<Rightarrow> u64 \<Rightarrow> reason \<Rightarrow> recorder \<Rightarrow> recorder \<times> diag_record \<times> (diag_record \<times> u64) option" where
  "recorder_finish B elapsed_ms reason r =
     (let record' = snapshot B elapsed_ms reason r in
      case rc_finished r of
        Some already \<Rightarrow> (r, already, None)
      | None \<Rightarrow> (r\<lparr>rc_finished := Some record'\<rparr>, record', Some (record', dr_ended_at_ms record')))"

section \<open>Sequences of calls\<close>

datatype recorder_call =
    CStep u64 step step_outcome string
  | CEvent u64 visit_event_kind string
  | CRtt u32 u32 u32 rtt_source
  | CAttempt bytes
  | CSession u32
  | CGateMs u64
  | CLocalPrimary addr
  | CLocalSecondary addr
  | CPeerObserved addr
  | CPath path_choice u32
  | CRelayStats shaper_stats
  | CReasonHint reason
  | CMapping mapping
  | CFinish u64 reason

fun recorder_call_of :: "build_info \<Rightarrow> recorder_call \<Rightarrow> recorder \<Rightarrow> recorder" where
  "recorder_call_of B (CStep at_ms step outcome detail) = recorder_step at_ms step outcome detail"
| "recorder_call_of B (CEvent at_ms event detail) = recorder_event at_ms event detail"
| "recorder_call_of B (CRtt m p n s) = set_rtt m p n s"
| "recorder_call_of B (CAttempt a) = set_attempt a"
| "recorder_call_of B (CSession s) = set_session s"
| "recorder_call_of B (CGateMs g) = set_gate_ms g"
| "recorder_call_of B (CLocalPrimary a) = set_local_observed_primary a"
| "recorder_call_of B (CLocalSecondary a) = set_local_observed_secondary a"
| "recorder_call_of B (CPeerObserved a) = set_peer_observed a"
| "recorder_call_of B (CPath p rtt) = set_path p rtt"
| "recorder_call_of B (CRelayStats s) = set_relay_stats s"
| "recorder_call_of B (CReasonHint h) = set_reason_hint h"
| "recorder_call_of B (CMapping m) = set_mapping m"
| "recorder_call_of B (CFinish ms why) = (\<lambda>r. fst (recorder_finish B ms why r))"

end
