(* ===== verification/Diag_Log.thy ===== *)
theory Diag_Log
  imports Diag_Record Relay_Shaper
begin

text \<open>
  The diagnostics log (\<open>DiagWriter\<close>, \<open>read_records\<close> and \<open>last_record\<close> of \<open>diag.rs\<close>): files of
  lines in one directory, a new one each day and whenever one is full. The directory is the
  files with their names; what goes wrong is a list of the answers of the system to the calls
  to come, so that every return by a question mark is a branch.
\<close>

section \<open>The directory and the system\<close>

text \<open>
  \<open>Some n\<close> is a call that fails; a write that fails has written its first \<open>n\<close> bytes. The
  writer holds the name of its open file and what its \<open>BufWriter\<close> has not yet written.
\<close>

record diag_log =
  lg_files :: "(string, string) hashmap"
  lg_faults :: "nat option list"
  lg_open_date :: "string option"
  lg_open_part :: u32
  lg_file :: "(string \<times> string) option"
  lg_bytes_written :: u64

definition next_answer :: "diag_log \<Rightarrow> nat option \<times> diag_log" where
  "next_answer l =
     (case lg_faults l of [] \<Rightarrow> (None, l) | f # fs \<Rightarrow> (f, l\<lparr>lg_faults := fs\<rparr>))"

text \<open>Results in a state: the question mark of a function that changes the log.\<close>

definition io_then ::
    "(diag_error + 'a) \<times> diag_log \<Rightarrow> ('a \<Rightarrow> diag_log \<Rightarrow> (diag_error + 'b) \<times> diag_log) \<Rightarrow>
     (diag_error + 'b) \<times> diag_log" where
  "io_then m f = (case m of (Inl e, l) \<Rightarrow> (Inl e, l) | (Inr x, l) \<Rightarrow> f x l)"

text \<open>A call that fails with nothing done.\<close>

definition ask :: "string \<Rightarrow> diag_log \<Rightarrow> (diag_error + unit) \<times> diag_log" where
  "ask what l =
     (case next_answer l of
        (None, l) \<Rightarrow> (Inr (), l)
      | (Some _, l) \<Rightarrow> (Inl (DiagIo what), l))"

text \<open>Appending to a file; one that was deleted while it was open takes the bytes with it.\<close>

definition append_file :: "string \<Rightarrow> string \<Rightarrow> diag_log \<Rightarrow> diag_log" where
  "append_file name s l =
     (case hm_get (lg_files l) name of
        None \<Rightarrow> l
      | Some contents \<Rightarrow> l\<lparr>lg_files := hm_insert name (contents @ s) (lg_files l)\<rparr>)"

definition write_through :: "string \<Rightarrow> string \<Rightarrow> diag_log \<Rightarrow> nat option \<times> diag_log" where
  "write_through name s l =
     (case next_answer l of
        (None, l) \<Rightarrow> (None, append_file name s l)
      | (Some n, l) \<Rightarrow> (Some n, append_file name (take n s) l))"

section \<open>\<open>BufWriter\<close>\<close>

definition BUF_CAPACITY :: nat where "BUF_CAPACITY = 8192"

text \<open>What a failed flush has written leaves the buffer, the rest stays.\<close>

definition flush_buf :: "diag_log \<Rightarrow> (diag_error + unit) \<times> diag_log" where
  "flush_buf l =
     (case lg_file l of
        None \<Rightarrow> (Inr (), l)
      | Some (name, pending) \<Rightarrow>
          if pending = [] then (Inr (), l)
          else
            (case write_through name pending l of
               (None, l) \<Rightarrow> (Inr (), l\<lparr>lg_file := Some (name, [])\<rparr>)
             | (Some n, l) \<Rightarrow> (Inl (DiagIo ''write''), l\<lparr>lg_file := Some (name, drop n pending)\<rparr>)))"

definition put_buffered :: "string \<Rightarrow> diag_log \<Rightarrow> (diag_error + unit) \<times> diag_log" where
  "put_buffered s l =
     (case lg_file l of
        None \<Rightarrow> (Inr (), l)
      | Some (name, pending) \<Rightarrow>
          if length s < BUF_CAPACITY then (Inr (), l\<lparr>lg_file := Some (name, pending @ s)\<rparr>)
          else
            (case write_through name s l of
               (None, l) \<Rightarrow> (Inr (), l)
             | (Some n, l) \<Rightarrow> (Inl (DiagIo ''write''), l)))"

definition buf_write_all :: "string \<Rightarrow> diag_log \<Rightarrow> (diag_error + unit) \<times> diag_log" where
  "buf_write_all s l =
     (case lg_file l of
        None \<Rightarrow> (Inr (), l)
      | Some (name, pending) \<Rightarrow>
          if length s < BUF_CAPACITY - length pending then (Inr (), l\<lparr>lg_file := Some (name, pending @ s)\<rparr>)
          else
            io_then (if length s > BUF_CAPACITY - length pending then flush_buf l else (Inr (), l))
              (\<lambda>_. put_buffered s))"

text \<open>Dropping the writer flushes and forgets an error.\<close>

definition drop_file :: "diag_log \<Rightarrow> diag_log" where
  "drop_file l = (snd (flush_buf l))\<lparr>lg_file := None\<rparr>"

section \<open>File names\<close>

definition MAX_FILE_BYTES :: u64 where "MAX_FILE_BYTES = 5 * 1024 * 1024"
definition MAX_FILES_KEPT :: nat where "MAX_FILES_KEPT = 7"

definition file_name_for :: "string \<Rightarrow> u32 \<Rightarrow> string" where
  "file_name_for date part =
     (if part = 0 then date @ ''.jsonl'' else date @ ''.'' @ decimal (unat part) @ ''.jsonl'')"

definition is_ascii_digit :: "char \<Rightarrow> bool" where
  "is_ascii_digit c \<longleftrightarrow> 48 \<le> (of_char c :: nat) \<and> (of_char c :: nat) \<le> 57"

definition date_shaped :: "string \<Rightarrow> bool" where
  "date_shaped s \<longleftrightarrow>
     length s = 10 \<and> s ! 4 = CHR ''-'' \<and> s ! 7 = CHR ''-'' \<and>
     list_all (\<lambda>i. i = 4 \<or> i = 7 \<or> is_ascii_digit (s ! i)) [0..<10]"

definition day_prefix :: "string \<Rightarrow> string option" where
  "day_prefix name =
     (if length name < 10 \<or> \<not> is_char_boundary name 10 then None
      else if date_shaped (take 10 name) then Some (take 10 name) else None)"

definition is_jsonl :: "string \<Rightarrow> bool" where
  "is_jsonl name \<longleftrightarrow> strip_suffix ''.jsonl'' name \<noteq> None"

section \<open>Pruning\<close>

text \<open>A \<open>BTreeSet<String>\<close>: sorted, each once.\<close>

fun day_insert :: "string \<Rightarrow> string list \<Rightarrow> string list" where
  "day_insert d [] = [d]"
| "day_insert d (e # es) = (if d = e then e # es else if str_less d e then d # e # es else e # day_insert d es)"

text \<open>The entries of a directory that could be read.\<close>

fun list_names :: "string list \<Rightarrow> diag_log \<Rightarrow> string list \<times> diag_log" where
  "list_names [] l = ([], l)"
| "list_names (name # names) l =
     (let (answer, l) = next_answer l; (rest, l) = list_names names l in
      (if answer = None then name # rest else rest, l))"

definition read_dir :: "diag_log \<Rightarrow> (diag_error + string list) \<times> diag_log" where
  "read_dir l = io_then (ask ''read_dir'' l) (\<lambda>_ l. (Inr (map fst (lg_files l)), l))"

definition days_of :: "string \<Rightarrow> string list \<Rightarrow> string list" where
  "days_of today names =
     day_insert today (fold day_insert (List.map_filter day_prefix (filter is_jsonl names)) [])"

definition remove_file :: "string \<Rightarrow> diag_log \<Rightarrow> (diag_error + unit) \<times> diag_log" where
  "remove_file name l =
     io_then (ask ''remove_file'' l) (\<lambda>_ l. (Inr (), l\<lparr>lg_files := hm_remove name (lg_files l)\<rparr>))"

fun remove_day :: "string \<Rightarrow> string list \<Rightarrow> diag_log \<Rightarrow> (diag_error + unit) \<times> diag_log" where
  "remove_day old_day [] l = (Inr (), l)"
| "remove_day old_day (name # names) l =
     io_then (ask ''read_dir'' l) (\<lambda>_ l.
       io_then (if day_prefix name = Some old_day then remove_file name l else (Inr (), l))
         (\<lambda>_. remove_day old_day names))"

fun remove_days :: "string list \<Rightarrow> diag_log \<Rightarrow> (diag_error + unit) \<times> diag_log" where
  "remove_days [] l = (Inr (), l)"
| "remove_days (old_day # days) l =
     io_then (read_dir l) (\<lambda>names l. io_then (remove_day old_day names l) (\<lambda>_. remove_days days))"

definition prune :: "string \<Rightarrow> diag_log \<Rightarrow> (diag_error + unit) \<times> diag_log" where
  "prune today l =
     io_then (read_dir l) (\<lambda>names l.
       let (names, l) = list_names names l; days = days_of today names in
       remove_days (take (length days - MAX_FILES_KEPT) days) l)"

section \<open>The writer\<close>

text \<open>A new writer in a directory that is there.\<close>

definition writer_new :: "diag_log \<Rightarrow> diag_log" where
  "writer_new l = l\<lparr>lg_open_date := None, lg_open_part := 0, lg_file := None, lg_bytes_written := 0\<rparr>"

text \<open>Opening creates the file; then its mode is set, and its length read.\<close>

definition open_part_file :: "string \<Rightarrow> u32 \<Rightarrow> diag_log \<Rightarrow> (diag_error + unit) \<times> diag_log" where
  "open_part_file date part l =
     (let l = drop_file l; name = file_name_for date part in
      io_then (ask ''open'' l) (\<lambda>_ l.
        let l = l\<lparr>lg_files := hm_or_insert name [] (lg_files l)\<rparr> in
        io_then (ask ''set_permissions'' l) (\<lambda>_ l.
          let (answer, l) = next_answer l;
              existing_len = (if answer = None
                then of_nat (length (case hm_get (lg_files l) name of Some c \<Rightarrow> c | None \<Rightarrow> [])) else 0) in
          (Inr (), l\<lparr>lg_file := Some (name, []), lg_bytes_written := existing_len\<rparr>))))"

definition rotate_to_day :: "string \<Rightarrow> diag_log \<Rightarrow> (diag_error + unit) \<times> diag_log" where
  "rotate_to_day today l =
     io_then (prune today l) (\<lambda>_ l.
       open_part_file today 0 (l\<lparr>lg_open_date := Some today, lg_open_part := 0\<rparr>))"

definition open_next_part :: "diag_log \<Rightarrow> (diag_error + unit) \<times> diag_log" where
  "open_next_part l =
     (case lg_open_date l of
        None \<Rightarrow> (Inl (DiagIo ''no day open to roll over''), l)
      | Some today \<Rightarrow>
          (let part = sat_inc32 (lg_open_part l) in
           open_part_file today part (l\<lparr>lg_open_part := part\<rparr>)))"

definition append_line :: "string \<Rightarrow> diag_log \<Rightarrow> (diag_error + bool) \<times> diag_log" where
  "append_line line l =
     (let line_len = of_nat (length line) in
      io_then (if sat_add_u64 (lg_bytes_written l) line_len > MAX_FILE_BYTES then open_next_part l
               else (Inr (), l)) (\<lambda>_ l.
        case lg_file l of
          None \<Rightarrow> (Inl (DiagIo ''diagnostics file not open after rotation''), l)
        | Some _ \<Rightarrow>
            io_then (buf_write_all line l) (\<lambda>_ l.
            io_then (flush_buf l) (\<lambda>_ l.
              (Inr True, l\<lparr>lg_bytes_written := sat_add_u64 (lg_bytes_written l) line_len\<rparr>)))))"

definition writer_append :: "diag_crates \<Rightarrow> diag_record \<Rightarrow> u64 \<Rightarrow> diag_log \<Rightarrow> (diag_error + bool) \<times> diag_log" where
  "writer_append K r now_ms l =
     (let today = date_only (dc_time K) now_ms in
      io_then (if lg_open_date l = Some today then (Inr (), l) else rotate_to_day today l)
        (\<lambda>_. append_line (to_json_line K r @ [CHR 0x0A])))"

section \<open>The reader\<close>

datatype read_outcome = Record_Read diag_record | Malformed_Line nat diag_error

definition text_lines :: "string \<Rightarrow> string list" where
  "text_lines s = map (map char_of) (lines_from [] (map of_char s))"

text \<open>The code point of a character.\<close>

fun code_point :: "bytes \<Rightarrow> nat" where
  "code_point [a] = unat a"
| "code_point [a, b] = (unat a - 0xC0) * 64 + (unat b - 0x80)"
| "code_point [a, b, c] = (unat a - 0xE0) * 4096 + (unat b - 0x80) * 64 + (unat c - 0x80)"
| "code_point [a, b, c, d] =
     (unat a - 0xF0) * 262144 + (unat b - 0x80) * 4096 + (unat c - 0x80) * 64 + (unat d - 0x80)"
| "code_point _ = 0"

definition blank :: "string \<Rightarrow> bool" where
  "blank line \<longleftrightarrow> list_all (\<lambda>c. is_whitespace (code_point c)) (chars_of (utf8 line))"

fun read_lines :: "diag_crates \<Rightarrow> nat \<Rightarrow> string list \<Rightarrow> read_outcome list" where
  "read_lines K i [] = []"
| "read_lines K i (line # ls) =
     (if blank line then read_lines K (i + 1) ls
      else
        (case from_json_line K line of
           Inr r \<Rightarrow> Record_Read r
         | Inl e \<Rightarrow> Malformed_Line (i + 1) e) # read_lines K (i + 1) ls)"

definition read_records :: "diag_crates \<Rightarrow> string \<Rightarrow> diag_log \<Rightarrow> (diag_error + read_outcome list) \<times> diag_log" where
  "read_records K name l =
     io_then (ask ''read'' l) (\<lambda>_ l.
       case hm_get (lg_files l) name of
         None \<Rightarrow> (Inl (DiagIo ''not found''), l)
       | Some contents \<Rightarrow>
           if utf8_valid (utf8 contents) then (Inr (read_lines K 0 (text_lines contents)), l)
           else (Inl (DiagIo ''invalid UTF-8''), l))"

definition file_part :: "string \<Rightarrow> nat" where
  "file_part name =
     (case Option.bind (strip_suffix ''.jsonl'' name) (\<lambda>stem.
             Option.bind (if length stem < 10 then None else strip_prefix ''.'' (drop 10 stem))
               (parse_uint (2 ^ 32))) of
        Some part \<Rightarrow> part
      | None \<Rightarrow> 0)"

text \<open>The order of the files: by day, then by part.\<close>

definition file_before :: "string \<Rightarrow> string \<Rightarrow> bool" where
  "file_before a b \<longleftrightarrow>
     (let day = (\<lambda>name. case day_prefix name of Some d \<Rightarrow> d | None \<Rightarrow> []) in
      str_less (day a) (day b) \<or> day a = day b \<and> file_part a < file_part b)"

fun newest_insert :: "string \<Rightarrow> string list \<Rightarrow> string list" where
  "newest_insert x [] = [x]"
| "newest_insert x (y # ys) = (if file_before x y then y # newest_insert x ys else x # y # ys)"

definition files_newest_first :: "diag_log \<Rightarrow> (diag_error + string list) \<times> diag_log" where
  "files_newest_first l =
     io_then (read_dir l) (\<lambda>names l.
       let (names, l) = list_names names l in
       (Inr (foldr newest_insert (filter (\<lambda>n. is_jsonl n \<and> day_prefix n \<noteq> None) names) []), l))"

definition wanted :: "bytes option \<Rightarrow> diag_record \<Rightarrow> bool" where
  "wanted peer r \<longleftrightarrow> (case peer of None \<Rightarrow> True | Some p \<Rightarrow> p = dr_peer r)"

fun best_of :: "bytes option \<Rightarrow> diag_record option \<Rightarrow> read_outcome list \<Rightarrow> diag_record option" where
  "best_of peer best [] = best"
| "best_of peer best (Record_Read r # os) = best_of peer (if wanted peer r then Some r else best) os"
| "best_of peer best (Malformed_Line n e # os) = best_of peer best os"

fun last_in :: "diag_crates \<Rightarrow> bytes option \<Rightarrow> string list \<Rightarrow> diag_log \<Rightarrow> (diag_error + diag_record option) \<times> diag_log" where
  "last_in K peer [] l = (Inr None, l)"
| "last_in K peer (path # paths) l =
     io_then (read_records K path l) (\<lambda>outcomes l.
       case best_of peer None outcomes of
         Some r \<Rightarrow> (Inr (Some r), l)
       | None \<Rightarrow> last_in K peer paths l)"

definition last_record ::
    "diag_crates \<Rightarrow> bytes option \<Rightarrow> diag_log \<Rightarrow> (diag_error + diag_record option) \<times> diag_log" where
  "last_record K peer l = io_then (files_newest_first l) (last_in K peer)"

section \<open>The salt beside the log\<close>

text \<open>The bytes of a new salt are drawn by the system; the file is created empty and then written.\<close>

definition SALT_NAME :: string where "SALT_NAME = ''install_salt''"

definition write_salt :: "bytes \<Rightarrow> diag_log \<Rightarrow> (diag_error + bytes) \<times> diag_log" where
  "write_salt drawn l =
     io_then (ask ''open'' l) (\<lambda>_ l.
     io_then (ask ''set_permissions'' (l\<lparr>lg_files := hm_insert SALT_NAME [] (lg_files l)\<rparr>)) (\<lambda>_ l.
       case write_through SALT_NAME (map (\<lambda>b. char_of (unat b)) drawn) l of
         (None, l) \<Rightarrow> (Inr drawn, l)
       | (Some n, l) \<Rightarrow> (Inl (DiagIo ''write''), l)))"

definition load_or_create :: "bytes \<Rightarrow> diag_log \<Rightarrow> (diag_error + bytes) \<times> diag_log" where
  "load_or_create drawn l =
     io_then (ask ''create_dir_all'' l) (\<lambda>_ l.
     io_then (ask ''set_permissions'' l) (\<lambda>_ l.
     io_then (ask ''read'' l) (\<lambda>_ l.
       case hm_get (lg_files l) SALT_NAME of
         Some contents \<Rightarrow> (to_array 16 ''install salt is not exactly 16 bytes'' (utf8 contents), l)
       | None \<Rightarrow> write_salt drawn l)))"

section \<open>Where the log is\<close>

datatype target_platform = Linux | MacOs | Windows

text \<open>A path is its components; joining a relative one adds it.\<close>

type_synonym path = "string list"

definition path_join :: "path \<Rightarrow> string \<Rightarrow> path" where
  "path_join p c = p @ [c]"

record location_env =
  le_home :: path
  le_xdg_state_home :: "path option"
  le_local_appdata :: "path option"

definition diagnostics_dir :: "target_platform \<Rightarrow> location_env \<Rightarrow> path" where
  "diagnostics_dir platform env =
     (case platform of
        Linux \<Rightarrow>
          (let base = (case le_xdg_state_home env of
                         Some p \<Rightarrow> p
                       | None \<Rightarrow> path_join (path_join (le_home env) ''.local'') ''state'') in
           path_join (path_join base ''mosschat'') ''diagnostics'')
      | MacOs \<Rightarrow> path_join (path_join (path_join (le_home env) ''Library'') ''Logs'') ''mosschat''
      | Windows \<Rightarrow>
          (let base = (case le_local_appdata env of
                         Some p \<Rightarrow> p
                       | None \<Rightarrow> path_join (path_join (le_home env) ''AppData'') ''Local'') in
           path_join (path_join base ''mosschat'') ''diagnostics''))"

end
