(* ===== verification/Diag_Laws.thy ===== *)
theory Diag_Laws
  imports Diag_Recorder Diag_Log Client_Laws
begin

text \<open>
  Laws of the diagnostics record and its log: its texts read back, and what is relied on of the
  crates around it.
\<close>

section \<open>Characters of ASCII text\<close>

lemma take_chars_ascii:
  "\<forall>b \<in> set s. b \<le> (0x7F :: u8) \<Longrightarrow> length s \<le> n \<Longrightarrow> take_chars n s = map (\<lambda>b. [b]) s"
  by (induction n s rule: take_chars.induct) (auto simp: char_len_def split: list.splits)

lemma chars_of_ascii: "\<forall>b \<in> set s. b \<le> (0x7F :: u8) \<Longrightarrow> chars_of s = map (\<lambda>b. [b]) s"
  by (simp add: chars_of_def take_chars_ascii)

section \<open>Hexadecimal\<close>

lemma of_char_byte: "n < 256 \<Longrightarrow> (of_char (char_of n) :: u8) = of_nat n" "n < 256 \<Longrightarrow> of_char (char_of n) = (n :: nat)"
  by (metis of_nat_of_char of_char_of mod_less, simp)

lemma digit_char_hex:
  assumes "n < 16"
  shows "hex_value (unat (of_char (digit_char n) :: u8)) = Some n" "(of_char (digit_char n) :: u8) \<le> 0x7F"
    "digit_char n \<noteq> CHR '' ''"
proof -
  define m where "m = (if n < 10 then 48 + n else 87 + n)"
  have m: "m < 0x80" "hex_value m = Some n" "m \<noteq> 32" using assms by (auto simp: m_def hex_value_def)
  have d: "digit_char n = char_of m" by (simp add: digit_char_def m_def)
  have u: "unat (of_nat m :: u8) = m" using m by (simp add: unat_of_nat)
  then have "of_nat m \<le> (0x7F :: u8)" using m by (simp add: word_le_nat_alt)
  then show "hex_value (unat (of_char (digit_char n) :: u8)) = Some n" "(of_char (digit_char n) :: u8) \<le> 0x7F"
    using m by (simp_all add: d of_char_byte u)
  have "(of_char (digit_char n) :: nat) \<noteq> of_char (CHR '' '')" using m by (simp add: d of_char_byte)
  then show "digit_char n \<noteq> CHR '' ''" by metis
qed

lemma nibbles: "hi < 16 \<Longrightarrow> lo < 16 \<Longrightarrow> or (push_bit 4 hi) lo = 16 * hi + (lo :: nat)"
proof -
  assume lo: "lo < 16"
  then have "take_bit 4 lo = lo" by (simp add: take_bit_nat_eq_self)
  then have "and (push_bit 4 hi) lo = and (push_bit 4 hi) (take_bit 4 lo)" by simp
  also have "\<dots> = 0" by (rule bit_eqI) (auto simp: bit_simps)
  finally have "and (push_bit 4 hi) lo = 0" .
  then have "or (push_bit 4 hi) lo = push_bit 4 hi + lo" by (simp add: disjunctive_add_eq_or)
  then show ?thesis by (simp add: push_bit_eq_mult)
qed

lemma nibbles_of_byte: "or (push_bit 4 (unat b div 16)) (unat b mod 16) = unat (b :: u8)"
proof -
  have "unat b div 16 < 16" "unat b mod 16 < 16" using unat_u8 [of b] by (simp_all add: less_mult_imp_div_less)
  then show ?thesis by (simp add: nibbles)
qed

lemma utf8_simps [simp]: "utf8 [] = []" "utf8 (c # s) = of_char c # utf8 s" "utf8 (s @ t) = utf8 s @ utf8 t"
  by (simp_all add: utf8_def)

lemma hex_encode_simps [simp]:
  "hex_encode [] = []"
  "hex_encode (b # bs) = digit_char (unat b div 16) # digit_char (unat b mod 16) # hex_encode bs"
  by (simp_all add: hex_encode_def)

lemma length_hex_encode [simp]: "length (hex_encode bs) = 2 * length bs"
  by (induction bs) simp_all

lemma byte_nibbles: "unat (b :: u8) div 16 < 16" "unat b mod 16 < 16"
  using unat_u8 [of b] by (simp_all add: less_mult_imp_div_less)

lemma hex_encode_ascii: "\<forall>b \<in> set (utf8 (hex_encode bs)). b \<le> 0x7F" "CHR '' '' \<notin> set (hex_encode bs)"
  by (induction bs) (auto simp: digit_char_hex byte_nibbles dest: sym)

lemma hex_round_trip [simp]: "hex_decode (hex_encode bs) = Inr bs"
proof -
  have "hex_chunks (map (\<lambda>b. [b]) (utf8 (hex_encode bs))) = Inr bs"
    by (induction bs) (simp_all add: to_digit16_def digit_char_hex byte_nibbles nibbles_of_byte)
  then show ?thesis by (simp add: hex_decode_def chars_of_ascii hex_encode_ascii)
qed

section \<open>Decimal\<close>

lemma parse_digits_append:
  "parse_digits bound acc (s @ t) = Option.bind (parse_digits bound acc s) (\<lambda>acc. parse_digits bound acc t)"
  by (induction s arbitrary: acc) (simp_all split: Option.bind_split)

lemma digit_char_value:
  assumes "d < 10"
  shows "digit_value (digit_char d) = Some d" "digit_char d \<noteq> CHR ''+''" "digit_char d \<noteq> CHR '' ''"
proof -
  have d: "(of_char (digit_char d) :: nat) = 48 + d" using assms by (simp add: digit_char_def of_char_byte)
  then show "digit_value (digit_char d) = Some d" using assms by (simp add: digit_value_def)
  have "(of_char (digit_char d) :: nat) \<noteq> of_char (CHR ''+'')" "(of_char (digit_char d) :: nat) \<noteq> of_char (CHR '' '')"
    by (simp_all add: d)
  then show "digit_char d \<noteq> CHR ''+''" "digit_char d \<noteq> CHR '' ''" by metis+
qed

lemma div10: "n < 10 * t \<Longrightarrow> n div 10 < (t :: nat)"
  by linarith

lemma digits_in_small: "n < 10 ^ k \<Longrightarrow> d \<in> set (digits_in k 10 n) \<Longrightarrow> d < 10"
  by (induction k arbitrary: n) (auto split: if_splits dest: div10)

lemma digits_in_not_Nil: "0 < k \<Longrightarrow> digits_in k 10 n \<noteq> []"
  by (cases k) simp_all

lemma parse_digits_in:
  "n < 10 ^ k \<Longrightarrow> 0 < k \<Longrightarrow> n < bound \<Longrightarrow> parse_digits bound 0 (map digit_char (digits_in k 10 n)) = Some n"
proof (induction k arbitrary: n)
  case (Suc k)
  show ?case
  proof (cases "n < 10")
    case True then show ?thesis using Suc.prems by (simp add: digit_char_value)
  next
    case False
    then have k: "0 < k" using Suc.prems by (cases k) auto
    have "n div 10 < 10 ^ k" "n div 10 < bound" using Suc.prems by (simp_all add: less_mult_imp_div_less mult.commute)
    then have IH: "parse_digits bound 0 (map digit_char (digits_in k 10 (n div 10))) = Some (n div 10)"
      using Suc.IH k by blast
    have "n div 10 * 10 + n mod 10 = n" by presburger
    then show ?thesis using False Suc.prems(3) by (simp add: parse_digits_append IH digit_char_value)
  qed
qed simp

lemma parse_decimal: "n < bound \<Longrightarrow> n < 10 ^ 10 \<Longrightarrow> parse_uint bound (decimal n) = Some n"
  using parse_digits_in [of n 10 bound] digits_in_not_Nil [of 10 n] digits_in_small [of n 10]
  by (cases "digits_in 10 10 n") (simp_all add: decimal_def parse_uint_def digit_char_value)

lemma decimal_no_space: "n < 10 ^ 10 \<Longrightarrow> CHR '' '' \<notin> set (decimal n)"
  using digits_in_small [of n 10] digit_char_value(3) by (force simp: decimal_def)

section \<open>Addresses\<close>

lemma split_first_at:
  assumes "sep = c # cs" "c \<notin> set a"
  shows "split_first sep (a @ sep @ s) = Some (a, s)"
  using assms by (induction a) auto

lemma split_first_skip:
  assumes "sep = c # cs" "c \<notin> set a"
  shows "split_first sep (a @ s) = map_option (\<lambda>(x, y). (a @ x, y)) (split_first sep s)"
  using assms(2)
proof (induction a)
  case (Cons d a)
  then have "take (length sep) ((d # a) @ s) \<noteq> sep" using assms(1) by auto
  then show ?case using Cons by (simp add: option.map_comp comp_def case_prod_unfold split: option.splits)
qed (simp add: option.map_ident case_prod_unfold)

lemma split_next_none:
  assumes "sep = c # cs" "c \<notin> set a"
  shows "split_next sep a = a"
  using split_first_skip [OF assms, of "[]"] assms(1) by (simp add: split_next_def)

text \<open>The three fields of an address that is not one of the two families.\<close>

lemma raw_address_fields:
  assumes "CHR '' '' \<notin> set f" "CHR '' '' \<notin> set h" "CHR '' '' \<notin> set p"
  defines "s \<equiv> ''family='' @ f @ '' bytes='' @ h @ '' port='' @ p"
  shows "map_option (split_next '' '') (strip_prefix ''family='' s) = Some f"
    and "map_option (split_next '' '') (split_second '' bytes='' s) = Some h"
    and "split_second '' port='' s = Some p"
proof -
  have "split_next '' '' (f @ '' bytes='' @ h @ '' port='' @ p) = f"
    using assms(1) by (simp add: split_next_def split_first_skip [where c = "CHR '' ''" and cs = "[]"])
  then show "map_option (split_next '' '') (strip_prefix ''family='' s) = Some f"
    by (simp add: s_def strip_prefix_def)
  have ff: "CHR '' '' \<notin> set (''family='' @ f)" using assms(1) by simp
  have b: "split_first '' bytes='' s = Some (''family='' @ f, h @ '' port='' @ p)"
    using split_first_at [OF _ ff, of "'' bytes=''" "''bytes=''" "h @ '' port='' @ p"] by (simp add: s_def)
  have "split_next '' bytes='' (h @ '' port='' @ p) = h @ '' port='' @ p"
    using assms(2,3)
    by (simp add: split_next_def split_first_skip [where c = "CHR '' ''" and cs = "''bytes=''" and a = h]
        split_first_skip [where c = "CHR '' ''" and cs = "''bytes=''" and a = p and s = "[]", simplified])
  moreover have "split_next '' '' (h @ '' port='' @ p) = h"
    using assms(2) by (simp add: split_next_def split_first_skip [where c = "CHR '' ''" and cs = "[]"])
  ultimately show "map_option (split_next '' '') (split_second '' bytes='' s) = Some h"
    by (simp add: split_second_def b)
  have "split_first '' port='' s = map_option (\<lambda>(x, y). (''family='' @ f @ x, y))
      (split_first '' port='' ('' bytes='' @ h @ '' port='' @ p))"
    using split_first_skip [OF _ ff, of "'' port=''" "''port=''"] by (simp add: s_def)
  also have "\<dots> = Some (''family='' @ f @ '' bytes='' @ h, p)"
    using assms(2) split_first_at [of "'' port=''" "CHR '' ''" "''port=''" h p]
    by simp
  finally show "split_second '' port='' s = Some p"
    using assms(3) by (simp add: split_second_def split_next_none [where c = "CHR '' ''" and cs = "''port=''"])
qed

section \<open>Cutting text\<close>

lemma cont_byte:
  assumes "utf8_cont b"
  shows "and b 0xC0 = 0x80"
proof -
  have all: "list_all (\<lambda>n. and (word_of_nat n :: u8) 0xC0 = 0x80) [128..<192]" by code_simp
  have "128 \<le> unat b" "unat b < 192" using assms by (simp_all add: utf8_cont_def word_le_nat_alt)
  then have "unat b \<in> set [128..<192]" by (simp only: set_upt atLeastLessThan_iff)
  with all have "and (word_of_nat (unat b) :: u8) 0xC0 = 0x80" unfolding list_all_iff by (rule bspec)
  then show ?thesis by simp
qed

lemma utf8_char_tail:
  assumes "utf8_char c"
  shows "\<forall>b \<in> set (tl c). utf8_cont b"
proof -
  obtain a t where c: "c = a # t" "utf8_valid (a # t)" "Suc (length t) = char_len a"
    using assms by (cases c) (auto simp: utf8_char_def)
  have up: "0xA0 \<le> b \<Longrightarrow> 0x80 \<le> b" "0x90 \<le> b \<Longrightarrow> 0x80 \<le> b" "b \<le> 0x9F \<Longrightarrow> b \<le> 0xBF" "b \<le> 0x8F \<Longrightarrow> b \<le> 0xBF" for b :: u8
    by (simp_all add: word_le_nat_alt)
  note u = utf8_valid.simps(2)
  show ?thesis
  proof (cases "a \<le> 0x7F")
    case True then show ?thesis using c by (simp add: char_len_def)
  next
    case F1: False
    show ?thesis
    proof (cases "0xC2 \<le> a \<and> a \<le> 0xDF")
      case True
      then show ?thesis using c F1
        by (subst (asm) u) (auto simp: char_len_def length_Suc_conv simp del: utf8_valid.simps split: list.splits)
    next
      case F2: False
      show ?thesis
      proof (cases "0xE0 \<le> a \<and> a \<le> 0xEF")
        case True
        then have "\<not> a \<le> 0xDF" by (auto simp: word_le_nat_alt)
        then show ?thesis using c F1 F2 True
          by (subst (asm) u) (auto simp: char_len_def length_Suc_conv utf8_cont_def up simp del: utf8_valid.simps split: list.splits if_splits)
      next
        case F3: False
        then show ?thesis using c F1 F2 F3
          by (subst (asm) u) (auto simp: char_len_def length_Suc_conv utf8_cont_def up numeral_eq_Suc simp del: utf8_valid.simps split: list.splits if_splits)
      qed
    qed
  qed
qed

definition boundary_at :: "bytes \<Rightarrow> nat \<Rightarrow> bool" where
  "boundary_at s i \<longleftrightarrow> i = 0 \<or> i = length s \<or> i < length s \<and> and (s ! i) 0xC0 \<noteq> 0x80"

lemma length_utf8 [simp]: "length (utf8 s) = length s"
  by (simp add: utf8_def)

lemma take_utf8: "utf8 (take i s) = take i (utf8 s)"
  by (simp add: utf8_def take_map)

lemma is_char_boundary_utf8: "is_char_boundary s i = boundary_at (utf8 s) i"
  by (auto simp: is_char_boundary_def boundary_at_def utf8_def)

lemma take_at_boundary:
  assumes "\<forall>c \<in> set cs. utf8_char c" "boundary_at (concat cs) i"
  shows "\<exists>pre post. cs = pre @ post \<and> take i (concat cs) = concat pre"
  using assms
proof (induction cs arbitrary: i)
  case (Cons c cs)
  show ?case
  proof (cases "i = 0")
    case True
    then have "c # cs = [] @ c # cs \<and> take i (concat (c # cs)) = concat []" by simp
    then show ?thesis by blast
  next
    case False
    have c: "utf8_char c" "c \<noteq> []" using Cons.prems by (simp_all add: utf8_char_def)
    show ?thesis
    proof (cases "i < length c")
      case True
      obtain a t j where "c = a # t" "i = Suc j" using c False by (cases c; cases i) auto
      then have "concat (c # cs) ! i \<in> set (tl c)" using True by (simp add: nth_append)
      then have "and (concat (c # cs) ! i) 0xC0 = 0x80" using utf8_char_tail [OF c(1)] cont_byte by blast
      then show ?thesis using Cons.prems(2) True False by (auto simp: boundary_at_def)
    next
      case ge: False
      then have "boundary_at (concat cs) (i - length c)"
        using Cons.prems(2) False by (auto simp: boundary_at_def nth_append)
      then obtain pre post where "cs = pre @ post" "take (i - length c) (concat cs) = concat pre"
        using Cons.IH [of "i - length c"] Cons.prems(1) by force
      then have "c # cs = (c # pre) @ post \<and> take i (concat (c # cs)) = concat (c # pre)" using ge by simp
      then show ?thesis by blast
    qed
  qed
next
  case Nil
  then show ?case by simp
qed

lemma boundary_below_boundary: "is_char_boundary s (boundary_below s n)" "boundary_below s n \<le> n"
  by (induction n) (auto simp: is_char_boundary_def)

lemma boundary_below_greatest: "i \<le> n \<Longrightarrow> is_char_boundary s i \<Longrightarrow> i \<le> boundary_below s n"
  by (induction n) (auto simp: le_Suc_eq)

lemma utf8_valid_append: "utf8_valid s \<Longrightarrow> utf8_valid t \<Longrightarrow> utf8_valid (s @ t)"
  using utf8_concat [of "take_chars (length s) s @ take_chars (length t) t"]
    take_chars_valid [of s "length s"] take_chars_valid [of t "length t"] by auto

lemma cap_text_valid:
  assumes "utf8_valid (utf8 s)"
  shows "utf8_valid (utf8 (cap_text s))"
proof -
  define i where "i = boundary_below s MAX_FREE_TEXT_LEN"
  have b: "boundary_at (utf8 s) i" using boundary_below_boundary(1) [of s] by (simp add: i_def is_char_boundary_utf8)
  note cs = take_chars_valid [OF assms order_refl]
  obtain pre post where p: "take_chars (length (utf8 s)) (utf8 s) = pre @ post" "take i (utf8 s) = concat pre"
    using take_at_boundary [of "take_chars (length (utf8 s)) (utf8 s)" i] cs b by auto
  then have "utf8_valid (take i (utf8 s))" using cs utf8_concat [of pre] by auto
  moreover have "utf8_valid (utf8 CUT_MARK)" by (simp add: CUT_MARK_def)
  ultimately show ?thesis using assms by (simp add: cap_text_def i_def take_utf8 utf8_valid_append)
qed

lemma cap_text_length: "length (cap_text s) \<le> MAX_FREE_TEXT_LEN + length CUT_MARK"
  using boundary_below_boundary(2) [of s MAX_FREE_TEXT_LEN] by (auto simp: cap_text_def)

section \<open>What is relied on of the crates\<close>

text \<open>
  The JSON values that the writer makes: objects with their keys in the order of the map, of
  scalars, arrays of scalars, and arrays of objects of scalars.
\<close>

definition json_scalar :: "json \<Rightarrow> bool" where
  "json_scalar v \<longleftrightarrow>
     (case v of
        JNull \<Rightarrow> True | JBool _ \<Rightarrow> True | JUint n \<Rightarrow> n < 2 ^ 64 | JString s \<Rightarrow> utf8_valid (utf8 s) | _ \<Rightarrow> False)"

definition json_members :: "(json \<Rightarrow> bool) \<Rightarrow> (string \<times> json) list \<Rightarrow> bool" where
  "json_members P m \<longleftrightarrow> sorted_wrt str_less (map fst m) \<and> list_all (\<lambda>(k, v). P v) m"

definition json_row :: "json \<Rightarrow> bool" where
  "json_row v \<longleftrightarrow> json_scalar v \<or> (case v of JObject m \<Rightarrow> json_members json_scalar m | _ \<Rightarrow> False)"

definition json_table :: "json \<Rightarrow> bool" where
  "json_table v \<longleftrightarrow>
     (case v of
        JObject m \<Rightarrow>
          json_members (\<lambda>x. json_scalar x \<or> (case x of JArray vs \<Rightarrow> list_all json_row vs | _ \<Rightarrow> False)) m
      | _ \<Rightarrow> False)"

text \<open>
  A value is printed on one line, as text that reads back as the value; text of white space is
  no value. A time that the crate can format reads back. The parser of socket addresses takes
  no text that begins like the dump of a raw address.
\<close>

locale diag_contract =
  fixes K :: diag_crates
  assumes json_prints: "json_table v \<Longrightarrow> \<exists>s. dc_json_print K v = Some s"
    and json_reads: "json_table v \<Longrightarrow> dc_json_print K v = Some s \<Longrightarrow> dc_json_parse K s = Some v"
    and json_line: "json_table v \<Longrightarrow> dc_json_print K v = Some s \<Longrightarrow>
      utf8_valid (utf8 s) \<and> CHR 0x0A \<notin> set s \<and> CHR 0x0D \<notin> set s"
    and json_blank: "list_all (\<lambda>c. is_whitespace (code_point c)) (chars_of (utf8 s)) \<Longrightarrow> dc_json_parse K s = None"
    and time_text: "tc_format (dc_time K) n = Some s \<Longrightarrow> tc_parse (dc_time K) s = Some n \<and> utf8_valid (utf8 s)"
    and sock_family: "dc_sock_parse K (''family='' @ s) = None"

text \<open>An address that the parser reads back as it was printed.\<close>

definition addr_reads :: "diag_crates \<Rightarrow> addr \<Rightarrow> bool" where
  "addr_reads K a \<longleftrightarrow> addr_wf a \<and>
     (case to_socket_addr a of None \<Rightarrow> True | Some sa \<Rightarrow> dc_sock_parse K (socket_addr_string sa) = Some sa)"

text \<open>A time in the years that the crate can format.\<close>

definition time_writes :: "diag_crates \<Rightarrow> u64 \<Rightarrow> bool" where
  "time_writes K ms \<longleftrightarrow> tc_format (dc_time K) (int (unat ms) * 1000000) \<noteq> None"

definition record_writes :: "diag_crates \<Rightarrow> diag_record \<Rightarrow> bool" where
  "record_writes K r \<longleftrightarrow>
     length (dr_attempt r) = 16 \<and> length (dr_peer r) = 4 \<and>
     time_writes K (dr_started_at_ms r) \<and> time_writes K (dr_ended_at_ms r) \<and>
     addr_reads K (fst (dr_local_observed r)) \<and> addr_reads K (snd (dr_local_observed r)) \<and>
     addr_reads K (dr_peer_observed r) \<and> addr_reads K (choice_addr (dr_path r)) \<and>
     list_all (\<lambda>s. utf8_valid (utf8 (sr_detail s))) (dr_steps r) \<and>
     list_all (\<lambda>e. utf8_valid (utf8 (ve_detail e))) (dr_events r) \<and>
     utf8_valid (utf8 (dr_version r)) \<and> utf8_valid (utf8 (dr_platform r))"

text \<open>What is read back: free text is cut, and an IPv4 address has its four bytes.\<close>

fun choice_as_read :: "path_choice \<Rightarrow> path_choice" where
  "choice_as_read (Choice_Relay a) = Choice_Relay (addr_as_read a)"
| "choice_as_read (Choice_Direct a) = Choice_Direct (addr_as_read a)"

definition as_read :: "diag_record \<Rightarrow> diag_record" where
  "as_read r = r\<lparr>
     dr_steps := map (\<lambda>s. s\<lparr>sr_detail := cap_text (sr_detail s)\<rparr>) (dr_steps r),
     dr_events := map (\<lambda>e. e\<lparr>ve_detail := cap_text (ve_detail e)\<rparr>) (dr_events r),
     dr_local_observed := (addr_as_read (fst (dr_local_observed r)), addr_as_read (snd (dr_local_observed r))),
     dr_peer_observed := addr_as_read (dr_peer_observed r),
     dr_path := choice_as_read (dr_path r),
     dr_version := cap_text (dr_version r), dr_platform := cap_text (dr_platform r)\<rparr>"

section \<open>Objects\<close>

lemma map_of_object_insert [simp]: "map_of (object_insert k v m) = (map_of m)(k \<mapsto> v)"
  by (induction k v m rule: object_insert.induct) auto

lemma str_less_total: "str_less a b \<or> a = b \<or> str_less b a"
proof -
  have "inj (of_char :: char \<Rightarrow> nat)" by (rule inj_of_char)
  then have "map of_char a = (map of_char b :: nat list) \<Longrightarrow> a = b" using map_injective by blast
  then show ?thesis by (auto simp: str_less_def)
qed

lemma str_less_trans: "str_less a b \<Longrightarrow> str_less b c \<Longrightarrow> str_less a c"
  by (simp add: str_less_def)

lemma object_insert_keys: "fst ` set (object_insert k v m) = insert k (fst ` set m)"
  by (induction k v m rule: object_insert.induct) auto

lemma json_members_insert:
  assumes "json_members P m" "P v"
  shows "json_members P (object_insert k v m)"
  using assms
proof (induction k v m rule: object_insert.induct)
  case (2 k v k' v' m)
  have "\<forall>x \<in> fst ` set m. str_less k' x" using 2(2) by (simp add: json_members_def)
  then show ?case
    using 2 str_less_total [of k k'] object_insert_keys [of k v m]
    by (auto simp: json_members_def intro: str_less_trans)
qed (simp add: json_members_def)

lemma json_members_fold:
  "json_members P m \<Longrightarrow> list_all (\<lambda>(k, v). P v) kvs \<Longrightarrow> json_members P (foldl (\<lambda>m (k, v). object_insert k v m) m kvs)"
  by (induction kvs arbitrary: m) (auto intro: json_members_insert)

lemma json_object_members:
  "list_all (\<lambda>(k, v). P v) kvs \<Longrightarrow> \<exists>m. json_object kvs = JObject m \<and> json_members P m"
  using json_members_fold [of P "[]" kvs] by (auto simp: json_object_def json_members_def)

section \<open>Text that is ASCII\<close>

definition ascii_text :: "string \<Rightarrow> bool" where
  "ascii_text s \<longleftrightarrow> list_all (\<lambda>c. (of_char c :: nat) < 128) s"

lemma ascii_text_simps [simp]:
  "ascii_text []" "ascii_text (c # s) \<longleftrightarrow> (of_char c :: nat) < 128 \<and> ascii_text s"
  "ascii_text (s @ t) \<longleftrightarrow> ascii_text s \<and> ascii_text t"
  by (simp_all add: ascii_text_def)

lemma unat_of_char: "unat (of_char c :: u8) = of_char c"
proof -
  have "(of_char c :: u8) = of_nat (of_char c)" by (simp only: of_nat_of_char)
  then show ?thesis using nat_of_char_less_256 [of c] by (simp only: unat_of_nat) simp
qed

lemma ascii_utf8: "ascii_text s \<Longrightarrow> utf8_valid (utf8 s)"
proof (induction s)
  case (Cons c s)
  then have "(of_char c :: u8) \<le> 0x7F" by (simp add: word_le_nat_alt unat_of_char)
  then show ?case using Cons by simp
qed simp

lemma digits_in_range: "0 < b \<Longrightarrow> d \<in> set (digits_in k b n) \<Longrightarrow> d < b"
  by (induction k arbitrary: n) (auto split: if_splits)

lemma digit_char_ascii: "d < 16 \<Longrightarrow> (of_char (digit_char d) :: nat) < 128"
  by (simp add: digit_char_def of_char_byte)

lemma ascii_numbers [simp]: "ascii_text (decimal n)" "ascii_text (hex_str n)"
proof -
  have "d < 16" if "d \<in> set (digits_in 10 10 n)" for d using digits_in_range [OF _ that] by simp
  then show "ascii_text (decimal n)" by (auto simp: decimal_def ascii_text_def list_all_iff digit_char_ascii)
  show "ascii_text (hex_str n)"
    using digits_in_range [of 16] by (auto simp: hex_str_def ascii_text_def list_all_iff digit_char_ascii)
qed

lemma ascii_hex [simp]: "ascii_text (hex_encode bs)"
  by (induction bs) (auto simp: digit_char_ascii byte_nibbles)

lemma ascii_join: "ascii_text sep \<Longrightarrow> list_all ascii_text ss \<Longrightarrow> ascii_text (join_with sep ss)"
  by (induction sep ss rule: join_with.induct) auto

lemma ascii_v4 [simp]: "ascii_text (v4_string ip)"
  by (auto simp: v4_string_def list_all_iff intro!: ascii_join)

lemma ascii_socket [simp]: "ascii_text (socket_addr_string a)"
proof -
  have "ascii_text (join_with '':'' (map hex_str ss))" for ss by (rule ascii_join) (auto simp: list_all_iff)
  then have "ascii_text (v6_string ip)" for ip
    by (auto simp: v6_string_def Let_def split: option.split prod.split)
  then show ?thesis by (cases a) auto
qed

lemma ascii_names [simp]:
  "ascii_text (step_str s)" "ascii_text (outcome_str oc)" "ascii_text (reason_str r)"
  "ascii_text (mapping_str m)" "ascii_text (visit_str v)" "ascii_text (rtt_str t)" "ascii_text (kind_str p)"
        apply (cases s; simp)
       apply (cases oc; simp)
      apply (cases r; simp)
     apply (cases m; simp)
    apply (cases v; simp)
   apply (cases t; simp)
  apply (cases p; simp)
  done

lemma ascii_addr [simp]: "ascii_text (addr_to_json_string a)"
  by (auto simp: addr_to_json_string_def split: option.split)

section \<open>Addresses and times read back\<close>

context diag_contract
begin

lemma addr_round_trip:
  assumes "addr_reads K a"
  shows "addr_from_json_string (dc_sock_parse K) (addr_to_json_string a) = Inr (addr_as_read a)"
proof (cases "to_socket_addr a")
  case (Some sa)
  then show ?thesis using assms
    by (simp add: addr_reads_def addr_from_json_string_def addr_to_json_string_def addr_as_read_def)
next
  case None
  let ?f = "decimal (unat (addr_family a))" and ?h = "hex_encode (addr_bytes a)" and ?p = "decimal (unat (addr_port a))"
  have f: "unat (addr_family a) < 256" using unat_u8 [of "addr_family a"] by simp
  have p: "unat (addr_port a) < 65536" using unat_u16 [of "addr_port a"] by simp
  have sp: "CHR '' '' \<notin> set ?f" "CHR '' '' \<notin> set ?h" "CHR '' '' \<notin> set ?p"
    using f p by (simp_all add: decimal_no_space hex_encode_ascii)
  have s: "addr_to_json_string a = ''family='' @ ?f @ '' bytes='' @ ?h @ '' port='' @ ?p"
    using None by (simp add: addr_to_json_string_def)
  note fields = raw_address_fields [OF sp, folded s]
  have "dc_sock_parse K (addr_to_json_string a) = None" unfolding s by (rule sock_family)
  moreover have "length (addr_bytes a) = 16" using assms by (simp add: addr_reads_def addr_wf_def)
  moreover have "parse_uint 256 ?f = Some (unat (addr_family a))" "parse_uint 65536 ?p = Some (unat (addr_port a))"
    using f p by (simp_all add: parse_decimal)
  ultimately show ?thesis
    by (simp add: addr_from_json_string_def fields to_array_def addr_as_read_def None)
qed

lemma time_round_trip:
  assumes "time_writes K ms"
  shows "rfc3339_parse (dc_time K) (rfc3339_format (dc_time K) ms) = Inr ms"
    and "utf8_valid (utf8 (rfc3339_format (dc_time K) ms))"
proof -
  obtain s where s: "tc_format (dc_time K) (int (unat ms) * 1000000) = Some s"
    using assms by (auto simp: time_writes_def)
  have "int (unat ms) < 2 ^ 64" using unat_u64 [of ms] by (metis of_nat_less_iff of_nat_numeral of_nat_power)
  then show "rfc3339_parse (dc_time K) (rfc3339_format (dc_time K) ms) = Inr ms"
    using time_text [OF s] by (simp add: rfc3339_format_def rfc3339_parse_def s [simplified])
  show "utf8_valid (utf8 (rfc3339_format (dc_time K) ms))" using time_text [OF s] by (simp add: rfc3339_format_def s [simplified])
qed

end

section \<open>A record reads back\<close>

lemma map_of_fold_insert:
  "map_of (foldl (\<lambda>m (k, v). object_insert k v m) m kvs) k =
     (case map_of (rev kvs) k of Some v \<Rightarrow> Some v | None \<Rightarrow> map_of m k)"
  by (induction kvs arbitrary: m) (auto simp: map_add_def split: option.split)

lemma json_get_object: "distinct (map fst kvs) \<Longrightarrow> json_get (json_object kvs) k = map_of kvs k"
proof -
  assume d: "distinct (map fst kvs)"
  then have "map_of (rev kvs) = map_of kvs" by (simp add: map_of_inject_set rev_map [symmetric])
  then show ?thesis by (simp add: json_object_def map_of_fold_insert split: option.split)
qed

lemma step_get [simp]: "json_get (step_json s) k = map_of
     [(''step'', JString (step_str (sr_step s))), (''at_ms'', JUint (unat (sr_at_ms s))),
      (''outcome'', JString (outcome_str (sr_outcome s))), (''detail'', JString (cap_text (sr_detail s)))] k"
  unfolding step_json_def by (rule json_get_object) simp

lemma event_get [simp]: "json_get (event_json e) k = map_of
     [(''event'', JString (visit_str (ve_event e))), (''at_ms'', JUint (unat (ve_at_ms e))),
      (''detail'', JString (cap_text (ve_detail e)))] k"
  unfolding event_json_def by (rule json_get_object) simp

lemma record_get: "json_get (record_json T r) k = map_of (record_fields T r) k"
  unfolding record_json_def by (rule json_get_object) (simp add: record_fields_def)

lemma u64_below [simp]: "unat (x :: u64) < 18446744073709551616"
  using unat_u64 [of x] by simp

lemma u32_widens [simp]: "unat (ucast (n :: u32) :: u64) = unat n" "ucast (ucast (n :: u32) :: u64) = n"
proof -
  have "unat n < 2 ^ 64" using unat_u32 [of n] by simp
  then show "unat (ucast n :: u64) = unat n" by (simp add: unsigned_ucast_eq take_bit_nat_eq_self)
  show "ucast (ucast n :: u64) = n" by (rule bit_word_eqI) (simp add: bit_ucast_iff)
qed

lemma rows_read_back:
  "read_each step_from_json (map step_json ss) = Inr (map (\<lambda>s. s\<lparr>sr_detail := cap_text (sr_detail s)\<rparr>) ss)"
  "read_each event_from_json (map event_json es) = Inr (map (\<lambda>e. e\<lparr>ve_detail := cap_text (ve_detail e)\<rparr>) es)"
proof -
  show "read_each step_from_json (map step_json ss) = Inr (map (\<lambda>s. s\<lparr>sr_detail := cap_text (sr_detail s)\<rparr>) ss)"
    by (induction ss) (simp_all add: step_from_json_def field_str_def field_u64_def field_def)
  show "read_each event_from_json (map event_json es) = Inr (map (\<lambda>e. e\<lparr>ve_detail := cap_text (ve_detail e)\<rparr>) es)"
    by (induction es) (simp_all add: event_from_json_def field_str_def field_u64_def field_def)
qed

lemma record_json_table:
  assumes "record_writes K r" "diag_contract K"
  shows "json_table (record_json (dc_time K) r)"
proof -
  let ?P = "\<lambda>x. json_scalar x \<or> (case x of JArray vs \<Rightarrow> list_all json_row vs | _ \<Rightarrow> False)"
  have row: "json_row (json_object kvs)" if "list_all (\<lambda>(k, v). json_scalar v) kvs" for kvs
    using json_object_members [OF that] by (auto simp: json_row_def)
  have str: "json_scalar (JString s) = utf8_valid (utf8 s)" "json_scalar (JUint (unat (n :: u64)))"
    "json_scalar (JUint (unat (m :: u32)))" "json_scalar (JBool b)" for s n m b
    using unat_u32 [of m] by (simp_all add: json_scalar_def)
  have steps: "list_all json_row (map step_json (dr_steps r))"
    using assms(1) by (auto simp: list_all_iff record_writes_def step_json_def str ascii_utf8 cap_text_valid intro!: row)
  have events: "list_all json_row (map event_json (dr_events r))"
    using assms(1) by (auto simp: list_all_iff record_writes_def event_json_def str ascii_utf8 cap_text_valid intro!: row)
  have times: "utf8_valid (utf8 (rfc3339_format (dc_time K) (dr_started_at_ms r)))"
    "utf8_valid (utf8 (rfc3339_format (dc_time K) (dr_ended_at_ms r)))"
    using assms diag_contract.time_round_trip(2) by (auto simp: record_writes_def)
  have "list_all (\<lambda>(k, v). ?P v) (record_fields (dc_time K) r)"
    using assms(1) steps events times
    by (simp add: record_fields_def str ascii_utf8 cap_text_valid record_writes_def json_row_def
        split: option.split) (simp add: json_scalar_def ascii_utf8)
  then show ?thesis using json_object_members by (fastforce simp: record_json_def json_table_def)
qed

context diag_contract
begin

lemma value_round_trip:
  assumes "record_writes K r"
  shows "from_json_value K (record_json (dc_time K) r) = Inr (as_read r)"
proof -
  note w = assms [unfolded record_writes_def]
  let ?v = "record_json (dc_time K) r"
  note get = record_get [of "dc_time K" r, unfolded record_fields_def]
  have path: "path_from_json (dc_sock_parse K) ?v = Inr (choice_as_read (dr_path r))"
    using w addr_round_trip [of "choice_addr (dr_path r)"]
    by (cases "dr_path r") (simp_all add: path_from_json_def field_str_def field_def get)
  have failed: "failed_step_from_json ?v = Inr (dr_failed_step r)"
    by (cases "dr_failed_step r") (simp_all add: failed_step_from_json_def field_def get as_str_def)
  have events: "events_from_json ?v = Inr (map (\<lambda>e. e\<lparr>ve_detail := cap_text (ve_detail e)\<rparr>) (dr_events r))"
    by (simp add: events_from_json_def get rows_read_back)
  have local: "local_from_json (dc_sock_parse K) ?v =
      Inr (addr_as_read (fst (dr_local_observed r)), addr_as_read (snd (dr_local_observed r)))"
    using w by (simp add: local_from_json_def field_array_def field_def get pair_of_def as_str_def addr_round_trip)
  have source: "rtt_source_from_json ?v = Inr (dr_rtt_source r)"
    by (simp add: rtt_source_from_json_def get as_str_def)
  have u32: "u32_try_from m (ucast (n :: u32)) = Inr n" for m n
    using unat_u32 [of n] by (simp add: u32_try_from_def)
  have below: "unat (n :: u32) < 18446744073709551616" for n
    using unat_u32 [of n] by simp
  show ?thesis
    unfolding from_json_value_def path failed events local source
    using w
    by (simp add: field_str_def field_u64_def field_bool_def field_array_def optional_field_u64_def optional_field_u32_def
        field_def get to_array_def fingerprint_from_hex_def time_round_trip(1) addr_round_trip rows_read_back u32 below)
       (simp add: as_read_def)
qed

end

end
