(* ===== verification/Diag_Log_Laws.thy ===== *)
theory Diag_Log_Laws
  imports Diag_Laws
begin

text \<open>
  Laws of the diagnostics log: pruning, the names of the files and their order, what one writer
  leaves in the directory when the system answers, that it reads back, and what is kept
  whatever fails.
\<close>

section \<open>A system that answers\<close>

lemma next_answer_quiet [simp]: "lg_faults l = [] \<Longrightarrow> next_answer l = (None, l)"
  by (simp add: next_answer_def)

lemma ask_quiet [simp]: "lg_faults l = [] \<Longrightarrow> ask what l = (Inr (), l)"
  by (simp add: ask_def)

lemma io_then_simps [simp]: "io_then (Inr x, l) f = f x l" "io_then (Inl e, l) f = (Inl e, l)"
  by (simp_all add: io_then_def)

lemma list_names_quiet [simp]: "lg_faults l = [] \<Longrightarrow> list_names names l = (names, l)"
  by (induction names) simp_all

lemma read_dir_quiet [simp]: "lg_faults l = [] \<Longrightarrow> read_dir l = (Inr (map fst (lg_files l)), l)"
  by (simp add: read_dir_def)

section \<open>Pruning\<close>

text \<open>The days of the log files in a directory.\<close>

definition name_days :: "string set \<Rightarrow> string set" where
  "name_days names = {d. \<exists>n \<in> names. is_jsonl n \<and> day_prefix n = Some d}"

definition log_days :: "diag_log \<Rightarrow> string set" where
  "log_days l = name_days (set (map fst (lg_files l)))"

lemma set_day_insert [simp]: "set (day_insert d ds) = insert d (set ds)"
  by (induction ds) auto

lemma str_less_irrefl [simp]: "\<not> str_less a a"
  by (simp add: str_less_def)

lemma sorted_day_insert: "sorted_wrt str_less ds \<Longrightarrow> sorted_wrt str_less (day_insert d ds)"
proof (induction ds)
  case (Cons e es)
  then show ?case using str_less_total [of d e] by (auto intro: str_less_trans)
qed simp

lemma set_map_filter:
  "set (List.map_filter day_prefix (filter is_jsonl names)) = {d. \<exists>n \<in> set names. is_jsonl n \<and> day_prefix n = Some d}"
  by (induction names) (auto simp: List.map_filter_simps split: option.split)

lemma days_of_facts:
  "sorted_wrt str_less (days_of today names)"
  "set (days_of today names) = insert today (name_days (set names))"
proof -
  have "sorted_wrt str_less (fold day_insert ds acc) \<and> set (fold day_insert ds acc) = set ds \<union> set acc"
    if "sorted_wrt str_less acc" for ds acc
    using that by (induction ds arbitrary: acc) (auto simp: sorted_day_insert)
  from this [of "[]" "List.map_filter day_prefix (filter is_jsonl names)"]
  have f: "sorted_wrt str_less (fold day_insert (List.map_filter day_prefix (filter is_jsonl names)) [])"
    "set (fold day_insert (List.map_filter day_prefix (filter is_jsonl names)) []) = name_days (set names)"
    by (simp_all add: name_days_def set_map_filter)
  then show "sorted_wrt str_less (days_of today names)"
    "set (days_of today names) = insert today (name_days (set names))"
    by (simp_all add: days_of_def sorted_day_insert)
qed

lemma remove_day_quiet:
  "lg_faults l = [] \<Longrightarrow> remove_day d names l =
     (Inr (), l\<lparr>lg_files := filter (\<lambda>(n, _). \<not> (n \<in> set names \<and> day_prefix n = Some d)) (lg_files l)\<rparr>)"
proof (induction names arbitrary: l)
  case (Cons n names)
  show ?case
  proof (cases "day_prefix n = Some d")
    case True
    have "filter (\<lambda>(k, _). \<not> (k \<in> set names \<and> day_prefix k = Some d)) (hm_remove n (lg_files l)) =
        filter (\<lambda>(k, _). \<not> (k \<in> set (n # names) \<and> day_prefix k = Some d)) (lg_files l)"
      unfolding AList.delete_eq filter_filter by (rule filter_cong) (use True in auto)
    then show ?thesis using Cons True by (simp add: remove_file_def)
  next
    case False
    have "filter (\<lambda>(k, _). \<not> (k \<in> set names \<and> day_prefix k = Some d)) (lg_files l) =
        filter (\<lambda>(k, _). \<not> (k \<in> set (n # names) \<and> day_prefix k = Some d)) (lg_files l)"
      by (rule filter_cong) (use False in auto)
    then show ?thesis using Cons False by simp
  qed
qed (simp add: case_prod_unfold)

lemma remove_days_quiet:
  "lg_faults l = [] \<Longrightarrow> remove_days ds l =
     (Inr (), l\<lparr>lg_files := filter (\<lambda>(n, _). day_prefix n \<notin> Some ` set ds) (lg_files l)\<rparr>)"
proof (induction ds arbitrary: l)
  case (Cons d ds)
  let ?one = "filter (\<lambda>(n, _). \<not> (n \<in> set (map fst (lg_files l)) \<and> day_prefix n = Some d)) (lg_files l)"
  have "?one = filter (\<lambda>(n, _). day_prefix n \<noteq> Some d) (lg_files l)"
    by (rule filter_cong) force+
  then have "filter (\<lambda>(n, _). day_prefix n \<notin> Some ` set ds) ?one =
      filter (\<lambda>(n, _). day_prefix n \<notin> Some ` set (d # ds)) (lg_files l)"
    by (auto intro!: filter_cong)
  then show ?case using Cons by (simp add: remove_day_quiet)
qed (simp add: case_prod_unfold)

definition pruned :: "string \<Rightarrow> (string, string) hashmap \<Rightarrow> (string, string) hashmap" where
  "pruned today files =
     (let days = days_of today (map fst files) in
      filter (\<lambda>(n, _). day_prefix n \<notin> Some ` set (take (length days - MAX_FILES_KEPT) days)) files)"

lemma prune_quiet: "lg_faults l = [] \<Longrightarrow> prune today l = (Inr (), l\<lparr>lg_files := pruned today (lg_files l)\<rparr>)"
  by (simp add: prune_def pruned_def remove_days_quiet Let_def)

lemma sorted_take_drop:
  assumes "sorted_wrt str_less xs" "x \<in> set (take k xs)" "y \<in> set (drop k xs)"
  shows "str_less x y"
  using assms sorted_wrt_append [of str_less "take k xs" "drop k xs"] by auto

text \<open>When today is not before the days that are there, at most seven days are left, and today's files.\<close>

lemma pruned_days:
  assumes "\<forall>d \<in> name_days (fst ` set files). \<not> str_less today d"
  shows "card (insert today (name_days (fst ` set (pruned today files)))) \<le> MAX_FILES_KEPT"
    and "today \<notin> set (take (length (days_of today (map fst files)) - MAX_FILES_KEPT) (days_of today (map fst files)))"
proof -
  define days where "days = days_of today (map fst files)"
  define k where "k = length days - MAX_FILES_KEPT"
  have f: "sorted_wrt str_less days" "set days = insert today (name_days (fst ` set files))"
    using days_of_facts [of today "map fst files"] by (simp_all add: days_def)
  have last: "\<forall>d \<in> set days. \<not> str_less today d" using f(2) assms by simp
  have "0 < length days" using f(2) by (cases days) auto
  then have "k < length days" unfolding k_def MAX_FILES_KEPT_def by linarith
  then have ne: "drop k days \<noteq> []" by simp
  show out: "today \<notin> set (take (length (days_of today (map fst files)) - MAX_FILES_KEPT) (days_of today (map fst files)))"
  proof
    assume t: "today \<in> set (take (length (days_of today (map fst files)) - MAX_FILES_KEPT) (days_of today (map fst files)))"
    obtain y where y: "y \<in> set (drop k days)" using ne by (cases "drop k days") auto
    have "str_less today y" using sorted_take_drop [OF f(1) _ y] t by (simp add: days_def k_def)
    moreover have "y \<in> set days" using y by (rule in_set_dropD)
    ultimately show False using last by blast
  qed
  have "insert today (name_days (fst ` set (pruned today files))) \<subseteq> set (drop k days)"
  proof
    fix d assume "d \<in> insert today (name_days (fst ` set (pruned today files)))"
    then consider "d = today" | n c where "(n, c) \<in> set (pruned today files)" "is_jsonl n" "day_prefix n = Some d"
      by (auto simp: name_days_def)
    then have "d \<in> set days \<and> d \<notin> set (take k days)"
    proof cases
      case 1
      then show ?thesis using out f(2) by (simp add: days_def k_def)
    next
      case 2
      then have "(n, c) \<in> set files" "Some d \<notin> Some ` set (take k days)"
        by (auto simp: pruned_def Let_def days_def k_def)
      then have "d \<in> name_days (fst ` set files)" "d \<notin> set (take k days)"
        using 2(2,3) by (force simp: name_days_def)+
      then show ?thesis using f(2) by simp
    qed
    then have "d \<in> set days" "d \<notin> set (take k days)" by simp_all
    then show "d \<in> set (drop k days)" by (metis Un_iff append_take_drop_id set_append)
  qed
  then have "card (insert today (name_days (fst ` set (pruned today files)))) \<le> card (set (drop k days))"
    by (intro card_mono) auto
  also have "\<dots> \<le> length (drop k days)" by (rule card_length)
  also have "\<dots> \<le> MAX_FILES_KEPT" by (simp add: k_def)
  finally show "card (insert today (name_days (fst ` set (pruned today files)))) \<le> MAX_FILES_KEPT" .
qed

section \<open>File names\<close>

lemma date_ascii:
  assumes "date_shaped d" "c \<in> set d"
  shows "(of_char c :: nat) < 128"
proof -
  have ten: "length d = 10" "d ! 4 = CHR ''-''" "d ! 7 = CHR ''-''" using assms(1) by (simp_all add: date_shaped_def)
  obtain i where i: "i < 10" "d ! i = c" using assms(2) ten by (auto simp: in_set_conv_nth)
  have "list_all (\<lambda>i. i = 4 \<or> i = 7 \<or> is_ascii_digit (d ! i)) [0..<10]"
    using assms(1) unfolding date_shaped_def by (elim conjE)
  moreover have "i \<in> set [0..<10]" using i(1) by (simp only: set_upt atLeastLessThan_iff le0 simp_thms)
  ultimately have "i = 4 \<or> i = 7 \<or> is_ascii_digit (d ! i)" unfolding list_all_iff by (rule bspec)
  then show ?thesis
  proof (elim disjE)
    assume "i = 4" then show ?thesis using i(2) ten(2) by force
  next
    assume "i = 7" then show ?thesis using i(2) ten(3) by force
  next
    assume "is_ascii_digit (d ! i)" then show ?thesis using i(2) by (simp add: is_ascii_digit_def)
  qed
qed

lemma day_prefix_append:
  assumes "date_shaped d"
  shows "day_prefix (d @ CHR ''.'' # s) = Some d"
proof -
  have ten: "length d = 10" using assms by (simp add: date_shaped_def)
  then have "is_char_boundary (d @ CHR ''.'' # s) 10" by (simp add: is_char_boundary_def nth_append)
  then show ?thesis using assms ten by (simp add: day_prefix_def)
qed

lemma strip_suffix_append: "strip_suffix p (s @ p) = Some s"
  by (simp add: strip_suffix_def strip_prefix_def)

lemma file_name_facts:
  assumes "date_shaped d"
  shows "is_jsonl (file_name_for d part)" "day_prefix (file_name_for d part) = Some d"
    "file_part (file_name_for d part) = unat part"
proof -
  have part: "unat part < 4294967296" "unat part < 10 ^ 10" using unat_u32 [of part] by simp_all
  have ten: "length d = 10" using assms by (simp add: date_shaped_def)
  have stem: "strip_suffix ''.jsonl'' (d @ ''.jsonl'') = Some d"
    "strip_suffix ''.jsonl'' (d @ ''.'' @ decimal (unat part) @ ''.jsonl'') = Some (d @ ''.'' @ decimal (unat part))"
    using strip_suffix_append [of "''.jsonl''" d] strip_suffix_append [of "''.jsonl''" "d @ ''.'' @ decimal (unat part)"]
    by simp_all
  show "is_jsonl (file_name_for d part)" using stem by (simp add: is_jsonl_def file_name_for_def)
  show "day_prefix (file_name_for d part) = Some d"
    using day_prefix_append [OF assms] by (simp add: file_name_for_def)
  show "file_part (file_name_for d part) = unat part"
    using stem ten parse_decimal [OF part]
    by (simp add: file_part_def file_name_for_def strip_prefix_def)
qed

lemma file_name_inj:
  assumes "date_shaped d" "date_shaped e" "file_name_for d p = file_name_for e q"
  shows "d = e \<and> p = q"
  using file_name_facts [OF assms(1), of p] file_name_facts [OF assms(2), of q] assms(3) by (simp add: word_unat_eq_iff)

lemma file_before_name:
  assumes "date_shaped d" "date_shaped e"
  shows "file_before (file_name_for d p) (file_name_for e q) \<longleftrightarrow> str_less d e \<or> d = e \<and> unat p < unat q"
  using assms by (simp add: file_before_def Let_def file_name_facts)

section \<open>The newest file\<close>

lemma file_before_asym: "file_before a b \<Longrightarrow> \<not> file_before b a"
  by (auto simp: file_before_def Let_def str_less_def)

lemma set_newest: "set (foldr newest_insert names []) = set names"
proof -
  have "set (newest_insert y ys) = insert y (set ys)" for y ys by (induction y ys rule: newest_insert.induct) auto
  then show ?thesis by (induction names) simp_all
qed

lemma newest_first:
  assumes "x \<in> set names" "\<forall>n \<in> set names. n = x \<or> file_before n x"
  shows "\<exists>rest. foldr newest_insert names [] = x # rest"
  using assms
proof (induction names)
  case (Cons a names)
  have irr: "\<not> file_before x x" using file_before_asym by blast
  show ?case
  proof (cases "x \<in> set names")
    case True
    then obtain rest where r: "foldr newest_insert names [] = x # rest" using Cons by auto
    show ?thesis using Cons.prems irr by (cases "a = x") (auto simp: r)
  next
    case False
    then have a: "a = x" using Cons.prems by simp
    show ?thesis
    proof (cases "foldr newest_insert names []")
      case (Cons y ys)
      then have "y \<in> set names" using set_newest [of names] by auto
      then have "file_before y x" using Cons.prems(2) False by auto
      then have "\<not> file_before x y" by (rule file_before_asym)
      then show ?thesis by (simp add: a Cons)
    qed (simp add: a)
  qed
qed simp

section \<open>Lines\<close>

lemma lines_from_append: "lines_from cur (s @ [10] @ t) = lines_from cur (s @ [10]) @ lines_from [] t"
  by (induction s arbitrary: cur) simp_all

lemma lines_from_line: "10 \<notin> set s \<Longrightarrow> lines_from cur (s @ [10]) = [strip_cr (cur @ s)]"
  by (induction s arbitrary: cur) auto

definition whole_lines :: "string \<Rightarrow> bool" where
  "whole_lines c \<longleftrightarrow> c = [] \<or> last c = CHR 0x0A"

lemma char_eq_of_char: "c = d \<longleftrightarrow> (of_char c :: nat) = of_char d"
  by simp

lemma in_set_map_char: "(n :: nat) \<in> set (map of_char s) \<Longrightarrow> \<exists>c \<in> set s. of_char c = n"
  by auto

lemma text_lines_append:
  assumes "whole_lines c" "CHR 0x0A \<notin> set line" "CHR 0x0D \<notin> set line"
  shows "text_lines (c @ line @ [CHR 0x0A]) = text_lines c @ [line]"
proof -
  let ?m = "map (of_char :: char \<Rightarrow> nat)"
  have "c = CHR 0x0A" if "of_char c = (10 :: nat)" for c using that char_eq_of_char [of c "CHR 0x0A"] by simp
  moreover have "c = CHR 0x0D" if "of_char c = (13 :: nat)" for c using that char_eq_of_char [of c "CHR 0x0D"] by simp
  ultimately have lf: "10 \<notin> set (?m line)" "13 \<notin> set (?m line)" using assms(2,3) by (metis in_set_map_char)+
  then have "strip_cr (?m line) = ?m line" using last_in_set [of "?m line"] by (auto simp: strip_cr_def)
  then have one: "lines_from [] (?m line @ [10]) = [?m line]" using lines_from_line [OF lf(1), of "[]"] by simp
  have "lines_from [] (?m c @ ?m line @ [10]) = lines_from [] (?m c) @ lines_from [] (?m line @ [10])"
  proof (cases "c = []")
    case False
    then obtain c' where "c = c' @ [CHR 0x0A]" using assms(1) by (metis whole_lines_def append_butlast_last_id)
    then show ?thesis using lines_from_append [of "[]" "?m c'" "?m line @ [10]"] by simp
  qed simp
  then show ?thesis by (simp add: text_lines_def one comp_def)
qed

lemma read_lines_append: "read_lines K i (ls @ ms) = read_lines K i ls @ read_lines K (i + length ls) ms"
  by (induction ls arbitrary: i) simp_all

lemma best_of_append: "best_of p b (os @ os') = best_of p (best_of p b os) os'"
  by (induction p b os rule: best_of.induct) simp_all

section \<open>Writing without faults\<close>

lemma str_less_asym: "str_less a b \<Longrightarrow> \<not> str_less b a"
  by (auto simp: str_less_def)

lemma write_through_quiet:
  "lg_faults l = [] \<Longrightarrow> hm_get (lg_files l) name = Some c \<Longrightarrow>
   write_through name s l = (None, l\<lparr>lg_files := hm_insert name (c @ s) (lg_files l)\<rparr>)"
  by (simp add: write_through_def append_file_def)

text \<open>What is written and flushed is at the end of the open file.\<close>

lemma write_and_flush_quiet:
  assumes "lg_faults l = []" "lg_file l = Some (name, [])" "hm_get (lg_files l) name = Some c" "s \<noteq> []"
  shows "io_then (buf_write_all s l) (\<lambda>_ l. io_then (flush_buf l) f) =
    f () (l\<lparr>lg_files := hm_insert name (c @ s) (lg_files l)\<rparr>)"
proof (cases "length s < BUF_CAPACITY")
  case True
  let ?l = "l\<lparr>lg_file := Some (name, s)\<rparr>"
  have "flush_buf ?l = (Inr (), l\<lparr>lg_files := hm_insert name (c @ s) (lg_files l), lg_file := Some (name, [])\<rparr>)"
    using assms write_through_quiet [of ?l name c s] by (simp add: flush_buf_def)
  moreover have "l\<lparr>lg_files := hm_insert name (c @ s) (lg_files l), lg_file := Some (name, [])\<rparr> =
      l\<lparr>lg_files := hm_insert name (c @ s) (lg_files l)\<rparr>"
    using assms(2) by simp
  ultimately show ?thesis using True assms by (simp add: buf_write_all_def)
next
  case False
  then have put: "put_buffered s l = (Inr (), l\<lparr>lg_files := hm_insert name (c @ s) (lg_files l)\<rparr>)"
    using assms write_through_quiet [of l name c s] by (simp add: put_buffered_def)
  have "flush_buf l' = (Inr (), l')" if "lg_file l' = Some (name, [])" for l' using that by (simp add: flush_buf_def)
  then show ?thesis using False assms put by (simp add: buf_write_all_def)
qed

section \<open>The invariant of a writer\<close>

text \<open>A file within the cap, or of one line that is larger than the cap.\<close>

definition fits :: "string \<Rightarrow> bool" where
  "fits c \<longleftrightarrow>
     length c \<le> unat MAX_FILE_BYTES \<or>
     length c \<le> 2 ^ 32 \<and> c \<noteq> [] \<and> last c = CHR 0x0A \<and> CHR 0x0A \<notin> set (butlast c)"

definition log_file_ok :: "string \<Rightarrow> u32 \<Rightarrow> string \<Rightarrow> string \<Rightarrow> bool" where
  "log_file_ok d part name c \<longleftrightarrow>
     (\<exists>e p. name = file_name_for e p \<and> date_shaped e \<and> (str_less e d \<or> e = d \<and> unat p \<le> unat part)) \<and>
     utf8_valid (utf8 c) \<and> whole_lines c \<and> fits c"

definition open_ok :: "nat \<Rightarrow> string \<Rightarrow> diag_log \<Rightarrow> bool" where
  "open_ok n d l \<longleftrightarrow>
     lg_faults l = [] \<and> hm_wf (lg_files l) \<and> lg_open_date l = Some d \<and> date_shaped d \<and>
     unat (lg_open_part l) < n \<and> lg_file l = Some (file_name_for d (lg_open_part l), []) \<and>
     hm_get (lg_files l) (file_name_for d (lg_open_part l)) \<noteq> None \<and>
     unat (lg_bytes_written l) = length (the (hm_get (lg_files l) (file_name_for d (lg_open_part l)))) \<and>
     (\<forall>(name, c) \<in> set (lg_files l). log_file_ok d (lg_open_part l) name c) \<and>
     card (log_days l) \<le> MAX_FILES_KEPT"

definition fresh_ok :: "diag_log \<Rightarrow> bool" where
  "fresh_ok l \<longleftrightarrow>
     lg_faults l = [] \<and> lg_files l = [] \<and> lg_open_date l = None \<and> lg_file l = None"

lemma log_days_open:
  "(\<forall>(name, c) \<in> set (lg_files l). log_file_ok d part name c) \<Longrightarrow> e \<in> log_days l \<Longrightarrow> str_less e d \<or> e = d"
  by (auto simp: log_days_def name_days_def log_file_ok_def file_name_facts)

lemma max_file_bytes: "unat MAX_FILE_BYTES = 5242880"
  by (simp add: MAX_FILE_BYTES_def)

lemma drop_file_quiet:
  assumes "lg_file l = None \<or> (\<exists>name. lg_file l = Some (name, []))"
  shows "drop_file l = l\<lparr>lg_file := None\<rparr>"
  using assms by (auto simp: drop_file_def flush_buf_def)

text \<open>Opening a part that is not there yet.\<close>

lemma open_new_part:
  assumes "lg_faults l = []" "lg_file l = None \<or> (\<exists>name. lg_file l = Some (name, []))"
    and "hm_get (lg_files l) (file_name_for d part) = None"
  shows "open_part_file d part l =
    (Inr (), l\<lparr>lg_files := hm_insert (file_name_for d part) [] (lg_files l),
       lg_file := Some (file_name_for d part, []), lg_bytes_written := 0\<rparr>)"
  using assms by (simp add: open_part_file_def drop_file_quiet hm_or_insert_def hm_get_insert Let_def)

lemma log_file_ok_mono:
  "log_file_ok d part name c \<Longrightarrow> str_less d d' \<or> d = d' \<and> unat part \<le> unat part' \<Longrightarrow> log_file_ok d' part' name c"
  unfolding log_file_ok_def by (metis order_trans str_less_trans)

lemma log_file_ok_new: "date_shaped d \<Longrightarrow> log_file_ok d part (file_name_for d part) []"
  by (auto simp: log_file_ok_def whole_lines_def fits_def)

lemma set_hm_insert_subset: "set (hm_insert k v m) \<subseteq> insert (k, v) (set m)"
  by (induction m) auto

lemma log_days_insert:
  assumes "date_shaped d"
  shows "name_days (fst ` set (hm_insert (file_name_for d part) c files)) = insert d (name_days (fst ` set files))"
proof -
  have "fst ` set (hm_insert (file_name_for d part) c files) = insert (file_name_for d part) (fst ` set files)"
    by (induction files) auto
  then show ?thesis using file_name_facts [OF assms] by (auto simp: name_days_def)
qed

text \<open>Going to a new day, which no file is of yet.\<close>

lemma rotate_ok:
  assumes "open_ok n d l \<or> fresh_ok l" "date_shaped today" "open_ok n d l \<Longrightarrow> str_less d today"
  shows "\<exists>l'. rotate_to_day today l = (Inr (), l') \<and> open_ok (Suc n) today l'"
proof -
  define files where "files = pruned today (lg_files l)"
  have quiet: "lg_faults l = []" and closed: "lg_file l = None \<or> (\<exists>name. lg_file l = Some (name, []))"
    and wf: "hm_wf (lg_files l)" and old: "\<forall>(name, c) \<in> set (lg_files l). log_file_ok today 0 name c"
    and days: "\<forall>e \<in> log_days l. str_less e today"
    using assms log_days_open [of l d "lg_open_part l"] log_file_ok_mono [of d "lg_open_part l" _ _ today 0]
    by (fastforce simp: open_ok_def fresh_ok_def hm_wf_def log_days_def name_days_def intro: str_less_trans)+
  have sub: "set files \<subseteq> set (lg_files l)" by (auto simp: files_def pruned_def Let_def)
  have ld: "\<forall>e \<in> name_days (fst ` set (lg_files l)). \<not> str_less today e"
    using days str_less_asym by (auto simp: log_days_def)
  have none: "hm_get files (file_name_for today 0) = None"
  proof (rule ccontr)
    assume "hm_get files (file_name_for today 0) \<noteq> None"
    then obtain c where "(file_name_for today 0, c) \<in> set (lg_files l)" using sub by (auto dest: map_of_SomeD)
    then have "today \<in> log_days l"
      using file_name_facts [OF assms(2), of 0] by (force simp: log_days_def name_days_def)
    then show False using days by auto
  qed
  let ?l = "l\<lparr>lg_files := files, lg_open_date := Some today, lg_open_part := 0\<rparr>"
  let ?l' = "?l\<lparr>lg_files := hm_insert (file_name_for today 0) [] files,
    lg_file := Some (file_name_for today 0, []), lg_bytes_written := 0\<rparr>"
  have r: "rotate_to_day today l = (Inr (), ?l')"
    using quiet closed none open_new_part [of ?l today 0]
    by (simp add: rotate_to_day_def prune_quiet files_def [symmetric])
  have "log_days ?l' = insert today (name_days (fst ` set files))"
    using log_days_insert [OF assms(2), of 0 "[]" files] by (simp add: log_days_def)
  then have "card (log_days ?l') \<le> MAX_FILES_KEPT" using pruned_days(1) [OF ld] by (simp add: files_def)
  moreover have "\<forall>(name, c) \<in> set (hm_insert (file_name_for today 0) [] files). log_file_ok today 0 name c"
    using set_hm_insert_subset [of "file_name_for today 0" "[]" files] sub old log_file_ok_new [OF assms(2), of 0] by fastforce
  moreover have "hm_wf files" using wf by (auto simp: files_def pruned_def Let_def hm_wf_def intro: distinct_map_filter)
  ultimately have "open_ok (Suc n) today ?l'" using quiet assms(2) by (simp add: open_ok_def hm_get_insert)
  then show ?thesis using r by blast
qed

text \<open>A line is at the end of the open file, which is the newest.\<close>

definition line_ok :: "string \<Rightarrow> bool" where
  "line_ok line \<longleftrightarrow> length line < 2 ^ 32 \<and> utf8_valid (utf8 line) \<and> CHR 0x0A \<notin> set line"

lemma put_line_ok:
  assumes "open_ok n d l" "line_ok line" "hm_get (lg_files l) (file_name_for d (lg_open_part l)) = Some c"
    and "length c + length line + 1 \<le> unat MAX_FILE_BYTES \<or> c = []"
  shows "open_ok n d (l\<lparr>lg_files := hm_insert (file_name_for d (lg_open_part l)) (c @ line @ [CHR 0x0A]) (lg_files l),
    lg_bytes_written := sat_add_u64 (lg_bytes_written l) (of_nat (length line + 1))\<rparr>)"
proof -
  note o = assms(1) [unfolded open_ok_def]
  let ?name = "file_name_for d (lg_open_part l)" and ?c = "c @ line @ [CHR 0x0A]"
  have c: "(?name, c) \<in> set (lg_files l)" using assms(3) by (rule map_of_SomeD)
  then have old: "log_file_ok d (lg_open_part l) ?name c" using o by blast
  have lf: "utf8_valid (utf8 [CHR 0x0A])" by simp
  have "fits ?c" using assms(2,4) by (auto simp: fits_def line_ok_def butlast_append max_file_bytes)
  moreover have "utf8_valid (utf8 ?c)"
    using old assms(2) lf utf8_valid_append by (simp add: log_file_ok_def line_ok_def del: utf8_valid.simps)
  ultimately have new: "log_file_ok d (lg_open_part l) ?name ?c" using old by (simp add: log_file_ok_def whole_lines_def)
  have len: "length c + length line + 1 < 2 ^ 63" using assms(2,4) by (auto simp: line_ok_def max_file_bytes)
  then have "unat (of_nat (length line + 1) :: u64) = length line + 1" by (simp add: unat_of_nat del: of_nat_add of_nat_Suc)
  then have "unat (sat_add_u64 (lg_bytes_written l) (of_nat (length line + 1))) = length ?c"
    using len o assms(3) by (simp add: sat_add_u64_def unat_of_nat min_def del: of_nat_add of_nat_Suc)
  moreover have "\<forall>(name, c) \<in> set (hm_insert ?name ?c (lg_files l)). log_file_ok d (lg_open_part l) name c"
    using set_hm_insert_subset [of ?name ?c "lg_files l"] o new by fastforce
  moreover have "log_days (l\<lparr>lg_files := hm_insert ?name ?c (lg_files l)\<rparr>) = log_days l"
  proof -
    have d: "date_shaped d" using o by blast
    have "?name \<in> fst ` set (lg_files l)" using c by (rule rev_image_eqI) simp
    then have "d \<in> name_days (fst ` set (lg_files l))"
      unfolding name_days_def using file_name_facts [OF d, of "lg_open_part l"] by blast
    then show ?thesis
      using log_days_insert [OF d, of "lg_open_part l" ?c "lg_files l"] by (simp add: log_days_def insert_absorb)
  qed
  ultimately show ?thesis using o by (simp add: open_ok_def hm_get_insert log_days_def)
qed

lemma open_ok_Suc: "open_ok n d l \<Longrightarrow> open_ok (Suc n) d l"
  by (simp add: open_ok_def)

lemma next_part_ok:
  assumes "open_ok n d l" "n < 2 ^ 32"
  shows "\<exists>l'. open_next_part l = (Inr (), l') \<and> open_ok (Suc n) d l' \<and>
    hm_get (lg_files l') (file_name_for d (lg_open_part l')) = Some []"
proof -
  note o = assms(1) [unfolded open_ok_def]
  define part where "part = sat_inc32 (lg_open_part l)"
  have up: "unat part = unat (lg_open_part l) + 1"
  proof -
    have "unat (lg_open_part l) < 2 ^ 32 - 1" using o assms(2) by simp
    then have "lg_open_part l \<noteq> - 1" by (auto simp: unsigned_minus_1_eq_mask mask_eq_exp_minus_1)
    then show ?thesis by (simp add: part_def unat_sat_inc32)
  qed
  let ?name = "file_name_for d part"
  have none: "hm_get (lg_files l) ?name = None"
  proof (rule ccontr)
    assume "hm_get (lg_files l) ?name \<noteq> None"
    then obtain c where "(?name, c) \<in> set (lg_files l)" by (auto dest: map_of_SomeD)
    then have "log_file_ok d (lg_open_part l) ?name c" using o by blast
    then obtain e p where e: "?name = file_name_for e p" "date_shaped e"
      "str_less e d \<or> e = d \<and> unat p \<le> unat (lg_open_part l)" by (auto simp: log_file_ok_def)
    then show False using file_name_inj [of d e part p] o up by auto
  qed
  let ?l = "l\<lparr>lg_open_part := part\<rparr>"
  let ?l' = "?l\<lparr>lg_files := hm_insert ?name [] (lg_files l), lg_file := Some (?name, []), lg_bytes_written := 0\<rparr>"
  have "open_next_part l = (Inr (), ?l')"
    using o none open_new_part [of ?l d part] by (simp add: open_next_part_def part_def [symmetric] Let_def)
  moreover have "\<forall>(name, c) \<in> set (hm_insert ?name [] (lg_files l)). log_file_ok d part name c"
    using set_hm_insert_subset [of ?name "[]" "lg_files l"] o log_file_ok_new [of d part]
      log_file_ok_mono [of d "lg_open_part l" _ _ d part] up by fastforce
  moreover have "log_days ?l' = log_days l"
  proof -
    have d: "date_shaped d" using o by blast
    have "file_name_for d (lg_open_part l) \<in> fst ` set (lg_files l)"
      using o by (metis dom_map_of_conv_image_fst domIff)
    then have "d \<in> name_days (fst ` set (lg_files l))"
      unfolding name_days_def using file_name_facts [OF d, of "lg_open_part l"] by blast
    then show ?thesis using log_days_insert [OF d, of part "[]" "lg_files l"] by (simp add: log_days_def insert_absorb)
  qed
  ultimately show ?thesis using o up by (auto simp: open_ok_def hm_get_insert)
qed

lemma append_line_ok:
  assumes "open_ok n d l" "line_ok line" "n < 2 ^ 32"
  shows "\<exists>l' c. append_line (line @ [CHR 0x0A]) l = (Inr True, l') \<and> open_ok (Suc n) d l' \<and> whole_lines c \<and>
    hm_get (lg_files l') (file_name_for d (lg_open_part l')) = Some (c @ line @ [CHR 0x0A])"
proof -
  let ?s = "line @ [CHR 0x0A]"
  let ?put = "\<lambda>c l. l\<lparr>lg_files := hm_insert (file_name_for d (lg_open_part l)) (c @ ?s) (lg_files l),
    lg_bytes_written := sat_add_u64 (lg_bytes_written l) (of_nat (length line + 1))\<rparr>"
  have wrote: "append_line ?s l = (Inr True, ?put c l1)"
    if l1: "(if sat_add_u64 (lg_bytes_written l) (of_nat (length ?s)) > MAX_FILE_BYTES then open_next_part l
        else (Inr (), l)) = (Inr (), l1)"
      and o: "open_ok m d l1" and c: "hm_get (lg_files l1) (file_name_for d (lg_open_part l1)) = Some c" for l1 m c
  proof -
    have f: "lg_faults l1 = []" "lg_file l1 = Some (file_name_for d (lg_open_part l1), [])"
      using o by (simp_all add: open_ok_def)
    note w = write_and_flush_quiet [OF f c, of ?s]
    show ?thesis unfolding append_line_def Let_def l1 using f by (simp add: w)
  qed
  have len: "unat (of_nat (length ?s) :: u64) = length line + 1"
    using assms(2) by (simp add: line_ok_def unat_of_nat del: of_nat_add of_nat_Suc)
  obtain c where c: "hm_get (lg_files l) (file_name_for d (lg_open_part l)) = Some c"
    using assms(1) by (auto simp: open_ok_def)
  show ?thesis
  proof (cases "sat_add_u64 (lg_bytes_written l) (of_nat (length ?s)) > MAX_FILE_BYTES")
    case True
    obtain l1 where l1: "open_next_part l = (Inr (), l1)" "open_ok (Suc n) d l1"
      "hm_get (lg_files l1) (file_name_for d (lg_open_part l1)) = Some []"
      using next_part_ok [OF assms(1,3)] by blast
    have "open_ok (Suc n) d (?put [] l1)" using put_line_ok [OF l1(2) assms(2) l1(3)] by simp
    moreover have "append_line ?s l = (Inr True, ?put [] l1)" using wrote [OF _ l1(2,3)] True l1(1) by simp
    moreover have "whole_lines []" by (simp add: whole_lines_def)
    ultimately show ?thesis by (intro exI [of _ "?put [] l1"] exI [of _ "[]"]) (simp add: hm_get_insert)
  next
    case False
    have "unat (lg_bytes_written l) = length c" using assms(1) c by (simp add: open_ok_def)
    then have "length c + length line + 1 \<le> unat MAX_FILE_BYTES"
      using False len assms(2)
      by (simp add: sat_add_u64_def word_less_nat_alt unat_of_nat max_file_bytes min_def not_less split: if_splits del: of_nat_add of_nat_Suc)
    then have "open_ok n d (?put c l)" using put_line_ok [OF assms(1,2) c] by simp
    then have "open_ok (Suc n) d (?put c l)" by (rule open_ok_Suc)
    moreover have "append_line ?s l = (Inr True, ?put c l)" using wrote [OF _ assms(1) c] False by simp
    moreover have "whole_lines c" using assms(1) map_of_SomeD [OF c] by (fastforce simp: open_ok_def log_file_ok_def)
    ultimately show ?thesis by (intro exI [of _ "?put c l"] exI [of _ c]) (simp add: hm_get_insert)
  qed
qed

section \<open>Reading the last record\<close>

lemma last_record_open:
  assumes "open_ok n d l"
    and c: "hm_get (lg_files l) (file_name_for d (lg_open_part l)) = Some (c @ line @ [CHR 0x0A])"
    and lines: "whole_lines c" "CHR 0x0A \<notin> set line" "CHR 0x0D \<notin> set line" "\<not> blank line"
    and r: "from_json_line K line = Inr r" "wanted peer r"
  shows "last_record K peer l = (Inr (Some r), l)"
proof -
  note o = assms(1) [unfolded open_ok_def]
  let ?x = "file_name_for d (lg_open_part l)" and ?names = "map fst (lg_files l)"
  have d: "date_shaped d" and q: "lg_faults l = []" using o by simp_all
  have named: "\<exists>e p. n = file_name_for e p \<and> date_shaped e \<and> (str_less e d \<or> e = d \<and> unat p \<le> unat (lg_open_part l))"
    if "n \<in> set ?names" for n
    using o that unfolding log_file_ok_def by fastforce
  have keep: "filter (\<lambda>n. is_jsonl n \<and> day_prefix n \<noteq> None) ?names = ?names"
    by (rule filter_True) (use named file_name_facts in fastforce)
  have "\<forall>n \<in> set ?names. n = ?x \<or> file_before n ?x"
  proof
    fix n assume "n \<in> set ?names"
    then obtain e p where e: "n = file_name_for e p" "date_shaped e"
      "str_less e d \<or> e = d \<and> unat p \<le> unat (lg_open_part l)" using named by blast
    then show "n = ?x \<or> file_before n ?x"
      using file_before_name [OF e(2) d, of p "lg_open_part l"]
        word_unat_eq_iff [of p "lg_open_part l", THEN iffD2] by (auto simp: le_less)
  qed
  moreover have "?x \<in> set ?names" using map_of_SomeD [OF c] by force
  ultimately obtain rest where rest: "foldr newest_insert ?names [] = ?x # rest" using newest_first by blast
  have "\<forall>(name, c) \<in> set (lg_files l). utf8_valid (utf8 c)" using o unfolding log_file_ok_def by blast
  then have valid: "utf8_valid (utf8 (c @ line @ [CHR 0x0A]))" using map_of_SomeD [OF c] by blast
  have "text_lines (c @ line @ [CHR 0x0A]) = text_lines c @ [line]" by (rule text_lines_append [OF lines(1-3)])
  then have "read_records K ?x l = (Inr (read_lines K 0 (text_lines c) @ [Record_Read r]), l)"
    using q c valid lines(4) r(1) by (simp add: read_records_def read_lines_append del: utf8_simps append_assoc)
  then have "last_in K peer (?x # rest) l = (Inr (Some r), l)"
    using r(2) by (simp add: best_of_append)
  moreover have "files_newest_first l = (Inr (?x # rest), l)"
    using q unfolding files_newest_first_def by (simp only: read_dir_quiet io_then_simps list_names_quiet prod.case Let_def keep rest)
  ultimately show ?thesis by (simp add: last_record_def)
qed

section \<open>A record in the log\<close>

definition loggable :: "diag_crates \<Rightarrow> diag_record \<Rightarrow> bool" where
  "loggable K r \<longleftrightarrow> record_writes K r \<and> length (to_json_line K r) < 2 ^ 32"

context diag_contract
begin

lemma line_facts:
  assumes "record_writes K r"
  shows "from_json_line K (to_json_line K r) = Inr (as_read r)" "utf8_valid (utf8 (to_json_line K r))"
    "CHR 0x0A \<notin> set (to_json_line K r)" "CHR 0x0D \<notin> set (to_json_line K r)" "\<not> blank (to_json_line K r)"
proof -
  have t: "json_table (record_json (dc_time K) r)"
    using record_json_table [OF assms] diag_contract_axioms by blast
  obtain s where s: "dc_json_print K (record_json (dc_time K) r) = Some s" using json_prints [OF t] by blast
  note j = json_line [OF t s] json_reads [OF t s]
  have l: "to_json_line K r = s" by (simp add: to_json_line_def s)
  show "from_json_line K (to_json_line K r) = Inr (as_read r)"
    using j value_round_trip [OF assms] by (simp add: l from_json_line_def)
  show "utf8_valid (utf8 (to_json_line K r))" "CHR 0x0A \<notin> set (to_json_line K r)" "CHR 0x0D \<notin> set (to_json_line K r)"
    using j by (simp_all add: l)
  show "\<not> blank (to_json_line K r)" using json_blank [of s] j(2) by (auto simp: l blank_def)
qed

lemma writer_append_ok:
  assumes "open_ok n d l \<and> (today = d \<or> str_less d today) \<or> fresh_ok l" "loggable K r"
    and today: "date_only (dc_time K) now_ms = today" "date_shaped today" and n: "Suc n < 2 ^ 32"
  shows "\<exists>l'. writer_append K r now_ms l = (Inr True, l') \<and> open_ok (Suc (Suc n)) today l' \<and>
    (wanted peer (as_read r) \<longrightarrow> last_record K peer l' = (Inr (Some (as_read r)), l'))"
proof -
  have w: "record_writes K r" using assms(2) by (simp add: loggable_def)
  have line: "line_ok (to_json_line K r)"
    using assms(2) line_facts [OF w] by (simp add: line_ok_def loggable_def)
  have "\<exists>l1. (if lg_open_date l = Some today then (Inr (), l) else rotate_to_day today l) = (Inr (), l1) \<and>
      open_ok (Suc n) today l1"
  proof (cases "lg_open_date l = Some today")
    case True
    then have "open_ok n today l" using assms(1) by (auto simp: open_ok_def fresh_ok_def)
    then show ?thesis using True open_ok_Suc by auto
  next
    case False
    then have "open_ok n d l \<or> fresh_ok l" "open_ok n d l \<Longrightarrow> str_less d today"
      using assms(1) by (auto simp: open_ok_def fresh_ok_def)
    then show ?thesis using rotate_ok [of n d l today] today(2) False by auto
  qed
  then obtain l1 where l1: "(if lg_open_date l = Some today then (Inr (), l) else rotate_to_day today l) = (Inr (), l1)"
    "open_ok (Suc n) today l1" by blast
  obtain l' c where l': "append_line (to_json_line K r @ [CHR 0x0A]) l1 = (Inr True, l')" "open_ok (Suc (Suc n)) today l'"
    "whole_lines c" "hm_get (lg_files l') (file_name_for today (lg_open_part l')) = Some (c @ to_json_line K r @ [CHR 0x0A])"
    using append_line_ok [OF l1(2) line n] by blast
  have "writer_append K r now_ms l = (Inr True, l')"
    by (simp add: writer_append_def today Let_def l1(1) l'(1))
  then show ?thesis
    using l' last_record_open [OF l'(2,4,3)] line_facts [OF w] by blast
qed

end

section \<open>Whatever fails\<close>

text \<open>
  No file loses a byte but those of the days in a set: each is as it was, or longer.
\<close>

definition kept_but :: "string set \<Rightarrow> diag_log \<Rightarrow> diag_log \<Rightarrow> bool" where
  "kept_but D l l' \<longleftrightarrow>
     (\<forall>name c. hm_get (lg_files l) name = Some c \<longrightarrow>
        (\<exists>t. hm_get (lg_files l') name = Some (c @ t)) \<or> (\<exists>d \<in> D. day_prefix name = Some d))"

lemma kept_refl: "lg_files l' = lg_files l \<Longrightarrow> kept_but D l l'"
  by (auto simp: kept_but_def intro: exI [of _ "[]"])

lemma kept_simps [simp]: "kept_but D l l" "kept_but D l (l\<lparr>lg_file := f\<rparr>)" "kept_but D l (l\<lparr>lg_bytes_written := n\<rparr>)"
  "kept_but D l (l\<lparr>lg_file := f, lg_bytes_written := n\<rparr>)"
  by (simp_all add: kept_refl)

lemma kept_trans: "kept_but D l l1 \<Longrightarrow> kept_but D l1 l2 \<Longrightarrow> kept_but D l l2"
  unfolding kept_but_def by (metis append.assoc)

lemma kept_mono: "kept_but D l l' \<Longrightarrow> D \<subseteq> E \<Longrightarrow> kept_but E l l'"
  unfolding kept_but_def by blast

lemma next_answer_files [simp]: "lg_files (snd (next_answer l)) = lg_files l"
  by (simp add: next_answer_def split: list.split)

lemma ask_files [simp]: "lg_files (snd (ask what l)) = lg_files l"
  by (cases "lg_faults l") (auto simp: ask_def next_answer_def split: option.split)

lemma kept_io_then:
  assumes "kept_but D l (snd m)" "\<And>x l1. m = (Inr x, l1) \<Longrightarrow> kept_but D l1 (snd (f x l1))"
  shows "kept_but D l (snd (io_then m f))"
proof (cases m)
  case (Pair a l1)
  show ?thesis
  proof (cases a)
    case (Inl e) then show ?thesis using assms(1) Pair by (simp add: io_then_def)
  next
    case (Inr x)
    have "kept_but D l1 (snd (f x l1))" using assms(2) Pair Inr by blast
    then show ?thesis using assms(1) Pair Inr by (auto simp: io_then_def intro: kept_trans)
  qed
qed

lemma append_file_kept: "kept_but D l (append_file name s l)"
  by (auto simp: kept_but_def append_file_def hm_get_insert intro: exI [of _ "[]"] split: option.split)

lemma write_through_kept: "kept_but D l (snd (write_through name s l))"
proof -
  obtain answer l1 where a: "next_answer l = (answer, l1)" by fastforce
  then have "kept_but D l l1" using next_answer_files [of l] by (auto intro: kept_refl)
  then show ?thesis by (cases answer) (auto simp: write_through_def a intro: kept_trans append_file_kept)
qed

lemma kept_same_files: "kept_but D l l' \<Longrightarrow> lg_files l'' = lg_files l' \<Longrightarrow> kept_but D l l''"
  by (simp add: kept_but_def)

lemma flush_kept: "kept_but D l (snd (flush_buf l))"
proof (cases "lg_file l")
  case (Some f)
  obtain name pending where f: "f = (name, pending)" by fastforce
  obtain answer l1 where w: "write_through name pending l = (answer, l1)" by fastforce
  then have "kept_but D l l1" using write_through_kept [of D l name pending] by simp
  then show ?thesis
    by (cases answer) (auto simp: flush_buf_def Some f w intro: kept_refl kept_same_files)
qed (simp add: flush_buf_def kept_refl)

lemma put_buffered_kept: "kept_but D l (snd (put_buffered s l))"
proof (cases "lg_file l")
  case (Some f)
  obtain name pending where f: "f = (name, pending)" by fastforce
  obtain answer l1 where w: "write_through name s l = (answer, l1)" by fastforce
  then have "kept_but D l l1" using write_through_kept [of D l name s] by simp
  then show ?thesis by (cases answer) (auto simp: put_buffered_def Some f w intro: kept_refl)
qed (simp add: put_buffered_def kept_refl)

lemma buf_write_all_kept: "kept_but D l (snd (buf_write_all s l))"
  by (auto simp: buf_write_all_def intro!: kept_io_then flush_kept put_buffered_kept split: option.split prod.split)

lemma drop_file_kept: "kept_but D l (drop_file l)"
  using flush_kept by (rule kept_same_files) (simp add: drop_file_def)

lemma open_part_file_kept: "kept_but D l (snd (open_part_file date part l))"
  unfolding open_part_file_def Let_def
proof (rule kept_trans [OF drop_file_kept], rule kept_io_then)
  show "kept_but D (drop_file l) (snd (ask ''open'' (drop_file l)))" by (rule kept_refl) simp
  fix x l1 assume "ask ''open'' (drop_file l) = (Inr x, l1)"
  let ?l = "l1\<lparr>lg_files := hm_or_insert (file_name_for date part) [] (lg_files l1)\<rparr>"
  have new: "kept_but D l1 ?l"
    by (auto simp: kept_but_def hm_or_insert_def hm_get_insert intro: exI [of _ "[]"] split: option.split)
  show "kept_but D l1 (snd (io_then (ask ''set_permissions'' ?l) (\<lambda>_ l.
          case next_answer l of (answer, l) \<Rightarrow>
          (Inr (), l\<lparr>lg_file := Some (file_name_for date part, []), lg_bytes_written :=
            if answer = None then of_nat (length (case hm_get (lg_files l) (file_name_for date part) of Some c \<Rightarrow> c | None \<Rightarrow> []))
            else 0\<rparr>))))"
  proof (rule kept_trans [OF new], rule kept_io_then)
    fix x l2
    show "kept_but D l2 (snd (case next_answer l2 of (answer, l) \<Rightarrow>
          (Inr () :: diag_error + unit, l\<lparr>lg_file := Some (file_name_for date part, []), lg_bytes_written :=
            if answer = None then of_nat (length (case hm_get (lg_files l) (file_name_for date part) of Some c \<Rightarrow> c | None \<Rightarrow> []))
            else 0\<rparr>)))"
      using next_answer_files [of l2] by (cases "next_answer l2") (simp add: kept_refl)
  qed (rule kept_refl, simp)
qed

lemma remove_file_kept: "day_prefix name = Some d \<Longrightarrow> d \<in> D \<Longrightarrow> kept_but D l (snd (remove_file name l))"
  unfolding remove_file_def
proof (rule kept_io_then)
  show "kept_but D l (snd (ask ''remove_file'' l))" by (rule kept_refl) simp
  assume d: "day_prefix name = Some d" "d \<in> D"
  fix x l1
  show "kept_but D l1 (snd (Inr () :: diag_error + unit, l1\<lparr>lg_files := hm_remove name (lg_files l1)\<rparr>))"
    using d by (auto simp: kept_but_def hm_get_remove intro: exI [of _ "[]"])
qed

lemma remove_day_kept: "d \<in> D \<Longrightarrow> kept_but D l (snd (remove_day d names l))"
proof (induction names arbitrary: l)
  case (Cons n names)
  show ?case unfolding remove_day.simps
  proof (rule kept_io_then)
    show "kept_but D l (snd (ask ''read_dir'' l))" by (rule kept_refl) simp
    fix x l1
    show "kept_but D l1 (snd (io_then (if day_prefix n = Some d then remove_file n l1 else (Inr (), l1)) (\<lambda>_. remove_day d names)))"
      using Cons by (auto intro!: kept_io_then remove_file_kept)
  qed
qed (simp add: kept_refl)

lemma read_dir_files: "lg_files (snd (read_dir l)) = lg_files l"
  "read_dir l = (Inr names, l1) \<Longrightarrow> names = map fst (lg_files l) \<and> lg_files l1 = lg_files l"
proof -
  obtain a l2 where a: "ask ''read_dir'' l = (a, l2)" by fastforce
  then have "lg_files l2 = lg_files l" using ask_files [of "''read_dir''" l] by simp
  then show "lg_files (snd (read_dir l)) = lg_files l"
    "read_dir l = (Inr names, l1) \<Longrightarrow> names = map fst (lg_files l) \<and> lg_files l1 = lg_files l"
    by (cases a; auto simp: read_dir_def a)+
qed

lemma remove_days_kept: "set ds \<subseteq> D \<Longrightarrow> kept_but D l (snd (remove_days ds l))"
proof (induction ds arbitrary: l)
  case (Cons d ds)
  then show ?case
    by (auto intro!: kept_io_then remove_day_kept kept_refl [OF read_dir_files(1)])
qed (simp add: kept_refl)

lemma list_names_facts:
  "set (fst (list_names names l)) \<subseteq> set names \<and> lg_files (snd (list_names names l)) = lg_files l"
proof (induction names arbitrary: l)
  case (Cons n names)
  obtain a l1 where a: "next_answer l = (a, l1)" by fastforce
  obtain rest l2 where r: "list_names names l1 = (rest, l2)" by fastforce
  have "lg_files l1 = lg_files l" using next_answer_files [of l] a by simp
  then show ?case using Cons.IH [of l1] by (auto simp: a r)
qed simp

text \<open>A day that goes has at least seven days after it.\<close>

definition old_days :: "string \<Rightarrow> diag_log \<Rightarrow> string set" where
  "old_days today l = {d. MAX_FILES_KEPT \<le> card {e \<in> insert today (log_days l). str_less d e}}"

lemma finite_log_days: "finite (log_days l)"
proof -
  have "log_days l \<subseteq> (\<lambda>n. the (day_prefix n)) ` set (map fst (lg_files l))"
    by (force simp: log_days_def name_days_def)
  then show ?thesis by (rule finite_subset) simp
qed

lemma taken_days_old:
  assumes "set names \<subseteq> set (map fst (lg_files l))" "d \<in> set (take (length (days_of today names) - MAX_FILES_KEPT) (days_of today names))"
  shows "d \<in> old_days today l"
proof -
  define days where "days = days_of today names"
  define k where "k = length days - MAX_FILES_KEPT"
  have s: "sorted_wrt str_less days" "set days = insert today (name_days (set names))"
    using days_of_facts [of today names] by (simp_all add: days_def)
  have dt: "d \<in> set (take k days)" using assms(2) by (simp add: days_def k_def)
  then have "k \<noteq> 0" by (cases k) auto
  then have len: "length (drop k days) = MAX_FILES_KEPT" by (simp add: k_def)
  have "distinct days" using s(1) by (induction days) auto
  then have "card (set (drop k days)) = MAX_FILES_KEPT" using len distinct_card [of "drop k days"] by simp
  moreover have "set (drop k days) \<subseteq> {e \<in> insert today (log_days l). str_less d e}"
  proof
    fix e assume e: "e \<in> set (drop k days)"
    have "str_less d e" using sorted_take_drop [OF s(1) dt e] .
    moreover have "e \<in> insert today (log_days l)"
      using in_set_dropD [OF e] s(2) assms(1) by (auto simp: log_days_def name_days_def)
    ultimately show "e \<in> {e \<in> insert today (log_days l). str_less d e}" by simp
  qed
  then have "card (set (drop k days)) \<le> card {e \<in> insert today (log_days l). str_less d e}"
    by (rule card_mono [rotated]) (use finite_log_days in simp)
  ultimately show ?thesis by (simp add: old_days_def)
qed

lemma prune_kept: "kept_but (old_days today l) l (snd (prune today l))"
  unfolding prune_def
proof (rule kept_io_then)
  show "kept_but (old_days today l) l (snd (read_dir l))" by (rule kept_refl) (rule read_dir_files)
  fix names l1 assume r: "read_dir l = (Inr names, l1)"
  obtain listed l2 where n: "list_names names l1 = (listed, l2)" by fastforce
  have f: "set listed \<subseteq> set (map fst (lg_files l))" "lg_files l2 = lg_files l1"
    using list_names_facts [of names l1] n read_dir_files(2) [OF r] by auto
  have "kept_but (old_days today l) l2 (snd (remove_days (take (length (days_of today listed) - MAX_FILES_KEPT) (days_of today listed)) l2))"
    using taken_days_old [OF f(1)] by (intro remove_days_kept) blast
  then have "kept_but (old_days today l) l1 (snd (remove_days (take (length (days_of today listed) - MAX_FILES_KEPT) (days_of today listed)) l2))"
    using kept_trans [OF kept_refl [OF f(2)]] by blast
  then show "kept_but (old_days today l) l1 (snd (let (names, l) = list_names names l1; days = days_of today names in
      remove_days (take (length days - MAX_FILES_KEPT) days) l))"
    by (simp add: n Let_def)
qed

lemma rotate_kept: "kept_but (old_days today l) l (snd (rotate_to_day today l))"
  unfolding rotate_to_day_def
proof (rule kept_io_then [OF prune_kept])
  fix x l1
  show "kept_but (old_days today l) l1 (snd (open_part_file today 0 (l1\<lparr>lg_open_date := Some today, lg_open_part := 0\<rparr>)))"
    by (rule kept_trans [OF kept_refl open_part_file_kept]) simp
qed

lemma next_part_kept: "kept_but D l (snd (open_next_part l))"
proof (cases "lg_open_date l")
  case (Some d)
  show ?thesis unfolding open_next_part_def Some option.case Let_def
    by (rule kept_trans [OF kept_refl open_part_file_kept]) simp
qed (simp add: open_next_part_def kept_refl)

lemma append_line_kept: "kept_but D l (snd (append_line line l))"
  unfolding append_line_def Let_def
proof (rule kept_io_then)
  show "kept_but D l (snd (if MAX_FILE_BYTES < sat_add_u64 (lg_bytes_written l) (of_nat (length line)) then open_next_part l else (Inr (), l)))"
    by (simp add: next_part_kept kept_refl)
  fix x l1
  show "kept_but D l1 (snd (case lg_file l1 of None \<Rightarrow> (Inl (DiagIo ''diagnostics file not open after rotation''), l1)
      | Some _ \<Rightarrow> io_then (buf_write_all line l1) (\<lambda>_ l. io_then (flush_buf l) (\<lambda>_ l.
          (Inr True, l\<lparr>lg_bytes_written := sat_add_u64 (lg_bytes_written l) (of_nat (length line))\<rparr>)))))"
    by (auto intro!: kept_io_then buf_write_all_kept flush_kept split: option.split)
qed

lemma writer_append_kept:
  "kept_but (old_days (date_only (dc_time K) now_ms) l) l (snd (writer_append K r now_ms l))"
  unfolding writer_append_def Let_def
  by (rule kept_io_then) (simp_all add: rotate_kept append_line_kept)

section \<open>The salt\<close>

lemma utf8_char_of: "utf8 (map (\<lambda>b. char_of (unat b)) bs) = bs"
  by (induction bs) (simp_all add: of_char_byte(1) [OF order.strict_trans2 [OF unat_u8]])

text \<open>A salt that was created is the one that every later start loads.\<close>

lemma salt_is_kept:
  assumes "lg_faults l = []" "hm_get (lg_files l) SALT_NAME = None" "length drawn = 16" "load_or_create drawn l = (r, l')"
  shows "r = Inr drawn \<and> fst (load_or_create other l') = Inr drawn"
  using assms
  by (auto simp: load_or_create_def write_salt_def write_through_def append_file_def hm_get_insert to_array_def utf8_char_of)

end
