(* ===== verification/Diag_Props.thy ===== *)
theory Diag_Props
  imports Diag_Recorder Diag_Log_Laws "HOL-Library.Countable"
begin

text \<open>
  The properties of the diagnostics record: its line reads back, also by a later version; a
  recorder says what happened, once; the log keeps what was written, and its last record is the
  last one appended.
\<close>

section \<open>The line of a record\<close>

text \<open>The fields that came after the format was first released.\<close>

definition later_fields :: "string list" where
  "later_fields =
     [''events'', ''relay_queued'', ''relay_shaped_delay_p50_us'', ''relay_shaped_delay_max_us'',
      ''relay_dropped_at_full'', ''rtt_median_us'', ''rtt_p95_us'', ''rtt_samples'', ''rtt_source'']"

definition older_json :: "time_crate \<Rightarrow> diag_record \<Rightarrow> json" where
  "older_json T r = json_object (filter (\<lambda>(k, _). k \<notin> set later_fields) (record_fields T r))"

definition without_later :: "diag_record \<Rightarrow> diag_record" where
  "without_later r = r\<lparr>dr_events := [], dr_relay_queued := 0, dr_relay_shaped_delay_p50_us := 0,
     dr_relay_shaped_delay_max_us := 0, dr_relay_dropped_at_full := 0, dr_rtt_median_us := 0,
     dr_rtt_p95_us := 0, dr_rtt_samples := 0, dr_rtt_source := NotSampled\<rparr>"

lemma older_get: "json_get (older_json T r) k = (if k \<in> set later_fields then None else map_of (record_fields T r) k)"
proof -
  have "distinct (map fst (filter (\<lambda>(k, _). k \<notin> set later_fields) (record_fields T r)))"
    by (intro distinct_map_filter) (simp add: record_fields_def)
  moreover have "map_of (filter (\<lambda>(k, _). k \<notin> S) m) k = (if k \<in> S then None else map_of m k)" for S and m :: "(string \<times> json) list"
    by (induction m) auto
  ultimately show ?thesis by (simp add: older_json_def json_get_object)
qed

context diag_contract
begin

lemma older_round_trip:
  assumes "record_writes K r"
  shows "from_json_value K (older_json (dc_time K) r) = Inr (without_later (as_read r))"
proof -
  note w = assms [unfolded record_writes_def]
  let ?v = "older_json (dc_time K) r"
  note get = older_get [of "dc_time K" r, unfolded record_fields_def later_fields_def]
  have path: "path_from_json (dc_sock_parse K) ?v = Inr (choice_as_read (dr_path r))"
    using w addr_round_trip [of "choice_addr (dr_path r)"]
    by (cases "dr_path r") (simp_all add: path_from_json_def field_str_def field_def get)
  have failed: "failed_step_from_json ?v = Inr (dr_failed_step r)"
    by (cases "dr_failed_step r") (simp_all add: failed_step_from_json_def field_def get as_str_def)
  have later: "events_from_json ?v = Inr []" "rtt_source_from_json ?v = Inr NotSampled"
    by (simp_all add: events_from_json_def rtt_source_from_json_def get)
  have local: "local_from_json (dc_sock_parse K) ?v =
      Inr (addr_as_read (fst (dr_local_observed r)), addr_as_read (snd (dr_local_observed r)))"
    using w by (simp add: local_from_json_def field_array_def field_def get pair_of_def as_str_def addr_round_trip)
  have u32: "u32_try_from m (ucast (n :: u32)) = Inr n" "u32_try_from m 0 = Inr 0" for m n
    using unat_u32 [of n] by (simp_all add: u32_try_from_def)
  have below: "unat (n :: u32) < 18446744073709551616" for n
    using unat_u32 [of n] by simp
  show ?thesis
    unfolding from_json_value_def path failed later local
    using w
    by (simp add: field_str_def field_u64_def field_bool_def field_array_def optional_field_u64_def optional_field_u32_def
        field_def get to_array_def fingerprint_from_hex_def time_round_trip(1) addr_round_trip rows_read_back u32 below)
       (simp add: as_read_def without_later_def)
qed

end

section \<open>What a recorder holds\<close>

fun step_of :: "recorder_call \<Rightarrow> step_record list" where
  "step_of (CStep at_ms step outcome detail) =
     [\<lparr>sr_step = step, sr_at_ms = at_ms, sr_outcome = outcome, sr_detail = detail\<rparr>]"
| "step_of _ = []"

fun event_of :: "recorder_call \<Rightarrow> visit_event list" where
  "event_of (CEvent at_ms event detail) = [\<lparr>ve_event = event, ve_at_ms = at_ms, ve_detail = detail\<rparr>]"
| "event_of _ = []"

text \<open>The first 512, and a note in the place of the next.\<close>

definition cut_list :: "('a \<Rightarrow> 'a) \<Rightarrow> 'a list \<Rightarrow> 'a list" where
  "cut_list note xs =
     (if length xs \<le> MAX_RECORD_ENTRIES then xs
      else take MAX_RECORD_ENTRIES xs @ [note (xs ! MAX_RECORD_ENTRIES)])"

fun finish_results :: "build_info \<Rightarrow> recorder_call list \<Rightarrow> recorder \<Rightarrow> (diag_record \<times> (diag_record \<times> u64) option) list" where
  "finish_results B [] r = []"
| "finish_results B (c # cs) r =
     (case c of CFinish ms why \<Rightarrow> [snd (recorder_finish B ms why r)] | _ \<Rightarrow> []) @
     finish_results B cs (recorder_call_of B c r)"

lemma cut_list_snoc:
  "cut_list f (xs @ [x]) =
     (if length (cut_list f xs) < MAX_RECORD_ENTRIES then cut_list f xs @ [x]
      else if length (cut_list f xs) = MAX_RECORD_ENTRIES then cut_list f xs @ [f x]
      else cut_list f xs)"
  by (auto simp: cut_list_def nth_append)

lemma find_append: "List.find P (xs @ ys) = (case List.find P xs of Some x \<Rightarrow> Some x | None \<Rightarrow> List.find P ys)"
  by (induction xs) auto

lemma recorder_holds:
  assumes r_def: "r = fold (recorder_call_of B) calls (recorder_new peer now_ms)"
  shows "rc_steps r = cut_list (sr_detail_update (\<lambda>_. truncation_note ''steps'')) (concat (map step_of calls)) \<and>
    rc_events r = cut_list (ve_detail_update (\<lambda>_. truncation_note ''events'')) (concat (map event_of calls)) \<and>
    rc_failed_step r = map_option sr_step (List.find (\<lambda>s. sr_outcome s = Outcome_Fail) (concat (map step_of calls))) \<and>
    rc_peer r = peer \<and> rc_started_at_ms r = now_ms"
  unfolding r_def
proof (induction calls rule: rev_induct)
  case Nil
  then show ?case by (simp add: recorder_new_def cut_list_def)
next
  case (snoc c calls)
  then show ?case
    by (cases c) (auto simp: recorder_step_def recorder_event_def set_rtt_def set_attempt_def set_session_def set_gate_ms_def
        set_local_observed_primary_def set_local_observed_secondary_def set_peer_observed_def set_path_def set_relay_stats_def
        set_reason_hint_def set_mapping_def recorder_finish_def Let_def cut_list_snoc find_append split: option.split)
qed

text \<open>Once an attempt has finished, the record it finished with is what every later call gives.\<close>

lemma finished_stays:
  "rc_finished r = Some f \<Longrightarrow> rc_finished (recorder_call_of B c r) = Some f"
  by (cases c) (auto simp: recorder_step_def recorder_event_def set_rtt_def set_attempt_def set_session_def set_gate_ms_def
      set_local_observed_primary_def set_local_observed_secondary_def set_peer_observed_def set_path_def set_relay_stats_def
      set_reason_hint_def set_mapping_def recorder_finish_def Let_def)

lemma finished_results:
  "rc_finished r = Some f \<Longrightarrow> finish_results B calls r = replicate (length (finish_results B calls r)) (f, None)"
proof (induction calls arbitrary: r)
  case (Cons c calls)
  note IH = Cons.IH [OF finished_stays [OF Cons.prems]]
  show ?case
  proof (cases c)
    case (CFinish ms why)
    then have "snd (recorder_finish B ms why r) = (f, None)" using Cons.prems by (simp add: recorder_finish_def)
    then show ?thesis using IH [of B c] CFinish by simp
  qed (use IH [of B c] in simp_all)
qed simp

lemma unfinished_stays:
  "rc_finished r = None \<Longrightarrow> (\<And>ms why. c \<noteq> CFinish ms why) \<Longrightarrow> rc_finished (recorder_call_of B c r) = None"
  by (cases c) (auto simp: recorder_step_def recorder_event_def set_rtt_def set_attempt_def set_session_def set_gate_ms_def
      set_local_observed_primary_def set_local_observed_secondary_def set_peer_observed_def set_path_def set_relay_stats_def
      set_reason_hint_def set_mapping_def Let_def)

lemma one_write:
  "rc_finished r = None \<Longrightarrow>
   (case finish_results B calls r of
      [] \<Rightarrow> True
    | a # as \<Rightarrow> snd a = Some (fst a, dr_ended_at_ms (fst a)) \<and> as = replicate (length as) (fst a, None))"
proof (induction calls arbitrary: r)
  case (Cons c calls)
  show ?case
  proof (cases "\<exists>ms why. c = CFinish ms why")
    case True
    then obtain ms why where c: "c = CFinish ms why" by blast
    let ?f = "snapshot B ms why r"
    have f: "recorder_finish B ms why r = (r\<lparr>rc_finished := Some ?f\<rparr>, ?f, Some (?f, dr_ended_at_ms ?f))"
      using Cons.prems by (simp add: recorder_finish_def Let_def)
    show ?thesis using finished_results [of "r\<lparr>rc_finished := Some ?f\<rparr>" ?f B calls] by (simp add: c f)
  next
    case False
    then have "finish_results B (c # calls) r = finish_results B calls (recorder_call_of B c r)" by (cases c) simp_all
    then show ?thesis using Cons.IH [OF unfinished_stays [OF Cons.prems]] False by simp
  qed
qed simp

section \<open>The properties\<close>

text \<open>C18: Whatever is recorded, the line of a record reads back as the record with its free text
  cut and its addresses in the form of the wire, it is one line, and a record written before the
  later fields existed reads back with those fields empty.\<close>

theorem diag_round_trip:
  assumes "diag_contract K" "record_writes K r"
  shows "from_json_line K (to_json_line K r) = Inr (as_read r) \<and>
    from_json_value K (older_json (dc_time K) r) = Inr (without_later (as_read r)) \<and>
    CHR 0x0A \<notin> set (to_json_line K r)"
  using diag_contract.line_facts(1,3) [OF assms] diag_contract.older_round_trip [OF assms] by simp

text \<open>C17: Whatever calls are made on a recorder, it holds the first 512 steps and events in order
  and a note for what is missing, the first step that failed, also one that was dropped, and all
  calls of finish give the one record of the first, which alone is written.\<close>

theorem recorder_tells_once:
  "rc_steps (fold (recorder_call_of B) calls (recorder_new peer now_ms)) =
     cut_list (sr_detail_update (\<lambda>_. truncation_note ''steps'')) (concat (map step_of calls)) \<and>
   rc_events (fold (recorder_call_of B) calls (recorder_new peer now_ms)) =
     cut_list (ve_detail_update (\<lambda>_. truncation_note ''events'')) (concat (map event_of calls)) \<and>
   rc_failed_step (fold (recorder_call_of B) calls (recorder_new peer now_ms)) =
     map_option sr_step (List.find (\<lambda>s. sr_outcome s = Outcome_Fail) (concat (map step_of calls))) \<and>
   (case finish_results B calls (recorder_new peer now_ms) of
      [] \<Rightarrow> True
    | a # as \<Rightarrow> snd a = Some (fst a, dr_ended_at_ms (fst a)) \<and> as = replicate (length as) (fst a, None))"
proof -
  have "rc_finished (recorder_new peer now_ms) = None" by (simp add: recorder_new_def)
  from one_write [OF this] show ?thesis using recorder_holds [OF refl, of B calls peer now_ms] by blast
qed

text \<open>C16: Whatever fails while a record is appended, no file of the log loses a byte, but for the
  files of a day that at least seven later days follow.\<close>

theorem log_never_loses:
  "case hm_get (lg_files l) name of
     None \<Rightarrow> True
   | Some c \<Rightarrow>
       (\<exists>t. hm_get (lg_files (snd (writer_append K r now_ms l))) name = Some (c @ t)) \<or>
       (\<exists>d. day_prefix name = Some d \<and>
         7 \<le> card {e \<in> insert (date_only (dc_time K) now_ms) (log_days l). str_less d e})"
  using writer_append_kept [of K now_ms l r]
  by (auto simp: kept_but_def old_days_def MAX_FILES_KEPT_def split: option.split)

fun log_appends :: "diag_crates \<Rightarrow> (diag_record \<times> u64) list \<Rightarrow> diag_log \<Rightarrow> (diag_error + bool) list \<times> diag_log" where
  "log_appends K [] l = ([], l)"
| "log_appends K ((r, now_ms) # rs) l =
     (let (result, l) = writer_append K r now_ms l; (results, l) = log_appends K rs l in (result # results, l))"

definition empty_log :: diag_log where
  "empty_log = \<lparr>lg_files = [], lg_faults = [], lg_open_date = None, lg_open_part = 0, lg_file = None,
     lg_bytes_written = 0\<rparr>"

text \<open>The clock does not go back to an earlier day.\<close>

definition days_forward :: "time_crate \<Rightarrow> (diag_record \<times> u64) list \<Rightarrow> bool" where
  "days_forward T rs \<longleftrightarrow>
     sorted_wrt (\<lambda>(_, t) (_, u). date_only T t = date_only T u \<or> str_less (date_only T t) (date_only T u)) rs"

lemma log_appends_ok:
  assumes K: "diag_contract K"
  shows "open_ok n d l \<and> (\<forall>(r, t) \<in> set rs. date_only (dc_time K) t = d \<or> str_less d (date_only (dc_time K) t)) \<or> fresh_ok l \<Longrightarrow>
    \<forall>(r, t) \<in> set rs. loggable K r \<and> date_shaped (date_only (dc_time K) t) \<Longrightarrow> days_forward (dc_time K) rs \<Longrightarrow>
    n + 2 * length rs < 2 ^ 32 \<Longrightarrow> rs \<noteq> [] \<Longrightarrow>
    \<exists>l' m. log_appends K rs l = (replicate (length rs) (Inr True), l') \<and>
      open_ok m (date_only (dc_time K) (snd (last rs))) l' \<and>
      (\<forall>peer. wanted peer (as_read (fst (last rs))) \<longrightarrow> last_record K peer l' = (Inr (Some (as_read (fst (last rs)))), l'))"
proof (induction rs arbitrary: n d l)
  case (Cons a rs)
  obtain r t where a: "a = (r, t)" by fastforce
  let ?d = "date_only (dc_time K) t"
  have step: "open_ok n d l \<and> (?d = d \<or> str_less d ?d) \<or> fresh_ok l" "loggable K r" "date_shaped ?d" "Suc n < 2 ^ 32"
    using Cons.prems by (auto simp: a)
  have one: "\<exists>l1. writer_append K r t l = (Inr True, l1) \<and> open_ok (Suc (Suc n)) ?d l1 \<and>
      (wanted peer (as_read r) \<longrightarrow> last_record K peer l1 = (Inr (Some (as_read r)), l1))" for peer
    by (rule diag_contract.writer_append_ok [OF K step(1,2) refl step(3,4)])
  then obtain l1 where l1: "writer_append K r t l = (Inr True, l1)" "open_ok (Suc (Suc n)) ?d l1" by blast
  have read: "last_record K peer l1 = (Inr (Some (as_read r)), l1)" if "wanted peer (as_read r)" for peer
    using one [of peer] that l1(1) by auto
  show ?case
  proof (cases "rs = []")
    case True
    then show ?thesis using l1 read by (auto simp: a)
  next
    case False
    have "\<exists>l' m. log_appends K rs l1 = (replicate (length rs) (Inr True), l') \<and>
      open_ok m (date_only (dc_time K) (snd (last rs))) l' \<and>
      (\<forall>peer. wanted peer (as_read (fst (last rs))) \<longrightarrow> last_record K peer l' = (Inr (Some (as_read (fst (last rs)))), l'))"
    proof (rule Cons.IH [where n = "Suc (Suc n)" and d = ?d])
      show "open_ok (Suc (Suc n)) ?d l1 \<and> (\<forall>(r, u) \<in> set rs. date_only (dc_time K) u = ?d \<or> str_less ?d (date_only (dc_time K) u)) \<or>
          fresh_ok l1"
        using l1(2) Cons.prems(3) by (fastforce simp: days_forward_def a)
    qed (use Cons.prems False in \<open>auto simp: days_forward_def a\<close>)
    then show ?thesis using l1(1) False by (auto simp: a)
  qed
qed simp

text \<open>C15: From an empty directory, when the system answers and no day comes before an earlier one,
  every record that one writer appends is written, the last record of the log is the last one
  appended, at most seven days are kept, and every file is within the cap or a single line.\<close>

theorem last_record_is_last:
  assumes "diag_contract K" "rs \<noteq> []" "list_all (\<lambda>(r, t). loggable K r \<and> date_shaped (date_only (dc_time K) t)) rs"
    and "days_forward (dc_time K) rs" "length rs < 2 ^ 31"
  shows "fst (log_appends K rs (writer_new empty_log)) = replicate (length rs) (Inr True) \<and>
    fst (last_record K None (snd (log_appends K rs (writer_new empty_log)))) = Inr (Some (as_read (fst (last rs)))) \<and>
    card (log_days (snd (log_appends K rs (writer_new empty_log)))) \<le> 7 \<and>
    list_all (\<lambda>(_, c). fits c) (lg_files (snd (log_appends K rs (writer_new empty_log))))"
proof -
  have "fresh_ok (writer_new empty_log)" by (simp add: fresh_ok_def writer_new_def empty_log_def)
  then obtain l m where l: "log_appends K rs (writer_new empty_log) = (replicate (length rs) (Inr True), l)"
    "open_ok m (date_only (dc_time K) (snd (last rs))) l"
    "\<And>peer. wanted peer (as_read (fst (last rs))) \<Longrightarrow> last_record K peer l = (Inr (Some (as_read (fst (last rs)))), l)"
    using log_appends_ok [OF assms(1), of 0 "[]" "writer_new empty_log" rs] assms(2-5) by (auto simp: list_all_iff)
  moreover have "\<forall>(name, c) \<in> set (lg_files l). fits c" using l(2) unfolding open_ok_def log_file_ok_def by blast
  ultimately show ?thesis by (auto simp: wanted_def open_ok_def MAX_FILES_KEPT_def list_all_iff)
qed

section \<open>Crates that keep the contract, and two records\<close>

instance json :: countable
  by countable_datatype

definition toy_time :: time_crate where
  "toy_time =
     \<lparr>tc_format = (\<lambda>n. if 0 \<le> n then Some (replicate (nat n) CHR ''t'') else None),
      tc_parse = (\<lambda>s. Some (int (length s))),
      tc_date = (\<lambda>n. Some (2024, 1, 1 + nat (n div 86400000000000)))\<rparr>"

definition demo_socket :: socket_addr where "demo_socket = V4 [10, 0, 0, 1] 4433"

definition demo_diag :: "reason \<Rightarrow> diag_record" where
  "demo_diag why =
     \<lparr>dr_attempt = replicate 16 7, dr_session = 3, dr_gate_ms = 9, dr_peer = [1, 2, 3, 4],
      dr_started_at_ms = 0, dr_ended_at_ms = 1,
      dr_steps = [\<lparr>sr_step = Step_GateDial, sr_at_ms = 1, sr_outcome = Outcome_Ok, sr_detail = ''dialed''\<rparr>],
      dr_events = [\<lparr>ve_event = Visit_Knock, ve_at_ms = 2, ve_detail = ''knock''\<rparr>],
      dr_failed_step = None, dr_local_observed = (from_socket_addr demo_socket, default_addr),
      dr_peer_observed = default_addr, dr_mapping = Mapping_Unknown, dr_gate_carried_traffic = True,
      dr_gate_bytes = 100, dr_relay_queued = 1, dr_relay_shaped_delay_p50_us = 5,
      dr_relay_shaped_delay_max_us = 5, dr_relay_dropped_at_full = 0,
      dr_path = Choice_Relay (from_socket_addr demo_socket), dr_path_rtt_us = 20,
      dr_rtt_median_us = 20, dr_rtt_p95_us = 30, dr_rtt_samples = 4, dr_rtt_source = Rtt_Quic,
      dr_reason = why, dr_version = ''0.1.0'', dr_platform = ''linux''\<rparr>"

definition first_value :: json where "first_value = record_json toy_time (demo_diag Reason_Ok)"
definition second_value :: json where "second_value = record_json toy_time (demo_diag Reason_Internal)"

definition toy_index :: "json \<Rightarrow> nat" where
  "toy_index v = (if v = first_value then 0 else if v = second_value then 1 else 2 + to_nat v)"

definition toy_value :: "nat \<Rightarrow> json" where
  "toy_value n = (if n = 0 then first_value else if n = 1 then second_value else from_nat (n - 2))"

definition toy_crates :: diag_crates where
  "toy_crates =
     \<lparr>dc_time = toy_time,
      dc_json_print = (\<lambda>v. Some (replicate (Suc (toy_index v)) CHR ''1'')),
      dc_json_parse = (\<lambda>s. if s = [] \<or> hd s \<noteq> CHR ''1'' then None else Some (toy_value (length s - 1))),
      dc_sock_parse = (\<lambda>s. if s = socket_addr_string demo_socket then Some demo_socket else None)\<rparr>"

lemma toy_value_index: "toy_value (toy_index v) = v"
  by (simp add: toy_value_def toy_index_def)

lemma digits_in_numeral:
  "digits_in (numeral k) b n = (if n < b then [n] else digits_in (pred_numeral k) b (n div b) @ [n mod b])"
  by (simp add: numeral_eq_Suc)

lemma demo_socket_text: "\<exists>s. socket_addr_string demo_socket = CHR ''1'' # s"
  by (simp add: demo_socket_def v4_string_def decimal_def digits_in_numeral digit_char_def char_of_def bit_0)

lemma ascii_replicate: "(of_char c :: nat) < 128 \<Longrightarrow> ascii_text (replicate n c)"
  by (induction n) simp_all

lemma toy_contract: "diag_contract toy_crates"
proof
  fix v s assume p: "dc_json_print toy_crates v = Some s"
  then have s: "s = replicate (Suc (toy_index v)) CHR ''1''" by (simp add: toy_crates_def)
  show "dc_json_parse toy_crates s = Some v" by (simp add: s toy_crates_def toy_value_index)
  show "utf8_valid (utf8 s) \<and> CHR 0x0A \<notin> set s \<and> CHR 0x0D \<notin> set s"
    using ascii_utf8 [OF ascii_replicate, of "CHR ''1''"] by (simp only: s) (simp del: replicate.simps)
next
  fix v show "\<exists>s. dc_json_print toy_crates v = Some s" by (simp add: toy_crates_def)
next
  fix s assume blank: "list_all (\<lambda>c. is_whitespace (code_point c)) (chars_of (utf8 s))"
  have "s = [] \<or> hd s \<noteq> CHR ''1''"
  proof (rule ccontr)
    assume "\<not> ?thesis"
    then obtain t where "s = CHR ''1'' # t" by (cases s) auto
    then show False using blank by (simp add: chars_of_def char_len_def is_whitespace_def)
  qed
  then show "dc_json_parse toy_crates s = None" by (auto simp: toy_crates_def)
next
  fix n s assume "tc_format (dc_time toy_crates) n = Some s"
  then have s: "s = replicate (nat n) CHR ''t''" "0 \<le> n" by (auto simp: toy_crates_def toy_time_def split: if_splits)
  have "ascii_text s" unfolding s by (rule ascii_replicate) simp
  then show "tc_parse (dc_time toy_crates) s = Some n \<and> utf8_valid (utf8 s)"
    using s ascii_utf8 by (simp add: toy_crates_def toy_time_def)
next
  fix s show "dc_sock_parse toy_crates (''family='' @ s) = None"
    using demo_socket_text by (auto simp: toy_crates_def)
qed

interpretation toy_diag: diag_contract toy_crates
  by (rule toy_contract)

lemma demo_reads: "addr_reads toy_crates (from_socket_addr demo_socket)" "addr_reads toy_crates default_addr"
  by (simp_all add: addr_reads_def addr_wf_def demo_socket_def from_socket_addr_def to_socket_addr_def toy_crates_def default_addr_def)

lemma demo_writes: "record_writes toy_crates (demo_diag why)"
  using demo_reads
  by (simp add: record_writes_def demo_diag_def time_writes_def toy_time_def ascii_utf8) (simp add: toy_crates_def toy_time_def)

lemma demo_loggable: "loggable toy_crates (demo_diag Reason_Ok)" "loggable toy_crates (demo_diag Reason_Internal)"
proof -
  have "dc_time toy_crates = toy_time" by (simp add: toy_crates_def)
  then have "length (to_json_line toy_crates (demo_diag Reason_Ok)) \<le> 2" "length (to_json_line toy_crates (demo_diag Reason_Internal)) \<le> 2"
    by (simp_all add: to_json_line_def first_value_def [symmetric] second_value_def [symmetric])
       (simp_all add: toy_crates_def toy_index_def)
  then show "loggable toy_crates (demo_diag Reason_Ok)" "loggable toy_crates (demo_diag Reason_Internal)"
    by (simp_all add: loggable_def demo_writes)
qed

lemma demo_dates: "date_only toy_time 0 = ''2024-01-01''" "date_only toy_time 86400000 = ''2024-01-02''"
  by (simp_all add: date_only_def toy_time_def padded_def decimal_def digits_in_numeral digit_char_def char_of_def bit_0)

theorem diag_round_trip_witness:
  "from_json_line toy_crates (to_json_line toy_crates (demo_diag Reason_Ok)) = Inr (demo_diag Reason_Ok) \<and>
   from_json_value toy_crates (older_json toy_time (demo_diag Reason_Ok)) = Inr (without_later (demo_diag Reason_Ok))"
proof -
  have "addr_as_read (from_socket_addr demo_socket) = from_socket_addr demo_socket" "addr_as_read default_addr = default_addr"
    by (simp_all add: addr_as_read_def demo_socket_def from_socket_addr_def to_socket_addr_def default_addr_def)
  then have "as_read (demo_diag Reason_Ok) = demo_diag Reason_Ok"
    by (simp add: as_read_def demo_diag_def cap_text_def MAX_FREE_TEXT_LEN_def)
  moreover have "dc_time toy_crates = toy_time" by (simp add: toy_crates_def)
  ultimately show ?thesis using diag_round_trip [OF toy_diag.diag_contract_axioms demo_writes, of Reason_Ok] by simp
qed

theorem last_record_is_last_witness:
  "fst (last_record toy_crates None (snd (log_appends toy_crates
       [(demo_diag Reason_Ok, 0), (demo_diag Reason_Internal, 86400000)] (writer_new empty_log)))) =
     Inr (Some (as_read (demo_diag Reason_Internal)))"
proof -
  let ?rs = "[(demo_diag Reason_Ok, 0), (demo_diag Reason_Internal, 86400000)]"
  have t: "dc_time toy_crates = toy_time" by (simp add: toy_crates_def)
  have shaped: "date_shaped ''2024-01-01''" "date_shaped ''2024-01-02''"
    by (simp_all add: date_shaped_def is_ascii_digit_def upt_rec)
  have "str_less ''2024-01-01'' ''2024-01-02''" by (simp add: str_less_def)
  then have fwd: "days_forward (dc_time toy_crates) ?rs" by (simp add: days_forward_def t demo_dates)
  have log: "list_all (\<lambda>(r, t). loggable toy_crates r \<and> date_shaped (date_only (dc_time toy_crates) t)) ?rs"
    using shaped by (simp add: t demo_dates demo_loggable)
  show ?thesis using last_record_is_last [OF toy_diag.diag_contract_axioms _ log fwd] by simp
qed

end
