(* ===== verification/Spec2Isabelle.thy ===== *)
theory Spec2Isabelle
  imports Event_Props Recording_Props View_Props Live_Props Net_Props Gate_Props Relay_Props Gate_Server_Props Porch_Props Client_Props Diag_Props
begin

text \<open>
  A verification library for mosschat, the crates \<open>mosschat-core\<close> and \<open>mosschat-net\<close>.

  \<^bold>\<open>The program.\<close> Two houses exchange signed events over a QUIC connection. The core crate
  holds what an event is (\<open>event/envelope.rs\<close>, \<open>event/body.rs\<close>, \<open>event/signed.rs\<close>), the state
  machine that admits events into a visit's recording (\<open>event/ingest.rs\<close>), the local database
  (\<open>store.rs\<close>) and the pages rendered from recordings and replayed from the database
  (\<open>view/mod.rs\<close>). The net crate brings two houses together. A house registers at a gatehouse
  (\<open>gate/server.rs\<close>), which passes sealed introductions on and relays datagrams between two
  houses that agreed (\<open>gate/wire.rs\<close>, \<open>gate/mod.rs\<close>); the house's side of that is \<open>gate/client.rs\<close>.
  All its traffic goes through one socket (\<open>sock.rs\<close>) over a table of paths with their shapers
  (\<open>path.rs\<close>): relayed datagrams, probes and direct datagrams are told apart there, before
  quinn sees anything. A direct path is found by gathering, offering and probing candidates
  until one of them wins (\<open>punch.rs\<close>), same-network discovery announces a house by multicast
  (\<open>discovery.rs\<close>), a live path is watched and its addresses are remembered (\<open>live.rs\<close>), and what
  happened in an attempt is recorded and logged (\<open>diag.rs\<close>). A discovered address goes into the
  cache and from there into the candidate table of an attempt; porch frames carry candidates
  to the peer and goodbyes to its liveness; an accepted knock registers a session and a path at
  the socket.

  \<^bold>\<open>Theories and code, the core crate.\<close>
  \<^item> \<open>Prelude\<close>: words, results as \<open>error + 'a\<close>, insertion maps (\<open>hashmap\<close>), durations.
  \<^item> \<open>Cbor\<close>: the interface \<open>minicbor_contract\<close> of the CBOR crate, and the writer and reader of
    RFC 8949 that interprets it.
  \<^item> \<open>Envelope\<close>, \<open>Body\<close>, \<open>Body_Laws\<close>, \<open>Signed\<close>, \<open>Identity\<close>: \<open>Envelope\<close>, \<open>Body\<close>, \<open>SignedEvent\<close>,
    with every limit and every error; blake3 and ed25519 are the parameter \<open>crypto\<close>.
  \<^item> \<open>Recording\<close>, \<open>Recording_Laws\<close>, \<open>Recording_Admission\<close>: \<open>Recording::ingest\<close>, its rules for each
    body, and \<open>honour_drop_request\<close>; \<open>Demo\<close> and \<open>Demo_Visit\<close> hold a concrete visit.
  \<^item> \<open>View\<close>, \<open>Store\<close>, \<open>Replay\<close>: the pages, the tables with their operations, and the replay.

  \<^bold>\<open>Theories and code, the way to a peer.\<close>
  \<^item> \<open>NetAddr\<close>, \<open>Probe\<close>, \<open>Candidate\<close>: wire addresses, probes and porch frames, the address
    predicates and \<open>gather\<close>.
  \<^item> \<open>Liveness\<close>, \<open>Address_Cache\<close>: \<open>PeerLiveness\<close> and \<open>AddressCache\<close>.
  \<^item> \<open>Attempt\<close>, \<open>Attempt_Laws\<close>: the candidate table of one upgrade attempt and its rule.
  \<^item> \<open>Window_Limits\<close>, \<open>Pong_Limiter\<close>, \<open>Announce\<close>, \<open>Discovery\<close>: the two interfaces \<open>bounded_memory\<close> and
    \<open>fixed_window\<close> that the limiters share, the pong limiter, the announce frame with its
    replay guard, and the handler of one datagram.
  \<^item> \<open>F64\<close>, \<open>Rate_Limiter\<close>, \<open>Relay_Shaper\<close>, \<open>Shaper_Laws\<close>: IEEE 754 arithmetic by exact operation
    and rounding, the interface \<open>token_bucket\<close>, the gate's \<open>RateLimiter\<close> and the \<open>RelayShaper\<close>.
  \<^item> \<open>Path_Table\<close>: \<open>PathEntry\<close>, \<open>PathTable\<close> and the congestion controller that starts over.
  \<^item> \<open>Porch\<close>, \<open>Porch_Laws\<close>: \<open>PorchSocket\<close>, its sources and leases, probe keys and queues, relay
    sessions, receiving with its two loops, sending, and the sequences of calls on it.

  \<^bold>\<open>Theories and code, the gate.\<close>
  \<^item> \<open>Format_Text\<close>, \<open>Gate_Wire\<close>: numbers and addresses as text, the control frames with their
    length prefixes, and the relay datagram.
  \<^item> \<open>Seen_Set\<close>, \<open>Member_List\<close>: the hashes of accepted bodies, and the member list as text.
  \<^item> \<open>Gate_Server\<close>: \<open>ServerState\<close> and every handler, over a heap of registrations. \<open>Seating\<close> is the
    abstract gate; \<open>Gate_Laws\<close> and \<open>Gate_Steps\<close> show that the gate refines it; \<open>Gate_Demo\<close> is a run.
  \<^item> \<open>Seal\<close>, \<open>Invite_Store\<close>, \<open>Gate_Client\<close>, \<open>Client_Laws\<close>: the sealed introduction, the invites, and
    the client with its calls and its reader.

  \<^bold>\<open>Theories and code, the diagnostics.\<close> \<open>Diag_Text\<close> and \<open>Diag_Record\<close>: the names, the texts and the
  record with its line of JSON; \<open>Diag_Recorder\<close>: \<open>Recorder\<close>; \<open>Diag_Log\<close>: \<open>DiagWriter\<close>, the reader and
  the install salt, over a directory and the answers of the system; \<open>Diag_Laws\<close>, \<open>Diag_Log_Laws\<close>:
  the contract of the crates and the laws of the log.

  The properties are in \<open>Event_Props\<close>, \<open>Recording_Props\<close>, \<open>View_Props\<close>, \<open>Live_Props\<close>, \<open>Net_Props\<close>,
  \<open>Gate_Props\<close>, \<open>Relay_Props\<close>, \<open>Gate_Server_Props\<close>, \<open>Porch_Props\<close>, \<open>Client_Props\<close> and \<open>Diag_Props\<close>.

  \<^bold>\<open>How state and errors are modelled.\<close> A struct is a record, an operation on \<open>&mut self\<close> a
  function from the state to the new state and its result, an error a value of the sum type, a
  panic of \<open>Duration\<close> arithmetic the value \<open>None\<close>. An operation that can fail returns the state
  along with its error, as it was left, so that a rejected event that changes nothing is a
  theorem (\<open>apply_body_rejected\<close>, \<open>apply_leave_eq\<close>) and not a consequence of the types. Integers
  keep their width as words where the code does arithmetic on them. A \<open>HashMap\<close> is an
  association list with distinct keys; where the code iterates over one, the result is shown
  not to depend on the order. An \<open>Arc\<close> is an index into a heap. A time is a natural number of
  nanoseconds: \<open>Instant\<close> has no value before its origin.

  \<^bold>\<open>Steps and interleaving.\<close> A run is an explicit list of calls or events with their times, so
  every interleaving of them is a list. A handler or a method is one step. A call that waits
  for an answer is two, one that sends and leaves a pending entry in place of the oneshot
  channel, and one that goes on when the answer is there. What the clock shows, what is drawn
  at random and what the system answers are arguments of the step; that drawn session ids
  are distinct is a hypothesis where it is needed. Where a method releases its lock and takes it
  again, the model still is one step: \<open>queue_probes\<close> copies the armed keys before it decodes and
  queues, and \<open>Recorder::finish\<close> takes its snapshot before it looks whether the attempt has
  finished.

  \<^bold>\<open>The code around.\<close> Crates are records of functions with the documented behaviour that is
  relied on as a hypothesis, and an instance that meets it: \<open>minicbor_contract\<close> (\<open>rfc8949\<close>),
  \<open>seal_contract\<close> for the curve and the cipher (\<open>toy_seal\<close>), \<open>diag_contract\<close> for \<open>serde_json\<close>, \<open>time\<close>
  and the parser of socket addresses (\<open>toy_crates\<close>).

  \<^bold>\<open>What the lemmas show.\<close> The decoders accept exactly the canonical encodings. A reachable
  recording is well formed, a rejected event leaves it alone, revocations and departures bind,
  and the database replays to the live recording. A peer's liveness only decays, never too
  early and within a bound; the cache stays small and keeps what answered. An attempt admits
  only candidates that someone stands behind and names a winner only after three answers in a
  row. A datagram of the local network leaves an address only if a friend signed it, freshly, from this network.
  The gate refines an abstract seating, holds a session only for two houses of which one asked
  and the other accepted, and relays each datagram unchanged to the other side of its session.
  A client opens a path only to a peer it asked or let in, an invite is spent once, and both
  stay within their bounds. The shaper is a bounded queue at a bounded rate that wakes who
  waits. The socket returns from every call, gives quinn exactly the segments that are no
  probes, and nothing whose source on the wire is a stranger's. A record reads back from its
  line, and the log keeps what was written, whatever fails.

  \<^bold>\<open>Bounds and fuel.\<close> Recursion is structural or ends by a measure (\<open>evict_oldest\<close> drops one
  element per call); no fuel is used. The loop over the segments of a buffer, \<open>filter_loop\<close>, is a
  partial function whose value is proved to exist; the loop of \<open>poll_recv\<close> goes over the
  answers of the system, a finite list, since what ends it is that the system has no more
  datagrams. The estimator of an attempt multiplies a duration by 7, so the claims about
  attempts bound the times of its pongs by an eighth of the largest \<open>Duration\<close>. The replay round
  trip needs seqs below 2 to the 63, where the database's signed integers keep their order.

  \<^bold>\<open>Not modelled.\<close> The tasks, sockets, timers and QUIC streams that drive these operations, among
  them the driver of an upgrade attempt (\<open>run_doorbell\<close> and what it spawns, in \<open>punch.rs\<close>); the
  headless house (\<open>house.rs\<close>), which connects these parts and prints; the certificate verifier
  (\<open>authed.rs\<close>), which reads X.509 with crates and hands the key it found to the gate; the
  cryptography itself, SQLite and the crates named above; key files and passphrases; the
  command line and the two crates that hold no code yet.
\<close>

end
